(* ===== verification/Prelude.thy ===== *)
theory Prelude
  imports Main "HOL-Library.AList" "HOL-Library.Monad_Syntax" "HOL-Library.Word"
begin

text \<open>
  What every component of the development shares.

  \<^item> Programs that can panic (Rust) or crash (C) return an \<open>option\<close>: \<open>None\<close> is the
    abnormal end of the thread, \<open>Some\<close> the value returned. The type synonym \<open>'a panics\<close>
    marks that use; the \<open>do\<close> notation of the library is its sequencing.
  \<^item> Loops over a vector are \<open>mapM\<close> and \<open>foldM\<close>, which stop at the first panic.
  \<^item> Rust strings are the lists of their UTF-8 bytes; \<open>str_slice\<close> is the indexing
    \<open>&s[a..b]\<close>, which panics out of range or inside a character.
  \<^item> The collections \<open>no_panic\<close> (a call returns) and \<open>wf_pres\<close> (an operation keeps an
    invariant) carry the component proofs.
\<close>

named_theorems no_panic \<open>the call returns a value\<close>
named_theorems wf_pres \<open>the operation keeps the invariant of its component\<close>

type_synonym 'a panics = "'a option"

section \<open>Loops that may panic\<close>

primrec mapM :: "('a \<Rightarrow> 'b panics) \<Rightarrow> 'a list \<Rightarrow> 'b list panics" where
  "mapM f [] = Some []"
| "mapM f (x # xs) = do { y \<leftarrow> f x; ys \<leftarrow> mapM f xs; Some (y # ys) }"

primrec foldM :: "('a \<Rightarrow> 's \<Rightarrow> 's panics) \<Rightarrow> 'a list \<Rightarrow> 's \<Rightarrow> 's panics" where
  "foldM f [] s = Some s"
| "foldM f (x # xs) s = do { s' \<leftarrow> f x s; foldM f xs s' }"

lemma mapM_total [no_panic]:
  "(\<And>x. x \<in> set xs \<Longrightarrow> f x = Some (g x)) \<Longrightarrow> mapM f xs = Some (map g xs)"
  by (induction xs) auto

lemma mapM_Some_length: "mapM f xs = Some ys \<Longrightarrow> length ys = length xs"
  by (induction xs arbitrary: ys) (auto split: Option.bind_splits)

lemma mapM_Some_nth: "mapM f xs = Some ys \<Longrightarrow> i < length xs \<Longrightarrow> f (xs ! i) = Some (ys ! i)"
proof (induction xs arbitrary: ys i)
  case Nil
  then show ?case by simp
next
  case (Cons x xs)
  then show ?case by (cases i) (auto split: Option.bind_splits)
qed

lemma mapM_Some_iff:
  "mapM f xs = Some ys \<longleftrightarrow> length ys = length xs \<and> (\<forall>i < length xs. f (xs ! i) = Some (ys ! i))"
proof
  assume "mapM f xs = Some ys"
  then show "length ys = length xs \<and> (\<forall>i < length xs. f (xs ! i) = Some (ys ! i))"
    by (auto dest: mapM_Some_length mapM_Some_nth)
next
  assume a: "length ys = length xs \<and> (\<forall>i < length xs. f (xs ! i) = Some (ys ! i))"
  then have "mapM f xs = Some (map (the \<circ> f) xs)"
    by (intro mapM_total) (auto simp: in_set_conv_nth)
  moreover have "map (the \<circ> f) xs = ys"
    using a by (intro nth_equalityI) auto
  ultimately show "mapM f xs = Some ys" by simp
qed

lemma mapM_cong [fundef_cong]:
  "xs = ys \<Longrightarrow> (\<And>x. x \<in> set ys \<Longrightarrow> f x = g x) \<Longrightarrow> mapM f xs = mapM g ys"
  by (induction ys arbitrary: xs) (auto cong: Option.bind_cong)

lemma foldM_append:
  "foldM f (xs @ ys) s = do { s' \<leftarrow> foldM f xs s; foldM f ys s' }"
  by (induction xs arbitrary: s) (auto split: Option.bind_splits)

lemma foldM_cong [fundef_cong]:
  "xs = ys \<Longrightarrow> s = t \<Longrightarrow> (\<And>x s. x \<in> set ys \<Longrightarrow> f x s = g x s) \<Longrightarrow> foldM f xs s = foldM g ys t"
proof (induction ys arbitrary: xs s t)
  case Nil
  then show ?case by simp
next
  case (Cons y ys)
  then show ?case by (auto intro!: Option.bind_cong)
qed

lemma foldM_inv:
  assumes "foldM f xs s = Some s'" and "P s"
    and "\<And>x s s'. x \<in> set xs \<Longrightarrow> P s \<Longrightarrow> f x s = Some s' \<Longrightarrow> P s'"
  shows "P s'"
  using assms
proof (induction xs arbitrary: s)
  case Nil
  then show ?case by simp
next
  case (Cons x xs)
  from Cons.prems(1) obtain s1 where s1: "f x s = Some s1" "foldM f xs s1 = Some s'"
    by (auto split: Option.bind_splits)
  have "P s1" using Cons.prems(2,3) s1(1) by auto
  then show ?case using Cons.IH [OF s1(2)] Cons.prems(3) by auto
qed

lemma foldM_total:
  assumes "P s" and "\<And>x s. x \<in> set xs \<Longrightarrow> P s \<Longrightarrow> \<exists>s'. f x s = Some s' \<and> P s'"
  shows "\<exists>s'. foldM f xs s = Some s' \<and> P s'"
  using assms
proof (induction xs arbitrary: s)
  case Nil
  then show ?case by simp
next
  case (Cons x xs)
  from Cons.prems obtain s1 where "f x s = Some s1" "P s1" by fastforce
  then show ?case using Cons.IH [of s1] Cons.prems(2) by auto
qed

text \<open>\<open>Iterator::any\<close> with a predicate that has a state and may panic: it stops at the first hit.\<close>

primrec anyM :: "('a \<Rightarrow> 's \<Rightarrow> (bool \<times> 's) panics) \<Rightarrow> 'a list \<Rightarrow> 's \<Rightarrow> (bool \<times> 's) panics" where
  "anyM f [] s = Some (False, s)"
| "anyM f (x # xs) s = do { (b, s') \<leftarrow> f x s; if b then Some (True, s') else anyM f xs s' }"

lemma anyM_cong [fundef_cong]:
  "xs = ys \<Longrightarrow> s = t \<Longrightarrow> (\<And>x s. x \<in> set ys \<Longrightarrow> f x s = g x s) \<Longrightarrow> anyM f xs s = anyM g ys t"
proof (induction ys arbitrary: xs s t)
  case Nil
  then show ?case by simp
next
  case (Cons y ys)
  then have "f y t = g y t" and "\<And>u. anyM f ys u = anyM g ys u" by auto
  with Cons.prems(1,2) show ?case by (cases "g y t") auto
qed

lemma foldM_sim:
  assumes "R s t" and "\<And>x s t. x \<in> set xs \<Longrightarrow> R s t \<Longrightarrow> rel_option R (f x s) (g x t)"
  shows "rel_option R (foldM f xs s) (foldM g xs t)"
  using assms
proof (induction xs arbitrary: s t)
  case Nil
  then show ?case by simp
next
  case (Cons x xs)
  have step: "rel_option R (f x s) (g x t)" using Cons.prems by simp
  show ?case
  proof (cases "f x s")
    case None
    with step show ?thesis by simp
  next
    case (Some s')
    with step obtain t' where "g x t = Some t'" "R s' t'" by (auto simp: option_rel_Some1)
    with Some Cons show ?thesis by simp
  qed
qed

lemma anyM_sim:
  assumes "R s t"
    and "\<And>x s t. x \<in> set xs \<Longrightarrow> R s t \<Longrightarrow> rel_option (rel_prod (=) R) (f x s) (g x t)"
  shows "rel_option (rel_prod (=) R) (anyM f xs s) (anyM g xs t)"
  using assms
proof (induction xs arbitrary: s t)
  case Nil
  then show ?case by simp
next
  case (Cons x xs)
  have step: "rel_option (rel_prod (=) R) (f x s) (g x t)" using Cons.prems by simp
  show ?case
  proof (cases "f x s")
    case None
    with step show ?thesis by simp
  next
    case (Some bs)
    with step obtain b s' t' where "bs = (b, s')" "g x t = Some (b, t')" "R s' t'"
      by (cases bs) (auto simp: option_rel_Some1 rel_prod_sel)
    with Some Cons show ?thesis by simp
  qed
qed

lemma anyM_total:
  "(\<And>x s. x \<in> set xs \<Longrightarrow> \<exists>b s'. f x s = Some (b, s')) \<Longrightarrow> \<exists>b s'. anyM f xs s = Some (b, s')"
proof (induction xs arbitrary: s)
  case Nil
  show ?case by (rule exI [of _ False], rule exI [of _ s]) simp
next
  case (Cons x xs)
  obtain b s' where "f x s = Some (b, s')" using Cons.prems [of x s] by auto
  moreover have "\<exists>b s''. anyM f xs s' = Some (b, s'')" by (rule Cons.IH) (simp add: Cons.prems)
  ultimately show ?case by (cases b) auto
qed

lemma bind_sim:
  assumes "rel_option R a b" and "\<And>x y. R x y \<Longrightarrow> rel_option S (f x) (g y)"
  shows "rel_option S (Option.bind a f) (Option.bind b g)"
  using assms by (cases a; cases b) auto

section \<open>Rust strings as UTF-8 bytes\<close>

definition is_char_boundary :: "string \<Rightarrow> nat \<Rightarrow> bool" where
  "is_char_boundary s i \<longleftrightarrow> i = 0 \<or> i = length s \<or>
     (i < length s \<and> \<not> (128 \<le> (of_char (s ! i) :: nat) \<and> (of_char (s ! i) :: nat) < 192))"

definition slice_ok :: "string \<Rightarrow> nat \<times> nat \<Rightarrow> bool" where
  "slice_ok s r \<longleftrightarrow> fst r \<le> snd r \<and> snd r \<le> length s
     \<and> is_char_boundary s (fst r) \<and> is_char_boundary s (snd r)"

definition str_slice :: "string \<Rightarrow> nat \<times> nat \<Rightarrow> string panics" where
  "str_slice s r = (if slice_ok s r then Some (take (snd r - fst r) (drop (fst r) s)) else None)"

lemma str_slice_total [no_panic]: "slice_ok s r \<Longrightarrow> str_slice s r = Some (take (snd r - fst r) (drop (fst r) s))"
  by (simp add: str_slice_def)

lemma str_slice_Some_length: "str_slice s r = Some t \<Longrightarrow> length t = snd r - fst r"
  by (auto simp: str_slice_def slice_ok_def split: if_splits)

section \<open>Hash maps in iteration order\<close>

text \<open>
  A Rust hash map is the list of its entries in the order the map yields them; keys are
  distinct. Lookup is \<open>map_of\<close> and insertion is \<open>AList.update\<close> of the library, which
  overwrites in place or adds an entry.
\<close>

definition keys_distinct :: "('k \<times> 'v) list \<Rightarrow> bool" where
  "keys_distinct xs \<longleftrightarrow> distinct (map fst xs)"

lemma keys_distinct_update [wf_pres]: "keys_distinct xs \<Longrightarrow> keys_distinct (AList.update k v xs)"
  by (simp add: keys_distinct_def distinct_update)

lemma map_of_update: "map_of (AList.update k v xs) = (map_of xs)(k \<mapsto> v)"
  by (simp add: update_conv')

lemma keys_distinct_map_of: "keys_distinct xs \<Longrightarrow> map_of xs k = Some v \<longleftrightarrow> (k, v) \<in> set xs"
  by (simp add: keys_distinct_def)

section \<open>Lists\<close>

lemma set_map_filter: "y \<in> set (List.map_filter f xs) \<longleftrightarrow> (\<exists>x \<in> set xs. f x = Some y)"
  by (induction xs) (auto simp: List.map_filter_simps split: option.splits)

lemma find_Some_mem: "List.find P xs = Some x \<Longrightarrow> x \<in> set xs \<and> P x"
  by (auto simp: find_Some_iff)

lemma remdups_adj_set_subset: "set (remdups_adj xs) \<subseteq> set xs"
  by simp

text \<open>A value read from the state that every step of a fold keeps.\<close>

lemma fold_keeps: "(\<And>x s. x \<in> set xs \<Longrightarrow> p (f x s) = p s) \<Longrightarrow> p (fold f xs s) = p s"
  by (induction xs arbitrary: s) auto

end
