(* ===== verification/Weggli_Result.thy ===== *)
theory Weggli_Result
  imports Prelude
begin

text \<open>
  \<^verbatim>\<open>src/src/result.rs\<close>: partial query matches and their merging. A \<open>QueryResult\<close> holds the
  captured source ranges, the variables (a hash map from a variable to the position of its
  capture) and the range of the outermost node. \<open>merge\<close> joins two matches of one file when
  their variable bindings agree, \<open>chainable\<close> compares matches of different files. The
  abstraction \<open>env_of\<close> reads a match as the partial function from variables to source text; the
  refinement lemmas say that \<open>merge\<close> is the union of compatible bindings and \<open>chainable\<close> their
  compatibility, whatever order the hash map iterates in.
\<close>

section \<open>Data\<close>

record CaptureResult =
  cr_range :: "nat \<times> nat"
  query_id :: nat
  capture_idx :: nat

record QueryResult =
  captures :: "CaptureResult list"
  vars :: "(string \<times> nat) list"
  function_range :: "nat \<times> nat"

definition start_offset :: "QueryResult \<Rightarrow> nat" where
  "start_offset r = fst (function_range r)"

section \<open>Operations\<close>

definition qr_value :: "QueryResult \<Rightarrow> string \<Rightarrow> string \<Rightarrow> string option panics" where
  "qr_value r var source = (case map_of (vars r) var of
      None \<Rightarrow> Some None
    | Some i \<Rightarrow> if i < length (captures r)
        then map_option Some (str_slice source (cr_range (captures r ! i))) else None)"

definition out_of_order :: "QueryResult \<Rightarrow> QueryResult \<Rightarrow> bool" where
  "out_of_order self other \<longleftrightarrow>
     list_ex (\<lambda>r. list_ex (\<lambda>r2. fst (cr_range r) \<le> snd (cr_range r2)) (captures self)) (captures other)"

fun merge_vars :: "QueryResult \<Rightarrow> QueryResult \<Rightarrow> string \<Rightarrow> (string \<times> nat) list
    \<Rightarrow> (string \<times> nat) list \<Rightarrow> (string \<times> nat) list option panics" where
  "merge_vars self other source vs [] = Some (Some vs)"
| "merge_vars self other source vs ((k, v) # kvs) = do {
     sv \<leftarrow> qr_value self k source;
     case sv of
       None \<Rightarrow> merge_vars self other source (AList.update k (v + length (captures self)) vs) kvs
     | Some s \<Rightarrow> do {
         ov \<leftarrow> qr_value other k source;
         o' \<leftarrow> ov;
         if s \<noteq> o' then Some None else merge_vars self other source vs kvs } }"

definition merge :: "QueryResult \<Rightarrow> QueryResult \<Rightarrow> string \<Rightarrow> bool \<Rightarrow> QueryResult option panics" where
  "merge self other source enforce_order =
     (if enforce_order \<and> out_of_order self other then Some None
      else map_option (map_option (\<lambda>vs.
             \<lparr>captures = captures self @ captures other, vars = vs,
              function_range = function_range self\<rparr>))
           (merge_vars self other source (vars self) (vars other)))"

fun chain_conflict :: "QueryResult \<Rightarrow> string \<Rightarrow> QueryResult \<Rightarrow> string \<Rightarrow> (string \<times> nat) list
    \<Rightarrow> bool panics" where
  "chain_conflict self source other other_source [] = Some False"
| "chain_conflict self source other other_source ((k, v) # kvs) = do {
     sv \<leftarrow> qr_value self k source;
     case sv of
       None \<Rightarrow> chain_conflict self source other other_source kvs
     | Some s \<Rightarrow> do {
         ov \<leftarrow> qr_value other k other_source;
         o' \<leftarrow> ov;
         if s \<noteq> o' then Some True else chain_conflict self source other other_source kvs } }"

definition chainable :: "QueryResult \<Rightarrow> string \<Rightarrow> QueryResult \<Rightarrow> string \<Rightarrow> bool panics" where
  "chainable self source other other_source =
     map_option Not (chain_conflict self source other other_source (vars other))"

definition get_capture_result :: "QueryResult \<Rightarrow> nat \<Rightarrow> nat \<Rightarrow> CaptureResult option" where
  "get_capture_result r qid idx =
     List.find (\<lambda>c. capture_idx c = idx \<and> query_id c = qid) (captures r)"

definition filter_map_merge :: "QueryResult \<Rightarrow> QueryResult list \<Rightarrow> string \<Rightarrow> bool
    \<Rightarrow> QueryResult list panics" where
  "filter_map_merge r sub_results source enforce_order =
     map_option (List.map_filter id) (mapM (\<lambda>s. merge r s source enforce_order) sub_results)"

definition merge_results :: "QueryResult list \<Rightarrow> QueryResult list \<Rightarrow> string \<Rightarrow> bool
    \<Rightarrow> QueryResult list panics" where
  "merge_results results sub_results source enforce_order =
     map_option concat (mapM (\<lambda>r. filter_map_merge r sub_results source enforce_order) results)"

text \<open>
  The derived equality of \<open>QueryResult\<close> compares the hash maps as maps; \<open>Vec::dedup\<close> drops an
  element equal to the one kept before it.
\<close>

definition qr_eq :: "QueryResult \<Rightarrow> QueryResult \<Rightarrow> bool" where
  "qr_eq a b \<longleftrightarrow> captures a = captures b \<and> function_range a = function_range b
     \<and> length (vars a) = length (vars b) \<and> list_all (\<lambda>(k, v). map_of (vars b) k = Some v) (vars a)"

fun dedup :: "QueryResult list \<Rightarrow> QueryResult list" where
  "dedup [] = []"
| "dedup [x] = [x]"
| "dedup (x # y # xs) = (if qr_eq y x then dedup (x # xs) else x # dedup (y # xs))"

section \<open>Well-formed matches\<close>

text \<open>
  Every variable points at a capture and every captured range can be sliced from the source.
\<close>

definition wf_result :: "string \<Rightarrow> QueryResult \<Rightarrow> bool" where
  "wf_result source r \<longleftrightarrow> keys_distinct (vars r)
     \<and> (\<forall>(k, i) \<in> set (vars r). i < length (captures r))
     \<and> (\<forall>c \<in> set (captures r). slice_ok source (cr_range c))"

definition env_of :: "string \<Rightarrow> QueryResult \<Rightarrow> string \<rightharpoonup> string" where
  "env_of source r k = Option.bind (qr_value r k source) id"

definition compatible :: "('k \<rightharpoonup> 'v) \<Rightarrow> ('k \<rightharpoonup> 'v) \<Rightarrow> bool" where
  "compatible f g \<longleftrightarrow> (\<forall>k x y. f k = Some x \<longrightarrow> g k = Some y \<longrightarrow> x = y)"

lemma wf_resultD:
  assumes "wf_result source r"
  shows "keys_distinct (vars r)" and "map_of (vars r) k = Some i \<Longrightarrow> i < length (captures r)"
    and "c \<in> set (captures r) \<Longrightarrow> slice_ok source (cr_range c)"
  using assms by (auto simp: wf_result_def dest: map_of_SomeD)

lemma wf_var_slice:
  assumes "wf_result source r" "map_of (vars r) k = Some i"
  shows "i < length (captures r) \<and> slice_ok source (cr_range (captures r ! i))"
  using wf_resultD(2) [OF assms] wf_resultD(3) [OF assms(1) nth_mem] by blast

lemma map_of_SomeD_key: "(k, v) \<in> set xs \<Longrightarrow> k \<in> fst ` set xs"
  by force

lemma qr_value_total [no_panic]:
  assumes "wf_result source r"
  shows "qr_value r k source = Some (env_of source r k)"
proof (cases "map_of (vars r) k")
  case None
  then show ?thesis by (simp add: env_of_def qr_value_def)
next
  case (Some i)
  with wf_var_slice [OF assms] show ?thesis by (simp add: env_of_def qr_value_def no_panic)
qed

lemma env_of_eq:
  "wf_result source r \<Longrightarrow> env_of source r k =
     Option.bind (map_of (vars r) k) (\<lambda>i. str_slice source (cr_range (captures r ! i)))"
  by (cases "map_of (vars r) k") (auto simp: env_of_def qr_value_def no_panic dest: wf_var_slice)

lemma dom_env_of: "wf_result source r \<Longrightarrow> dom (env_of source r) = fst ` set (vars r)"
proof -
  assume wf: "wf_result source r"
  have "env_of source r k \<noteq> None \<longleftrightarrow> map_of (vars r) k \<noteq> None" for k
    using wf wf_var_slice [OF wf] by (cases "map_of (vars r) k") (auto simp: env_of_eq no_panic)
  then show ?thesis by (auto simp: dom_def dom_map_of_conv_image_fst [symmetric])
qed

section \<open>Merging two matches\<close>

definition shift_vars :: "string \<Rightarrow> QueryResult \<Rightarrow> (string \<times> nat) list \<Rightarrow> (string \<times> nat) list
    \<Rightarrow> (string \<times> nat) list" where
  "shift_vars source self vs kvs = foldl (\<lambda>vs (k, v). if env_of source self k = None
     then AList.update k (v + length (captures self)) vs else vs) vs kvs"

lemma merge_vars_eq:
  assumes "wf_result source self" "wf_result source other" "set kvs \<subseteq> set (vars other)"
  shows "merge_vars self other source vs kvs =
    (if \<forall>(k, v) \<in> set kvs. env_of source self k = None \<or> env_of source self k = env_of source other k
     then Some (Some (shift_vars source self vs kvs)) else Some None)"
  using assms(3)
proof (induction kvs arbitrary: vs)
  case Nil
  then show ?case by (simp add: shift_vars_def)
next
  case (Cons kv kvs)
  obtain k v where kv: "kv = (k, v)" by force
  have "k \<in> dom (env_of source other)"
    using Cons.prems kv assms(2) by (auto simp: dom_env_of intro: map_of_SomeD_key)
  then obtain o' where "env_of source other k = Some o'" by auto
  with Cons kv assms show ?case
    by (cases "env_of source self k") (auto simp: no_panic shift_vars_def)
qed

lemma map_of_shift_vars:
  "keys_distinct kvs \<Longrightarrow> map_of (shift_vars source self vs kvs) =
     (\<lambda>k. case map_of kvs k of Some v \<Rightarrow> if env_of source self k = None
            then Some (v + length (captures self)) else map_of vs k | None \<Rightarrow> map_of vs k)"
proof (induction kvs arbitrary: vs)
  case Nil
  then show ?case by (simp add: shift_vars_def)
next
  case (Cons kv kvs)
  obtain k v where kv: "kv = (k, v)" by force
  have step: "shift_vars source self vs (kv # kvs) = shift_vars source self
      (if env_of source self k = None then AList.update k (v + length (captures self)) vs else vs) kvs"
    by (simp add: shift_vars_def kv)
  have none: "map_of kvs k = None"
    using Cons.prems kv by (simp add: keys_distinct_def map_of_eq_None_iff)
  have ih: "map_of (shift_vars source self vs' kvs) = (\<lambda>k. case map_of kvs k of Some v \<Rightarrow>
      if env_of source self k = None then Some (v + length (captures self)) else map_of vs' k
      | None \<Rightarrow> map_of vs' k)" for vs'
    using Cons by (simp add: keys_distinct_def)
  show ?case
    unfolding step ih using none by (auto simp: kv map_of_update fun_eq_iff split: option.splits)
qed

lemma keys_distinct_shift_vars [wf_pres]:
  "keys_distinct vs \<Longrightarrow> keys_distinct (shift_vars source self vs kvs)"
  by (induction kvs arbitrary: vs) (auto simp: shift_vars_def wf_pres)

lemma agree_compatible:
  assumes "dom g = fst ` set ks"
  shows "(\<forall>(k, v) \<in> set ks. f k = None \<or> f k = g k) \<longleftrightarrow> compatible f g"
proof
  assume agree: "\<forall>(k, v) \<in> set ks. f k = None \<or> f k = g k"
  show "compatible f g"
    unfolding compatible_def
  proof (intro allI impI)
    fix k x y
    assume "f k = Some x" "g k = Some y"
    moreover from this assms obtain v where "(k, v) \<in> set ks" by (force simp: dom_def set_eq_iff)
    ultimately show "x = y" using agree by fastforce
  qed
next
  assume c: "compatible f g"
  have "f k = None \<or> f k = g k" if "(k, v) \<in> set ks" for k v
  proof -
    have "k \<in> dom g" using that assms by (auto intro: map_of_SomeD_key)
    then show ?thesis using c by (cases "f k") (auto simp: compatible_def)
  qed
  then show "\<forall>(k, v) \<in> set ks. f k = None \<or> f k = g k" by blast
qed

definition merged :: "string \<Rightarrow> QueryResult \<Rightarrow> QueryResult \<Rightarrow> QueryResult" where
  "merged source self other = \<lparr>captures = captures self @ captures other,
     vars = shift_vars source self (vars self) (vars other), function_range = function_range self\<rparr>"

lemma merge_eq [no_panic]:
  assumes "wf_result source self" "wf_result source other"
  shows "merge self other source eo = Some (if (eo \<longrightarrow> \<not> out_of_order self other)
      \<and> compatible (env_of source self) (env_of source other)
      then Some (merged source self other) else None)"
  using merge_vars_eq [OF assms order.refl, of "vars self"] agree_compatible [OF dom_env_of [OF assms(2)], of "env_of source self"]
  by (simp add: merge_def merged_def)

lemma map_of_merged:
  assumes "wf_result source self" "wf_result source other"
  shows "map_of (vars (merged source self other)) k = (case map_of (vars self) k of
      Some i \<Rightarrow> Some i | None \<Rightarrow> map_option (\<lambda>v. v + length (captures self)) (map_of (vars other) k))"
proof -
  have "env_of source self k = None \<longleftrightarrow> map_of (vars self) k = None"
    using dom_env_of [OF assms(1)] by (auto simp: dom_map_of_conv_image_fst [symmetric])
  then show ?thesis
    using map_of_shift_vars [OF wf_resultD(1) [OF assms(2)], of source self "vars self"]
    by (auto simp: merged_def split: option.splits)
qed

lemma wf_merged [wf_pres]:
  assumes "wf_result source self" "wf_result source other"
  shows "wf_result source (merged source self other)"
proof -
  have kd: "keys_distinct (vars (merged source self other))"
    using assms by (auto simp: merged_def wf_pres wf_resultD)
  have "i < length (captures (merged source self other))"
    if "map_of (vars (merged source self other)) k = Some i" for k i
    using that wf_var_slice [OF assms(1), of k] wf_var_slice [OF assms(2), of k]
    unfolding map_of_merged [OF assms] by (auto simp: merged_def split: option.splits)
  with kd show ?thesis
    using assms by (auto simp: wf_result_def keys_distinct_map_of [symmetric] merged_def)
qed

lemma env_of_merged:
  assumes "wf_result source self" "wf_result source other"
  shows "env_of source (merged source self other) = env_of source other ++ env_of source self"
proof
  fix k
  have c: "captures (merged source self other) = captures self @ captures other"
    by (simp add: merged_def)
  show "env_of source (merged source self other) k = (env_of source other ++ env_of source self) k"
  proof (cases "map_of (vars self) k")
    case None
    then have "env_of source self k = None" using assms by (simp add: env_of_eq)
    with None c assms show ?thesis
      by (cases "map_of (vars other) k")
        (simp_all add: env_of_eq [OF wf_merged] env_of_eq map_of_merged map_add_def nth_append)
  next
    case (Some i)
    then have i: "i < length (captures self)" using assms by (auto dest: wf_resultD)
    with Some have "env_of source self k \<noteq> None"
      using wf_var_slice [OF assms(1) Some] assms(1) by (simp add: env_of_eq no_panic)
    with Some i c assms show ?thesis
      by (auto simp: env_of_eq [OF wf_merged] env_of_eq map_of_merged map_add_def nth_append
          split: option.splits)
  qed
qed



lemma compatible_sym: "compatible f g \<longleftrightarrow> compatible g f"
  unfolding compatible_def by blast

lemma compatible_add: "compatible f g \<Longrightarrow> g ++ f = f ++ g"
  unfolding compatible_def by (rule ext) (auto simp: map_add_def split: option.splits)

text \<open>
  C30. Merging refines the union of bindings: for two well-formed matches of one source text,
  \<open>merge\<close> returns (no index or slice is out of range), it gives a match exactly when the
  bindings agree on their common variables and, where order is enforced, no range of the second
  match starts at or before the end of a range of the first; the match it gives is well formed,
  keeps the captures of both in order and binds every variable of either to its text.
\<close>

theorem merge_refines_union:
  assumes "wf_result source a" and "wf_result source b"
  shows "\<exists>res. merge a b source eo = Some res
    \<and> (res \<noteq> None \<longleftrightarrow> compatible (env_of source a) (env_of source b) \<and> (eo \<longrightarrow> \<not> out_of_order a b))
    \<and> (\<forall>m. res = Some m \<longrightarrow> wf_result source m
          \<and> captures m = captures a @ captures b \<and> function_range m = function_range a
          \<and> env_of source m = env_of source a ++ env_of source b)"
  using merge_eq [OF assms, of eo] wf_merged [OF assms] env_of_merged [OF assms]
  by (auto simp: compatible_add) (auto simp: merged_def)

lemma chain_conflict_eq:
  assumes "wf_result source self" "wf_result other_source other" "set kvs \<subseteq> set (vars other)"
  shows "chain_conflict self source other other_source kvs =
    Some (\<exists>(k, v) \<in> set kvs. env_of source self k \<noteq> None
            \<and> env_of source self k \<noteq> env_of other_source other k)"
  using assms(3)
proof (induction kvs)
  case Nil
  then show ?case by simp
next
  case (Cons kv kvs)
  obtain k v where kv: "kv = (k, v)" by force
  have "k \<in> dom (env_of other_source other)"
    using Cons.prems kv assms(2) by (auto simp: dom_env_of intro: map_of_SomeD_key)
  then obtain o' where "env_of other_source other k = Some o'" by auto
  with Cons kv assms show ?case
    by (cases "env_of source self k") (auto simp: no_panic)
qed

lemma chainable_eq [no_panic]:
  assumes "wf_result s a" "wf_result t b"
  shows "chainable a s b t = Some (compatible (env_of s a) (env_of t b))"
  using chain_conflict_eq [OF assms order.refl] agree_compatible [OF dom_env_of [OF assms(2)], of "env_of s a"]
  by (auto simp: chainable_def)

text \<open>The answer is symmetric although the code iterates the variables of one side only.\<close>

lemma chainable_sym:
  "wf_result s a \<Longrightarrow> wf_result t b \<Longrightarrow> chainable a s b t = chainable b t a s"
  by (simp add: chainable_eq compatible_sym)

section \<open>Lists of matches\<close>

text \<open>
  What the engine relies on: a merge that, on well-formed matches, returns and gives the join
  of two matches exactly when they fit. Everything about lists of matches follows from that
  contract.
\<close>

locale merging =
  fixes wf :: "'r \<Rightarrow> bool" and mrg :: "'r \<Rightarrow> 'r \<Rightarrow> 'r option panics"
    and fits :: "'r \<Rightarrow> 'r \<Rightarrow> bool" and join :: "'r \<Rightarrow> 'r \<Rightarrow> 'r"
  assumes mrg_eq: "wf a \<Longrightarrow> wf b \<Longrightarrow> mrg a b = Some (if fits a b then Some (join a b) else None)"
    and wf_join: "wf a \<Longrightarrow> wf b \<Longrightarrow> fits a b \<Longrightarrow> wf (join a b)"
begin

lemma map_filter_mrg:
  assumes "wf r" "list_all wf ss"
  shows "map_option (List.map_filter id) (mapM (mrg r) ss) = Some (map (join r) (filter (fits r) ss))"
proof -
  have "mapM (mrg r) ss = Some (map (\<lambda>s. if fits r s then Some (join r s) else None) ss)"
    using assms by (intro mapM_total) (auto simp: mrg_eq list_all_iff)
  moreover have "List.map_filter id (map (\<lambda>s. if fits r s then Some (join r s) else None) xs)
      = map (join r) (filter (fits r) xs)" for xs
    by (induction xs) (auto simp: List.map_filter_simps)
  ultimately show ?thesis by simp
qed

lemma concat_mrg:
  assumes "list_all wf rs" "list_all wf ss"
  shows "map_option concat (mapM (\<lambda>r. map_option (List.map_filter id) (mapM (mrg r) ss)) rs)
    = Some (concat (map (\<lambda>r. map (join r) (filter (fits r) ss)) rs))"
proof -
  have "mapM (\<lambda>r. map_option (List.map_filter id) (mapM (mrg r) ss)) rs
      = Some (map (\<lambda>r. map (join r) (filter (fits r) ss)) rs)"
    using assms by (intro mapM_total) (simp add: map_filter_mrg list_all_iff)
  then show ?thesis by simp
qed

lemma wf_concat:
  "list_all wf rs \<Longrightarrow> list_all wf ss \<Longrightarrow> list_all wf (concat (map (\<lambda>r. map (join r) (filter (fits r) ss)) rs))"
  by (auto simp: list_all_iff intro: wf_join)

end

definition fits_after :: "string \<Rightarrow> bool \<Rightarrow> QueryResult \<Rightarrow> QueryResult \<Rightarrow> bool" where
  "fits_after source eo a b \<longleftrightarrow> (eo \<longrightarrow> \<not> out_of_order a b) \<and> compatible (env_of source a) (env_of source b)"

interpretation qr_merge: merging "wf_result source" "\<lambda>a b. merge a b source eo" "fits_after source eo"
    "merged source" for source eo
  by unfold_locales (auto simp: no_panic wf_pres fits_after_def)

definition merge_all :: "string \<Rightarrow> bool \<Rightarrow> QueryResult list \<Rightarrow> QueryResult list \<Rightarrow> QueryResult list" where
  "merge_all source eo rs ss =
     concat (map (\<lambda>r. map (merged source r) (filter (fits_after source eo r) ss)) rs)"

lemma merge_results_eq [no_panic]:
  "list_all (wf_result source) rs \<Longrightarrow> list_all (wf_result source) ss
    \<Longrightarrow> merge_results rs ss source eo = Some (merge_all source eo rs ss)"
  using qr_merge.concat_mrg [of source rs ss eo]
  by (simp add: merge_results_def filter_map_merge_def merge_all_def)

lemma wf_merge_all [wf_pres]:
  "list_all (wf_result source) rs \<Longrightarrow> list_all (wf_result source) ss
    \<Longrightarrow> list_all (wf_result source) (merge_all source eo rs ss)"
  unfolding merge_all_def by (rule qr_merge.wf_concat)

section \<open>Concrete matches\<close>

text \<open>The two matches of the file \<^verbatim>\<open>int a = x; int b = y;\<close> that the unit tests merge.\<close>

definition example_source :: string where
  "example_source = ''int a = x; int b = y;''"

definition example_a :: QueryResult where
  "example_a = \<lparr>captures = [\<lparr>cr_range = (4, 5), query_id = 0, capture_idx = 0\<rparr>],
     vars = [(''$v'', 0)], function_range = (0, 12)\<rparr>"

definition example_b :: QueryResult where
  "example_b = \<lparr>captures = [\<lparr>cr_range = (15, 16), query_id = 0, capture_idx = 0\<rparr>],
     vars = [(''$w'', 0)], function_range = (12, 21)\<rparr>"

lemma wf_examples: "wf_result example_source example_a" "wf_result example_source example_b"
  by code_simp+

theorem merge_refines_union_witness:
  "wf_result example_source example_a \<and> wf_result example_source example_b
   \<and> (\<exists>m. merge example_a example_b example_source True = Some (Some m)
        \<and> env_of example_source m ''$v'' = Some ''a'' \<and> env_of example_source m ''$w'' = Some ''b'')"
proof -
  have ea: "env_of example_source example_a = [''$v'' \<mapsto> ''a'']"
    by (rule ext) (simp add: env_of_def qr_value_def example_a_def example_source_def
        str_slice_def slice_ok_def is_char_boundary_def)
  have eb: "env_of example_source example_b = [''$w'' \<mapsto> ''b'']"
    by (rule ext) (simp add: env_of_def qr_value_def example_b_def example_source_def
        str_slice_def slice_ok_def is_char_boundary_def)
  have "compatible (env_of example_source example_a) (env_of example_source example_b)"
    by (auto simp: compatible_def ea eb split: if_splits)
  moreover have "\<not> out_of_order example_a example_b" by code_simp
  moreover obtain res where "merge example_a example_b example_source True = Some res"
    "(res \<noteq> None) = (compatible (env_of example_source example_a) (env_of example_source example_b)
       \<and> (True \<longrightarrow> \<not> out_of_order example_a example_b))"
    "\<forall>m. res = Some m \<longrightarrow> wf_result example_source m
       \<and> captures m = captures example_a @ captures example_b
       \<and> function_range m = function_range example_a
       \<and> env_of example_source m = env_of example_source example_a ++ env_of example_source example_b"
    using merge_refines_union [OF wf_examples, of True] by blast
  ultimately obtain m where m: "merge example_a example_b example_source True = Some (Some m)"
    "env_of example_source m = env_of example_source example_a ++ env_of example_source example_b"
    by blast
  from m(2) have "env_of example_source m ''$v'' = Some ''a''" "env_of example_source m ''$w'' = Some ''b''"
    by (simp_all add: ea eb)
  with m(1) wf_examples show ?thesis by blast
qed

end
