(* ===== verification/Weggli_Capture.thy ===== *)
theory Weggli_Capture
  imports Prelude
begin

text \<open>
  \<^verbatim>\<open>src/src/capture.rs\<close> and the data of \<^verbatim>\<open>src/src/query.rs\<close>: captures, query trees and
  negative queries are one family of types, because a capture can hold the query tree to run on
  the node it captured. The compiled tree-sitter query (\<open>'q\<close>) and the compiled regular
  expression (\<open>'re\<close>) belong to other packages and are type parameters.
\<close>

section \<open>Captures and query trees\<close>

datatype ('q, 're) Capture =
    Display
  | Variable string "(bool \<times> 're) option"
  | Check string
  | Number int
  | CallExpQuery nat bool
  | SubWildQuery "('q, 're) QueryTree"
  | SubMultiQuery "('q, 're) QueryTree"
and ('q, 're) QueryTree =
    QueryTree (qt_query: 'q) (qt_captures: "('q, 're) Capture list")
      (qt_negations: "('q, 're) NegativeQuery list") (qt_variables: "string list") (qt_id: nat)
and ('q, 're) NegativeQuery =
    NegativeQuery (neg_qt: "('q, 're) QueryTree") (previous_capture_index: int)

text \<open>\<open>add_capture\<close> returns the name of the new capture, its index in decimal.\<close>

fun nat_to_string :: "nat \<Rightarrow> string" where
  "nat_to_string n = (if n < 10 then [char_of (48 + n)]
     else nat_to_string (n div 10) @ [char_of (48 + n mod 10)])"

declare nat_to_string.simps [simp del]

definition add_capture :: "('q, 're) Capture list \<Rightarrow> ('q, 're) Capture \<Rightarrow> string \<times> ('q, 're) Capture list" where
  "add_capture cs c = (nat_to_string (length cs), cs @ [c])"

section \<open>Subqueries\<close>

definition capture_sub :: "('q, 're) Capture \<Rightarrow> ('q, 're) QueryTree option" where
  "capture_sub c = (case c of SubWildQuery t \<Rightarrow> Some t | SubMultiQuery t \<Rightarrow> Some t | _ \<Rightarrow> None)"

definition sub_queries :: "('q, 're) QueryTree \<Rightarrow> ('q, 're) QueryTree list" where
  "sub_queries qt = List.map_filter capture_sub (qt_captures qt)"

lemma capture_sub_Some: "capture_sub c = Some t \<longleftrightarrow> c = SubWildQuery t \<or> c = SubMultiQuery t"
  by (cases c) (auto simp: capture_sub_def)

definition neg_queries :: "('q, 're) QueryTree \<Rightarrow> ('q, 're) QueryTree list" where
  "neg_queries qt = map neg_qt (qt_negations qt)"

lemma set_sub_queries:
  "set (sub_queries qt) = {t. SubWildQuery t \<in> set (qt_captures qt) \<or> SubMultiQuery t \<in> set (qt_captures qt)}"
  by (auto simp: sub_queries_def set_map_filter capture_sub_Some)

lemma size_capture_less: "c \<in> set (qt_captures qt) \<Longrightarrow> size c < size qt"
  by (cases qt) (auto dest!: size_list_estimation' [of c _ "size c" size])

lemma size_sub_query: "t \<in> set (sub_queries qt) \<Longrightarrow> size t < size qt"
  by (auto simp: set_sub_queries dest!: size_capture_less)

lemma size_negation: "n \<in> set (qt_negations qt) \<Longrightarrow> size (neg_qt n) < size qt"
proof -
  assume n: "n \<in> set (qt_negations qt)"
  have "size (neg_qt n) < size n" by (cases n) simp
  also have "size n \<le> size_list size (qt_negations qt)"
    using size_list_estimation' [OF n, of "size n" size] by simp
  also have "\<dots> < size qt" by (cases qt) simp
  finally show ?thesis .
qed

text \<open>\<open>QueryTree::identifiers\<close>: the constant names of a query, in order, without its negations.\<close>

function identifiers :: "('q, 're) QueryTree \<Rightarrow> string list" where
  "identifiers qt = concat (map (\<lambda>c. case c of Check s \<Rightarrow> [s] | SubMultiQuery t \<Rightarrow> identifiers t
     | SubWildQuery t \<Rightarrow> identifiers t | _ \<Rightarrow> []) (qt_captures qt))"
  by pat_completeness auto
termination
  by (relation "measure size") (auto dest: size_capture_less)

declare identifiers.simps [simp del]

text \<open>\<open>QueryTree::variables\<close>: the variables of a query, of its subqueries and of its negations.\<close>

function variables :: "('q, 're) QueryTree \<Rightarrow> string set" where
  "variables qt = \<Union> (set (map (\<lambda>c. case c of Variable s _ \<Rightarrow> {s} | SubMultiQuery t \<Rightarrow> variables t
       | SubWildQuery t \<Rightarrow> variables t | _ \<Rightarrow> {}) (qt_captures qt)))
     \<union> \<Union> (set (map (\<lambda>n. variables (neg_qt n)) (qt_negations qt)))"
  by pat_completeness auto
termination
  by (relation "measure size") (auto dest: size_capture_less size_negation)

declare variables.simps [simp del]

end
