(* ===== verification/Weggli_Util.thy ===== *)
theory Weggli_Util
  imports Prelude
begin

text \<open>
  \<^verbatim>\<open>src/src/util.rs\<close>: parsing of integer literals. \<open>parse_number_literal\<close> drops the
  suffix and separator characters, takes a sign, chooses the radix from the prefix and hands
  the rest to \<open>i128::from_str_radix\<close> of the standard library, which is modelled here with its
  own sign handling, its digit set and its 128-bit overflow. The negation of the parsed value
  overflows for the least \<open>i128\<close> only; the model of it panics there, as a build with overflow
  checks does.
\<close>

section \<open>The standard library's integer parser\<close>

definition i128_min :: int where "i128_min = - (2 ^ 127)"
definition i128_max :: int where "i128_max = 2 ^ 127 - 1"

definition to_digit :: "nat \<Rightarrow> char \<Rightarrow> nat option" where
  "to_digit radix c = (let n = of_char c :: nat;
     d = (if 48 \<le> n \<and> n \<le> 57 then Some (n - 48)
          else if 97 \<le> n \<and> n \<le> 122 then Some (n - 87)
          else if 65 \<le> n \<and> n \<le> 90 then Some (n - 55) else None)
     in (case d of Some v \<Rightarrow> if v < radix then Some v else None | None \<Rightarrow> None))"

fun digits_pos :: "nat \<Rightarrow> int \<Rightarrow> string \<Rightarrow> int option" where
  "digits_pos radix acc [] = Some acc"
| "digits_pos radix acc (c # cs) = (case to_digit radix c of None \<Rightarrow> None
     | Some d \<Rightarrow> let m = acc * int radix in
        if m > i128_max then None
        else if m + int d > i128_max then None else digits_pos radix (m + int d) cs)"

fun digits_neg :: "nat \<Rightarrow> int \<Rightarrow> string \<Rightarrow> int option" where
  "digits_neg radix acc [] = Some acc"
| "digits_neg radix acc (c # cs) = (case to_digit radix c of None \<Rightarrow> None
     | Some d \<Rightarrow> let m = acc * int radix in
        if m < i128_min then None
        else if m - int d < i128_min then None else digits_neg radix (m - int d) cs)"

definition i128_from_str_radix :: "string \<Rightarrow> nat \<Rightarrow> int option" where
  "i128_from_str_radix src radix = (case src of [] \<Rightarrow> None
     | c # rest \<Rightarrow>
        if (c = CHR ''+'' \<or> c = CHR ''-'') \<and> rest = [] then None
        else if c = CHR ''+'' then digits_pos radix 0 rest
        else if c = CHR ''-'' then digits_neg radix 0 rest
        else digits_pos radix 0 src)"

section \<open>The literal parser\<close>

definition is_suffix_char :: "char \<Rightarrow> bool" where
  "is_suffix_char c \<longleftrightarrow> c \<in> {CHR 0x27, CHR ''u'', CHR ''U'', CHR ''l'', CHR ''L'', CHR ''z'', CHR ''Z''}"

definition offset_radix :: "string \<Rightarrow> nat \<times> nat" where
  "offset_radix input =
     (if 2 \<le> length input \<and> is_char_boundary input 2 then
        (let s = take 2 input in
         if s = ''0x'' \<or> s = ''0X'' then (2, 16)
         else if s = ''0b'' \<or> s = ''0B'' then (2, 2)
         else if hd s = CHR ''0'' then (1, 8) else (0, 10))
      else (0, 10))"

definition neg_i128 :: "int \<Rightarrow> int panics" where
  "neg_i128 v = (if v = i128_min then None else Some (- v))"

definition parse_number_literal :: "string \<Rightarrow> int option panics" where
  "parse_number_literal input0 =
    (let input = filter (\<lambda>c. \<not> is_suffix_char c) input0;
         negative = (input \<noteq> [] \<and> hd input = CHR ''-'');
         input = (if negative then tl input else input);
         (offset, radix) = offset_radix input
     in (case i128_from_str_radix (drop offset input) radix of
           Some v \<Rightarrow> if negative then map_option Some (neg_i128 v) else Some (Some v)
         | None \<Rightarrow> Some None))"

section \<open>Values and bounds\<close>

lemma to_digit_less: "to_digit radix c = Some d \<Longrightarrow> d < radix"
  by (auto simp: to_digit_def Let_def split: if_splits)

lemma digits_pos_bounds:
  "digits_pos radix acc s = Some v \<Longrightarrow> 0 \<le> acc \<Longrightarrow> acc \<le> i128_max \<Longrightarrow> 0 \<le> v \<and> v \<le> i128_max"
proof (induction radix acc s rule: digits_pos.induct)
  case (2 radix acc c cs)
  then show ?case by (auto simp: Let_def split: option.splits if_splits)
qed simp

lemma digits_neg_bounds:
  "digits_neg radix acc s = Some v \<Longrightarrow> acc \<le> 0 \<Longrightarrow> i128_min \<le> acc \<Longrightarrow> v \<le> 0 \<and> i128_min \<le> v"
proof (induction radix acc s rule: digits_neg.induct)
  case (2 radix acc c cs)
  have "acc * int radix - int d \<le> 0" for d
    using mult_nonpos_nonneg [of acc "int radix"] 2(3) by linarith
  with 2 show ?case by (auto simp: Let_def split: option.splits if_splits)
qed simp

lemma i128_limits: "i128_min = -170141183460469231731687303715884105728"
  "i128_max = 170141183460469231731687303715884105727"
  by (simp_all add: i128_min_def i128_max_def)

lemma from_str_radix_bounds:
  "i128_from_str_radix s radix = Some v \<Longrightarrow> i128_min \<le> v \<and> v \<le> i128_max"
  by (auto simp: i128_from_str_radix_def i128_limits split: list.splits if_splits
      simp del: digits_pos.simps digits_neg.simps dest!: digits_pos_bounds digits_neg_bounds)

lemma from_str_radix_nonneg:
  "i128_from_str_radix s radix = Some v \<Longrightarrow> s = [] \<or> hd s \<noteq> CHR ''-'' \<Longrightarrow> 0 \<le> v"
  by (auto simp: i128_from_str_radix_def i128_limits split: list.splits if_splits
      simp del: digits_pos.simps dest!: digits_pos_bounds)

lemma from_str_radix_neg_bounds:
  "i128_from_str_radix s radix = Some v \<Longrightarrow> v \<noteq> i128_min \<Longrightarrow> i128_min \<le> - v \<and> - v \<le> i128_max"
  using from_str_radix_bounds [of s radix v] by (auto simp: i128_limits)

lemma negation_overflow_second_sign:
  assumes "t \<noteq> []" "hd t = CHR ''-''" "i128_from_str_radix (drop k (tl t)) r = Some i128_min"
  shows "2 \<le> count_list t (CHR ''-'')"
proof -
  have ne: "drop k (tl t) \<noteq> []" and hd: "hd (drop k (tl t)) = CHR ''-''"
    using from_str_radix_nonneg [OF assms(3)] by (auto simp: i128_limits)
  from hd_in_set [OF ne] hd have "CHR ''-'' \<in> set (tl t)" by (auto dest: in_set_dropD)
  then have "count_list (tl t) (CHR ''-'') \<noteq> 0" by (simp add: count_list_0_iff)
  with assms(1,2) show ?thesis by (cases t) auto
qed

lemma parse_number_literal_returns:
  assumes "count_list s (CHR ''-'') < 2"
  shows "\<exists>r. parse_number_literal s = Some r"
proof -
  define t where "t = filter (\<lambda>c. \<not> is_suffix_char c) s"
  have "count_list t (CHR ''-'') \<le> count_list s (CHR ''-'')"
    unfolding t_def by (induction s) auto
  with assms show ?thesis
    unfolding parse_number_literal_def t_def [symmetric]
    by (auto simp: Let_def neg_i128_def split: prod.splits option.splits dest: negation_overflow_second_sign)
qed

text \<open>
  A literal that parses gives a value of the \<open>i128\<close> range, and the parser ends
  abnormally only when a negation overflows, which takes a text with two minus signs: on every
  other input it returns.
\<close>

theorem parse_number_literal_range:
  "(parse_number_literal s = Some (Some v) \<longrightarrow> i128_min \<le> v \<and> v \<le> i128_max)
   \<and> (count_list s (CHR ''-'') < 2 \<longrightarrow> (\<exists>r. parse_number_literal s = Some r))"
proof -
  have "i128_min \<le> v \<and> v \<le> i128_max" if "parse_number_literal s = Some (Some v)"
    using that unfolding parse_number_literal_def
    by (auto simp: Let_def neg_i128_def split: prod.splits option.splits if_splits
        dest: from_str_radix_bounds from_str_radix_neg_bounds)
  then show ?thesis using parse_number_literal_returns by blast
qed

section \<open>Round trip with a printer\<close>

datatype literal_base = Dec | Oct | Hex | Bin

primrec base_radix :: "literal_base \<Rightarrow> nat" where
  "base_radix Dec = 10" | "base_radix Oct = 8" | "base_radix Hex = 16" | "base_radix Bin = 2"

primrec base_prefix :: "literal_base \<Rightarrow> string" where
  "base_prefix Dec = ''''" | "base_prefix Oct = ''0''" | "base_prefix Hex = ''0x''"
| "base_prefix Bin = ''0b''"

definition digit_char :: "nat \<Rightarrow> char" where
  "digit_char d = (if d < 10 then char_of (48 + d) else char_of (87 + d))"

fun to_digits :: "nat \<Rightarrow> nat \<Rightarrow> nat list" where
  "to_digits radix n = (if radix < 2 \<or> n < radix then [n]
     else to_digits radix (n div radix) @ [n mod radix])"

declare to_digits.simps [simp del]

definition print_literal :: "literal_base \<Rightarrow> nat \<Rightarrow> string" where
  "print_literal b n = base_prefix b @ map digit_char (to_digits (base_radix b) n)"

lemma of_char_digit: "d < 36 \<Longrightarrow> (of_char (digit_char d) :: nat) = (if d < 10 then 48 + d else 87 + d)"
  by (simp add: digit_char_def)

lemma to_digit_digit_char: "d < radix \<Longrightarrow> radix \<le> 36 \<Longrightarrow> to_digit radix (digit_char d) = Some d"
  by (auto simp: to_digit_def Let_def of_char_digit)

lemma digit_char_eq_iff: "d < 16 \<Longrightarrow> digit_char d = c \<longleftrightarrow> (of_char c :: nat) = (if d < 10 then 48 + d else 87 + d)"
  using of_char_digit [of d] of_char_eq_iff [of "digit_char d" c, where 'a = nat] by auto

lemma to_digits_less: "2 \<le> radix \<Longrightarrow> d \<in> set (to_digits radix n) \<Longrightarrow> d < radix"
proof (induction radix n rule: to_digits.induct)
  case (1 radix n)
  then show ?case
    by (cases "n < radix") (auto simp: to_digits.simps [of radix n])
qed

lemma to_digits_not_Nil [simp]: "to_digits radix n \<noteq> []"
  by (subst to_digits.simps) simp

lemma hd_to_digits: "2 \<le> radix \<Longrightarrow> hd (to_digits radix n) = 0 \<Longrightarrow> n = 0"
proof (induction radix n rule: to_digits.induct)
  case (1 radix n)
  show ?case
  proof (cases "n < radix")
    case True
    with 1 show ?thesis by (simp add: to_digits.simps [of radix n])
  next
    case False
    with 1 have "n div radix = 0" by (simp add: to_digits.simps [of radix n])
    with False 1(2) show ?thesis by (simp add: div_eq_0_iff)
  qed
qed

text \<open>Reading digits back: the accumulator stays below the final value, so no step overflows.\<close>

lemma digits_pos_snoc:
  "digits_pos radix acc (s @ [c]) = Option.bind (digits_pos radix acc s) (\<lambda>a. digits_pos radix a [c])"
  by (induction radix acc s rule: digits_pos.induct) (auto simp: Let_def split: option.splits)

lemma digits_pos_to_digits:
  "2 \<le> radix \<Longrightarrow> radix \<le> 36 \<Longrightarrow> int n \<le> i128_max
    \<Longrightarrow> digits_pos radix 0 (map digit_char (to_digits radix n)) = Some (int n)"
proof (induction radix n rule: to_digits.induct)
  case (1 radix n)
  show ?case
  proof (cases "n < radix")
    case True
    with 1 show ?thesis
      by (simp add: to_digits.simps [of radix n] to_digit_digit_char i128_limits Let_def)
  next
    case False
    have "int (n div radix) \<le> i128_max"
      using "1.prems"(3) div_le_dividend [of n radix] by linarith
    with 1 False have ih: "digits_pos radix 0 (map digit_char (to_digits radix (n div radix)))
        = Some (int (n div radix))" by simp
    have split: "int (n div radix) * int radix + int (n mod radix) = int n"
      by (metis div_mult_mod_eq of_nat_add of_nat_mult)
    moreover have "0 \<le> int (n mod radix)" by simp
    ultimately have "int (n div radix) * int radix \<le> i128_max" using "1.prems"(3) by linarith
    with 1 False ih split show ?thesis
      by (simp add: to_digits.simps [of radix n] digits_pos_snoc to_digit_digit_char Let_def)
  qed
qed

lemma digit_char_ascii: "d < 36 \<Longrightarrow> (of_char (digit_char d) :: nat) < 128"
  by (simp add: of_char_digit)

lemma print_literal_ascii: "c \<in> set (print_literal b n) \<Longrightarrow> (of_char c :: nat) < 128"
  using to_digits_less [of "base_radix b" _ n]
  by (cases b) (fastforce simp: print_literal_def intro: digit_char_ascii)+

lemma print_literal_boundary:
  "i \<le> length (print_literal b n) \<Longrightarrow> is_char_boundary (print_literal b n) i"
  using print_literal_ascii [of "print_literal b n ! i" b n] by (auto simp: is_char_boundary_def)



lemma offset_radix_print:
  "offset_radix (print_literal b n) = (length (base_prefix b), base_radix b)"
proof (cases b)
  case Dec
  obtain d ds where ds: "to_digits 10 n = d # ds" by (cases "to_digits 10 n") auto
  have d: "d < 10" using to_digits_less [of 10 d n] ds by simp
  show ?thesis
  proof (cases "d = 0")
    case True
    with ds have "n = 0" using hd_to_digits [of 10 n] by simp
    with Dec show ?thesis by (simp add: print_literal_def to_digits.simps offset_radix_def)
  next
    case False
    with d have "digit_char d \<noteq> CHR ''0''" by (simp add: digit_char_eq_iff)
    with Dec ds show ?thesis by (auto simp: print_literal_def offset_radix_def Let_def take_Cons')
  qed
next
  case Oct
  obtain d ds where ds: "to_digits 8 n = d # ds" by (cases "to_digits 8 n") auto
  have d: "d < 8" using to_digits_less [of 8 d n] ds by simp
  have "digit_char d \<notin> {CHR ''x'', CHR ''X'', CHR ''b'', CHR ''B''}"
    using d by (simp add: digit_char_eq_iff)
  with Oct ds print_literal_boundary [of 2 b n] show ?thesis
    by (auto simp: print_literal_def offset_radix_def Let_def)
next
  case Hex
  with print_literal_boundary [of 2 b n] show ?thesis
    by (simp add: print_literal_def offset_radix_def Suc_le_eq)
next
  case Bin
  with print_literal_boundary [of 2 b n] show ?thesis
    by (simp add: print_literal_def offset_radix_def Suc_le_eq)
qed

lemma from_str_radix_digits:
  assumes "int n \<le> i128_max"
  shows "i128_from_str_radix (map digit_char (to_digits (base_radix b) n)) (base_radix b) = Some (int n)"
proof -
  obtain d ds where ds: "to_digits (base_radix b) n = d # ds"
    by (cases "to_digits (base_radix b) n") auto
  have "2 \<le> base_radix b" "base_radix b \<le> 16" by (cases b; simp)+
  then have "d < 16" using to_digits_less [of "base_radix b" d n] ds by simp
  then have "digit_char d \<noteq> CHR ''+''" "digit_char d \<noteq> CHR ''-''"
    by (simp_all add: digit_char_eq_iff)
  moreover have "digits_pos (base_radix b) 0 (map digit_char (d # ds)) = Some (int n)"
    using digits_pos_to_digits [of "base_radix b" n] assms ds \<open>2 \<le> base_radix b\<close> \<open>base_radix b \<le> 16\<close>
    by simp
  ultimately show ?thesis using ds by (simp add: i128_from_str_radix_def del: digits_pos.simps)
qed

lemma print_literal_no_sign: "print_literal b n \<noteq> [] \<and> hd (print_literal b n) \<noteq> CHR ''-''"
proof -
  obtain d ds where ds: "to_digits (base_radix b) n = d # ds"
    by (cases "to_digits (base_radix b) n") auto
  have "d < 16" using to_digits_less [of "base_radix b" d n] ds by (cases b) auto
  then have "digit_char d \<noteq> CHR ''-''" by (simp add: digit_char_eq_iff)
  with ds show ?thesis by (cases b) (auto simp: print_literal_def)
qed

text \<open>
  C40. Round trip: a text that is, up to suffixes and digit separators, the decimal, octal,
  hexadecimal or binary literal of a number up to the \<open>i128\<close> maximum parses to that number,
  and with a minus sign in front to its negation.
\<close>

theorem parse_number_literal_roundtrip:
  assumes "int n \<le> i128_max" and "filter (\<lambda>c. \<not> is_suffix_char c) s = print_literal b n"
  shows "parse_number_literal s = Some (Some (int n))
    \<and> parse_number_literal (CHR ''-'' # s) = Some (Some (- int n))"
proof -
  let ?t = "print_literal b n"
  have t: "?t \<noteq> []" "hd ?t \<noteq> CHR ''-''" using print_literal_no_sign by auto
  have d: "drop (length (base_prefix b)) ?t = map digit_char (to_digits (base_radix b) n)"
    by (simp add: print_literal_def)
  have ne: "int n \<noteq> i128_min" by (simp add: i128_limits)
  show ?thesis
    using assms t d ne from_str_radix_digits [OF assms(1), of b]
    by (auto simp: parse_number_literal_def Let_def offset_radix_print neg_i128_def is_suffix_char_def)
qed

theorem parse_number_literal_roundtrip_witness:
  "print_literal Hex 48879 = ''0xbeef''
   \<and> parse_number_literal ''0xbeefULL'' = Some (Some 48879)
   \<and> parse_number_literal ''-0xbeefULL'' = Some (Some (-48879))"
proof -
  have "to_digits 16 48879 = [11, 14, 14, 15]" by (simp add: to_digits.simps)
  then have p: "print_literal Hex 48879 = ''0xbeef''" by (simp add: print_literal_def digit_char_eq_iff)
  have f: "filter (\<lambda>c. \<not> is_suffix_char c) ''0xbeefULL'' = print_literal Hex 48879"
    unfolding p by (simp add: is_suffix_char_def)
  have "int 48879 \<le> i128_max" by (simp add: i128_limits)
  from parse_number_literal_roundtrip [OF this f] p show ?thesis by simp
qed

theorem parse_number_literal_range_witness:
  "count_list ''42'' (CHR ''-'') < 2 \<and> (\<exists>r. parse_number_literal ''42'' = Some r)
   \<and> i128_min \<le> 42 \<and> 42 \<le> i128_max"
proof -
  have c: "count_list ''42'' (CHR ''-'') < 2" by simp
  have v: "parse_number_literal ''42'' = Some (Some 42)" by code_simp
  show ?thesis using c v parse_number_literal_range [of "''42''" 42] by simp
qed

end
