(* ===== verification/Weggli_Query.thy ===== *)
theory Weggli_Query
  imports Weggli_Result Weggli_Capture Weggli_Util
begin

text \<open>
  \<^verbatim>\<open>src/src/query.rs\<close>: the matching engine. tree-sitter (the query cursor, nodes) and
  fancy-regex are other packages; what the engine calls of them is the record \<open>engine\<close>, an
  argument of every definition. \<open>scan_captures\<close> is the loop of \<open>process_match\<close> over the
  captures of one tree-sitter match, \<open>match_internal\<close> the recursive engine with the cache of
  subquery results threaded through, and \<open>match_ref\<close> the same engine without a cache.
\<close>

section \<open>What the engine calls\<close>

type_synonym 'n ts_match = "nat \<times> (nat \<times> 'n) list"

record ('q, 're, 'n) engine =
  ts_pattern_count :: "'q \<Rightarrow> nat"
  ts_matches :: "'q \<Rightarrow> 'n \<Rightarrow> string \<Rightarrow> 'n ts_match list"
  node_byte_range :: "'n \<Rightarrow> nat \<times> nat"
  node_id :: "'n \<Rightarrow> nat"
  named_child_count :: "'n \<Rightarrow> nat"
  re_is_match :: "'re \<Rightarrow> string \<Rightarrow> bool option"

type_synonym Cache = "(nat \<times> nat) \<rightharpoonup> QueryResult list"

section \<open>One tree-sitter match\<close>

text \<open>
  The loop over \<open>m.captures\<close>. Its state is the capture results, the variables and the
  subqueries collected so far; \<open>Some None\<close> is the early \<open>return vec![]\<close>.
\<close>

type_synonym ('q, 're, 'n) scan_state =
  "CaptureResult list \<times> (string \<times> nat) list \<times> (('q, 're) QueryTree \<times> 'n) list"

definition regex_rejects :: "('q, 're, 'n) engine \<Rightarrow> string \<Rightarrow> (bool \<times> 're) option \<Rightarrow> 'n \<Rightarrow> bool panics" where
  "regex_rejects E source rc node = (case rc of None \<Rightarrow> Some False
     | Some (negative, regex) \<Rightarrow> do {
         text \<leftarrow> str_slice source (node_byte_range E node);
         m \<leftarrow> re_is_match E regex text;
         Some ((m \<and> negative) \<or> (\<not> m \<and> \<not> negative)) })"

definition number_rejects :: "('q, 're, 'n) engine \<Rightarrow> string \<Rightarrow> int \<Rightarrow> 'n \<Rightarrow> bool panics" where
  "number_rejects E source i node = do {
     text \<leftarrow> str_slice source (node_byte_range E node);
     v \<leftarrow> parse_number_literal text;
     Some (case v of Some y \<Rightarrow> i \<noteq> y | None \<Rightarrow> True) }"

definition arg_count_rejects :: "('q, 're, 'n) engine \<Rightarrow> nat \<Rightarrow> bool \<Rightarrow> 'n \<Rightarrow> bool" where
  "arg_count_rejects E len minimum node =
     (let actual = named_child_count E node in
      if minimum then actual < len else actual \<noteq> len)"

fun scan_captures :: "('q, 're, 'n) engine \<Rightarrow> ('q, 're) QueryTree \<Rightarrow> string \<Rightarrow> (nat \<times> 'n) list
    \<Rightarrow> ('q, 're, 'n) scan_state \<Rightarrow> ('q, 're, 'n) scan_state option panics" where
  "scan_captures E self source [] st = Some (Some st)"
| "scan_captures E self source ((index, node) # cs) (r, vs, subs) =
    (if index < length (qt_captures self) then
       (let capture = qt_captures self ! index;
            cr = \<lparr>cr_range = node_byte_range E node, query_id = qt_id self, capture_idx = index\<rparr>;
            r' = (case capture of SubMultiQuery _ \<Rightarrow> r | _ \<Rightarrow> r @ [cr])
        in (case capture of
              Variable s rc \<Rightarrow> do {
                rej \<leftarrow> regex_rejects E source rc node;
                if rej then Some None
                else scan_captures E self source cs (r', AList.update s (length r' - 1) vs, subs) }
            | SubWildQuery t \<Rightarrow> scan_captures E self source cs (r', vs, subs @ [(t, node)])
            | SubMultiQuery t \<Rightarrow> scan_captures E self source cs (r', vs, subs @ [(t, node)])
            | CallExpQuery len minimum \<Rightarrow>
                if arg_count_rejects E len minimum node then Some None
                else scan_captures E self source cs (r', vs, subs)
            | Number i \<Rightarrow> do {
                rej \<leftarrow> number_rejects E source i node;
                if rej then Some None else scan_captures E self source cs (r', vs, subs) }
            | _ \<Rightarrow> scan_captures E self source cs (r', vs, subs)))
     else None)"

definition new_result :: "CaptureResult list \<Rightarrow> (string \<times> nat) list \<Rightarrow> QueryResult" where
  "new_result r vs = \<lparr>captures = r, vars = vs,
     function_range = (case r of [] \<Rightarrow> (0, 0) | c # _ \<Rightarrow> cr_range c)\<rparr>"

lemma scan_captures_subs:
  "scan_captures E self source cs (r, vs, subs) = Some (Some (r', vs', subs'))
    \<Longrightarrow> (t, n) \<in> set subs' \<Longrightarrow> (t, n) \<in> set subs \<or> t \<in> set (sub_queries self)"
proof (induction cs arbitrary: r vs subs)
  case Nil
  then show ?case by simp
next
  case (Cons c cs)
  obtain index node where c: "c = (index, node)" by force
  have i: "index < length (qt_captures self)" using Cons.prems(1) c by (auto split: if_splits)
  have mem: "qt_captures self ! index \<in> set (qt_captures self)" using i by simp
  show ?case
  proof (cases "capture_sub (qt_captures self ! index)")
    case None
    with Cons.prems i c show ?thesis
      by (cases "qt_captures self ! index")
        (auto simp: Let_def capture_sub_def split: Option.bind_splits if_splits dest!: Cons.IH)
  next
    case (Some u)
    then have "u \<in> set (sub_queries self)"
      using mem by (auto simp: set_sub_queries capture_sub_Some)
    with Some Cons.prems i c show ?thesis
      by (auto simp: Let_def capture_sub_Some dest!: Cons.IH)
  qed
qed

lemma scan_top_subs:
  "scan_captures E self source cs ([], [], []) = Some (Some (r, vs, subs)) \<Longrightarrow> (t, n) \<in> set subs
    \<Longrightarrow> t \<in> set (sub_queries self)"
  using scan_captures_subs by fastforce

section \<open>The negative queries\<close>

definition as_u32 :: "int \<Rightarrow> nat" where
  "as_u32 i = nat (i mod 2 ^ 32)"

text \<open>
  A negative match counts when it agrees with the result and lies between the capture it
  follows and the next one.
\<close>

definition negation_applies :: "nat \<Rightarrow> int \<Rightarrow> string \<Rightarrow> QueryResult \<Rightarrow> QueryResult \<Rightarrow> bool panics" where
  "negation_applies qid index source result n = do {
     m \<leftarrow> merge n result source False;
     Some (m \<noteq> None
       \<and> \<not> (case get_capture_result result qid (as_u32 index) of
              Some c \<Rightarrow> start_offset n < snd (cr_range c) | None \<Rightarrow> False)
       \<and> \<not> (case get_capture_result result qid (as_u32 (index + 1)) of
              Some c \<Rightarrow> start_offset n > fst (cr_range c) | None \<Rightarrow> False)) }"

fun any_applies :: "nat \<Rightarrow> int \<Rightarrow> string \<Rightarrow> QueryResult \<Rightarrow> QueryResult list \<Rightarrow> bool panics" where
  "any_applies qid index source result [] = Some False"
| "any_applies qid index source result (n # ns) = do {
     b \<leftarrow> negation_applies qid index source result n;
     if b then Some True else any_applies qid index source result ns }"

section \<open>Merging the patterns\<close>

definition merge_query_results :: "QueryResult list \<Rightarrow> QueryResult list \<Rightarrow> string \<Rightarrow> bool
    \<Rightarrow> QueryResult list panics" where
  "merge_query_results results sub_results source enforce_ordering =
     map_option concat (mapM (\<lambda>r. map_option (List.map_filter id)
       (mapM (\<lambda>s. merge r s source enforce_ordering) sub_results)) results)"

lemma merge_query_results_eq [no_panic]:
  "list_all (wf_result source) rs \<Longrightarrow> list_all (wf_result source) ss
    \<Longrightarrow> merge_query_results rs ss source eo = Some (merge_all source eo rs ss)"
  using qr_merge.concat_mrg [of source rs ss eo]
  by (simp add: merge_query_results_def merge_all_def)

text \<open>The results of a pattern are appended in place; a pattern index out of range panics.\<close>

definition extend_at :: "'a list list \<Rightarrow> nat \<Rightarrow> 'a list \<Rightarrow> 'a list list panics" where
  "extend_at prs i xs = (if i < length prs then Some (prs[i := prs ! i @ xs]) else None)"

fun merge_patterns :: "string \<Rightarrow> QueryResult list \<Rightarrow> QueryResult list list \<Rightarrow> QueryResult list panics" where
  "merge_patterns source merged_results [] = Some merged_results"
| "merge_patterns source merged_results (pr # prs) =
    (if merged_results = [] then merge_patterns source pr prs
     else do {
       m \<leftarrow> merge_query_results merged_results pr source True;
       if m = [] then Some [] else merge_patterns source m prs })"

section \<open>The engine\<close>

text \<open>
  \<open>process_match\<close> and the filter by negative queries call the engine on subqueries; that call
  is their argument \<open>rec\<close>, and \<open>match_internal\<close> ties the knot. The congruence rules tell the
  termination proof which query trees they call it on.
\<close>

definition process_match :: "('q, 're, 'n) engine
    \<Rightarrow> (('q, 're) QueryTree \<Rightarrow> 'n \<Rightarrow> Cache \<Rightarrow> (QueryResult list \<times> Cache) panics)
    \<Rightarrow> ('q, 're) QueryTree \<Rightarrow> string \<Rightarrow> (nat \<times> 'n) list \<Rightarrow> Cache \<Rightarrow> (QueryResult list \<times> Cache) panics" where
  "process_match E rec self source caps cache = do {
     scanned \<leftarrow> scan_captures E self source caps ([], [], []);
     (case scanned of
        None \<Rightarrow> Some ([], cache)
      | Some (r, vs, subqueries) \<Rightarrow>
          foldM (\<lambda>(t, node) (results, cache).
            if results = [] then Some (results, cache)
            else do {
              (sub_results, cache) \<leftarrow> (case cache (qt_id t, node_id E node) of
                  None \<Rightarrow> do {
                    (v, cache) \<leftarrow> rec t node cache;
                    Some (v, cache((qt_id t, node_id E node) \<mapsto> v)) }
                | Some v \<Rightarrow> Some (v, cache));
              m \<leftarrow> merge_query_results results sub_results source False;
              Some (m, cache) }) subqueries ([new_result r vs], cache)) }"

definition enforce_negations :: "(('q, 're) QueryTree \<Rightarrow> Cache \<Rightarrow> (QueryResult list \<times> Cache) panics)
    \<Rightarrow> ('q, 're) QueryTree \<Rightarrow> string \<Rightarrow> QueryResult list \<Rightarrow> Cache \<Rightarrow> (QueryResult list \<times> Cache) panics" where
  "enforce_negations rec self source merged_results cache =
     foldM (\<lambda>result (kept, cache). do {
         (negative_query_matched, cache) \<leftarrow> anyM (\<lambda>neg cache. do {
             (negative_results, cache) \<leftarrow> rec (neg_qt neg) cache;
             b \<leftarrow> any_applies (qt_id self) (previous_capture_index neg) source result negative_results;
             Some (b, cache) }) (qt_negations self) cache;
         Some (if negative_query_matched then kept else kept @ [result], cache) })
       merged_results ([], cache)"

lemma process_match_cong [fundef_cong]:
  assumes "self = self'" "source = source'" "caps = caps'" "cache = cache'"
    and "\<And>t n c. t \<in> set (sub_queries self') \<Longrightarrow> f t n c = g t n c"
  shows "process_match E f self source caps cache = process_match E g self' source' caps' cache'"
  unfolding assms(1-4) process_match_def using assms(5)
  by (auto split: option.splits intro!: foldM_cong Option.bind_cong)
    (blast dest: scan_top_subs)

lemma enforce_negations_cong [fundef_cong]:
  assumes "self = self'" "source = source'" "ms = ms'" "cache = cache'"
    and "\<And>n c. n \<in> set (qt_negations self') \<Longrightarrow> f (neg_qt n) c = g (neg_qt n) c"
  shows "enforce_negations f self source ms cache = enforce_negations g self' source' ms' cache'"
proof -
  have "anyM (\<lambda>neg cache. do { (negative_results, cache) \<leftarrow> f (neg_qt neg) cache;
             b \<leftarrow> any_applies (qt_id self') (previous_capture_index neg) source' result negative_results;
             Some (b, cache) }) (qt_negations self') c
      = anyM (\<lambda>neg cache. do { (negative_results, cache) \<leftarrow> g (neg_qt neg) cache;
             b \<leftarrow> any_applies (qt_id self') (previous_capture_index neg) source' result negative_results;
             Some (b, cache) }) (qt_negations self') c" for result c
    by (rule anyM_cong) (auto simp: assms(5))
  then show ?thesis unfolding assms(1-4) enforce_negations_def by simp
qed

function match_internal :: "('q, 're, 'n) engine \<Rightarrow> ('q, 're) QueryTree \<Rightarrow> 'n \<Rightarrow> string \<Rightarrow> Cache
    \<Rightarrow> (QueryResult list \<times> Cache) panics" where
  "match_internal E self root source cache = do {
     (prs, cache) \<leftarrow> foldM (\<lambda>(pattern_index, caps) (prs, cache). do {
         (rs, cache) \<leftarrow> process_match E (\<lambda>t node c. match_internal E t node source c) self source caps cache;
         prs \<leftarrow> extend_at prs pattern_index rs;
         Some (prs, cache) })
       (ts_matches E (qt_query self) root source)
       (replicate (ts_pattern_count E (qt_query self)) [], cache);
     if list_ex (\<lambda>pr. pr = []) prs then Some ([], cache)
     else do {
       merged_results \<leftarrow> merge_patterns source [] prs;
       enforce_negations (\<lambda>t c. match_internal E t root source c) self source merged_results cache } }"
  by pat_completeness auto
termination
  by (relation "measure (\<lambda>(E, self, root, source, cache). size self)")
    (auto dest: size_sub_query size_negation)

declare match_internal.simps [simp del]

definition matches :: "('q, 're, 'n) engine \<Rightarrow> ('q, 're) QueryTree \<Rightarrow> 'n \<Rightarrow> string \<Rightarrow> QueryResult list panics" where
  "matches E self root source = do {
     (results, cache) \<leftarrow> match_internal E self root source Map.empty;
     Some (dedup results) }"

section \<open>The engine without a cache\<close>

definition process_match_ref :: "('q, 're, 'n) engine
    \<Rightarrow> (('q, 're) QueryTree \<Rightarrow> 'n \<Rightarrow> QueryResult list panics)
    \<Rightarrow> ('q, 're) QueryTree \<Rightarrow> string \<Rightarrow> (nat \<times> 'n) list \<Rightarrow> QueryResult list panics" where
  "process_match_ref E rec self source caps = do {
     scanned \<leftarrow> scan_captures E self source caps ([], [], []);
     (case scanned of
        None \<Rightarrow> Some []
      | Some (r, vs, subqueries) \<Rightarrow>
          foldM (\<lambda>(t, node) results.
            if results = [] then Some results
            else do {
              sub_results \<leftarrow> rec t node;
              merge_query_results results sub_results source False }) subqueries [new_result r vs]) }"

definition negated :: "(('q, 're) QueryTree \<Rightarrow> QueryResult list panics) \<Rightarrow> ('q, 're) QueryTree
    \<Rightarrow> string \<Rightarrow> QueryResult \<Rightarrow> bool panics" where
  "negated rec self source result = map_option fst (anyM (\<lambda>neg u. do {
     negative_results \<leftarrow> rec (neg_qt neg);
     b \<leftarrow> any_applies (qt_id self) (previous_capture_index neg) source result negative_results;
     Some (b, u) }) (qt_negations self) ())"

definition enforce_negations_ref :: "(('q, 're) QueryTree \<Rightarrow> QueryResult list panics)
    \<Rightarrow> ('q, 're) QueryTree \<Rightarrow> string \<Rightarrow> QueryResult list \<Rightarrow> QueryResult list panics" where
  "enforce_negations_ref rec self source merged_results =
     foldM (\<lambda>result kept. do {
         b \<leftarrow> negated rec self source result;
         Some (if b then kept else kept @ [result]) }) merged_results []"

lemma process_match_ref_cong [fundef_cong]:
  assumes "self = self'" "source = source'" "caps = caps'"
    and "\<And>t n. t \<in> set (sub_queries self') \<Longrightarrow> f t n = g t n"
  shows "process_match_ref E f self source caps = process_match_ref E g self' source' caps'"
  unfolding assms(1-3) process_match_ref_def using assms(4)
  by (auto split: option.splits intro!: foldM_cong Option.bind_cong)
    (blast dest: scan_top_subs)

lemma enforce_negations_ref_cong [fundef_cong]:
  assumes "self = self'" "source = source'" "ms = ms'"
    and "\<And>n. n \<in> set (qt_negations self') \<Longrightarrow> f (neg_qt n) = g (neg_qt n)"
  shows "enforce_negations_ref f self source ms = enforce_negations_ref g self' source' ms'"
proof -
  have "negated f self' source' result = negated g self' source' result" for result
    unfolding negated_def by (rule arg_cong [where f = "map_option fst"], rule anyM_cong) (auto simp: assms(4))
  then show ?thesis unfolding assms(1-3) enforce_negations_ref_def by simp
qed

function match_ref :: "('q, 're, 'n) engine \<Rightarrow> ('q, 're) QueryTree \<Rightarrow> 'n \<Rightarrow> string
    \<Rightarrow> QueryResult list panics" where
  "match_ref E self root source = do {
     prs \<leftarrow> foldM (\<lambda>(pattern_index, caps) prs. do {
         rs \<leftarrow> process_match_ref E (\<lambda>t node. match_ref E t node source) self source caps;
         extend_at prs pattern_index rs })
       (ts_matches E (qt_query self) root source)
       (replicate (ts_pattern_count E (qt_query self)) []);
     if list_ex (\<lambda>pr. pr = []) prs then Some []
     else do {
       merged_results \<leftarrow> merge_patterns source [] prs;
       enforce_negations_ref (\<lambda>t. match_ref E t root source) self source merged_results } }"
  by pat_completeness auto
termination
  by (relation "measure (\<lambda>(E, self, root, source). size self)")
    (auto dest: size_sub_query size_negation)

declare match_ref.simps [simp del]

inductive_set subtrees :: "('q, 're) QueryTree \<Rightarrow> ('q, 're) QueryTree set" for Q where
  self: "Q \<in> subtrees Q"
| sub: "t \<in> subtrees Q \<Longrightarrow> u \<in> set (sub_queries t) \<Longrightarrow> u \<in> subtrees Q"
| neg: "t \<in> subtrees Q \<Longrightarrow> n \<in> set (qt_negations t) \<Longrightarrow> neg_qt n \<in> subtrees Q"

lemma scan_captures_nodes:
  "scan_captures E self source cs (r, vs, subs) = Some (Some (r', vs', subs'))
    \<Longrightarrow> (t, n) \<in> set subs' \<Longrightarrow> (t, n) \<in> set subs \<or> n \<in> snd ` set cs"
proof (induction cs arbitrary: r vs subs)
  case Nil
  then show ?case by simp
next
  case (Cons c cs)
  obtain index node where c: "c = (index, node)" by force
  show ?case
    using Cons.prems c
    by (cases "qt_captures self ! index")
      (auto simp: Let_def split: Option.bind_splits if_splits dest!: Cons.IH)
qed

section \<open>The cache does not change the answers\<close>

text \<open>
  What memoization relies on: captured nodes are nodes of the tree, node identifiers are
  unique in the tree (documented by tree-sitter), and the query identifiers are unique in the
  query tree, the role the builder gives its \<open>id\<close> field.
\<close>

definition cache_keys_ok :: "('q, 're, 'n) engine \<Rightarrow> string \<Rightarrow> 'n set \<Rightarrow> ('q, 're) QueryTree \<Rightarrow> bool" where
  "cache_keys_ok E source N Q \<longleftrightarrow>
     (\<forall>t \<in> subtrees Q. \<forall>root \<in> N. \<forall>(p, caps) \<in> set (ts_matches E (qt_query t) root source).
        \<forall>(i, n) \<in> set caps. n \<in> N)
     \<and> inj_on (node_id E) N \<and> inj_on qt_id (subtrees Q)"

text \<open>
  A cache is sound when the keys are unambiguous and every entry for a subquery of \<open>Q\<close> and a node
  of the tree holds the answer of the engine that runs the subquery afresh.
\<close>

definition cache_sound ::
  "('q, 're, 'n) engine \<Rightarrow> string \<Rightarrow> 'n set \<Rightarrow> ('q, 're) QueryTree \<Rightarrow> Cache \<Rightarrow> bool" where
  "cache_sound E source N Q cache \<longleftrightarrow> cache_keys_ok E source N Q \<and>
     (\<forall>t \<in> subtrees Q. \<forall>n \<in> N. \<forall>v.
        cache (qt_id t, node_id E n) = Some v \<longrightarrow> match_ref E t n source = Some v)"

text \<open>
  The contract between the engine and its cache: a hit is the fresh answer, storing a fresh
  answer keeps the cache sound, and the engine only ever asks for nodes of the tree.
\<close>

locale memoized =
  fixes E :: "('q, 're, 'n) engine" and source :: string and N :: "'n set" and Q :: "('q, 're) QueryTree"
    and sound :: "Cache \<Rightarrow> bool"
  assumes hit: "sound cache \<Longrightarrow> t \<in> subtrees Q \<Longrightarrow> n \<in> N
      \<Longrightarrow> cache (qt_id t, node_id E n) = Some v \<Longrightarrow> match_ref E t n source = Some v"
    and store: "sound cache \<Longrightarrow> t \<in> subtrees Q \<Longrightarrow> n \<in> N
      \<Longrightarrow> match_ref E t n source = Some v \<Longrightarrow> sound (cache((qt_id t, node_id E n) \<mapsto> v))"
    and captured: "sound cache \<Longrightarrow> t \<in> subtrees Q \<Longrightarrow> root \<in> N
      \<Longrightarrow> (p, caps) \<in> set (ts_matches E (qt_query t) root source) \<Longrightarrow> (i, n) \<in> set caps \<Longrightarrow> n \<in> N"
begin

definition agrees :: "('b \<times> Cache) \<Rightarrow> 'b \<Rightarrow> bool" where
  "agrees x y \<longleftrightarrow> fst x = y \<and> sound (snd x)"

lemma lookup_agrees:
  assumes "sound cache" "t \<in> subtrees Q" "n \<in> N"
    and "\<And>c. sound c \<Longrightarrow> rel_option agrees (match_internal E t n source c) (match_ref E t n source)"
  shows "rel_option agrees
    (case cache (qt_id t, node_id E n) of Some v \<Rightarrow> Some (v, cache)
     | None \<Rightarrow> do { (v, cache) \<leftarrow> match_internal E t n source cache;
                  Some (v, cache((qt_id t, node_id E n) \<mapsto> v)) })
    (match_ref E t n source)"
proof (cases "cache (qt_id t, node_id E n)")
  case (Some v)
  with assms show ?thesis by (simp add: hit agrees_def)
next
  case None
  show ?thesis
  proof (cases "match_ref E t n source")
    case ref: None
    with assms(4) [OF assms(1)] have "match_internal E t n source cache = None" by simp
    with None ref show ?thesis by simp
  next
    case ref: (Some v)
    with assms(4) [OF assms(1)] obtain c where "match_internal E t n source cache = Some (v, c)" "sound c"
      by (auto simp: option_rel_Some2 agrees_def)
    with None ref assms(2,3) show ?thesis by (simp add: agrees_def store)
  qed
qed

lemma finish_agrees:
  "agrees (a, c) y \<Longrightarrow> rel_option agrees (Option.bind (f a) (\<lambda>m. Some (m, c))) (f y)"
  by (cases "f y") (auto simp: agrees_def)

lemma process_match_agrees:
  assumes "sound cache" "self \<in> subtrees Q" "\<And>i n. (i, n) \<in> set caps \<Longrightarrow> n \<in> N"
    and rec: "\<And>t n c. t \<in> set (sub_queries self) \<Longrightarrow> n \<in> N \<Longrightarrow> sound c \<Longrightarrow>
      rel_option agrees (match_internal E t n source c) (match_ref E t n source)"
  shows "rel_option agrees (process_match E (\<lambda>t n c. match_internal E t n source c) self source caps cache)
    (process_match_ref E (\<lambda>t n. match_ref E t n source) self source caps)"
proof (cases "scan_captures E self source caps ([], [], [])")
  case None
  then show ?thesis by (simp add: process_match_def process_match_ref_def)
next
  case (Some sc)
  show ?thesis
  proof (cases sc)
    case None
    with Some assms(1) show ?thesis by (simp add: process_match_def process_match_ref_def agrees_def)
  next
    case (Some st)
    obtain r vs subs where st: "st = (r, vs, subs)" by (cases st)
    note scan = \<open>scan_captures E self source caps ([], [], []) = Some sc\<close> [unfolded Some st]
    have mem: "t \<in> set (sub_queries self) \<and> n \<in> N" if "(t, n) \<in> set subs" for t n
      using scan_top_subs [OF scan that] scan_captures_nodes [OF scan that] assms(3) by force
    show ?thesis
      unfolding process_match_def process_match_ref_def scan Option.bind.bind_lunit option.case prod.case
    proof (rule foldM_sim, goal_cases)
      case 1
      show ?case using assms(1) by (simp add: agrees_def)
    next
      case (2 x s t)
      obtain u n where x: "x = (u, n)" by force
      obtain c where s: "s = (t, c)" "sound c" using 2(2) by (cases s) (auto simp: agrees_def)
      have u: "u \<in> subtrees Q" "n \<in> N" "u \<in> set (sub_queries self)"
        using mem 2(1) x assms(2) by (auto intro: subtrees.sub)
      have "rel_option agrees (do { (sub_results, cache) \<leftarrow> (case c (qt_id u, node_id E n) of
              None \<Rightarrow> do { (v, cache) \<leftarrow> match_internal E u n source c;
                          Some (v, cache((qt_id u, node_id E n) \<mapsto> v)) }
            | Some v \<Rightarrow> Some (v, c));
            m \<leftarrow> merge_query_results t sub_results source False; Some (m, cache) })
          (do { sub_results \<leftarrow> match_ref E u n source; merge_query_results t sub_results source False })"
        by (rule bind_sim [OF lookup_agrees]) (use s u rec in \<open>auto intro: finish_agrees\<close>)
      with s x 2(2) show ?case by (cases "t = []") simp_all
    qed
  qed
qed

lemma enforce_negations_agrees:
  assumes "sound cache"
    and rec: "\<And>m c. m \<in> set (qt_negations self) \<Longrightarrow> sound c \<Longrightarrow>
      rel_option agrees (match_internal E (neg_qt m) root source c) (match_ref E (neg_qt m) root source)"
  shows "rel_option agrees (enforce_negations (\<lambda>t c. match_internal E t root source c) self source ms cache)
    (enforce_negations_ref (\<lambda>t. match_ref E t root source) self source ms)"
  unfolding enforce_negations_def enforce_negations_ref_def
proof (rule foldM_sim, goal_cases)
  case 1
  show ?case using assms(1) by (simp add: agrees_def)
next
  case (2 result s t)
  obtain c where s: "s = (t, c)" "sound c" using 2(2) by (cases s) (auto simp: agrees_def)
  have "rel_option (rel_prod (=) (\<lambda>c u. sound c))
    (anyM (\<lambda>neg cache. do { (negative_results, cache) \<leftarrow> match_internal E (neg_qt neg) root source cache;
       b \<leftarrow> any_applies (qt_id self) (previous_capture_index neg) source result negative_results;
       Some (b, cache) }) (qt_negations self) c)
    (anyM (\<lambda>neg u. do { negative_results \<leftarrow> match_ref E (neg_qt neg) root source;
       b \<leftarrow> any_applies (qt_id self) (previous_capture_index neg) source result negative_results;
       Some (b, u) }) (qt_negations self) ())"
  proof (rule anyM_sim [where R = "\<lambda>c u. sound c"], goal_cases)
    case 1
    show ?case by (rule s(2))
  next
    case (2 neg s t)
    show ?case
      by (rule bind_sim [where R = agrees])
        (use 2 rec in \<open>auto simp: agrees_def split: Option.bind_splits\<close>)
  qed
  then show ?case
    unfolding s prod.case negated_def map_conv_bind_option Option.bind_assoc
    by (rule bind_sim) (auto simp: agrees_def)
qed

lemma match_internal_agrees:
  "self \<in> subtrees Q \<Longrightarrow> root \<in> N \<Longrightarrow> sound cache
    \<Longrightarrow> rel_option agrees (match_internal E self root source cache) (match_ref E self root source)"
proof (induction "size self" arbitrary: self root cache rule: less_induct)
  case less
  have sub: "rel_option agrees (match_internal E t n source c) (match_ref E t n source)"
    if "t \<in> set (sub_queries self)" "n \<in> N" "sound c" for t n c
    using that less.prems less.hyps [OF size_sub_query] by (blast intro: subtrees.sub)
  have neg: "rel_option agrees (match_internal E (neg_qt m) root source c) (match_ref E (neg_qt m) root source)"
    if "m \<in> set (qt_negations self)" "sound c" for m c
    using that less.prems less.hyps [OF size_negation] by (blast intro: subtrees.neg)
  show ?case
    unfolding match_internal.simps [of E self] match_ref.simps [of E self]
  proof (rule bind_sim [where R = agrees], rule foldM_sim, goal_cases)
    case 1
    then show ?case using less.prems by (simp add: agrees_def)
  next
    case (2 m s t)
    obtain p caps where m: "m = (p, caps)" by force
    obtain c where s: "s = (t, c)" "sound c" using 2(2) by (cases s) (auto simp: agrees_def)
    have caps: "n \<in> N" if "(i, n) \<in> set caps" for i n
      using captured [OF less.prems(3,1,2) _ that] 2(1) m by blast
    show ?case
      unfolding m s prod.case
      by (rule bind_sim [OF process_match_agrees [OF s(2) less.prems(1) caps sub]])
        (auto intro: finish_agrees)
  next
    case (3 x y)
    obtain c where x: "x = (y, c)" "sound c" using 3 by (cases x) (auto simp: agrees_def)
    with enforce_negations_agrees [OF x(2) neg] show ?case
      by (cases "merge_patterns source [] y") (auto simp: agrees_def [of "([], c)" "[]"])
  qed
qed

end

lemma cache_sound_store:
  assumes "cache_sound E source N Q cache" "t \<in> subtrees Q" "n \<in> N" "match_ref E t n source = Some v"
  shows "cache_sound E source N Q (cache((qt_id t, node_id E n) \<mapsto> v))"
proof -
  have "t' = t \<and> n' = n" if "t' \<in> subtrees Q" "n' \<in> N" "qt_id t' = qt_id t" "node_id E n' = node_id E n" for t' n'
    using that assms by (auto simp: cache_sound_def cache_keys_ok_def inj_on_def)
  then show ?thesis using assms unfolding cache_sound_def by auto
qed

lemma cache_keys_captured:
  "cache_keys_ok E source N Q \<Longrightarrow> t \<in> subtrees Q \<Longrightarrow> root \<in> N
    \<Longrightarrow> (p, caps) \<in> set (ts_matches E (qt_query t) root source) \<Longrightarrow> (i, n) \<in> set caps \<Longrightarrow> n \<in> N"
  unfolding cache_keys_ok_def by fast

interpretation engine_cache: memoized E source N Q "cache_sound E source N Q" for E source N Q
proof unfold_locales
  show "match_ref E t n source = Some v"
    if "cache_sound E source N Q cache" "t \<in> subtrees Q" "n \<in> N" "cache (qt_id t, node_id E n) = Some v"
    for cache t n v using that by (simp add: cache_sound_def)
  show "n \<in> N" if "cache_sound E source N Q cache" "t \<in> subtrees Q" "root \<in> N"
    "(p, caps) \<in> set (ts_matches E (qt_query t) root source)" "(i, n) \<in> set caps" for cache t root p caps i n
    using that cache_keys_captured by (fastforce simp: cache_sound_def)
qed (rule cache_sound_store)

lemma matches_memoized_eq:
  assumes "cache_keys_ok E source N Q" and "root \<in> N"
  shows "matches E Q root source = map_option dedup (match_ref E Q root source)"
proof -
  have "cache_sound E source N Q Map.empty" using assms(1) by (simp add: cache_sound_def)
  from engine_cache.match_internal_agrees [OF subtrees.self assms(2) this] show ?thesis
    by (cases "match_ref E Q root source")
      (auto simp: matches_def option_rel_Some2 engine_cache.agrees_def)
qed


section \<open>The engine returns well-formed matches\<close>

text \<open>
  What the engine needs of tree-sitter and of the compiled query in order not to panic: matches
  name existing patterns and captures, nodes lie on character boundaries of the source, regular
  expressions evaluate, and a node captured as a number has at most one minus sign.
\<close>

definition engine_total :: "('q, 're, 'n) engine \<Rightarrow> string \<Rightarrow> 'n set \<Rightarrow> ('q, 're) QueryTree \<Rightarrow> bool" where
  "engine_total E source N Q \<longleftrightarrow>
     (\<forall>n \<in> N. slice_ok source (node_byte_range E n))
     \<and> (\<forall>re text. re_is_match E re text \<noteq> None)
     \<and> (\<forall>t \<in> subtrees Q. \<forall>root \<in> N. \<forall>(p, caps) \<in> set (ts_matches E (qt_query t) root source).
          p < ts_pattern_count E (qt_query t)
          \<and> (\<forall>(i, n) \<in> set caps. n \<in> N \<and> i < length (qt_captures t)
               \<and> (\<forall>k text. qt_captures t ! i = Number k \<longrightarrow> str_slice source (node_byte_range E n) = Some text
                    \<longrightarrow> count_list text (CHR ''-'') < 2)))"

definition capture_accepts :: "('q, 're, 'n) engine \<Rightarrow> string \<Rightarrow> ('q, 're) Capture \<Rightarrow> 'n \<Rightarrow> bool" where
  "capture_accepts E source c n = (case c of
      Variable s (Some (negative, re)) \<Rightarrow>
        (\<exists>text m. str_slice source (node_byte_range E n) = Some text
           \<and> re_is_match E re text = Some m \<and> m \<noteq> negative)
    | CallExpQuery len minimum \<Rightarrow>
        if minimum then len \<le> named_child_count E n else named_child_count E n = len
    | Number i \<Rightarrow> (\<exists>text. str_slice source (node_byte_range E n) = Some text
        \<and> parse_number_literal text = Some (Some i))
    | _ \<Rightarrow> True)"

lemma capture_accepts_simps:
  "capture_accepts E source (Variable s None) n"
  "capture_accepts E source (Variable s (Some (negative, re))) n \<longleftrightarrow>
     (\<exists>text m. str_slice source (node_byte_range E n) = Some text
        \<and> re_is_match E re text = Some m \<and> m \<noteq> negative)"
  "capture_accepts E source (CallExpQuery len minimum) n \<longleftrightarrow>
     (if minimum then len \<le> named_child_count E n else named_child_count E n = len)"
  "capture_accepts E source (Number i) n \<longleftrightarrow> (\<exists>text. str_slice source (node_byte_range E n) = Some text
        \<and> parse_number_literal text = Some (Some i))"
  "capture_accepts E source Display n" "capture_accepts E source (Check x) n"
  "capture_accepts E source (SubWildQuery t) n" "capture_accepts E source (SubMultiQuery t) n"
  by (simp_all add: capture_accepts_def)

lemma wf_new_result_snoc:
  assumes "wf_result source (new_result r vs)" "slice_ok source (cr_range c)"
  shows "wf_result source (new_result (r @ [c]) vs)"
    and "wf_result source (new_result (r @ [c]) (AList.update s (length r) vs))"
proof -
  have *: "\<forall>(k, i) \<in> set vs. i < length r" "keys_distinct vs" "\<forall>c \<in> set r. slice_ok source (cr_range c)"
    using assms(1) by (auto simp: wf_result_def new_result_def)
  show "wf_result source (new_result (r @ [c]) vs)"
    using * assms(2) by (auto simp: wf_result_def new_result_def)
  have "\<forall>(k, i) \<in> set (AList.update s (length r) vs). i < Suc (length r)"
    using *(1,2) by (induction vs) (auto simp: keys_distinct_def less_Suc_eq)
  then show "wf_result source (new_result (r @ [c]) (AList.update s (length r) vs))"
    using * assms(2) by (auto simp: wf_result_def new_result_def wf_pres)
qed

lemma scan_captures_total:
  assumes "\<forall>(i, n) \<in> set cs. i < length (qt_captures self) \<and> slice_ok source (node_byte_range E n)
      \<and> (\<forall>k text. qt_captures self ! i = Number k \<longrightarrow> str_slice source (node_byte_range E n) = Some text
           \<longrightarrow> count_list text (CHR ''-'') < 2)"
    and "\<forall>re text. re_is_match E re text \<noteq> None"
    and "wf_result source (new_result r vs)"
  shows "\<exists>res. scan_captures E self source cs (r, vs, subs) = Some res
    \<and> (res = None \<longleftrightarrow> (\<exists>(i, n) \<in> set cs. \<not> capture_accepts E source (qt_captures self ! i) n))
    \<and> (\<forall>r' vs' subs'. res = Some (r', vs', subs') \<longrightarrow> wf_result source (new_result r' vs'))"
  using assms(1,3)
proof (induction cs arbitrary: r vs subs)
  case Nil
  then show ?case by simp
next
  case (Cons c cs)
  obtain i n where c: "c = (i, n)" by force
  define cr where "cr = \<lparr>cr_range = node_byte_range E n, query_id = qt_id self, capture_idx = i\<rparr>"
  have i: "i < length (qt_captures self)" and sl: "slice_ok source (node_byte_range E n)"
    using Cons.prems(1) c by auto
  obtain tx where tx: "str_slice source (node_byte_range E n) = Some tx" using sl by (auto simp: no_panic)
  have wf: "wf_result source (new_result (r @ [cr]) vs)"
    "wf_result source (new_result (r @ [cr]) (AList.update s (length r) vs))" for s
    using wf_new_result_snoc [OF Cons.prems(2), of cr] sl by (auto simp: cr_def)
  have rest: "\<forall>(i, n) \<in> set cs. i < length (qt_captures self) \<and> slice_ok source (node_byte_range E n)
      \<and> (\<forall>k text. qt_captures self ! i = Number k \<longrightarrow> str_slice source (node_byte_range E n) = Some text
           \<longrightarrow> count_list text (CHR ''-'') < 2)"
    using Cons.prems(1) by auto
  note IH = Cons.IH [OF rest]
  show ?case
  proof (cases "qt_captures self ! i")
    case (Variable s rc)
    show ?thesis
    proof (cases rc)
      case None
      with IH [OF wf(2), of s subs] show ?thesis
        by (auto simp: c i Variable regex_rejects_def cr_def [symmetric] capture_accepts_simps)
    next
      case (Some nre)
      obtain negative re where nre: "nre = (negative, re)" by force
      obtain m where m: "re_is_match E re tx = Some m" using assms(2) by fastforce
      show ?thesis
      proof (cases "m = negative")
        case True
        then show ?thesis using tx m
          by (auto simp: c i Variable Some nre regex_rejects_def capture_accepts_simps)
      next
        case False
        with IH [OF wf(2), of s subs] tx m show ?thesis
          by (auto simp: c i Variable Some nre regex_rejects_def cr_def [symmetric] capture_accepts_simps)
      qed
    qed
  next
    case (Number k)
    then have "count_list tx (CHR ''-'') < 2" using Cons.prems(1) c tx by auto
    then obtain v where v: "parse_number_literal tx = Some v"
      using parse_number_literal_returns by blast
    show ?thesis
      using IH [OF wf(1), of subs] tx v
      by (auto simp: c i Number number_rejects_def cr_def [symmetric] capture_accepts_simps split: option.splits)
  next
    case (SubMultiQuery t)
    with IH [OF Cons.prems(2), of "subs @ [(t, n)]"] show ?thesis
      by (auto simp: c i capture_accepts_simps)
  next
    case (SubWildQuery t)
    with IH [OF wf(1), of "subs @ [(t, n)]"] show ?thesis
      by (auto simp: c i capture_accepts_simps cr_def [symmetric])
  next
    case (CallExpQuery len minimum)
    with IH [OF wf(1), of subs] show ?thesis
      by (auto simp: c i capture_accepts_simps cr_def [symmetric] arg_count_rejects_def Let_def)
  qed (use IH [OF wf(1), of subs] in \<open>auto simp: c i capture_accepts_simps cr_def [symmetric]\<close>)
qed

lemma merge_patterns_total:
  "list_all (wf_result source) ms \<Longrightarrow> list_all (list_all (wf_result source)) prs
    \<Longrightarrow> \<exists>rs. merge_patterns source ms prs = Some rs \<and> list_all (wf_result source) rs"
  by (induction source ms prs rule: merge_patterns.induct) (auto simp: no_panic wf_pres)

lemma any_applies_total:
  "wf_result source result \<Longrightarrow> list_all (wf_result source) ns
    \<Longrightarrow> \<exists>b. any_applies qid index source result ns = Some b"
  by (induction ns) (auto simp: negation_applies_def no_panic)

lemma extend_at_total:
  assumes "length prs = k" "list_all (list_all P) prs" "i < k" "list_all P xs"
  shows "\<exists>prs'. extend_at prs i xs = Some prs' \<and> length prs' = k \<and> list_all (list_all P) prs'"
proof -
  have "list_all P (prs ! i)" using assms by (simp add: list_all_length)
  with assms show ?thesis
    by (auto simp: extend_at_def list_all_iff dest!: set_update_subset_insert [THEN subsetD])
qed

lemma engine_totalD:
  assumes "engine_total E source N Q" "t \<in> subtrees Q" "root \<in> N"
    "(p, caps) \<in> set (ts_matches E (qt_query t) root source)"
  shows "p < ts_pattern_count E (qt_query t)"
    and "\<forall>(i, n) \<in> set caps. i < length (qt_captures t) \<and> slice_ok source (node_byte_range E n)
      \<and> (\<forall>k text. qt_captures t ! i = Number k \<longrightarrow> str_slice source (node_byte_range E n) = Some text
           \<longrightarrow> count_list text (CHR ''-'') < 2)"
    and "(i, n) \<in> set caps \<Longrightarrow> n \<in> N" and "\<forall>re text. re_is_match E re text \<noteq> None"
proof -
  have *: "p < ts_pattern_count E (qt_query t)
      \<and> (\<forall>(i, n) \<in> set caps. n \<in> N \<and> i < length (qt_captures t)
           \<and> (\<forall>k text. qt_captures t ! i = Number k \<longrightarrow> str_slice source (node_byte_range E n) = Some text
                \<longrightarrow> count_list text (CHR ''-'') < 2))"
    using assms unfolding engine_total_def by fast
  have n: "\<forall>n \<in> N. slice_ok source (node_byte_range E n)" and re: "\<forall>re text. re_is_match E re text \<noteq> None"
    using assms(1) by (auto simp: engine_total_def)
  show "p < ts_pattern_count E (qt_query t)" using * by blast
  show "\<forall>(i, n) \<in> set caps. i < length (qt_captures t) \<and> slice_ok source (node_byte_range E n)
      \<and> (\<forall>k text. qt_captures t ! i = Number k \<longrightarrow> str_slice source (node_byte_range E n) = Some text
           \<longrightarrow> count_list text (CHR ''-'') < 2)"
    using * n by blast
  show "(i, n) \<in> set caps \<Longrightarrow> n \<in> N" using * by blast
  show "\<forall>re text. re_is_match E re text \<noteq> None" by (rule re)
qed

lemma wf_empty_result: "wf_result source (new_result [] [])"
  by (simp add: wf_result_def new_result_def keys_distinct_def)

lemma process_match_ref_total:
  assumes tot: "engine_total E source N Q" and self: "self \<in> subtrees Q" and root: "root \<in> N"
    and mem: "(p, caps) \<in> set (ts_matches E (qt_query self) root source)"
    and rec: "\<And>t n. t \<in> set (sub_queries self) \<Longrightarrow> n \<in> N \<Longrightarrow>
      \<exists>rs. match_ref E t n source = Some rs \<and> list_all (wf_result source) rs"
  shows "\<exists>rs. process_match_ref E (\<lambda>t n. match_ref E t n source) self source caps = Some rs
    \<and> list_all (wf_result source) rs"
proof -
  note d = engine_totalD [OF tot self root mem]
  obtain sc where sc: "scan_captures E self source caps ([], [], []) = Some sc"
    and wf: "\<And>r vs subs. sc = Some (r, vs, subs) \<Longrightarrow> wf_result source (new_result r vs)"
    using scan_captures_total [OF d(2,4) wf_empty_result] by blast
  show ?thesis
  proof (cases sc)
    case None
    with sc show ?thesis by (simp add: process_match_ref_def)
  next
    case (Some st)
    obtain r vs subs where st: "st = (r, vs, subs)" by (cases st)
    note scan = sc [unfolded Some st]
    have mem: "t \<in> set (sub_queries self) \<and> n \<in> N" if "(t, n) \<in> set subs" for t n
      using scan_top_subs [OF scan that] scan_captures_nodes [OF scan that] d(3) by force
    show ?thesis
      unfolding process_match_ref_def scan Option.bind.bind_lunit option.case prod.case
    proof (rule foldM_total, goal_cases)
      case 1
      show ?case using wf Some st by simp
    next
      case (2 x s)
      obtain t n where x: "x = (t, n)" by force
      with 2 mem rec obtain ss where "match_ref E t n source = Some ss" "list_all (wf_result source) ss" by blast
      with 2 x show ?case by (auto simp: no_panic wf_pres)
    qed
  qed
qed

lemma enforce_negations_ref_total:
  assumes "list_all (wf_result source) ms"
    and rec: "\<And>m. m \<in> set (qt_negations self) \<Longrightarrow> \<exists>rs. rec (neg_qt m) = Some rs \<and> list_all (wf_result source) rs"
  shows "\<exists>rs. enforce_negations_ref rec self source ms = Some rs \<and> list_all (wf_result source) rs"
  unfolding enforce_negations_ref_def
proof (rule foldM_total, goal_cases)
  case 1
  show ?case by simp
next
  case (2 result kept)
  have wf: "wf_result source result" using 2 assms(1) by (simp add: list_all_iff)
  have "\<exists>b u. anyM (\<lambda>neg u. do { negative_results \<leftarrow> rec (neg_qt neg);
     b \<leftarrow> any_applies (qt_id self) (previous_capture_index neg) source result negative_results;
     Some (b, u) }) (qt_negations self) () = Some (b, u)"
  proof (rule anyM_total)
    fix m u
    assume "m \<in> set (qt_negations self)"
    then obtain rs where "rec (neg_qt m) = Some rs" "list_all (wf_result source) rs" using rec by blast
    moreover from this(2) obtain b where
      "any_applies (qt_id self) (previous_capture_index m) source result rs = Some b"
      using any_applies_total [OF wf] by blast
    ultimately show "\<exists>b s'. (do { negative_results \<leftarrow> rec (neg_qt m);
       b \<leftarrow> any_applies (qt_id self) (previous_capture_index m) source result negative_results;
       Some (b, u) }) = Some (b, s')" by simp
  qed
  then obtain b where "negated rec self source result = Some b" unfolding negated_def by force
  with 2 wf show ?case by simp
qed

lemma match_ref_total:
  assumes tot: "engine_total E source N Q"
  shows "self \<in> subtrees Q \<Longrightarrow> root \<in> N
    \<Longrightarrow> \<exists>rs. match_ref E self root source = Some rs \<and> list_all (wf_result source) rs"
proof (induction "size self" arbitrary: self root rule: less_induct)
  case less
  let ?wf = "wf_result source" and ?k = "ts_pattern_count E (qt_query self)"
  have sub: "\<exists>rs. match_ref E t n source = Some rs \<and> list_all ?wf rs"
    if "t \<in> set (sub_queries self)" "n \<in> N" for t n
    using that less.prems less.hyps [OF size_sub_query] by (blast intro: subtrees.sub)
  have neg: "\<exists>rs. match_ref E (neg_qt m) root source = Some rs \<and> list_all ?wf rs"
    if "m \<in> set (qt_negations self)" for m
    using that less.prems less.hyps [OF size_negation] by (blast intro: subtrees.neg)
  have "\<exists>prs. foldM (\<lambda>(pattern_index, caps) prs. do {
         rs \<leftarrow> process_match_ref E (\<lambda>t node. match_ref E t node source) self source caps;
         extend_at prs pattern_index rs })
       (ts_matches E (qt_query self) root source) (replicate ?k []) = Some prs
     \<and> (length prs = ?k \<and> list_all (list_all ?wf) prs)"
  proof (rule foldM_total, goal_cases)
    case 1
    show ?case by (simp add: list_all_length)
  next
    case (2 m prs)
    obtain p caps where m: "m = (p, caps)" by force
    obtain rs where "process_match_ref E (\<lambda>t node. match_ref E t node source) self source caps = Some rs"
      "list_all ?wf rs"
      using process_match_ref_total [OF tot less.prems _ sub] 2(1) m by blast
    with m extend_at_total [of prs ?k ?wf p rs] 2 engine_totalD(1) [OF tot less.prems, of p caps]
    show ?case by auto
  qed
  then obtain prs where prs: "foldM (\<lambda>(pattern_index, caps) prs. do {
         rs \<leftarrow> process_match_ref E (\<lambda>t node. match_ref E t node source) self source caps;
         extend_at prs pattern_index rs })
       (ts_matches E (qt_query self) root source) (replicate ?k []) = Some prs"
    and wf: "list_all (list_all ?wf) prs" by blast
  obtain ms where ms: "merge_patterns source [] prs = Some ms" "list_all ?wf ms"
    using merge_patterns_total [of source "[]"] wf by auto
  show ?case
    using enforce_negations_ref_total [where rec = "\<lambda>t. match_ref E t root source", OF ms(2)] neg ms(1)
    unfolding match_ref.simps [of E self] prs by (auto simp: prs)
qed

lemma dedup_subset: "set (dedup xs) \<subseteq> set xs"
  by (induction xs rule: dedup.induct) auto


text \<open>
  A tree-sitter match is dropped exactly when one of its captures breaks a constraint: a
  regular expression on a variable (or its negation), a number, or the argument count, which
  must equal the count of the query or, with a variadic wildcard, be at least it.
\<close>

theorem match_rejected_iff:
  assumes "engine_total E source N Q" and "t \<in> subtrees Q" and "root \<in> N"
    and "(p, caps) \<in> set (ts_matches E (qt_query t) root source)"
  shows "scan_captures E t source caps ([], [], []) = Some None
    \<longleftrightarrow> (\<exists>(i, n) \<in> set caps. \<not> capture_accepts E source (qt_captures t ! i) n)"
proof -
  note d = engine_totalD [OF assms]
  show ?thesis using scan_captures_total [OF d(2,4) wf_empty_result, of "[]"] by auto
qed

section \<open>A small engine\<close>

text \<open>
  A concrete instance: the tree has a root 0 and its children 1 and 2. Query 0 hands each child
  to a subquery, query 2 hands the first child to both of them, and query 1 captures the node
  itself as a variable.
\<close>

definition small_engine :: "(nat, nat, nat) engine" where
  "small_engine = \<lparr>ts_pattern_count = (\<lambda>q. 1),
     ts_matches = (\<lambda>q root source. if q = 0 then [(0, [(0, 1), (1, 2)])]
        else if q = 2 then [(0, [(0, 1), (1, 1)])] else [(0, [(0, root)])]),
     node_byte_range = (\<lambda>n. if n = 0 then (0, 2) else if n = 1 then (0, 1) else (1, 2)),
     node_id = id, named_child_count = (\<lambda>n. if n = 0 then 2 else 0),
     re_is_match = (\<lambda>re text. Some (re = length text))\<rparr>"

definition leaf_query :: "string \<Rightarrow> nat \<Rightarrow> (nat, nat) QueryTree" where
  "leaf_query x k = QueryTree 1 [Variable x (Some (False, 1))] [] [x] k"

definition pair_query :: "nat \<Rightarrow> nat \<Rightarrow> nat \<Rightarrow> (nat, nat) QueryTree" where
  "pair_query q i j = QueryTree q [SubWildQuery (leaf_query ''$x'' i), SubWildQuery (leaf_query ''$y'' j)] [] [] 0"

lemma subtrees_pair:
  "subtrees (pair_query q i j) = {pair_query q i j, leaf_query ''$x'' i, leaf_query ''$y'' j}"
proof (intro equalityI subsetI)
  fix t assume "t \<in> subtrees (pair_query q i j)"
  then show "t \<in> {pair_query q i j, leaf_query ''$x'' i, leaf_query ''$y'' j}"
    by (induction rule: subtrees.induct) (auto simp: pair_query_def leaf_query_def set_sub_queries)
next
  fix t assume "t \<in> {pair_query q i j, leaf_query ''$x'' i, leaf_query ''$y'' j}"
  then show "t \<in> subtrees (pair_query q i j)"
    by (auto intro: subtrees.self subtrees.sub [OF subtrees.self] simp: pair_query_def set_sub_queries)
qed

lemma small_keys_ok: "cache_keys_ok small_engine ''ab'' {0, 1, 2} (pair_query 0 1 2)"
  unfolding cache_keys_ok_def subtrees_pair
  by (auto simp: small_engine_def pair_query_def leaf_query_def)

lemma small_total: "engine_total small_engine ''ab'' {0, 1, 2} (pair_query 0 1 2)"
  unfolding engine_total_def subtrees_pair
  by (auto simp: small_engine_def pair_query_def leaf_query_def slice_ok_def
      is_char_boundary_def nth_Cons split: nat.splits)

lemmas small_eval = small_engine_def pair_query_def leaf_query_def

text \<open>
  For evaluation the recursive calls of \<open>match_ref\<close> are named, so that they stay unevaluated
  until they are applied.
\<close>

definition match_ref_sub :: "('q, 're, 'n) engine \<Rightarrow> string \<Rightarrow> ('q, 're) QueryTree \<Rightarrow> 'n \<Rightarrow> QueryResult list panics" where
  "match_ref_sub E source t node = match_ref E t node source"

definition match_ref_neg :: "('q, 're, 'n) engine \<Rightarrow> string \<Rightarrow> 'n \<Rightarrow> ('q, 're) QueryTree \<Rightarrow> QueryResult list panics" where
  "match_ref_neg E source root t = match_ref E t root source"

lemma match_ref_code [code]:
  "match_ref E self root source = do {
     prs \<leftarrow> foldM (\<lambda>(pattern_index, caps) prs. do {
         rs \<leftarrow> process_match_ref E (match_ref_sub E source) self source caps;
         extend_at prs pattern_index rs })
       (ts_matches E (qt_query self) root source)
       (replicate (ts_pattern_count E (qt_query self)) []);
     if list_ex (\<lambda>pr. pr = []) prs then Some []
     else do {
       merged_results \<leftarrow> merge_patterns source [] prs;
       enforce_negations_ref (match_ref_neg E source root) self source merged_results } }"
  unfolding match_ref_sub_def [abs_def] match_ref_neg_def [abs_def] by (rule match_ref.simps)



theorem match_rejected_iff_witness:
  "scan_captures small_engine (leaf_query ''$x'' 1) ''ab'' [(0, 0)] ([], [], []) = Some None"
proof -
  have "leaf_query ''$x'' 1 \<in> subtrees (pair_query 0 1 2)" by (simp add: subtrees_pair)
  from match_rejected_iff [OF small_total this, of 0 0 "[(0, 0)]"] show ?thesis
    by (simp add: small_eval capture_accepts_simps str_slice_def slice_ok_def is_char_boundary_def)
qed

text \<open>
  With two subqueries of the same identifier on the same node the second one is answered from
  the cache by the answers of the first, and the answer of \<open>matches\<close> loses the variable \<open>$y\<close>.
\<close>

lemma shared_identifier_changes_answer:
  "map_option (map (\<lambda>r. map fst (vars r))) (matches small_engine (pair_query 2 1 1) 0 ''ab'')
     = Some [[''$x'']]"
  "map_option (map (\<lambda>r. map fst (vars r))) (match_ref small_engine (pair_query 2 1 1) 0 ''ab'')
     = Some [[''$x'', ''$y'']]"
  by code_simp+

end
