(* ===== verification/Weggli_Pipeline.thy ===== *)
theory Weggli_Pipeline
  imports Weggli_Query "HOL-Library.Sublist"
begin

text \<open>
  \<^verbatim>\<open>src/src/pipeline.rs\<close>, the data of \<^verbatim>\<open>src/src/types.rs\<close> and the cross-query filter of
  \<^verbatim>\<open>src/src/main.rs\<close>. The file reader, the tree-sitter parser and the engine are arguments.
  The two workers run over thread pools; the model processes the files and the parsed trees in
  the order of a list, one order that the pools may choose.
\<close>

section \<open>Data\<close>

record ('q, 're) WorkItem =
  wi_qt :: "('q, 're) QueryTree"
  wi_identifiers :: "string list"
  wi_reason :: string
  wi_issue :: string

record ResultsCtx =
  query_index :: nat
  rc_path :: string
  rc_source :: string
  rc_result :: QueryResult
  rc_reason :: string
  rc_issue :: string

record Options =
  opt_limit :: bool
  opt_unique :: bool

section \<open>The parsing worker\<close>

definition str_contains :: "string \<Rightarrow> string \<Rightarrow> bool" where
  "str_contains source i = list_ex (prefix i) (suffixes source)"

definition potential_match :: "('q, 're) WorkItem list \<Rightarrow> string \<Rightarrow> bool" where
  "potential_match work source =
     list_ex (\<lambda>w. list_all (\<lambda>i. str_contains source i) (wi_identifiers w)) work"

definition maybe_parse :: "(string \<Rightarrow> string option) \<Rightarrow> (string \<Rightarrow> 't option) \<Rightarrow> ('q, 're) WorkItem list
    \<Rightarrow> string \<Rightarrow> ('t \<times> string) option" where
  "maybe_parse read parse work path = (case read path of
      None \<Rightarrow> None
    | Some source \<Rightarrow> if \<not> potential_match work source then None
        else map_option (\<lambda>tree. (tree, source)) (parse source))"

definition parse_files_worker :: "(string \<Rightarrow> string option) \<Rightarrow> (string \<Rightarrow> 't option)
    \<Rightarrow> string list \<Rightarrow> ('q, 're) WorkItem list \<Rightarrow> (string \<times> 't \<times> string) list" where
  "parse_files_worker read parse files work = List.map_filter
     (\<lambda>path. map_option (\<lambda>(tree, source). (source, tree, path)) (maybe_parse read parse work path)) files"

section \<open>The query worker\<close>

text \<open>
  \<open>check_unique\<close> inserts the values of all variables into a set and fails on a repeated one;
  \<open>check_limit\<close> keeps the first match of every start offset. The two filters and the sender are
  run element by element, as the iterator does.
\<close>

fun all_fresh :: "QueryResult \<Rightarrow> string \<Rightarrow> string list \<Rightarrow> string list \<Rightarrow> bool panics" where
  "all_fresh m source [] seen = Some True"
| "all_fresh m source (k # ks) seen = do {
     v \<leftarrow> qr_value m k source;
     x \<leftarrow> v;
     if x \<in> set seen then Some False else all_fresh m source ks (x # seen) }"

definition check_unique :: "Options \<Rightarrow> string \<Rightarrow> QueryResult \<Rightarrow> bool panics" where
  "check_unique opts source m =
     (if opt_unique opts then all_fresh m source (map fst (vars m)) [] else Some True)"

definition check_limit :: "Options \<Rightarrow> QueryResult \<Rightarrow> nat set \<Rightarrow> bool \<times> nat set" where
  "check_limit opts m skip_set =
     (if opt_limit opts then (start_offset m \<notin> skip_set, insert (start_offset m) skip_set)
      else (True, skip_set))"

definition send_result :: "nat \<Rightarrow> ('q, 're) WorkItem \<Rightarrow> string \<Rightarrow> string \<Rightarrow> QueryResult \<Rightarrow> ResultsCtx" where
  "send_result i w source path m = \<lparr>query_index = i, rc_path = path, rc_source = source,
     rc_result = m, rc_reason = wi_reason w, rc_issue = wi_issue w\<rparr>"

definition filter_and_send :: "Options \<Rightarrow> nat \<Rightarrow> ('q, 're) WorkItem \<Rightarrow> string \<Rightarrow> string \<Rightarrow> QueryResult
    \<Rightarrow> ResultsCtx list \<times> nat set \<Rightarrow> (ResultsCtx list \<times> nat set) panics" where
  "filter_and_send opts i w source path m st = do {
     u \<leftarrow> check_unique opts source m;
     if \<not> u then Some st
     else (let (out, skip_set) = st; (l, skip_set) = check_limit opts m skip_set in
           Some (if l then out @ [send_result i w source path m] else out, skip_set)) }"

definition run_query :: "('q, 're, 'n) engine \<Rightarrow> Options \<Rightarrow> nat \<Rightarrow> ('q, 're) WorkItem
    \<Rightarrow> string \<Rightarrow> 'n \<Rightarrow> string \<Rightarrow> ResultsCtx list panics" where
  "run_query E opts i w source root path = do {
     ms \<leftarrow> matches E (wi_qt w) root source;
     map_option fst (foldM (filter_and_send opts i w source path) ms ([], {})) }"

definition execute_queries_worker :: "('q, 're, 'n) engine \<Rightarrow> ('t \<Rightarrow> 'n) \<Rightarrow> (string \<times> 't \<times> string) list
    \<Rightarrow> ('q, 're) WorkItem list \<Rightarrow> Options \<Rightarrow> ResultsCtx list panics" where
  "execute_queries_worker E root_node parsed work opts =
     map_option concat (mapM (\<lambda>(source, tree, path).
       map_option concat (mapM (\<lambda>(i, w). run_query E opts i w source (root_node tree) path)
         (enumerate 0 work))) parsed)"

section \<open>The filter across queries\<close>

definition group_push :: "nat \<Rightarrow> nat \<Rightarrow> (nat \<times> nat list) list \<Rightarrow> (nat \<times> nat list) list" where
  "group_push q idx groups =
     AList.update q ((case map_of groups q of None \<Rightarrow> [] | Some l \<Rightarrow> l) @ [idx]) groups"

definition group_results :: "ResultsCtx list \<Rightarrow> (nat \<times> nat list) list" where
  "group_results results = fold (\<lambda>(idx, r). group_push (query_index r) idx) (enumerate 0 results) []"

definition has_chainable :: "ResultsCtx list \<Rightarrow> ResultsCtx \<Rightarrow> nat list \<Rightarrow> bool panics" where
  "has_chainable results a indices_j = map_option fst (anyM (\<lambda>idx_b u. do {
     c \<leftarrow> chainable (rc_result a) (rc_source a) (rc_result (results ! idx_b)) (rc_source (results ! idx_b));
     Some (c, u) }) indices_j ())"

fun chainable_with_all :: "ResultsCtx list \<Rightarrow> ResultsCtx \<Rightarrow> nat \<Rightarrow> (nat \<times> nat list) list \<Rightarrow> bool panics" where
  "chainable_with_all results a query_i [] = Some True"
| "chainable_with_all results a query_i ((query_j, indices_j) # groups) =
    (if query_i = query_j then chainable_with_all results a query_i groups
     else do {
       h \<leftarrow> has_chainable results a indices_j;
       if \<not> h then Some False else chainable_with_all results a query_i groups })"

definition filter_chainable_results :: "ResultsCtx list \<Rightarrow> ResultsCtx list panics" where
  "filter_chainable_results results =
    (if results = [] then Some results
     else let groups = group_results results in
       if length groups \<le> 1 then Some results
       else do {
         keep \<leftarrow> foldM (\<lambda>(query_i, indices_i) keep.
             foldM (\<lambda>idx_a keep. do {
                 b \<leftarrow> chainable_with_all results (results ! idx_a) query_i groups;
                 Some (keep[idx_a := b]) }) indices_i keep)
           groups (replicate (length results) False);
         Some (map fst (filter snd (zip results keep))) })"

section \<open>What the cross-query filter keeps\<close>

definition members :: "ResultsCtx list \<Rightarrow> nat \<Rightarrow> nat list" where
  "members results q = filter (\<lambda>i. query_index (results ! i) = q) [0..<length results]"

lemma members_snoc:
  "members (results @ [r]) q = members results q @ (if query_index r = q then [length results] else [])"
  by (auto simp: members_def nth_append intro!: filter_cong)

lemma group_results_snoc:
  "group_results (results @ [r]) = group_push (query_index r) (length results) (group_results results)"
  by (simp add: group_results_def enumerate_append_eq)

lemma group_results_spec:
  "keys_distinct (group_results results)
    \<and> (\<forall>q. map_of (group_results results) q = (if members results q = [] then None else Some (members results q)))"
proof (induction results rule: rev_induct)
  case Nil
  then show ?case by (simp add: group_results_def keys_distinct_def members_def)
next
  case (snoc r results)
  then show ?case
    by (auto simp: group_results_snoc group_push_def wf_pres map_of_update members_snoc)
qed

lemma group_mem_iff:
  "(q, l) \<in> set (group_results results) \<longleftrightarrow> l = members results q \<and> members results q \<noteq> []"
  using group_results_spec [of results] keys_distinct_map_of [of "group_results results" q l]
  by (auto split: if_splits)

definition chains :: "ResultsCtx \<Rightarrow> ResultsCtx \<Rightarrow> bool" where
  "chains a b \<longleftrightarrow> compatible (env_of (rc_source a) (rc_result a)) (env_of (rc_source b) (rc_result b))"

definition wf_ctx :: "ResultsCtx \<Rightarrow> bool" where
  "wf_ctx r \<longleftrightarrow> wf_result (rc_source r) (rc_result r)"

lemma has_chainable_eq [no_panic]:
  assumes "wf_ctx a" and "\<forall>i \<in> set idxs. wf_ctx (results ! i)"
  shows "has_chainable results a idxs = Some (\<exists>i \<in> set idxs. chains a (results ! i))"
  using assms(2)
proof (induction idxs)
  case Nil
  then show ?case by (simp add: has_chainable_def)
next
  case (Cons i idxs)
  with assms(1) have "chainable (rc_result a) (rc_source a) (rc_result (results ! i)) (rc_source (results ! i))
      = Some (chains a (results ! i))"
    by (simp add: chainable_eq wf_ctx_def chains_def)
  with Cons show ?case by (auto simp: has_chainable_def)
qed

lemma chainable_with_all_eq [no_panic]:
  assumes "wf_ctx a" and "\<forall>(q, l) \<in> set groups. \<forall>i \<in> set l. wf_ctx (results ! i)"
  shows "chainable_with_all results a q groups
    = Some (\<forall>(q', l) \<in> set groups. q' \<noteq> q \<longrightarrow> (\<exists>i \<in> set l. chains a (results ! i)))"
  using assms(2) by (induction groups) (auto simp: has_chainable_eq [OF assms(1)])

lemma foldM_marks:
  assumes "\<And>i. i \<in> set idxs \<Longrightarrow> f i = Some (K i)"
  shows "foldM (\<lambda>i keep. do { b \<leftarrow> f i; Some (keep[i := b]) }) idxs keep
    = Some (map (\<lambda>i. if i \<in> set idxs then K i else keep ! i) [0..<length keep])"
  using assms
proof (induction idxs arbitrary: keep)
  case Nil
  then show ?case by (simp add: map_nth)
next
  case (Cons i idxs)
  then show ?case by (auto simp: nth_list_update)
qed

lemma foldM_group_marks:
  assumes "\<And>q l i. (q, l) \<in> set gs \<Longrightarrow> i \<in> set l \<Longrightarrow> f q i = Some (K i)"
  shows "foldM (\<lambda>(q, l) keep. foldM (\<lambda>i keep. do { b \<leftarrow> f q i; Some (keep[i := b]) }) l keep) gs keep
    = Some (map (\<lambda>i. if \<exists>(q, l) \<in> set gs. i \<in> set l then K i else keep ! i) [0..<length keep])"
  using assms
proof (induction gs arbitrary: keep)
  case Nil
  then show ?case by (simp add: map_nth)
next
  case (Cons g gs)
  obtain q l where g: "g = (q, l)" by force
  have "foldM (\<lambda>i keep. do { b \<leftarrow> f q i; Some (keep[i := b]) }) l keep
    = Some (map (\<lambda>i. if i \<in> set l then K i else keep ! i) [0..<length keep])"
    by (rule foldM_marks) (use Cons.prems g in auto)
  moreover have "foldM (\<lambda>(q, l) keep. foldM (\<lambda>i keep. do { b \<leftarrow> f q i; Some (keep[i := b]) }) l keep) gs ks
      = Some (map (\<lambda>i. if \<exists>(q, l) \<in> set gs. i \<in> set l then K i else ks ! i) [0..<length ks])" for ks
    by (rule Cons.IH) (rule Cons.prems, auto)
  ultimately show ?case using g by (auto intro!: map_cong)
qed

definition coherent :: "ResultsCtx list \<Rightarrow> ResultsCtx \<Rightarrow> bool" where
  "coherent results a \<longleftrightarrow>
     list_all (\<lambda>b. query_index b = query_index a
       \<or> list_ex (\<lambda>b'. query_index b' = query_index b \<and> chains a b') results) results"

lemma coherent_groups:
  assumes "i < length results"
  shows "(\<forall>(q, l) \<in> set (group_results results). q \<noteq> query_index (results ! i)
            \<longrightarrow> (\<exists>j \<in> set l. chains (results ! i) (results ! j)))
     \<longleftrightarrow> coherent results (results ! i)"
proof -
  have mem: "j \<in> set (members results q) \<longleftrightarrow> j < length results \<and> query_index (results ! j) = q" for j q
    by (auto simp: members_def)
  have ne: "members results q \<noteq> [] \<longleftrightarrow> (\<exists>j < length results. query_index (results ! j) = q)" for q
    by (auto simp: members_def filter_empty_conv)
  have "(\<forall>(q, l) \<in> set (group_results results). q \<noteq> query_index (results ! i)
            \<longrightarrow> (\<exists>j \<in> set l. chains (results ! i) (results ! j)))
     \<longleftrightarrow> (\<forall>q. members results q \<noteq> [] \<longrightarrow> q \<noteq> query_index (results ! i)
            \<longrightarrow> (\<exists>j \<in> set (members results q). chains (results ! i) (results ! j)))"
    by (auto simp: group_mem_iff)
  also have "\<dots> \<longleftrightarrow> (\<forall>n < length results. query_index (results ! n) \<noteq> query_index (results ! i)
            \<longrightarrow> (\<exists>j < length results. query_index (results ! j) = query_index (results ! n)
                  \<and> chains (results ! i) (results ! j)))"
    unfolding ne Bex_def mem by blast
  also have "\<dots> \<longleftrightarrow> coherent results (results ! i)"
    by (auto simp: coherent_def list_all_length list_ex_length)
  finally show ?thesis .
qed

lemma mem_group_index: "(q, l) \<in> set (group_results results) \<Longrightarrow> i \<in> set l
    \<Longrightarrow> i < length results \<and> q = query_index (results ! i)"
  by (auto simp: group_mem_iff members_def)

lemma index_in_group:
  "i < length results \<Longrightarrow> \<exists>(q, l) \<in> set (group_results results). i \<in> set l"
proof -
  assume "i < length results"
  then have "i \<in> set (members results (query_index (results ! i)))" by (simp add: members_def)
  then show ?thesis
    by (intro bexI [of _ "(query_index (results ! i), members results (query_index (results ! i)))"])
      (auto simp: group_mem_iff)
qed

lemma filter_by_marks: "map fst (filter snd (zip xs (map (\<lambda>i. P (xs ! i)) [0..<length xs]))) = filter P xs"
proof -
  have "zip xs (map (\<lambda>i. P (xs ! i)) [0..<length xs]) = map (\<lambda>x. (x, P x)) xs"
    by (rule nth_equalityI) auto
  then show ?thesis by (simp add: filter_map comp_def)
qed

lemma single_group_coherent:
  assumes "length (group_results results) \<le> 1"
  shows "filter (coherent results) results = results"
proof -
  have "query_index a = query_index b" if ab: "a \<in> set results" "b \<in> set results" for a b
  proof -
    obtain i j where i: "i < length results" "a = results ! i" and j: "j < length results" "b = results ! j"
      using ab unfolding in_set_conv_nth by blast
    obtain q l where ql: "(q, l) \<in> set (group_results results)" "i \<in> set l"
      using index_in_group [OF i(1)] by blast
    obtain q' l' where ql': "(q', l') \<in> set (group_results results)" "j \<in> set l'"
      using index_in_group [OF j(1)] by blast
    have "(q, l) = (q', l')" using ql(1) ql'(1) assms by (cases "group_results results") auto
    with mem_group_index [OF ql] mem_group_index [OF ql'] i j
    show ?thesis by simp
  qed
  then show ?thesis unfolding filter_id_conv coherent_def list_all_iff by blast
qed


section \<open>The prefilter drops no match\<close>

text \<open>
  What the identifiers rely on: a node captured as a check reads as the checked name (the
  \<open>#eq?\<close> predicate of the tree-sitter query), and every capture belongs to a pattern all of whose
  matches bind it.
\<close>

definition checks_bound :: "('q, 're, 'n) engine \<Rightarrow> string \<Rightarrow> 'n set \<Rightarrow> ('q, 're) QueryTree \<Rightarrow> bool" where
  "checks_bound E source N Q \<longleftrightarrow> (\<forall>t \<in> subtrees Q. \<forall>i < length (qt_captures t).
     \<exists>p < ts_pattern_count E (qt_query t). \<forall>root \<in> N. \<forall>caps.
       (p, caps) \<in> set (ts_matches E (qt_query t) root source) \<longrightarrow>
       (\<exists>n. (i, n) \<in> set caps \<and> (\<forall>s. qt_captures t ! i = Check s
           \<longrightarrow> str_slice source (node_byte_range E n) = Some s)))"

lemma str_slice_contains: "str_slice source r = Some s \<Longrightarrow> str_contains source s"
proof -
  assume "str_slice source r = Some s"
  then have "s = take (snd r - fst r) (drop (fst r) source)" "fst r \<le> length source"
    by (auto simp: str_slice_def slice_ok_def split: if_splits)
  then have "prefix s (drop (fst r) source)" "suffix (drop (fst r) source) source"
    by (auto simp: take_is_prefix suffix_drop)
  then show ?thesis by (auto simp: str_contains_def list_ex_iff)
qed

lemma scan_captures_sub_mem:
  "scan_captures E self source cs (r, vs, subs) = Some (Some (r', vs', subs'))
    \<Longrightarrow> (t, n) \<in> set subs \<or> (\<exists>i. (i, n) \<in> set cs \<and> capture_sub (qt_captures self ! i) = Some t)
    \<Longrightarrow> (t, n) \<in> set subs'"
proof (induction cs arbitrary: r vs subs)
  case Nil
  then show ?case by simp
next
  case (Cons c cs)
  obtain index node where c: "c = (index, node)" by force
  show ?case
  proof (cases "qt_captures self ! index")
    case (SubWildQuery u)
    with Cons.prems c Cons.IH [of "r @ [\<lparr>cr_range = node_byte_range E node, query_id = qt_id self,
      capture_idx = index\<rparr>]" vs "subs @ [(u, node)]"] show ?thesis
      by (auto simp: Let_def capture_sub_def split: if_splits)
  next
    case (SubMultiQuery u)
    with Cons.prems c Cons.IH [of r vs "subs @ [(u, node)]"] show ?thesis
      by (auto simp: Let_def capture_sub_def split: if_splits)
  qed (use Cons.prems c Cons.IH in
      \<open>fastforce simp: Let_def capture_sub_def split: Option.bind_splits if_splits\<close>)+
qed

lemma foldM_empty_stays:
  assumes "foldM f xs s = Some s'" and "x \<in> set xs"
    and stay: "\<And>x. x \<in> set xs \<Longrightarrow> f x [] = Some []" and hit: "\<And>s t. f x s = Some t \<Longrightarrow> t = []"
  shows "s' = []"
proof -
  have keep: "foldM f ys [] = Some []" if "set ys \<subseteq> set xs" for ys
    using that stay by (induction ys) auto
  show ?thesis
    using assms(1,2,3)
  proof (induction xs arbitrary: s)
    case Nil
    then show ?case by simp
  next
    case (Cons y ys)
    obtain t where t: "f y s = Some t" "foldM f ys t = Some s'"
      using Cons.prems(1) by (auto split: Option.bind_splits)
    show ?case
    proof (cases "x \<in> set ys")
      case True
      then show ?thesis using Cons.IH [OF t(2)] Cons.prems(3) by auto
    next
      case False
      then have "t = []" using Cons.prems(2) t(1) hit by auto
      moreover have "foldM f ys [] = Some []" using Cons.prems(3) by (induction ys) auto
      ultimately show ?thesis using t(2) by simp
    qed
  qed
qed

lemma merge_query_results_nil: "merge_query_results rs [] source eo = Some []"
  by (induction rs) (auto simp: merge_query_results_def List.map_filter_simps)

lemma foldM_pattern_stays_empty:
  assumes "foldM (\<lambda>(p, caps) prs. do { rs \<leftarrow> g caps; extend_at prs p rs }) ms prs0 = Some prs"
    and "\<And>caps rs. (p, caps) \<in> set ms \<Longrightarrow> g caps = Some rs \<Longrightarrow> rs = []"
    and "p < length prs0" and "prs0 ! p = []"
  shows "p < length prs \<and> prs ! p = []"
  using assms
proof (induction ms arbitrary: prs0)
  case Nil
  then show ?case by simp
next
  case (Cons m ms)
  obtain q caps where m: "m = (q, caps)" by force
  obtain rs prs1 where rs: "g caps = Some rs" "extend_at prs0 q rs = Some prs1"
      "foldM (\<lambda>(p, caps) prs. do { rs \<leftarrow> g caps; extend_at prs p rs }) ms prs1 = Some prs"
    using Cons.prems(1) m by (auto split: Option.bind_splits)
  have "q = p \<Longrightarrow> rs = []" using rs(1) Cons.prems(2) [of caps rs] m by simp
  then have "prs1 ! p = []" "p < length prs1"
    using rs(2) Cons.prems(3,4) by (auto simp: extend_at_def nth_list_update split: if_splits)
  with Cons.IH [OF rs(3)] Cons.prems(2) show ?case by auto
qed

lemma list_exI_nth: "p < length xs \<Longrightarrow> xs ! p = [] \<Longrightarrow> list_ex (\<lambda>x. x = []) xs"
  by (auto simp: list_ex_length)

lemma process_match_ref_sub_empty:
  assumes "process_match_ref E rec self source caps = Some rs"
    and "(i, n) \<in> set caps" "capture_sub (qt_captures self ! i) = Some u" "rec u n = Some []"
  shows "rs = []"
proof -
  obtain sc where sc: "scan_captures E self source caps ([], [], []) = Some sc"
    using assms(1) by (auto simp: process_match_ref_def split: Option.bind_splits)
  show ?thesis
  proof (cases sc)
    case None
    with sc assms(1) show ?thesis by (simp add: process_match_ref_def)
  next
    case (Some st)
    obtain r vs subs where st: "st = (r, vs, subs)" by (cases st)
    have mem: "(u, n) \<in> set subs"
      using scan_captures_sub_mem [OF sc [unfolded Some st]] assms(2,3) by blast
    have "foldM (\<lambda>(t, node) results. if results = [] then Some results
            else do { sub_results \<leftarrow> rec t node; merge_query_results results sub_results source False })
          subs [new_result r vs] = Some rs"
      using assms(1) sc Some st by (simp add: process_match_ref_def)
    then show ?thesis
      by (rule foldM_empty_stays [OF _ mem])
        (auto simp: assms(4) merge_query_results_nil split: if_splits)
  qed
qed

lemma identifiers_mem:
  assumes "s \<in> set (identifiers t)"
  shows "\<exists>c \<in> set (qt_captures t). c = Check s \<or> (\<exists>u. capture_sub c = Some u \<and> s \<in> set (identifiers u))"
proof -
  obtain c where c: "c \<in> set (qt_captures t)"
    "s \<in> set (case c of Check s \<Rightarrow> [s] | SubMultiQuery t \<Rightarrow> identifiers t
       | SubWildQuery t \<Rightarrow> identifiers t | _ \<Rightarrow> [])"
    using assms unfolding identifiers.simps [of t] by (auto simp del: set_concat simp: set_concat [of "map _ _"])
  have "c = Check s \<or> (\<exists>u. capture_sub c = Some u \<and> s \<in> set (identifiers u))"
    by (cases c) (use c(2) in \<open>auto simp: capture_sub_Some\<close>)
  with c(1) show ?thesis by blast
qed

lemma missing_identifier_no_match:
  assumes tot: "engine_total E source N Q" and bound: "checks_bound E source N Q"
    and nc: "\<not> str_contains source s"
  shows "t \<in> subtrees Q \<Longrightarrow> root \<in> N \<Longrightarrow> s \<in> set (identifiers t) \<Longrightarrow> match_ref E t root source = Some []"
proof (induction "size t" arbitrary: t root rule: less_induct)
  case less
  obtain c where c: "c \<in> set (qt_captures t)"
    "c = Check s \<or> (\<exists>u. capture_sub c = Some u \<and> s \<in> set (identifiers u))"
    using identifiers_mem [OF less.prems(3)] by blast
  then obtain i where i: "i < length (qt_captures t)" "qt_captures t ! i = c" by (auto simp: in_set_conv_nth)
  obtain p where p: "p < ts_pattern_count E (qt_query t)"
    "\<And>caps. (p, caps) \<in> set (ts_matches E (qt_query t) root source) \<Longrightarrow>
       \<exists>n. (i, n) \<in> set caps \<and> (\<forall>s. qt_captures t ! i = Check s
           \<longrightarrow> str_slice source (node_byte_range E n) = Some s)"
    using bound less.prems(1,2) i(1) unfolding checks_bound_def by meson
  have empty: "rs = []" if caps: "(p, caps) \<in> set (ts_matches E (qt_query t) root source)"
    and rs: "process_match_ref E (\<lambda>t n. match_ref E t n source) t source caps = Some rs" for caps rs
  proof -
    obtain n where n: "(i, n) \<in> set caps"
      "\<And>s. qt_captures t ! i = Check s \<Longrightarrow> str_slice source (node_byte_range E n) = Some s"
      using p(2) [OF caps] by blast
    then obtain u where u: "capture_sub (qt_captures t ! i) = Some u" "s \<in> set (identifiers u)"
      using c(2) i(2) nc str_slice_contains by blast
    then have mem: "u \<in> set (sub_queries t)" using nth_mem [OF i(1)] by (auto simp: set_sub_queries capture_sub_Some)
    have "match_ref E u n source = Some []"
      using less.hyps [OF size_sub_query [OF mem] subtrees.sub [OF less.prems(1) mem]]
        engine_totalD(3) [OF tot less.prems(1,2) caps n(1)] u(2) by blast
    then show ?thesis using process_match_ref_sub_empty [OF rs n(1) u(1)] by blast
  qed
  obtain rs where rs: "match_ref E t root source = Some rs"
    using match_ref_total [OF tot less.prems(1,2)] by blast
  then obtain prs where prs: "foldM (\<lambda>(pattern_index, caps) prs. do {
         rs \<leftarrow> process_match_ref E (\<lambda>t node. match_ref E t node source) t source caps;
         extend_at prs pattern_index rs }) (ts_matches E (qt_query t) root source)
       (replicate (ts_pattern_count E (qt_query t)) []) = Some prs"
    unfolding match_ref.simps [of E t] by (auto split: Option.bind_splits)
  have "p < length prs \<and> prs ! p = []"
    by (rule foldM_pattern_stays_empty [OF prs empty]) (use p(1) in auto)
  then show ?case unfolding match_ref.simps [of E t] prs using list_exI_nth [of p prs] by simp
qed

lemma prefilter_matches:
  assumes "engine_total E source N (wi_qt w)" "checks_bound E source N (wi_qt w)"
    and "cache_keys_ok E source N (wi_qt w)" and "root \<in> N"
    and "wi_identifiers w = identifiers (wi_qt w)"
    and "\<not> list_all (str_contains source) (wi_identifiers w)"
  shows "matches E (wi_qt w) root source = Some []"
proof -
  obtain s where "s \<in> set (identifiers (wi_qt w))" "\<not> str_contains source s"
    using assms(5,6) by (auto simp: list_all_iff)
  with missing_identifier_no_match [OF assms(1,2) _ subtrees.self assms(4)]
  have "match_ref E (wi_qt w) root source = Some []" by blast
  with matches_memoized_eq [OF assms(3,4)] show ?thesis by simp
qed


section \<open>The switches \<open>--unique\<close> and \<open>--limit\<close>\<close>

definition unique_values :: "string \<Rightarrow> QueryResult \<Rightarrow> bool" where
  "unique_values source m \<longleftrightarrow> distinct (map (env_of source m) (map fst (vars m)))"

lemma all_fresh_eq:
  assumes "wf_result source m"
  shows "set ks \<subseteq> fst ` set (vars m) \<Longrightarrow> all_fresh m source ks seen
    = Some (distinct (map (env_of source m) ks) \<and> (\<forall>k \<in> set ks. env_of source m k \<notin> Some ` set seen))"
proof (induction ks arbitrary: seen)
  case Nil
  then show ?case by simp
next
  case (Cons k ks)
  then have "k \<in> dom (env_of source m)" using dom_env_of [OF assms] by auto
  then obtain x where x: "env_of source m k = Some x" by blast
  with Cons show ?case by (auto simp: qr_value_total [OF assms]) (metis imageI)
qed

lemma check_unique_eq [no_panic]:
  "wf_result source m \<Longrightarrow> check_unique opts source m = Some (opt_unique opts \<longrightarrow> unique_values source m)"
  by (simp add: check_unique_def unique_values_def all_fresh_eq)

fun first_per_offset :: "QueryResult list \<Rightarrow> nat set \<Rightarrow> QueryResult list" where
  "first_per_offset [] skip = []"
| "first_per_offset (m # ms) skip = (if start_offset m \<in> skip then first_per_offset ms skip
     else m # first_per_offset ms (insert (start_offset m) skip))"

lemma run_query_fold:
  assumes "list_all (wf_result source) ms"
  shows "map_option fst (foldM (filter_and_send opts i w source path) ms (out, skip))
     = Some (out @ map (send_result i w source path)
         (let us = filter (\<lambda>m. opt_unique opts \<longrightarrow> unique_values source m) ms
          in if opt_limit opts then first_per_offset us skip else us))"
  using assms
proof (induction ms arbitrary: out skip)
  case Nil
  then show ?case by simp
next
  case (Cons m ms)
  then have "check_unique opts source m = Some (opt_unique opts \<longrightarrow> unique_values source m)"
    by (simp add: check_unique_eq)
  then have "filter_and_send opts i w source path m (out, skip) = Some
      (if opt_unique opts \<and> \<not> unique_values source m then (out, skip)
       else if opt_limit opts then (if start_offset m \<in> skip then (out, skip)
         else (out @ [send_result i w source path m], insert (start_offset m) skip))
       else (out @ [send_result i w source path m], skip))"
    by (auto simp: filter_and_send_def check_limit_def Let_def insert_absorb)
  with Cons show ?case
    by (simp add: Let_def del: map_option_eq_Some)
qed

lemma first_per_offset_spec:
  "distinct (map start_offset (first_per_offset ms skip))
    \<and> start_offset ` set (first_per_offset ms skip) = start_offset ` set ms - skip
    \<and> (\<forall>m \<in> set (first_per_offset ms skip). List.find (\<lambda>n. start_offset n = start_offset m) ms = Some m)"
proof (induction ms skip rule: first_per_offset.induct)
  case (2 m ms skip)
  show ?case
  proof (cases "start_offset m \<in> skip")
    case True
    with 2(1) show ?thesis by auto
  next
    case False
    with 2(2) show ?thesis by (auto; fastforce)
  qed
qed simp

text \<open>
  On one file the query worker sends the well-formed matches of a query in order, with
  \<open>--unique\<close> only those whose variables all have different values, and with \<open>--limit\<close> exactly
  the first of them for every function.
\<close>

theorem run_query_filters:
  assumes "matches E (wi_qt w) root source = Some ms" and "list_all (wf_result source) ms"
    and "us = filter (\<lambda>m. opt_unique opts \<longrightarrow> unique_values source m) ms"
  shows "\<exists>rs. run_query E opts i w source root path = Some (map (send_result i w source path) rs)
    \<and> (\<not> opt_limit opts \<longrightarrow> rs = us)
    \<and> (opt_limit opts \<longrightarrow> distinct (map start_offset rs) \<and> start_offset ` set rs = start_offset ` set us
         \<and> (\<forall>m \<in> set rs. List.find (\<lambda>n. start_offset n = start_offset m) us = Some m))"
proof -
  let ?rs = "if opt_limit opts then first_per_offset us {} else us"
  have "run_query E opts i w source root path = Some (map (send_result i w source path) ?rs)"
    using run_query_fold [OF assms(2), of opts i w path "[]" "{}"] assms(1,3)
    by (auto simp: run_query_def Let_def)
  then show ?thesis
    using first_per_offset_spec [of us "{}"] by (intro exI [of _ ?rs]) auto
qed

section \<open>Instances\<close>

definition example_ctx :: "nat \<Rightarrow> QueryResult \<Rightarrow> ResultsCtx" where
  "example_ctx q r = \<lparr>query_index = q, rc_path = ''a.c'', rc_source = example_source, rc_result = r,
     rc_reason = [], rc_issue = []\<rparr>"

definition example_clash :: QueryResult where
  "example_clash = example_b \<lparr>vars := [(''$v'', 0)]\<rparr>"

lemma wf_example_ctx:
  "list_all wf_ctx [example_ctx 0 example_a, example_ctx 1 example_clash, example_ctx 0 example_clash]"
  by (auto simp: wf_ctx_def example_ctx_def example_clash_def example_a_def example_b_def example_source_def
      wf_result_def keys_distinct_def slice_ok_def is_char_boundary_def)


definition check_engine :: "(nat, nat, nat) engine" where
  "check_engine = small_engine \<lparr>ts_matches := (\<lambda>q root source.
     if str_slice source (0, 2) = Some ''zz'' then [(0, [(0, 0)])] else [])\<rparr>"

definition check_item :: "(nat, nat) WorkItem" where
  "check_item = \<lparr>wi_qt = QueryTree 0 [Check ''zz''] [] [] 0, wi_identifiers = [''zz''],
     wi_reason = [], wi_issue = []\<rparr>"

lemma subtrees_check: "subtrees (wi_qt check_item) = {wi_qt check_item}"
proof -
  have "t = wi_qt check_item" if "t \<in> subtrees (wi_qt check_item)" for t
    using that by (induction rule: subtrees.induct) (auto simp: check_item_def set_sub_queries)
  then show ?thesis by (auto intro: subtrees.self)
qed


definition pair_item :: "(nat, nat) WorkItem" where
  "pair_item = \<lparr>wi_qt = pair_query 0 1 2, wi_identifiers = [], wi_reason = [], wi_issue = []\<rparr>"

theorem run_query_filters_witness:
  "\<exists>rs. run_query small_engine \<lparr>opt_limit = True, opt_unique = True\<rparr> 3 pair_item ''ab'' 0 ''a.c''
     = Some (map (send_result 3 pair_item ''ab'' ''a.c'') rs) \<and> distinct (map start_offset rs)"
proof -
  obtain ms where ms: "matches small_engine (wi_qt pair_item) 0 ''ab'' = Some ms" "list_all (wf_result ''ab'') ms"
    using match_ref_total [OF small_total subtrees.self, of 0] matches_memoized_eq [OF small_keys_ok, of 0]
      dedup_subset by (fastforce simp: list_all_iff pair_item_def)
  from run_query_filters [OF ms refl, of "\<lparr>opt_limit = True, opt_unique = True\<rparr>" 3 "''a.c''"]
  show ?thesis by auto
qed

end
