(* ===== verification/Weggli_Output.thy ===== *)
theory Weggli_Output
  imports Weggli_Pipeline
begin

text \<open>
  \<^verbatim>\<open>src/src/output/sarif.rs\<close> and \<^verbatim>\<open>src/src/output/terminal.rs\<close>: the location of a match as
  line and column, the SARIF results with their removal of duplicates, and the terminal report.
  The builders of the serde-sarif package only store what they are given: a SARIF result is a
  record of those values. Serialisation and the file system are not modelled.
\<close>

section \<open>Lines and columns\<close>

definition newline :: char where "newline = CHR 0x0A"

definition rfind :: "char \<Rightarrow> string \<Rightarrow> nat option" where
  "rfind c s = (if c \<in> set s then Some (length s - 1 - length (takeWhile (\<lambda>x. x \<noteq> c) (rev s))) else None)"

definition byte_to_line :: "string \<Rightarrow> nat \<Rightarrow> nat panics" where
  "byte_to_line source byte_offset = do {
     text \<leftarrow> str_slice source (0, min byte_offset (length source));
     Some (count_list text newline) }"

definition byte_to_column :: "string \<Rightarrow> nat \<Rightarrow> nat panics" where
  "byte_to_column source byte_offset =
    (let clamped = min byte_offset (length source) in do {
       text \<leftarrow> str_slice source (0, clamped);
       Some (case rfind newline text of Some last_newline \<Rightarrow> clamped - last_newline | None \<Rightarrow> clamped + 1) })"

section \<open>SARIF results\<close>

record OutputResults =
  or_query_index :: nat
  or_path :: string
  or_reason :: string
  or_issue :: string
  start_line :: int
  start_column :: int
  end_line :: int
  end_column :: int

definition to_output :: "ResultsCtx \<Rightarrow> OutputResults panics" where
  "to_output r =
    (let start_offset = start_offset (rc_result r);
         source_str = rc_source r;
         function_end = snd (function_range (rc_result r)) in do {
       start_line \<leftarrow> byte_to_line source_str start_offset;
       start_column \<leftarrow> byte_to_column source_str start_offset;
       end_line \<leftarrow> byte_to_line source_str function_end;
       end_column \<leftarrow> byte_to_column source_str function_end;
       Some \<lparr>or_query_index = query_index r, or_path = rc_path r, or_reason = rc_reason r, or_issue = rc_issue r,
         start_line = int start_line, start_column = int start_column,
         end_line = int end_line, end_column = int end_column\<rparr> })"

definition dedup_key :: "OutputResults \<Rightarrow> string \<times> int \<times> string" where
  "dedup_key r = (or_path r, start_line r, or_issue r)"

fun unique_results :: "OutputResults list \<Rightarrow> (string \<times> int \<times> string) set \<Rightarrow> OutputResults list" where
  "unique_results [] seen = []"
| "unique_results (r # rs) seen =
    (if dedup_key r \<in> seen then unique_results rs seen
     else r # unique_results rs (insert (dedup_key r) seen))"

record sarif_result =
  s_rule_id :: string
  s_rule_index :: int
  s_message :: string
  s_uri :: string
  s_start_line :: int
  s_start_column :: int
  s_end_line :: int
  s_end_column :: int

definition sarif_of :: "OutputResults \<Rightarrow> sarif_result" where
  "sarif_of r = \<lparr>s_rule_id = or_issue r, s_rule_index = int (or_query_index r), s_message = or_reason r,
     s_uri = or_path r, s_start_line = start_line r, s_start_column = start_column r,
     s_end_line = end_line r, s_end_column = end_column r\<rparr>"

text \<open>The results array of the document; the count printed is its length.\<close>

definition generate_sarif :: "ResultsCtx list \<Rightarrow> sarif_result list panics" where
  "generate_sarif results = do {
     output_results \<leftarrow> mapM to_output results;
     Some (map sarif_of (unique_results output_results {})) }"

section \<open>The terminal report\<close>

text \<open>
  The number of matches and the text of every match. The colours and \<open>QueryResult::display\<close> are
  arguments.
\<close>

record display_ops =
  d_bold_blue :: "string \<Rightarrow> string"
  d_bold_purple :: "string \<Rightarrow> string"
  d_bold :: "string \<Rightarrow> string"
  d_display :: "QueryResult \<Rightarrow> string \<Rightarrow> bool \<Rightarrow> string"

definition print_match :: "display_ops \<Rightarrow> bool \<Rightarrow> ResultsCtx \<Rightarrow> string panics" where
  "print_match D enable_line_numbers r = do {
     text \<leftarrow> str_slice (rc_source r) (0, start_offset (rc_result r));
     let line = count_list text newline + 1 in
     Some (d_bold_blue D ('' '' @ rc_reason r @ '' '') @ '' : '' @ d_bold_purple D ('' '' @ rc_issue r @ '' '')
       @ [newline] @ d_bold D (rc_path r) @ '':'' @ nat_to_string line @ [newline]
       @ d_display D (rc_result r) (rc_source r) enable_line_numbers) }"

definition print_terminal :: "display_ops \<Rightarrow> ResultsCtx list \<Rightarrow> bool \<Rightarrow> (nat \<times> string list) panics" where
  "print_terminal D results enable_line_numbers = do {
     prints \<leftarrow> mapM (print_match D enable_line_numbers) results;
     Some (length prints, prints) }"

section \<open>A location determines the offset\<close>

text \<open>The offset at which a line starts.\<close>

fun line_start :: "string \<Rightarrow> nat \<Rightarrow> nat" where
  "line_start s 0 = 0"
| "line_start [] (Suc l) = 0"
| "line_start (x # s) (Suc l) = Suc (if x = newline then line_start s l else line_start s (Suc l))"

lemma rfind_snoc: "rfind c (s @ [x]) = (if x = c then Some (length s) else rfind c s)"
  by (auto simp: rfind_def)

lemma line_start_count: "line_start (s @ t) (count_list s newline)
    = (case rfind newline s of Some i \<Rightarrow> Suc i | None \<Rightarrow> 0)"
proof (induction s arbitrary: t rule: rev_induct)
  case Nil
  then show ?case by (simp add: rfind_def)
next
  case (snoc x s)
  have hit: "line_start (s @ newline # t) (Suc (count_list s newline)) = Suc (length s)" for t
    by (induction s) auto
  show ?case
  proof (cases "x = newline")
    case True
    then show ?thesis using hit [of t] by (simp add: rfind_snoc)
  next
    case False
    then show ?thesis using snoc [of "x # t"] by (simp add: rfind_snoc)
  qed
qed

lemma rfind_less: "rfind c s = Some i \<Longrightarrow> i < length s"
  by (cases s) (auto simp: rfind_def split: if_splits)

text \<open>
  The line and the column of a match determine its position: the start of the line plus the
  column, counted from one, is the byte offset (or the end of the file for an offset behind it).
  Both are defined for an offset at the boundary of a character.
\<close>

theorem location_roundtrip:
  assumes "is_char_boundary source (min off (length source))"
  shows "\<exists>l c. byte_to_line source off = Some l \<and> byte_to_column source off = Some c
    \<and> 1 \<le> c \<and> line_start source l + (c - 1) = min off (length source)"
proof -
  define k where "k = min off (length source)"
  have "slice_ok source (0, k)" using assms by (simp add: slice_ok_def k_def is_char_boundary_def)
  then have s: "str_slice source (0, k) = Some (take k source)" by (simp add: str_slice_def)
  have l: "line_start source (count_list (take k source) newline)
      = (case rfind newline (take k source) of Some i \<Rightarrow> Suc i | None \<Rightarrow> 0)"
    using line_start_count [of "take k source" "drop k source"] by simp
  have "i < k" if "rfind newline (take k source) = Some i" for i
    using rfind_less [OF that] by (simp add: k_def)
  with s l show ?thesis
    unfolding byte_to_line_def byte_to_column_def Let_def k_def [symmetric] by (auto split: option.split)
qed

theorem location_roundtrip_witness:
  "byte_to_line [CHR ''a'', newline, CHR ''b'', CHR ''c''] 3 = Some 1
    \<and> byte_to_column [CHR ''a'', newline, CHR ''b'', CHR ''c''] 3 = Some 2
    \<and> line_start [CHR ''a'', newline, CHR ''b'', CHR ''c''] 1 + (2 - 1) = 3"
proof -
  let ?s = "[CHR ''a'', newline, CHR ''b'', CHR ''c'']"
  have "is_char_boundary ?s (min 3 (length ?s))" by code_simp
  from location_roundtrip [OF this]
  obtain l c where "byte_to_line ?s 3 = Some l" "byte_to_column ?s 3 = Some c" "line_start ?s l + (c - 1) = 3" by auto
  moreover have "byte_to_line ?s 3 = Some 1" "byte_to_column ?s 3 = Some 2" by code_simp+
  ultimately show ?thesis by simp
qed

section \<open>The results of a SARIF document\<close>

definition sarif_key :: "sarif_result \<Rightarrow> string \<times> int \<times> string" where
  "sarif_key x = (s_uri x, s_start_line x, s_rule_id x)"

definition locatable :: "ResultsCtx \<Rightarrow> bool" where
  "locatable r \<longleftrightarrow> is_char_boundary (rc_source r) (min (start_offset (rc_result r)) (length (rc_source r)))
     \<and> is_char_boundary (rc_source r) (min (snd (function_range (rc_result r))) (length (rc_source r)))"

lemma byte_to_total:
  assumes "is_char_boundary source (min off (length source))"
  shows "byte_to_line source off = Some (count_list (take off source) newline)" "\<exists>c \<ge> 1. byte_to_column source off = Some c"
proof -
  have "slice_ok source (0, min off (length source))" using assms by (simp add: slice_ok_def is_char_boundary_def)
  then have s: "str_slice source (0, min off (length source)) = Some (take off source)"
    by (simp add: str_slice_def min_def)
  then show "byte_to_line source off = Some (count_list (take off source) newline)" by (simp add: byte_to_line_def)
  show "\<exists>c \<ge> 1. byte_to_column source off = Some c"
    using rfind_less [of newline "take off source"]
    by (auto simp: byte_to_column_def Let_def s min.commute Suc_le_eq split: option.split)
qed

lemma to_output_total:
  assumes "locatable r"
  obtains x where "to_output r = Some x" "or_path x = rc_path r" "or_issue x = rc_issue r" "or_reason x = rc_reason r"
    "or_query_index x = query_index r" "start_column x \<ge> 1"
    "start_line x = int (count_list (take (start_offset (rc_result r)) (rc_source r)) newline)"
proof -
  note b = assms [unfolded locatable_def]
  obtain c d where "byte_to_column (rc_source r) (start_offset (rc_result r)) = Some c" "c \<ge> 1"
    "byte_to_column (rc_source r) (snd (function_range (rc_result r))) = Some d"
    using byte_to_total(2) b by metis
  with that byte_to_total(1) b show ?thesis by (simp add: to_output_def Let_def)
qed

lemma unique_results_spec:
  "distinct (map dedup_key (unique_results rs seen))
    \<and> dedup_key ` set (unique_results rs seen) = dedup_key ` set rs - seen
    \<and> subseq (unique_results rs seen) rs
    \<and> (\<forall>x \<in> set (unique_results rs seen). find (\<lambda>y. dedup_key y = dedup_key x) rs = Some x)"
proof (induction rs arbitrary: seen)
  case (Cons r rs)
  show ?case
  proof (cases "dedup_key r \<in> seen")
    case True
    then have "dedup_key r \<noteq> dedup_key x" if "x \<in> set (unique_results rs seen)" for x
      using Cons [of seen] that by blast
    with True Cons [of seen] show ?thesis by auto
  next
    case False
    then have "dedup_key r \<noteq> dedup_key x" if "x \<in> set (unique_results rs (insert (dedup_key r) seen))" for x
      using Cons [of "insert (dedup_key r) seen"] that by blast
    with False Cons [of "insert (dedup_key r) seen"] show ?thesis by auto
  qed
qed simp

lemma sarif_key_of: "sarif_key (sarif_of x) = dedup_key x"
  by (simp add: sarif_key_def sarif_of_def dedup_key_def)

text \<open>
  C39. The SARIF document has exactly one result for every file, line and issue with a match, the
  first one found, in the order of the matches, and its production never panics on matches whose
  ranges are at character boundaries.
\<close>

theorem generate_sarif_spec:
  assumes "\<And>r. r \<in> set results \<Longrightarrow> locatable r"
  shows "\<exists>xs outs. generate_sarif results = Some xs \<and> mapM to_output results = Some outs
    \<and> distinct (map sarif_key xs) \<and> sarif_key ` set xs = dedup_key ` set outs
    \<and> subseq xs (map sarif_of outs)
    \<and> (\<forall>x \<in> set xs. find (\<lambda>y. sarif_key y = sarif_key x) (map sarif_of outs) = Some x)"
proof -
  have "to_output r = Some (the (to_output r))" if "r \<in> set results" for r
    using assms [OF that] by (rule to_output_total) simp
  then obtain outs where o: "mapM to_output results = Some outs"
    using mapM_total [of results to_output "\<lambda>r. the (to_output r)"] by blast
  define us where "us = unique_results outs {}"
  note u = unique_results_spec [of outs "{}", folded us_def]
  have "find (\<lambda>y. sarif_key y = sarif_key (sarif_of x)) (map sarif_of outs) = Some (sarif_of x)" if "x \<in> set us" for x
  proof -
    have "find P (map sarif_of ys) = map_option sarif_of (find (P \<circ> sarif_of) ys)" for P ys by (induction ys) auto
    with u that show ?thesis by (simp add: comp_def sarif_key_of)
  qed
  with o u show ?thesis
    by (intro exI [of _ "map sarif_of us"] exI [of _ outs])
      (auto simp: generate_sarif_def us_def sarif_key_of comp_def image_image subseq_map)
qed

text \<open>
  The start line of a SARIF result counts from zero while its column counts from one: it is the
  number of line breaks before the match, one less than the line of the terminal report, and zero for
  a match on the first line.
\<close>

lemma sarif_line_zero_based:
  assumes "locatable r"
  shows "\<exists>x. generate_sarif [r] = Some [x] \<and> 1 \<le> s_start_column x
    \<and> s_start_line x = int (count_list (take (start_offset (rc_result r)) (rc_source r)) newline)
    \<and> (newline \<notin> set (take (start_offset (rc_result r)) (rc_source r)) \<longrightarrow> s_start_line x = 0)"
proof -
  obtain x where "to_output r = Some x" "start_column x \<ge> 1"
    "start_line x = int (count_list (take (start_offset (rc_result r)) (rc_source r)) newline)"
    using assms by (rule to_output_total)
  then show ?thesis by (auto simp: generate_sarif_def sarif_of_def count_list_0_iff)
qed

definition example_match :: ResultsCtx where
  "example_match = \<lparr>query_index = 1, rc_path = ''a.c'', rc_source = ''f();'',
     rc_result = \<lparr>captures = [\<lparr>cr_range = (0, 3), query_id = 0, capture_idx = 0\<rparr>], vars = [], function_range = (0, 4)\<rparr>,
     rc_reason = ''call'', rc_issue = ''i''\<rparr>"

lemma example_match_locatable: "locatable example_match"
  by code_simp

theorem generate_sarif_spec_witness:
  "\<exists>xs. generate_sarif [example_match, example_match] = Some xs \<and> distinct (map sarif_key xs)"
  using generate_sarif_spec [of "[example_match, example_match]"] example_match_locatable by auto

lemma sarif_line_zero_instance:
  "\<exists>x. generate_sarif [example_match] = Some [x] \<and> s_start_line x = 0"
proof -
  have "newline \<notin> set (take (start_offset (rc_result example_match)) (rc_source example_match))" by code_simp
  then show ?thesis using sarif_line_zero_based [OF example_match_locatable] by blast
qed

end
