(* ===== verification/Weggli_Builder.thy ===== *)
theory Weggli_Builder
  imports Weggli_Capture Weggli_Util
begin

text \<open>
  \<^verbatim>\<open>src/src/builder.rs\<close> and \<^verbatim>\<open>src/src/lib.rs\<close>: a search pattern, parsed by tree-sitter, becomes
  a tree of tree-sitter queries. A syntax tree is the datatype \<open>cst\<close>, with what the builder reads
  of a node: its kind, whether it is named, the field it fills in its parent, its byte range, the
  error marks and its children. A cursor is a node together with its parent, which one branch of
  the builder reads. Parsing, the compilation of a query text and the tables of the characters
  outside ASCII are the argument \<open>host\<close>.

  Every function of the builder that descends is a definition over the recursive call \<open>rec\<close>;
  \<open>build\<close> ties the knot. All calls go to smaller nodes, so that the builder returns on every tree.
\<close>

section \<open>Syntax trees\<close>

datatype cst = Cst (n_kind: string) (n_named: bool) (n_field: "string option") (n_range: "nat \<times> nat")
  (n_has_error: bool) (n_is_error: bool) (n_is_missing: bool) (n_children: "cst list")

definition nth_opt :: "'a list \<Rightarrow> nat \<Rightarrow> 'a option" where
  "nth_opt xs i = (if i < length xs then Some (xs ! i) else None)"

definition named_children :: "cst \<Rightarrow> cst list" where
  "named_children n = filter n_named (n_children n)"

definition child_by_field_name :: "cst \<Rightarrow> string \<Rightarrow> cst option" where
  "child_by_field_name n f = find (\<lambda>m. n_field m = Some f) (n_children n)"

lemma size_child: "m \<in> set (n_children n) \<Longrightarrow> size m < size n"
  by (cases n) (auto dest: size_list_estimation' [where f = size and y = "size _", OF _ le_refl])

lemma nth_opt_Some: "nth_opt xs i = Some x \<longleftrightarrow> i < length xs \<and> x = xs ! i"
  by (auto simp: nth_opt_def)

lemma nth_opt_mem: "nth_opt xs i = Some x \<Longrightarrow> x \<in> set xs"
  by (auto simp: nth_opt_Some)

lemma named_child_mem: "nth_opt (named_children n) i = Some x \<Longrightarrow> x \<in> set (n_children n)"
  by (auto dest!: nth_opt_mem simp: named_children_def)

lemma child_by_field_mem: "child_by_field_name n f = Some m \<Longrightarrow> m \<in> set (n_children n)"
  by (auto simp: child_by_field_name_def find_Some_iff)

section \<open>Results and errors\<close>

text \<open>
  The errors of \<open>QueryError\<close>, one constructor for each message. A syntax error carries the text
  before the first error node, the kind of that node if it is missing, its text and the text
  behind it; the colours of the message are left out.
\<close>

datatype QueryError =
    GenerationFailed string
  | SyntaxError "(string \<times> string option \<times> string \<times> string) option"
  | MultipleRoots string
  | UnsupportedRoot string

type_synonym 'a built = "(QueryError + 'a) panics"

text \<open>The operator \<open>?\<close> on a call that may also panic.\<close>

definition and_then :: "'a built \<Rightarrow> ('a \<Rightarrow> 'b built) \<Rightarrow> 'b built" where
  "and_then r f = (case r of None \<Rightarrow> None | Some (Inl e) \<Rightarrow> Some (Inl e) | Some (Inr x) \<Rightarrow> f x)"

definition ok :: "'a \<Rightarrow> 'a built" where
  "ok x = Some (Inr x)"

lemma and_then_simps [simp]:
  "and_then None f = None" "and_then (Some (Inl e)) f = Some (Inl e)" "and_then (Some (Inr x)) f = f x"
  "and_then (ok x) f = f x"
  by (simp_all add: and_then_def ok_def)

lemma and_then_cong: "r = r' \<Longrightarrow> (\<And>x. r' = Some (Inr x) \<Longrightarrow> f x = g x) \<Longrightarrow> and_then r f = and_then r' g"
  by (auto simp: and_then_def split: option.split sum.split)

section \<open>Characters\<close>

text \<open>
  What the builder takes from elsewhere: \<open>ts_parse\<close> parses a pattern, \<open>ts_query\<close> compiles a query text (\<open>None\<close> is an error of
  tree-sitter), the \<open>uni_\<close> fields are the Unicode tables for one character outside ASCII, given by
  its bytes, and \<open>hash_order\<close> is the order in which a hash map yields its entries.
\<close>

record 'q host =
  ts_parse :: "string \<Rightarrow> cst"
  ts_query :: "string \<Rightarrow> 'q option"
  uni_upper :: "string \<Rightarrow> string"
  uni_numeric :: "string \<Rightarrow> bool"
  uni_alphanumeric :: "string \<Rightarrow> bool"
  hash_order :: "(string \<times> nat list) list \<Rightarrow> (string \<times> nat list) list"

definition continuation :: "char \<Rightarrow> bool" where
  "continuation c \<longleftrightarrow> 128 \<le> (of_char c :: nat) \<and> (of_char c :: nat) < 192"

text \<open>The characters of a string, each as its bytes.\<close>

function utf8_chars :: "string \<Rightarrow> string list" where
  "utf8_chars [] = []"
| "utf8_chars (c # s) = (c # takeWhile continuation s) # utf8_chars (dropWhile continuation s)"
  by pat_completeness auto
termination
  by (relation "measure length") (auto simp: le_imp_less_Suc length_dropWhile_le)

definition is_digit :: "char \<Rightarrow> bool" where
  "is_digit c \<longleftrightarrow> 48 \<le> (of_char c :: nat) \<and> (of_char c :: nat) \<le> 57"

definition is_upper :: "char \<Rightarrow> bool" where
  "is_upper c \<longleftrightarrow> 65 \<le> (of_char c :: nat) \<and> (of_char c :: nat) \<le> 90"

definition is_lower :: "char \<Rightarrow> bool" where
  "is_lower c \<longleftrightarrow> 97 \<le> (of_char c :: nat) \<and> (of_char c :: nat) \<le> 122"

definition is_ascii :: "string \<Rightarrow> bool" where
  "is_ascii ch \<longleftrightarrow> (of_char (hd ch) :: nat) < 128"

definition is_numeric :: "'q host \<Rightarrow> string \<Rightarrow> bool" where
  "is_numeric H ch = (if is_ascii ch then is_digit (hd ch) else uni_numeric H ch)"

definition is_alphanumeric :: "'q host \<Rightarrow> string \<Rightarrow> bool" where
  "is_alphanumeric H ch = (if is_ascii ch then is_digit (hd ch) \<or> is_upper (hd ch) \<or> is_lower (hd ch)
     else uni_alphanumeric H ch)"

definition to_uppercase :: "'q host \<Rightarrow> string \<Rightarrow> string" where
  "to_uppercase H s = concat (map (\<lambda>ch. if is_ascii ch
     then [if is_lower (hd ch) then char_of ((of_char (hd ch) :: nat) - 32) else hd ch]
     else uni_upper H ch) (utf8_chars s))"

definition starts_with :: "char \<Rightarrow> string \<Rightarrow> bool" where
  "starts_with c s \<longleftrightarrow> take 1 s = [c]"

definition quoted :: "string \<Rightarrow> string" where
  "quoted s = CHR 0x22 # s @ [CHR 0x22]"

text \<open>The line break and the indentation inside a format string.\<close>

definition line_break :: "nat \<Rightarrow> string" where
  "line_break k = CHR 0x0A # replicate k (CHR '' '')"

section \<open>Predicates of captures\<close>

fun push_index :: "string \<Rightarrow> nat \<Rightarrow> (string \<times> nat list) list \<Rightarrow> (string \<times> nat list) list" where
  "push_index v i [] = [(v, [i])]"
| "push_index v i ((w, is) # m) = (if v = w then (w, is @ [i]) # m else (w, is) # push_index v i m)"

definition check_predicate :: "nat \<Rightarrow> string \<Rightarrow> string" where
  "check_predicate i s = ''(#eq? @'' @ nat_to_string i @ '' '' @ quoted s @ '')''"

definition same_predicates :: "nat list \<Rightarrow> string" where
  "same_predicates vec = concat (map (\<lambda>capture.
     ''(#eq? @'' @ nat_to_string (hd vec) @ '' @'' @ nat_to_string capture @ '')'') (tl vec))"

fun capture_predicates :: "('q, 're) Capture list \<Rightarrow> nat \<Rightarrow> string \<times> (string \<times> nat list) list \<times> string list
    \<Rightarrow> string \<times> (string \<times> nat list) list \<times> string list" where
  "capture_predicates [] i st = st"
| "capture_predicates (c # cs) i (sexp, vars, used) = capture_predicates cs (Suc i) (case c of
      Check s \<Rightarrow> (sexp @ check_predicate i s, vars, used)
    | Variable var _ \<Rightarrow> (sexp, push_index var i vars, List.insert var used)
    | _ \<Rightarrow> (sexp, vars, used))"

definition process_captures :: "'q host \<Rightarrow> ('q, 're) Capture list \<Rightarrow> nat \<Rightarrow> string list \<Rightarrow> string \<times> string list" where
  "process_captures H captures offset used =
    (let (sexp, vars, used) = capture_predicates (drop offset captures) offset ([], [], used)
     in (sexp @ concat (map (\<lambda>(_, vec). same_predicates vec) (hash_order H vars)), used))"

section \<open>The builder\<close>

record ('q, 're) QueryBuilder =
  query_source :: string
  b_captures :: "('q, 're) Capture list"
  b_negations :: "('q, 're) NegativeQuery list"
  b_id :: nat
  regex_constraints :: "(string \<times> bool \<times> 're) list"

definition new_builder :: "string \<Rightarrow> nat \<Rightarrow> (string \<times> bool \<times> 're) list \<Rightarrow> ('q, 're) QueryBuilder" where
  "new_builder source qid rc = \<lparr>query_source = source, b_captures = [], b_negations = [], b_id = qid,
     regex_constraints = rc\<rparr>"

text \<open>\<open>add_capture\<close> on the builder: the name of the capture and the builder that has it.\<close>

definition push_capture :: "('q, 're) Capture \<Rightarrow> ('q, 're) QueryBuilder \<Rightarrow> string \<times> ('q, 're) QueryBuilder" where
  "push_capture c b = (fst (add_capture (b_captures b) c), b \<lparr>b_captures := snd (add_capture (b_captures b) c)\<rparr>)"

definition get_text :: "('q, 're) QueryBuilder \<Rightarrow> cst \<Rightarrow> string built" where
  "get_text b n = map_option Inr (str_slice (query_source b) (n_range n))"

text \<open>\<open>Option::unwrap\<close>\<close>

definition unwrap :: "'a option \<Rightarrow> 'a built" where
  "unwrap x = map_option Inr x"

text \<open>\<open>build\<close>: the parent of the node, the node, the depth, strict mode, the kind of the parent as the caller names it.\<close>

type_synonym ('q, 're) builder_call =
  "cst option \<Rightarrow> cst \<Rightarrow> nat \<Rightarrow> bool \<Rightarrow> string \<Rightarrow> ('q, 're) QueryBuilder \<Rightarrow> (string \<times> ('q, 're) QueryBuilder) built"

definition is_subexpr_wildcard :: "('q, 're) QueryBuilder \<Rightarrow> cst \<Rightarrow> bool built" where
  "is_subexpr_wildcard b query =
    (if n_kind query \<noteq> ''call_expression'' then ok False
     else and_then (unwrap (child_by_field_name query ''function''))
       (\<lambda>f. and_then (get_text b f) (\<lambda>t. ok (t = ''_''))))"

definition is_comparison_binary_exp :: "cst \<Rightarrow> bool" where
  "is_comparison_binary_exp n = (case nth_opt (n_children n) 1 of
     Some oper \<Rightarrow> n_kind oper \<in> set [''>'', ''<'', ''<='', ''>=''] | None \<Rightarrow> False)"

definition is_commutative_binary_exp :: "cst \<Rightarrow> bool" where
  "is_commutative_binary_exp n = (case nth_opt (n_children n) 1 of
     Some oper \<Rightarrow> n_kind oper \<in> set [''+'', ''*'', ''&'', ''|'', ''=='', ''!=''] | None \<Rightarrow> False)"

definition is_transformable_binary_exp :: "cst \<Rightarrow> bool" where
  "is_transformable_binary_exp n \<longleftrightarrow> is_comparison_binary_exp n \<or> is_commutative_binary_exp n"

definition alt_op :: "string \<Rightarrow> string" where
  "alt_op oper = (if oper = ''>'' then ''<'' else if oper = ''<'' then ''>''
     else if oper = ''<='' then ''>='' else if oper = ''>='' then ''<='' else oper)"

definition build_binary :: "('q, 're) builder_call \<Rightarrow> cst \<Rightarrow> nat \<Rightarrow> bool \<Rightarrow> ('q, 're) QueryBuilder
    \<Rightarrow> (string \<times> ('q, 're) QueryBuilder) built" where
  "build_binary rec n depth strict_mode b = (case n_children n of
      l # oper # r # _ \<Rightarrow>
        and_then (rec (Some n) l (depth + 1) strict_mode (n_kind n) b) (\<lambda>(left, b).
        and_then (rec (Some n) r (depth + 1) strict_mode (n_kind n) b) (\<lambda>(right, b).
          ok (''[(binary_expression left: '' @ left @ '' operator: '' @ quoted (n_kind oper) @ '' right: '' @ right @ '')''
            @ line_break 20 @ ''(binary_expression left: '' @ right @ '' operator: '' @ quoted (alt_op (n_kind oper))
            @ '' right: '' @ left @ '')]'', b)))
    | l # _ \<Rightarrow> and_then (rec (Some n) l (depth + 1) strict_mode (n_kind n) b) (\<lambda>_. None)
    | [] \<Rightarrow> None)"

definition optional_cast :: "string \<Rightarrow> string" where
  "optional_cast r = ''[(cast_expression value: '' @ r @ '') '' @ r @ '']''"

definition build_assignment :: "('q, 're) builder_call \<Rightarrow> cst \<Rightarrow> nat \<Rightarrow> bool \<Rightarrow> ('q, 're) QueryBuilder
    \<Rightarrow> (string \<times> ('q, 're) QueryBuilder) built" where
  "build_assignment rec n depth strict_mode b = (case n_children n of
      [] \<Rightarrow> None
    | l # rest \<Rightarrow>
        and_then (rec (Some n) l (depth + 1) strict_mode (n_kind n) b) (\<lambda>(left, b). (case rest of
            [] \<Rightarrow> None
          | oper # rest \<Rightarrow>
              if n_kind oper \<noteq> ''='' \<or> n_kind l \<noteq> ''identifier'' then
                and_then (rec (Some n) oper (depth + 1) strict_mode (n_kind n) b) (\<lambda>(operator, b). (case rest of
                    [] \<Rightarrow> None
                  | r # _ \<Rightarrow> and_then (rec (Some n) r (depth + 1) strict_mode (n_kind n) b) (\<lambda>(right, b).
                      ok (''(assignment_expression left: '' @ left @ '' '' @ operator @ '' right: '' @ optional_cast right @ '')'', b))))
              else (case rest of
                  [] \<Rightarrow> None
                | r # _ \<Rightarrow> and_then (rec (Some n) r (depth + 1) strict_mode (n_kind n) b) (\<lambda>(right, b).
                    ok (''[(assignment_expression left: '' @ left @ '' right: '' @ optional_cast right @ '')''
                      @ line_break 24 @ ''(init_declarator declarator: '' @ left @ '' value: '' @ optional_cast right @ '') ''
                      @ line_break 24 @ ''(init_declarator declarator:(pointer_declarator declarator: '' @ left
                      @ '') value: '' @ optional_cast right @ '')]'', b))))))"

definition is_num_var :: "'q host \<Rightarrow> string \<Rightarrow> bool" where
  "is_num_var H p \<longleftrightarrow> starts_with (CHR ''$'') p \<and> list_all (is_numeric H) (drop 1 (utf8_chars p))"

definition build_identifier :: "'q host \<Rightarrow> cst \<Rightarrow> string \<Rightarrow> ('q, 're) QueryBuilder
    \<Rightarrow> (string \<times> ('q, 're) QueryBuilder) built" where
  "build_identifier H n parent b = and_then (get_text b n) (\<lambda>pattern.
     if pattern = ''_'' then ok (''(_)'', b)
     else
       (let kind = n_kind n;
            result = (if kind = ''type_identifier'' then ''[ (type_identifier) (sized_type_specifier) (primitive_type)]''
              else if kind = ''identifier'' \<and> starts_with (CHR ''$'') pattern then
                (if is_num_var H pattern \<and> parent \<noteq> ''declarator'' then ''(number_literal)''
                 else ''[(identifier) (field_expression) (field_identifier)]'')
              else ''('' @ kind @ '')'');
            capture = (if starts_with (CHR ''$'') pattern then Variable pattern (map_of (regex_constraints b) pattern)
              else Check pattern);
            (k, b) = push_capture capture b
        in ok (result @ '' @'' @ k, b)))"

section \<open>Query trees\<close>

text \<open>The end of \<open>_build_query_tree\<close>: the query text is compiled.\<close>

definition finish_tree :: "'q host \<Rightarrow> nat \<Rightarrow> string \<Rightarrow> string list \<Rightarrow> ('q, 're) QueryBuilder \<Rightarrow> ('q, 're) QueryTree built" where
  "finish_tree H qid sexp used b = (case ts_query H sexp of
      None \<Rightarrow> Some (Inl (GenerationFailed sexp))
    | Some q \<Rightarrow> ok (QueryTree q (b_captures b) (b_negations b) used qid))"

text \<open>The root node is skipped if it is a translation unit with a child.\<close>

definition skip_unit :: "cst option \<Rightarrow> cst \<Rightarrow> cst option \<times> cst" where
  "skip_unit parent n = (if n_kind n = ''translation_unit''
     then (case n_children n of m # _ \<Rightarrow> (Some n, m) | [] \<Rightarrow> (parent, n)) else (parent, n))"

text \<open>The loop over the statements of a compound statement.\<close>

fun multi_patterns :: "'q host \<Rightarrow> ('q, 're) builder_call \<Rightarrow> cst \<Rightarrow> bool \<Rightarrow> cst list \<Rightarrow> string \<Rightarrow> string list
    \<Rightarrow> ('q, 're) QueryBuilder \<Rightarrow> (string \<times> string list \<times> ('q, 're) QueryBuilder) built" where
  "multi_patterns H rec n strict_mode [] s used b = ok (s, used, b)"
| "multi_patterns H rec n strict_mode (child # cs) s used b =
     and_then (rec (Some n) child 0 strict_mode (n_kind n) b) (\<lambda>(child_sexp, b').
       (let (captures, used) = process_captures H (b_captures b') (length (b_captures b)) used;
            s = (if child_sexp \<noteq> [] then s @ ''('' @ child_sexp @ '' '' @ captures @ '')'' else s)
        in multi_patterns H rec n strict_mode cs s used b'))"

definition query_tree :: "'q host \<Rightarrow> ('q, 're) builder_call \<Rightarrow> string \<Rightarrow> cst option \<Rightarrow> cst \<Rightarrow> nat \<Rightarrow> bool \<Rightarrow> bool
    \<Rightarrow> (string \<times> bool \<times> 're) list \<Rightarrow> ('q, 're) QueryTree built" where
  "query_tree H rec source parent n0 qid is_multi_pattern strict_mode rc =
    (let b = new_builder source qid rc;
         (parent, n) = skip_unit parent n0;
         kind = n_kind n
     in if \<not> is_multi_pattern then
          (let needs_anchor = (kind = ''compound_statement'' \<and> qid = 0) in
           and_then (rec parent n 0 strict_mode kind b) (\<lambda>(s, b).
             (let (s, b) = (if \<not> needs_anchor then (let (k, b) = push_capture Display b in (s @ ''@'' @ k, b)) else (s, b));
                  (predicates, used) = process_captures H (b_captures b) 0 [];
                  s = s @ predicates
              in if needs_anchor
                 then (let (k, b) = push_capture Display b
                       in finish_tree H qid (''(function_definition body: '' @ s @ '') @'' @ k) used b)
                 else finish_tree H qid (''('' @ s @ '')'') used b)))
        else (case n_children n of
            _ # rest \<Rightarrow> (if rest = [] then None
              else and_then (multi_patterns H rec n strict_mode (butlast rest) [] [] b)
                (\<lambda>(s, used, b). finish_tree H qid s used b))
          | [] \<Rightarrow> None))"

section \<open>Branches of build\<close>

definition next_id :: "('q, 're) QueryBuilder \<Rightarrow> ('q, 're) QueryBuilder" where
  "next_id b = b \<lparr>b_id := b_id b + 1\<rparr>"

text \<open>The index of the last capture that is no \<open>SubMultiQuery\<close>, or -1.\<close>

fun last_ordered :: "('q, 're) Capture list \<Rightarrow> int" where
  "last_ordered cs = (case rev (filter (\<lambda>(i, c). case c of SubMultiQuery _ \<Rightarrow> False | _ \<Rightarrow> True) (enumerate 0 cs)) of
     (i, _) # _ \<Rightarrow> int i | [] \<Rightarrow> -1)"

declare last_ordered.simps [simp del]

definition build_negative_query :: "'q host \<Rightarrow> ('q, 're) builder_call \<Rightarrow> cst \<Rightarrow> ('q, 're) QueryBuilder
    \<Rightarrow> ('q, 're) QueryBuilder built" where
  "build_negative_query H rec n b =
     and_then (unwrap (nth_opt (n_children n) 2)) (\<lambda>negated_query.
       (let before = last_ordered (b_captures b); b = next_id b in
        and_then (query_tree H rec (query_source b) (Some n) negated_query (b_id b) False False (regex_constraints b))
          (\<lambda>qt. ok (b \<lparr>b_negations := b_negations b @ [NegativeQuery qt before]\<rparr>))))"

text \<open>\<open>not:\<close> and \<open>strict:\<close>; \<open>None\<close> as a result goes on with the default case.\<close>

definition build_labeled :: "'q host \<Rightarrow> ('q, 're) builder_call \<Rightarrow> cst \<Rightarrow> nat \<Rightarrow> ('q, 're) QueryBuilder
    \<Rightarrow> (string \<times> ('q, 're) QueryBuilder) option built" where
  "build_labeled H rec n depth b =
     and_then (unwrap (nth_opt (n_children n) 0)) (\<lambda>label.
     and_then (get_text b label) (\<lambda>text.
       if to_uppercase H text = ''NOT'' then
         and_then (build_negative_query H rec n b) (\<lambda>b. ok (Some ([], b)))
       else if to_uppercase H text = ''STRICT'' then
         (case nth_opt (named_children n) 1 of
            Some child \<Rightarrow> and_then (rec (Some n) child depth True (n_kind n) b) (\<lambda>r. ok (Some r))
          | None \<Rightarrow> ok (Some ([], b)))
       else ok None))"

definition build_compound :: "'q host \<Rightarrow> ('q, 're) builder_call \<Rightarrow> cst option \<Rightarrow> cst \<Rightarrow> ('q, 're) QueryBuilder
    \<Rightarrow> (string \<times> ('q, 're) QueryBuilder) built" where
  "build_compound H rec p n b =
    (let b = next_id b in
     and_then (query_tree H rec (query_source b) p n (b_id b) True False (regex_constraints b)) (\<lambda>qt.
       (let (k, b) = push_capture (SubMultiQuery qt) b in ok (''(compound_statement) @'' @ k, b))))"

text \<open>
  \<open>build_call_expr\<close>. The cursor \<open>arg\<close> goes to the first child of the arguments and on to its next
  sibling, as far as they exist; \<open>arg_of\<close> is the node it ends on and the number of its later siblings.
\<close>

definition arg_of :: "cst \<Rightarrow> cst \<Rightarrow> cst option \<times> cst \<times> nat" where
  "arg_of n arguments = (case n_children arguments of
      [] \<Rightarrow> (Some n, arguments, 0)
    | [m] \<Rightarrow> (Some arguments, m, 0)
    | _ # m # rest \<Rightarrow> (Some arguments, m, length rest))"

definition call_function :: "bool \<Rightarrow> string \<Rightarrow> string" where
  "call_function strict_mode capture_str =
    (if strict_mode then ''(identifier) '' @ capture_str
     else ''[(field_expression field: (field_identifier)'' @ capture_str @ '')'' @ line_break 20
       @ ''(identifier) '' @ capture_str @ '']'')"

definition build_call_expr :: "'q host \<Rightarrow> ('q, 're) builder_call \<Rightarrow> cst \<Rightarrow> nat \<Rightarrow> bool \<Rightarrow> string \<Rightarrow> ('q, 're) QueryBuilder
    \<Rightarrow> (string \<times> ('q, 're) QueryBuilder) option built" where
  "build_call_expr H rec n depth strict_mode parent b =
     and_then (is_subexpr_wildcard b n) (\<lambda>wild.
       if wild then
         and_then (unwrap (child_by_field_name n ''arguments'')) (\<lambda>arguments.
           (let (p, arg, later) = arg_of n arguments in
            if 2 \<le> later then ok None
            else if depth = 0 then and_then (rec p arg depth strict_mode parent b) (\<lambda>r. ok (Some r))
            else
              (let b = next_id b in
               and_then (query_tree H rec (query_source b) p arg (b_id b) False strict_mode (regex_constraints b)) (\<lambda>qt.
                 (let (k, b) = push_capture (SubWildQuery qt) b in ok (Some (''_ @'' @ k, b)))))))
       else
         and_then (unwrap (child_by_field_name n ''function'')) (\<lambda>function.
         and_then (unwrap (child_by_field_name n ''arguments'')) (\<lambda>arguments.
           if n_kind function = ''identifier'' then
             and_then (get_text b function) (\<lambda>pattern.
               if \<not> starts_with (CHR ''$'') pattern then
                 (let (k, b) = push_capture (Check pattern) b in
                  and_then (rec (Some n) arguments (depth + 1) False parent b) (\<lambda>(a, b).
                    ok (Some (''(call_expression function: '' @ call_function strict_mode (''@'' @ k)
                      @ '' arguments: '' @ a @ '')'', b))))
               else ok None)
           else ok None)))"

text \<open>\<open>expression_statement\<close>: whether the statement is replaced by its expression.\<close>

definition unwraps_statement :: "'q host \<Rightarrow> cst option \<Rightarrow> cst \<Rightarrow> bool \<Rightarrow> ('q, 're) QueryBuilder \<Rightarrow> bool built" where
  "unwraps_statement H parent n strict_mode b = (case (nth_opt (named_children n) 0, parent) of
      (Some child, Some p) \<Rightarrow>
        if n_kind p \<in> set [''compound_statement'', ''labeled_statement'', ''translation_unit''] then
          and_then (if strict_mode then is_subexpr_wildcard b child else ok True) (\<lambda>unwrap1.
          and_then (if n_kind p = ''labeled_statement'' then
              and_then (unwrap (nth_opt (n_children p) 0)) (\<lambda>l. and_then (get_text b l) (\<lambda>text.
                ok (if to_uppercase H text \<noteq> ''NOT'' \<and> to_uppercase H text \<noteq> ''STRICT'' then False else unwrap1)))
            else ok unwrap1) (\<lambda>unwrap2.
          and_then (get_text b child) (\<lambda>text. ok (if text = ''_'' then False else unwrap2))))
        else ok False
    | _ \<Rightarrow> ok False)"

definition build_number :: "cst \<Rightarrow> ('q, 're) QueryBuilder \<Rightarrow> (string \<times> ('q, 're) QueryBuilder) built" where
  "build_number n b = and_then (get_text b n) (\<lambda>pattern.
     and_then (map_option Inr (parse_number_literal pattern)) (\<lambda>num.
       (let (k, b) = push_capture (case num of Some i \<Rightarrow> Number i | None \<Rightarrow> Check pattern) b
        in ok (''(number_literal) @'' @ k, b))))"

text \<open>A quoted variable. \<open>pattern.len() - 1\<close> and the slice panic on a text shorter than two bytes.\<close>

definition build_string :: "cst \<Rightarrow> ('q, 're) QueryBuilder \<Rightarrow> (string \<times> ('q, 're) QueryBuilder) option built" where
  "build_string n b = and_then (get_text b n) (\<lambda>pattern.
     if pattern = [] then None
     else and_then (map_option Inr (str_slice pattern (1, length pattern - 1))) (\<lambda>unquoted.
       if starts_with (CHR ''$'') unquoted then
         (let (k, b) = push_capture (Variable unquoted (map_of (regex_constraints b) unquoted)) b
          in ok (Some (''(string_literal) @'' @ k, b)))
       else ok None))"

section \<open>The default case\<close>

definition is_variadic :: "('q, 're) QueryBuilder \<Rightarrow> cst \<Rightarrow> bool built" where
  "is_variadic b m = (if n_named m \<and> n_kind m = ''identifier''
     then and_then (get_text b m) (\<lambda>t. ok (t = ''__'')) else ok False)"

fun count_variadic :: "('q, 're) QueryBuilder \<Rightarrow> cst list \<Rightarrow> nat built" where
  "count_variadic b [] = ok 0"
| "count_variadic b (m # ms) = and_then (is_variadic b m) (\<lambda>v.
     and_then (count_variadic b ms) (\<lambda>k. ok (if v then Suc k else k)))"

definition is_keyword_sexp :: "'q host \<Rightarrow> string \<Rightarrow> bool" where
  "is_keyword_sexp H sexp \<longleftrightarrow> list_all (\<lambda>ch. is_alphanumeric H ch \<or> ch = [CHR 0x22]) (utf8_chars sexp)
     \<and> sexp \<noteq> replicate 3 (CHR 0x22)"

text \<open>The loop over the children of a node.\<close>

fun build_fields :: "'q host \<Rightarrow> ('q, 're) builder_call \<Rightarrow> cst \<Rightarrow> nat \<Rightarrow> bool \<Rightarrow> bool \<Rightarrow> cst list \<Rightarrow> string
    \<Rightarrow> ('q, 're) QueryBuilder \<Rightarrow> (string \<times> ('q, 're) QueryBuilder) built" where
  "build_fields H rec n depth strict_mode anchoring [] result b = ok (result, b)"
| "build_fields H rec n depth strict_mode anchoring (m # ms) result b = (case n_field m of
      Some f \<Rightarrow>
        and_then (rec (Some n) m (depth + 1) strict_mode f b) (\<lambda>(t, b).
          build_fields H rec n depth strict_mode anchoring ms
            (result @ '' '' @ f @ '':'' @ (if f = ''declarator'' \<and> n_kind n = ''function_definition''
              then ''([(_ '' @ t @ '') ('' @ t @ '')])'' else t)) b)
    | None \<Rightarrow>
        if n_named m then
          and_then (if n_kind n = ''argument_list'' then is_variadic b m else ok False) (\<lambda>variadic.
            if variadic then build_fields H rec n depth strict_mode anchoring ms result b
            else and_then (rec (Some n) m (depth + 1) strict_mode (n_kind n) b) (\<lambda>(t, b).
              build_fields H rec n depth strict_mode anchoring ms
                (result @ (if anchoring then '' .'' else []) @ '' '' @ t) b))
        else
          and_then (rec (Some n) m (depth + 1) strict_mode (n_kind n) b) (\<lambda>(sexp, b).
            if is_keyword_sexp H sexp then
              (let (k, b) = push_capture Display b
               in build_fields H rec n depth strict_mode anchoring ms (result @ '' '' @ sexp @ '' @'' @ k) b)
            else build_fields H rec n depth strict_mode anchoring ms result b))"

definition build_default :: "'q host \<Rightarrow> ('q, 're) builder_call \<Rightarrow> cst \<Rightarrow> nat \<Rightarrow> bool \<Rightarrow> ('q, 're) QueryBuilder
    \<Rightarrow> (string \<times> ('q, 're) QueryBuilder) built" where
  "build_default H rec n depth strict_mode b =
     and_then (if n_kind n = ''argument_list'' then count_variadic b (n_children n) else ok 0) (\<lambda>variadic_count.
       (let has_variadic = (variadic_count \<noteq> 0);
            named_count = length (named_children n);
            anchoring = (n_kind n = ''argument_list'' \<and> named_count > 1 \<and> \<not> has_variadic)
        in if n_children n = [] then ok (''('' @ n_kind n @ '')'', b)
           else and_then (build_fields H rec n depth strict_mode anchoring (n_children n) (''('' @ n_kind n) b) (\<lambda>(result, b).
             if n_kind n = ''argument_list'' then
               (let (k, b) = push_capture (if has_variadic then CallExpQuery (named_count - variadic_count) True
                     else CallExpQuery named_count False) b
                in ok (result @ '') @'' @ k, b))
             else ok (result @ '')'', b))))"

section \<open>build\<close>

definition identifier_kinds :: "string list" where
  "identifier_kinds = [''identifier'', ''type_identifier'', ''field_identifier'', ''sized_type_specifier'',
     ''primitive_type'', ''namespace_identifier'']"

text \<open>The result of a branch that may fall through to the default case.\<close>

definition or_default :: "'a option built \<Rightarrow> 'a built \<Rightarrow> 'a built" where
  "or_default r d = and_then r (\<lambda>x. case x of Some y \<Rightarrow> ok y | None \<Rightarrow> d)"

definition build_node :: "'q host \<Rightarrow> ('q, 're) builder_call \<Rightarrow> ('q, 're) builder_call" where
  "build_node H rec p n depth strict_mode parent b =
    (if \<not> n_named n then ok (quoted (n_kind n), b)
     else if n_kind n = ''binary_expression'' \<and> is_transformable_binary_exp n
       then build_binary rec n depth strict_mode b
     else if n_kind n = ''labeled_statement''
       then or_default (build_labeled H rec n depth b) (build_default H rec n depth strict_mode b)
     else if n_kind n = ''compound_statement'' \<and> named_children n \<noteq> []
       then build_compound H rec p n b
     else if n_kind n \<in> set identifier_kinds then build_identifier H n parent b
     else if n_kind n = ''assignment_expression'' then build_assignment rec n depth strict_mode b
     else if n_kind n = ''call_expression''
       then or_default (build_call_expr H rec n depth strict_mode (n_kind n) b) (build_default H rec n depth strict_mode b)
     else if n_kind n = ''expression_statement'' then
       and_then (unwraps_statement H p n strict_mode b) (\<lambda>u.
         if u then (case n_children n of m # _ \<Rightarrow> rec (Some n) m depth strict_mode (n_kind n) b | [] \<Rightarrow> None)
         else build_default H rec n depth strict_mode b)
     else if n_kind n = ''number_literal'' then build_number n b
     else if n_kind n = ''string_literal''
       then or_default (build_string n b) (build_default H rec n depth strict_mode b)
     else build_default H rec n depth strict_mode b)"

text \<open>The branches call \<open>rec\<close> on smaller nodes only; each rule says so for one of them.\<close>

definition agree_below :: "('q, 're) builder_call \<Rightarrow> ('q, 're) builder_call \<Rightarrow> nat \<Rightarrow> bool" where
  "agree_below f g k \<longleftrightarrow> (\<forall>p m d s kind b. size m < k \<longrightarrow> f p m d s kind b = g p m d s kind b)"

named_theorems branch_cong \<open>a branch of the builder depends on the recursive call below its node only\<close>

lemma agree_at: "agree_below f g k \<Longrightarrow> size m < k \<Longrightarrow> f p m d s kind b = g p m d s kind b"
  by (simp add: agree_below_def)

lemma agree_child: "agree_below f g (size n) \<Longrightarrow> m \<in> set (n_children n) \<Longrightarrow> f p m d s kind b = g p m d s kind b"
  by (simp add: agree_below_def size_child)

lemma agree_mono: "agree_below f g k \<Longrightarrow> j \<le> k \<Longrightarrow> agree_below f g j"
  by (auto simp: agree_below_def)

lemma size_skip_unit: "skip_unit p n = (p', m) \<Longrightarrow> size m \<le> size n"
  by (auto simp: skip_unit_def size_child less_imp_le split: if_splits list.splits)

lemma multi_patterns_branch:
  "agree_below f g (size n) \<Longrightarrow> set cs \<subseteq> set (n_children n)
    \<Longrightarrow> multi_patterns H f n strict cs s used b = multi_patterns H g n strict cs s used b"
  by (induction cs arbitrary: s used b) (auto simp: agree_child Let_def split_beta intro!: and_then_cong)

lemma build_fields_branch:
  "agree_below f g (size n) \<Longrightarrow> set cs \<subseteq> set (n_children n)
    \<Longrightarrow> build_fields H f n depth strict anchoring cs s b = build_fields H g n depth strict anchoring cs s b"
  by (induction cs arbitrary: s b)
    (auto simp: agree_child Let_def split_beta intro!: and_then_cong split: option.split)

lemma query_tree_branch:
  assumes "agree_below f g (if multi then size n else Suc (size n))"
  shows "query_tree H f source p n qid multi strict rc = query_tree H g source p n qid multi strict rc"
proof -
  obtain p' m where m: "skip_unit p n = (p', m)" by fastforce
  have le: "size m \<le> size n" using size_skip_unit [OF m] .
  have "f p' m 0 strict (n_kind m) b = g p' m 0 strict (n_kind m) b" if "\<not> multi" for b
    using assms that le by (simp add: agree_at)
  moreover have "multi_patterns H f m strict (butlast rest) [] [] b = multi_patterns H g m strict (butlast rest) [] [] b"
    if multi "n_children m = x # rest" for x rest b
    using assms that le in_set_butlastD [of _ rest] by (auto intro!: multi_patterns_branch elim: agree_mono)
  ultimately show ?thesis unfolding query_tree_def m by (cases multi) (auto simp: Let_def split: list.split)
qed

lemma build_binary_branch [branch_cong]:
  "agree_below f g (size n) \<Longrightarrow> build_binary f n depth strict b = build_binary g n depth strict b"
  by (auto simp: build_binary_def agree_child split_beta intro!: and_then_cong split: list.split)

lemma build_assignment_branch [branch_cong]:
  "agree_below f g (size n) \<Longrightarrow> build_assignment f n depth strict b = build_assignment g n depth strict b"
  by (auto simp: build_assignment_def agree_child split_beta intro!: and_then_cong split: list.split)

lemma build_negative_query_branch [branch_cong]:
  "agree_below f g (size n) \<Longrightarrow> build_negative_query H f n b = build_negative_query H g n b"
  unfolding build_negative_query_def Let_def
  by (intro and_then_cong refl query_tree_branch)
    (auto simp: unwrap_def nth_opt_Some size_child Suc_le_eq elim!: agree_mono)

lemma build_labeled_branch [branch_cong]:
  "agree_below f g (size n) \<Longrightarrow> build_labeled H f n depth b = build_labeled H g n depth b"
  by (auto simp: build_labeled_def agree_child branch_cong dest!: named_child_mem intro!: and_then_cong split: option.split)

lemma build_compound_branch [branch_cong]:
  "agree_below f g (size n) \<Longrightarrow> build_compound H f p n b = build_compound H g p n b"
  unfolding build_compound_def Let_def by (intro and_then_cong refl query_tree_branch) auto

lemma size_arg_of: "arg_of n m = (p, a, k) \<Longrightarrow> size a \<le> size m"
  by (auto simp: arg_of_def size_child less_imp_le split: list.splits)

lemma build_call_expr_branch [branch_cong]:
  assumes "agree_below f g (size n)"
  shows "build_call_expr H f n depth strict parent b = build_call_expr H g n depth strict parent b"
proof -
  have arg: "f p (fst (snd (arg_of n m))) d s kind b = g p (fst (snd (arg_of n m))) d s kind b"
    "query_tree H f source p (fst (snd (arg_of n m))) qid False s rc = query_tree H g source p (fst (snd (arg_of n m))) qid False s rc"
    if "child_by_field_name n field = Some m" for field m p d s kind b source qid rc
  proof -
    have "size (fst (snd (arg_of n m))) < size n"
      using size_arg_of [of n m] size_child [OF child_by_field_mem [OF that]] by (metis le_less_trans prod.collapse)
    then show "f p (fst (snd (arg_of n m))) d s kind b = g p (fst (snd (arg_of n m))) d s kind b"
      "query_tree H f source p (fst (snd (arg_of n m))) qid False s rc = query_tree H g source p (fst (snd (arg_of n m))) qid False s rc"
      using assms by (auto simp: agree_at Suc_le_eq intro!: query_tree_branch elim!: agree_mono)
  qed
  show ?thesis unfolding build_call_expr_def Let_def
    using assms by (auto simp: arg unwrap_def agree_child child_by_field_mem split_beta intro!: and_then_cong)
qed

lemma build_default_branch [branch_cong]:
  "agree_below f g (size n) \<Longrightarrow> build_default H f n depth strict b = build_default H g n depth strict b"
  by (auto simp: build_default_def build_fields_branch Let_def)

lemma build_node_cong [fundef_cong]:
  assumes "H = H'" "p = p'" "n = n'" "depth = depth'" "strict = strict'" "parent = parent'" "b = b'"
    and "\<And>p m d s kind b. size m < size n' \<Longrightarrow> f p m d s kind b = g p m d s kind b"
  shows "build_node H f p n depth strict parent b = build_node H' g p' n' depth' strict' parent' b'"
proof -
  have a: "agree_below f g (size n')" using assms(8) by (simp add: agree_below_def)
  show ?thesis unfolding assms(1-7) build_node_def
    by (auto simp: branch_cong [OF a] agree_child [OF a] intro!: and_then_cong split: list.split)
qed

function build :: "'q host \<Rightarrow> ('q, 're) builder_call" where
  "build H p n depth strict_mode parent b =
     build_node H (\<lambda>p m d s k b. build H p m d s k b) p n depth strict_mode parent b"
  by pat_completeness auto
termination
  by (relation "measure (\<lambda>(H, p, n, depth, strict_mode, parent, b). size n)") auto

declare build.simps [simp del]

definition build_query_tree :: "'q host \<Rightarrow> string \<Rightarrow> cst option \<Rightarrow> cst \<Rightarrow> (string \<times> bool \<times> 're) list \<Rightarrow> ('q, 're) QueryTree built" where
  "build_query_tree H source p n rc = query_tree H (build H) source p n 0 False False rc"

section \<open>Search patterns\<close>

definition VALID_NODE_KINDS :: "string list" where
  "VALID_NODE_KINDS = [''compound_statement'', ''function_definition'', ''struct_specifier'', ''enum_specifier'',
     ''union_specifier'', ''class_specifier'']"

text \<open>The search for the first error node: the node of the cursor and its later siblings.\<close>

function first_error :: "cst \<Rightarrow> cst list \<Rightarrow> cst option" where
  "first_error node siblings =
    (if n_has_error node then
       (if n_is_error node \<or> n_is_missing node then Some node
        else (case n_children node of m # ms \<Rightarrow> first_error m ms | [] \<Rightarrow> None))
     else (case siblings of m # ms \<Rightarrow> first_error m ms | [] \<Rightarrow> None))"
  by pat_completeness auto
termination
proof (relation "measure (\<lambda>(node, siblings). size node + size_list size siblings)")
  show "((m, ms), node, siblings) \<in> measure (\<lambda>(node, siblings). size node + size_list size siblings)"
    if "n_children node = m # ms" for node siblings m ms :: _ using that by (cases node) simp
qed auto

declare first_error.simps [simp del]

definition syntax_error :: "cst \<Rightarrow> string \<Rightarrow> 'a built" where
  "syntax_error root query = (case first_error root [] of
      None \<Rightarrow> Some (Inl (SyntaxError None))
    | Some node \<Rightarrow> do {
        before \<leftarrow> str_slice query (0, fst (n_range node));
        text \<leftarrow> str_slice query (n_range node);
        rest \<leftarrow> str_slice query (snd (n_range node), length query);
        Some (Inl (SyntaxError (Some (before, if n_is_missing node then Some (n_kind node) else None, text, rest)))) })"

text \<open>The cursor returned: the first child of the root, or the root if it has none.\<close>

definition validate_query :: "cst \<Rightarrow> string \<Rightarrow> bool \<Rightarrow> (cst option \<times> cst) built" where
  "validate_query root query force =
    (if n_has_error root \<and> \<not> force then syntax_error root query
     else if length (named_children root) > 1 then Some (Inl (MultipleRoots query))
     else
       (let (p, n) = (case n_children root of m # _ \<Rightarrow> (Some root, m) | [] \<Rightarrow> (None, root))
        in if n_kind n \<notin> set VALID_NODE_KINDS then Some (Inl (UnsupportedRoot query)) else ok (p, n)))"

text \<open>A missing semicolon and missing braces are added when that gives a tree without errors.\<close>

definition add_semicolon :: "'q host \<Rightarrow> string \<Rightarrow> cst \<times> string" where
  "add_semicolon H pattern =
    (let tree = ts_parse H pattern in
     if n_has_error tree \<and> \<not> (pattern \<noteq> [] \<and> last pattern = CHR '';'')
     then (let temp_pattern = pattern @ '';''; fixed_tree = ts_parse H temp_pattern
           in if \<not> n_has_error fixed_tree then (fixed_tree, temp_pattern) else (tree, pattern))
     else (tree, pattern))"

definition add_braces :: "'q host \<Rightarrow> cst \<times> string \<Rightarrow> cst \<times> string" where
  "add_braces H = (\<lambda>(tree, p).
     if \<not> n_has_error tree then (case nth_opt (n_children tree) 0 of
         Some n \<Rightarrow>
           if n_kind n \<notin> set VALID_NODE_KINDS then
             (let temp_pattern2 = ''{'' @ p @ ''}''; fixed_tree = ts_parse H temp_pattern2
              in if \<not> n_has_error fixed_tree then (fixed_tree, temp_pattern2) else (tree, p))
           else (tree, p)
       | None \<Rightarrow> (tree, p))
     else (tree, p))"

definition parse_search_pattern :: "'q host \<Rightarrow> string \<Rightarrow> bool \<Rightarrow> (string \<times> bool \<times> 're) list \<Rightarrow> ('q, 're) QueryTree built" where
  "parse_search_pattern H pattern force_query rc =
    (let (tree, p) = add_braces H (add_semicolon H pattern) in
     and_then (validate_query tree p force_query) (\<lambda>(parent, n). build_query_tree H p parent n rc))"

end
