(* ===== verification/Weggli_Rules.thy ===== *)
theory Weggli_Rules
  imports Weggli_Output Weggli_Builder
begin

text \<open>
  \<^verbatim>\<open>src/src/rules.rs\<close> and the rule handling of \<^verbatim>\<open>src/src/main.rs\<close>: the regex constraints of a
  rule, the search for rule and source files, the --include and --exclude filters and the
  compilation of the rules of one YAML file. The regex compiler, the directory walker, the YAML
  parser and the file system are arguments; patterns are compiled by \<open>parse_search_pattern\<close>.
\<close>

section \<open>Regex constraints\<close>

datatype 'e RegexError = InvalidArg string | InvalidRegex 'e

text \<open>\<open>splitn(2, '=')\<close>: the text before the first separator and, where there is one, the text after it.\<close>

definition splitn2 :: "char \<Rightarrow> string \<Rightarrow> string \<times> string option" where
  "splitn2 c s = (takeWhile (\<lambda>x. x \<noteq> c) s,
     if c \<in> set s then Some (tl (dropWhile (\<lambda>x. x \<noteq> c) s)) else None)"

definition ends_with :: "char \<Rightarrow> string \<Rightarrow> bool" where
  "ends_with c s \<longleftrightarrow> s \<noteq> [] \<and> last s = c"

definition process_regex :: "(string \<Rightarrow> 'e + 're) \<Rightarrow> string \<Rightarrow> 'e RegexError + (string \<times> bool \<times> 're)" where
  "process_regex new r = (case splitn2 (CHR ''='') r of
      (var, None) \<Rightarrow> Inl (InvalidArg r)
    | (var, Some raw_regex) \<Rightarrow>
        (let normalized_var = (if take 1 var = ''$'' then var else ''$'' @ var);
             negative = ends_with (CHR ''!'') normalized_var;
             normalized_var = (if negative then butlast normalized_var else normalized_var)
         in (case new raw_regex of
               Inl e \<Rightarrow> Inl (InvalidRegex e)
             | Inr regex \<Rightarrow> Inr (normalized_var, negative, regex))))"

fun process_regexes_into :: "(string \<Rightarrow> 'e + 're) \<Rightarrow> string list \<Rightarrow> (string \<times> bool \<times> 're) list
    \<Rightarrow> 'e RegexError + (string \<times> bool \<times> 're) list" where
  "process_regexes_into new [] result = Inr result"
| "process_regexes_into new (r # rs) result = (case process_regex new r of
      Inl e \<Rightarrow> Inl e
    | Inr (var, negative, regex) \<Rightarrow> process_regexes_into new rs (AList.update var (negative, regex) result))"

definition process_regexes :: "(string \<Rightarrow> 'e + 're) \<Rightarrow> string list \<Rightarrow> 'e RegexError + (string \<times> bool \<times> 're) list" where
  "process_regexes new regexes = process_regexes_into new regexes []"

section \<open>Files\<close>

text \<open>An entry of the directory walk: the name, the name of its path and whether it is a directory.\<close>

record DirEntry =
  e_file_name :: string
  e_path :: string
  e_path_name :: "string option"
  e_is_dir :: bool

text \<open>\<open>Path::extension\<close>: what follows the last dot of the file name, unless nothing precedes that dot.\<close>

definition path_extension :: "DirEntry \<Rightarrow> string option" where
  "path_extension e = (case e_path_name e of
      None \<Rightarrow> None
    | Some name \<Rightarrow>
        if name = ''..'' \<or> CHR ''.'' \<notin> set name then None
        else let ext = rev (takeWhile (\<lambda>c. c \<noteq> CHR ''.'') (rev name));
                 stem = take (length name - length ext - 1) name
             in if stem = [] then None else Some ext)"

definition is_hidden :: "(string \<Rightarrow> string option) \<Rightarrow> DirEntry \<Rightarrow> bool" where
  "is_hidden to_str e = (case to_str (e_file_name e) of Some s \<Rightarrow> take 1 s = ''.'' | None \<Rightarrow> False)"

definition wanted_entry :: "(string \<Rightarrow> string option) \<Rightarrow> string list \<Rightarrow> DirEntry \<Rightarrow> bool" where
  "wanted_entry to_str extensions e \<longleftrightarrow> \<not> e_is_dir e \<and> (case path_extension e of
      None \<Rightarrow> False
    | Some ext \<Rightarrow> (case to_str ext of Some s \<Rightarrow> s | None \<Rightarrow> []) \<in> set extensions)"

text \<open>
  \<open>walk\<close> is the walker with its \<open>filter_entry\<close>: the entries it yields when it descends only into
  what the predicate accepts; \<open>None\<close> is an entry that could not be read.
\<close>

definition iter_files :: "(string \<Rightarrow> string option) \<Rightarrow> ((DirEntry \<Rightarrow> bool) \<Rightarrow> string \<Rightarrow> DirEntry option list)
    \<Rightarrow> string \<Rightarrow> string list \<Rightarrow> DirEntry list" where
  "iter_files to_str walk path extensions =
     filter (wanted_entry to_str extensions) (List.map_filter id (walk (\<lambda>e. \<not> is_hidden to_str e) path))"

fun any_match :: "('re \<Rightarrow> string \<Rightarrow> bool option) \<Rightarrow> 're list \<Rightarrow> string \<Rightarrow> bool panics" where
  "any_match is_match [] f = Some False"
| "any_match is_match (r # rs) f = do { b \<leftarrow> is_match r f; if b then Some True else any_match is_match rs f }"

definition retains :: "('re \<Rightarrow> string \<Rightarrow> bool option) \<Rightarrow> 're list \<Rightarrow> 're list \<Rightarrow> string \<Rightarrow> bool panics" where
  "retains is_match exclude_re include_re f = do {
     b \<leftarrow> any_match is_match exclude_re f;
     if b then Some False
     else if include_re = [] then Some True
     else any_match is_match include_re f }"

fun retain_files :: "(string \<Rightarrow> bool panics) \<Rightarrow> string list \<Rightarrow> string list panics" where
  "retain_files keep [] = Some []"
| "retain_files keep (f # fs) = do {
     b \<leftarrow> keep f;
     fs' \<leftarrow> retain_files keep fs;
     Some (if b then f # fs' else fs') }"

definition select_files :: "(string \<Rightarrow> string option) \<Rightarrow> ((DirEntry \<Rightarrow> bool) \<Rightarrow> string \<Rightarrow> DirEntry option list)
    \<Rightarrow> ('re \<Rightarrow> string \<Rightarrow> bool option) \<Rightarrow> 're list \<Rightarrow> 're list \<Rightarrow> string \<Rightarrow> string list \<Rightarrow> string list panics" where
  "select_files to_str walk is_match exclude_re include_re code_path extensions =
    (let files = map e_path (iter_files to_str walk code_path extensions)
     in if exclude_re \<noteq> [] \<or> include_re \<noteq> [] then retain_files (retains is_match exclude_re include_re) files
        else Some files)"

section \<open>Rule files\<close>

datatype Level = LevelError | LevelWarning | LevelNote

record Rule =
  r_reason :: string
  r_regexes :: "string list"
  r_patterns :: "string list"

record Rules =
  rs_issue :: string
  rs_description :: string
  rs_level :: "Level option"
  rs_rules :: "Rule list"

definition rule_path_seek :: "(string \<Rightarrow> string option) \<Rightarrow> ((DirEntry \<Rightarrow> bool) \<Rightarrow> string \<Rightarrow> DirEntry option list)
    \<Rightarrow> (string \<Rightarrow> string option) \<Rightarrow> (string \<Rightarrow> Rules option) \<Rightarrow> string \<Rightarrow> Rules list" where
  "rule_path_seek to_str walk read_file parse_yaml rule_path =
     List.map_filter (\<lambda>path. case read_file path of Some data \<Rightarrow> parse_yaml data | None \<Rightarrow> None)
       (map e_path (iter_files to_str walk rule_path [''yaml'']))"

section \<open>Compiling rules\<close>

text \<open>The reasons to end with exit code 1; a panic of the pattern compiler ends the program as well.\<close>

datatype 'e rule_error = BadRegex "'e RegexError" | BadPattern QueryError | BadVariable string | PatternPanics

fun compile_patterns :: "'q host \<Rightarrow> bool \<Rightarrow> string \<Rightarrow> string
    \<Rightarrow> (string \<times> bool \<times> 're) list \<Rightarrow> string list \<Rightarrow> 'e rule_error + ('q, 're) WorkItem list" where
  "compile_patterns H force reason issue rc [] = Inr []"
| "compile_patterns H force reason issue rc (p # ps) = (case parse_search_pattern H p force rc of
      None \<Rightarrow> Inl PatternPanics
    | Some (Inl qe) \<Rightarrow> Inl (BadPattern qe)
    | Some (Inr qt) \<Rightarrow> (case compile_patterns H force reason issue rc ps of
          Inl e \<Rightarrow> Inl e
        | Inr ws \<Rightarrow> Inr (\<lparr>wi_qt = qt, wi_identifiers = identifiers qt, wi_reason = reason, wi_issue = issue\<rparr> # ws)))"

definition unknown_variables :: "(string \<times> bool \<times> 're) list \<Rightarrow> ('q, 're) WorkItem list \<Rightarrow> string list" where
  "unknown_variables rc ws = filter (\<lambda>v. v \<notin> (\<Union>w \<in> set ws. variables (wi_qt w))) (map fst rc)"

definition compile_rule :: "(string \<Rightarrow> 'e + 're) \<Rightarrow> 'q host \<Rightarrow> bool
    \<Rightarrow> string \<Rightarrow> Rule \<Rightarrow> 'e rule_error + ('q, 're) WorkItem list" where
  "compile_rule new H force issue rule = (case process_regexes new (r_regexes rule) of
      Inl e \<Rightarrow> Inl (BadRegex e)
    | Inr rc \<Rightarrow> (case compile_patterns H force (r_reason rule) issue rc (r_patterns rule) of
          Inl e \<Rightarrow> Inl e
        | Inr ws \<Rightarrow> (case unknown_variables rc ws of v # _ \<Rightarrow> Inl (BadVariable v) | [] \<Rightarrow> Inr ws)))"

fun compile_rules :: "(string \<Rightarrow> 'e + 're) \<Rightarrow> 'q host \<Rightarrow> bool
    \<Rightarrow> string \<Rightarrow> Rule list \<Rightarrow> 'e rule_error + ('q, 're) WorkItem list" where
  "compile_rules new H force issue [] = Inr []"
| "compile_rules new H force issue (rule # rs) = (case compile_rule new H force issue rule of
      Inl e \<Rightarrow> Inl e
    | Inr ws \<Rightarrow> (case compile_rules new H force issue rs of Inl e \<Rightarrow> Inl e | Inr ws' \<Rightarrow> Inr (ws @ ws')))"

section \<open>The main loop\<close>

datatype 'e outcome = ExitWith "'e rule_error" | Panicked | Skipped | Reported "ResultsCtx list"

text \<open>The body of the loop over the rule files: compile, search once for all patterns, filter.\<close>

definition process_rules :: "(string \<Rightarrow> 'e + 're) \<Rightarrow> 'q host \<Rightarrow> bool
    \<Rightarrow> ('q, 're, 'n) engine \<Rightarrow> ('t \<Rightarrow> 'n) \<Rightarrow> (string \<Rightarrow> string option) \<Rightarrow> (string \<Rightarrow> 't option)
    \<Rightarrow> Options \<Rightarrow> string list \<Rightarrow> Rules \<Rightarrow> 'e outcome" where
  "process_rules new H force E root_node read parse opts files rules =
    (case compile_rules new H force (rs_issue rules) (rs_rules rules) of
       Inl e \<Rightarrow> (case e of PatternPanics \<Rightarrow> Panicked | _ \<Rightarrow> ExitWith e)
     | Inr works \<Rightarrow>
         if works = [] then Skipped
         else (case execute_queries_worker E root_node (parse_files_worker read parse files works) works opts of
             None \<Rightarrow> Panicked
           | Some results \<Rightarrow> (case filter_chainable_results results of
               None \<Rightarrow> Panicked | Some filtered_results \<Rightarrow> Reported filtered_results)))"

section \<open>What a regex constraint means\<close>

lemma splitn2_hit: "c \<notin> set v \<Longrightarrow> splitn2 c (v @ c # s) = (v, Some s)"
  by (simp add: splitn2_def takeWhile_append dropWhile_append)

definition constraint_name :: "string \<Rightarrow> string" where
  "constraint_name v = (if take 1 v = ''$'' then v else ''$'' @ v)"

lemma process_regex_cases:
  assumes "CHR ''='' \<notin> set v" and "\<not> ends_with (CHR ''!'') v"
  shows "process_regex new (v @ ''='' @ re) = (case new re of Inl e \<Rightarrow> Inl (InvalidRegex e) | Inr x \<Rightarrow> Inr (constraint_name v, False, x))"
    and "process_regex new (v @ ''!='' @ re) = (case new re of Inl e \<Rightarrow> Inl (InvalidRegex e) | Inr x \<Rightarrow> Inr (constraint_name v, True, x))"
proof -
  have s: "splitn2 (CHR ''='') (v @ ''='' @ re) = (v, Some re)" using splitn2_hit [OF assms(1)] by simp
  have s': "splitn2 (CHR ''='') (v @ ''!='' @ re) = (v @ ''!'', Some re)"
    using splitn2_hit [of "CHR ''=''" "v @ ''!''" re] assms(1) by simp
  have e: "\<not> ends_with (CHR ''!'') (constraint_name v)"
    using assms(2) by (auto simp: ends_with_def constraint_name_def)
  show "process_regex new (v @ ''='' @ re) = (case new re of Inl e \<Rightarrow> Inl (InvalidRegex e) | Inr x \<Rightarrow> Inr (constraint_name v, False, x))"
    unfolding process_regex_def s prod.case option.case Let_def constraint_name_def [symmetric]
    using e by (simp split: sum.split)
  have n: "(if take 1 (v @ ''!'') = ''$'' then v @ ''!'' else ''$'' @ v @ ''!'') = constraint_name v @ ''!''"
    by (cases v) (auto simp: constraint_name_def)
  show "process_regex new (v @ ''!='' @ re) = (case new re of Inl e \<Rightarrow> Inl (InvalidRegex e) | Inr x \<Rightarrow> Inr (constraint_name v, True, x))"
    unfolding process_regex_def s' prod.case option.case Let_def n by (simp add: ends_with_def split: sum.split)
qed

text \<open>The loop stops at the first bad entry; a later entry for a variable replaces an earlier one.\<close>

lemma process_regexes_into_spec:
  "(case process_regexes_into new rs m of
      Inl e \<Rightarrow> \<exists>i < length rs. process_regex new (rs ! i) = Inl e \<and> (\<forall>j < i. \<exists>x. process_regex new (rs ! j) = Inr x)
    | Inr m' \<Rightarrow> \<exists>xs. map (process_regex new) rs = map Inr xs \<and> map_of m' = map_of m ++ map_of (rev xs))"
proof (induction rs arbitrary: m)
  case (Cons r rs)
  show ?case
  proof (cases "process_regex new r")
    case (Inl e)
    then show ?thesis by (auto intro: exI [of _ 0])
  next
    case (Inr x)
    obtain v n re where x: "x = (v, n, re)" by (rule prod_cases3)
    show ?thesis
    proof (cases "process_regexes_into new rs (AList.update v (n, re) m)")
      case l: (Inl e)
      with Cons [of "AList.update v (n, re) m"] obtain i where "i < length rs" "process_regex new (rs ! i) = Inl e"
        "\<forall>j < i. \<exists>x. process_regex new (rs ! j) = Inr x" by auto
      with Inr x l show ?thesis
        by (auto intro!: exI [of _ "Suc i"] simp: nth_Cons split: nat.split)
    next
      case k: (Inr m')
      with Cons [of "AList.update v (n, re) m"] obtain xs where xs: "map (process_regex new) rs = map Inr xs"
        "map_of m' = map_of (AList.update v (n, re) m) ++ map_of (rev xs)" by auto
      have "map_of m' = map_of m ++ map_of (rev (x # xs))"
        using xs(2) x by (simp add: update_conv' map_of_append)
      with Inr x k xs(1) show ?thesis
        by (auto intro!: exI [of _ "x # xs"])
    qed
  qed
qed simp

text \<open>
  The regex constraints of a rule: an entry \<open>v=re\<close> asks that the variable \<open>v\<close> (with its dollar
  sign added where it is missing) matches \<open>re\<close> and \<open>v!=re\<close> that it does not; an entry without an
  equality sign is an error, as is an invalid regex. The list of entries fails with the error of its
  first bad entry, and otherwise the last entry of every variable counts.
\<close>

theorem process_regexes_spec:
  "(case process_regexes new rs of
      Inl e \<Rightarrow> \<exists>i < length rs. process_regex new (rs ! i) = Inl e \<and> (\<forall>j < i. \<exists>x. process_regex new (rs ! j) = Inr x)
    | Inr m \<Rightarrow> \<exists>xs. map (process_regex new) rs = map Inr xs \<and> map_of m = map_of (rev xs))
   \<and> (\<forall>v re x. CHR ''='' \<notin> set v \<and> \<not> ends_with (CHR ''!'') v \<and> new re = Inr x \<longrightarrow>
        process_regex new (v @ ''='' @ re) = Inr (constraint_name v, False, x)
        \<and> process_regex new (v @ ''!='' @ re) = Inr (constraint_name v, True, x))
   \<and> (\<forall>r. CHR ''='' \<notin> set r \<longrightarrow> process_regex new r = Inl (InvalidArg r))"
proof (intro conjI allI impI)
  show "case process_regexes new rs of
      Inl e \<Rightarrow> \<exists>i < length rs. process_regex new (rs ! i) = Inl e \<and> (\<forall>j < i. \<exists>x. process_regex new (rs ! j) = Inr x)
    | Inr m \<Rightarrow> \<exists>xs. map (process_regex new) rs = map Inr xs \<and> map_of m = map_of (rev xs)"
    using process_regexes_into_spec [where new = new and rs = rs and m = "[]"]
    unfolding process_regexes_def by (cases "process_regexes_into new rs []") simp_all
next
  fix v re x assume "CHR ''='' \<notin> set v \<and> \<not> ends_with (CHR ''!'') v \<and> new re = Inr x"
  then show "process_regex new (v @ ''='' @ re) = Inr (constraint_name v, False, x)"
    "process_regex new (v @ ''!='' @ re) = Inr (constraint_name v, True, x)"
    using process_regex_cases [of v new re] by simp_all
next
  fix r assume "CHR ''='' \<notin> set r"
  then show "process_regex new r = Inl (InvalidArg r)" by (simp add: process_regex_def splitn2_def)
qed

theorem process_regexes_spec_witness:
  "process_regex Inr ''buf!=mem.*'' = (Inr (''$buf'', True, ''mem.*'') :: nat RegexError + _)
    \<and> process_regex Inr ''nope'' = (Inl (InvalidArg ''nope'') :: nat RegexError + string \<times> bool \<times> string)"
proof -
  note t = process_regexes_spec [where new = "Inr :: string \<Rightarrow> nat + string" and rs = "[]", THEN conjunct2]
  have "process_regex Inr (''buf'' @ ''!='' @ ''mem.*'') = (Inr (constraint_name ''buf'', True, ''mem.*'') :: nat RegexError + _)"
    by (rule t [THEN conjunct1, rule_format, THEN conjunct2]) (simp add: ends_with_def)
  moreover have "process_regex Inr ''nope'' = (Inl (InvalidArg ''nope'') :: nat RegexError + string \<times> bool \<times> string)"
    by (rule t [THEN conjunct2, rule_format]) simp
  ultimately show ?thesis by (simp add: constraint_name_def)
qed

section \<open>Which files are searched\<close>

lemma any_match_iff: "(\<And>r. r \<in> set rs \<Longrightarrow> is_match r f \<noteq> None)
    \<Longrightarrow> any_match is_match rs f = Some (\<exists>r \<in> set rs. is_match r f = Some True)"
  by (induction rs) (auto split: Option.bind_split)

lemma retain_files_total: "(\<And>f. f \<in> set fs \<Longrightarrow> keep f = Some (k f)) \<Longrightarrow> retain_files keep fs = Some (filter k fs)"
  by (induction fs) auto

text \<open>
  The files that are searched are, in the order of the walk, the entries that are no directories,
  have one of the requested extensions, match no --exclude regex and, where there is an --include
  regex, match one of them. (No regex evaluation fails.)
\<close>

theorem select_files_spec:
  assumes "\<And>r f. r \<in> set exclude_re \<union> set include_re \<Longrightarrow> is_match r f \<noteq> None"
  shows "select_files to_str walk is_match exclude_re include_re code_path extensions
    = Some (filter (\<lambda>f. \<not> (\<exists>r \<in> set exclude_re. is_match r f = Some True)
          \<and> (include_re = [] \<or> (\<exists>r \<in> set include_re. is_match r f = Some True)))
        (map e_path (filter (wanted_entry to_str extensions) (List.map_filter id (walk (\<lambda>e. \<not> is_hidden to_str e) code_path)))))"
proof -
  have "retains is_match exclude_re include_re f = Some (\<not> (\<exists>r \<in> set exclude_re. is_match r f = Some True)
      \<and> (include_re = [] \<or> (\<exists>r \<in> set include_re. is_match r f = Some True)))" for f
    using assms by (auto simp: retains_def any_match_iff)
  then have "retain_files (retains is_match exclude_re include_re) fs
    = Some (filter (\<lambda>f. \<not> (\<exists>r \<in> set exclude_re. is_match r f = Some True)
          \<and> (include_re = [] \<or> (\<exists>r \<in> set include_re. is_match r f = Some True))) fs)" for fs
    by (intro retain_files_total)
  then show ?thesis by (simp add: select_files_def iter_files_def Let_def)
qed

definition example_walk :: "(DirEntry \<Rightarrow> bool) \<Rightarrow> string \<Rightarrow> DirEntry option list" where
  "example_walk keep path = map Some (filter keep
     (map (\<lambda>n. \<lparr>e_file_name = n, e_path = path @ n, e_path_name = Some n, e_is_dir = False\<rparr>) [''a.c'', ''.b.c'', ''c.h'', ''d.txt'']))"

theorem select_files_spec_witness:
  "select_files Some example_walk (\<lambda>r f. Some (r = f)) [''x/a.c''] [] ''x/'' [''c'', ''h''] = Some [''x/c.h'']"
proof -
  have "filter (\<lambda>f. \<not> (\<exists>r \<in> set [''x/a.c'']. Some (r = f) = Some True)
          \<and> ([] = ([] :: string list) \<or> (\<exists>r \<in> set []. Some (r = f) = Some True)))
        (map e_path (filter (wanted_entry Some [''c'', ''h''])
          (List.map_filter id (example_walk (\<lambda>e. \<not> is_hidden Some e) ''x/'')))) = [''x/c.h'']" by code_simp
  then show ?thesis
    using select_files_spec [of "[''x/a.c'']" "[]" "\<lambda>r f. Some (r = f)" Some example_walk "''x/''" "[''c'', ''h'']"] by simp
qed

text \<open>The form \<open>!buf=...\<close> is a positive constraint on a variable of the name \<open>$!buf\<close>.\<close>

lemma readme_negation_not_negative:
  "process_regex new ''!buf=^user_'' = (case new ''^user_'' of Inl e \<Rightarrow> Inl (InvalidRegex e) | Inr re \<Rightarrow> Inr (''$!buf'', False, re))"
  by (auto simp: process_regex_def splitn2_def ends_with_def Let_def split: sum.split)

section \<open>What is reported\<close>

lemma compile_patterns_items:
  "(compile_patterns H force reason issue rc ps :: 'e rule_error + _) = Inr ws \<Longrightarrow> length ws = length ps
    \<and> (\<forall>i < length ws. wi_reason (ws ! i) = reason \<and> wi_issue (ws ! i) = issue \<and> parse_search_pattern H (ps ! i) force rc = Some (Inr (wi_qt (ws ! i))))"
proof (induction ps arbitrary: ws)
  case (Cons p ps)
  then obtain qt ws' where "parse_search_pattern H p force rc = Some (Inr qt)" "(compile_patterns H force reason issue rc ps :: 'e rule_error + _) = Inr ws'"
    "ws = \<lparr>wi_qt = qt, wi_identifiers = identifiers qt, wi_reason = reason, wi_issue = issue\<rparr> # ws'"
    by (auto split: sum.splits option.splits)
  with Cons.IH show ?case by (auto simp: nth_Cons split: nat.split)
qed simp

definition pattern_table :: "Rule list \<Rightarrow> (string \<times> string) list" where
  "pattern_table rs = concat (map (\<lambda>rule. map (\<lambda>p. (r_reason rule, p)) (r_patterns rule)) rs)"

lemma compile_rules_items:
  "(compile_rules new H force issue rs :: 'e rule_error + _) = Inr ws \<Longrightarrow> length ws = length (pattern_table rs)
    \<and> (\<forall>i < length ws. wi_reason (ws ! i) = fst (pattern_table rs ! i) \<and> wi_issue (ws ! i) = issue)"
proof (induction rs arbitrary: ws)
  case (Cons rule rs)
  then obtain rc ws1 ws2 where c: "(compile_patterns H force (r_reason rule) issue rc (r_patterns rule) :: 'e rule_error + _) = Inr ws1"
    "compile_rules new H force issue rs = Inr ws2" "ws = ws1 @ ws2"
    by (auto simp: compile_rule_def split: sum.splits list.splits)
  have "pattern_table (rule # rs) = map (\<lambda>p. (r_reason rule, p)) (r_patterns rule) @ pattern_table rs"
    by (simp add: pattern_table_def)
  with c compile_patterns_items [OF c(1)] Cons.IH [OF c(2)] show ?case by (auto simp: nth_append)
qed (simp add: pattern_table_def)

lemma filter_and_send_keeps:
  assumes "filter_and_send opts i w source path m st = Some st'" and "r \<in> set (fst st')"
  shows "r \<in> set (fst st) \<or> (\<exists>m. r = send_result i w source path m)"
  using assms by (auto simp: filter_and_send_def Let_def split_beta split: Option.bind_splits if_splits)

lemma run_query_results:
  assumes "run_query E opts i w source root path = Some rs" and "r \<in> set rs"
  shows "\<exists>m. r = send_result i w source path m"
proof -
  have "r \<in> set (fst st') \<Longrightarrow> r \<in> set (fst st) \<or> (\<exists>m. r = send_result i w source path m)"
    if "foldM (filter_and_send opts i w source path) ms st = Some st'" for ms st st'
    using that by (induction ms arbitrary: st) (auto split: Option.bind_splits dest!: filter_and_send_keeps)
  with assms show ?thesis by (fastforce simp: run_query_def split: Option.bind_splits)
qed

lemma execute_results:
  assumes "execute_queries_worker E root_node parsed work opts = Some rs" and "r \<in> set rs"
  shows "query_index r < length work \<and> rc_reason r = wi_reason (work ! query_index r)
    \<and> rc_issue r = wi_issue (work ! query_index r) \<and> (\<exists>t. (rc_source r, t, rc_path r) \<in> set parsed)"
proof -
  have mem: "\<exists>x \<in> set xs. \<exists>ys. f x = Some ys \<and> r \<in> set ys" if "mapM f xs = Some yss" "r \<in> set (concat yss)"
    for f :: "'x \<Rightarrow> ResultsCtx list panics" and xs yss
    using that by (auto simp: mapM_Some_iff in_set_conv_nth) (metis nth_mem)
  obtain source tree path out where p: "(source, tree, path) \<in> set parsed" "r \<in> set out"
    "map_option concat (mapM (\<lambda>(i, w). run_query E opts i w source (root_node tree) path) (enumerate 0 work)) = Some out"
    using assms mem [of "\<lambda>(source, tree, path). map_option concat (mapM (\<lambda>(i, w). run_query E opts i w source (root_node tree) path) (enumerate 0 work))" parsed]
    by (fastforce simp: execute_queries_worker_def)
  then obtain i w out' where q: "(i, w) \<in> set (enumerate 0 work)" "run_query E opts i w source (root_node tree) path = Some out'" "r \<in> set out'"
    using mem [of "\<lambda>(i, w). run_query E opts i w source (root_node tree) path" "enumerate 0 work"] by fastforce
  obtain m where "r = send_result i w source path m" using run_query_results [OF q(2,3)] by blast
  moreover have "i < length work" "w = work ! i" using q(1) by (auto simp: in_set_enumerate_eq)
  ultimately show ?thesis using p(1) by (auto simp: send_result_def)
qed

lemma filter_chainable_subset: "filter_chainable_results results = Some rs \<Longrightarrow> set rs \<subseteq> set results"
  by (auto simp: filter_chainable_results_def Let_def split: if_splits Option.bind_splits elim!: in_set_zipE)

lemma parsed_files:
  "(source, t, path) \<in> set (parse_files_worker read parse files work) \<Longrightarrow> path \<in> set files \<and> read path = Some source"
  by (auto simp: parse_files_worker_def maybe_parse_def set_map_filter split: option.splits if_splits)

text \<open>
  C38. Every reported match belongs to the run: its path is one of the searched files and its source the
  content of that file; its query index is the position of a pattern among all patterns of the rule
  file, its reason the reason of the rule of that pattern, and its issue that of the rule file.
\<close>

theorem process_rules_reports:
  assumes "process_rules new H force E root_node read parse opts files rules = Reported rs" and "r \<in> set rs"
  shows "rc_path r \<in> set files \<and> read (rc_path r) = Some (rc_source r)
    \<and> query_index r < length (pattern_table (rs_rules rules))
    \<and> rc_reason r = fst (pattern_table (rs_rules rules) ! query_index r) \<and> rc_issue r = rs_issue rules"
proof -
  obtain works results where w: "compile_rules new H force (rs_issue rules) (rs_rules rules) = Inr works"
    "execute_queries_worker E root_node (parse_files_worker read parse files works) works opts = Some results"
    "filter_chainable_results results = Some rs"
    using assms(1) by (auto simp: process_rules_def split: sum.splits if_splits option.splits rule_error.splits)
  have "r \<in> set results" using filter_chainable_subset [OF w(3)] assms(2) by blast
  from execute_results [OF w(2) this] parsed_files compile_rules_items [OF w(1)] show ?thesis by fastforce
qed

definition match_sub :: "('q, 're, 'n) engine \<Rightarrow> string \<Rightarrow> ('q, 're) QueryTree \<Rightarrow> 'n \<Rightarrow> Cache
    \<Rightarrow> (QueryResult list \<times> Cache) panics" where
  "match_sub E source t node c = match_internal E t node source c"

definition match_neg :: "('q, 're, 'n) engine \<Rightarrow> string \<Rightarrow> 'n \<Rightarrow> ('q, 're) QueryTree \<Rightarrow> Cache
    \<Rightarrow> (QueryResult list \<times> Cache) panics" where
  "match_neg E source root t c = match_internal E t root source c"

lemma match_internal_code [code]:
  "match_internal E self root source cache = do {
     (prs, cache) \<leftarrow> foldM (\<lambda>(pattern_index, caps) (prs, cache). do {
         (rs, cache) \<leftarrow> process_match E (match_sub E source) self source caps cache;
         prs \<leftarrow> extend_at prs pattern_index rs;
         Some (prs, cache) })
       (ts_matches E (qt_query self) root source)
       (replicate (ts_pattern_count E (qt_query self)) [], cache);
     if list_ex (\<lambda>pr. pr = []) prs then Some ([], cache)
     else do {
       merged_results \<leftarrow> merge_patterns source [] prs;
       enforce_negations (match_neg E source root) self source merged_results cache } }"
  unfolding match_sub_def [abs_def] match_neg_def [abs_def] by (rule match_internal.simps)

definition example_rules :: Rules where
  "example_rules = \<lparr>rs_issue = ''i'', rs_description = [], rs_level = None,
     rs_rules = [\<lparr>r_reason = ''zz call'', r_regexes = [], r_patterns = [''zz'']\<rparr>]\<rparr>"

definition struct_host :: "nat host" where
  "struct_host = \<lparr>ts_parse = (\<lambda>s. Cst ''translation_unit'' True None (0, 2) False False False
       [Cst ''struct_specifier'' True None (0, 2) False False False []]),
     ts_query = (\<lambda>s. Some 0), uni_upper = id, uni_numeric = (\<lambda>_. False), uni_alphanumeric = (\<lambda>_. False), hash_order = id\<rparr>"

definition example_outcome :: "string outcome" where
  "example_outcome = process_rules (\<lambda>s. Inr 0) struct_host False check_engine id Some (\<lambda>s. Some 0)
     \<lparr>opt_limit = False, opt_unique = False\<rparr> [''zz.c'', ''b.c''] example_rules"

definition example_hit :: QueryResult where
  "example_hit = \<lparr>captures = [\<lparr>cr_range = (0, 2), query_id = 0, capture_idx = 0\<rparr>], vars = [], function_range = (0, 2)\<rparr>"

definition example_item :: "(nat, nat) WorkItem" where
  "example_item = \<lparr>wi_qt = QueryTree 0 [Display] [] [] 0, wi_identifiers = [],
     wi_reason = ''zz call'', wi_issue = ''i''\<rparr>"

lemma example_matches:
  "matches check_engine (wi_qt example_item) 0 ''zz.c'' = Some [example_hit]"
  "matches check_engine (wi_qt example_item) 0 ''b.c'' = Some []"
  by (simp_all add: matches_def match_internal_code check_engine_def small_engine_def process_match_def str_slice_def slice_ok_def
     is_char_boundary_def extend_at_def enforce_negations_def new_result_def example_item_def example_hit_def)

lemma example_items: "(compile_rules (\<lambda>s. Inr 0) struct_host False ''i'' (rs_rules example_rules) :: string rule_error + _)
    = Inr [example_item]"
proof -
  have "parse_search_pattern struct_host ''zz'' False [] = Some (Inr (QueryTree 0 [Display :: (nat, nat) Capture] [] [] 0))"
    by (simp add: parse_search_pattern_def add_semicolon_def add_braces_def struct_host_def nth_opt_def VALID_NODE_KINDS_def
        validate_query_def named_children_def build_query_tree_def query_tree_def skip_unit_def build.simps build_node_def
        identifier_kinds_def build_default_def push_capture_def add_capture_def new_builder_def process_captures_def finish_tree_def ok_def)
  then show ?thesis
    by (simp add: example_rules_def compile_rule_def unknown_variables_def process_regexes_def identifiers.simps example_item_def)
qed

lemma example_parsed: "parse_files_worker Some (\<lambda>s. Some 0) [''zz.c'', ''b.c''] [example_item] = [(''zz.c'', 0 :: nat, ''zz.c''), (''b.c'', 0, ''b.c'')]"
  by code_simp

theorem process_rules_reports_witness:
  "\<exists>r. example_outcome = Reported [r] \<and> rc_path r \<in> set [''zz.c'', ''b.c''] \<and> rc_reason r = ''zz call''"
proof -
  let ?r = "send_result 0 example_item ''zz.c'' ''zz.c'' example_hit"
  have "filter_chainable_results [?r] = Some [?r]" by code_simp
  then have o: "example_outcome = Reported [?r]"
    using example_matches
    by (simp add: example_outcome_def process_rules_def example_items example_parsed example_rules_def [THEN arg_cong [where f = rs_issue]]
        execute_queries_worker_def run_query_def filter_and_send_def check_unique_def check_limit_def)
  from process_rules_reports [OF o [unfolded example_outcome_def], of ?r] o show ?thesis
    by (auto simp: example_rules_def pattern_table_def)
qed

end
