(* ===== verification/Weggli_Trees.thy ===== *)
theory Weggli_Trees
  imports Weggli_Builder Weggli_Query
begin

text \<open>
  What \<^verbatim>\<open>src/src/builder.rs\<close> promises to the matching engine. The locale \<open>builder_relation\<close> is the
  contract of the builder: a relation between builder states that holds of each primitive step (a
  capture, a subquery, a negation, a finished tree) holds of the whole translation. It is
  interpreted for the shape of the trees, for their identifiers and for the query texts.
\<close>

section \<open>Outcomes\<close>

definition ensures :: "'a built \<Rightarrow> ('a \<Rightarrow> bool) \<Rightarrow> bool" where
  "ensures r P \<longleftrightarrow> (\<forall>x. r = Some (Inr x) \<longrightarrow> P x)"

lemma ensures_simps [simp]: "ensures None P" "ensures (Some (Inl e)) P" "ensures (Some (Inr x)) P = P x" "ensures (ok x) P = P x"
  by (simp_all add: ensures_def ok_def)

lemma ensures_and_then: "ensures r Q \<Longrightarrow> (\<And>x. Q x \<Longrightarrow> ensures (f x) P) \<Longrightarrow> ensures (and_then r f) P"
  by (auto simp: ensures_def and_then_def split: option.splits sum.splits)

lemma ensures_any: "(\<And>x. ensures (f x) P) \<Longrightarrow> ensures (and_then r f) P"
  by (auto simp: ensures_def and_then_def split: option.splits sum.splits)

lemma ensures_mono: "ensures r Q \<Longrightarrow> (\<And>x. Q x \<Longrightarrow> P x) \<Longrightarrow> ensures r P"
  by (simp add: ensures_def)

lemma ensures_value: "(\<And>x. r = Some (Inr x) \<Longrightarrow> P x) \<Longrightarrow> ensures r P"
  by (simp add: ensures_def)

lemma ensures_get_text: "ensures (get_text b n) (\<lambda>t. str_slice (query_source b) (n_range n) = Some t)"
  by (auto simp: get_text_def ensures_def)

lemma ensures_unwrap: "ensures (unwrap x) (\<lambda>y. x = Some y)"
  by (auto simp: unwrap_def ensures_def)

section \<open>Balanced query texts\<close>

text \<open>
  The brackets of a query text, outside quotes: the state is whether the scanner is inside quotes
  and the closing brackets it expects.
\<close>

fun scan :: "string \<Rightarrow> bool \<times> string \<Rightarrow> (bool \<times> string) option" where
  "scan [] st = Some st"
| "scan (c # s) (q, stk) =
    (if c = CHR 0x22 then scan s (\<not> q, stk)
     else if q then scan s (q, stk)
     else if c = CHR ''('' then scan s (q, CHR '')'' # stk)
     else if c = CHR ''['' then scan s (q, CHR '']'' # stk)
     else if c = CHR '')'' \<or> c = CHR '']'' then
       (case stk of x # stk' \<Rightarrow> if x = c then scan s (q, stk') else None | [] \<Rightarrow> None)
     else scan s (q, stk))"

definition balanced :: "string \<Rightarrow> bool" where
  "balanced s \<longleftrightarrow> (\<forall>stk. scan s (False, stk) = Some (False, stk))"

definition plain_word :: "string \<Rightarrow> bool" where
  "plain_word w \<longleftrightarrow> (\<forall>c \<in> set w. c \<noteq> CHR 0x22 \<and> c \<noteq> CHR ''('' \<and> c \<noteq> CHR '')'' \<and> c \<noteq> CHR ''['' \<and> c \<noteq> CHR '']'')"

definition plain_text :: "string \<Rightarrow> bool" where
  "plain_text w \<longleftrightarrow> CHR 0x22 \<notin> set w"

named_theorems texts \<open>balanced texts\<close>

lemma scan_append [simp]: "scan (s @ t) st = Option.bind (scan s st) (scan t)"
  by (induction s st rule: scan.induct) (auto split: list.split)

lemma balanced_scan [simp]: "balanced s \<Longrightarrow> scan s (False, stk) = Some (False, stk)"
  by (simp add: balanced_def)

lemma balancedI: "(\<And>stk. scan s (False, stk) = Some (False, stk)) \<Longrightarrow> balanced s"
  by (simp add: balanced_def)

lemma plain_word_balanced [texts]: "plain_word w \<Longrightarrow> balanced w"
proof -
  assume "plain_word w"
  then have "scan w (False, stk) = Some (False, stk)" for stk by (induction w) (auto simp: plain_word_def)
  then show ?thesis by (simp add: balanced_def)
qed

lemma balanced_append [texts]: "balanced s \<Longrightarrow> balanced t \<Longrightarrow> balanced (s @ t)"
  by (simp add: balanced_def)

lemma balanced_Nil [texts, simp]: "balanced []"
  by (simp add: balanced_def)

lemma balanced_quoted [texts]: "plain_text k \<Longrightarrow> balanced (quoted k)"
proof -
  assume "plain_text k"
  then have "scan k (True, stk) = Some (True, stk)" for stk by (induction k) (auto simp: plain_text_def)
  then show ?thesis by (simp add: balanced_def quoted_def)
qed

lemma digits_nat_to_string: "c \<in> set (nat_to_string n) \<Longrightarrow> is_digit c"
proof (induction n rule: nat_to_string.induct)
  case (1 n)
  then show ?case by (subst (asm) (2) nat_to_string.simps) (auto simp: is_digit_def split: if_splits)
qed

lemma plain_nat_to_string [texts]: "plain_word (nat_to_string n)"
  by (auto simp: plain_word_def is_digit_def dest!: digits_nat_to_string)

lemma balanced_nat_to_string [texts, simp]: "balanced (nat_to_string n)"
  by (intro texts)

lemma balanced_line_break [texts, simp]: "balanced (line_break k)"
  by (intro plain_word_balanced) (auto simp: plain_word_def line_break_def)

lemma balanced_check [texts]: "plain_text s \<Longrightarrow> balanced (check_predicate i s)"
  using balanced_quoted [of s] by (auto simp: check_predicate_def intro!: balancedI)

lemma balanced_concat [texts]: "(\<And>s. s \<in> set ss \<Longrightarrow> balanced s) \<Longrightarrow> balanced (concat ss)"
  by (induction ss) (auto intro: balanced_append)

lemma balanced_same [texts, simp]: "balanced (same_predicates vec)"
  unfolding same_predicates_def by (rule balanced_concat) (auto intro!: balancedI)

definition checks_plain :: "('q, 're) Capture list \<Rightarrow> bool" where
  "checks_plain cs \<longleftrightarrow> (\<forall>s. Check s \<in> set cs \<longrightarrow> plain_text s)"

lemma capture_predicates_balanced:
  "checks_plain cs \<Longrightarrow> balanced sexp \<Longrightarrow> balanced (fst (capture_predicates cs i (sexp, vmap, used)))"
  by (induction cs arbitrary: i sexp vmap used)
    (auto simp: checks_plain_def balanced_append balanced_check split: Capture.split)

lemma process_captures_balanced:
  assumes "checks_plain (drop offset cs)"
  shows "balanced (fst (process_captures H cs offset used))"
proof -
  have "balanced (fst (capture_predicates (drop offset cs) offset ([], [], used)))"
    using capture_predicates_balanced [OF assms balanced_Nil] .
  then show ?thesis
    by (auto simp: process_captures_def split_beta Let_def intro!: balanced_append balanced_concat)
qed

lemma capture_predicates_used:
  "set (snd (snd (capture_predicates cs i (sexp, vmap, used)))) = set used \<union> {v. \<exists>r. Variable v r \<in> set cs}"
  by (induction cs arbitrary: i sexp vmap used) (auto split: Capture.split)

lemma process_captures_used:
  "set (snd (process_captures H cs offset used)) = set used \<union> {v. \<exists>r. Variable v r \<in> set (drop offset cs)}"
  using capture_predicates_used [of "drop offset cs" offset "[]" "[]" used]
  by (simp add: process_captures_def split_beta Let_def)

text \<open>
  The nodes whose names can stand in a query: kinds and fields without brackets and quotes, the
  texts copied into predicates without quotes, and quotes as tokens only around a string literal.
\<close>

definition bare_quote :: "cst \<Rightarrow> bool" where
  "bare_quote m \<longleftrightarrow> \<not> n_named m \<and> n_field m = None \<and> n_kind m = [CHR 0x22]"

fun plain :: "string \<Rightarrow> cst \<Rightarrow> bool" where
  "plain source (Cst kind named field rng has_error is_error missing children) \<longleftrightarrow>
    (if named then plain_word kind else plain_text kind)
    \<and> (case field of Some f \<Rightarrow> plain_word f | None \<Rightarrow> True)
    \<and> (kind \<in> set (''number_literal'' # identifier_kinds) \<longrightarrow>
        (case str_slice source rng of Some t \<Rightarrow> plain_text t | None \<Rightarrow> True))
    \<and> (\<forall>m \<in> set children. plain source m \<or> kind = ''string_literal'' \<and> field \<noteq> Some ''arguments'' \<and> bare_quote m)"

lemma plain_node:
  assumes "plain source n"
  shows "n_named n \<Longrightarrow> plain_word (n_kind n)" and "\<not> n_named n \<Longrightarrow> plain_text (n_kind n)"
    and "n_field n = Some f \<Longrightarrow> plain_word f"
    and "n_kind n \<in> set (''number_literal'' # identifier_kinds) \<Longrightarrow> str_slice source (n_range n) = Some t \<Longrightarrow> plain_text t"
    and "m \<in> set (n_children n) \<Longrightarrow> plain source m \<or> n_kind n = ''string_literal'' \<and> n_field n \<noteq> Some ''arguments'' \<and> bare_quote m"
    and "m \<in> set (n_children n) \<Longrightarrow> n_kind n \<noteq> ''string_literal'' \<Longrightarrow> plain source m"
  using assms by (cases n, auto split: if_splits option.splits)+

lemma plain_kind_text: "plain source n \<Longrightarrow> plain_text (n_kind n)"
  using plain_node(1,2) [of source n] by (cases "n_named n") (auto simp: plain_word_def plain_text_def)

lemma bare_quote_not_plain: "bare_quote m \<Longrightarrow> \<not> plain source m"
  by (auto dest: plain_kind_text simp: bare_quote_def plain_text_def)

lemma plain_text_alt_op: "plain_text oper \<Longrightarrow> plain_text (alt_op oper)"
  by (simp add: alt_op_def plain_text_def)

lemma balanced_binary [texts]:
  "balanced l \<Longrightarrow> balanced r \<Longrightarrow> plain_text oper \<Longrightarrow>
    balanced (''[(binary_expression left: '' @ l @ '' operator: '' @ quoted oper @ '' right: '' @ r @ '')''
      @ line_break 20 @ ''(binary_expression left: '' @ r @ '' operator: '' @ quoted (alt_op oper)
      @ '' right: '' @ l @ '')]'')"
  using balanced_quoted [of oper] balanced_quoted [OF plain_text_alt_op, of oper] by (intro balancedI) simp

lemma balanced_cast [texts]: "balanced r \<Longrightarrow> balanced (optional_cast r)"
  unfolding optional_cast_def by (intro balancedI) simp

lemma balanced_assignment [texts]:
  "balanced l \<Longrightarrow> balanced oper \<Longrightarrow> balanced r \<Longrightarrow>
    balanced (''(assignment_expression left: '' @ l @ '' '' @ oper @ '' right: '' @ optional_cast r @ '')'')"
  using balanced_cast [of r] by (intro balancedI) simp

lemma balanced_initialisation [texts]:
  "balanced l \<Longrightarrow> balanced r \<Longrightarrow>
    balanced (''[(assignment_expression left: '' @ l @ '' right: '' @ optional_cast r @ '')''
      @ line_break 24 @ ''(init_declarator declarator: '' @ l @ '' value: '' @ optional_cast r @ '') ''
      @ line_break 24 @ ''(init_declarator declarator:(pointer_declarator declarator: '' @ l
      @ '') value: '' @ optional_cast r @ '')]'')"
  using balanced_cast [of r] by (intro balancedI) simp

lemma balanced_call_function [texts]: "balanced k \<Longrightarrow> balanced (call_function strict k)"
  unfolding call_function_def by (intro balancedI) simp

lemma balanced_call [texts]:
  "balanced a \<Longrightarrow> balanced (''(call_expression function: '' @ call_function strict (''@'' @ nat_to_string k)
    @ '' arguments: '' @ a @ '')'')"
proof (intro balancedI)
  have "balanced (call_function strict (''@'' @ nat_to_string k))"
    by (intro balanced_call_function balancedI) simp
  then show "balanced a \<Longrightarrow> scan (''(call_expression function: '' @ call_function strict (''@'' @ nat_to_string k)
      @ '' arguments: '' @ a @ '')'') (False, stk) = Some (False, stk)" for stk by simp
qed

lemma balanced_parens [texts]: "balanced s \<Longrightarrow> balanced (''('' @ s @ '')'')"
  by (intro balancedI) simp

lemma balanced_pattern: "balanced s \<Longrightarrow> balanced t \<Longrightarrow> balanced c \<Longrightarrow> balanced (s @ ''('' @ t @ '' '' @ c @ '')'')"
  by (intro balancedI) simp

lemma balanced_captured [texts]: "balanced s \<Longrightarrow> balanced (s @ '' @'' @ nat_to_string k)"
  by (intro balancedI) simp

section \<open>The contract of the builder\<close>

definition same_setup :: "('q, 're) QueryBuilder \<Rightarrow> ('q, 're) QueryBuilder \<Rightarrow> bool" where
  "same_setup b b' \<longleftrightarrow> query_source b' = query_source b \<and> regex_constraints b' = regex_constraints b
     \<and> (\<exists>cs. b_captures b' = b_captures b @ cs)"

lemma same_setup_refl [simp]: "same_setup b b"
  by (simp add: same_setup_def)

lemma same_setup_trans: "same_setup a b \<Longrightarrow> same_setup b c \<Longrightarrow> same_setup a c"
  by (auto simp: same_setup_def)

lemma same_setup_push [simp]: "same_setup b (snd (push_capture c b))" "same_setup b (next_id b)"
  "same_setup b (snd (push_capture c (next_id b)))"
  "same_setup b (next_id b \<lparr>b_negations := ns\<rparr>)"
  by (simp_all add: same_setup_def push_capture_def next_id_def add_capture_def)

lemma push_capture_name [simp]: "fst (push_capture c b) = nat_to_string (length (b_captures b))"
  by (simp add: push_capture_def add_capture_def)

lemma push_capture_captures [simp]:
  "b_captures (snd (push_capture c b)) = b_captures b @ [c]" "b_captures (next_id b) = b_captures b"
  "query_source (next_id b) = query_source b" "regex_constraints (next_id b) = regex_constraints b"
  "b_id (next_id b) = Suc (b_id b)" "regex_constraints (snd (push_capture c b)) = regex_constraints b"
  "query_source (snd (push_capture c b)) = query_source b"
  by (simp_all add: push_capture_def add_capture_def next_id_def)

lemma new_builder_simps [simp]:
  "query_source (new_builder source qid rc) = source" "b_captures (new_builder source qid rc) = []"
  "b_negations (new_builder source qid rc) = []" "b_id (new_builder source qid rc) = qid"
  "regex_constraints (new_builder source qid rc) = rc"
  by (simp_all add: new_builder_def)

text \<open>The captures that hold no subquery; a variable has the constraint of the rule.\<close>

definition leaf_capture :: "(string \<times> bool \<times> 're) list \<Rightarrow> ('q, 're) Capture \<Rightarrow> bool" where
  "leaf_capture rc c = (case c of Variable v r \<Rightarrow> r = map_of rc v | SubWildQuery _ \<Rightarrow> False | SubMultiQuery _ \<Rightarrow> False | _ \<Rightarrow> True)"

definition captured_variables :: "('q, 're) Capture list \<Rightarrow> string set" where
  "captured_variables cs = {v. \<exists>r. Variable v r \<in> set cs}"

text \<open>What a call of the builder leaves behind: the text is balanced when the node is plain.\<close>

definition text_ok :: "cst \<Rightarrow> ('q, 're) QueryBuilder \<Rightarrow> string \<Rightarrow> ('q, 're) QueryBuilder \<Rightarrow> bool" where
  "text_ok n b s b' \<longleftrightarrow> (plain (query_source b) n \<longrightarrow> checks_plain (b_captures b) \<longrightarrow> balanced s \<and> checks_plain (b_captures b'))"

locale builder_relation =
  fixes H :: "'q host"
    and N :: "string \<Rightarrow> cst \<Rightarrow> bool"
    and R :: "('q, 're) QueryBuilder \<Rightarrow> ('q, 're) QueryBuilder \<Rightarrow> bool"
    and T :: "(string \<times> bool \<times> 're) list \<Rightarrow> nat \<Rightarrow> ('q, 're) QueryTree \<Rightarrow> bool"
  assumes N_child: "N source n \<Longrightarrow> m \<in> set (n_children n) \<Longrightarrow> N source m \<or> n_kind n = ''string_literal'' \<and> n_field n \<noteq> Some ''arguments'' \<and> bare_quote m"
    and R_refl: "R b b"
    and R_trans: "R b1 b2 \<Longrightarrow> R b2 b3 \<Longrightarrow> R b1 b3"
    and R_leaf: "leaf_capture (regex_constraints b) c \<Longrightarrow> R b (snd (push_capture c b))"
    and R_sub: "T (regex_constraints b) (Suc (b_id b)) t \<Longrightarrow> c = SubWildQuery t \<or> c = SubMultiQuery t
      \<Longrightarrow> R b (snd (push_capture c (next_id b)))"
    and R_neg: "T (regex_constraints b) (Suc (b_id b)) t
      \<Longrightarrow> R b (next_id b \<lparr>b_negations := b_negations b @ [NegativeQuery t (last_ordered (b_captures b))]\<rparr>)"
    and T_tree: "R (new_builder source qid rc) b \<Longrightarrow> set used = captured_variables (b_captures b)
      \<Longrightarrow> ts_query H sexp = Some q \<Longrightarrow> N source n \<Longrightarrow> (plain source n \<Longrightarrow> balanced sexp)
      \<Longrightarrow> T rc qid (QueryTree q (b_captures b) (b_negations b) used qid)"
begin

definition step :: "('q, 're) QueryBuilder \<Rightarrow> ('q, 're) QueryBuilder \<Rightarrow> bool" where
  "step b b' \<longleftrightarrow> same_setup b b' \<and> R b b'"

definition post :: "cst \<Rightarrow> ('q, 're) QueryBuilder \<Rightarrow> string \<times> ('q, 're) QueryBuilder \<Rightarrow> bool" where
  "post n b = (\<lambda>(s, b'). step b b' \<and> text_ok n b s b')"

definition good :: "('q, 're) builder_call \<Rightarrow> nat \<Rightarrow> bool" where
  "good rec k \<longleftrightarrow> (\<forall>p m d s kind b. size m < k \<longrightarrow>
     (N (query_source b) m \<longrightarrow> ensures (rec p m d s kind b) (post m b))
     \<and> (\<not> n_named m \<longrightarrow> rec p m d s kind b = ok (quoted (n_kind m), b)))"

lemma step_refl [simp]: "step b b"
  by (simp add: step_def R_refl)

lemma step_trans: "step b1 b2 \<Longrightarrow> step b2 b3 \<Longrightarrow> step b1 b3"
  by (auto simp: step_def intro: R_trans same_setup_trans)

lemma step_leaf: "leaf_capture (regex_constraints b) c \<Longrightarrow> step b (snd (push_capture c b))"
  by (simp add: step_def R_leaf)

lemma step_leaf_after:
  "step b b' \<Longrightarrow> leaf_capture (regex_constraints b) c \<Longrightarrow> step b (snd (push_capture c b'))"
  by (rule step_trans, assumption, rule step_leaf) (simp add: step_def same_setup_def)

lemma step_source: "step b b' \<Longrightarrow> query_source b' = query_source b"
  by (simp add: step_def same_setup_def)

lemma good_mono: "good rec k \<Longrightarrow> j \<le> k \<Longrightarrow> good rec j"
  by (simp add: good_def)

lemma good_at: "good rec k \<Longrightarrow> size m < k \<Longrightarrow> N (query_source b) m \<or> bare_quote m \<Longrightarrow> ensures (rec p m d s kind b) (post m b)"
  by (auto simp: good_def post_def text_ok_def bare_quote_not_plain) (auto simp: bare_quote_def)

lemma good_child:
  "good rec (size n) \<Longrightarrow> N (query_source b) n \<Longrightarrow> m \<in> set (n_children n) \<Longrightarrow> ensures (rec p m d s kind b) (post m b)"
  using N_child size_child by (blast intro: good_at)

lemma good_child_after:
  "good rec (size n) \<Longrightarrow> N (query_source b) n \<Longrightarrow> step b b' \<Longrightarrow> m \<in> set (n_children n)
    \<Longrightarrow> ensures (rec p m d s kind b') (post m b')"
  by (rule good_child) (simp_all add: step_source)

text \<open>
  Inside the translation of a node: the state reached from the state at its start, and a text that
  is balanced if the node is plain.
\<close>

definition reached :: "cst \<Rightarrow> ('q, 're) QueryBuilder \<Rightarrow> ('q, 're) QueryBuilder \<Rightarrow> bool" where
  "reached n b0 b \<longleftrightarrow> step b0 b
     \<and> (plain (query_source b0) n \<longrightarrow> checks_plain (b_captures b0) \<longrightarrow> checks_plain (b_captures b))"

definition emits :: "cst \<Rightarrow> ('q, 're) QueryBuilder \<Rightarrow> string \<Rightarrow> bool" where
  "emits n b0 s \<longleftrightarrow> (plain (query_source b0) n \<longrightarrow> checks_plain (b_captures b0) \<longrightarrow> balanced s)"

lemma post_iff: "post n b (s, b') \<longleftrightarrow> reached n b b' \<and> emits n b s"
  by (auto simp: post_def text_ok_def reached_def emits_def)

lemma reached_refl [simp]: "reached n b b"
  by (simp add: reached_def)

lemma reached_setup: "reached n b0 b \<Longrightarrow> query_source b = query_source b0 \<and> regex_constraints b = regex_constraints b0"
  by (simp add: reached_def step_def same_setup_def)

lemma emits_map: "emits n b0 s \<Longrightarrow> (balanced s \<Longrightarrow> balanced t) \<Longrightarrow> emits n b0 t"
  by (simp add: emits_def)

lemma emits_balanced: "balanced s \<Longrightarrow> emits n b0 s"
  by (simp add: emits_def)

lemma checks_plain_append: "checks_plain (cs @ ds) \<longleftrightarrow> checks_plain cs \<and> checks_plain ds"
  by (auto simp: checks_plain_def)

lemma checks_plain_snoc [simp]: "checks_plain (cs @ [c]) \<longleftrightarrow> checks_plain cs \<and> (\<forall>s. c = Check s \<longrightarrow> plain_text s)"
  by (auto simp: checks_plain_def)

lemma reached_push:
  assumes "reached n b0 b" "leaf_capture (regex_constraints b0) c" "\<And>s. c = Check s \<Longrightarrow> plain (query_source b0) n \<Longrightarrow> plain_text s"
  shows "reached n b0 (snd (push_capture c b))"
  using assms by (auto simp: reached_def intro: step_leaf_after)

lemma child_call_named:
  assumes "good rec (size n)" "N (query_source b0) n" "n_kind n \<noteq> ''string_literal'' \<or> \<not> bare_quote m"
    "m \<in> set (n_children n)" "reached n b0 b"
    and "\<And>s b'. reached n b0 b' \<Longrightarrow> emits n b0 s \<Longrightarrow> emits n b0 (quoted (n_kind m)) \<Longrightarrow> ensures (f (s, b')) P"
  shows "ensures (and_then (rec p m d strict k b) f) P"
proof (rule ensures_and_then)
  have "N (query_source b) n" using assms(2,5) reached_setup by fastforce
  then show "ensures (rec p m d strict k b) (post m b)" using good_child assms(1,4) by blast
  fix x :: "string \<times> ('q, 're) QueryBuilder"
  assume p: "post m b x"
  obtain s b' where x: "x = (s, b')" by fastforce
  have "plain (query_source b) m" if "plain (query_source b0) n"
    using plain_node(5) [OF that assms(4)] assms(3,5) by (auto simp: reached_setup)
  then have "reached n b0 b'" "emits n b0 s" "emits n b0 (quoted (n_kind m))"
    using p assms(5) unfolding x post_iff
    by (auto simp: reached_def emits_def intro: step_trans balanced_quoted plain_kind_text)
  then show "ensures (f x) P" unfolding x using assms(6) by blast
qed

lemma child_call:
  assumes "good rec (size n)" "N (query_source b0) n" "n_kind n \<noteq> ''string_literal''" "m \<in> set (n_children n)" "reached n b0 b"
    and "\<And>s b'. reached n b0 b' \<Longrightarrow> emits n b0 s \<Longrightarrow> emits n b0 (quoted (n_kind m)) \<Longrightarrow> ensures (f (s, b')) P"
  shows "ensures (and_then (rec p m d strict k b) f) P"
  by (rule child_call_named [OF assms(1,2) disjI1 [OF assms(3)] assms(4,5)]) (rule assms(6))

lemma build_binary_post:
  assumes "good rec (size n)" "N (query_source b) n" "n_kind n \<noteq> ''string_literal''" "is_transformable_binary_exp n"
  shows "ensures (build_binary rec n depth strict b) (post n b)"
proof -
  have "balanced (quoted (n_kind oper)) \<and> balanced (quoted (alt_op (n_kind oper)))" if "n_children n = l # oper # rest" for l oper rest
    using assms(4) that by (auto simp: is_transformable_binary_exp_def is_comparison_binary_exp_def is_commutative_binary_exp_def
        nth_opt_def alt_op_def plain_text_def intro!: balanced_quoted)
  then have shape: "emits n b (''[(binary_expression left: '' @ left @ '' operator: '' @ quoted (n_kind oper) @ '' right: '' @ right @ '')''
      @ line_break 20 @ ''(binary_expression left: '' @ right @ '' operator: '' @ quoted (alt_op (n_kind oper)) @ '' right: '' @ left @ '')]'')"
    if "n_children n = l # oper # rest" "emits n b left" "emits n b right" for l oper rest left right
    using that by (auto simp: emits_def intro!: balancedI)
  show ?thesis
    unfolding build_binary_def
    by (simp only: ensures_simps post_iff prod.case list.set simp_thms insert_iff shape
        split: list.split | intro conjI impI allI child_call [OF assms(1,2,3)] | assumption | simp add: post_iff shape)+
qed

lemma build_assignment_post:
  assumes "good rec (size n)" "N (query_source b) n" "n_kind n \<noteq> ''string_literal''"
  shows "ensures (build_assignment rec n depth strict b) (post n b)"
  unfolding build_assignment_def
  by (auto simp: post_iff emits_def balanced_cast split: list.split intro!: child_call [OF assms] balancedI)

lemma build_identifier_post:
  assumes "n_kind n \<in> set identifier_kinds" "n_named n"
  shows "ensures (build_identifier H n parent b) (post n b)"
  unfolding build_identifier_def
proof (rule ensures_and_then [OF ensures_get_text], goal_cases)
  case (1 t)
  then have "plain (query_source b) n \<Longrightarrow> plain_text t" using plain_node(4) [of "query_source b" n t] assms by auto
  moreover have "emits n b (n_kind n)"
    using plain_word_balanced plain_node(1) assms(2) by (auto simp: emits_def)
  ultimately show ?case
    by (auto simp: Let_def split_beta post_iff leaf_capture_def emits_def
        intro!: reached_push balancedI)
qed

lemma build_number_post:
  assumes "n_kind n = ''number_literal''"
  shows "ensures (build_number n b) (post n b)"
  unfolding build_number_def
proof (rule ensures_and_then [OF ensures_get_text], goal_cases)
  case (1 t)
  then have "plain (query_source b) n \<Longrightarrow> plain_text t" using plain_node(4) [of "query_source b" n t] assms by auto
  then show ?case
    by (intro ensures_any) (auto simp: Let_def split_beta post_iff leaf_capture_def emits_def
        intro!: reached_push balancedI split: option.splits)
qed

lemma build_string_post:
  "ensures (build_string n b) (\<lambda>x. case x of Some r \<Rightarrow> post n b r | None \<Rightarrow> True)"
  unfolding build_string_def
  by (intro ensures_any) (auto simp: Let_def split_beta post_iff leaf_capture_def emits_def
      intro!: reached_push balancedI ensures_any)

text \<open>The trees.\<close>

lemma multi_patterns_post:
  assumes "good rec (size n)" "N source n" "n_kind n \<noteq> ''string_literal''" "query_source b0 = source" "set cs \<subseteq> set (n_children n)"
    and "reached n b0 b" "emits n b0 s" "set used = captured_variables (b_captures b)"
  shows "ensures (multi_patterns H rec n strict cs s used b)
    (\<lambda>(s, used, b). reached n b0 b \<and> emits n b0 s \<and> set used = captured_variables (b_captures b))"
  using assms(5-8)
proof (induction cs arbitrary: b s used)
  case (Cons m cs)
  show ?case unfolding multi_patterns.simps
  proof (rule ensures_and_then)
    have "N (query_source b) n" using assms(2,4) Cons.prems(2) by (simp add: reached_setup)
    then show "ensures (rec (Some n) m 0 strict (n_kind n) b) (post m b)" using good_child assms(1) Cons.prems(1) by simp
    fix x :: "string \<times> ('q, 're) QueryBuilder"
    assume p: "post m b x"
    obtain t b' where x: "x = (t, b')" by fastforce
    obtain cs' where cs': "b_captures b' = b_captures b @ cs'"
      using p by (auto simp: x post_iff reached_def step_def same_setup_def)
    have pl: "plain (query_source b) m" if "plain (query_source b0) n"
      using plain_node(6) [OF that _ assms(3)] Cons.prems(1,2) by (simp add: reached_setup)
    have r: "reached n b0 b'" and t: "emits n b0 t"
      using p pl Cons.prems(2) by (auto simp: x post_iff reached_def emits_def intro: step_trans)
    have "checks_plain cs'" if "plain (query_source b0) n" "checks_plain (b_captures b0)"
      using r that by (simp add: reached_def cs' checks_plain_append)
    then have c: "emits n b0 (fst (process_captures H (b_captures b') (length (b_captures b)) used))"
      by (auto simp: emits_def cs' intro!: process_captures_balanced)
    have u: "set (snd (process_captures H (b_captures b') (length (b_captures b)) used)) = captured_variables (b_captures b')"
      using Cons.prems(4) by (auto simp: process_captures_used cs' captured_variables_def)
    show "ensures (case x of (child_sexp, b') \<Rightarrow>
        let (captures, used) = process_captures H (b_captures b') (length (b_captures b)) used;
            s = (if child_sexp \<noteq> [] then s @ ''('' @ child_sexp @ '' '' @ captures @ '')'' else s)
        in multi_patterns H rec n strict cs s used b')
      (\<lambda>(s, used, b). reached n b0 b \<and> emits n b0 s \<and> set used = captured_variables (b_captures b))"
      unfolding x prod.case Let_def split_beta fst_conv snd_conv
    proof (rule Cons.IH [OF _ r _ u, unfolded split_beta])
      show "set cs \<subseteq> set (n_children n)" using Cons.prems(1) by simp
      show "emits n b0 (if t \<noteq> [] then s @ ''('' @ t @ '' '' @ fst (process_captures H (b_captures b') (length (b_captures b)) used) @ '')'' else s)"
        using balanced_pattern [of s t "fst (process_captures H (b_captures b') (length (b_captures b)) used)"] Cons.prems(3) t c
        unfolding emits_def by (cases "t = []") simp_all
    qed
  qed
qed simp

lemma finish_tree_post:
  assumes "R (new_builder source qid rc) b" "set used = captured_variables (b_captures b)" "N source n"
    and "plain source n \<Longrightarrow> balanced sexp"
  shows "ensures (finish_tree H qid sexp used b) (T rc qid)"
  using T_tree [OF assms(1,2) _ assms(3,4)] by (simp add: finish_tree_def split: option.split)

lemma single_tree_post:
  assumes g: "ensures (rec p n 0 strict (n_kind n) (new_builder source qid rc)) (post n (new_builder source qid rc))" and "N source n"
    and u: "skip_unit p0 n0 = (p, n)"
  shows "ensures (query_tree H rec source p0 n0 qid False strict rc) (T rc qid)"
proof -
  let ?b0 = "new_builder source qid rc :: ('q, 're) QueryBuilder"
  have pushed: "R ?b0 (snd (push_capture Display b))" if "reached n ?b0 b" for b
    using reached_push [OF that, of Display] by (simp add: leaf_capture_def reached_def step_def)
  have cv: "captured_variables (cs @ [Display]) = captured_variables cs" for cs :: "('q, 're) Capture list"
    by (auto simp: captured_variables_def)
  have set_used: "set (snd (process_captures H cs 0 [])) = captured_variables cs" for cs :: "('q, 're) Capture list"
    by (auto simp: process_captures_used captured_variables_def)
  have words: "balanced s \<and> balanced (fst (process_captures H (b_captures b) 0 []))
      \<and> balanced (fst (process_captures H (b_captures b @ [Display]) 0 []))"
    if "reached n ?b0 b" "emits n ?b0 s" "plain source n" for s b
    using that process_captures_balanced [of 0]
    by (auto simp: reached_def emits_def checks_plain_def)
  show ?thesis
    unfolding query_tree_def u Let_def prod.case
  proof (simp only: simp_thms if_True not_False_eq_True, rule ensures_and_then [OF g], goal_cases)
    case (1 x)
    obtain s b where x: "x = (s, b)" by fastforce
    have p: "reached n ?b0 b" "emits n ?b0 s" using 1 by (simp_all add: x post_iff)
    show ?case
      using words [OF p] pushed [OF p(1)] assms(2)
      by (auto simp: x split_beta cv set_used intro!: finish_tree_post balancedI)
  qed
qed

lemma multi_tree_post:
  assumes "good rec (size n)" "N source n" "n_kind n = ''compound_statement''"
  shows "ensures (query_tree H rec source p n qid True strict rc) (T rc qid)"
proof -
  let ?b0 = "new_builder source qid rc :: ('q, 're) QueryBuilder"
  have patterns: "ensures (multi_patterns H rec n strict (butlast rest) [] [] ?b0)
      (\<lambda>(s, used, b). reached n ?b0 b \<and> emits n ?b0 s \<and> set used = captured_variables (b_captures b))"
    if "n_children n = m # rest" for m rest
    using assms that
    by (intro multi_patterns_post [where source = source]) (auto simp: captured_variables_def emits_def dest: in_set_butlastD)
  have "ensures (and_then (multi_patterns H rec n strict (butlast rest) [] [] ?b0)
      (\<lambda>(s, used, b). finish_tree H qid s used b)) (T rc qid)"
    if "n_children n = m # rest" for m rest
    by (rule ensures_and_then [OF patterns [OF that]])
      (use assms(2) in \<open>auto simp: reached_def step_def emits_def checks_plain_def intro!: finish_tree_post\<close>)
  then show ?thesis
    using assms(3) by (auto simp: query_tree_def skip_unit_def Let_def split: list.split)
qed

lemma skip_unit_N:
  assumes "N source n" "skip_unit p n = (p', m)"
  shows "N source m"
  using N_child [OF assms(1)] assms by (auto simp: skip_unit_def split: if_splits list.splits)

lemma subtree_post:
  assumes "good rec k" "size n < k" "N source n"
  shows "ensures (query_tree H rec source p n qid False strict rc) (T rc qid)"
proof -
  obtain p' m where u: "skip_unit p n = (p', m)" by fastforce
  note m = skip_unit_N [OF assms(3) u]
  have "ensures (rec p' m 0 strict (n_kind m) (new_builder source qid rc)) (post m (new_builder source qid rc))"
    using m size_skip_unit [OF u] assms(2) by (intro good_at [OF assms(1)]) auto
  then show ?thesis using m u by (rule single_tree_post)
qed

lemma reached_sub:
  assumes "reached n b0 b" "T (regex_constraints b0) (Suc (b_id b)) t" "c = SubWildQuery t \<or> c = SubMultiQuery t"
  shows "reached n b0 (snd (push_capture c (next_id b)))"
proof -
  have "R b (snd (push_capture c (next_id b)))" using assms by (intro R_sub) (auto simp: reached_setup)
  with assms show ?thesis by (auto simp: reached_def step_def intro: R_trans same_setup_trans)
qed

lemma build_compound_post:
  assumes "good rec (size n)" "N (query_source b) n" "n_kind n = ''compound_statement''"
  shows "ensures (build_compound H rec p n b) (post n b)"
proof -
  have "ensures (query_tree H rec (query_source b) p n (Suc (b_id b)) True False (regex_constraints b)) (T (regex_constraints b) (Suc (b_id b)))"
    using assms by (rule multi_tree_post)
  then show ?thesis unfolding build_compound_def Let_def push_capture_captures
    by (rule ensures_and_then) (auto simp: split_beta post_iff emits_def intro!: reached_sub balancedI)
qed

lemma build_negative_query_post:
  assumes "good rec (size n)" "N (query_source b) n" "n_kind n \<noteq> ''string_literal''"
  shows "ensures (build_negative_query H rec n b) (reached n b)"
  unfolding build_negative_query_def Let_def push_capture_captures
proof (rule ensures_and_then [OF ensures_unwrap], goal_cases)
  case (1 m)
  then have m: "m \<in> set (n_children n)" by (rule nth_opt_mem)
  have "ensures (query_tree H rec (query_source b) (Some n) m (Suc (b_id b)) False False (regex_constraints b)) (T (regex_constraints b) (Suc (b_id b)))"
    using N_child [OF assms(2) m] assms(3) size_child [OF m] by (intro subtree_post [OF assms(1)]) auto
  then show ?case
  proof (rule ensures_and_then, goal_cases)
    case (1 t)
    have "b_negations (next_id b) = b_negations b" by (simp add: next_id_def)
    with R_neg [OF 1] show ?case by (simp add: reached_def step_def next_id_def same_setup_def)
  qed
qed

lemma build_labeled_post:
  assumes "good rec (size n)" "N (query_source b) n" "n_kind n \<noteq> ''string_literal''"
  shows "ensures (build_labeled H rec n depth b) (\<lambda>x. case x of Some r \<Rightarrow> post n b r | None \<Rightarrow> True)"
  unfolding build_labeled_def
  by (intro ensures_any) (auto simp: post_iff emits_balanced dest!: named_child_mem split: option.split
      intro!: child_call [OF assms] ensures_and_then [OF build_negative_query_post [OF assms]])

lemma arg_of_N:
  assumes "N source n" "n_kind n \<noteq> ''string_literal''" "child_by_field_name n ''arguments'' = Some m" "arg_of n m = (p, a, k)"
  shows "N source a \<and> size a < size n \<and> (plain source n \<longrightarrow> plain source a)"
proof -
  have m: "m \<in> set (n_children n)" "n_field m = Some ''arguments''"
    using assms(3) child_by_field_mem by (auto simp: child_by_field_name_def find_Some_iff)
  have a: "a = m \<or> a \<in> set (n_children m)" using assms(4) by (auto simp: arg_of_def split: list.splits)
  have "N source m" "plain source n \<longrightarrow> plain source m"
    using N_child [OF assms(1) m(1)] plain_node(6) [OF _ m(1) assms(2)] assms(2) by auto
  moreover have "N source a" "plain source m \<longrightarrow> plain source a"
    using a m(2) N_child [OF calculation(1), of a] plain_node(5) [of source m a] calculation(1) by auto
  moreover have "size a < size n" using size_arg_of [OF assms(4)] size_child [OF m(1)] by simp
  ultimately show ?thesis by blast
qed

lemma build_wildcard_post:
  assumes "good rec (size n)" "N (query_source b) n" "n_kind n \<noteq> ''string_literal''"
    and "child_by_field_name n ''arguments'' = Some m" "arg_of n m = (p, a, k)"
  shows "ensures (rec p a d strict kind b) (post n b)"
    and "ensures (query_tree H rec (query_source b) p a (Suc (b_id b)) False strict (regex_constraints b)) (T (regex_constraints b) (Suc (b_id b)))"
proof -
  note a = arg_of_N [OF assms(2-5)]
  then have "ensures (rec p a d strict kind b) (post a b)" by (intro good_at [OF assms(1)]) auto
  then show "ensures (rec p a d strict kind b) (post n b)"
    by (rule ensures_mono) (use a in \<open>auto simp: post_def text_ok_def\<close>)
  show "ensures (query_tree H rec (query_source b) p a (Suc (b_id b)) False strict (regex_constraints b)) (T (regex_constraints b) (Suc (b_id b)))"
    using a by (intro subtree_post [OF assms(1)]) auto
qed

lemma build_call_expr_post:
  assumes "good rec (size n)" "N (query_source b) n" "n_kind n \<noteq> ''string_literal''"
  shows "ensures (build_call_expr H rec n depth strict parent b) (\<lambda>x. case x of Some r \<Rightarrow> post n b r | None \<Rightarrow> True)"
proof -
  have wild: "ensures (let (p, arg, later) = arg_of n m in
            if 2 \<le> later then ok None
            else if depth = 0 then and_then (rec p arg depth strict parent b) (\<lambda>r. ok (Some r))
            else
              (let b = next_id b in
               and_then (query_tree H rec (query_source b) p arg (b_id b) False strict (regex_constraints b)) (\<lambda>qt.
                 (let (k, b) = push_capture (SubWildQuery qt) b in ok (Some (''_ @'' @ k, b))))))
        (\<lambda>x. case x of Some r \<Rightarrow> post n b r | None \<Rightarrow> True)"
    if "child_by_field_name n ''arguments'' = Some m" for m
  proof -
    obtain p a k where a: "arg_of n m = (p, a, k)" using prod_cases3 by blast
    note w = build_wildcard_post [OF assms that a]
    show ?thesis
      by (auto simp: a Let_def split_beta post_iff emits_def intro!: ensures_and_then [OF w(1)] ensures_and_then [OF w(2)]
          reached_sub balancedI)
  qed
  have call: "ensures (let (k, b) = push_capture (Check pattern) b in
        and_then (rec (Some n) arguments (depth + 1) False parent b) (\<lambda>(a, b).
          ok (Some (''(call_expression function: '' @ call_function strict (''@'' @ k) @ '' arguments: '' @ a @ '')'', b))))
        (\<lambda>x. case x of Some r \<Rightarrow> post n b r | None \<Rightarrow> True)"
    if f: "child_by_field_name n ''function'' = Some fn" "n_kind fn = ''identifier''" "str_slice (query_source b) (n_range fn) = Some pattern"
      and m: "child_by_field_name n ''arguments'' = Some arguments" for fn pattern arguments
  proof -
    have "plain_text pattern" if "plain (query_source b) n"
      using plain_node(4) [OF plain_node(6) [OF that child_by_field_mem [OF f(1)] assms(3)] _ f(3)] f(2) by (simp add: identifier_kinds_def)
    then have r: "reached n b (snd (push_capture (Check pattern) b))"
      by (intro reached_push) (auto simp: leaf_capture_def)
    show ?thesis unfolding Let_def split_beta
      by (rule child_call [OF assms child_by_field_mem [OF m] r])
        (simp add: post_iff, auto simp: emits_def intro!: balanced_call [simplified])
  qed
  show ?thesis unfolding build_call_expr_def
    by (rule ensures_any, split if_split, intro conjI impI ensures_and_then [OF ensures_unwrap] wild, assumption,
        split if_split, intro conjI impI ensures_and_then [OF ensures_get_text], split if_split, intro conjI impI call)
      simp_all
qed

text \<open>The default case.\<close>

definition opens :: "cst \<Rightarrow> ('q, 're) QueryBuilder \<Rightarrow> string \<Rightarrow> bool" where
  "opens n b0 s \<longleftrightarrow> (plain (query_source b0) n \<longrightarrow> checks_plain (b_captures b0)
     \<longrightarrow> (\<forall>stk. scan s (False, stk) = Some (False, CHR '')'' # stk)))"

lemma opens_append: "opens n b0 s \<Longrightarrow> emits n b0 t \<Longrightarrow> opens n b0 (s @ t)"
  by (auto simp: opens_def emits_def)

lemma build_fields_post:
  assumes "good rec (size n)" "N (query_source b0) n" "set cs \<subseteq> set (n_children n)" "reached n b0 b" "opens n b0 s"
  shows "ensures (build_fields H rec n depth strict anchoring cs s b) (\<lambda>(s, b). reached n b0 b \<and> opens n b0 s)"
  using assms(3-5)
proof (induction cs arbitrary: b s)
  case (Cons m cs)
  have m: "m \<in> set (n_children n)" "set cs \<subseteq> set (n_children n)" using Cons.prems(1) by auto
  note call = child_call_named [OF assms(1,2) _ m(1) Cons.prems(2)]
  note IH = Cons.IH [OF m(2)]
  show ?case
  proof (cases "n_field m")
    case (Some f)
    have "emits n b0 f" using plain_node(3) [of "query_source b0" m f] plain_node(5) [of "query_source b0" n m] m(1) Some
      by (auto simp: emits_def bare_quote_def intro: plain_word_balanced)
    then have piece: "emits n b0 ('' '' @ f @ '':'' @ (if g then ''([(_ '' @ t @ '') ('' @ t @ '')])'' else t))" if "emits n b0 t" for g t
      using that by (auto simp: emits_def intro!: balancedI)
    show ?thesis unfolding build_fields.simps Some option.case
    proof (rule call, goal_cases)
      case (2 t b')
      then show ?case unfolding prod.case by (intro IH opens_append [OF Cons.prems(3)] piece)
    qed (use Some in \<open>simp add: bare_quote_def\<close>)
  next
    case None
    show ?thesis
    proof (cases "n_named m")
      case True
      have piece: "emits n b0 ((if anchoring then '' .'' else []) @ '' '' @ t)" if "emits n b0 t" for t
        using that by (auto simp: emits_def intro!: balancedI)
      have "ensures (and_then (rec (Some n) m (depth + 1) strict (n_kind n) b) (\<lambda>(t, b).
              build_fields H rec n depth strict anchoring cs (s @ (if anchoring then '' .'' else []) @ '' '' @ t) b))
          (\<lambda>(s, b). reached n b0 b \<and> opens n b0 s)"
      proof (rule call, goal_cases)
        case (2 t b')
        then show ?case unfolding prod.case by (intro IH opens_append [OF Cons.prems(3)] piece)
      qed (use True in \<open>simp add: bare_quote_def\<close>)
      moreover note IH [OF Cons.prems(2,3)]
      ultimately show ?thesis
        unfolding build_fields.simps None option.case if_P [OF True] by (intro ensures_any) (simp only: split: if_split, simp)
    next
      case False
      then have q: "rec (Some n) m (depth + 1) strict (n_kind n) b = ok (quoted (n_kind m), b)"
        using assms(1) size_child [OF m(1)] by (simp add: good_def)
      have piece: "emits n b0 ('' '' @ quoted (n_kind m) @ '' @'' @ nat_to_string k)" if "is_keyword_sexp H (quoted (n_kind m))" for k
      proof -
        have "\<not> bare_quote m" using that by (auto simp: bare_quote_def is_keyword_sexp_def quoted_def numeral_3_eq_3)
        then have "emits n b0 (quoted (n_kind m))"
          using plain_node(5) [of "query_source b0" n m] m(1) by (auto simp: emits_def intro!: balanced_quoted plain_kind_text)
        then show ?thesis by (auto simp: emits_def intro!: balancedI)
      qed
      have pushed: "reached n b0 (snd (push_capture Display b))"
        using Cons.prems(2) by (intro reached_push) (auto simp: leaf_capture_def)
      show ?thesis
        unfolding build_fields.simps None option.case if_not_P [OF False] q and_then_simps Let_def split_beta fst_conv snd_conv push_capture_name
        by (split if_split, intro conjI impI IH [unfolded split_beta] pushed opens_append [OF Cons.prems(3)] piece Cons.prems(2,3))
    qed
  qed
qed simp

lemma build_default_post:
  assumes "good rec (size n)" "N (query_source b) n" "n_named n"
  shows "ensures (build_default H rec n depth strict b) (post n b)"
proof -
  have w: "emits n b (n_kind n)"
    using plain_word_balanced plain_node(1) assms(3) by (auto simp: emits_def)
  have "ensures (build_fields H rec n depth strict anchoring (n_children n) (''('' @ n_kind n) b) (\<lambda>(s, b'). reached n b b' \<and> opens n b s)" for anchoring
    using assms w by (intro build_fields_post) (auto simp: opens_def emits_def)
  then show ?thesis unfolding build_default_def Let_def
    using w by (intro ensures_any)
      (auto simp: split_beta post_iff leaf_capture_def emits_def opens_def intro!: ensures_and_then reached_push balancedI)
qed

lemma or_default_post:
  "ensures r (\<lambda>x. case x of Some y \<Rightarrow> Q y | None \<Rightarrow> True) \<Longrightarrow> ensures d Q \<Longrightarrow> ensures (or_default r d) Q"
  unfolding or_default_def by (erule ensures_and_then) (auto split: option.splits)

lemma build_statement_post:
  assumes "good rec (size n)" "N (query_source b) n" "n_kind n = ''expression_statement''"
  shows "ensures (case n_children n of m # _ \<Rightarrow> rec (Some n) m depth strict (n_kind n) b | [] \<Rightarrow> None) (post n b)"
proof (cases "n_children n")
  case (Cons m ms)
  have "ensures (and_then (rec (Some n) m depth strict (n_kind n) b) ok) (post n b)"
    using Cons assms(3) by (intro child_call [OF assms(1,2)]) (auto simp: post_iff)
  moreover have "and_then r ok = r" for r :: "(string \<times> ('q, 're) QueryBuilder) built"
    by (auto simp: and_then_def ok_def split: option.split sum.split)
  ultimately show ?thesis using Cons by simp
qed simp

lemma build_node_post:
  assumes "good rec (size n)" "N (query_source b) n"
  shows "ensures (build_node H rec p n depth strict parent b) (post n b)"
proof (cases "n_named n")
  case False
  then show ?thesis
    by (auto simp: build_node_def post_iff emits_def intro!: balanced_quoted plain_kind_text)
next
  case True
  note d = build_default_post [OF assms True]
  show ?thesis
    unfolding build_node_def using True
    by (auto intro!: build_binary_post build_labeled_post build_compound_post build_identifier_post build_assignment_post
        build_call_expr_post build_number_post build_string_post or_default_post d ensures_any build_statement_post assms)
qed

theorem build_post: "N (query_source b) n \<Longrightarrow> ensures (build H p n depth strict parent b) (post n b)"
proof (induction n arbitrary: p depth strict parent b rule: measure_induct_rule [where f = size])
  case (less n)
  have "good (build H) (size n)"
    using less.IH by (auto simp: good_def build.simps [of H] build_node_def)
  with less.prems show ?case unfolding build.simps [of H p n] by (intro build_node_post)
qed

theorem build_query_tree_post:
  assumes "N source n"
  shows "ensures (build_query_tree H source p n rc) (T rc 0)"
proof -
  have "good (build H) (Suc (size n))"
    using build_post by (auto simp: good_def build.simps [of H] build_node_def)
  then show ?thesis unfolding build_query_tree_def using assms by (intro subtree_post) auto
qed

end

section \<open>The shape of the trees\<close>

text \<open>
  A tree as the engine expects it: a variable carries the constraint of the rule wherever it
  occurs, the variables recorded are those captured, and the capture a negation refers to is one
  that the engine keeps in its results (no \<open>SubMultiQuery\<close>).
\<close>

definition ordered_at :: "('q, 're) Capture list \<Rightarrow> int \<Rightarrow> bool" where
  "ordered_at cs i \<longleftrightarrow> i = -1 \<or> (0 \<le> i \<and> nat i < length cs \<and> (\<forall>t. cs ! nat i \<noteq> SubMultiQuery t))"

definition tree_ok :: "(string \<times> bool \<times> 're) list \<Rightarrow> ('q, 're) QueryTree \<Rightarrow> bool" where
  "tree_ok rc t \<longleftrightarrow> (\<forall>v r. Variable v r \<in> set (qt_captures t) \<longrightarrow> r = map_of rc v)
     \<and> set (qt_variables t) = captured_variables (qt_captures t)
     \<and> (\<forall>n \<in> set (qt_negations t). ordered_at (qt_captures t) (previous_capture_index n))"

definition all_subtrees :: "(('q, 're) QueryTree \<Rightarrow> bool) \<Rightarrow> ('q, 're) QueryTree \<Rightarrow> bool" where
  "all_subtrees P t \<longleftrightarrow> (\<forall>u \<in> subtrees t. P u)"

lemma subtrees_trans: "u \<in> subtrees t \<Longrightarrow> v \<in> subtrees u \<Longrightarrow> v \<in> subtrees t"
  by (rotate_tac, induction rule: subtrees.induct) (auto intro: subtrees.intros)

lemma subtrees_cases:
  "u \<in> subtrees t \<Longrightarrow> u = t \<or> (\<exists>v \<in> set (sub_queries t) \<union> set (neg_queries t). u \<in> subtrees v)"
proof (induction rule: subtrees.induct)
  case (sub v u)
  then show ?case by (auto intro: subtrees.intros)
next
  case (neg v n)
  then show ?case by (auto simp: neg_queries_def intro: subtrees.intros)
qed simp

lemma all_subtreesI:
  assumes "P t" "\<And>u. u \<in> set (sub_queries t) \<union> set (neg_queries t) \<Longrightarrow> all_subtrees P u"
  shows "all_subtrees P t"
  using assms subtrees_cases by (fastforce simp: all_subtrees_def)

lemma sub_queries_simps [simp]:
  "sub_queries (QueryTree q cs ns vs i) = List.map_filter capture_sub cs"
  "neg_queries (QueryTree q cs ns vs i) = map neg_qt ns"
  by (simp_all add: sub_queries_def neg_queries_def)

lemma map_filter_snoc [simp]:
  "List.map_filter f (xs @ [x]) = List.map_filter f xs @ (case f x of None \<Rightarrow> [] | Some y \<Rightarrow> [y])"
  by (induction xs) (auto simp: map_filter_simps split: option.split)

lemma capture_sub_leaf: "leaf_capture rc c \<Longrightarrow> capture_sub c = None"
  by (cases c) (auto simp: leaf_capture_def capture_sub_def)

lemma last_ordered_at: "ordered_at cs (last_ordered cs)"
proof (cases "rev (filter (\<lambda>(i, c). case c of SubMultiQuery _ \<Rightarrow> False | _ \<Rightarrow> True) (enumerate 0 cs))")
  case (Cons x xs)
  then have "x \<in> set (filter (\<lambda>(i, c). case c of SubMultiQuery _ \<Rightarrow> False | _ \<Rightarrow> True) (enumerate 0 cs))"
    by (metis list.set_intros(1) set_rev)
  then show ?thesis using Cons
    by (auto simp: last_ordered.simps ordered_at_def in_set_enumerate_eq split: prod.split Capture.splits)
qed (simp add: last_ordered.simps ordered_at_def)

lemma ordered_at_append: "ordered_at cs i \<Longrightarrow> ordered_at (cs @ ds) i"
  by (auto simp: ordered_at_def nth_append)

definition shape_ok :: "('q, 're) QueryBuilder \<Rightarrow> bool" where
  "shape_ok b \<longleftrightarrow> (\<forall>v r. Variable v r \<in> set (b_captures b) \<longrightarrow> r = map_of (regex_constraints b) v)
     \<and> (\<forall>n \<in> set (b_negations b). ordered_at (b_captures b) (previous_capture_index n))
     \<and> (\<forall>t \<in> set (List.map_filter capture_sub (b_captures b)) \<union> set (map neg_qt (b_negations b)).
          all_subtrees (tree_ok (regex_constraints b)) t)"

definition shape_step :: "('q, 're) QueryBuilder \<Rightarrow> ('q, 're) QueryBuilder \<Rightarrow> bool" where
  "shape_step b b' \<longleftrightarrow> regex_constraints b' = regex_constraints b \<and> (shape_ok b \<longrightarrow> shape_ok b')"

interpretation shape: builder_relation H "\<lambda>_ _. True" shape_step "\<lambda>rc qid. all_subtrees (tree_ok rc)" for H :: "'q host"
proof
  fix b :: "('q, 're) QueryBuilder" and c :: "('q, 're) Capture"
  assume "leaf_capture (regex_constraints b) c"
  then show "shape_step b (snd (push_capture c b))"
    by (auto simp: shape_step_def shape_ok_def capture_sub_leaf leaf_capture_def push_capture_def add_capture_def ordered_at_append)
next
  fix b :: "('q, 're) QueryBuilder" and t :: "('q, 're) QueryTree" and c
  assume "all_subtrees (tree_ok (regex_constraints b)) t" "c = SubWildQuery t \<or> c = SubMultiQuery t"
  then show "shape_step b (snd (push_capture c (next_id b)))"
    by (auto simp: shape_step_def shape_ok_def capture_sub_def push_capture_def add_capture_def next_id_def ordered_at_append)
next
  fix b :: "('q, 're) QueryBuilder" and t :: "('q, 're) QueryTree"
  assume "all_subtrees (tree_ok (regex_constraints b)) t"
  then show "shape_step b (next_id b \<lparr>b_negations := b_negations b @ [NegativeQuery t (last_ordered (b_captures b))]\<rparr>)"
    by (auto simp: shape_step_def shape_ok_def next_id_def last_ordered_at)
next
  fix source qid rc used sexp q n and b :: "('q, 're) QueryBuilder"
  assume "shape_step (new_builder source qid rc) b" "set used = captured_variables (b_captures b)"
  then have "shape_ok b" "regex_constraints b = rc" by (auto simp: shape_step_def shape_ok_def)
  then show "all_subtrees (tree_ok rc) (QueryTree q (b_captures b) (b_negations b) used qid)"
    using \<open>set used = captured_variables (b_captures b)\<close>
    by - (rule all_subtreesI, auto simp: tree_ok_def shape_ok_def)
qed (auto simp: shape_step_def)

section \<open>The identifiers of subqueries\<close>

definition child_ids :: "('q, 're) QueryTree \<Rightarrow> nat list" where
  "child_ids t = map qt_id (sub_queries t @ neg_queries t)"

definition ids_ok :: "('q, 're) QueryTree \<Rightarrow> bool" where
  "ids_ok t \<longleftrightarrow> distinct (child_ids t) \<and> (\<forall>i \<in> set (child_ids t). qt_id t < i)"

definition builder_trees :: "('q, 're) QueryBuilder \<Rightarrow> ('q, 're) QueryTree list" where
  "builder_trees b = List.map_filter capture_sub (b_captures b) @ map neg_qt (b_negations b)"

definition numbered :: "nat \<Rightarrow> ('q, 're) QueryBuilder \<Rightarrow> bool" where
  "numbered base b \<longleftrightarrow> base \<le> b_id b \<and> distinct (map qt_id (builder_trees b))
     \<and> (\<forall>t \<in> set (builder_trees b). base < qt_id t \<and> qt_id t \<le> b_id b \<and> all_subtrees ids_ok t)"

definition id_step :: "('q, 're) QueryBuilder \<Rightarrow> ('q, 're) QueryBuilder \<Rightarrow> bool" where
  "id_step b b' \<longleftrightarrow> (\<forall>base. numbered base b \<longrightarrow> numbered base b')"

lemma id_step_add:
  assumes "builder_trees b = A @ B" "builder_trees b' = A @ t # B" "b_id b' = Suc (b_id b)"
    and "qt_id t = Suc (b_id b) \<and> all_subtrees ids_ok t"
  shows "id_step b b'"
  unfolding id_step_def
proof (intro allI impI)
  fix base
  assume n: "numbered base b"
  then have "Suc (b_id b) \<notin> qt_id ` set (builder_trees b)" by (fastforce simp: numbered_def)
  with n assms show "numbered base b'" by (auto simp: numbered_def intro: le_SucI)
qed

interpretation ids: builder_relation H "\<lambda>_ _. True" id_step "\<lambda>rc qid t. qt_id t = qid \<and> all_subtrees ids_ok t" for H :: "'q host"
proof
  fix b :: "('q, 're) QueryBuilder" and c :: "('q, 're) Capture"
  assume "leaf_capture (regex_constraints b) c"
  then show "id_step b (snd (push_capture c b))"
    by (simp add: id_step_def numbered_def builder_trees_def capture_sub_leaf push_capture_def add_capture_def)
next
  fix b :: "('q, 're) QueryBuilder" and t :: "('q, 're) QueryTree" and c
  assume t: "qt_id t = Suc (b_id b) \<and> all_subtrees ids_ok t" and c: "c = SubWildQuery t \<or> c = SubMultiQuery t"
  have "capture_sub c = Some t" using c by (auto simp: capture_sub_def)
  then show "id_step b (snd (push_capture c (next_id b)))"
    by (intro id_step_add [OF _ _ _ t, where A = "List.map_filter capture_sub (b_captures b)" and B = "map neg_qt (b_negations b)"])
      (simp_all add: builder_trees_def push_capture_def add_capture_def next_id_def)
next
  fix b :: "('q, 're) QueryBuilder" and t :: "('q, 're) QueryTree"
  assume t: "qt_id t = Suc (b_id b) \<and> all_subtrees ids_ok t"
  show "id_step b (next_id b \<lparr>b_negations := b_negations b @ [NegativeQuery t (last_ordered (b_captures b))]\<rparr>)"
    by (rule id_step_add [OF _ _ _ t, where A = "builder_trees b" and B = "[]"])
      (simp_all add: builder_trees_def next_id_def)
next
  fix source qid rc used sexp q n and b :: "('q, 're) QueryBuilder"
  assume "id_step (new_builder source qid rc) b"
  moreover have "numbered qid (new_builder source qid rc :: ('q, 're) QueryBuilder)"
    by (simp add: numbered_def builder_trees_def map_filter_simps)
  ultimately have "numbered qid b" by (simp add: id_step_def)
  then show "qt_id (QueryTree q (b_captures b) (b_negations b) used qid) = qid
      \<and> all_subtrees ids_ok (QueryTree q (b_captures b) (b_negations b) used qid)"
    by - (rule conjI, simp, rule all_subtreesI, auto simp: numbered_def builder_trees_def ids_ok_def child_ids_def)
qed (auto simp: id_step_def)

section \<open>The query texts\<close>

definition text_tree :: "'q host \<Rightarrow> ('q, 're) QueryTree \<Rightarrow> bool" where
  "text_tree H t \<longleftrightarrow> (\<exists>s. balanced s \<and> ts_query H s = Some (qt_query t))"

definition texts_ok :: "'q host \<Rightarrow> ('q, 're) QueryBuilder \<Rightarrow> bool" where
  "texts_ok H b \<longleftrightarrow> (\<forall>t \<in> set (List.map_filter capture_sub (b_captures b)) \<union> set (map neg_qt (b_negations b)). all_subtrees (text_tree H) t)"

definition texts_step :: "'q host \<Rightarrow> ('q, 're) QueryBuilder \<Rightarrow> ('q, 're) QueryBuilder \<Rightarrow> bool" where
  "texts_step H b b' \<longleftrightarrow> (texts_ok H b \<longrightarrow> texts_ok H b')"

interpretation query_texts: builder_relation H plain "texts_step H" "\<lambda>rc qid. all_subtrees (text_tree H)" for H :: "'q host"
proof
  fix source n m
  assume "plain source n" "m \<in> set (n_children n)"
  then show "plain source m \<or> n_kind n = ''string_literal'' \<and> n_field n \<noteq> Some ''arguments'' \<and> bare_quote m"
    by (rule plain_node(5))
next
  fix b :: "('q, 're) QueryBuilder" and c :: "('q, 're) Capture"
  assume "leaf_capture (regex_constraints b) c"
  then show "texts_step H b (snd (push_capture c b))"
    by (simp add: texts_step_def texts_ok_def capture_sub_leaf push_capture_def add_capture_def)
next
  fix b :: "('q, 're) QueryBuilder" and t :: "('q, 're) QueryTree" and c
  assume "all_subtrees (text_tree H) t" "c = SubWildQuery t \<or> c = SubMultiQuery t"
  then show "texts_step H b (snd (push_capture c (next_id b)))"
    by (auto simp: texts_step_def texts_ok_def capture_sub_def push_capture_def add_capture_def next_id_def)
next
  fix source qid rc used sexp q n and b :: "('q, 're) QueryBuilder"
  assume "texts_step H (new_builder source qid rc) b" "ts_query H sexp = Some q" "plain source n" "plain source n \<Longrightarrow> balanced sexp"
  then show "all_subtrees (text_tree H) (QueryTree q (b_captures b) (b_negations b) used qid)"
    by - (rule all_subtreesI, auto simp: texts_step_def texts_ok_def text_tree_def map_filter_simps)
next
  fix b :: "('q, 're) QueryBuilder" and t :: "('q, 're) QueryTree"
  assume "all_subtrees (text_tree H) t"
  then show "texts_step H b (next_id b \<lparr>b_negations := b_negations b @ [NegativeQuery t (last_ordered (b_captures b))]\<rparr>)"
    by (auto simp: texts_step_def texts_ok_def next_id_def)
qed (simp_all add: texts_step_def)

end
