(* ===== verification/Weggli_Compile.thy ===== *)
theory Weggli_Compile
  imports Weggli_Trees
begin

text \<open>
  The compilation of a search pattern (\<open>parse_search_pattern\<close> of \<^verbatim>\<open>src/src/lib.rs\<close>) as a whole: it
  returns on every tree of the shape the C grammar gives, and the query trees it yields are as the
  matching engine expects them.
\<close>

section \<open>No panic\<close>

text \<open>
  The shape of a syntax tree the builder relies on: a call has a function and arguments, binary
  expressions and assignments have three children, a label is followed by a colon and a statement,
  a compound statement has its braces, a string literal its quotes.
\<close>

definition node_shape :: "string \<Rightarrow> cst \<Rightarrow> bool" where
  "node_shape source n \<longleftrightarrow> slice_ok source (n_range n)
     \<and> (n_kind n = ''call_expression'' \<longrightarrow>
          child_by_field_name n ''function'' \<noteq> None \<and> child_by_field_name n ''arguments'' \<noteq> None)
     \<and> (n_kind n \<in> {''binary_expression'', ''assignment_expression'', ''labeled_statement''} \<longrightarrow> 3 \<le> length (n_children n))
     \<and> (n_kind n = ''compound_statement'' \<longrightarrow> 2 \<le> length (n_children n))
     \<and> (n_kind n = ''string_literal'' \<longrightarrow> (case str_slice source (n_range n) of
          Some t \<Rightarrow> t \<noteq> [] \<and> slice_ok t (1, length t - 1) | None \<Rightarrow> True))
     \<and> (n_kind n = ''number_literal'' \<longrightarrow> (case str_slice source (n_range n) of
          Some t \<Rightarrow> parse_number_literal t \<noteq> None | None \<Rightarrow> True))"

fun grammatical :: "string \<Rightarrow> cst \<Rightarrow> bool" where
  "grammatical source (Cst kind named field rng has_error is_error missing children) \<longleftrightarrow>
     node_shape source (Cst kind named field rng has_error is_error missing children)
     \<and> (\<forall>m \<in> set children. grammatical source m)"

lemma grammatical_node: "grammatical source n \<Longrightarrow> node_shape source n"
  by (cases n) simp

lemma grammatical_child: "grammatical source n \<Longrightarrow> m \<in> set (n_children n) \<Longrightarrow> grammatical source m"
  by (cases n) simp

text \<open>A value, or the error that tree-sitter did not accept a query text.\<close>

definition returns :: "'a built \<Rightarrow> bool" where
  "returns r \<longleftrightarrow> (\<exists>x. r = Some (Inr x)) \<or> (\<exists>s. r = Some (Inl (GenerationFailed s)))"

lemma returns_simps [simp]: "returns (ok x)" "returns (Some (Inr y))" "returns (Some (Inl (GenerationFailed s)))" "\<not> returns None"
  by (simp_all add: returns_def ok_def)

lemma returns_map_option [simp]: "returns (map_option Inr x) \<longleftrightarrow> x \<noteq> None"
  by (cases x) (auto simp: returns_def)

lemma returns_and_then: "returns r \<Longrightarrow> (\<And>x. r = Some (Inr x) \<Longrightarrow> returns (f x)) \<Longrightarrow> returns (and_then r f)"
  by (auto simp: returns_def)

lemma returns_get_text: "node_shape (query_source b) n \<Longrightarrow> returns (get_text b n)"
  by (simp add: get_text_def node_shape_def no_panic)

lemma source_kept:
  "build H p n depth strict parent b = Some (Inr (s, b')) \<Longrightarrow> query_source b' = query_source b"
  using shape.build_post [where H = H and b = b and n = n and p = p and depth = depth and strict = strict and parent = parent]
  by (auto simp: ensures_def shape.post_def shape.step_def same_setup_def)

text \<open>The recursive call as its callers see it: it returns below a node and keeps the source.\<close>

definition returning :: "string \<Rightarrow> ('q, 're) builder_call \<Rightarrow> nat \<Rightarrow> bool" where
  "returning source rec k \<longleftrightarrow> (\<forall>p m d s kind b. size m < k \<longrightarrow> grammatical source m
     \<longrightarrow> (\<forall>q. p = Some q \<longrightarrow> grammatical source q) \<longrightarrow> query_source b = source
     \<longrightarrow> returns (rec p m d s kind b) \<and> ensures (rec p m d s kind b) (\<lambda>(_, b'). query_source b' = source))"

lemma returning_call:
  assumes "returning source rec k" "size m < k" "grammatical source m" "\<And>q. p = Some q \<Longrightarrow> grammatical source q"
    "query_source b = source" "\<And>s b'. query_source b' = source \<Longrightarrow> returns (f (s, b'))"
  shows "returns (and_then (rec p m d strict kind b) f)"
proof (rule returns_and_then)
  have r: "returns (rec p m d strict kind b) \<and> ensures (rec p m d strict kind b) (\<lambda>(_, b'). query_source b' = source)"
    using assms(1-5) by (simp add: returning_def)
  then show "returns (rec p m d strict kind b)" by blast
  show "returns (f x)" if "rec p m d strict kind b = Some (Inr x)" for x
    using that r assms(6) [of "snd x" "fst x"] by (auto simp: ensures_def split_beta)
qed

lemma returning_child:
  assumes "returning source rec (size n)" "grammatical source n" "m \<in> set (n_children n)"
    "query_source b = source" "\<And>s b'. query_source b' = source \<Longrightarrow> returns (f (s, b'))"
  shows "returns (and_then (rec (Some n) m d strict kind b) f)"
  using assms grammatical_child [OF assms(2,3)] size_child [OF assms(3)]
  by (intro returning_call [OF assms(1)]) auto

lemma returning_mono: "returning source rec k \<Longrightarrow> j \<le> k \<Longrightarrow> returning source rec j"
  by (simp add: returning_def)

lemma finish_tree_returns: "returns (finish_tree H qid sexp used b)"
  by (simp add: finish_tree_def split: option.split)

lemma multi_patterns_returns:
  assumes "returning source rec (size n)" "grammatical source n" "set cs \<subseteq> set (n_children n)" "query_source b = source"
  shows "returns (multi_patterns H rec n strict cs s used b)"
  using assms(3,4)
proof (induction cs arbitrary: s used b)
  case (Cons m cs)
  then show ?case unfolding multi_patterns.simps
    by (intro returning_child [OF assms(1,2)]) (auto simp: Let_def split_beta)
qed simp

lemma tree_returns:
  assumes "returning source rec (if multi then size n else Suc (size n))" "grammatical source n" "\<And>q. p = Some q \<Longrightarrow> grammatical source q"
    and "multi \<Longrightarrow> n_kind n = ''compound_statement''"
  shows "returns (query_tree H rec source p n qid multi strict rc)"
proof -
  obtain p' m where u: "skip_unit p n = (p', m)" by fastforce
  have m: "grammatical source m" "\<And>q. p' = Some q \<Longrightarrow> grammatical source q" "size m \<le> size n"
    using u assms(2,3) grammatical_child [OF assms(2)] size_skip_unit [OF u] by (auto simp: skip_unit_def split: if_splits list.splits)
  show ?thesis
  proof (cases multi)
    case True
    then have "m = n" "2 \<le> length (n_children n)"
      using u assms(4) grammatical_node [OF assms(2)] by (auto simp: skip_unit_def node_shape_def)
    then obtain x rest where c: "n_children n = x # rest" "rest \<noteq> []" by (cases "n_children n") fastforce+
    have "returns (multi_patterns H rec n strict (butlast rest) [] [] (new_builder source qid rc))"
      using assms(1) True c by (intro multi_patterns_returns [OF _ assms(2)]) (auto dest: in_set_butlastD split: if_splits)
    with True c \<open>m = n\<close> show ?thesis
      unfolding query_tree_def u by (auto simp: Let_def split_beta intro!: returns_and_then finish_tree_returns)
  next
    case False
    then have "size m < Suc (size n)" "returning source rec (Suc (size n))" using m(3) assms(1) by auto
    with False m show ?thesis
      unfolding query_tree_def u by (auto simp: Let_def split_beta intro!: returning_call finish_tree_returns)
  qed
qed

lemma child3: "grammatical source n \<Longrightarrow> n_kind n \<in> {''binary_expression'', ''assignment_expression'', ''labeled_statement''}
    \<Longrightarrow> \<exists>x y z rest. n_children n = x # y # z # rest"
  using grammatical_node [of source n] by (auto simp: node_shape_def eval_nat_numeral Suc_le_length_iff)

lemma binary_returns:
  assumes "returning source rec (size n)" "grammatical source n" "n_kind n = ''binary_expression''" "query_source b = source"
  shows "returns (build_binary rec n depth strict b)"
  using child3 [OF assms(2)] assms(3,4) by (auto simp: build_binary_def intro!: returning_child [OF assms(1,2)])

lemma assignment_returns:
  assumes "returning source rec (size n)" "grammatical source n" "n_kind n = ''assignment_expression''" "query_source b = source"
  shows "returns (build_assignment rec n depth strict b)"
  using child3 [OF assms(2)] assms(3,4) by (auto simp: build_assignment_def intro!: returning_child [OF assms(1,2)])

lemma labeled_returns:
  assumes "returning source rec (size n)" "grammatical source n" "n_kind n = ''labeled_statement''" "query_source b = source"
  shows "returns (build_labeled H rec n depth b)"
proof -
  obtain x y z rest where c: "n_children n = x # y # z # rest" using child3 [OF assms(2)] assms(3) by auto
  have g: "grammatical source x" "grammatical source z" "size z < size n"
    using grammatical_child [OF assms(2)] size_child [of _ n] c by auto
  have neg: "returns (build_negative_query H rec n b)"
    unfolding build_negative_query_def Let_def push_capture_captures
    using c g assms returning_mono [OF assms(1), of "Suc (size z)"]
    by (intro returns_and_then) (auto simp: nth_opt_def unwrap_def eval_nat_numeral intro!: tree_returns)
  have "unwrap (nth_opt (n_children n) 0) = ok x" by (simp add: c nth_opt_def unwrap_def ok_def)
  then show ?thesis unfolding build_labeled_def using g assms(4)
    by (auto split: option.split dest!: named_child_mem intro!: returns_and_then [OF returns_get_text] returns_and_then [OF neg]
        grammatical_node returning_child [OF assms(1,2)])
qed

lemma compound_returns:
  assumes "returning source rec (size n)" "grammatical source n" "n_kind n = ''compound_statement''" "query_source b = source"
    "\<And>q. p = Some q \<Longrightarrow> grammatical source q"
  shows "returns (build_compound H rec p n b)"
  using assms by (auto simp: build_compound_def Let_def split_beta intro!: returns_and_then tree_returns)

lemma wildcard_returns:
  assumes "grammatical (query_source b) n"
  shows "returns (is_subexpr_wildcard b n)"
  unfolding is_subexpr_wildcard_def
  using grammatical_node [OF assms] grammatical_child [OF assms]
  by (auto simp: node_shape_def unwrap_def dest: child_by_field_mem intro!: returns_and_then returns_get_text grammatical_node)

lemma call_returns:
  assumes "returning source rec (size n)" "grammatical source n" "n_kind n = ''call_expression''" "query_source b = source"
  shows "returns (build_call_expr H rec n depth strict parent b)"
proof -
  obtain fn args where f: "child_by_field_name n ''function'' = Some fn" and a: "child_by_field_name n ''arguments'' = Some args"
    using grammatical_node [OF assms(2)] assms(3) by (auto simp: node_shape_def)
  obtain p arg k where p: "arg_of n args = (p, arg, k)" using prod_cases3 by blast
  note mem = child_by_field_mem [OF f] child_by_field_mem [OF a]
  have g: "grammatical source fn" "grammatical source args" using grammatical_child [OF assms(2)] mem by auto
  have arg: "grammatical source arg" "\<And>q. p = Some q \<Longrightarrow> grammatical source q" "size arg < size n"
    using p g(2) assms(2) grammatical_child [OF g(2)] size_arg_of [OF p] size_child [OF mem(2)]
    by (auto simp: arg_of_def split: list.splits)
  show ?thesis unfolding build_call_expr_def f a unwrap_def
    using assms(4) g arg mem returning_mono [OF assms(1), of "Suc (size arg)"] wildcard_returns [of b n] assms(2)
    by (auto simp: p Let_def split_beta intro!: returns_and_then [OF wildcard_returns] returns_and_then [OF returns_get_text]
        returns_and_then [OF tree_returns] grammatical_node returning_call [OF assms(1)] returning_child [OF assms(1,2)])
qed

lemma leaf_returns:
  assumes "grammatical (query_source b) n"
  shows "returns (build_identifier H n parent b)" and "n_kind n = ''number_literal'' \<Longrightarrow> returns (build_number n b)"
    and "n_kind n = ''string_literal'' \<Longrightarrow> returns (build_string n b)" and "returns (is_variadic b n)"
proof -
  note n = grammatical_node [OF assms]
  show "returns (build_identifier H n parent b)"
    unfolding build_identifier_def Let_def split_beta by (rule returns_and_then [OF returns_get_text [OF n]]) simp
  show "returns (is_variadic b n)"
    unfolding is_variadic_def by (auto intro!: returns_and_then [OF returns_get_text [OF n]])
  have t: "str_slice (query_source b) (n_range n) = Some t" if "get_text b n = Some (Inr t)" for t
    using that by (auto simp: get_text_def)
  show "returns (build_number n b)" if "n_kind n = ''number_literal''"
    unfolding build_number_def using n that t
    by (intro returns_and_then returns_get_text) (auto simp: node_shape_def split_beta Let_def)
  show "returns (build_string n b)" if "n_kind n = ''string_literal''"
    unfolding build_string_def
  proof (rule returns_and_then [OF returns_get_text [OF n]])
    fix x assume "get_text b n = Some (Inr x)"
    then have "x \<noteq> []" "slice_ok x (1, length x - 1)" using n that t by (auto simp: node_shape_def)
    then show "returns (if x = [] then None else and_then (map_option Inr (str_slice x (1, length x - 1))) (\<lambda>unquoted.
       if starts_with (CHR ''$'') unquoted then
         (let (k, b) = push_capture (Variable unquoted (map_of (regex_constraints b) unquoted)) b
          in ok (Some (''(string_literal) @'' @ k, b)))
       else ok None))"
      by (simp add: no_panic split_beta Let_def)
  qed
qed

lemma unwraps_returns:
  assumes "grammatical (query_source b) n" "\<And>q. p = Some q \<Longrightarrow> grammatical (query_source b) q"
  shows "returns (unwraps_statement H p n strict b)"
proof -
  have child: "grammatical (query_source b) m" if "nth_opt (named_children n) 0 = Some m" for m
    using grammatical_child [OF assms(1) named_child_mem [OF that]] .
  have label: "\<exists>l. unwrap (nth_opt (n_children q) 0) = ok l \<and> grammatical (query_source b) l"
    if "p = Some q" "n_kind q = ''labeled_statement''" for q
    using child3 [OF assms(2) [OF that(1)]] that grammatical_child [OF assms(2) [OF that(1)]]
    by (fastforce simp: nth_opt_def unwrap_def ok_def)
  have l: "returns (if n_kind q = ''labeled_statement'' then
              and_then (unwrap (nth_opt (n_children q) 0)) (\<lambda>l. and_then (get_text b l) (\<lambda>text.
                ok (if to_uppercase H text \<noteq> ''NOT'' \<and> to_uppercase H text \<noteq> ''STRICT'' then False else u)))
            else ok u)" if "p = Some q" for q u
    using label [OF that] by (auto intro!: returns_and_then [OF returns_get_text] grammatical_node)
  have w: "returns (if strict then is_subexpr_wildcard b m else ok True)" if "nth_opt (named_children n) 0 = Some m" for m
    using wildcard_returns [OF child [OF that]] by simp
  have chain: "returns (and_then (if strict then is_subexpr_wildcard b m else ok True) (\<lambda>unwrap1.
          and_then (if n_kind q = ''labeled_statement'' then
              and_then (unwrap (nth_opt (n_children q) 0)) (\<lambda>l. and_then (get_text b l) (\<lambda>text.
                ok (if to_uppercase H text \<noteq> ''NOT'' \<and> to_uppercase H text \<noteq> ''STRICT'' then False else unwrap1)))
            else ok unwrap1) (\<lambda>unwrap2.
          and_then (get_text b m) (\<lambda>text. ok (if text = ''_'' then False else unwrap2)))))"
    if "nth_opt (named_children n) 0 = Some m" "p = Some q" for m q
    by (intro returns_and_then [OF w [OF that(1)]] returns_and_then [OF l [OF that(2)]]
        returns_and_then [OF returns_get_text [OF grammatical_node [OF child [OF that(1)]]]] returns_simps)
  show ?thesis
  proof (cases "nth_opt (named_children n) 0")
    case m: (Some m)
    show ?thesis
    proof (cases p)
      case (Some q)
      show ?thesis unfolding unwraps_statement_def m Some prod.case option.case
        by (split if_split, intro conjI impI chain [OF m Some] returns_simps)
    qed (simp add: unwraps_statement_def split: option.split)
  qed (simp add: unwraps_statement_def)
qed

lemma fields_returns:
  assumes "returning source rec (size n)" "grammatical source n" "set cs \<subseteq> set (n_children n)" "query_source b = source"
  shows "returns (build_fields H rec n depth strict anchoring cs s b)"
  using assms(3,4)
proof (induction cs arbitrary: s b)
  case (Cons m cs)
  have m: "m \<in> set (n_children n)" "grammatical (query_source b) m" using Cons.prems grammatical_child [OF assms(2)] by auto
  have v: "returns (if n_kind n = ''argument_list'' then is_variadic b m else ok False)" using leaf_returns(4) [OF m(2)] by simp
  note call = returning_child [OF assms(1,2) m(1) Cons.prems(2)]
  have cs: "set cs \<subseteq> set (n_children n)" using Cons.prems(1) by simp
  have named: "returns (and_then (if n_kind n = ''argument_list'' then is_variadic b m else ok False) (\<lambda>variadic.
            if variadic then build_fields H rec n depth strict anchoring cs s b
            else and_then (rec (Some n) m (depth + 1) strict (n_kind n) b) (\<lambda>(t, b).
              build_fields H rec n depth strict anchoring cs (s @ (if anchoring then '' .'' else []) @ '' '' @ t) b)))"
    by (rule returns_and_then [OF v], split if_split, intro conjI impI Cons.IH [OF cs] Cons.prems(2) call,
        unfold prod.case, rule Cons.IH [OF cs])
  have keyword: "returns (and_then (rec (Some n) m (depth + 1) strict (n_kind n) b) (\<lambda>(sexp, b).
            if is_keyword_sexp H sexp then
              (let (k, b) = push_capture Display b
               in build_fields H rec n depth strict anchoring cs (s @ '' '' @ sexp @ '' @'' @ k) b)
            else build_fields H rec n depth strict anchoring cs s b))"
    by (rule call) (auto simp: Let_def split_beta intro!: Cons.IH [OF cs])
  show ?case
  proof (cases "n_field m")
    case None
    show ?thesis unfolding build_fields.simps None option.case by (split if_split, intro conjI impI named keyword)
  next
    case (Some f)
    show ?thesis unfolding build_fields.simps Some option.case by (rule call, unfold prod.case, rule Cons.IH [OF cs])
  qed
qed simp

lemma variadic_returns: "(\<And>m. m \<in> set cs \<Longrightarrow> grammatical (query_source b) m) \<Longrightarrow> returns (count_variadic b cs)"
  by (induction cs) (simp, auto intro!: returns_and_then leaf_returns(4))

lemma default_returns:
  assumes "returning source rec (size n)" "grammatical source n" "query_source b = source"
  shows "returns (build_default H rec n depth strict b)"
proof -
  have "returns (if n_kind n = ''argument_list'' then count_variadic b (n_children n) else ok 0)"
    using variadic_returns [of "n_children n" b] grammatical_child [OF assms(2)] assms(3) by simp
  then show ?thesis unfolding build_default_def Let_def
    by (rule returns_and_then) (auto simp: split_beta assms(3) intro!: returns_and_then [OF fields_returns [OF assms(1,2)]])
qed

lemma or_default_returns: "returns r \<Longrightarrow> returns d \<Longrightarrow> returns (or_default r d)"
  unfolding or_default_def by (erule returns_and_then) (auto split: option.split)

lemma node_returns:
  assumes "returning source rec (size n)" "grammatical source n" "query_source b = source" "\<And>q. p = Some q \<Longrightarrow> grammatical source q"
  shows "returns (build_node H rec p n depth strict parent b)"
proof -
  have g: "grammatical (query_source b) n" "\<And>q. p = Some q \<Longrightarrow> grammatical (query_source b) q" using assms by auto
  note d = default_returns [OF assms(1-3)]
  have u: "returns (case n_children n of m # _ \<Rightarrow> rec (Some n) m depth strict (n_kind n) b | [] \<Rightarrow> None)"
    if "unwraps_statement H p n strict b = Some (Inr True)"
  proof (cases "n_children n")
    case Nil
    with that show ?thesis by (auto simp: unwraps_statement_def named_children_def nth_opt_def ok_def)
  next
    case (Cons m ms)
    then show ?thesis
      using assms grammatical_child [OF assms(2), of m] size_child [of m n] by (auto simp: returning_def)
  qed
  show ?thesis unfolding build_node_def
    using g d u leaf_returns [OF g(1)] assms
    by (auto intro!: binary_returns labeled_returns compound_returns assignment_returns call_returns or_default_returns
        returns_and_then [OF unwraps_returns])
qed

lemma build_returns:
  assumes "grammatical (query_source b) n" "\<And>q. p = Some q \<Longrightarrow> grammatical (query_source b) q"
  shows "returns (build H p n depth strict parent (b :: ('q, 're) QueryBuilder))"
  using assms
proof (induction n arbitrary: p depth strict parent b rule: measure_induct_rule [where f = size])
  case (less n)
  have "returning (query_source b) (build H :: ('q, 're) builder_call) (size n)"
    unfolding returning_def
  proof (intro allI impI conjI)
    fix p m d s kind and b' :: "('q, 're) QueryBuilder"
    assume a: "size m < size n" "grammatical (query_source b) m" "\<forall>q. p = Some q \<longrightarrow> grammatical (query_source b) q"
      "query_source b' = query_source b"
    then show "returns (build H p m d s kind b')" by (intro less.IH) auto
    show "ensures (build H p m d s kind b') (\<lambda>(_, b''). query_source b'' = query_source b)"
      using a(4) by (auto simp: ensures_def dest: source_kept)
  qed
  with less.prems show ?case unfolding build.simps [of H p n] by (intro node_returns) auto
qed

lemma build_query_tree_returns:
  assumes "grammatical source n" "\<And>q. p = Some q \<Longrightarrow> grammatical source q"
  shows "returns (build_query_tree H source p n rc)"
proof -
  have "returning source (build H) (Suc (size n))"
    unfolding returning_def ensures_def using build_returns source_kept [of H] by blast
  then show ?thesis unfolding build_query_tree_def using assms by (intro tree_returns) auto
qed

section \<open>The first error of a pattern\<close>

declare size_child [termination_simp]

fun preorder :: "cst \<Rightarrow> cst list" where
  "preorder n = n # concat (map preorder (n_children n))"

declare preorder.simps [simp del]

definition error_node :: "cst \<Rightarrow> bool" where
  "error_node n \<longleftrightarrow> n_is_error n \<or> n_is_missing n"

text \<open>What tree-sitter documents of \<open>has_error\<close>: the node is an error, or contains one.\<close>

fun errors_marked :: "cst \<Rightarrow> bool" where
  "errors_marked n \<longleftrightarrow> (n_has_error n \<longleftrightarrow> error_node n \<or> (\<exists>m \<in> set (n_children n). n_has_error m))
     \<and> (\<forall>m \<in> set (n_children n). errors_marked m)"

declare errors_marked.simps [simp del]

lemma has_error_preorder: "errors_marked n \<Longrightarrow> n_has_error n \<longleftrightarrow> (\<exists>m \<in> set (preorder n). error_node m)"
proof (induction n rule: preorder.induct)
  case (1 n)
  then show ?case by (auto simp: errors_marked.simps [of n] preorder.simps [of n])
qed

lemma find_append_Some: "find P xs = Some x \<Longrightarrow> find P (xs @ ys) = Some x"
  by (induction xs) (auto split: if_splits)

lemma find_append_None: "\<forall>x \<in> set xs. \<not> P x \<Longrightarrow> find P (xs @ ys) = find P ys"
  by (induction xs) auto

lemma first_error_find:
  "errors_marked node \<Longrightarrow> \<forall>m \<in> set siblings. errors_marked m
    \<Longrightarrow> first_error node siblings = find error_node (concat (map preorder (node # siblings)))"
proof (induction node siblings rule: first_error.induct)
  case (1 node siblings)
  note m = "1.prems"(1) [unfolded errors_marked.simps [of node]]
  show ?case
  proof (cases "n_has_error node")
    case True
    show ?thesis
    proof (cases "error_node node")
      case False
      then obtain c cs where c: "n_children node = c # cs" using m True by (cases "n_children node") auto
      have nn: "\<not> (n_is_error node \<or> n_is_missing node)" using False by (simp add: error_node_def)
      have eq: "first_error c cs = find error_node (concat (map preorder (n_children node)))"
        using "1.IH"(1) [OF True nn c] c m by simp
      moreover have "\<exists>x \<in> set (concat (map preorder (n_children node))). error_node x"
        using m True False has_error_preorder by fastforce
      then obtain e where e: "find error_node (concat (map preorder (n_children node))) = Some e"
        by (metis find_None_iff not_None_eq)
      ultimately show ?thesis
        using True False c find_append_Some [OF e, of "concat (map preorder siblings)"]
        by (simp add: first_error.simps [of node] preorder.simps [of node] error_node_def [symmetric])
    qed (use True in \<open>simp add: first_error.simps preorder.simps [of node] error_node_def\<close>)
  next
    case False
    then have "\<forall>x \<in> set (preorder node). \<not> error_node x" using has_error_preorder "1.prems"(1) by blast
    then have "find error_node (concat (map preorder (node # siblings))) = find error_node (concat (map preorder siblings))"
      by (simp add: find_append_None)
    then show ?thesis
      using False "1.IH"(2) [OF False] "1.prems"(2) by (cases siblings) (simp_all add: first_error.simps [of node])
  qed
qed

text \<open>
  The loop of \<open>validate_query\<close> that walks the cursor to an error ends at the first error or
  missing node of the tree in document order, and finds one whenever the root is marked as erroneous.
\<close>

theorem first_error_preorder:
  assumes "errors_marked root"
  shows "first_error root [] = find error_node (preorder root)
    \<and> (n_has_error root \<longrightarrow> (\<exists>e. first_error root [] = Some e \<and> error_node e))"
proof -
  have eq: "first_error root [] = find error_node (preorder root)" using first_error_find [OF assms, of "[]"] by simp
  moreover have "\<exists>e. find error_node (preorder root) = Some e \<and> error_node e" if "n_has_error root"
    using that has_error_preorder [OF assms] by (metis find_None_iff find_Some_iff not_None_eq)
  ultimately show ?thesis by simp
qed

section \<open>Compiled patterns\<close>

lemma compiled_tree:
  assumes "parse_search_pattern H pattern force rc = Some (Inr t)"
  obtains p n parent where "add_braces H (add_semicolon H pattern) = (parent, p)"
    "build_query_tree H p (if n_children parent = [] then None else Some parent) n rc = Some (Inr t)"
    "n = (case n_children parent of m # _ \<Rightarrow> m | [] \<Rightarrow> parent)"
proof -
  obtain tree p where tp: "add_braces H (add_semicolon H pattern) = (tree, p)" by fastforce
  then obtain q n where v: "validate_query tree p force = ok (q, n)" "build_query_tree H p q n rc = Some (Inr t)"
    using assms by (auto simp: parse_search_pattern_def and_then_def ok_def split: option.splits sum.splits)
  then have "(q, n) = (case n_children tree of m # _ \<Rightarrow> (Some tree, m) | [] \<Rightarrow> (None, tree))"
    by (auto simp: validate_query_def syntax_error_def ok_def split_beta Let_def split: if_splits option.splits Option.bind_splits)
  with v(2) show thesis by (intro that [OF tp, of n]) (auto split: list.splits)
qed

text \<open>
  C14. The query trees compiled from a search pattern are as the matching engine needs them, at
  every depth: a variable carries the regex constraint of its rule at each of its occurrences, the
  set of variables recorded for a tree is the set of the variables it captures, and the capture a
  negation is ordered after exists and is one the engine keeps in its results.
\<close>

theorem compiled_trees_ok:
  assumes "parse_search_pattern H pattern force rc = Some (Inr t)" and "u \<in> subtrees t"
  shows "tree_ok rc u"
proof -
  obtain p n q where b: "build_query_tree H p q n rc = Some (Inr t)" using compiled_tree [OF assms(1)] by metis
  have "ensures (build_query_tree H p q n rc) (all_subtrees (tree_ok rc))" by (rule shape.build_query_tree_post) simp
  with b assms(2) show ?thesis by (simp add: ensures_def all_subtrees_def)
qed

text \<open>
  C29. The subqueries and the negations of one query tree have different identifiers, all larger
  than the identifier of the tree itself; the identifiers are the keys of the engine's cache.
\<close>

theorem compiled_ids_distinct:
  assumes "parse_search_pattern H pattern force rc = Some (Inr t)" and "u \<in> subtrees t"
  shows "distinct (map qt_id (sub_queries u @ neg_queries u)) \<and> (\<forall>v \<in> set (sub_queries u @ neg_queries u). qt_id u < qt_id v)"
proof -
  obtain p n q where b: "build_query_tree H p q n rc = Some (Inr t)" using compiled_tree [OF assms(1)] by metis
  have "ensures (build_query_tree H p q n rc) (\<lambda>t. qt_id t = 0 \<and> all_subtrees ids_ok t)"
    by (rule ids.build_query_tree_post) simp
  with b assms(2) have "ids_ok u" by (simp add: ensures_def all_subtrees_def)
  then show ?thesis by (auto simp: ids_ok_def child_ids_def)
qed


lemma first_error_grammatical:
  "first_error m ms = Some e \<Longrightarrow> grammatical p m \<Longrightarrow> \<forall>x \<in> set ms. grammatical p x \<Longrightarrow> grammatical p e"
proof (induction m ms rule: first_error.induct)
  case (1 m ms)
  note c = grammatical_child [OF "1.prems"(2)]
  show ?case using "1.prems" "1.IH" c by (subst (asm) first_error.simps) (auto split: if_splits list.splits)
qed

text \<open>
  C27. Compiling a pattern ends without a panic on every syntax tree of the grammar's shape. A tree
  with errors is refused unless forced, then more than one root, then a root of an unsupported
  kind; otherwise the result is a query tree, or the error that tree-sitter rejected a query text.
\<close>

theorem parse_search_pattern_outcome:
  assumes "add_braces H (add_semicolon H pattern) = (tree, p)" and "grammatical p tree"
  shows "\<exists>r. parse_search_pattern H pattern force rc = Some r \<and>
    (if n_has_error tree \<and> \<not> force then \<exists>e. r = Inl (SyntaxError e)
     else if length (named_children tree) > 1 then r = Inl (MultipleRoots p)
     else if n_kind (case n_children tree of m # _ \<Rightarrow> m | [] \<Rightarrow> tree) \<notin> set VALID_NODE_KINDS then r = Inl (UnsupportedRoot p)
     else (\<exists>t. r = Inr t) \<or> (\<exists>s. r = Inl (GenerationFailed s)))"
proof -
  have err: "\<exists>e. (syntax_error tree p :: (cst option \<times> cst) built) = Some (Inl (SyntaxError e))"
  proof (cases "first_error tree []")
    case (Some e)
    have "slice_ok p (n_range e)"
      using first_error_grammatical [OF Some assms(2)] grammatical_node by (fastforce simp: node_shape_def)
    then have "slice_ok p (0, fst (n_range e))" "slice_ok p (snd (n_range e), length p)" "slice_ok p (n_range e)"
      by (auto simp: slice_ok_def is_char_boundary_def)
    with Some show ?thesis by (auto simp: syntax_error_def no_panic)
  qed (simp add: syntax_error_def)
  have tree: "returns (build_query_tree H p q n rc)"
    if "(q, n) = (case n_children tree of m # _ \<Rightarrow> (Some tree, m) | [] \<Rightarrow> (None, tree))" for q n
    using that assms(2) grammatical_child [OF assms(2)] by (intro build_query_tree_returns) (auto split: list.splits)
  show ?thesis
    using err tree
    by (cases "n_children tree") (auto simp: parse_search_pattern_def assms(1) validate_query_def returns_def)
qed

section \<open>Instances\<close>

lemma build_code [code]: "build H p n depth strict parent b = build_node H (build H) p n depth strict parent b"
  by (rule build.simps)

definition tok :: "string \<Rightarrow> nat \<times> nat \<Rightarrow> cst" where
  "tok kind r = Cst kind False None r False False False []"

definition nod :: "string \<Rightarrow> string option \<Rightarrow> nat \<times> nat \<Rightarrow> cst list \<Rightarrow> cst" where
  "nod kind field r cs = Cst kind True field r False False False cs"

text \<open>The tree of \<open>{f($x);}\<close>; any other text is an error.\<close>

definition example_pattern :: string where
  "example_pattern = ''{f($x);}''"

definition example_cst :: cst where
  "example_cst = nod ''translation_unit'' None (0, 8) [nod ''compound_statement'' None (0, 8) [tok ''{'' (0, 1),
     nod ''expression_statement'' None (1, 7) [nod ''call_expression'' None (1, 6)
       [nod ''identifier'' (Some ''function'') (1, 2) [],
        nod ''argument_list'' (Some ''arguments'') (2, 6) [tok ''('' (2, 3), nod ''identifier'' None (3, 5) [], tok '')'' (5, 6)]],
       tok '';'' (6, 7)],
     tok ''}'' (7, 8)]]"

definition error_cst :: cst where
  "error_cst = Cst ''translation_unit'' True None (0, 0) True False False [Cst ''ERROR'' True None (0, 0) True True False []]"

text \<open>The tree of \<open>{{g(_(a));}{h(b);}}\<close>.\<close>

definition nested_pattern :: string where
  "nested_pattern = ''{{g(_(a));}{h(b);}}''"

definition call_cst :: "string option \<Rightarrow> nat \<Rightarrow> cst \<Rightarrow> cst" where
  "call_cst field i arg = (let e = snd (n_range arg) in
     nod ''call_expression'' field (i, e + 1) [nod ''identifier'' (Some ''function'') (i, i + 1) [],
       nod ''argument_list'' (Some ''arguments'') (i + 1, e + 1) [tok ''('' (i + 1, i + 2), arg, tok '')'' (e, e + 1)]])"

definition block_cst :: "nat \<Rightarrow> cst \<Rightarrow> cst" where
  "block_cst i expr = (let e = snd (n_range expr) in
     nod ''compound_statement'' None (i, e + 2) [tok ''{'' (i, i + 1),
       nod ''expression_statement'' None (i + 1, e + 1) [expr, tok '';'' (e, e + 1)], tok ''}'' (e + 1, e + 2)])"

definition nested_cst :: cst where
  "nested_cst = nod ''translation_unit'' None (0, 19) [nod ''compound_statement'' None (0, 19) [tok ''{'' (0, 1),
     block_cst 1 (call_cst None 2 (call_cst None 4 (nod ''identifier'' None (6, 7) []))),
     block_cst 11 (call_cst None 12 (nod ''identifier'' None (14, 15) [])),
     tok ''}'' (18, 19)]]"

definition text_host :: "string host" where
  "text_host = \<lparr>ts_parse = (\<lambda>s. if s = example_pattern then example_cst else if s = nested_pattern then nested_cst else error_cst),
     ts_query = Some, uni_upper = id, uni_numeric = (\<lambda>_. False), uni_alphanumeric = (\<lambda>_. False), hash_order = id\<rparr>"

definition compiled :: "string \<Rightarrow> (string, nat) QueryTree" where
  "compiled pattern = (case parse_search_pattern text_host pattern False [(''$x'', True, 7)] of Some (Inr t) \<Rightarrow> t
     | _ \<Rightarrow> QueryTree [] [] [] [] 0)"

lemma compiled_examples:
  "parse_search_pattern text_host example_pattern False [(''$x'', True, 7)] = Some (Inr (compiled example_pattern))"
  "parse_search_pattern text_host nested_pattern False [(''$x'', True, 7)] = Some (Inr (compiled nested_pattern))"
  by code_simp+

definition sub_at :: "('q, 're) QueryTree \<Rightarrow> nat list \<Rightarrow> ('q, 're) QueryTree" where
  "sub_at = foldl (\<lambda>t i. sub_queries t ! i)"

lemma sub_at_snoc: "u = sub_at t is \<Longrightarrow> u \<in> subtrees t \<Longrightarrow> i < length (sub_queries u) \<Longrightarrow> sub_at t (is @ [i]) \<in> subtrees t"
  by (auto simp: sub_at_def intro: subtrees.sub)

lemma sub_at_first: "0 < length (sub_queries t) \<Longrightarrow> sub_at t [0] \<in> subtrees t"
  by (auto simp: sub_at_def intro: subtrees.intros)

theorem compiled_trees_ok_witness:
  "tree_ok [(''$x'', True, 7)] (sub_at (compiled example_pattern) [0])
    \<and> qt_variables (sub_at (compiled example_pattern) [0]) = [''$x'']"
proof -
  have "0 < length (sub_queries (compiled example_pattern))" by code_simp
  moreover have "qt_variables (sub_at (compiled example_pattern) [0]) = [''$x'']" by code_simp
  ultimately show ?thesis
    using compiled_trees_ok [OF compiled_examples(1) sub_at_first] by blast
qed

theorem compiled_ids_distinct_witness:
  "distinct (map qt_id (sub_queries (sub_at (compiled nested_pattern) [0])))
    \<and> map qt_id (sub_queries (sub_at (compiled nested_pattern) [0])) = [2, 3]"
proof -
  have "0 < length (sub_queries (compiled nested_pattern))" by code_simp
  moreover have "map qt_id (sub_queries (sub_at (compiled nested_pattern) [0])) = [2, 3]" by code_simp
  ultimately show ?thesis
    using compiled_ids_distinct [OF compiled_examples(2) sub_at_first] by simp
qed

text \<open>
  The identifiers of a whole tree are not distinct: the subquery inside the first block of the
  nested pattern has the identifier of its second block.
\<close>

lemma nested_ids_collide:
  "sub_at (compiled nested_pattern) [0, 0, 0] \<in> subtrees (compiled nested_pattern)"
  "sub_at (compiled nested_pattern) [0, 1] \<in> subtrees (compiled nested_pattern)"
  "qt_id (sub_at (compiled nested_pattern) [0, 0, 0]) = qt_id (sub_at (compiled nested_pattern) [0, 1])"
  "qt_query (sub_at (compiled nested_pattern) [0, 0, 0]) \<noteq> qt_query (sub_at (compiled nested_pattern) [0, 1])"
proof -
  let ?t = "compiled nested_pattern"
  have l: "0 < length (sub_queries ?t)" "1 < length (sub_queries (sub_at ?t [0]))" "0 < length (sub_queries (sub_at ?t [0, 0]))"
    by code_simp+
  have 0: "sub_at ?t [0] \<in> subtrees ?t" by (rule sub_at_first [OF l(1)])
  have 00: "sub_at ?t [0, 0] \<in> subtrees ?t" using sub_at_snoc [OF refl 0, of 0] less_trans [OF zero_less_one l(2)] by simp
  show "sub_at ?t [0, 1] \<in> subtrees ?t" using sub_at_snoc [OF refl 0, of 1] l(2) by simp
  show "sub_at ?t [0, 0, 0] \<in> subtrees ?t" using sub_at_snoc [OF refl 00 l(3)] by simp
  show "qt_id (sub_at ?t [0, 0, 0]) = qt_id (sub_at ?t [0, 1])" by code_simp
  show "qt_query (sub_at ?t [0, 0, 0]) \<noteq> qt_query (sub_at ?t [0, 1])" by code_simp
qed

text \<open>The query text of a wide string literal, whose opening token is \<open>L"\<close>, is not balanced.\<close>

lemma wide_string_unbalanced:
  "\<not> balanced (fst (projr (the (build text_host None
     (nod ''string_literal'' None (0, 4) [tok [CHR ''L'', CHR 0x22] (0, 2), tok [CHR 0x22] (3, 4)]) 0 False []
     (new_builder [CHR ''L'', CHR 0x22, CHR ''x'', CHR 0x22] 0 [] :: (string, nat) QueryBuilder)))))"
proof -
  have "scan (fst (projr (the (build text_host None
     (nod ''string_literal'' None (0, 4) [tok [CHR ''L'', CHR 0x22] (0, 2), tok [CHR 0x22] (3, 4)]) 0 False []
     (new_builder [CHR ''L'', CHR 0x22, CHR ''x'', CHR 0x22] 0 [] :: (string, nat) QueryBuilder))))) (False, []) \<noteq> Some (False, [])"
    by code_simp
  then show ?thesis by (auto simp: balanced_def)
qed

lemma example_normalised:
  "add_braces text_host (add_semicolon text_host example_pattern) = (example_cst, example_pattern)"
  by code_simp

lemma example_plain: "plain example_pattern example_cst"
  by code_simp

lemma example_grammatical: "grammatical example_pattern example_cst"
  by code_simp


theorem parse_search_pattern_outcome_witness:
  "\<exists>t. parse_search_pattern text_host example_pattern False [(''$x'', True, 7 :: nat)] = Some (Inr t)"
proof -
  from parse_search_pattern_outcome [OF example_normalised example_grammatical, of False "[(''$x'', True, 7 :: nat)]"]
  have "\<exists>r. parse_search_pattern text_host example_pattern False [(''$x'', True, 7 :: nat)] = Some r" by (elim exE conjE) (rule exI)
  with compiled_examples(1) show ?thesis by auto
qed

theorem first_error_preorder_witness:
  "first_error error_cst [] = Some (hd (n_children error_cst)) \<and> find error_node (preorder error_cst) = Some (hd (n_children error_cst))"
proof -
  have "errors_marked error_cst" by code_simp
  moreover have "first_error error_cst [] = Some (hd (n_children error_cst))" by code_simp
  ultimately show ?thesis using first_error_preorder [of error_cst] by simp
qed

end
