(* ===== verification/Weggli_Main.thy ===== *)
theory Weggli_Main
  imports Weggli_Rules Weggli_Compile
begin

text \<open>
  \<open>main\<close> of \<^verbatim>\<open>src/src/main.rs\<close> after argument parsing: the filter regexes, the file list, then one
  pass per rule file with its report. The state of the program is what it has written: the SARIF
  files and the terminal reports.
\<close>

section \<open>Reports\<close>

definition level_name :: "Level option \<Rightarrow> string" where
  "level_name level = (case level of Some LevelError \<Rightarrow> ''error'' | Some LevelWarning \<Rightarrow> ''warning''
     | Some LevelNote \<Rightarrow> ''note'' | None \<Rightarrow> ''none'')"

record descriptor =
  d_name :: string
  d_id :: string
  d_enabled :: bool
  d_level :: string

definition descriptors :: "Rules \<Rightarrow> descriptor list" where
  "descriptors rules = [\<lparr>d_name = rs_issue rules, d_id = rs_issue rules, d_enabled = True, d_level = level_name (rs_level rules)\<rparr>]"

type_synonym sarif_document = "descriptor list \<times> sarif_result list"

record world =
  w_files :: "string \<rightharpoonup> sarif_document"
  w_terminal :: "(nat \<times> string list) list"

text \<open>
  Where the report goes: \<open>is_dir\<close>, \<open>is_absolute\<close> and \<open>join\<close> are the path functions of the standard
  library on the running system.
\<close>

record paths =
  is_dir :: "string \<Rightarrow> bool"
  is_absolute :: "string \<Rightarrow> bool"
  current_dir :: string
  join :: "string \<Rightarrow> string \<Rightarrow> string"

definition sarif_path :: "paths \<Rightarrow> string \<Rightarrow> string" where
  "sarif_path P path =
    (if is_dir P path then
       (if is_absolute P path then join P path ''results.sarif''
        else join P (join P (current_dir P) path) ''results.sarif'')
     else if \<not> is_absolute P path then join P (current_dir P) path
     else path)"

text \<open>\<open>File::create\<close> truncates: a document replaces what the file held.\<close>

definition emit_report :: "paths \<Rightarrow> display_ops \<Rightarrow> string option \<Rightarrow> bool \<Rightarrow> Rules \<Rightarrow> ResultsCtx list \<Rightarrow> world \<Rightarrow> world panics" where
  "emit_report P D output_path enable_line_numbers rules results w = (case output_path of
      Some path \<Rightarrow> do {
        doc \<leftarrow> generate_sarif results;
        Some (w \<lparr>w_files := (w_files w)(sarif_path P path \<mapsto> (descriptors rules, doc))\<rparr>) }
    | None \<Rightarrow> do {
        report \<leftarrow> print_terminal D results enable_line_numbers;
        Some (w \<lparr>w_terminal := w_terminal w @ [report]\<rparr>) })"

section \<open>main\<close>

datatype 'e main_end = BadFilter 'e | NoFiles | RuleError "'e rule_error" | MainPanics | Finished

fun helper_regex :: "(string \<Rightarrow> 'e + 're) \<Rightarrow> string list \<Rightarrow> 'e + 're list" where
  "helper_regex new [] = Inr []"
| "helper_regex new (s # ss) = (case new s of
      Inl e \<Rightarrow> Inl e
    | Inr r \<Rightarrow> (case helper_regex new ss of Inl e \<Rightarrow> Inl e | Inr rs \<Rightarrow> Inr (r # rs)))"

text \<open>The loop over the rule files, \<open>pass\<close> being the search for one of them.\<close>

fun process_all :: "(Rules \<Rightarrow> 'e outcome) \<Rightarrow> (Rules \<Rightarrow> ResultsCtx list \<Rightarrow> world \<Rightarrow> world panics) \<Rightarrow> Rules list \<Rightarrow> world
    \<Rightarrow> 'e main_end \<times> world" where
  "process_all pass report [] w = (Finished, w)"
| "process_all pass report (rules # rest) w = (case pass rules of
      ExitWith e \<Rightarrow> (RuleError e, w)
    | Panicked \<Rightarrow> (MainPanics, w)
    | Skipped \<Rightarrow> process_all pass report rest w
    | Reported results \<Rightarrow> (case report rules results w of
          None \<Rightarrow> (MainPanics, w) | Some w \<Rightarrow> process_all pass report rest w))"

record Args =
  a_rule_path :: string
  a_code_path :: string
  a_extensions :: "string list"
  a_include :: "string list"
  a_exclude :: "string list"
  a_output_path :: "string option"
  a_force_query :: bool
  a_limit :: bool
  a_unique :: bool
  a_enable_line_numbers :: bool

text \<open>What the program calls on the system and in other packages.\<close>

record ('e, 'q, 're, 'n, 't) system =
  regex_new :: "string \<Rightarrow> 'e + 're"
  path_is_match :: "'re \<Rightarrow> string \<Rightarrow> bool option"
  to_str :: "string \<Rightarrow> string option"
  walk :: "(DirEntry \<Rightarrow> bool) \<Rightarrow> string \<Rightarrow> DirEntry option list"
  read_rule_file :: "string \<Rightarrow> string option"
  parse_yaml :: "string \<Rightarrow> Rules option"
  compiler :: "'q host"
  the_engine :: "('q, 're, 'n) engine"
  root_node :: "'t \<Rightarrow> 'n"
  read_source :: "string \<Rightarrow> string option"
  parse_source :: "string \<Rightarrow> 't option"
  sys_paths :: paths
  display :: display_ops

definition weggli_main :: "('e, 'q, 're, 'n, 't) system \<Rightarrow> Args \<Rightarrow> world \<Rightarrow> 'e main_end \<times> world" where
  "weggli_main S args w = (case helper_regex (regex_new S) (a_exclude args) of
      Inl e \<Rightarrow> (BadFilter e, w)
    | Inr exclude_re \<Rightarrow> (case helper_regex (regex_new S) (a_include args) of
        Inl e \<Rightarrow> (BadFilter e, w)
      | Inr include_re \<Rightarrow> (case select_files (to_str S) (walk S) (path_is_match S) exclude_re include_re (a_code_path args) (a_extensions args) of
          None \<Rightarrow> (MainPanics, w)
        | Some files \<Rightarrow>
            if files = [] then (NoFiles, w)
            else process_all
              (process_rules (regex_new S) (compiler S) (a_force_query args) (the_engine S) (root_node S) (read_source S) (parse_source S)
                \<lparr>opt_limit = a_limit args, opt_unique = a_unique args\<rparr> files)
              (emit_report (sys_paths S) (display S) (a_output_path args) (a_enable_line_numbers args))
              (rule_path_seek (to_str S) (walk S) (read_rule_file S) (parse_yaml S) (a_rule_path args)) w)))"

section \<open>What a run leaves behind\<close>

definition reported :: "(Rules \<Rightarrow> 'e outcome) \<Rightarrow> Rules \<Rightarrow> (Rules \<times> ResultsCtx list) option" where
  "reported pass rules = (case pass rules of Reported results \<Rightarrow> Some (rules, results) | _ \<Rightarrow> None)"

text \<open>A run that ends normally has reported on every rule file in turn.\<close>

lemma process_all_fold:
  "process_all pass report rs w = (Finished, w') \<Longrightarrow> foldM (\<lambda>(rules, results) w. report rules results w) (List.map_filter (reported pass) rs) w = Some w'"
proof (induction rs arbitrary: w)
  case (Cons rules rs)
  then show ?case
    by (cases "pass rules") (auto simp: map_filter_simps reported_def split: option.splits)
qed (simp add: map_filter_simps)

lemma emit_report_file:
  assumes "emit_report P D (Some path) ln rules results w = Some w'"
  shows "\<exists>doc. generate_sarif results = Some doc \<and> w_files w' = (w_files w)(sarif_path P path \<mapsto> (descriptors rules, doc))"
  using assms by (auto simp: emit_report_def split: Option.bind_splits)

text \<open>
  With an output path, the SARIF file holds the results of the last rule file that was
  reported on, and of no other: the documents of the rule files before it are overwritten. A run
  without a report leaves the file as it was.
\<close>

theorem sarif_last_rules_only:
  assumes "process_all pass (emit_report P D (Some path) ln) rs w = (Finished, w')"
  shows "w_files w' (sarif_path P path) =
    (case rev (List.map_filter (reported pass) rs) of
       [] \<Rightarrow> w_files w (sarif_path P path)
     | (rules, results) # _ \<Rightarrow> Some (descriptors rules, the (generate_sarif results)))"
proof -
  have "w_files w' (sarif_path P path) = (case rev xs of [] \<Rightarrow> w_files w (sarif_path P path)
       | (rules, results) # _ \<Rightarrow> Some (descriptors rules, the (generate_sarif results)))"
    if "foldM (\<lambda>(rules, results) w. emit_report P D (Some path) ln rules results w) xs w = Some w'" for xs
    using that
  proof (induction xs arbitrary: w' rule: rev_induct)
    case (snoc x xs)
    obtain rules results where x: "x = (rules, results)" by fastforce
    with snoc.prems show ?case by (auto simp: foldM_append split: Option.bind_splits dest!: emit_report_file)
  qed simp
  with process_all_fold [OF assms] show ?thesis by blast
qed

definition two_rules :: "Rules list" where
  "two_rules = [example_rules, example_rules \<lparr>rs_issue := ''j''\<rparr>]"

definition plain_paths :: paths where
  "plain_paths = \<lparr>is_dir = (\<lambda>_. False), is_absolute = (\<lambda>_. True), current_dir = [], join = (@)\<rparr>"

definition plain_display :: display_ops where
  "plain_display = \<lparr>d_bold_blue = id, d_bold_purple = id, d_bold = id, d_display = (\<lambda>_ _ _. [])\<rparr>"

definition example_run :: "string main_end \<times> world" where
  "example_run = process_all (\<lambda>rules. Reported (if rs_issue rules = ''i'' then [send_result 0 example_item ''zz.c'' ''zz.c'' example_hit] else []))
     (emit_report plain_paths plain_display (Some ''o.sarif'') False) two_rules \<lparr>w_files = Map.empty, w_terminal = []\<rparr>"

theorem sarif_last_rules_only_witness:
  "fst example_run = Finished \<and> w_files (snd example_run) ''o.sarif'' = Some (descriptors (example_rules \<lparr>rs_issue := ''j''\<rparr>), [])"
proof -
  have "\<not> Option.is_none (generate_sarif [send_result 0 example_item ''zz.c'' ''zz.c'' example_hit])" by code_simp
  then obtain d where "generate_sarif [send_result 0 example_item ''zz.c'' ''zz.c'' example_hit] = Some d"
    by (auto simp: Option.is_none_def)
  then have f: "fst example_run = Finished"
    by (simp add: example_run_def two_rules_def example_rules_def emit_report_def generate_sarif_def [of "[]"])
  define w' where "w' = snd example_run"
  have o: "example_run = (Finished, w')" using f unfolding w'_def by (rule prod_eqI [OF trans]) simp_all
  from sarif_last_rules_only [OF o [unfolded example_run_def]] show ?thesis unfolding o
    by (simp add: two_rules_def example_rules_def reported_def map_filter_simps sarif_path_def plain_paths_def generate_sarif_def)
qed

end
