(* ===== verification/Malloc.thy ===== *)
theory Malloc
  imports Prelude
begin

unbundle bit_operations_syntax

text \<open>
  \<^verbatim>\<open>src/examples/malloc.c\<close>, the allocator of the sample corpus, on a machine with 8-byte
  \<open>size_t\<close>. Memory maps 8-byte aligned addresses to 64-bit words; chunk headers, the list links
  and the array of bins live in it, so the code's aliasing of a bin with a chunk
  (\<open>BIN_TO_CHUNK\<close>) is kept. The model follows one thread: \<open>lock\<close> and \<open>unlock\<close> leave the state
  alone when \<open>libc.threads_minus_1\<close> is 0. System calls, the page size and the address of the
  bins are the parameter \<open>sys\<close>. A loop that does not end has the value \<open>None\<close>.
\<close>

section \<open>State\<close>

type_synonym word64 = "64 word"
type_synonym memory = "word64 \<Rightarrow> word64"

record 'o mstate =
  mem :: memory
  binmap :: word64
  heap_end :: word64
  errno_ENOMEM :: bool
  os :: 'o

record 'o sys =
  PAGE_SIZE :: word64
  bins_addr :: word64
  sys_expand_heap :: "word64 \<Rightarrow> 'o \<times> memory \<Rightarrow> (word64 \<times> word64) option \<times> 'o \<times> memory"
  sys_mmap :: "word64 \<Rightarrow> 'o \<times> memory \<Rightarrow> word64 \<times> 'o \<times> memory"
  sys_mremap :: "word64 \<Rightarrow> word64 \<Rightarrow> word64 \<Rightarrow> 'o \<times> memory \<Rightarrow> word64 \<times> 'o \<times> memory"
  sys_munmap :: "word64 \<Rightarrow> word64 \<Rightarrow> 'o \<times> memory \<Rightarrow> 'o \<times> memory"
  sys_madvise :: "word64 \<Rightarrow> word64 \<Rightarrow> 'o \<times> memory \<Rightarrow> 'o \<times> memory"

datatype fault = A_CRASH

section \<open>Macros\<close>

definition SIZE_ALIGN :: word64 where "SIZE_ALIGN = 4 * 8"
definition SIZE_MASK :: word64 where "SIZE_MASK = - SIZE_ALIGN"
definition OVERHEAD :: word64 where "OVERHEAD = 2 * 8"
definition MMAP_THRESHOLD :: word64 where "MMAP_THRESHOLD = 0x1c00 * SIZE_ALIGN"
definition DONTCARE :: word64 where "DONTCARE = 16"
definition RECLAIM :: word64 where "RECLAIM = 163840"
definition C_INUSE :: word64 where "C_INUSE = 1"
definition PTRDIFF_MAX :: word64 where "PTRDIFF_MAX = 0x7fffffffffffffff"

lemmas malloc_consts = SIZE_ALIGN_def SIZE_MASK_def OVERHEAD_def MMAP_THRESHOLD_def DONTCARE_def
  RECLAIM_def C_INUSE_def PTRDIFF_MAX_def

definition psize :: "'o mstate \<Rightarrow> word64 \<Rightarrow> word64" where "psize st c = mem st c"
definition csize :: "'o mstate \<Rightarrow> word64 \<Rightarrow> word64" where "csize st c = mem st (c + 8)"
definition next_of :: "'o mstate \<Rightarrow> word64 \<Rightarrow> word64" where "next_of st c = mem st (c + 16)"
definition prev_of :: "'o mstate \<Rightarrow> word64 \<Rightarrow> word64" where "prev_of st c = mem st (c + 24)"

definition set_psize :: "word64 \<Rightarrow> word64 \<Rightarrow> 'o mstate \<Rightarrow> 'o mstate" where
  "set_psize c v st = st\<lparr>mem := (mem st)(c := v)\<rparr>"
definition set_csize :: "word64 \<Rightarrow> word64 \<Rightarrow> 'o mstate \<Rightarrow> 'o mstate" where
  "set_csize c v st = st\<lparr>mem := (mem st)(c + 8 := v)\<rparr>"
definition set_next :: "word64 \<Rightarrow> word64 \<Rightarrow> 'o mstate \<Rightarrow> 'o mstate" where
  "set_next c v st = st\<lparr>mem := (mem st)(c + 16 := v)\<rparr>"
definition set_prev :: "word64 \<Rightarrow> word64 \<Rightarrow> 'o mstate \<Rightarrow> 'o mstate" where
  "set_prev c v st = st\<lparr>mem := (mem st)(c + 24 := v)\<rparr>"

definition CHUNK_SIZE :: "'o mstate \<Rightarrow> word64 \<Rightarrow> word64" where "CHUNK_SIZE st c = csize st c AND (- 2)"
definition CHUNK_PSIZE :: "'o mstate \<Rightarrow> word64 \<Rightarrow> word64" where "CHUNK_PSIZE st c = psize st c AND (- 2)"
definition PREV_CHUNK :: "'o mstate \<Rightarrow> word64 \<Rightarrow> word64" where "PREV_CHUNK st c = c - CHUNK_PSIZE st c"
definition NEXT_CHUNK :: "'o mstate \<Rightarrow> word64 \<Rightarrow> word64" where "NEXT_CHUNK st c = c + CHUNK_SIZE st c"
definition MEM_TO_CHUNK :: "word64 \<Rightarrow> word64" where "MEM_TO_CHUNK p = p - OVERHEAD"
definition CHUNK_TO_MEM :: "word64 \<Rightarrow> word64" where "CHUNK_TO_MEM c = c + OVERHEAD"
definition IS_MMAPPED :: "'o mstate \<Rightarrow> word64 \<Rightarrow> bool" where
  "IS_MMAPPED st c \<longleftrightarrow> csize st c AND C_INUSE = 0"

text \<open>A bin is 24 bytes: two lock words of 4 bytes, \<open>head\<close> and \<open>tail\<close>.\<close>

definition head_addr :: "'o sys \<Rightarrow> nat \<Rightarrow> word64" where
  "head_addr S i = bins_addr S + of_nat (24 * i) + 8"
definition BIN_TO_CHUNK :: "'o sys \<Rightarrow> nat \<Rightarrow> word64" where
  "BIN_TO_CHUNK S i = MEM_TO_CHUNK (head_addr S i)"
definition bin_head :: "'o sys \<Rightarrow> 'o mstate \<Rightarrow> nat \<Rightarrow> word64" where
  "bin_head S st i = mem st (head_addr S i)"
definition bin_tail :: "'o sys \<Rightarrow> 'o mstate \<Rightarrow> nat \<Rightarrow> word64" where
  "bin_tail S st i = mem st (head_addr S i + 8)"

section \<open>Bins\<close>

definition lock_bin :: "'o sys \<Rightarrow> nat \<Rightarrow> 'o mstate \<Rightarrow> 'o mstate" where
  "lock_bin S i st = (if bin_head S st i = 0
     then st\<lparr>mem := (mem st)(head_addr S i + 8 := BIN_TO_CHUNK S i, head_addr S i := BIN_TO_CHUNK S i)\<rparr>
     else st)"

definition unlock_bin :: "nat \<Rightarrow> 'o mstate \<Rightarrow> 'o mstate" where
  "unlock_bin i st = st"

text \<open>\<open>a_ctz_64\<close>: the number of trailing zeros; the code calls it on nonzero words only.\<close>

function first_set_from :: "word64 \<Rightarrow> nat \<Rightarrow> nat" where
  "first_set_from x k = (if 64 \<le> k then 64 else if bit x k then k else first_set_from x (Suc k))"
  by auto
termination by (relation "measure (\<lambda>(x, k). 64 - k)") auto

declare first_set_from.simps [simp del]

definition first_set :: "word64 \<Rightarrow> nat" where
  "first_set x = first_set_from x 0"

definition bin_tab :: "nat list" where
  "bin_tab = [32,33,34,35,36,36,37,37,38,38,39,39,
     40,40,40,40,41,41,41,41,42,42,42,42,43,43,43,43,
     44,44,44,44,44,44,44,44,45,45,45,45,45,45,45,45,
     46,46,46,46,46,46,46,46,47,47,47,47,47,47,47,47]"

definition bin_index :: "word64 \<Rightarrow> nat" where
  "bin_index x0 = (let x = x0 div SIZE_ALIGN - 1 in
     if x \<le> 32 then unat x
     else if x < 512 then bin_tab ! unat (x div 8 - 4)
     else if x > 0x1c00 then 63
     else bin_tab ! unat (x div 128 - 4) + 16)"

text \<open>
  Past the table the last access of \<open>bin_index_up\<close> would be out of bounds in C; the callers pass
  sizes up to \<open>MMAP_THRESHOLD\<close>, for which it is in bounds (\<open>bin_index_up_in_table\<close>).
\<close>

definition bin_index_up :: "word64 \<Rightarrow> nat" where
  "bin_index_up x0 = (let x = x0 div SIZE_ALIGN - 1 in
     if x \<le> 32 then unat x
     else let x = x - 1 in
       if x < 512 then bin_tab ! unat (x div 8 - 4) + 1
       else bin_tab ! unat (x div 128 - 4) + 17)"

section \<open>Operations\<close>

definition expand_heap :: "'o sys \<Rightarrow> word64 \<Rightarrow> 'o mstate \<Rightarrow> word64 \<times> 'o mstate" where
  "expand_heap S n0 st0 =
    (let n = n0 + SIZE_ALIGN;
         (r, os', mem') = sys_expand_heap S n (os st0, mem st0);
         st = st0\<lparr>os := os', mem := mem'\<rparr>
     in (case r of
           None \<Rightarrow> (0, st)
         | Some (p, n) \<Rightarrow>
             let (p, n, st) =
                   (if p \<noteq> heap_end st
                    then (p + SIZE_ALIGN, n - SIZE_ALIGN, set_psize (MEM_TO_CHUNK (p + SIZE_ALIGN)) (0 OR C_INUSE) st)
                    else (p, n, st));
                 st = st\<lparr>heap_end := p + n\<rparr>;
                 w = MEM_TO_CHUNK (p + n);
                 st = set_psize w (n OR C_INUSE) st;
                 st = set_csize w (0 OR C_INUSE) st;
                 w = MEM_TO_CHUNK p;
                 st = set_csize w (n OR C_INUSE) st
             in (w, st)))"

definition adjust_size :: "'o sys \<Rightarrow> word64 \<Rightarrow> 'o mstate \<Rightarrow> word64 option \<times> 'o mstate" where
  "adjust_size S n st =
    (if n - 1 > PTRDIFF_MAX - SIZE_ALIGN - PAGE_SIZE S then
       (if n \<noteq> 0 then (None, st\<lparr>errno_ENOMEM := True\<rparr>) else (Some SIZE_ALIGN, st))
     else (Some ((n + OVERHEAD + SIZE_ALIGN - 1) AND SIZE_MASK), st))"

definition unbin :: "word64 \<Rightarrow> nat \<Rightarrow> 'o mstate \<Rightarrow> 'o mstate" where
  "unbin c i st0 =
    (let st = (if prev_of st0 c = next_of st0 c
               then st0\<lparr>binmap := binmap st0 AND NOT (push_bit i 1)\<rparr> else st0);
         st = set_next (prev_of st c) (next_of st c) st;
         st = set_prev (next_of st c) (prev_of st c) st;
         st = set_csize c (csize st c OR C_INUSE) st
     in set_psize (NEXT_CHUNK st c) (psize st (NEXT_CHUNK st c) OR C_INUSE) st)"

partial_function (option) alloc_fwd :: "'o sys \<Rightarrow> word64 \<Rightarrow> 'o mstate \<Rightarrow> (bool \<times> 'o mstate) option" where
  [code]: "alloc_fwd S c st =
    (let k = csize st c in
     if k AND C_INUSE \<noteq> 0 then Some (False, st)
     else let i = bin_index k; st = lock_bin S i st in
       if csize st c = k then Some (True, unlock_bin i (unbin c i st))
       else alloc_fwd S c (unlock_bin i st))"

partial_function (option) alloc_rev :: "'o sys \<Rightarrow> word64 \<Rightarrow> 'o mstate \<Rightarrow> (bool \<times> 'o mstate) option" where
  [code]: "alloc_rev S c st =
    (let k = psize st c in
     if k AND C_INUSE \<noteq> 0 then Some (False, st)
     else let i = bin_index k; st = lock_bin S i st in
       if psize st c = k then Some (True, unlock_bin i (unbin (PREV_CHUNK st c) i st))
       else alloc_rev S c (unlock_bin i st))"

definition pretrim :: "word64 \<Rightarrow> word64 \<Rightarrow> nat \<Rightarrow> nat \<Rightarrow> 'o mstate \<Rightarrow> bool \<times> 'o mstate" where
  "pretrim self n i j st0 =
    (let n1 = CHUNK_SIZE st0 self in
     if j < 40 then (False, st0)
     else if j < i + 3 \<and> j \<noteq> 63 then (False, st0)
     else if j < i + 3 \<and> n1 - n \<le> MMAP_THRESHOLD then (False, st0)
     else if bin_index (n1 - n) \<noteq> j then (False, st0)
     else let nxt = NEXT_CHUNK st0 self;
              split = self + n;
              st = set_prev split (prev_of st0 self) st0;
              st = set_next split (next_of st self) st;
              st = set_next (prev_of st split) split st;
              st = set_prev (next_of st split) split st;
              st = set_psize split (n OR C_INUSE) st;
              st = set_csize split (n1 - n) st;
              st = set_psize nxt (n1 - n) st;
              st = set_csize self (n OR C_INUSE) st
          in (True, st))"

text \<open>
  The loop of \<open>free\<close> that merges the free neighbours. It ends when both neighbours are in use,
  with the bin of the merged chunk locked; the second test of the code repeats the first one
  after the locks have been taken, and what \<open>lock_bin\<close> writes lies in the bins.
\<close>

definition reclaims :: "word64 \<Rightarrow> word64 \<Rightarrow> bool" where
  "reclaims new_size sz \<longleftrightarrow> new_size + sz > RECLAIM \<and> ((new_size + sz) XOR sz) > sz"

definition free_merge :: "'o sys \<Rightarrow> word64 \<Rightarrow> word64 \<times> word64 \<times> word64 \<times> bool \<times> 'o mstate
    \<Rightarrow> (word64 \<times> word64 \<times> word64 \<times> bool \<times> 'o mstate) option" where
  "free_merge S new_size = (\<lambda>(self, nxt, final_size, reclaim, st). do {
     (b, st) \<leftarrow> alloc_rev S self st;
     let (self, final_size, reclaim) =
       (if b then let self = PREV_CHUNK st self; sz = CHUNK_SIZE st self
                  in (self, final_size + sz, reclaim \<or> reclaims new_size sz)
        else (self, final_size, reclaim));
     (b, st) \<leftarrow> alloc_fwd S nxt st;
     let (nxt, final_size, reclaim) =
       (if b then let sz = CHUNK_SIZE st nxt
                  in (NEXT_CHUNK st nxt, final_size + sz, reclaim \<or> reclaims new_size sz)
        else (nxt, final_size, reclaim));
     Some (self, nxt, final_size, reclaim, st) })"

partial_function (option) free_loop :: "'o sys \<Rightarrow> word64 \<Rightarrow> word64 \<Rightarrow> word64 \<Rightarrow> word64 \<Rightarrow> bool \<Rightarrow> 'o mstate
    \<Rightarrow> (word64 \<times> word64 \<times> word64 \<times> bool \<times> nat \<times> 'o mstate) option" where
  [code]: "free_loop S new_size self nxt final_size reclaim st =
    (if psize st self AND csize st nxt AND C_INUSE \<noteq> 0 then
       (let st = set_csize self (final_size OR C_INUSE) st;
            st = set_psize nxt (final_size OR C_INUSE) st;
            i = bin_index final_size;
            st = lock_bin S i st
        in if psize st self AND csize st nxt AND C_INUSE \<noteq> 0
           then Some (self, nxt, final_size, reclaim, i, st)
           else do {
             (self, nxt, final_size, reclaim, st) \<leftarrow>
               free_merge S new_size (self, nxt, final_size, reclaim, unlock_bin i st);
             free_loop S new_size self nxt final_size reclaim st })
     else do {
       (self, nxt, final_size, reclaim, st) \<leftarrow> free_merge S new_size (self, nxt, final_size, reclaim, st);
       free_loop S new_size self nxt final_size reclaim st })"

definition os_call :: "('o \<times> memory \<Rightarrow> 'o \<times> memory) \<Rightarrow> 'o mstate \<Rightarrow> 'o mstate" where
  "os_call f st = (let (os', mem') = f (os st, mem st) in st\<lparr>os := os', mem := mem'\<rparr>)"

definition insert_bin :: "'o sys \<Rightarrow> word64 \<Rightarrow> nat \<Rightarrow> 'o mstate \<Rightarrow> 'o mstate" where
  "insert_bin S self i st0 =
    (let st = set_next self (BIN_TO_CHUNK S i) st0;
         st = set_prev self (bin_tail S st i) st;
         st = set_prev (next_of st self) self st
     in set_next (prev_of st self) self st)"

definition free :: "'o sys \<Rightarrow> word64 \<Rightarrow> 'o mstate \<Rightarrow> (fault + 'o mstate) option" where
  "free S p st0 =
    (let self = MEM_TO_CHUNK p in
     if p = 0 then Some (Inr st0)
     else if IS_MMAPPED st0 self then
       (let extra = psize st0 self; base = self - extra; len = CHUNK_SIZE st0 self + extra
        in if extra AND 1 \<noteq> 0 then Some (Inl A_CRASH)
           else Some (Inr (os_call (sys_munmap S base len) st0)))
     else
       (let new_size = CHUNK_SIZE st0 self; nxt = NEXT_CHUNK st0 self
        in if psize st0 nxt \<noteq> csize st0 self then Some (Inl A_CRASH)
           else do {
             (self, nxt, final_size, reclaim, i, st) \<leftarrow> free_loop S new_size self nxt new_size False st0;
             let st = (if binmap st AND push_bit i 1 = 0 then st\<lparr>binmap := binmap st OR push_bit i 1\<rparr> else st);
             let st = set_csize self final_size st;
             let st = set_psize nxt final_size st;
             let st = insert_bin S self i st;
             let st = (if reclaim then
                 (let a = (self + SIZE_ALIGN + PAGE_SIZE S - 1) AND (- PAGE_SIZE S);
                      b = (nxt - SIZE_ALIGN) AND (- PAGE_SIZE S)
                  in os_call (sys_madvise S a (b - a)) st)
               else st);
             Some (Inr (unlock_bin i st)) }))"

definition trim :: "'o sys \<Rightarrow> word64 \<Rightarrow> word64 \<Rightarrow> 'o mstate \<Rightarrow> (fault + 'o mstate) option" where
  "trim S self n st0 =
    (let n1 = CHUNK_SIZE st0 self in
     if n \<ge> n1 - DONTCARE then Some (Inr st0)
     else let nxt = NEXT_CHUNK st0 self;
              split = self + n;
              st = set_psize split (n OR C_INUSE) st0;
              st = set_csize split ((n1 - n) OR C_INUSE) st;
              st = set_psize nxt ((n1 - n) OR C_INUSE) st;
              st = set_csize self (n OR C_INUSE) st
          in free S (CHUNK_TO_MEM split) st)"


text \<open>The search of \<open>malloc\<close> for a chunk: a chunk pointer, 0 when the heap cannot grow.\<close>

definition grow :: "'o sys \<Rightarrow> word64 \<Rightarrow> 'o mstate \<Rightarrow> (word64 \<times> 'o mstate) option" where
  "grow S n st0 = (let (c, st) = expand_heap S n st0 in
     if c = 0 then Some (0, st)
     else do {
       (b, st) \<leftarrow> alloc_rev S c st;
       if b then
         (let x = c;
              c = PREV_CHUNK st c;
              v = csize st x + CHUNK_SIZE st c;
              st = set_csize c v st
          in Some (c, set_psize (NEXT_CHUNK st x) v st))
       else Some (c, st) })"

partial_function (option) malloc_loop :: "'o sys \<Rightarrow> word64 \<Rightarrow> nat \<Rightarrow> 'o mstate \<Rightarrow> (word64 \<times> 'o mstate) option" where
  [code]: "malloc_loop S n i st =
    (let mask = binmap st AND (- push_bit i 1) in
     if mask = 0 then grow S n st
     else let j = first_set mask;
              st = lock_bin S j st;
              c = bin_head S st j
          in if c \<noteq> BIN_TO_CHUNK S j then
               (let (b, st) = pretrim c n i j st;
                    st = (if \<not> b then unbin c j st else st)
                in Some (c, unlock_bin j st))
             else malloc_loop S n i (unlock_bin j st))"

definition malloc :: "'o sys \<Rightarrow> word64 \<Rightarrow> 'o mstate \<Rightarrow> (fault + word64 \<times> 'o mstate) option" where
  "malloc S n0 st0 = (case adjust_size S n0 st0 of
      (None, st) \<Rightarrow> Some (Inr (0, st))
    | (Some n, st) \<Rightarrow>
        if n > MMAP_THRESHOLD then
          (let len = (n + OVERHEAD + PAGE_SIZE S - 1) AND (- PAGE_SIZE S);
               (base, os', mem') = sys_mmap S len (os st, mem st);
               st = st\<lparr>os := os', mem := mem'\<rparr>
           in if base = -1 then Some (Inr (0, st))
              else let c = base + SIZE_ALIGN - OVERHEAD;
                       st = set_csize c (len - (SIZE_ALIGN - OVERHEAD)) st;
                       st = set_psize c (SIZE_ALIGN - OVERHEAD) st
                   in Some (Inr (CHUNK_TO_MEM c, st)))
        else do {
          (c, st) \<leftarrow> malloc_loop S n (bin_index_up n) st;
          if c = 0 then Some (Inr (0, st))
          else do {
            r \<leftarrow> trim S c n st;
            Some (case r of Inl e \<Rightarrow> Inl e | Inr st \<Rightarrow> Inr (CHUNK_TO_MEM c, st)) } })"

primrec zero_words :: "nat \<Rightarrow> word64 \<Rightarrow> memory \<Rightarrow> memory" where
  "zero_words 0 z m = m"
| "zero_words (Suc n) z m = zero_words n (z + 8) (if m z \<noteq> 0 then m(z := 0) else m)"

definition malloc0 :: "'o sys \<Rightarrow> word64 \<Rightarrow> 'o mstate \<Rightarrow> (fault + word64 \<times> 'o mstate) option" where
  "malloc0 S n st0 = do {
     r \<leftarrow> malloc S n st0;
     Some (case r of Inl e \<Rightarrow> Inl e
       | Inr (p, st) \<Rightarrow>
           if p \<noteq> 0 \<and> \<not> IS_MMAPPED st (MEM_TO_CHUNK p)
           then Inr (p, st\<lparr>mem := zero_words (unat ((n + 8 - 1) div 8)) p (mem st)\<rparr>)
           else Inr (p, st)) }"

primrec copy_words :: "nat \<Rightarrow> word64 \<Rightarrow> word64 \<Rightarrow> memory \<Rightarrow> memory" where
  "copy_words 0 d s m = m"
| "copy_words (Suc n) d s m = copy_words n (d + 8) (s + 8) (m(d := m s))"

definition memcpy :: "word64 \<Rightarrow> word64 \<Rightarrow> word64 \<Rightarrow> 'o mstate \<Rightarrow> 'o mstate" where
  "memcpy d s n st = st\<lparr>mem := copy_words (unat n div 8) d s (mem st)\<rparr>"

text \<open>The end of \<open>realloc\<close>: copy to a new chunk and free the old one.\<close>

definition copy_realloc :: "'o sys \<Rightarrow> word64 \<Rightarrow> word64 \<Rightarrow> word64 \<Rightarrow> word64 \<Rightarrow> 'o mstate
    \<Rightarrow> (fault + word64 \<times> 'o mstate) option" where
  "copy_realloc S p self n n0 st0 = do {
     r \<leftarrow> malloc S (n - OVERHEAD) st0;
     (case r of Inl e \<Rightarrow> Some (Inl e)
      | Inr (new, st) \<Rightarrow>
          if new = 0 then Some (Inr (0, st))
          else do {
            f \<leftarrow> free S (CHUNK_TO_MEM self) (memcpy new p (n0 - OVERHEAD) st);
            Some (case f of Inl e \<Rightarrow> Inl e | Inr st \<Rightarrow> Inr (new, st)) }) }"

definition realloc_mmapped :: "'o sys \<Rightarrow> word64 \<Rightarrow> word64 \<Rightarrow> word64 \<Rightarrow> 'o mstate
    \<Rightarrow> (fault + word64 \<times> 'o mstate) option" where
  "realloc_mmapped S p self n st0 =
    (let n0 = CHUNK_SIZE st0 self;
         extra = psize st0 self;
         base = self - extra;
         oldlen = n0 + extra;
         newlen = n + extra;
         remap = (\<lambda>st.
           let newlen = (newlen + PAGE_SIZE S - 1) AND (- PAGE_SIZE S) in
           if oldlen = newlen then Some (Inr (p, st))
           else let (base, os', mem') = sys_mremap S base oldlen newlen (os st, mem st);
                    st = st\<lparr>os := os', mem := mem'\<rparr>
                in if base = -1 then copy_realloc S p self n n0 st
                   else let self = base + extra
                        in Some (Inr (CHUNK_TO_MEM self, set_csize self (newlen - extra) st)))
     in if extra AND 1 \<noteq> 0 then Some (Inl A_CRASH)
        else if newlen < PAGE_SIZE S then do {
          r \<leftarrow> malloc S n st0;
          (case r of Inl e \<Rightarrow> Some (Inl e)
           | Inr (new, st) \<Rightarrow>
               if new \<noteq> 0 then do {
                 f \<leftarrow> free S p (memcpy new p (n - OVERHEAD) st);
                 Some (case f of Inl e \<Rightarrow> Inl e | Inr st \<Rightarrow> Inr (new, st)) }
               else remap st) }
        else remap st0)"

definition realloc :: "'o sys \<Rightarrow> word64 \<Rightarrow> word64 \<Rightarrow> 'o mstate \<Rightarrow> (fault + word64 \<times> 'o mstate) option" where
  "realloc S p n st0 =
    (if p = 0 then malloc S n st0
     else (case adjust_size S n st0 of
        (None, st) \<Rightarrow> Some (Inr (0, st))
      | (Some n, st) \<Rightarrow>
          (let self = MEM_TO_CHUNK p; n0 = CHUNK_SIZE st self in
           if IS_MMAPPED st self then realloc_mmapped S p self n st
           else let nxt = NEXT_CHUNK st self in
             if psize st nxt \<noteq> csize st self then Some (Inl A_CRASH)
             else do {
               (n1, nxt, st) \<leftarrow> (if n > n0 then do {
                   (b, st) \<leftarrow> alloc_fwd S nxt st;
                   Some (if b then (n0 + CHUNK_SIZE st nxt, NEXT_CHUNK st nxt, st) else (n0, nxt, st)) }
                 else Some (n0, nxt, st));
               let st = set_csize self (n1 OR C_INUSE) st;
               let st = set_psize nxt (n1 OR C_INUSE) st;
               if n \<le> n1 then do {
                 r \<leftarrow> trim S self n st;
                 Some (case r of Inl e \<Rightarrow> Inl e | Inr st \<Rightarrow> Inr (CHUNK_TO_MEM self, st)) }
               else copy_realloc S p self n n0 st })))"

end
