(* ===== verification/Malloc_Sizes.thy ===== *)
theory Malloc_Sizes
  imports Malloc
begin

unbundle bit_operations_syntax

text \<open>
  Sizes and bin numbers of \<^verbatim>\<open>src/examples/malloc.c\<close>: monotonicity of \<open>bin_index\<close>, the covering
  property of \<open>bin_index_up\<close>, and the rounding of requests by \<open>adjust_size\<close>.
\<close>

section \<open>Bin indices\<close>

text \<open>The bin of a chunk as a function of its number of 32-byte units, less one.\<close>

definition bin_of_units :: "nat \<Rightarrow> nat" where
  "bin_of_units x = (if x \<le> 32 then x else if x < 512 then bin_tab ! (x div 8 - 4)
     else if x > 7168 then 63 else bin_tab ! (x div 128 - 4) + 16)"

lemma length_bin_tab [simp]: "length bin_tab = 60"
  by (simp add: bin_tab_def)

lemma sorted_bin_tab: "sorted bin_tab"
  by code_simp

lemma bin_tab_bounds: "i < 60 \<Longrightarrow> 32 \<le> bin_tab ! i \<and> bin_tab ! i \<le> 47"
proof -
  assume i: "i < 60"
  have "bin_tab ! 0 \<le> bin_tab ! i" "bin_tab ! i \<le> bin_tab ! 59"
    using i sorted_bin_tab by (auto intro!: sorted_nth_mono)
  then show ?thesis by (simp add: bin_tab_def)
qed

lemma bin_tab_index: "x < 512 \<Longrightarrow> x div 8 - 4 < (60 :: nat)" "x \<le> 7168 \<Longrightarrow> x div 128 - 4 < (60 :: nat)"
  by linarith+

lemma unat_pred: "0 < unat x \<Longrightarrow> unat (x - 1) = unat x - 1" for x :: word64
  by (subst unat_sub) (auto simp: word_le_nat_alt)

lemma unat_units:
  assumes "SIZE_ALIGN \<le> x"
  shows "unat (x div SIZE_ALIGN - 1) = unat x div 32 - 1"
proof -
  have "unat (x div SIZE_ALIGN) = unat x div 32" by (simp add: unat_div SIZE_ALIGN_def)
  moreover have "1 \<le> unat x div 32"
    using assms by (simp add: SIZE_ALIGN_def word_le_nat_alt)
  ultimately show ?thesis by (simp add: unat_pred)
qed

lemma unat_small_div:
  "unat (x div 8 - 4 :: word64) = unat x div 8 - 4" if "32 \<le> unat x"
  using that by (subst unat_sub) (auto simp: word_le_nat_alt unat_div)

lemma unat_large_div:
  "unat (x div 128 - 4 :: word64) = unat x div 128 - 4" if "512 \<le> unat x"
  using that by (subst unat_sub) (auto simp: word_le_nat_alt unat_div)

lemma bin_index_units: "SIZE_ALIGN \<le> x \<Longrightarrow> bin_index x = bin_of_units (unat x div 32 - 1)"
  unfolding bin_index_def bin_of_units_def Let_def
  using unat_units [of x] unat_small_div [of "x div SIZE_ALIGN - 1"] unat_large_div [of "x div SIZE_ALIGN - 1"]
  by (auto simp: word_le_nat_alt word_less_nat_alt not_le not_less)

lemma bin_of_units_mono: "x \<le> y \<Longrightarrow> bin_of_units x \<le> bin_of_units y"
proof -
  assume xy: "x \<le> y"
  have tab: "bin_tab ! i \<le> bin_tab ! j" if "i \<le> j" "j < 60" for i j
    using that sorted_bin_tab by (auto intro: sorted_nth_mono)
  have b: "32 \<le> bin_tab ! i" "bin_tab ! i \<le> 47" if "i < 60" for i using bin_tab_bounds [OF that] by auto
  consider "y \<le> 32" | "x \<le> 32" "32 < y" | "32 < x" "y < 512" | "32 < x" "x < 512" "512 \<le> y"
    | "512 \<le> x" "y \<le> 7168" | "512 \<le> x" "7168 < y" by linarith
  then show ?thesis
  proof cases
    case 1
    then show ?thesis using xy by (simp add: bin_of_units_def)
  next
    case 2
    then show ?thesis
      using b(1) [of "y div 8 - 4"] b(1) [of "y div 128 - 4"] bin_tab_index [of y]
      by (auto simp: bin_of_units_def not_less)
  next
    case 3
    then show ?thesis using xy tab [of "x div 8 - 4" "y div 8 - 4"] bin_tab_index [of y]
      by (auto simp: bin_of_units_def div_le_mono diff_le_mono)
  next
    case 4
    then show ?thesis using b(2) [of "x div 8 - 4"] b(1) [of "y div 128 - 4"] bin_tab_index [of x] bin_tab_index [of y]
      by (auto simp: bin_of_units_def not_less)
  next
    case 5
    then show ?thesis using xy tab [of "x div 128 - 4" "y div 128 - 4"] bin_tab_index [of y]
      by (auto simp: bin_of_units_def div_le_mono diff_le_mono)
  next
    case 6
    then show ?thesis using b(2) [of "x div 128 - 4"] bin_tab_index [of x]
      by (auto simp: bin_of_units_def not_less)
  qed
qed

lemma bin_of_units_less: "bin_of_units x < 64"
proof -
  have "bin_of_units x \<le> bin_of_units (max x 7169)" by (rule bin_of_units_mono) simp
  also have "bin_of_units (max x 7169) = 63" by (simp add: bin_of_units_def max_def)
  finally show ?thesis by simp
qed

lemma bin_index_less: "bin_index x < 64"
proof (cases "SIZE_ALIGN \<le> x")
  case True
  then show ?thesis by (simp add: bin_index_units bin_of_units_less)
next
  case False
  then have "x div SIZE_ALIGN = 0"
    by (simp add: word_arith_nat_div word_le_nat_alt SIZE_ALIGN_def)
  moreover have "unat (- 1 :: word64) = 2 ^ 64 - 1" by (simp add: unsigned_minus_1_eq_mask mask_eq_exp_minus_1)
  ultimately show ?thesis by (simp add: bin_index_def Let_def word_le_nat_alt word_less_nat_alt)
qed

lemma bin_index_up_units:
  assumes "SIZE_ALIGN \<le> n" and "n \<le> MMAP_THRESHOLD"
  shows "let x = unat n div 32 - 1 in bin_index_up n =
    (if x \<le> 32 then x else if x - 1 < 512 then bin_tab ! ((x - 1) div 8 - 4) + 1
     else bin_tab ! ((x - 1) div 128 - 4) + 17)"
proof -
  let ?x = "n div SIZE_ALIGN - 1"
  have u: "unat ?x = unat n div 32 - 1" using assms(1) by (rule unat_units)
  have s: "unat (?x - 1) = unat ?x - 1" if "\<not> ?x \<le> 32"
    using that by (intro unat_pred) (simp add: word_le_nat_alt)
  show ?thesis
    unfolding bin_index_up_def Let_def
    using u s unat_small_div [of "?x - 1"] unat_large_div [of "?x - 1"]
    by (auto simp: word_le_nat_alt word_less_nat_alt not_le not_less)
qed

lemma bin_index_up_covers_units:
  assumes "SIZE_ALIGN \<le> n" and "n \<le> MMAP_THRESHOLD" and "y < unat n div 32 - 1"
  shows "bin_of_units y < bin_index_up n"
proof -
  define x where "x = unat n div 32 - 1"
  have x: "x < 7168"
    using assms(2) by (simp add: x_def MMAP_THRESHOLD_def SIZE_ALIGN_def word_le_nat_alt)
  have up: "bin_index_up n = (if x \<le> 32 then x else if x - 1 < 512 then bin_tab ! ((x - 1) div 8 - 4) + 1
     else bin_tab ! ((x - 1) div 128 - 4) + 17)"
    using bin_index_up_units [OF assms(1,2)] by (simp add: x_def Let_def)
  have "bin_of_units y \<le> bin_of_units (x - 1)"
    using assms(3) by (intro bin_of_units_mono) (simp add: x_def)
  also have "\<dots> < bin_index_up n"
  proof (cases "x \<le> 32")
    case True
    moreover have "0 < x" using assms(3) by (simp add: x_def)
    ultimately show ?thesis by (auto simp: up bin_of_units_def)
  next
    case False
    with x bin_tab_bounds [of "(x - 1) div 8 - 4"] bin_tab_index(1) [of "x - 1"] show ?thesis
      by (auto simp: up bin_of_units_def)
  qed
  finally show ?thesis .
qed

lemma bin_index_up_in_table:
  assumes "SIZE_ALIGN \<le> n" and "n \<le> MMAP_THRESHOLD"
  shows "bin_index_up n < 64"
    and "let x = unat n div 32 - 1 - 1 in x < 512 \<longrightarrow> x div 8 - 4 < length bin_tab"
    and "let x = unat n div 32 - 1 - 1 in x div 128 - 4 < length bin_tab"
proof -
  define x where "x = unat n div 32 - 1"
  have x: "x < 7168"
    using assms(2) by (simp add: x_def MMAP_THRESHOLD_def SIZE_ALIGN_def word_le_nat_alt)
  have up: "bin_index_up n = (if x \<le> 32 then x else if x - 1 < 512 then bin_tab ! ((x - 1) div 8 - 4) + 1
     else bin_tab ! ((x - 1) div 128 - 4) + 17)"
    using bin_index_up_units [OF assms(1,2)] by (simp add: x_def Let_def)
  have idx: "(x - 1) div 128 - 4 \<le> 51" using x by linarith
  have "bin_tab ! ((x - 1) div 128 - 4) \<le> bin_tab ! 51"
    using idx sorted_bin_tab by (auto intro!: sorted_nth_mono)
  also have "bin_tab ! 51 = 46" by (simp add: bin_tab_def)
  finally show "bin_index_up n < 64"
    using bin_tab_bounds [of "(x - 1) div 8 - 4"] bin_tab_index(1) [of "x - 1"] by (auto simp: up)
  show "let x = unat n div 32 - 1 - 1 in x < 512 \<longrightarrow> x div 8 - 4 < length bin_tab"
    by (auto simp: Let_def)
  show "let x = unat n div 32 - 1 - 1 in x div 128 - 4 < length bin_tab"
    unfolding x_def [symmetric] Let_def length_bin_tab using idx by linarith
qed

lemma bin_index_up_covers:
  assumes "SIZE_ALIGN \<le> n" and "n \<le> MMAP_THRESHOLD" and "unat n mod 32 = 0" and "SIZE_ALIGN \<le> m"
    and "bin_index_up n \<le> bin_index m"
  shows "n \<le> m"
proof -
  have "\<not> unat m div 32 - 1 < unat n div 32 - 1"
    using bin_index_up_covers_units [OF assms(1,2), of "unat m div 32 - 1"] assms(5)
      bin_index_units [OF assms(4)] by linarith
  moreover have "1 \<le> unat n div 32" "1 \<le> unat m div 32"
    using assms(1,4) by (simp_all add: SIZE_ALIGN_def word_le_nat_alt)
  ultimately have "unat n div 32 \<le> unat m div 32" by linarith
  moreover have "unat n = 32 * (unat n div 32)" using assms(3) by auto
  moreover have "32 * (unat m div 32) \<le> unat m" by simp
  ultimately have "unat n \<le> unat m" by linarith
  then show ?thesis by (simp add: word_le_nat_alt)
qed

text \<open>
  C34. A chunk found in any bin from \<open>bin_index_up n\<close> on is big enough for a request of \<open>n\<close> bytes:
  the bins are ordered by size and the upward index skips the bin that could hold a smaller
  chunk. Both indices are always bin numbers.
\<close>

theorem bin_index_up_sufficient:
  assumes "SIZE_ALIGN \<le> n" and "n \<le> MMAP_THRESHOLD" and "unat n mod 32 = 0" and "SIZE_ALIGN \<le> m"
    and "bin_index_up n \<le> bin_index m"
  shows "n \<le> m \<and> bin_index m < 64 \<and> bin_index_up n < 64"
  using bin_index_up_covers [OF assms] bin_index_less [of m] bin_index_up_in_table(1) [OF assms(1,2)] by simp

theorem bin_index_up_sufficient_witness:
  "bin_index_up 2048 = 36 \<and> bin_index 2304 = 36 \<and> (2048 :: word64) \<le> 2304"
  using bin_index_up_sufficient [of 2048 2304]
  by (simp add: malloc_consts bin_index_def bin_index_up_def bin_tab_def)

section \<open>Request sizes\<close>

text \<open>What the allocator relies on of the page size: a power of two, neither tiny nor huge.\<close>

definition page_ok :: "'o sys \<Rightarrow> bool" where
  "page_ok S \<longleftrightarrow> (\<exists>k \<in> {12..20}. unat (PAGE_SIZE S) = 2 ^ k)"

lemma page_bounds: "page_ok S \<Longrightarrow> 4096 \<le> unat (PAGE_SIZE S) \<and> unat (PAGE_SIZE S) \<le> 1048576"
proof -
  assume "page_ok S"
  then obtain k where k: "12 \<le> k" "k \<le> 20" "unat (PAGE_SIZE S) = 2 ^ k" by (auto simp: page_ok_def)
  with power_increasing [of 12 k "2 :: nat"] power_increasing [of k 20 "2 :: nat"] show ?thesis by simp
qed

lemma and_size_mask: "unat (x AND SIZE_MASK) = 32 * (unat x div 32)"
proof -
  have "x AND SIZE_MASK = push_bit 5 (drop_bit 5 x)"
  proof (rule bit_word_eqI)
    fix n assume "n < LENGTH(64)"
    have sm: "SIZE_MASK = NOT (mask 5)" using minus_exp_eq_not_mask [of 5, where ?'a = word64] by (simp add: SIZE_MASK_def SIZE_ALIGN_def)
    show "bit (x AND SIZE_MASK) n \<longleftrightarrow> bit (push_bit 5 (drop_bit 5 x)) n"
      unfolding sm using \<open>n < LENGTH(64)\<close> by (auto simp: bit_simps)
  qed
  also have "unat \<dots> = 32 * (unat x div 32)"
  proof -
    have "unat (drop_bit 5 x) = unat x div 32" by (simp add: drop_bit_eq_div unat_div)
    moreover have "32 * (unat x div 32) < 2 ^ 64" using unsigned_less [of x, where ?'a = nat] by simp
    ultimately show ?thesis by (simp add: push_bit_eq_mult unat_word_ariths)
  qed
  finally show ?thesis .
qed

text \<open>
  \<open>adjust_size\<close> turns a request into a chunk size: it fails, with \<open>errno\<close> set, exactly on the
  sizes above \<open>PTRDIFF_MAX - SIZE_ALIGN - PAGE_SIZE\<close> (plus one), a request of 0 gives the least chunk, and
  otherwise the result is the least multiple of 32 that holds the request and the 16 bytes of
  overhead, without wrap-around.
\<close>

theorem adjust_size_spec:
  assumes "page_ok S"
  shows "adjust_size S n st =
    (if unat n > 2 ^ 63 - 32 - unat (PAGE_SIZE S) then (None, st\<lparr>errno_ENOMEM := True\<rparr>)
     else (Some (if n = 0 then 32 else of_nat (32 * ((unat n + 47) div 32))), st))
    \<and> (\<forall>m st'. adjust_size S n st = (Some m, st') \<longrightarrow>
         unat m mod 32 = 0 \<and> unat n + (if n = 0 then 32 else 16) \<le> unat m \<and> unat m < unat n + 48
         \<and> SIZE_ALIGN \<le> m)"
proof -
  note pb = page_bounds [OF assms]
  have lim: "unat (PTRDIFF_MAX - SIZE_ALIGN - PAGE_SIZE S) = 2 ^ 63 - 1 - 32 - unat (PAGE_SIZE S)"
  proof -
    have "unat (PTRDIFF_MAX - SIZE_ALIGN) = 2 ^ 63 - 1 - 32"
      by (simp add: PTRDIFF_MAX_def SIZE_ALIGN_def)
    then show ?thesis
      using pb by (subst unat_sub) (auto simp: word_le_nat_alt)
  qed
  consider "n = 0" | "n \<noteq> 0" "unat n > 2 ^ 63 - 32 - unat (PAGE_SIZE S)"
    | "n \<noteq> 0" "unat n \<le> 2 ^ 63 - 32 - unat (PAGE_SIZE S)" by linarith
  then show ?thesis
  proof cases
    case 1
    have "unat (- 1 :: word64) = 2 ^ 64 - 1" by (simp add: unsigned_minus_1_eq_mask mask_eq_exp_minus_1)
    with 1 lim have "n - 1 > PTRDIFF_MAX - SIZE_ALIGN - PAGE_SIZE S" by (simp add: word_less_nat_alt)
    with 1 show ?thesis by (auto simp: adjust_size_def SIZE_ALIGN_def)
  next
    case 2
    then have "0 < unat n" by (simp add: unat_gt_0)
    with 2 lim pb have "n - 1 > PTRDIFF_MAX - SIZE_ALIGN - PAGE_SIZE S"
      by (simp add: word_less_nat_alt unat_pred) linarith
    with 2 show ?thesis by (auto simp: adjust_size_def)
  next
    case 3
    then have pos: "0 < unat n" by (simp add: unat_gt_0)
    have ok: "\<not> n - 1 > PTRDIFF_MAX - SIZE_ALIGN - PAGE_SIZE S"
      using 3 lim pb pos by (simp add: word_less_nat_alt unat_pred)
    have small: "unat n + 47 < 2 ^ 64" using 3 by simp
    have eq: "n + OVERHEAD + SIZE_ALIGN - 1 = of_nat (unat n + 47)"
      by (simp add: OVERHEAD_def SIZE_ALIGN_def)
    have "unat (n + OVERHEAD + SIZE_ALIGN - 1) = unat n + 47"
      unfolding eq unat_of_nat using small by simp
    then have m: "unat ((n + OVERHEAD + SIZE_ALIGN - 1) AND SIZE_MASK) = 32 * ((unat n + 47) div 32)"
      by (simp add: and_size_mask)
    then have m': "(n + OVERHEAD + SIZE_ALIGN - 1) AND SIZE_MASK = of_nat (32 * ((unat n + 47) div 32))"
      by (metis of_nat_unat ucast_id)
    have "SIZE_ALIGN \<le> (n + OVERHEAD + SIZE_ALIGN - 1) AND SIZE_MASK"
      using m pos by (simp add: word_le_nat_alt SIZE_ALIGN_def)
    with 3 ok m m' show ?thesis by (auto simp: adjust_size_def; linarith)
  qed
qed

definition example_sys :: "unit sys" where
  "example_sys = \<lparr>PAGE_SIZE = 4096, bins_addr = 0x1000,
     sys_expand_heap = (\<lambda>n (u, m). (Some (0x100000, n), u, m)),
     sys_mmap = (\<lambda>len (u, m). (0x700000, u, m)),
     sys_mremap = (\<lambda>base old new (u, m). (- 1, u, m)),
     sys_munmap = (\<lambda>base len s. s), sys_madvise = (\<lambda>a len s. s)\<rparr>"

definition empty_mstate :: "unit mstate" where
  "empty_mstate = \<lparr>mem = (\<lambda>_. 0), binmap = 0, heap_end = 0, errno_ENOMEM = False, os = ()\<rparr>"

lemma example_page_ok: "page_ok example_sys"
  unfolding page_ok_def by (rule bexI [of _ 12]) (simp_all add: example_sys_def)

theorem adjust_size_spec_witness:
  "page_ok example_sys \<and> adjust_size example_sys 100 empty_mstate = (Some 128, empty_mstate)"
  using adjust_size_spec [OF example_page_ok, of 100 empty_mstate] example_page_ok
  by (simp add: example_sys_def)

end
