(* ===== verification/Malloc_Bins.thy ===== *)
theory Malloc_Bins
  imports Malloc_Sizes
begin

unbundle bit_operations_syntax

text \<open>
  The bins of \<^verbatim>\<open>src/examples/malloc.c\<close> as rings in memory: \<open>unbin\<close> and the insertion of \<open>free\<close>
  refine removal from and appending to a list, and the search of \<open>malloc\<close> finds a chunk that is
  big enough.
\<close>

section \<open>Rings\<close>

text \<open>
  A bin is a ring: the sentinel \<open>BIN_TO_CHUNK i\<close>, then its chunks, then the sentinel again.
  \<open>linked\<close> says that successive nodes point at each other.
\<close>

fun linked :: "('a \<Rightarrow> 'a) \<Rightarrow> ('a \<Rightarrow> 'a) \<Rightarrow> 'a list \<Rightarrow> bool" where
  "linked nx pv (x # y # zs) \<longleftrightarrow> nx x = y \<and> pv y = x \<and> linked nx pv (y # zs)"
| "linked nx pv _ \<longleftrightarrow> True"

lemma linked_append: "linked nx pv (xs @ y # zs) \<longleftrightarrow> linked nx pv (xs @ [y]) \<and> linked nx pv (y # zs)"
proof (induction xs)
  case Nil
  then show ?case by simp
next
  case (Cons x xs)
  then show ?case by (cases xs) auto
qed

lemma linked_cong:
  "(\<And>x. x \<in> set (butlast zs) \<Longrightarrow> nx x = nx' x) \<Longrightarrow> (\<And>x. x \<in> set (tl zs) \<Longrightarrow> pv x = pv' x)
    \<Longrightarrow> linked nx pv zs \<longleftrightarrow> linked nx' pv' zs"
proof (induction nx pv zs rule: linked.induct)
  case (1 nx pv x y zs)
  have "linked nx pv (y # zs) = linked nx' pv' (y # zs)"
    using 1(2,3) by (intro 1(1)) (auto split: if_splits)
  with 1(2) [of x] 1(3) [of y] show ?case by simp
qed auto

lemma linked_upd:
  "p \<notin> set (butlast zs) \<Longrightarrow> linked (nx(p := v)) pv zs = linked nx pv zs"
  "q \<notin> set (tl zs) \<Longrightarrow> linked nx (pv(q := v)) zs = linked nx pv zs"
  by (auto intro!: linked_cong)

definition ring :: "('a \<Rightarrow> 'a) \<Rightarrow> ('a \<Rightarrow> 'a) \<Rightarrow> 'a \<Rightarrow> 'a list \<Rightarrow> bool" where
  "ring nx pv b cs \<longleftrightarrow> distinct (b # cs) \<and> linked nx pv (b # cs @ [b])"

lemma ring_split:
  assumes "ring nx pv b (xs @ c # ys)"
  obtains us p q vs where "b # xs = us @ [p]" "ys @ [b] = q # vs" "linked nx pv (us @ p # c # q # vs)"
    "pv c = p" "nx c = q"
proof -
  obtain us p where bx: "b # xs = us @ [p]" by (cases "b # xs" rule: rev_cases) auto
  obtain q vs where yb: "ys @ [b] = q # vs" by (cases "ys @ [b]") auto
  have "b # (xs @ c # ys) @ [b] = (b # xs) @ c # (ys @ [b])" by simp
  then have eq: "b # (xs @ c # ys) @ [b] = us @ p # c # q # vs" unfolding bx yb by simp
  have "linked nx pv (b # (xs @ c # ys) @ [b])" using assms by (simp add: ring_def)
  then have l: "linked nx pv (us @ p # c # q # vs)" unfolding eq .
  then have "linked nx pv (p # c # q # vs)" using linked_append [of nx pv us p] by blast
  then have "pv c = p" "nx c = q" by simp_all
  with bx yb l show thesis by (rule that)
qed

lemma ring_tail:
  assumes "ring nx pv b cs"
  obtains us p where "b # cs = us @ [p]" "linked nx pv (us @ [p, b])" "pv b = p"
proof -
  obtain us p where bx: "b # cs = us @ [p]" by (cases "b # cs" rule: rev_cases) auto
  have "b # cs @ [b] = (b # cs) @ [b]" by simp
  then have eq: "b # cs @ [b] = us @ [p, b]" unfolding bx by simp
  have "linked nx pv (b # cs @ [b])" using assms by (simp add: ring_def)
  then have l: "linked nx pv (us @ [p, b])" unfolding eq .
  then have "linked nx pv [p, b]" using linked_append [of nx pv us p] by blast
  then have "pv b = p" by simp
  with bx l show thesis by (rule that)
qed

lemma ring_head: "ring nx pv b cs \<Longrightarrow> nx b = (case cs of [] \<Rightarrow> b | c # _ \<Rightarrow> c)"
  by (cases cs) (auto simp: ring_def)

lemma ring_single_iff:
  assumes "ring nx pv b (xs @ c # ys)"
  shows "pv c = nx c \<longleftrightarrow> xs @ ys = []"
proof -
  obtain us p q vs where s: "b # xs = us @ [p]" "ys @ [b] = q # vs" "pv c = p" "nx c = q"
    using ring_split [OF assms] by metis
  have d: "distinct (b # xs)" "set ys \<inter> set (b # xs) = {}" using assms by (auto simp: ring_def)
  have p: "p \<in> set (b # xs)" using s(1) by simp
  show ?thesis
  proof
    assume "pv c = nx c"
    then have "p = q" using s by simp
    with p d(2) have "q \<notin> set ys" by auto
    with s(2) have ys: "ys = []" and "q = b" by (cases ys; auto)+
    with \<open>p = q\<close> s(1) d(1) have "xs = []" by (cases us) auto
    with ys show "xs @ ys = []" by simp
  next
    assume "xs @ ys = []"
    then show "pv c = nx c" using s by auto
  qed
qed

lemma ring_remove:
  assumes "ring nx pv b (xs @ c # ys)"
  shows "ring (nx(pv c := nx c)) (pv(nx c := pv c)) b (xs @ ys)"
proof -
  obtain us p q vs where s: "b # xs = us @ [p]" "ys @ [b] = q # vs" "linked nx pv (us @ p # c # q # vs)"
      "pv c = p" "nx c = q"
    using ring_split [OF assms] by metis
  have d: "distinct (b # xs)" "set ys \<inter> set (b # xs) = {}" "distinct ys" using assms by (auto simp: ring_def)
  have l: "linked nx pv (us @ [p])" "linked nx pv (p # c # q # vs)"
    using s(3) linked_append [of nx pv us p "c # q # vs"] by blast+
  have "tl (us @ [p]) = xs" using s(1) by (metis list.sel(3))
  moreover have "q \<notin> set xs"
    using d s(2) by (cases ys) auto
  moreover have "p \<notin> set us" using s(1) d(1) by (metis distinct_append distinct.simps(2) insertI1 list.simps(15) not_distinct_conv_prefix disjoint_iff)
  ultimately have l1: "linked (nx(p := q)) (pv(q := p)) (us @ [p])"
    using l(1) by (simp add: linked_upd)
  have "butlast (q # vs) = ys" using s(2) by (metis butlast_snoc)
  moreover have "p \<notin> set ys" using d(2) s(1) by auto
  moreover have "q \<notin> set vs" using s(2) d by (cases ys) auto
  ultimately have l2: "linked (nx(p := q)) (pv(q := p)) (q # vs)"
    using l(2) by (simp add: linked_upd del: fun_upd_apply)
  have "b # (xs @ ys) @ [b] = (b # xs) @ ys @ [b]" by simp
  then have eq: "b # (xs @ ys) @ [b] = us @ p # q # vs" unfolding s(1,2) by simp
  have "linked (nx(p := q)) (pv(q := p)) (us @ p # q # vs)"
    using l1 l2 by (subst linked_append) simp
  then show ?thesis using assms s(4,5) unfolding ring_def eq by simp
qed

lemma ring_append:
  assumes "ring nx pv b cs" and "c \<notin> set (b # cs)"
  shows "ring (nx(c := b, pv b := c)) (pv(c := pv b, b := c)) b (cs @ [c])"
proof -
  obtain us p where s: "b # cs = us @ [p]" "linked nx pv (us @ [p, b])" "pv b = p"
    using ring_tail [OF assms(1)] by metis
  have d: "distinct (b # cs)" using assms(1) by (simp add: ring_def)
  have l: "linked nx pv (us @ [p])" using s(2) linked_append [of nx pv us p "[b]"] by blast
  have "tl (us @ [p]) = cs" using s(1) by (metis list.sel(3))
  moreover have "p \<notin> set us" using d unfolding s(1) by simp
  moreover have "c \<notin> set (us @ [p])" using assms(2) unfolding s(1) .
  then have c: "c \<notin> set us" "c \<noteq> p" by auto
  moreover have "c \<notin> set cs" using assms(2) by simp
  moreover have "b \<notin> set cs" using d by simp
  ultimately have "linked (nx(c := b, p := c)) (pv(c := p, b := c)) (us @ [p])"
    using l by (simp add: linked_upd)
  moreover have "c \<noteq> b" using assms(2) by simp
  ultimately have l': "linked (nx(c := b, p := c)) (pv(c := p, b := c)) (us @ p # [c, b])"
    using c(2) by (subst linked_append) simp
  have "b # (cs @ [c]) @ [b] = (b # cs) @ [c, b]" by simp
  then have eq: "b # (cs @ [c]) @ [b] = us @ p # [c, b]" unfolding s(1) by simp
  have "distinct (b # cs @ [c])" using d assms(2) by auto
  then show ?thesis using l' unfolding ring_def eq s(3) by blast
qed

section \<open>Bins in memory\<close>

text \<open>
  The nodes of a ring must not overlap in their links: no node lies 8 bytes after another.
\<close>

definition separated :: "word64 set \<Rightarrow> bool" where
  "separated ns \<longleftrightarrow> (\<forall>c \<in> ns. \<forall>d \<in> ns. c + 8 \<noteq> d)"

definition bin_chunks :: "'o sys \<Rightarrow> 'o mstate \<Rightarrow> nat \<Rightarrow> word64 list \<Rightarrow> bool" where
  "bin_chunks S st i cs \<longleftrightarrow> ring (next_of st) (prev_of st) (BIN_TO_CHUNK S i) cs
     \<and> separated (set (BIN_TO_CHUNK S i # cs)) \<and> (bit (binmap st) i \<longleftrightarrow> cs \<noteq> [])"

lemmas field_defs = psize_def csize_def next_of_def prev_of_def set_psize_def set_csize_def set_next_def set_prev_def

lemma ring_cong:
  "(\<And>x. x \<in> set (b # cs) \<Longrightarrow> nx x = nx' x \<and> pv x = pv' x) \<Longrightarrow> ring nx pv b cs = ring nx' pv' b cs"
  unfolding ring_def by (intro conj_cong refl linked_cong) (auto dest: in_set_butlastD)

lemma next_of_upd:
  "next_of (set_next c v st) d = (if d = c then v else next_of st d)"
  "c + 8 \<noteq> d \<Longrightarrow> d + 8 \<noteq> c \<Longrightarrow> next_of (set_prev c v st) d = next_of st d"
  "prev_of (set_prev c v st) d = (if d = c then v else prev_of st d)"
  "c + 8 \<noteq> d \<Longrightarrow> d + 8 \<noteq> c \<Longrightarrow> prev_of (set_next c v st) d = prev_of st d"
  by (auto simp: field_defs algebra_simps)

definition clear_of_links :: "word64 set \<Rightarrow> word64 \<Rightarrow> bool" where
  "clear_of_links ns a \<longleftrightarrow> (\<forall>d \<in> ns. a \<noteq> d + 16 \<and> a \<noteq> d + 24)"

lemma links_of_size_writes:
  assumes "clear_of_links ns a" "d \<in> ns"
  shows "next_of (st\<lparr>mem := (mem st)(a := v)\<rparr>) d = next_of st d"
    and "prev_of (st\<lparr>mem := (mem st)(a := v)\<rparr>) d = prev_of st d"
  using assms by (auto simp: clear_of_links_def next_of_def prev_of_def)

lemma ring_nodes_closed:
  assumes "ring nx pv b cs" "x \<in> set (b # cs)"
  shows "nx x \<in> set (b # cs)" and "pv x \<in> set (b # cs)"
proof -
  have "nx x \<in> set (b # cs) \<and> pv x \<in> set (b # cs)"
  proof (cases "x = b")
    case True
    obtain us p where "b # cs = us @ [p]" "pv b = p" using ring_tail [OF assms(1)] by metis
    then have "pv b \<in> set (b # cs)" by simp
    with True ring_head [OF assms(1)] show ?thesis by (cases cs) auto
  next
    case False
    then obtain xs ys where cs: "cs = xs @ x # ys" using assms(2) by (auto dest: split_list)
    obtain us p q vs where s: "b # xs = us @ [p]" "ys @ [b] = q # vs" "pv x = p" "nx x = q"
      using ring_split [OF assms(1) [unfolded cs]] by metis
    have "p \<in> set (b # xs)" unfolding s(1) by simp
    moreover have "q \<in> set (ys @ [b])" unfolding s(2) by simp
    ultimately show ?thesis unfolding s(3,4) cs by auto
  qed
  then show "nx x \<in> set (b # cs)" "pv x \<in> set (b # cs)" by auto
qed

lemma bit_binmap_clear: "i < 64 \<Longrightarrow> bit ((m :: word64) AND NOT (2 ^ i)) j \<longleftrightarrow> bit m j \<and> j \<noteq> i"
  by (auto simp: bit_simps dest: bit_imp_le_length)

lemma bit_binmap_set: "i < 64 \<Longrightarrow> bit ((m :: word64) OR 2 ^ i) j \<longleftrightarrow> bit m j \<or> j = i"
  by (auto simp: bit_simps)

lemma bit_mask_above: "i < 64 \<Longrightarrow> bit ((m :: word64) AND (- (2 ^ i))) j \<longleftrightarrow> bit m j \<and> i \<le> j"
  unfolding minus_exp_eq_not_mask by (auto simp: bit_simps dest: bit_imp_le_length)

lemma chunk_size_inuse: "(x OR C_INUSE) AND (- 2) = (x :: word64) AND (- 2)"
proof -
  have m: "(- 2 :: word64) = NOT 1" by (simp add: not_eq_complement)
  show ?thesis unfolding m C_INUSE_def by (rule bit_word_eqI) (auto simp: bit_simps)
qed

lemma bin_ends: "bin_head S st i = next_of st (BIN_TO_CHUNK S i)" "bin_tail S st i = prev_of st (BIN_TO_CHUNK S i)"
  by (simp_all add: bin_head_def bin_tail_def next_of_def prev_of_def BIN_TO_CHUNK_def MEM_TO_CHUNK_def OVERHEAD_def
      algebra_simps)

lemma separated_upd:
  assumes "separated ns" "c \<in> ns" "d \<in> ns"
  shows "next_of (set_prev c v st) d = next_of st d" "prev_of (set_next c v st) d = prev_of st d"
  using assms by (auto simp: separated_def intro: next_of_upd)

lemma unbin_mem:
  assumes "p = prev_of st c" "q = next_of st c" "N = NEXT_CHUNK st c"
    and "c + 24 \<noteq> p + 16" "c + 8 \<noteq> p + 16" "c + 8 \<noteq> q + 24" "N \<noteq> p + 16" "N \<noteq> q + 24" "N \<noteq> c + 8"
  shows "mem (unbin c i st) = (mem st)(p + 16 := q, q + 24 := p, c + 8 := csize st c OR C_INUSE,
     N := psize st N OR C_INUSE)"
  using assms
  by (auto simp: unbin_def Let_def field_defs NEXT_CHUNK_def CHUNK_SIZE_def chunk_size_inuse)

text \<open>The header words that \<open>unbin\<close> writes are not links of the bin.\<close>

definition headers_clear :: "'o sys \<Rightarrow> 'o mstate \<Rightarrow> nat \<Rightarrow> word64 list \<Rightarrow> word64 \<Rightarrow> bool" where
  "headers_clear S st i cs c \<longleftrightarrow> clear_of_links (set (BIN_TO_CHUNK S i # cs)) (c + 8)
     \<and> clear_of_links (set (BIN_TO_CHUNK S i # cs)) (NEXT_CHUNK st c) \<and> NEXT_CHUNK st c \<noteq> c + 8"

lemma unbin_bin:
  assumes bin: "bin_chunks S st i (xs @ c # ys)" and i: "i < 64"
    and clear: "headers_clear S st i (xs @ c # ys) c"
  shows "bin_chunks S (unbin c i st) i (xs @ ys)"
    and "csize (unbin c i st) c = csize st c OR C_INUSE"
    and "psize (unbin c i st) (NEXT_CHUNK st c) = psize st (NEXT_CHUNK st c) OR C_INUSE"
    and "j \<noteq> i \<Longrightarrow> bit (binmap (unbin c i st)) j = bit (binmap st) j"
proof -
  define b ns p q N where "b = BIN_TO_CHUNK S i" and "ns = set (b # xs @ c # ys)"
    and "p = prev_of st c" and "q = next_of st c" and "N = NEXT_CHUNK st c"
  have r: "ring (next_of st) (prev_of st) b (xs @ c # ys)" and sep: "separated ns"
    and bm: "bit (binmap st) i"
    using bin by (auto simp: bin_chunks_def b_def ns_def)
  have mem: "c \<in> ns" "p \<in> ns" "q \<in> ns"
    using ring_nodes_closed [OF r, of c] by (auto simp: ns_def p_def q_def)
  have sepd: "x + 24 \<noteq> y + 16" if "x \<in> ns" "y \<in> ns" for x y
  proof
    assume "x + 24 = y + 16"
    then have "(x + 8) + 16 = y + 16" by simp
    then have "x + 8 = y" by (simp only: add_right_cancel)
    with sep that show False by (auto simp: separated_def)
  qed
  have cl: "c + 8 \<noteq> d + 16" "c + 8 \<noteq> d + 24" "N \<noteq> d + 16" "N \<noteq> d + 24" if "d \<in> ns" for d
    using clear that by (auto simp: headers_clear_def clear_of_links_def ns_def b_def N_def)
  have Nc: "N \<noteq> c + 8" using clear by (simp add: headers_clear_def N_def)
  have m: "mem (unbin c i st) = (mem st)(p + 16 := q, q + 24 := p, c + 8 := csize st c OR C_INUSE,
     N := psize st N OR C_INUSE)"
    by (rule unbin_mem) (use mem sepd cl Nc in \<open>auto simp: p_def q_def N_def\<close>)
  have nx: "next_of (unbin c i st) d = ((next_of st)(p := q)) d"
    and pv: "prev_of (unbin c i st) d = ((prev_of st)(q := p)) d" if "d \<in> ns" for d
  proof -
    note ne = cl(1) [OF that, symmetric] cl(2) [OF that, symmetric] cl(3) [OF that, symmetric] cl(4) [OF that, symmetric]
      sepd [OF mem(3) that] sepd [OF that mem(2)]
    show "next_of (unbin c i st) d = ((next_of st)(p := q)) d"
      unfolding next_of_def m by (simp add: ne ne(5) [symmetric])
    show "prev_of (unbin c i st) d = ((prev_of st)(q := p)) d"
      unfolding prev_of_def m by (simp add: ne)
  qed
  have "ring ((next_of st)(p := q)) ((prev_of st)(q := p)) b (xs @ ys)"
    using ring_remove [OF r] by (simp add: p_def q_def)
  moreover have sub: "x \<in> ns" if "x \<in> set (b # xs @ ys)" for x using that by (auto simp: ns_def)
  have "ring (next_of (unbin c i st)) (prev_of (unbin c i st)) b (xs @ ys)
      = ring ((next_of st)(p := q)) ((prev_of st)(q := p)) b (xs @ ys)"
    by (rule ring_cong) (use nx [OF sub] pv [OF sub] in blast)
  ultimately have "ring (next_of (unbin c i st)) (prev_of (unbin c i st)) b (xs @ ys)" by blast
  moreover have "separated (set (b # xs @ ys))"
    using sep by (auto simp: separated_def ns_def)
  moreover have bmap: "binmap (unbin c i st) = (if xs @ ys = [] then binmap st AND NOT (push_bit i 1) else binmap st)"
    using ring_single_iff [OF r] by (simp add: unbin_def Let_def field_defs)
  ultimately show "bin_chunks S (unbin c i st) i (xs @ ys)"
    using bm bit_binmap_clear [OF i] by (auto simp: bin_chunks_def b_def)
  show "csize (unbin c i st) c = csize st c OR C_INUSE"
    "psize (unbin c i st) (NEXT_CHUNK st c) = psize st (NEXT_CHUNK st c) OR C_INUSE"
    using Nc by (auto simp: csize_def psize_def m N_def)
  show "j \<noteq> i \<Longrightarrow> bit (binmap (unbin c i st)) j = bit (binmap st) j"
    by (simp add: bmap bit_binmap_clear [OF i])
qed

lemma insert_bin_bin:
  assumes r: "ring (next_of st) (prev_of st) (BIN_TO_CHUNK S i) cs"
    and sep: "separated (set (BIN_TO_CHUNK S i # cs @ [c]))" and c: "c \<notin> set (BIN_TO_CHUNK S i # cs)"
    and bm: "bit (binmap st) i"
  shows "bin_chunks S (insert_bin S c i st) i (cs @ [c])"
proof -
  define b ns p where "b = BIN_TO_CHUNK S i" and "ns = set (b # cs @ [c])" and "p = prev_of st b"
  have mem: "b \<in> ns" "c \<in> ns" "p \<in> ns"
    using ring_nodes_closed(2) [OF r, of b] by (auto simp: ns_def p_def b_def)
  have s: "separated ns" and cb: "c \<noteq> b" using sep c by (auto simp: ns_def b_def)
  note up = next_of_upd(1,3) separated_upd [OF s mem(1)] separated_upd [OF s mem(2)] separated_upd [OF s mem(3)]
  have tail: "prev_of (set_next c b st) b = p" using mem cb by (simp add: up p_def)
  have ins: "insert_bin S c i st = set_next p c (set_prev b c (set_prev c p (set_next c b st)))"
    using mem cb by (simp add: insert_bin_def Let_def bin_ends b_def [symmetric] tail up)
  have nx: "next_of (insert_bin S c i st) d = ((next_of st)(c := b, p := c)) d"
    and pv: "prev_of (insert_bin S c i st) d = ((prev_of st)(c := p, b := c)) d" if "d \<in> ns" for d
    using that mem by (auto simp: ins up)
  have "ring ((next_of st)(c := b, p := c)) ((prev_of st)(c := p, b := c)) b (cs @ [c])"
    using ring_append [OF r c] by (simp add: p_def b_def)
  moreover have sub: "x \<in> ns" if "x \<in> set (b # cs @ [c])" for x using that by (simp add: ns_def)
  have "ring (next_of (insert_bin S c i st)) (prev_of (insert_bin S c i st)) b (cs @ [c])
      = ring ((next_of st)(c := b, p := c)) ((prev_of st)(c := p, b := c)) b (cs @ [c])"
    by (rule ring_cong) (use nx [OF sub] pv [OF sub] in blast)
  ultimately have "ring (next_of (insert_bin S c i st)) (prev_of (insert_bin S c i st)) b (cs @ [c])" by blast
  moreover have "binmap (insert_bin S c i st) = binmap st"
    by (simp add: insert_bin_def Let_def field_defs)
  ultimately show ?thesis using s bm by (simp add: bin_chunks_def b_def ns_def)
qed

text \<open>
  C33. \<open>unbin\<close> refines the removal from a list: on a well-linked bin it takes exactly that chunk
  out of the ring, clears the bin's bit in the bin map exactly when the bin becomes empty, marks
  the chunk in use in its header and its footer, and leaves the other bits alone.
\<close>

theorem unbin_refines:
  assumes "i < 64" and "bin_chunks S st i (xs @ c # ys)" and "headers_clear S st i (xs @ c # ys) c"
  shows "bin_chunks S (unbin c i st) i (xs @ ys)
    \<and> csize (unbin c i st) c = csize st c OR C_INUSE
    \<and> psize (unbin c i st) (NEXT_CHUNK st c) = psize st (NEXT_CHUNK st c) OR C_INUSE
    \<and> (\<forall>j. j \<noteq> i \<longrightarrow> bit (binmap (unbin c i st)) j = bit (binmap st) j)"
  using unbin_bin [OF assms(2,1,3)] by blast

text \<open>
  The insertion at the end of \<open>free\<close> refines appending to a list: with the bin's bit set, the
  chunk becomes the last of the ring, so bins are served first in, first out.
\<close>

theorem insert_bin_refines:
  assumes "i < 64" and "bin_chunks S st i cs"
    and "separated (set (BIN_TO_CHUNK S i # cs @ [c]))" and "c \<notin> set (BIN_TO_CHUNK S i # cs)"
  shows "bin_chunks S (insert_bin S c i (st\<lparr>binmap := binmap st OR push_bit i 1\<rparr>)) i (cs @ [c])"
proof (rule insert_bin_bin [OF _ assms(3,4)])
  show "ring (next_of (st\<lparr>binmap := binmap st OR push_bit i 1\<rparr>)) (prev_of (st\<lparr>binmap := binmap st OR push_bit i 1\<rparr>))
      (BIN_TO_CHUNK S i) cs"
    using assms(2) by (subst ring_cong [where nx' = "next_of st" and pv' = "prev_of st"])
      (auto simp: bin_chunks_def next_of_def prev_of_def)
  show "bit (binmap (st\<lparr>binmap := binmap st OR push_bit i 1\<rparr>)) i"
    using bit_binmap_set [OF assms(1)] by simp
qed

section \<open>Finding a chunk\<close>

lemma first_set_from_spec:
  "\<exists>j \<ge> k. j < 64 \<and> bit x j \<Longrightarrow> first_set_from x k < 64 \<and> k \<le> first_set_from x k
    \<and> bit x (first_set_from x k) \<and> (\<forall>j. k \<le> j \<and> j < first_set_from x k \<longrightarrow> \<not> bit x j)"
proof (induction x k rule: first_set_from.induct)
  case (1 x k)
  show ?case
  proof (cases "bit x k")
    case True
    moreover have "k < 64" using 1(2) by auto
    ultimately show ?thesis by (auto simp: first_set_from.simps [of x k])
  next
    case False
    have k: "k < 64" using 1(2) by auto
    have "\<exists>j \<ge> Suc k. j < 64 \<and> bit x j" using 1(2) False by (metis Suc_leI le_neq_implies_less)
    with 1(1) k False have "first_set_from x (Suc k) < 64 \<and> Suc k \<le> first_set_from x (Suc k)
      \<and> bit x (first_set_from x (Suc k)) \<and> (\<forall>j. Suc k \<le> j \<and> j < first_set_from x (Suc k) \<longrightarrow> \<not> bit x j)"
      by (metis not_le)
    with k False show ?thesis
      by (simp add: first_set_from.simps [of x k]) (metis Suc_leI le_neq_implies_less Suc_leD)
  qed
qed

lemma first_set_mask:
  assumes "i < 64" and "(m :: word64) AND (- push_bit i 1) \<noteq> 0" and "j = first_set (m AND (- push_bit i 1))"
  shows "i \<le> j \<and> j < 64 \<and> bit m j \<and> (\<forall>k. i \<le> k \<and> k < j \<longrightarrow> \<not> bit m k)"
proof -
  obtain k where k: "bit (m AND (- push_bit i 1)) k" using assms(2) by (auto simp: bit_eq_iff)
  then have "k < 64" by (auto dest: bit_imp_le_length)
  with k first_set_from_spec [of 0 "m AND (- push_bit i 1)"] bit_mask_above [OF assms(1)] show ?thesis
    unfolding assms(3) first_set_def push_bit_of_1 by blast
qed

lemma lock_bin_initialised: "bin_head S st i \<noteq> 0 \<Longrightarrow> lock_bin S i st = st"
  by (simp add: lock_bin_def)

text \<open>
  The part of the heap invariant that the search relies on: every bin whose bit is set holds a
  chunk, and the first chunk of a bin belongs to that bin.
\<close>

definition bins_stocked :: "'o sys \<Rightarrow> 'o mstate \<Rightarrow> bool" where
  "bins_stocked S st \<longleftrightarrow> (\<forall>j < 64. bit (binmap st) j \<longrightarrow>
     (\<exists>c cs. bin_chunks S st j (c # cs) \<and> c \<noteq> 0 \<and> SIZE_ALIGN \<le> CHUNK_SIZE st c
        \<and> bin_index (CHUNK_SIZE st c) = j))"

text \<open>
  C15. The search of \<open>malloc\<close> ends and finds a chunk that is big enough: when some bin from
  \<open>bin_index_up n\<close> on has its bit set, the loop returns in its first round with the first chunk
  of the least such bin, and that chunk holds \<open>n\<close> bytes.
\<close>

theorem malloc_loop_finds:
  assumes "SIZE_ALIGN \<le> n" and "n \<le> MMAP_THRESHOLD" and "unat n mod 32 = 0"
    and "bins_stocked S st" and "binmap st AND (- push_bit (bin_index_up n) 1) \<noteq> 0"
  shows "\<exists>c st' j. malloc_loop S n (bin_index_up n) st = Some (c, st') \<and> c \<noteq> 0 \<and> n \<le> CHUNK_SIZE st c
    \<and> bin_index_up n \<le> j \<and> bit (binmap st) j \<and> c = bin_head S st j
    \<and> (\<forall>k. bin_index_up n \<le> k \<and> k < j \<longrightarrow> \<not> bit (binmap st) k)"
proof -
  let ?i = "bin_index_up n"
  define j where "j = first_set (binmap st AND (- push_bit ?i 1))"
  have j: "?i \<le> j" "j < 64" "bit (binmap st) j" "\<forall>k. ?i \<le> k \<and> k < j \<longrightarrow> \<not> bit (binmap st) k"
    using first_set_mask [OF bin_index_up_in_table(1) [OF assms(1,2)] assms(5) j_def] by blast+
  obtain c cs where c: "bin_chunks S st j (c # cs)" "c \<noteq> 0" "SIZE_ALIGN \<le> CHUNK_SIZE st c"
      "bin_index (CHUNK_SIZE st c) = j"
    using assms(4) j(2,3) unfolding bins_stocked_def by blast
  have ring: "ring (next_of st) (prev_of st) (BIN_TO_CHUNK S j) (c # cs)"
    using c(1) by (simp add: bin_chunks_def)
  have hd: "bin_head S st j = c" using ring_head [OF ring] by (simp add: bin_ends)
  have cb: "c \<noteq> BIN_TO_CHUNK S j" using ring by (auto simp: ring_def)
  have l: "lock_bin S j st = st" using c(2) hd by (simp add: lock_bin_initialised)
  have size: "n \<le> CHUNK_SIZE st c"
    using bin_index_up_covers [OF assms(1-3) c(3)] c(4) j(1) by simp
  have "\<exists>st'. malloc_loop S n ?i st = Some (c, st')"
    unfolding malloc_loop.simps [of S n ?i st] Let_def j_def [symmetric] l hd
    using assms(5) cb by (simp split: prod.splits)
  with size j c(2) hd show ?thesis by metis
qed

section \<open>A bin with two chunks\<close>

definition two_chunks :: "unit mstate" where
  "two_chunks = empty_mstate\<lparr>binmap := 4, mem := (\<lambda>_. 0)(
     0x1038 := 0x2010, 0x1040 := 0x3010, 0x2018 := 96, 0x2020 := 0x3010, 0x2028 := 0x1028,
     0x2070 := 96, 0x3018 := 96, 0x3020 := 0x1028, 0x3028 := 0x2010, 0x3070 := 96)\<rparr>"

lemmas two_eval = two_chunks_def example_sys_def BIN_TO_CHUNK_def head_addr_def MEM_TO_CHUNK_def OVERHEAD_def
  NEXT_CHUNK_def CHUNK_SIZE_def field_defs

lemma sentinel_2: "BIN_TO_CHUNK example_sys 2 = 0x1028"
  by (simp add: two_eval)

lemma two_chunks_bin: "bin_chunks example_sys two_chunks 2 ([] @ 0x2010 # [0x3010])"
  unfolding bin_chunks_def sentinel_2 by (simp add: ring_def separated_def two_eval bit_simps)

lemma two_chunks_clear: "headers_clear example_sys two_chunks 2 ([] @ 0x2010 # [0x3010]) 0x2010"
  unfolding headers_clear_def sentinel_2 by (simp add: clear_of_links_def two_eval)

theorem unbin_refines_witness:
  "bin_chunks example_sys two_chunks 2 [0x2010, 0x3010]
    \<and> bin_chunks example_sys (unbin 0x2010 2 two_chunks) 2 [0x3010]"
  using unbin_refines [OF _ two_chunks_bin two_chunks_clear] two_chunks_bin by simp

theorem insert_bin_refines_witness:
  "bin_chunks example_sys (insert_bin example_sys 0x4010 2 (two_chunks\<lparr>binmap := binmap two_chunks OR push_bit 2 1\<rparr>)) 2
     ([0x2010, 0x3010] @ [0x4010])"
  by (rule insert_bin_refines) (use two_chunks_bin in \<open>simp_all add: sentinel_2 separated_def\<close>)

lemma two_chunks_stocked: "bins_stocked example_sys two_chunks"
  unfolding bins_stocked_def
proof (intro allI impI)
  fix j :: nat assume "j < 64" "bit (binmap two_chunks) j"
  then have "j = 2" using bit_exp_iff [where ?'a = word64, of 2 j] by (simp add: two_chunks_def)
  then show "\<exists>c cs. bin_chunks example_sys two_chunks j (c # cs) \<and> c \<noteq> 0 \<and> SIZE_ALIGN \<le> CHUNK_SIZE two_chunks c
      \<and> bin_index (CHUNK_SIZE two_chunks c) = j"
    using two_chunks_bin by (intro exI [of _ "0x2010"] exI [of _ "[0x3010]"])
      (simp add: two_eval bin_index_def SIZE_ALIGN_def)
qed

theorem malloc_loop_finds_witness:
  "\<exists>c st'. malloc_loop example_sys 96 (bin_index_up 96) two_chunks = Some (c, st') \<and> 96 \<le> CHUNK_SIZE two_chunks c"
proof -
  have "bin_index_up 96 = 2" by (simp add: bin_index_up_def SIZE_ALIGN_def)
  then have "binmap two_chunks AND (- push_bit (bin_index_up 96) 1) \<noteq> 0" by (simp add: two_chunks_def)
  from malloc_loop_finds [OF _ _ _ two_chunks_stocked this] show ?thesis
    by (auto simp: malloc_consts)
qed

end
