(* ===== verification/Cluster_State.thy ===== *)
theory Cluster_State
  imports Prelude
begin

unbundle bit_operations_syntax

text \<open>
  The state of \<^verbatim>\<open>src/examples/cluster.c\<close>, the Redis Cluster node of the sample corpus. Nodes and
  links are objects reached by reference, so the pointers of the code (\<open>slaveof\<close>, \<open>slaves\<close>,
  \<open>slots\<close>, \<open>link\<close>, \<open>myself\<close>) keep their aliasing; NULL is \<open>None\<close>. A failed \<open>serverAssert\<close> or the
  use of a NULL pointer sets \<open>aborted\<close>, after which the state has no meaning. Hash tables are
  association lists in the order their iterators visit them.

  The structures, the constants and the flag macros of \<^verbatim>\<open>cluster.h\<close> and \<^verbatim>\<open>server.h\<close>, the
  configuration, the clocks, the random numbers and the calls into the rest of the server are
  not part of the source: they are the record \<open>env\<close>, an argument of the definitions.
  \<open>cluster_h_ok\<close> states what the headers document. A clock has one value during one handler.
  Calls with an effect outside the cluster code are recorded in \<open>effects\<close>.
\<close>

section \<open>Data\<close>

type_synonym nref = nat
type_synonym lref = nat
type_synonym epoch = "64 word"
type_synonym bitmap = "8 word list"

datatype node_flag = NF_MYSELF | NF_MASTER | NF_SLAVE | NF_PFAIL | NF_FAIL | NF_HANDSHAKE
  | NF_NOADDR | NF_MEET | NF_MIGRATE_TO

record clusterNode =
  n_ctime :: int
  n_name :: string
  n_flags :: "node_flag set"
  n_configEpoch :: epoch
  n_slots :: bitmap
  n_numslots :: int
  n_slaves :: "nref list"
  n_slaveof :: "nref option"
  n_ping_sent :: int
  n_pong_received :: int
  n_fail_time :: int
  n_voted_time :: int
  n_repl_offset_time :: int
  n_orphaned_time :: int
  n_repl_offset :: int
  n_ip :: string
  n_port :: int
  n_cport :: int
  n_link :: "lref option"
  n_fail_reports :: "(nref \<times> int) list"

datatype msg_type = PING | PONG | MEET | FAIL | PUBLISH | FAILOVER_AUTH_REQUEST
  | FAILOVER_AUTH_ACK | UPDATE | MFSTART | OTHER_TYPE nat

record clusterMsgDataGossip =
  g_nodename :: string
  g_ping_sent :: int
  g_pong_received :: int
  g_ip :: string
  g_port :: int
  g_cport :: int
  g_flags :: "node_flag set"

datatype clusterMsgData = NoData | Gossip "clusterMsgDataGossip list" | Fail string
  | Publish nat nat string | Update epoch string bitmap

datatype cluster_state = CLUSTER_OK | CLUSTER_FAIL

record clusterMsg =
  m_totlen :: nat
  m_ver :: nat
  m_type :: msg_type
  m_count :: nat
  m_sender :: string
  m_myslots :: bitmap
  m_slaveof :: string
  m_myip :: string
  m_port :: int
  m_cport :: int
  m_flags :: "node_flag set"
  m_state :: cluster_state
  m_paused :: bool
  m_forceack :: bool
  m_currentEpoch :: epoch
  m_configEpoch :: epoch
  m_offset :: int
  m_data :: clusterMsgData

record clusterLink =
  l_ctime :: int
  l_sndbuf :: "clusterMsg list"
  l_node :: "nref option"
  l_fd :: int

datatype todo = TODO_HANDLE_FAILOVER | TODO_UPDATE_STATE | TODO_SAVE_CONFIG | TODO_FSYNC_CONFIG

datatype cant_failover = CF_NONE | CF_DATA_AGE | CF_WAITING_DELAY | CF_EXPIRED | CF_WAITING_VOTES

datatype effect = ReplicationSetMaster string int | ReplicationUnsetMaster | EmptyDb
  | DelKeysInSlot nat | FsyncConfig | PauseClients int | UnpauseClients
  | PubsubPublish string string | LogCantFailover cant_failover

record cst =
  nodes_mem :: "nref \<Rightarrow> clusterNode"
  next_ref :: nref
  live :: "nref list"
  links_mem :: "lref \<Rightarrow> clusterLink"
  next_lref :: lref
  live_links :: "lref list"
  aborted :: bool
  nodes :: "(string \<times> nref) list"
  myself :: nref
  currentEpoch :: epoch
  lastVoteEpoch :: epoch
  cl_state :: cluster_state
  cl_size :: int
  nodes_black_list :: "(string \<times> int) list"
  slots :: "nref option list"
  migrating_slots_to :: "nref option list"
  importing_slots_from :: "nref option list"
  failover_auth_time :: int
  failover_auth_count :: int
  failover_auth_sent :: bool
  failover_auth_rank :: int
  failover_auth_epoch :: epoch
  cant_failover_reason :: cant_failover
  mf_end :: int
  mf_slave :: "nref option"
  mf_master_offset :: int
  mf_can_start :: bool
  todo_before_sleep :: "todo set"
  stats_received :: "msg_type list"
  stats_sent :: "msg_type list"
  stats_pfail_nodes :: int
  among_minority_time :: int
  first_call_time :: int
  lastlog_time :: int
  cron_iteration :: nat
  prev_ip :: "string option"
  rand_pos :: nat
  effects :: "effect list"
  conf_file :: "string option"
  exited :: bool

text \<open>
  The commands of clients (\<^verbatim>\<open>server.h\<close>): the procedure, where the code compares it, and the two
  flags it reads.
\<close>

datatype command_proc = execCommand | migrateCommand | otherCommand string

record redisCommand =
  cmd_proc :: command_proc
  CMD_READONLY :: bool
  CMD_ASKING :: bool

record env =
  CLUSTER_SLOTS :: nat
  CLUSTER_PROTO_VER :: nat
  CLUSTER_FAIL_REPORT_VALIDITY_MULT :: int
  CLUSTER_FAIL_UNDO_TIME_MULT :: int
  CLUSTER_MF_TIMEOUT :: int
  CLUSTER_SLAVE_MIGRATION_DELAY :: int
  CLUSTER_CANT_FAILOVER_RELOG_PERIOD :: int
  CLUSTER_PORT_INCR :: int
  CLUSTER_NAMELEN :: nat
  CLUSTER_NODE_NULL_NAME :: string
  NET_IP_STR_LEN :: nat
  hdr_len :: nat
  gossip_len :: nat
  fail_len :: nat
  publish_len :: nat
  update_len :: nat
  msg_len :: nat
  h_nodeIsMaster :: "node_flag set \<Rightarrow> bool"
  h_nodeIsSlave :: "node_flag set \<Rightarrow> bool"
  h_nodeInHandshake :: "node_flag set \<Rightarrow> bool"
  h_nodeHasAddr :: "node_flag set \<Rightarrow> bool"
  h_nodeTimedOut :: "node_flag set \<Rightarrow> bool"
  h_nodeFailed :: "node_flag set \<Rightarrow> bool"
  cluster_node_timeout :: int
  cluster_migration_barrier :: int
  cluster_slave_validity_factor :: int
  cluster_require_full_coverage :: bool
  cluster_announce_ip :: "string option"
  cluster_announce_port :: int
  cluster_announce_bus_port :: int
  server_port :: int
  repl_ping_slave_period :: int
  masterhost_null :: bool
  repl_connected :: bool
  master_lastinteraction :: int
  repl_down_since :: int
  master_repl_offset :: int
  replicationGetSlaveOffset :: int
  clientsArePaused :: bool
  pubsub_active :: bool
  mstime :: int
  server_mstime :: int
  unixtime :: int
  time_now :: int
  random_val :: "nat \<Rightarrow> nat"
  random_name :: "nat \<Rightarrow> string"
  countKeysInSlot :: "nat \<Rightarrow> nat"
  keys_outside_db0 :: bool
  norm_ip :: "string \<Rightarrow> string option"
  peer_ip :: "int \<Rightarrow> string"
  sock_name :: "int \<Rightarrow> string option"
  connect_fd :: "string \<Rightarrow> int \<Rightarrow> int option"
  crc16 :: "string \<Rightarrow> 16 word"
  cluster_enabled :: bool
  db0_size :: nat
  getLongLongFromObject :: "string \<Rightarrow> int option"
  getKeysInSlot :: "nat \<Rightarrow> nat \<Rightarrow> string list"
  getKeysFromCommand :: "redisCommand \<Rightarrow> string list \<Rightarrow> nat list"
  lookupKeyRead :: "string \<Rightarrow> bool"
  mem_after :: "string \<Rightarrow> string"
  sdssplitargs :: "string \<Rightarrow> string list option"
  cfg_lock_ok :: bool
  cfg_read_ok :: bool
  cfg_open_ok :: bool
  cfg_fstat_ok :: bool
  cfg_written :: "nat \<Rightarrow> nat"
  cfg_truncate_ok :: bool
  cfg_error :: string
  listen_ok :: bool

text \<open>What \<^verbatim>\<open>cluster.h\<close> documents of its macros and constants.\<close>

definition cluster_h_ok :: "env \<Rightarrow> bool" where
  "cluster_h_ok E \<longleftrightarrow> 0 < CLUSTER_SLOTS E \<and> 8 dvd CLUSTER_SLOTS E
     \<and> (\<forall>F. h_nodeIsMaster E F \<longleftrightarrow> NF_MASTER \<in> F) \<and> (\<forall>F. h_nodeIsSlave E F \<longleftrightarrow> NF_SLAVE \<in> F)
     \<and> (\<forall>F. h_nodeInHandshake E F \<longleftrightarrow> NF_HANDSHAKE \<in> F) \<and> (\<forall>F. h_nodeHasAddr E F \<longleftrightarrow> NF_NOADDR \<notin> F)
     \<and> CLUSTER_NODE_NULL_NAME E = replicate (CLUSTER_NAMELEN E) (CHR 0x00)
     \<and> (\<forall>F. h_nodeTimedOut E F \<longleftrightarrow> NF_PFAIL \<in> F) \<and> (\<forall>F. h_nodeFailed E F \<longleftrightarrow> NF_FAIL \<in> F)"

section \<open>Access\<close>

definition nd :: "cst \<Rightarrow> nref \<Rightarrow> clusterNode" where
  "nd st r = nodes_mem st r"

definition upd_node :: "nref \<Rightarrow> (clusterNode \<Rightarrow> clusterNode) \<Rightarrow> cst \<Rightarrow> cst" where
  "upd_node r f st = st\<lparr>nodes_mem := (nodes_mem st)(r := f (nodes_mem st r))\<rparr>"

definition add_flags :: "nref \<Rightarrow> node_flag set \<Rightarrow> cst \<Rightarrow> cst" where
  "add_flags r F = upd_node r (\<lambda>n. n\<lparr>n_flags := n_flags n \<union> F\<rparr>)"

definition del_flags :: "nref \<Rightarrow> node_flag set \<Rightarrow> cst \<Rightarrow> cst" where
  "del_flags r F = upd_node r (\<lambda>n. n\<lparr>n_flags := n_flags n - F\<rparr>)"

definition lk :: "cst \<Rightarrow> lref \<Rightarrow> clusterLink" where
  "lk st l = links_mem st l"

definition upd_link :: "lref \<Rightarrow> (clusterLink \<Rightarrow> clusterLink) \<Rightarrow> cst \<Rightarrow> cst" where
  "upd_link l f st = st\<lparr>links_mem := (links_mem st)(l := f (links_mem st l))\<rparr>"

definition abort :: "cst \<Rightarrow> cst" where
  "abort st = st\<lparr>aborted := True\<rparr>"

definition serverAssert :: "bool \<Rightarrow> cst \<Rightarrow> cst" where
  "serverAssert b st = (if b then st else abort st)"

definition emit :: "effect \<Rightarrow> cst \<Rightarrow> cst" where
  "emit e st = st\<lparr>effects := effects st @ [e]\<rparr>"

definition nodeIsMaster :: "env \<Rightarrow> cst \<Rightarrow> nref \<Rightarrow> bool" where
  "nodeIsMaster E st r = h_nodeIsMaster E (n_flags (nd st r))"
definition nodeIsSlave :: "env \<Rightarrow> cst \<Rightarrow> nref \<Rightarrow> bool" where
  "nodeIsSlave E st r = h_nodeIsSlave E (n_flags (nd st r))"
definition nodeInHandshake :: "env \<Rightarrow> cst \<Rightarrow> nref \<Rightarrow> bool" where
  "nodeInHandshake E st r = h_nodeInHandshake E (n_flags (nd st r))"
definition nodeHasAddr :: "env \<Rightarrow> cst \<Rightarrow> nref \<Rightarrow> bool" where
  "nodeHasAddr E st r = h_nodeHasAddr E (n_flags (nd st r))"
definition nodeTimedOut :: "env \<Rightarrow> cst \<Rightarrow> nref \<Rightarrow> bool" where
  "nodeTimedOut E st r = h_nodeTimedOut E (n_flags (nd st r))"
definition nodeFailed :: "env \<Rightarrow> cst \<Rightarrow> nref \<Rightarrow> bool" where
  "nodeFailed E st r = h_nodeFailed E (n_flags (nd st r))"

definition has_flag :: "cst \<Rightarrow> nref \<Rightarrow> node_flag set \<Rightarrow> bool" where
  "has_flag st r F \<longleftrightarrow> n_flags (nd st r) \<inter> F \<noteq> {}"

definition clusterDoBeforeSleep :: "todo set \<Rightarrow> cst \<Rightarrow> cst" where
  "clusterDoBeforeSleep F st = st\<lparr>todo_before_sleep := todo_before_sleep st \<union> F\<rparr>"

text \<open>The hash tables: lookup is \<open>map_of\<close>; an insertion fails on a present key.\<close>

definition dictAdd :: "string \<Rightarrow> 'v \<Rightarrow> (string \<times> 'v) list \<Rightarrow> (string \<times> 'v) list option" where
  "dictAdd k v d = (if map_of d k = None then Some (d @ [(k, v)]) else None)"

definition dictDelete :: "string \<Rightarrow> (string \<times> 'v) list \<Rightarrow> (string \<times> 'v) list option" where
  "dictDelete k d = (if map_of d k = None then None else Some (AList.delete k d))"

definition node_refs :: "cst \<Rightarrow> nref list" where
  "node_refs st = map snd (nodes st)"

definition dictGetRandomKey :: "env \<Rightarrow> cst \<Rightarrow> nref \<times> cst" where
  "dictGetRandomKey E st = (snd (nodes st ! (random_val E (rand_pos st) mod length (nodes st))),
     st\<lparr>rand_pos := Suc (rand_pos st)\<rparr>)"

section \<open>Bitmaps\<close>

definition bitmapTestBit :: "bitmap \<Rightarrow> nat \<Rightarrow> bool" where
  "bitmapTestBit bm pos = (bm ! (pos div 8) AND push_bit (pos mod 8) 1 \<noteq> 0)"

definition bitmapSetBit :: "bitmap \<Rightarrow> nat \<Rightarrow> bitmap" where
  "bitmapSetBit bm pos = bm[pos div 8 := bm ! (pos div 8) OR push_bit (pos mod 8) 1]"

definition bitmapClearBit :: "bitmap \<Rightarrow> nat \<Rightarrow> bitmap" where
  "bitmapClearBit bm pos = bm[pos div 8 := bm ! (pos div 8) AND NOT (push_bit (pos mod 8) 1)]"

definition empty_bitmap :: "env \<Rightarrow> bitmap" where
  "empty_bitmap E = replicate (CLUSTER_SLOTS E div 8) 0"

lemma bit_test_word: "(w :: 8 word) AND push_bit k 1 \<noteq> 0 \<longleftrightarrow> bit w k"
  by (simp add: and_exp_eq_0_iff_not_bit)

lemma bitmapTestBit_bit: "bitmapTestBit bm pos \<longleftrightarrow> bit (bm ! (pos div 8)) (pos mod 8)"
  unfolding bitmapTestBit_def bit_test_word ..

lemma div_mod_eq: "p div 8 = q div 8 \<Longrightarrow> p mod 8 = q mod 8 \<Longrightarrow> p = (q :: nat)"
  by (metis div_mult_mod_eq)

lemma bitmapTestBit_set [simp]:
  "q div 8 < length bm \<Longrightarrow> bitmapTestBit (bitmapSetBit bm q) p \<longleftrightarrow> p = q \<or> bitmapTestBit bm p"
  by (auto simp: bitmapTestBit_bit bitmapSetBit_def nth_list_update bit_simps dest: div_mod_eq)

lemma bitmapTestBit_clear [simp]:
  "q div 8 < length bm \<Longrightarrow> bitmapTestBit (bitmapClearBit bm q) p \<longleftrightarrow> p \<noteq> q \<and> bitmapTestBit bm p"
proof -
  assume q: "q div 8 < length bm"
  have "p mod 8 < 8" by simp
  then have "p mod 8 < LENGTH(8)" by simp
  with q show ?thesis
    by (auto simp: bitmapTestBit_bit bitmapClearBit_def nth_list_update bit_simps dest: div_mod_eq)
qed

lemma length_bitmap_upd [simp]: "length (bitmapSetBit bm q) = length bm" "length (bitmapClearBit bm q) = length bm"
  by (simp_all add: bitmapSetBit_def bitmapClearBit_def)

lemma bitmapTestBit_empty [simp]: "p < CLUSTER_SLOTS E \<Longrightarrow> 8 dvd CLUSTER_SLOTS E \<Longrightarrow> \<not> bitmapTestBit (empty_bitmap E) p"
  by (auto simp: bitmapTestBit_bit empty_bitmap_def less_mult_imp_div_less dvd_div_mult_self)

end
