(* ===== verification/Cluster_Print.thy ===== *)
theory Cluster_Print
  imports Cluster_State
begin

text \<open>
  The printed form of nodes and slot ranges in \<^verbatim>\<open>src/examples/cluster.c\<close>, which is both the
  answer of CLUSTER NODES and the configuration file, and the writing of that file.
\<close>

section \<open>Numbers and names\<close>

fun show_nat :: "nat \<Rightarrow> string" where
  "show_nat n = (if n < 10 then [char_of (n + 48)] else show_nat (n div 10) @ [char_of (n mod 10 + 48)])"

declare show_nat.simps [simp del]

definition show_int :: "int \<Rightarrow> string" where
  "show_int i = (if i < 0 then CHR ''-'' # show_nat (nat (- i)) else show_nat (nat i))"

text \<open>
  A function that takes a node name as a \<open>char *\<close> reads \<open>CLUSTER_NAMELEN\<close> bytes from it: of a
  shorter string also the terminating NUL and what follows in memory.
\<close>

definition name_bytes :: "env \<Rightarrow> string \<Rightarrow> string" where
  "name_bytes E s = take (CLUSTER_NAMELEN E) (s @ CHR 0x00 # mem_after E s)"

text \<open>\<open>%.40s\<close>: at most 40 characters, up to the first NUL.\<close>

definition cstr40 :: "string \<Rightarrow> string" where
  "cstr40 s = takeWhile (\<lambda>c. c \<noteq> CHR 0x00) (take 40 s)"

section \<open>Nodes as strings\<close>

definition redisNodeFlagsTable :: "(node_flag \<times> string) list" where
  "redisNodeFlagsTable = [(NF_MYSELF, ''myself,''), (NF_MASTER, ''master,''), (NF_SLAVE, ''slave,''),
     (NF_PFAIL, ''fail?,''), (NF_FAIL, ''fail,''), (NF_HANDSHAKE, ''handshake,''), (NF_NOADDR, ''noaddr,'')]"

definition representClusterNodeFlags :: "string \<Rightarrow> node_flag set \<Rightarrow> string" where
  "representClusterNodeFlags ci flags =
     butlast (if flags = {} then ci @ ''noflags,''
              else ci @ concat (map snd (filter (\<lambda>(f, name). f \<in> flags) redisNodeFlagsTable)))"

text \<open>
  The loop that groups the owned slots into ranges: \<open>start\<close> is \<open>None\<close> where the code has -1; a
  range is its first and its last slot.
\<close>

function slot_ranges :: "(nat \<Rightarrow> bool) \<Rightarrow> nat \<Rightarrow> nat \<Rightarrow> nat option \<Rightarrow> (nat \<times> nat) list" where
  "slot_ranges own n j start0 =
    (if j < n then
       (let bit = own j;
            start = (if bit \<and> start0 = None then Some j else start0)
        in case start of
             Some s \<Rightarrow>
               if \<not> bit \<or> j = n - 1
               then (let j = (if bit \<and> j = n - 1 then j + 1 else j)
                     in (s, j - 1) # slot_ranges own n (j + 1) None)
               else slot_ranges own n (j + 1) start
           | None \<Rightarrow> slot_ranges own n (j + 1) start)
     else [])"
  by pat_completeness auto
termination
  by (relation "measure (\<lambda>(own, n, j, start). n - j)") (auto split: if_splits)

declare slot_ranges.simps [simp del]

definition clusterNodeGetSlotBit :: "cst \<Rightarrow> nref \<Rightarrow> nat \<Rightarrow> bool" where
  "clusterNodeGetSlotBit st n slot = bitmapTestBit (n_slots (nd st n)) slot"

definition show_range :: "nat \<times> nat \<Rightarrow> string" where
  "show_range = (\<lambda>(a, b). if a = b then '' '' @ show_nat a else '' '' @ show_nat a @ ''-'' @ show_nat b)"

definition show_open_slot :: "cst \<Rightarrow> nat \<Rightarrow> string" where
  "show_open_slot st j = (case migrating_slots_to st ! j of
      Some n \<Rightarrow> '' ['' @ show_nat j @ ''->-'' @ cstr40 (n_name (nd st n)) @ '']''
    | None \<Rightarrow> (case importing_slots_from st ! j of
        Some n \<Rightarrow> '' ['' @ show_nat j @ ''-<-'' @ cstr40 (n_name (nd st n)) @ '']''
      | None \<Rightarrow> []))"

definition clusterGenNodeDescription :: "env \<Rightarrow> cst \<Rightarrow> nref \<Rightarrow> string" where
  "clusterGenNodeDescription E st node =
    (let n = nd st node;
         ci = cstr40 (n_name n) @ '' '' @ n_ip n @ '':'' @ show_int (n_port n) @ ''@'' @ show_int (n_cport n) @ '' '';
         ci = representClusterNodeFlags ci (n_flags n);
         ci = (case n_slaveof n of Some m \<Rightarrow> ci @ '' '' @ cstr40 (n_name (nd st m)) @ '' '' | None \<Rightarrow> ci @ '' - '');
         ci = ci @ show_int (n_ping_sent n) @ '' '' @ show_int (n_pong_received n) @ '' ''
                 @ show_nat (unat (n_configEpoch n)) @ '' ''
                 @ (if n_link n \<noteq> None \<or> NF_MYSELF \<in> n_flags n then ''connected'' else ''disconnected'');
         ci = ci @ concat (map show_range (slot_ranges (clusterNodeGetSlotBit st node) (CLUSTER_SLOTS E) 0 None))
     in if NF_MYSELF \<in> n_flags n then ci @ concat (map (show_open_slot st) [0..<CLUSTER_SLOTS E]) else ci)"

definition clusterGenNodesDescription :: "env \<Rightarrow> cst \<Rightarrow> node_flag set \<Rightarrow> string" where
  "clusterGenNodesDescription E st exclude =
     concat (map (\<lambda>node. clusterGenNodeDescription E st node @ [CHR 0x0A])
       (filter (\<lambda>node. \<not> has_flag st node exclude) (node_refs st)))"

section \<open>The configuration file\<close>

definition config_payload :: "env \<Rightarrow> cst \<Rightarrow> string" where
  "config_payload E st = clusterGenNodesDescription E st {NF_HANDSHAKE}
     @ ''vars currentEpoch '' @ show_nat (unat (currentEpoch st))
     @ '' lastVoteEpoch '' @ show_nat (unat (lastVoteEpoch st)) @ [CHR 0x0A]"

text \<open>
  Opening, \<open>fstat\<close>, the number of bytes \<open>write\<close> reports and \<open>ftruncate\<close> are the environment's.
  The file is written in place: what lies behind the written bytes stays.
\<close>

definition clusterSaveConfig :: "env \<Rightarrow> bool \<Rightarrow> cst \<Rightarrow> bool \<times> cst" where
  "clusterSaveConfig E do_fsync st0 =
    (let st = st0\<lparr>todo_before_sleep := todo_before_sleep st0 - {TODO_SAVE_CONFIG}\<rparr>;
         ci = config_payload E st;
         old = (case conf_file st of Some f \<Rightarrow> f | None \<Rightarrow> [])
     in if \<not> cfg_open_ok E then (False, st)
        else let padded = (if cfg_fstat_ok E \<and> length old > length ci
                           then ci @ replicate (length old - length ci) (CHR 0x0A) else ci);
                 k = cfg_written E (length padded);
                 st = st\<lparr>conf_file := Some (take k padded @ drop k old)\<rparr>
             in if k \<noteq> length padded then (False, st)
                else let st = (if do_fsync
                       then emit FsyncConfig (st\<lparr>todo_before_sleep := todo_before_sleep st - {TODO_FSYNC_CONFIG}\<rparr>)
                       else st);
                         st = (if length ci \<noteq> length padded \<and> cfg_truncate_ok E
                               then st\<lparr>conf_file := map_option (take (length ci)) (conf_file st)\<rparr> else st)
                     in (True, st))"

definition clusterSaveConfigOrDie :: "env \<Rightarrow> bool \<Rightarrow> cst \<Rightarrow> cst" where
  "clusterSaveConfigOrDie E do_fsync st0 =
    (let (ok, st) = clusterSaveConfig E do_fsync st0 in if ok then st else st\<lparr>exited := True\<rparr>)"

end
