(* ===== verification/Cluster_Nodes.thy ===== *)
theory Cluster_Nodes
  imports Cluster_Print
begin

text \<open>
  The node table of \<^verbatim>\<open>src/examples/cluster.c\<close>: key hashing, links, nodes, failure reports, the
  lists of slaves, slot ownership, configuration epochs and the blacklist, in the order of the
  source except that the slot operations stand before \<open>clusterDelNode\<close>, which calls them.
\<close>

section \<open>Keys\<close>

text \<open>\<open>find_from c s key\<close>: the first index from \<open>s\<close> on that holds \<open>c\<close>, or the length of the key.\<close>

function find_from :: "char \<Rightarrow> nat \<Rightarrow> string \<Rightarrow> nat" where
  "find_from c i key = (if i < length key then if key ! i = c then i else find_from c (Suc i) key
     else length key)"
  by auto
termination by (relation "measure (\<lambda>(c, i, key). length key - i)") auto

declare find_from.simps [simp del]

definition keyHashSlot :: "env \<Rightarrow> string \<Rightarrow> 16 word" where
  "keyHashSlot E key =
    (let s = find_from (CHR ''{'') 0 key in
     if s = length key then crc16 E key AND 0x3FFF
     else let e = find_from (CHR ''}'') (s + 1) key in
       if e = length key \<or> e = s + 1 then crc16 E key AND 0x3FFF
       else crc16 E (take (e - s - 1) (drop (s + 1) key)) AND 0x3FFF)"

section \<open>Links\<close>

definition createClusterLink :: "env \<Rightarrow> nref option \<Rightarrow> cst \<Rightarrow> lref \<times> cst" where
  "createClusterLink E node st = (let l = next_lref st in
     (l, st\<lparr>next_lref := Suc l, live_links := l # live_links st,
            links_mem := (links_mem st)(l := \<lparr>l_ctime = mstime E, l_sndbuf = [], l_node = node, l_fd = -1\<rparr>)\<rparr>))"

definition freeClusterLink :: "lref \<Rightarrow> cst \<Rightarrow> cst" where
  "freeClusterLink l st0 =
    (let st = (case l_node (lk st0 l) of Some n \<Rightarrow> upd_node n (\<lambda>n. n\<lparr>n_link := None\<rparr>) st0 | None \<Rightarrow> st0)
     in st\<lparr>live_links := removeAll l (live_links st)\<rparr>)"

section \<open>Nodes\<close>

definition createClusterNode :: "env \<Rightarrow> string option \<Rightarrow> node_flag set \<Rightarrow> cst \<Rightarrow> nref \<times> cst" where
  "createClusterNode E nodename flags st =
    (let r = next_ref st;
         (name, pos) = (case nodename of Some s \<Rightarrow> (name_bytes E s, rand_pos st)
                        | None \<Rightarrow> (random_name E (rand_pos st), Suc (rand_pos st)));
         node = \<lparr>n_ctime = mstime E, n_name = name, n_flags = flags, n_configEpoch = 0,
           n_slots = empty_bitmap E, n_numslots = 0, n_slaves = [], n_slaveof = None,
           n_ping_sent = 0, n_pong_received = 0, n_fail_time = 0, n_voted_time = 0,
           n_repl_offset_time = 0, n_orphaned_time = 0, n_repl_offset = 0, n_ip = [], n_port = 0,
           n_cport = 0, n_link = None, n_fail_reports = []\<rparr>
     in (r, st\<lparr>next_ref := Suc r, live := r # live st, rand_pos := pos,
               nodes_mem := (nodes_mem st)(r := node)\<rparr>))"

fun report_again :: "nref \<Rightarrow> int \<Rightarrow> (nref \<times> int) list \<Rightarrow> (nref \<times> int) list option" where
  "report_again sender t [] = None"
| "report_again sender t ((n, t0) # frs) = (if n = sender then Some ((n, t) # frs)
     else map_option (Cons (n, t0)) (report_again sender t frs))"

definition clusterNodeAddFailureReport :: "env \<Rightarrow> nref \<Rightarrow> nref \<Rightarrow> cst \<Rightarrow> bool \<times> cst" where
  "clusterNodeAddFailureReport E failing sender st =
    (case report_again sender (mstime E) (n_fail_reports (nd st failing)) of
       Some frs \<Rightarrow> (False, upd_node failing (\<lambda>n. n\<lparr>n_fail_reports := frs\<rparr>) st)
     | None \<Rightarrow> (True, upd_node failing (\<lambda>n. n\<lparr>n_fail_reports := n_fail_reports n @ [(sender, mstime E)]\<rparr>) st))"

definition clusterNodeCleanupFailureReports :: "env \<Rightarrow> nref \<Rightarrow> cst \<Rightarrow> cst" where
  "clusterNodeCleanupFailureReports E node st =
    (let maxtime = cluster_node_timeout E * CLUSTER_FAIL_REPORT_VALIDITY_MULT E
     in upd_node node (\<lambda>n. n\<lparr>n_fail_reports :=
          filter (\<lambda>(s, t). \<not> (mstime E - t > maxtime)) (n_fail_reports n)\<rparr>) st)"

fun drop_report :: "nref \<Rightarrow> (nref \<times> int) list \<Rightarrow> (nref \<times> int) list option" where
  "drop_report sender [] = None"
| "drop_report sender ((n, t) # frs) = (if n = sender then Some frs
     else map_option (Cons (n, t)) (drop_report sender frs))"

definition clusterNodeDelFailureReport :: "env \<Rightarrow> nref \<Rightarrow> nref \<Rightarrow> cst \<Rightarrow> bool \<times> cst" where
  "clusterNodeDelFailureReport E node sender st =
    (case drop_report sender (n_fail_reports (nd st node)) of
       None \<Rightarrow> (False, st)
     | Some frs \<Rightarrow> (True, clusterNodeCleanupFailureReports E node
                       (upd_node node (\<lambda>n. n\<lparr>n_fail_reports := frs\<rparr>) st)))"

definition clusterNodeFailureReportsCount :: "env \<Rightarrow> nref \<Rightarrow> cst \<Rightarrow> int \<times> cst" where
  "clusterNodeFailureReportsCount E node st0 =
    (let st = clusterNodeCleanupFailureReports E node st0
     in (int (length (n_fail_reports (nd st node))), st))"

definition clusterNodeRemoveSlave :: "nref \<Rightarrow> nref \<Rightarrow> cst \<Rightarrow> bool \<times> cst" where
  "clusterNodeRemoveSlave master slave st =
    (if slave \<in> set (n_slaves (nd st master)) then
       (let st = upd_node master (\<lambda>n. n\<lparr>n_slaves := remove1 slave (n_slaves n)\<rparr>) st
        in (True, if n_slaves (nd st master) = [] then del_flags master {NF_MIGRATE_TO} st else st))
     else (False, st))"

definition clusterNodeAddSlave :: "nref \<Rightarrow> nref \<Rightarrow> cst \<Rightarrow> bool \<times> cst" where
  "clusterNodeAddSlave master slave st =
    (if slave \<in> set (n_slaves (nd st master)) then (False, st)
     else (True, add_flags master {NF_MIGRATE_TO}
             (upd_node master (\<lambda>n. n\<lparr>n_slaves := n_slaves n @ [slave]\<rparr>) st)))"

definition clusterCountNonFailingSlaves :: "env \<Rightarrow> cst \<Rightarrow> nref \<Rightarrow> int" where
  "clusterCountNonFailingSlaves E st n =
     int (length (filter (\<lambda>s. \<not> nodeFailed E st s) (n_slaves (nd st n))))"

definition freeClusterNode :: "env \<Rightarrow> nref \<Rightarrow> cst \<Rightarrow> cst" where
  "freeClusterNode E n st0 =
    (let st = fold (\<lambda>s. upd_node s (\<lambda>x. x\<lparr>n_slaveof := None\<rparr>)) (n_slaves (nd st0 n)) st0;
         st = (if nodeIsSlave E st n
               then (case n_slaveof (nd st n) of Some m \<Rightarrow> snd (clusterNodeRemoveSlave m n st) | None \<Rightarrow> st)
               else st);
         st = (case dictDelete (n_name (nd st n)) (nodes st) of
                 Some d \<Rightarrow> st\<lparr>nodes := d\<rparr> | None \<Rightarrow> abort st);
         st = (case n_link (nd st n) of Some l \<Rightarrow> freeClusterLink l st | None \<Rightarrow> st)
     in st\<lparr>live := removeAll n (live st)\<rparr>)"

definition clusterAddNode :: "nref \<Rightarrow> cst \<Rightarrow> bool \<times> cst" where
  "clusterAddNode node st = (case dictAdd (n_name (nd st node)) node (nodes st) of
      Some d \<Rightarrow> (True, st\<lparr>nodes := d\<rparr>) | None \<Rightarrow> (False, st))"

section \<open>Slots\<close>

definition clusterMastersHaveSlaves :: "env \<Rightarrow> cst \<Rightarrow> bool" where
  "clusterMastersHaveSlaves E st \<longleftrightarrow>
     sum_list (map (\<lambda>r. length (n_slaves (nd st r))) (filter (\<lambda>r. \<not> nodeIsSlave E st r) (node_refs st))) \<noteq> 0"

definition clusterNodeSetSlotBit :: "env \<Rightarrow> nref \<Rightarrow> nat \<Rightarrow> cst \<Rightarrow> bool \<times> cst" where
  "clusterNodeSetSlotBit E n slot st0 =
    (let old = bitmapTestBit (n_slots (nd st0 n)) slot;
         st = upd_node n (\<lambda>x. x\<lparr>n_slots := bitmapSetBit (n_slots x) slot\<rparr>) st0;
         st = (if \<not> old then
                 (let st = upd_node n (\<lambda>x. x\<lparr>n_numslots := n_numslots x + 1\<rparr>) st
                  in if n_numslots (nd st n) = 1 \<and> clusterMastersHaveSlaves E st
                     then add_flags n {NF_MIGRATE_TO} st else st)
               else st)
     in (old, st))"

definition clusterNodeClearSlotBit :: "nref \<Rightarrow> nat \<Rightarrow> cst \<Rightarrow> bool \<times> cst" where
  "clusterNodeClearSlotBit n slot st0 =
    (let old = bitmapTestBit (n_slots (nd st0 n)) slot;
         st = upd_node n (\<lambda>x. x\<lparr>n_slots := bitmapClearBit (n_slots x) slot\<rparr>) st0
     in (old, if old then upd_node n (\<lambda>x. x\<lparr>n_numslots := n_numslots x - 1\<rparr>) st else st))"

definition clusterAddSlot :: "env \<Rightarrow> nref \<Rightarrow> nat \<Rightarrow> cst \<Rightarrow> bool \<times> cst" where
  "clusterAddSlot E n slot st =
    (if slots st ! slot \<noteq> None then (False, st)
     else let st = snd (clusterNodeSetSlotBit E n slot st)
          in (True, st\<lparr>slots := (slots st)[slot := Some n]\<rparr>))"

definition clusterDelSlot :: "nat \<Rightarrow> cst \<Rightarrow> bool \<times> cst" where
  "clusterDelSlot slot st = (case slots st ! slot of
      None \<Rightarrow> (False, st)
    | Some n \<Rightarrow>
        (let (old, st) = clusterNodeClearSlotBit n slot st;
             st = serverAssert old st
         in (True, st\<lparr>slots := (slots st)[slot := None]\<rparr>)))"

definition clusterDelNodeSlots :: "env \<Rightarrow> nref \<Rightarrow> cst \<Rightarrow> nat \<times> cst" where
  "clusterDelNodeSlots E node st =
     fold (\<lambda>j (deleted, st). (deleted + 1,
         if clusterNodeGetSlotBit st node j then snd (clusterDelSlot j st) else st))
       [0..<CLUSTER_SLOTS E] (0, st)"

definition clusterCloseAllSlots :: "env \<Rightarrow> cst \<Rightarrow> cst" where
  "clusterCloseAllSlots E st = st\<lparr>migrating_slots_to := replicate (CLUSTER_SLOTS E) None,
     importing_slots_from := replicate (CLUSTER_SLOTS E) None\<rparr>"

section \<open>Removing, finding and renaming nodes\<close>

definition forget_slot :: "nref \<Rightarrow> nat \<Rightarrow> cst \<Rightarrow> cst" where
  "forget_slot delnode j st0 =
    (let st = (if importing_slots_from st0 ! j = Some delnode
               then st0\<lparr>importing_slots_from := (importing_slots_from st0)[j := None]\<rparr> else st0);
         st = (if migrating_slots_to st ! j = Some delnode
               then st\<lparr>migrating_slots_to := (migrating_slots_to st)[j := None]\<rparr> else st)
     in if slots st ! j = Some delnode then snd (clusterDelSlot j st) else st)"

definition clusterDelNode :: "env \<Rightarrow> nref \<Rightarrow> cst \<Rightarrow> cst" where
  "clusterDelNode E delnode st0 =
    (let st = fold (forget_slot delnode) [0..<CLUSTER_SLOTS E] st0;
         st = fold (\<lambda>node st. if node = delnode then st
                               else snd (clusterNodeDelFailureReport E node delnode st)) (node_refs st) st
     in freeClusterNode E delnode st)"

definition clusterLookupNode :: "env \<Rightarrow> cst \<Rightarrow> string \<Rightarrow> nref option" where
  "clusterLookupNode E st name = map_of (nodes st) (name_bytes E name)"

definition clusterRenameNode :: "env \<Rightarrow> nref \<Rightarrow> string \<Rightarrow> cst \<Rightarrow> cst" where
  "clusterRenameNode E node newname st0 =
    (let st = (case dictDelete (n_name (nd st0 node)) (nodes st0) of
                 Some d \<Rightarrow> st0\<lparr>nodes := d\<rparr> | None \<Rightarrow> abort st0);
         st = upd_node node (\<lambda>n. n\<lparr>n_name := name_bytes E newname\<rparr>) st
     in snd (clusterAddNode node st))"

section \<open>Configuration epochs\<close>

definition clusterGetMaxEpoch :: "cst \<Rightarrow> epoch" where
  "clusterGetMaxEpoch st =
    (let m = fold (\<lambda>r m. if n_configEpoch (nd st r) > m then n_configEpoch (nd st r) else m) (node_refs st) 0
     in if m < currentEpoch st then currentEpoch st else m)"

definition set_my_epoch :: "epoch \<Rightarrow> cst \<Rightarrow> cst" where
  "set_my_epoch e st = upd_node (myself st) (\<lambda>n. n\<lparr>n_configEpoch := e\<rparr>) st"

definition clusterBumpConfigEpochWithoutConsensus :: "cst \<Rightarrow> bool \<times> cst" where
  "clusterBumpConfigEpochWithoutConsensus st =
    (let maxEpoch = clusterGetMaxEpoch st; mine = n_configEpoch (nd st (myself st)) in
     if mine = 0 \<or> mine \<noteq> maxEpoch then
       (let st = st\<lparr>currentEpoch := currentEpoch st + 1\<rparr>;
            st = set_my_epoch (currentEpoch st) st
        in (True, clusterDoBeforeSleep {TODO_SAVE_CONFIG, TODO_FSYNC_CONFIG} st))
     else (False, st))"

text \<open>\<open>memcmp\<close> of two node names is the lexicographic order of their bytes.\<close>

fun memcmp_less :: "string \<Rightarrow> string \<Rightarrow> bool" where
  "memcmp_less [] ys \<longleftrightarrow> False"
| "memcmp_less (x # xs) [] \<longleftrightarrow> False"
| "memcmp_less (x # xs) (y # ys) \<longleftrightarrow>
     (of_char x :: nat) < of_char y \<or> x = y \<and> memcmp_less xs ys"

definition clusterHandleConfigEpochCollision :: "env \<Rightarrow> nref \<Rightarrow> cst \<Rightarrow> cst" where
  "clusterHandleConfigEpochCollision E sender st =
    (if n_configEpoch (nd st sender) \<noteq> n_configEpoch (nd st (myself st))
        \<or> \<not> nodeIsMaster E st sender \<or> \<not> nodeIsMaster E st (myself st) then st
     else if \<not> memcmp_less (n_name (nd st (myself st))) (n_name (nd st sender)) then st
     else let st = st\<lparr>currentEpoch := currentEpoch st + 1\<rparr>;
              st = set_my_epoch (currentEpoch st) st
          in clusterSaveConfigOrDie E True st)"

section \<open>Blacklist\<close>

definition CLUSTER_BLACKLIST_TTL :: int where "CLUSTER_BLACKLIST_TTL = 60"

definition clusterBlacklistCleanup :: "env \<Rightarrow> cst \<Rightarrow> cst" where
  "clusterBlacklistCleanup E st = st\<lparr>nodes_black_list :=
     filter (\<lambda>(id, expire). \<not> (expire < unixtime E)) (nodes_black_list st)\<rparr>"

definition clusterBlacklistAddNode :: "env \<Rightarrow> nref \<Rightarrow> cst \<Rightarrow> cst" where
  "clusterBlacklistAddNode E node st0 =
    (let st = clusterBlacklistCleanup E st0
     in st\<lparr>nodes_black_list := AList.update (n_name (nd st node)) (time_now E + CLUSTER_BLACKLIST_TTL)
           (nodes_black_list st)\<rparr>)"

definition clusterBlacklistExists :: "env \<Rightarrow> string \<Rightarrow> cst \<Rightarrow> bool \<times> cst" where
  "clusterBlacklistExists E nodeid st0 =
    (let st = clusterBlacklistCleanup E st0
     in (map_of (nodes_black_list st) nodeid \<noteq> None, st))"

end
