(* ===== verification/Cluster_Msg.thy ===== *)
theory Cluster_Msg
  imports Cluster_Nodes
begin

text \<open>
  The messages of \<^verbatim>\<open>src/examples/cluster.c\<close>: building headers and gossip sections, the send
  buffers and the broadcasts. A send buffer is the list of the messages queued on the link;
  their encoding as bytes and the socket events are not modelled.
\<close>

section \<open>Sending\<close>

text \<open>Values narrowed to the width of their field in the packet.\<close>

definition u16 :: "int \<Rightarrow> int" where "u16 x = x mod 2 ^ 16"
definition u32 :: "int \<Rightarrow> int" where "u32 x = x mod 2 ^ 32"

definition clusterSendMessage :: "lref \<Rightarrow> clusterMsg \<Rightarrow> cst \<Rightarrow> cst" where
  "clusterSendMessage l msg st0 =
    (let st = upd_link l (\<lambda>x. x\<lparr>l_sndbuf := l_sndbuf x @ [msg]\<rparr>) st0
     in case m_type msg of OTHER_TYPE _ \<Rightarrow> st
        | t \<Rightarrow> st\<lparr>stats_sent := t # stats_sent st\<rparr>)"

definition clusterBroadcastMessage :: "clusterMsg \<Rightarrow> cst \<Rightarrow> cst" where
  "clusterBroadcastMessage msg st0 =
     fold (\<lambda>node st. case n_link (nd st node) of
         None \<Rightarrow> st
       | Some l \<Rightarrow> if has_flag st node {NF_MYSELF, NF_HANDSHAKE} then st else clusterSendMessage l msg st)
       (node_refs st0) st0"

definition my_master :: "env \<Rightarrow> cst \<Rightarrow> nref" where
  "my_master E st = (if nodeIsSlave E st (myself st)
     then (case n_slaveof (nd st (myself st)) of Some m \<Rightarrow> m | None \<Rightarrow> myself st) else myself st)"

definition clusterBuildMessageHdr :: "env \<Rightarrow> msg_type \<Rightarrow> cst \<Rightarrow> clusterMsg" where
  "clusterBuildMessageHdr E type st =
    (let me = nd st (myself st); master = nd st (my_master E st) in
     \<lparr>m_totlen = (case type of FAIL \<Rightarrow> hdr_len E + fail_len E | UPDATE \<Rightarrow> hdr_len E + update_len E | _ \<Rightarrow> 0),
      m_ver = CLUSTER_PROTO_VER E, m_type = type, m_count = 0, m_sender = n_name me,
      m_myslots = n_slots master,
      m_slaveof = (case n_slaveof me of Some m \<Rightarrow> n_name (nd st m) | None \<Rightarrow> replicate (CLUSTER_NAMELEN E) (CHR 0x00)),
      m_myip = (case cluster_announce_ip E of Some ip \<Rightarrow> take (NET_IP_STR_LEN E - 1) ip | None \<Rightarrow> []),
      m_port = u16 (if cluster_announce_port E \<noteq> 0 then cluster_announce_port E else server_port E),
      m_cport = u16 (if cluster_announce_bus_port E \<noteq> 0 then cluster_announce_bus_port E
                     else server_port E + CLUSTER_PORT_INCR E),
      m_flags = n_flags me, m_state = cl_state st,
      m_paused = (nodeIsMaster E st (myself st) \<and> mf_end st \<noteq> 0), m_forceack = False,
      m_currentEpoch = currentEpoch st, m_configEpoch = n_configEpoch master,
      m_offset = (if nodeIsSlave E st (myself st) then replicationGetSlaveOffset E else master_repl_offset E),
      m_data = NoData\<rparr>)"

section \<open>Gossip\<close>

definition clusterNodeIsInGossipSection :: "clusterMsgDataGossip list \<Rightarrow> cst \<Rightarrow> nref \<Rightarrow> bool" where
  "clusterNodeIsInGossipSection gs st n = list_ex (\<lambda>g. g_nodename g = n_name (nd st n)) gs"

definition clusterSetGossipEntry :: "cst \<Rightarrow> nref \<Rightarrow> clusterMsgDataGossip" where
  "clusterSetGossipEntry st r = (let n = nd st r in
     \<lparr>g_nodename = n_name n, g_ping_sent = u32 (n_ping_sent n div 1000),
      g_pong_received = u32 (n_pong_received n div 1000), g_ip = n_ip n, g_port = u16 (n_port n),
      g_cport = u16 (n_cport n), g_flags = n_flags n\<rparr>)"

text \<open>The loop of \<open>clusterSendPing\<close> that draws random nodes; its bound is \<open>maxiterations\<close>.\<close>

fun gossip_loop :: "env \<Rightarrow> int \<Rightarrow> nat \<Rightarrow> int \<Rightarrow> clusterMsgDataGossip list \<Rightarrow> cst
    \<Rightarrow> clusterMsgDataGossip list \<times> cst" where
  "gossip_loop E wanted 0 freshnodes gs st = (gs, st)"
| "gossip_loop E wanted (Suc maxiterations) freshnodes gs st =
    (if freshnodes > 0 \<and> int (length gs) < wanted then
       (let (this, st) = dictGetRandomKey E st in
        if this = myself st then gossip_loop E wanted maxiterations freshnodes gs st
        else if has_flag st this {NF_PFAIL} then gossip_loop E wanted maxiterations freshnodes gs st
        else if has_flag st this {NF_HANDSHAKE, NF_NOADDR}
             \<or> n_link (nd st this) = None \<and> n_numslots (nd st this) = 0
        then gossip_loop E wanted maxiterations (freshnodes - 1) gs st
        else if clusterNodeIsInGossipSection gs st this then gossip_loop E wanted maxiterations freshnodes gs st
        else gossip_loop E wanted maxiterations (freshnodes - 1) (gs @ [clusterSetGossipEntry st this]) st)
     else (gs, st))"

fun gossip_pfail :: "cst \<Rightarrow> nref list \<Rightarrow> int \<Rightarrow> clusterMsgDataGossip list" where
  "gossip_pfail st [] pfail_wanted = []"
| "gossip_pfail st (node # ns) pfail_wanted =
    (if pfail_wanted > 0 then
       if has_flag st node {NF_HANDSHAKE} \<or> has_flag st node {NF_NOADDR} \<or> \<not> has_flag st node {NF_PFAIL}
       then gossip_pfail st ns pfail_wanted
       else clusterSetGossipEntry st node # gossip_pfail st ns (pfail_wanted - 1)
     else [])"

definition gossip_wanted :: "cst \<Rightarrow> int" where
  "gossip_wanted st = (let n = int (length (nodes st)); freshnodes = n - 2;
     wanted = (if n div 10 < 3 then 3 else n div 10)
     in if wanted > freshnodes then freshnodes else wanted)"

definition clusterSendPing :: "env \<Rightarrow> lref \<Rightarrow> msg_type \<Rightarrow> cst \<Rightarrow> cst" where
  "clusterSendPing E l type st0 =
    (let freshnodes = int (length (nodes st0)) - 2;
         wanted = gossip_wanted st0;
         pfail_wanted = stats_pfail_nodes st0;
         st = (case l_node (lk st0 l) of
                 Some n \<Rightarrow> if type = PING then upd_node n (\<lambda>x. x\<lparr>n_ping_sent := mstime E\<rparr>) st0 else st0
               | None \<Rightarrow> st0);
         hdr = clusterBuildMessageHdr E type st;
         (gs, st) = gossip_loop E wanted (nat (wanted * 3)) freshnodes [] st;
         gs = gs @ (if pfail_wanted \<noteq> 0 then gossip_pfail st (node_refs st) pfail_wanted else [])
     in clusterSendMessage l (hdr\<lparr>m_data := Gossip gs, m_count := length gs,
          m_totlen := hdr_len E + gossip_len E * length gs\<rparr>) st)"

section \<open>Broadcasts\<close>

datatype broadcast_target = CLUSTER_BROADCAST_ALL | CLUSTER_BROADCAST_LOCAL_SLAVES

definition local_slave :: "env \<Rightarrow> cst \<Rightarrow> nref \<Rightarrow> bool" where
  "local_slave E st node \<longleftrightarrow> nodeIsSlave E st node \<and> n_slaveof (nd st node) \<noteq> None
     \<and> (n_slaveof (nd st node) = Some (myself st)
        \<or> n_slaveof (nd st node) = n_slaveof (nd st (myself st)))"

definition clusterBroadcastPong :: "env \<Rightarrow> broadcast_target \<Rightarrow> cst \<Rightarrow> cst" where
  "clusterBroadcastPong E target st0 =
     fold (\<lambda>node st. case n_link (nd st node) of
         None \<Rightarrow> st
       | Some l \<Rightarrow>
           if node = myself st \<or> nodeInHandshake E st node then st
           else if target = CLUSTER_BROADCAST_LOCAL_SLAVES \<and> \<not> local_slave E st node then st
           else clusterSendPing E l PONG st) (node_refs st0) st0"

definition clusterSendPublish :: "env \<Rightarrow> lref option \<Rightarrow> string \<Rightarrow> string \<Rightarrow> cst \<Rightarrow> cst" where
  "clusterSendPublish E l channel message st =
    (let msg = (clusterBuildMessageHdr E PUBLISH st)
           \<lparr>m_data := Publish (length channel mod 2 ^ 32) (length message mod 2 ^ 32) (channel @ message),
            m_totlen := (hdr_len E + publish_len E - 8 + length channel + length message) mod 2 ^ 32\<rparr>
     in case l of Some l \<Rightarrow> clusterSendMessage l msg st | None \<Rightarrow> clusterBroadcastMessage msg st)"

definition clusterSendFail :: "env \<Rightarrow> string \<Rightarrow> cst \<Rightarrow> cst" where
  "clusterSendFail E nodename st =
     clusterBroadcastMessage ((clusterBuildMessageHdr E FAIL st)\<lparr>m_data := Fail nodename\<rparr>) st"

definition clusterSendUpdate :: "env \<Rightarrow> lref option \<Rightarrow> nref \<Rightarrow> cst \<Rightarrow> cst" where
  "clusterSendUpdate E l node st = (case l of
      None \<Rightarrow> st
    | Some l \<Rightarrow> clusterSendMessage l ((clusterBuildMessageHdr E UPDATE st)
        \<lparr>m_data := Update (n_configEpoch (nd st node)) (n_name (nd st node)) (n_slots (nd st node))\<rparr>) st)"

definition clusterPropagatePublish :: "env \<Rightarrow> string \<Rightarrow> string \<Rightarrow> cst \<Rightarrow> cst" where
  "clusterPropagatePublish E channel message = clusterSendPublish E None channel message"

definition clusterRequestFailoverAuth :: "env \<Rightarrow> cst \<Rightarrow> cst" where
  "clusterRequestFailoverAuth E st =
     clusterBroadcastMessage ((clusterBuildMessageHdr E FAILOVER_AUTH_REQUEST st)
       \<lparr>m_forceack := (mf_end st \<noteq> 0), m_totlen := hdr_len E\<rparr>) st"

definition clusterSendFailoverAuth :: "env \<Rightarrow> nref \<Rightarrow> cst \<Rightarrow> cst" where
  "clusterSendFailoverAuth E node st = (case n_link (nd st node) of
      None \<Rightarrow> st
    | Some l \<Rightarrow> clusterSendMessage l
        ((clusterBuildMessageHdr E FAILOVER_AUTH_ACK st)\<lparr>m_totlen := hdr_len E\<rparr>) st)"

definition clusterSendMFStart :: "env \<Rightarrow> nref \<Rightarrow> cst \<Rightarrow> cst" where
  "clusterSendMFStart E node st = (case n_link (nd st node) of
      None \<Rightarrow> st
    | Some l \<Rightarrow> clusterSendMessage l
        ((clusterBuildMessageHdr E MFSTART st)\<lparr>m_totlen := hdr_len E\<rparr>) st)"

end
