(* ===== verification/Cluster_Config.thy ===== *)
theory Cluster_Config
  imports Cluster_Msg
begin

text \<open>
  Configuration changes of \<^verbatim>\<open>src/examples/cluster.c\<close>: failure detection by quorum, handshakes,
  the gossip section, address changes, role changes, and the update of the slot table from a
  claimed configuration.
\<close>

section \<open>Failure detection\<close>

definition markNodeAsFailingIfNeeded :: "env \<Rightarrow> nref \<Rightarrow> cst \<Rightarrow> cst" where
  "markNodeAsFailingIfNeeded E node st0 =
    (let needed_quorum = cl_size st0 div 2 + 1 in
     if \<not> nodeTimedOut E st0 node then st0
     else if nodeFailed E st0 node then st0
     else let (failures, st) = clusterNodeFailureReportsCount E node st0;
              failures = (if nodeIsMaster E st (myself st) then failures + 1 else failures)
          in if failures < needed_quorum then st
             else let st = del_flags node {NF_PFAIL} st;
                      st = add_flags node {NF_FAIL} st;
                      st = upd_node node (\<lambda>n. n\<lparr>n_fail_time := mstime E\<rparr>) st;
                      st = (if nodeIsMaster E st (myself st)
                            then clusterSendFail E (n_name (nd st node)) st else st)
                  in clusterDoBeforeSleep {TODO_UPDATE_STATE, TODO_SAVE_CONFIG} st)"

definition clearNodeFailureIfNeeded :: "env \<Rightarrow> nref \<Rightarrow> cst \<Rightarrow> cst" where
  "clearNodeFailureIfNeeded E node st0 =
    (let st = serverAssert (nodeFailed E st0 node) st0;
         st = (if nodeIsSlave E st node \<or> n_numslots (nd st node) = 0
               then clusterDoBeforeSleep {TODO_UPDATE_STATE, TODO_SAVE_CONFIG} (del_flags node {NF_FAIL} st)
               else st)
     in if nodeIsMaster E st node \<and> n_numslots (nd st node) > 0
           \<and> mstime E - n_fail_time (nd st node) > cluster_node_timeout E * CLUSTER_FAIL_UNDO_TIME_MULT E
        then clusterDoBeforeSleep {TODO_UPDATE_STATE, TODO_SAVE_CONFIG} (del_flags node {NF_FAIL} st)
        else st)"

section \<open>Handshakes\<close>

definition lower_char :: "char \<Rightarrow> char" where
  "lower_char c = (if 65 \<le> (of_char c :: nat) \<and> (of_char c :: nat) \<le> 90 then char_of ((of_char c :: nat) + 32) else c)"

definition strcasecmp_eq :: "string \<Rightarrow> string \<Rightarrow> bool" where
  "strcasecmp_eq s t \<longleftrightarrow> map lower_char s = map lower_char t"

definition clusterHandshakeInProgress :: "env \<Rightarrow> cst \<Rightarrow> string \<Rightarrow> int \<Rightarrow> int \<Rightarrow> bool" where
  "clusterHandshakeInProgress E st ip port cport =
     list_ex (\<lambda>r. nodeInHandshake E st r \<and> strcasecmp_eq (n_ip (nd st r)) ip
       \<and> n_port (nd st r) = port \<and> n_cport (nd st r) = cport) (node_refs st)"

datatype handshake = HS_STARTED | HS_EINVAL | HS_EAGAIN

definition clusterStartHandshake :: "env \<Rightarrow> string \<Rightarrow> int \<Rightarrow> int \<Rightarrow> cst \<Rightarrow> handshake \<times> cst" where
  "clusterStartHandshake E ip port cport st0 = (case norm_ip E ip of
      None \<Rightarrow> (HS_EINVAL, st0)
    | Some nip \<Rightarrow>
        if port \<le> 0 \<or> port > 65535 \<or> cport \<le> 0 \<or> cport > 65535 then (HS_EINVAL, st0)
        else if clusterHandshakeInProgress E st0 nip port cport then (HS_EAGAIN, st0)
        else let (n, st) = createClusterNode E None {NF_HANDSHAKE, NF_MEET} st0;
                 st = upd_node n (\<lambda>x. x\<lparr>n_ip := nip, n_port := port, n_cport := cport\<rparr>) st
             in (HS_STARTED, snd (clusterAddNode n st)))"

section \<open>The gossip section\<close>

definition gossip_reports :: "env \<Rightarrow> nref option \<Rightarrow> clusterMsgDataGossip \<Rightarrow> nref \<Rightarrow> cst \<Rightarrow> cst" where
  "gossip_reports E sender g node st = (case sender of
      Some s \<Rightarrow>
        if nodeIsMaster E st s \<and> node \<noteq> myself st then
          if g_flags g \<inter> {NF_FAIL, NF_PFAIL} \<noteq> {}
          then markNodeAsFailingIfNeeded E node (snd (clusterNodeAddFailureReport E node s st))
          else snd (clusterNodeDelFailureReport E node s st)
        else st
    | None \<Rightarrow> st)"

definition gossip_pong :: "env \<Rightarrow> clusterMsgDataGossip \<Rightarrow> nref \<Rightarrow> cst \<Rightarrow> cst" where
  "gossip_pong E g node st =
    (if g_flags g \<inter> {NF_FAIL, NF_PFAIL} = {} \<and> n_ping_sent (nd st node) = 0 then
       (let (reports, st) = clusterNodeFailureReportsCount E node st in
        if reports = 0 then
          (let pongtime = g_pong_received g * 1000 in
           if pongtime \<le> server_mstime E + 500 \<and> pongtime > n_pong_received (nd st node)
           then upd_node node (\<lambda>n. n\<lparr>n_pong_received := pongtime\<rparr>) st else st)
        else st)
     else st)"

definition gossip_address :: "env \<Rightarrow> clusterMsgDataGossip \<Rightarrow> nref \<Rightarrow> cst \<Rightarrow> cst" where
  "gossip_address E g node st =
    (if has_flag st node {NF_FAIL, NF_PFAIL} \<and> NF_NOADDR \<notin> g_flags g
        \<and> g_flags g \<inter> {NF_FAIL, NF_PFAIL} = {}
        \<and> (\<not> strcasecmp_eq (n_ip (nd st node)) (g_ip g) \<or> n_port (nd st node) \<noteq> g_port g
           \<or> n_cport (nd st node) \<noteq> g_cport g)
     then
       (let st = (case n_link (nd st node) of Some l \<Rightarrow> freeClusterLink l st | None \<Rightarrow> st);
            st = upd_node node (\<lambda>n. n\<lparr>n_ip := g_ip g, n_port := g_port g, n_cport := g_cport g\<rparr>) st
        in del_flags node {NF_NOADDR} st)
     else st)"

definition clusterProcessGossipEntry :: "env \<Rightarrow> nref option \<Rightarrow> clusterMsgDataGossip \<Rightarrow> cst \<Rightarrow> cst" where
  "clusterProcessGossipEntry E sender g st = (case clusterLookupNode E st (g_nodename g) of
      Some node \<Rightarrow> gossip_address E g node (gossip_pong E g node (gossip_reports E sender g node st))
    | None \<Rightarrow>
        if sender \<noteq> None \<and> NF_NOADDR \<notin> g_flags g then
          (let (listed, st) = clusterBlacklistExists E (g_nodename g) st in
           if listed then st else snd (clusterStartHandshake E (g_ip g) (g_port g) (g_cport g) st))
        else st)"

definition gossip_entries :: "clusterMsg \<Rightarrow> clusterMsgDataGossip list" where
  "gossip_entries hdr = (case m_data hdr of Gossip gs \<Rightarrow> take (m_count hdr) gs | _ \<Rightarrow> [])"

definition clusterProcessGossipSection :: "env \<Rightarrow> clusterMsg \<Rightarrow> lref \<Rightarrow> cst \<Rightarrow> cst" where
  "clusterProcessGossipSection E hdr link st =
    (let sender = (case l_node (lk st link) of Some n \<Rightarrow> Some n | None \<Rightarrow> clusterLookupNode E st (m_sender hdr))
     in fold (clusterProcessGossipEntry E sender) (gossip_entries hdr) st)"

section \<open>Addresses\<close>

definition nodeIp2String :: "env \<Rightarrow> cst \<Rightarrow> lref \<Rightarrow> string \<Rightarrow> string" where
  "nodeIp2String E st link announced_ip =
    (if announced_ip \<noteq> [] then take (NET_IP_STR_LEN E - 1) announced_ip else peer_ip E (l_fd (lk st link)))"

definition nodeUpdateAddressIfNeeded :: "env \<Rightarrow> nref \<Rightarrow> lref \<Rightarrow> clusterMsg \<Rightarrow> cst \<Rightarrow> bool \<times> cst" where
  "nodeUpdateAddressIfNeeded E node link hdr st =
    (let ip = nodeIp2String E st link (m_myip hdr) in
     if n_link (nd st node) = Some link then (False, st)
     else if n_port (nd st node) = m_port hdr \<and> n_cport (nd st node) = m_cport hdr \<and> ip = n_ip (nd st node)
     then (False, st)
     else let st = upd_node node (\<lambda>n. n\<lparr>n_ip := ip, n_port := m_port hdr, n_cport := m_cport hdr\<rparr>) st;
              st = (case n_link (nd st node) of Some l \<Rightarrow> freeClusterLink l st | None \<Rightarrow> st);
              st = del_flags node {NF_NOADDR} st;
              st = (if nodeIsSlave E st (myself st) \<and> n_slaveof (nd st (myself st)) = Some node
                    then emit (ReplicationSetMaster (n_ip (nd st node)) (n_port (nd st node))) st else st)
          in (True, st))"

section \<open>Roles\<close>

definition clusterSetNodeAsMaster :: "env \<Rightarrow> nref \<Rightarrow> cst \<Rightarrow> cst" where
  "clusterSetNodeAsMaster E n st0 =
    (if nodeIsMaster E st0 n then st0
     else let st = (case n_slaveof (nd st0 n) of
                Some m \<Rightarrow>
                  (let st = snd (clusterNodeRemoveSlave m n st0)
                   in if n \<noteq> myself st then add_flags n {NF_MIGRATE_TO} st else st)
              | None \<Rightarrow> st0);
              st = del_flags n {NF_SLAVE} st;
              st = add_flags n {NF_MASTER} st;
              st = upd_node n (\<lambda>x. x\<lparr>n_slaveof := None\<rparr>) st
          in clusterDoBeforeSleep {TODO_SAVE_CONFIG, TODO_UPDATE_STATE} st)"

definition resetManualFailover :: "env \<Rightarrow> cst \<Rightarrow> cst" where
  "resetManualFailover E st0 =
    (let st = (if mf_end st0 \<noteq> 0 \<and> clientsArePaused E then emit UnpauseClients st0 else st0)
     in st\<lparr>mf_end := 0, mf_can_start := False, mf_slave := None, mf_master_offset := 0\<rparr>)"

definition clusterSetMaster :: "env \<Rightarrow> nref \<Rightarrow> cst \<Rightarrow> cst" where
  "clusterSetMaster E n st0 =
    (let me = myself st0;
         st = serverAssert (n \<noteq> me) st0;
         st = serverAssert (n_numslots (nd st me) = 0) st;
         st = (if nodeIsMaster E st me then
                 clusterCloseAllSlots E (add_flags me {NF_SLAVE} (del_flags me {NF_MASTER, NF_MIGRATE_TO} st))
               else (case n_slaveof (nd st me) of
                       Some m \<Rightarrow> snd (clusterNodeRemoveSlave m me st) | None \<Rightarrow> st));
         st = upd_node me (\<lambda>x. x\<lparr>n_slaveof := Some n\<rparr>) st;
         st = snd (clusterNodeAddSlave n me st);
         st = emit (ReplicationSetMaster (n_ip (nd st n)) (n_port (nd st n))) st
     in resetManualFailover E st)"

section \<open>Claimed slots\<close>

text \<open>
  One round of the loop over the slots. The loop carries the list of dirty slots and whether a
  slot was taken from \<open>curmaster\<close> (the code's \<open>newmaster\<close>, which is the sender then).
\<close>

definition update_slot :: "env \<Rightarrow> nref \<Rightarrow> epoch \<Rightarrow> bitmap \<Rightarrow> nref option \<Rightarrow> nat
    \<Rightarrow> nat list \<times> bool \<times> cst \<Rightarrow> nat list \<times> bool \<times> cst" where
  "update_slot E sender senderConfigEpoch claimed curmaster j = (\<lambda>(dirty, newmaster, st).
     if bitmapTestBit claimed j then
       if slots st ! j = Some sender then (dirty, newmaster, st)
       else if importing_slots_from st ! j \<noteq> None then (dirty, newmaster, st)
       else if (case slots st ! j of None \<Rightarrow> True | Some o' \<Rightarrow> n_configEpoch (nd st o') < senderConfigEpoch)
       then
         (let dirty = (if slots st ! j = Some (myself st) \<and> countKeysInSlot E j \<noteq> 0 \<and> sender \<noteq> myself st
                       then dirty @ [j] else dirty);
              newmaster = (newmaster \<or> slots st ! j = curmaster);
              st = snd (clusterDelSlot j st);
              st = snd (clusterAddSlot E sender j st)
          in (dirty, newmaster, clusterDoBeforeSleep {TODO_SAVE_CONFIG, TODO_UPDATE_STATE, TODO_FSYNC_CONFIG} st))
       else (dirty, newmaster, st)
     else (dirty, newmaster, st))"

definition clusterUpdateSlotsConfigWith :: "env \<Rightarrow> nref \<Rightarrow> epoch \<Rightarrow> bitmap \<Rightarrow> cst \<Rightarrow> cst" where
  "clusterUpdateSlotsConfigWith E sender senderConfigEpoch claimed st0 =
    (let curmaster = (if nodeIsMaster E st0 (myself st0) then Some (myself st0)
                      else n_slaveof (nd st0 (myself st0)))
     in if sender = myself st0 then st0
        else let (dirty, newmaster, st) = fold (update_slot E sender senderConfigEpoch claimed curmaster)
                     [0..<CLUSTER_SLOTS E] ([], False, st0);
                 demote = (newmaster \<and> (case curmaster of Some m \<Rightarrow> n_numslots (nd st m) = 0 | None \<Rightarrow> False));
                 st = (if newmaster \<and> curmaster = None then abort st else st)
             in if demote
                then clusterDoBeforeSleep {TODO_SAVE_CONFIG, TODO_UPDATE_STATE, TODO_FSYNC_CONFIG}
                       (clusterSetMaster E sender st)
                else fold (\<lambda>j. emit (DelKeysInSlot j)) dirty st)"

end
