(* ===== verification/Cluster_Failover.thy ===== *)
theory Cluster_Failover
  imports Cluster_Config
begin

text \<open>
  Votes and failover of \<^verbatim>\<open>src/examples/cluster.c\<close>: when a master votes, the election of a slave,
  taking over the slots of the old master, slave migration, manual failover, and the evaluation
  of the cluster state.
\<close>

section \<open>Voting\<close>

definition claims_old_slot :: "env \<Rightarrow> cst \<Rightarrow> bitmap \<Rightarrow> epoch \<Rightarrow> bool" where
  "claims_old_slot E st claimed requestConfigEpoch =
     list_ex (\<lambda>j. bitmapTestBit claimed j
       \<and> (case slots st ! j of None \<Rightarrow> False | Some o' \<Rightarrow> \<not> n_configEpoch (nd st o') \<le> requestConfigEpoch))
       [0..<CLUSTER_SLOTS E]"

definition clusterSendFailoverAuthIfNeeded :: "env \<Rightarrow> nref \<Rightarrow> clusterMsg \<Rightarrow> cst \<Rightarrow> cst" where
  "clusterSendFailoverAuthIfNeeded E node request st =
    (if nodeIsSlave E st (myself st) \<or> n_numslots (nd st (myself st)) = 0 then st
     else if m_currentEpoch request < currentEpoch st then st
     else if lastVoteEpoch st = currentEpoch st then st
     else if nodeIsMaster E st node then st
     else (case n_slaveof (nd st node) of
         None \<Rightarrow> st
       | Some master \<Rightarrow>
           if \<not> nodeFailed E st master \<and> \<not> m_forceack request then st
           else if mstime E - n_voted_time (nd st master) < cluster_node_timeout E * 2 then st
           else if claims_old_slot E st (m_myslots request) (m_configEpoch request) then st
           else let st = clusterSendFailoverAuth E node st;
                    st = st\<lparr>lastVoteEpoch := currentEpoch st\<rparr>
                in upd_node master (\<lambda>n. n\<lparr>n_voted_time := mstime E\<rparr>) st))"

section \<open>Elections\<close>

definition clusterGetSlaveRank :: "env \<Rightarrow> cst \<Rightarrow> int \<times> cst" where
  "clusterGetSlaveRank E st0 =
    (let st = serverAssert (nodeIsSlave E st0 (myself st0)) st0 in
     (case n_slaveof (nd st (myself st)) of
        None \<Rightarrow> (0, st)
      | Some master \<Rightarrow>
          (int (length (filter (\<lambda>s. s \<noteq> myself st \<and> n_repl_offset (nd st s) > replicationGetSlaveOffset E)
             (n_slaves (nd st master)))), st)))"

definition clusterLogCantFailover :: "env \<Rightarrow> cant_failover \<Rightarrow> cst \<Rightarrow> cst" where
  "clusterLogCantFailover E reason st =
    (if reason = cant_failover_reason st
        \<and> time_now E - lastlog_time st < CLUSTER_CANT_FAILOVER_RELOG_PERIOD E then st
     else let st = st\<lparr>cant_failover_reason := reason\<rparr> in
       if (case n_slaveof (nd st (myself st)) of
             Some m \<Rightarrow> nodeFailed E st m \<and> mstime E - n_fail_time (nd st m) < cluster_node_timeout E + 5000
           | None \<Rightarrow> False)
       then st
       else emit (LogCantFailover reason) (st\<lparr>lastlog_time := time_now E\<rparr>))"

section \<open>The cluster state\<close>

definition CLUSTER_MAX_REJOIN_DELAY :: int where "CLUSTER_MAX_REJOIN_DELAY = 5000"
definition CLUSTER_MIN_REJOIN_DELAY :: int where "CLUSTER_MIN_REJOIN_DELAY = 500"
definition CLUSTER_WRITABLE_DELAY :: int where "CLUSTER_WRITABLE_DELAY = 2000"

definition slot_uncovered :: "env \<Rightarrow> cst \<Rightarrow> bool" where
  "slot_uncovered E st = list_ex (\<lambda>j. case slots st ! j of None \<Rightarrow> True | Some n \<Rightarrow> has_flag st n {NF_FAIL})
     [0..<CLUSTER_SLOTS E]"

definition serving_masters :: "env \<Rightarrow> cst \<Rightarrow> nref list" where
  "serving_masters E st = filter (\<lambda>r. nodeIsMaster E st r \<and> n_numslots (nd st r) \<noteq> 0) (node_refs st)"

definition clusterUpdateState :: "env \<Rightarrow> cst \<Rightarrow> cst" where
  "clusterUpdateState E st0 =
    (let st = st0\<lparr>todo_before_sleep := todo_before_sleep st0 - {TODO_UPDATE_STATE}\<rparr>;
         st = (if first_call_time st = 0 then st\<lparr>first_call_time := mstime E\<rparr> else st)
     in if nodeIsMaster E st (myself st) \<and> cl_state st = CLUSTER_FAIL
           \<and> mstime E - first_call_time st < CLUSTER_WRITABLE_DELAY then st
        else
          (let new_state = (if cluster_require_full_coverage E \<and> slot_uncovered E st then CLUSTER_FAIL else CLUSTER_OK);
               reachable_masters = int (length (filter (\<lambda>r. \<not> has_flag st r {NF_FAIL, NF_PFAIL}) (serving_masters E st)));
               st = st\<lparr>cl_size := int (length (serving_masters E st))\<rparr>;
               needed_quorum = cl_size st div 2 + 1;
               (new_state, st) = (if reachable_masters < needed_quorum
                 then (CLUSTER_FAIL, st\<lparr>among_minority_time := mstime E\<rparr>) else (new_state, st))
           in if new_state \<noteq> cl_state st then
                (let d = cluster_node_timeout E;
                     d = (if d > CLUSTER_MAX_REJOIN_DELAY then CLUSTER_MAX_REJOIN_DELAY else d);
                     d = (if d < CLUSTER_MIN_REJOIN_DELAY then CLUSTER_MIN_REJOIN_DELAY else d)
                 in if new_state = CLUSTER_OK \<and> nodeIsMaster E st (myself st)
                       \<and> mstime E - among_minority_time st < d then st
                    else st\<lparr>cl_state := new_state\<rparr>)
              else st))"

section \<open>Failover\<close>

definition take_slot :: "env \<Rightarrow> nref \<Rightarrow> nat \<Rightarrow> cst \<Rightarrow> cst" where
  "take_slot E oldmaster j st =
    (if clusterNodeGetSlotBit st oldmaster j
     then snd (clusterAddSlot E (myself st) j (snd (clusterDelSlot j st))) else st)"

definition clusterFailoverReplaceYourMaster :: "env \<Rightarrow> cst \<Rightarrow> cst" where
  "clusterFailoverReplaceYourMaster E st0 = (case n_slaveof (nd st0 (myself st0)) of
      None \<Rightarrow> st0
    | Some oldmaster \<Rightarrow>
        if nodeIsMaster E st0 (myself st0) then st0
        else let st = clusterSetNodeAsMaster E (myself st0) st0;
                 st = emit ReplicationUnsetMaster st;
                 st = fold (take_slot E oldmaster) [0..<CLUSTER_SLOTS E] st;
                 st = clusterUpdateState E st;
                 st = clusterSaveConfigOrDie E True st;
                 st = clusterBroadcastPong E CLUSTER_BROADCAST_ALL st
             in resetManualFailover E st)"

definition auth_timeout :: "env \<Rightarrow> int" where
  "auth_timeout E = (if cluster_node_timeout E * 2 < 2000 then 2000 else cluster_node_timeout E * 2)"

definition data_age :: "env \<Rightarrow> int" where
  "data_age E =
    (let a = (if repl_connected E then (unixtime E - master_lastinteraction E) * 1000
              else (unixtime E - repl_down_since E) * 1000)
     in if a > cluster_node_timeout E then a - cluster_node_timeout E else a)"

definition data_too_old :: "env \<Rightarrow> bool" where
  "data_too_old E \<longleftrightarrow> cluster_slave_validity_factor E \<noteq> 0
     \<and> data_age E > repl_ping_slave_period E * 1000 + cluster_node_timeout E * cluster_slave_validity_factor E"

definition schedule_election :: "env \<Rightarrow> cst \<Rightarrow> cst" where
  "schedule_election E st0 =
    (let st = st0\<lparr>failover_auth_time := mstime E + 500 + int (random_val E (rand_pos st0) mod 500),
                 rand_pos := Suc (rand_pos st0), failover_auth_count := 0, failover_auth_sent := False\<rparr>;
         (rank, st) = clusterGetSlaveRank E st;
         st = st\<lparr>failover_auth_rank := rank, failover_auth_time := failover_auth_time st + rank * 1000\<rparr>;
         st = (if mf_end st \<noteq> 0 then st\<lparr>failover_auth_time := mstime E, failover_auth_rank := 0\<rparr> else st)
     in clusterBroadcastPong E CLUSTER_BROADCAST_LOCAL_SLAVES st)"

definition adjust_rank :: "env \<Rightarrow> cst \<Rightarrow> cst" where
  "adjust_rank E st =
    (if \<not> failover_auth_sent st \<and> mf_end st = 0 then
       (let (newrank, st) = clusterGetSlaveRank E st in
        if newrank > failover_auth_rank st
        then st\<lparr>failover_auth_time := failover_auth_time st + (newrank - failover_auth_rank st) * 1000,
                failover_auth_rank := newrank\<rparr>
        else st)
     else st)"

definition request_votes :: "env \<Rightarrow> cst \<Rightarrow> cst" where
  "request_votes E st0 =
    (let st = st0\<lparr>currentEpoch := currentEpoch st0 + 1\<rparr>;
         st = st\<lparr>failover_auth_epoch := currentEpoch st\<rparr>;
         st = clusterRequestFailoverAuth E st;
         st = st\<lparr>failover_auth_sent := True\<rparr>
     in clusterDoBeforeSleep {TODO_SAVE_CONFIG, TODO_UPDATE_STATE, TODO_FSYNC_CONFIG} st)"

definition win_election :: "env \<Rightarrow> cst \<Rightarrow> cst" where
  "win_election E st0 =
    (let st = (if n_configEpoch (nd st0 (myself st0)) < failover_auth_epoch st0
               then set_my_epoch (failover_auth_epoch st0) st0 else st0)
     in clusterFailoverReplaceYourMaster E st)"

definition no_failover_reason :: "env \<Rightarrow> bool \<Rightarrow> cst \<Rightarrow> bool" where
  "no_failover_reason E manual_failover st \<longleftrightarrow> nodeIsMaster E st (myself st)
     \<or> (case n_slaveof (nd st (myself st)) of None \<Rightarrow> True
        | Some m \<Rightarrow> \<not> nodeFailed E st m \<and> \<not> manual_failover \<or> n_numslots (nd st m) = 0)"

definition clusterHandleSlaveFailover :: "env \<Rightarrow> cst \<Rightarrow> cst" where
  "clusterHandleSlaveFailover E st0 =
    (let auth_age = mstime E - failover_auth_time st0;
         needed_quorum = cl_size st0 div 2 + 1;
         manual_failover = (mf_end st0 \<noteq> 0 \<and> mf_can_start st0);
         st = st0\<lparr>todo_before_sleep := todo_before_sleep st0 - {TODO_HANDLE_FAILOVER}\<rparr>
     in if no_failover_reason E manual_failover st then st\<lparr>cant_failover_reason := CF_NONE\<rparr>
        else if data_too_old E \<and> \<not> manual_failover then clusterLogCantFailover E CF_DATA_AGE st
        else if auth_age > auth_timeout E * 2 then schedule_election E st
        else let st = adjust_rank E st in
          if mstime E < failover_auth_time st then clusterLogCantFailover E CF_WAITING_DELAY st
          else if auth_age > auth_timeout E then clusterLogCantFailover E CF_EXPIRED st
          else if \<not> failover_auth_sent st then request_votes E st
          else if failover_auth_count st \<ge> needed_quorum then win_election E st
          else clusterLogCantFailover E CF_WAITING_VOTES st)"

section \<open>Slave migration\<close>

definition orphaned :: "env \<Rightarrow> cst \<Rightarrow> nref \<Rightarrow> int \<Rightarrow> bool" where
  "orphaned E st node okslaves \<longleftrightarrow> \<not> (nodeIsSlave E st node \<or> nodeFailed E st node)
     \<and> has_flag st node {NF_MIGRATE_TO} \<and> \<not> okslaves > 0"

definition migration_step :: "env \<Rightarrow> int \<Rightarrow> nref \<Rightarrow> nref option \<times> nref \<times> cst \<Rightarrow> nref option \<times> nref \<times> cst" where
  "migration_step E max_slaves node = (\<lambda>(target, candidate, st).
     let okslaves = (if nodeIsMaster E st node then clusterCountNonFailingSlaves E st node else 0);
         is_orphaned = orphaned E st node okslaves;
         target = (if is_orphaned \<and> target = None \<and> n_numslots (nd st node) > 0 then Some node else target);
         st = (if is_orphaned
               then (if n_orphaned_time (nd st node) = 0
                     then upd_node node (\<lambda>n. n\<lparr>n_orphaned_time := mstime E\<rparr>) st else st)
               else upd_node node (\<lambda>n. n\<lparr>n_orphaned_time := 0\<rparr>) st);
         candidate = (if okslaves = max_slaves
               then fold (\<lambda>s c. if memcmp_less (n_name (nd st s)) (n_name (nd st c)) then s else c)
                      (n_slaves (nd st node)) candidate
               else candidate)
     in (target, candidate, st))"

definition clusterHandleSlaveMigration :: "env \<Rightarrow> int \<Rightarrow> cst \<Rightarrow> cst" where
  "clusterHandleSlaveMigration E max_slaves st0 =
    (if cl_state st0 \<noteq> CLUSTER_OK then st0
     else (case n_slaveof (nd st0 (myself st0)) of
         None \<Rightarrow> st0
       | Some mymaster \<Rightarrow>
           if int (length (filter (\<lambda>s. \<not> nodeFailed E st0 s \<and> \<not> nodeTimedOut E st0 s) (n_slaves (nd st0 mymaster))))
              \<le> cluster_migration_barrier E then st0
           else let (target, candidate, st) = fold (migration_step E max_slaves) (node_refs st0) (None, myself st0, st0)
                in (case target of
                      Some t \<Rightarrow>
                        if candidate = myself st
                           \<and> mstime E - n_orphaned_time (nd st t) > CLUSTER_SLAVE_MIGRATION_DELAY E
                        then clusterSetMaster E t st else st
                    | None \<Rightarrow> st)))"

section \<open>Manual failover\<close>

definition manualFailoverCheckTimeout :: "env \<Rightarrow> cst \<Rightarrow> cst" where
  "manualFailoverCheckTimeout E st =
     (if mf_end st \<noteq> 0 \<and> mf_end st < mstime E then resetManualFailover E st else st)"

definition clusterHandleManualFailover :: "env \<Rightarrow> cst \<Rightarrow> cst" where
  "clusterHandleManualFailover E st =
    (if mf_end st = 0 then st
     else if mf_can_start st then st
     else if mf_master_offset st = 0 then st
     else if mf_master_offset st = replicationGetSlaveOffset E then st\<lparr>mf_can_start := True\<rparr>
     else st)"

end
