(* ===== verification/Cluster_Packet.thy ===== *)
theory Cluster_Packet
  imports Cluster_Failover
begin

text \<open>
  \<open>clusterProcessPacket\<close> of \<^verbatim>\<open>src/examples/cluster.c\<close>, one definition per part of the function.
  A packet arrives decoded; its length field, its counts and the length of the receive buffer
  are kept, with the 32-bit arithmetic of the length checks. The result tells whether the link
  is still valid.
\<close>

section \<open>Sanity checks\<close>

definition expected_len :: "env \<Rightarrow> clusterMsg \<Rightarrow> nat option" where
  "expected_len E hdr = (case m_type hdr of
      PING \<Rightarrow> Some ((hdr_len E + gossip_len E * m_count hdr) mod 2 ^ 32)
    | PONG \<Rightarrow> Some ((hdr_len E + gossip_len E * m_count hdr) mod 2 ^ 32)
    | MEET \<Rightarrow> Some ((hdr_len E + gossip_len E * m_count hdr) mod 2 ^ 32)
    | FAIL \<Rightarrow> Some ((hdr_len E + fail_len E) mod 2 ^ 32)
    | PUBLISH \<Rightarrow> (case m_data hdr of
         Publish channel_len message_len bulk \<Rightarrow>
           Some ((hdr_len E + (publish_len E - 8 + channel_len + message_len)) mod 2 ^ 32)
       | _ \<Rightarrow> None)
    | FAILOVER_AUTH_REQUEST \<Rightarrow> Some (hdr_len E mod 2 ^ 32)
    | FAILOVER_AUTH_ACK \<Rightarrow> Some (hdr_len E mod 2 ^ 32)
    | MFSTART \<Rightarrow> Some (hdr_len E mod 2 ^ 32)
    | UPDATE \<Rightarrow> Some ((hdr_len E + update_len E) mod 2 ^ 32)
    | OTHER_TYPE _ \<Rightarrow> None)"

definition packet_ok :: "env \<Rightarrow> clusterMsg \<Rightarrow> nat \<Rightarrow> bool" where
  "packet_ok E hdr rcvlen \<longleftrightarrow> \<not> m_totlen hdr < 16 \<and> \<not> m_totlen hdr > rcvlen
     \<and> m_ver hdr = CLUSTER_PROTO_VER E
     \<and> (case expected_len E hdr of None \<Rightarrow> True | Some n \<Rightarrow> m_totlen hdr = n)"

section \<open>The sender\<close>

definition update_sender :: "env \<Rightarrow> clusterMsg \<Rightarrow> nref \<Rightarrow> cst \<Rightarrow> cst" where
  "update_sender E hdr sender st0 =
    (let st = (if m_currentEpoch hdr > currentEpoch st0 then st0\<lparr>currentEpoch := m_currentEpoch hdr\<rparr> else st0);
         st = (if m_configEpoch hdr > n_configEpoch (nd st sender)
               then clusterDoBeforeSleep {TODO_SAVE_CONFIG, TODO_FSYNC_CONFIG}
                      (upd_node sender (\<lambda>n. n\<lparr>n_configEpoch := m_configEpoch hdr\<rparr>) st)
               else st);
         st = upd_node sender (\<lambda>n. n\<lparr>n_repl_offset := m_offset hdr, n_repl_offset_time := mstime E\<rparr>) st
     in if mf_end st \<noteq> 0 \<and> nodeIsSlave E st (myself st) \<and> n_slaveof (nd st (myself st)) = Some sender
           \<and> m_paused hdr \<and> mf_master_offset st = 0
        then st\<lparr>mf_master_offset := n_repl_offset (nd st sender)\<rparr> else st)"

section \<open>PING and MEET\<close>

definition update_my_ip :: "env \<Rightarrow> clusterMsg \<Rightarrow> lref \<Rightarrow> cst \<Rightarrow> cst" where
  "update_my_ip E hdr link st =
    (if (m_type hdr = MEET \<or> n_ip (nd st (myself st)) = []) \<and> cluster_announce_ip E = None then
       (case sock_name E (l_fd (lk st link)) of
          Some ip \<Rightarrow> if ip \<noteq> n_ip (nd st (myself st))
            then clusterDoBeforeSleep {TODO_SAVE_CONFIG} (upd_node (myself st) (\<lambda>n. n\<lparr>n_ip := ip\<rparr>) st) else st
        | None \<Rightarrow> st)
     else st)"

definition meet_unknown :: "env \<Rightarrow> clusterMsg \<Rightarrow> lref \<Rightarrow> cst \<Rightarrow> cst" where
  "meet_unknown E hdr link st0 =
    (let (node, st) = createClusterNode E None {NF_HANDSHAKE} st0;
         ip = nodeIp2String E st link (m_myip hdr);
         st = upd_node node (\<lambda>n. n\<lparr>n_ip := ip, n_port := m_port hdr, n_cport := m_cport hdr\<rparr>) st;
         st = snd (clusterAddNode node st);
         st = clusterDoBeforeSleep {TODO_SAVE_CONFIG} st
     in clusterProcessGossipSection E hdr link st)"

definition process_ping_meet :: "env \<Rightarrow> clusterMsg \<Rightarrow> lref \<Rightarrow> nref option \<Rightarrow> cst \<Rightarrow> cst" where
  "process_ping_meet E hdr link sender st0 =
    (let st = update_my_ip E hdr link st0;
         st = (if sender = None \<and> m_type hdr = MEET then meet_unknown E hdr link st else st)
     in clusterSendPing E link PONG st)"

section \<open>Configuration carried by PING, PONG and MEET\<close>

text \<open>The node of the link: \<open>Some\<close> value is an early return of the packet handler.\<close>

definition process_link_node :: "env \<Rightarrow> clusterMsg \<Rightarrow> lref \<Rightarrow> nref option \<Rightarrow> cst \<Rightarrow> bool option \<times> cst" where
  "process_link_node E hdr link sender st = (case l_node (lk st link) of
      None \<Rightarrow> (None, st)
    | Some n \<Rightarrow>
        if nodeInHandshake E st n then
          (case sender of
             Some s \<Rightarrow>
               (let (changed, st) = nodeUpdateAddressIfNeeded E s link hdr st;
                    st = (if changed then clusterDoBeforeSleep {TODO_SAVE_CONFIG, TODO_UPDATE_STATE} st else st)
                in (Some False, clusterDelNode E n st))
           | None \<Rightarrow>
               (let st = clusterRenameNode E n (m_sender hdr) st;
                    st = del_flags n {NF_HANDSHAKE} st;
                    st = add_flags n (m_flags hdr \<inter> {NF_MASTER, NF_SLAVE}) st
                in (None, clusterDoBeforeSleep {TODO_SAVE_CONFIG} st)))
        else if n_name (nd st n) \<noteq> m_sender hdr then
          (let st = add_flags n {NF_NOADDR} st;
               st = upd_node n (\<lambda>x. x\<lparr>n_ip := [], n_port := 0, n_cport := 0\<rparr>) st;
               st = freeClusterLink link st
           in (Some False, clusterDoBeforeSleep {TODO_SAVE_CONFIG} st))
        else (None, st))"

definition process_pong :: "env \<Rightarrow> clusterMsg \<Rightarrow> lref \<Rightarrow> cst \<Rightarrow> cst" where
  "process_pong E hdr link st = (case l_node (lk st link) of
      None \<Rightarrow> st
    | Some n \<Rightarrow>
        if m_type hdr = PONG then
          (let st = upd_node n (\<lambda>x. x\<lparr>n_pong_received := mstime E, n_ping_sent := 0\<rparr>) st in
           if nodeTimedOut E st n
           then clusterDoBeforeSleep {TODO_SAVE_CONFIG, TODO_UPDATE_STATE} (del_flags n {NF_PFAIL} st)
           else if nodeFailed E st n then clearNodeFailureIfNeeded E n st
           else st)
        else st)"

definition process_role :: "env \<Rightarrow> clusterMsg \<Rightarrow> nref \<Rightarrow> cst \<Rightarrow> cst" where
  "process_role E hdr sender st =
    (if m_slaveof hdr = CLUSTER_NODE_NULL_NAME E then clusterSetNodeAsMaster E sender st
     else
       (let master = clusterLookupNode E st (m_slaveof hdr);
            st = (if nodeIsMaster E st sender then
                    (let st = snd (clusterDelNodeSlots E sender st);
                         st = del_flags sender {NF_MASTER, NF_MIGRATE_TO} st;
                         st = add_flags sender {NF_SLAVE} st
                     in clusterDoBeforeSleep {TODO_SAVE_CONFIG, TODO_UPDATE_STATE} st)
                  else st)
        in (case master of
              None \<Rightarrow> st
            | Some m \<Rightarrow>
                if n_slaveof (nd st sender) \<noteq> Some m then
                  (let st = (case n_slaveof (nd st sender) of
                               Some old \<Rightarrow> snd (clusterNodeRemoveSlave old sender st) | None \<Rightarrow> st);
                       st = snd (clusterNodeAddSlave m sender st);
                       st = upd_node sender (\<lambda>x. x\<lparr>n_slaveof := Some m\<rparr>) st
                   in clusterDoBeforeSleep {TODO_SAVE_CONFIG} st)
                else st)))"

definition sender_master :: "env \<Rightarrow> cst \<Rightarrow> nref \<Rightarrow> nref option" where
  "sender_master E st sender = (if nodeIsMaster E st sender then Some sender else n_slaveof (nd st sender))"

definition sender_dirty :: "env \<Rightarrow> clusterMsg \<Rightarrow> nref \<Rightarrow> cst \<Rightarrow> bool" where
  "sender_dirty E hdr sender st = (case sender_master E st sender of
      Some m \<Rightarrow> n_slots (nd st m) \<noteq> m_myslots hdr | None \<Rightarrow> False)"

fun inform_sender :: "env \<Rightarrow> clusterMsg \<Rightarrow> nref \<Rightarrow> epoch \<Rightarrow> nat list \<Rightarrow> cst \<Rightarrow> cst" where
  "inform_sender E hdr sender senderConfigEpoch [] st = st"
| "inform_sender E hdr sender senderConfigEpoch (j # js) st =
    (if bitmapTestBit (m_myslots hdr) j then
       (case slots st ! j of
          None \<Rightarrow> inform_sender E hdr sender senderConfigEpoch js st
        | Some o' \<Rightarrow>
            if o' = sender then inform_sender E hdr sender senderConfigEpoch js st
            else if n_configEpoch (nd st o') > senderConfigEpoch
            then clusterSendUpdate E (n_link (nd st sender)) o' st
            else inform_sender E hdr sender senderConfigEpoch js st)
     else inform_sender E hdr sender senderConfigEpoch js st)"

definition process_slots :: "env \<Rightarrow> clusterMsg \<Rightarrow> nref \<Rightarrow> epoch \<Rightarrow> cst \<Rightarrow> cst" where
  "process_slots E hdr sender senderConfigEpoch st0 =
    (let dirty_slots = sender_dirty E hdr sender st0;
         st = (if nodeIsMaster E st0 sender \<and> dirty_slots
               then clusterUpdateSlotsConfigWith E sender senderConfigEpoch (m_myslots hdr) st0 else st0);
         st = (if dirty_slots then inform_sender E hdr sender senderConfigEpoch [0..<CLUSTER_SLOTS E] st else st)
     in if nodeIsMaster E st (myself st) \<and> nodeIsMaster E st sender
           \<and> senderConfigEpoch = n_configEpoch (nd st (myself st))
        then clusterHandleConfigEpochCollision E sender st else st)"

definition process_config :: "env \<Rightarrow> clusterMsg \<Rightarrow> lref \<Rightarrow> nref option \<Rightarrow> epoch \<Rightarrow> cst \<Rightarrow> bool \<times> cst" where
  "process_config E hdr link sender senderConfigEpoch st0 = (case process_link_node E hdr link sender st0 of
      (Some ret, st) \<Rightarrow> (ret, st)
    | (None, st) \<Rightarrow>
        (let st = (case sender of
               Some s \<Rightarrow>
                 if m_type hdr = PING \<and> \<not> nodeInHandshake E st s then
                   (let (changed, st) = nodeUpdateAddressIfNeeded E s link hdr st
                    in if changed then clusterDoBeforeSleep {TODO_SAVE_CONFIG, TODO_UPDATE_STATE} st else st)
                 else st
             | None \<Rightarrow> st);
             st = process_pong E hdr link st
         in (case sender of
               None \<Rightarrow> (True, st)
             | Some s \<Rightarrow>
                 (let st = process_role E hdr s st;
                      st = process_slots E hdr s senderConfigEpoch st
                  in (True, clusterProcessGossipSection E hdr link st)))))"

section \<open>The other messages\<close>

definition process_fail :: "env \<Rightarrow> string \<Rightarrow> cst \<Rightarrow> cst" where
  "process_fail E about st = (case clusterLookupNode E st about of
      None \<Rightarrow> st
    | Some failing \<Rightarrow>
        if has_flag st failing {NF_FAIL, NF_MYSELF} then st
        else let st = add_flags failing {NF_FAIL} st;
                 st = upd_node failing (\<lambda>n. n\<lparr>n_fail_time := mstime E\<rparr>) st;
                 st = del_flags failing {NF_PFAIL} st
             in clusterDoBeforeSleep {TODO_SAVE_CONFIG, TODO_UPDATE_STATE} st)"

text \<open>The two strings are read from the packet; a length beyond its end reads past the buffer.\<close>

definition process_publish :: "env \<Rightarrow> nat \<Rightarrow> nat \<Rightarrow> string \<Rightarrow> cst \<Rightarrow> cst" where
  "process_publish E channel_len message_len bulk st =
    (if pubsub_active E then
       if channel_len + message_len \<le> length bulk
       then emit (PubsubPublish (take channel_len bulk) (take message_len (drop channel_len bulk))) st
       else abort st
     else st)"

definition process_auth_ack :: "env \<Rightarrow> epoch \<Rightarrow> nref \<Rightarrow> cst \<Rightarrow> cst" where
  "process_auth_ack E senderCurrentEpoch sender st =
    (if nodeIsMaster E st sender \<and> n_numslots (nd st sender) > 0 \<and> senderCurrentEpoch \<ge> failover_auth_epoch st
     then clusterDoBeforeSleep {TODO_HANDLE_FAILOVER} (st\<lparr>failover_auth_count := failover_auth_count st + 1\<rparr>)
     else st)"

definition process_mfstart :: "env \<Rightarrow> nref \<Rightarrow> cst \<Rightarrow> cst" where
  "process_mfstart E sender st =
    (if n_slaveof (nd st sender) \<noteq> Some (myself st) then st
     else let st = resetManualFailover E st;
              st = st\<lparr>mf_end := mstime E + CLUSTER_MF_TIMEOUT E, mf_slave := Some sender\<rparr>
          in emit (PauseClients (mstime E + CLUSTER_MF_TIMEOUT E * 2)) st)"

definition process_update :: "env \<Rightarrow> epoch \<Rightarrow> string \<Rightarrow> bitmap \<Rightarrow> cst \<Rightarrow> cst" where
  "process_update E reportedConfigEpoch nodename claimed st = (case clusterLookupNode E st nodename of
      None \<Rightarrow> st
    | Some n \<Rightarrow>
        if n_configEpoch (nd st n) \<ge> reportedConfigEpoch then st
        else let st = (if nodeIsSlave E st n then clusterSetNodeAsMaster E n st else st);
                 st = upd_node n (\<lambda>x. x\<lparr>n_configEpoch := reportedConfigEpoch\<rparr>) st;
                 st = clusterDoBeforeSleep {TODO_SAVE_CONFIG, TODO_FSYNC_CONFIG} st
             in clusterUpdateSlotsConfigWith E n reportedConfigEpoch claimed st)"

section \<open>The handler\<close>

definition count_received :: "clusterMsg \<Rightarrow> cst \<Rightarrow> cst" where
  "count_received hdr st = (case m_type hdr of OTHER_TYPE _ \<Rightarrow> st
     | t \<Rightarrow> st\<lparr>stats_received := t # stats_received st\<rparr>)"

definition process_message :: "env \<Rightarrow> clusterMsg \<Rightarrow> nref option \<Rightarrow> epoch \<Rightarrow> cst \<Rightarrow> cst" where
  "process_message E hdr sender senderCurrentEpoch st = (case (m_type hdr, m_data hdr, sender) of
       (FAIL, Fail about, Some s) \<Rightarrow> process_fail E about st
     | (PUBLISH, Publish cl ml bulk, _) \<Rightarrow> process_publish E cl ml bulk st
     | (FAILOVER_AUTH_REQUEST, _, Some s) \<Rightarrow> clusterSendFailoverAuthIfNeeded E s hdr st
     | (FAILOVER_AUTH_ACK, _, Some s) \<Rightarrow> process_auth_ack E senderCurrentEpoch s st
     | (MFSTART, _, Some s) \<Rightarrow> process_mfstart E s st
     | (UPDATE, Update e name claimed, Some s) \<Rightarrow> process_update E e name claimed st
     | _ \<Rightarrow> st)"

definition clusterProcessPacket :: "env \<Rightarrow> clusterMsg \<Rightarrow> nat \<Rightarrow> lref \<Rightarrow> cst \<Rightarrow> bool \<times> cst" where
  "clusterProcessPacket E hdr rcvlen link st0 =
    (let st = count_received hdr st0
     in if \<not> packet_ok E hdr rcvlen then (True, st)
        else
          (let sender = clusterLookupNode E st (m_sender hdr);
               known = (case sender of Some s \<Rightarrow> \<not> nodeInHandshake E st s | None \<Rightarrow> False);
               senderCurrentEpoch = (if known then m_currentEpoch hdr else 0);
               senderConfigEpoch = (if known then m_configEpoch hdr else 0);
               st = (case sender of Some s \<Rightarrow> if known then update_sender E hdr s st else st | None \<Rightarrow> st);
               st = (if m_type hdr = PING \<or> m_type hdr = MEET then process_ping_meet E hdr link sender st else st)
           in if m_type hdr = PING \<or> m_type hdr = PONG \<or> m_type hdr = MEET
              then process_config E hdr link sender senderConfigEpoch st
              else (True, process_message E hdr sender senderCurrentEpoch st)))"

end
