(* ===== verification/Cluster_Cron.thy ===== *)
theory Cluster_Cron
  imports Cluster_Packet
begin

text \<open>
  The periodic job of \<^verbatim>\<open>src/examples/cluster.c\<close>, the work done before sleeping, the reset of a
  node, the acceptance of connections and the check of the configuration against the loaded
  data. Connecting to a node is the environment's \<open>connect_fd\<close>.
\<close>

section \<open>The cron job\<close>

definition sync_announce_ip :: "env \<Rightarrow> cst \<Rightarrow> cst" where
  "sync_announce_ip E st =
    (if prev_ip st \<noteq> cluster_announce_ip E then
       (let st = st\<lparr>prev_ip := cluster_announce_ip E\<rparr> in
        upd_node (myself st) (\<lambda>n. n\<lparr>n_ip := (case cluster_announce_ip E of
            Some ip \<Rightarrow> take (NET_IP_STR_LEN E - 1) ip | None \<Rightarrow> [])\<rparr>) st)
     else st)"

definition handshake_timeout :: "env \<Rightarrow> int" where
  "handshake_timeout E = (if cluster_node_timeout E < 1000 then 1000 else cluster_node_timeout E)"

definition connect_node :: "env \<Rightarrow> nref \<Rightarrow> cst \<Rightarrow> cst" where
  "connect_node E node st = (case connect_fd E (n_ip (nd st node)) (n_cport (nd st node)) of
      None \<Rightarrow> if n_ping_sent (nd st node) = 0
        then upd_node node (\<lambda>n. n\<lparr>n_ping_sent := mstime E\<rparr>) st else st
    | Some fd \<Rightarrow>
        (let (l, st) = createClusterLink E (Some node) st;
             st = upd_link l (\<lambda>x. x\<lparr>l_fd := fd\<rparr>) st;
             st = upd_node node (\<lambda>n. n\<lparr>n_link := Some l\<rparr>) st;
             old_ping_sent = n_ping_sent (nd st node);
             st = clusterSendPing E l (if has_flag st node {NF_MEET} then MEET else PING) st;
             st = (if old_ping_sent \<noteq> 0 then upd_node node (\<lambda>n. n\<lparr>n_ping_sent := old_ping_sent\<rparr>) st else st)
         in del_flags node {NF_MEET} st))"

definition reconnect_step :: "env \<Rightarrow> nref \<Rightarrow> cst \<Rightarrow> cst" where
  "reconnect_step E node st =
    (if has_flag st node {NF_MYSELF, NF_NOADDR} then st
     else let st = (if has_flag st node {NF_PFAIL}
                    then st\<lparr>stats_pfail_nodes := stats_pfail_nodes st + 1\<rparr> else st)
          in if nodeInHandshake E st node \<and> mstime E - n_ctime (nd st node) > handshake_timeout E
             then clusterDelNode E node st
             else if n_link (nd st node) = None then connect_node E node st
             else st)"

fun pick_min_pong :: "env \<Rightarrow> nat \<Rightarrow> nref option \<Rightarrow> cst \<Rightarrow> nref option \<times> cst" where
  "pick_min_pong E 0 best st = (best, st)"
| "pick_min_pong E (Suc j) best st =
    (let (this, st) = dictGetRandomKey E st;
         best = (if n_link (nd st this) = None \<or> n_ping_sent (nd st this) \<noteq> 0 then best
                 else if has_flag st this {NF_MYSELF, NF_HANDSHAKE} then best
                 else (case best of None \<Rightarrow> Some this
                       | Some b \<Rightarrow> if n_pong_received (nd st b) > n_pong_received (nd st this) then Some this else best))
     in pick_min_pong E j best st)"

definition ping_random :: "env \<Rightarrow> cst \<Rightarrow> cst" where
  "ping_random E st = (let (best, st) = pick_min_pong E 5 None st in
     (case best of
        Some n \<Rightarrow> (case n_link (nd st n) of Some l \<Rightarrow> clusterSendPing E l PING st | None \<Rightarrow> st)
      | None \<Rightarrow> st))"

text \<open>
  One round of the loop that looks for failures. It carries the number of orphaned masters, the
  greatest number of working slaves, the number of our master's and whether the state must be
  updated.
\<close>

record cron_acc =
  orphaned_masters :: int
  max_slaves :: int
  this_slaves :: int
  update_state :: bool

definition count_slaves :: "env \<Rightarrow> nref \<Rightarrow> cron_acc \<Rightarrow> cst \<Rightarrow> cron_acc" where
  "count_slaves E node acc st =
    (if nodeIsSlave E st (myself st) \<and> nodeIsMaster E st node \<and> \<not> nodeFailed E st node then
       (let okslaves = clusterCountNonFailingSlaves E st node;
            acc = (if okslaves = 0 \<and> n_numslots (nd st node) > 0 \<and> has_flag st node {NF_MIGRATE_TO}
                   then acc\<lparr>orphaned_masters := orphaned_masters acc + 1\<rparr> else acc);
            acc = (if okslaves > max_slaves acc then acc\<lparr>max_slaves := okslaves\<rparr> else acc)
        in if n_slaveof (nd st (myself st)) = Some node then acc\<lparr>this_slaves := okslaves\<rparr> else acc)
     else acc)"

definition drop_stale_link :: "env \<Rightarrow> nref \<Rightarrow> cst \<Rightarrow> cst" where
  "drop_stale_link E node st = (case n_link (nd st node) of
      Some l \<Rightarrow>
        if mstime E - l_ctime (lk st l) > cluster_node_timeout E \<and> n_ping_sent (nd st node) \<noteq> 0
           \<and> n_pong_received (nd st node) < n_ping_sent (nd st node)
           \<and> mstime E - n_ping_sent (nd st node) > cluster_node_timeout E div 2
        then freeClusterLink l st else st
    | None \<Rightarrow> st)"

definition flag_timeout :: "env \<Rightarrow> nref \<Rightarrow> cron_acc \<times> cst \<Rightarrow> cron_acc \<times> cst" where
  "flag_timeout E node = (\<lambda>(acc, st).
     if n_ping_sent (nd st node) = 0 then (acc, st)
     else if mstime E - n_ping_sent (nd st node) > cluster_node_timeout E
             \<and> \<not> has_flag st node {NF_PFAIL, NF_FAIL}
     then (acc\<lparr>update_state := True\<rparr>, add_flags node {NF_PFAIL} st)
     else (acc, st))"

definition failure_step :: "env \<Rightarrow> nref \<Rightarrow> cron_acc \<times> cst \<Rightarrow> cron_acc \<times> cst" where
  "failure_step E node = (\<lambda>(acc, st).
     if has_flag st node {NF_MYSELF, NF_NOADDR, NF_HANDSHAKE} then (acc, st)
     else let acc = count_slaves E node acc st;
              st = drop_stale_link E node st
          in (case n_link (nd st node) of
                None \<Rightarrow> flag_timeout E node (acc, st)
              | Some l \<Rightarrow>
                  if n_ping_sent (nd st node) = 0
                     \<and> mstime E - n_pong_received (nd st node) > cluster_node_timeout E div 2
                  then (acc, clusterSendPing E l PING st)
                  else if mf_end st \<noteq> 0 \<and> nodeIsMaster E st (myself st) \<and> mf_slave st = Some node
                  then (acc, clusterSendPing E l PING st)
                  else flag_timeout E node (acc, st)))"

definition start_replication :: "env \<Rightarrow> cst \<Rightarrow> cst" where
  "start_replication E st = (case n_slaveof (nd st (myself st)) of
      Some m \<Rightarrow> if nodeIsSlave E st (myself st) \<and> masterhost_null E \<and> nodeHasAddr E st m
        then emit (ReplicationSetMaster (n_ip (nd st m)) (n_port (nd st m))) st else st
    | None \<Rightarrow> st)"

definition clusterCron :: "env \<Rightarrow> cst \<Rightarrow> cst" where
  "clusterCron E st0 =
    (let st = st0\<lparr>cron_iteration := cron_iteration st0 + 1\<rparr>;
         st = sync_announce_ip E st;
         st = st\<lparr>stats_pfail_nodes := 0\<rparr>;
         st = fold (reconnect_step E) (node_refs st) st;
         st = (if cron_iteration st mod 10 = 0 then ping_random E st else st);
         (acc, st) = fold (failure_step E) (node_refs st)
            (\<lparr>orphaned_masters = 0, max_slaves = 0, this_slaves = 0, update_state = False\<rparr>, st);
         st = start_replication E st;
         st = manualFailoverCheckTimeout E st;
         st = (if nodeIsSlave E st (myself st) then
                 (let st = clusterHandleManualFailover E st;
                      st = clusterHandleSlaveFailover E st
                  in if orphaned_masters acc \<noteq> 0 \<and> max_slaves acc \<ge> 2 \<and> this_slaves acc = max_slaves acc
                     then clusterHandleSlaveMigration E (max_slaves acc) st else st)
               else st)
     in if update_state acc \<or> cl_state st = CLUSTER_FAIL then clusterUpdateState E st else st)"

section \<open>Before sleeping\<close>

definition clusterBeforeSleep :: "env \<Rightarrow> cst \<Rightarrow> cst" where
  "clusterBeforeSleep E st0 =
    (let st = (if TODO_HANDLE_FAILOVER \<in> todo_before_sleep st0 then clusterHandleSlaveFailover E st0 else st0);
         st = (if TODO_UPDATE_STATE \<in> todo_before_sleep st then clusterUpdateState E st else st);
         st = (if TODO_SAVE_CONFIG \<in> todo_before_sleep st
               then clusterSaveConfigOrDie E (TODO_FSYNC_CONFIG \<in> todo_before_sleep st) st else st)
     in st\<lparr>todo_before_sleep := {}\<rparr>)"

section \<open>Reset\<close>

definition reset_hard :: "env \<Rightarrow> cst \<Rightarrow> cst" where
  "reset_hard E st0 =
    (let st = set_my_epoch 0 (st0\<lparr>currentEpoch := 0, lastVoteEpoch := 0\<rparr>);
         st = (case dictDelete (n_name (nd st (myself st))) (nodes st) of Some d \<Rightarrow> st\<lparr>nodes := d\<rparr> | None \<Rightarrow> st);
         newname = random_name E (rand_pos st);
         st = upd_node (myself st) (\<lambda>n. n\<lparr>n_name := newname\<rparr>) (st\<lparr>rand_pos := Suc (rand_pos st)\<rparr>)
     in snd (clusterAddNode (myself st) st))"

definition clusterReset :: "env \<Rightarrow> bool \<Rightarrow> cst \<Rightarrow> cst" where
  "clusterReset E hard st0 =
    (let st = (if nodeIsSlave E st0 (myself st0)
               then emit EmptyDb (emit ReplicationUnsetMaster (clusterSetNodeAsMaster E (myself st0) st0)) else st0);
         st = clusterCloseAllSlots E st;
         st = resetManualFailover E st;
         st = fold (\<lambda>j st. snd (clusterDelSlot j st)) [0..<CLUSTER_SLOTS E] st;
         st = fold (\<lambda>node st. if node = myself st then st else clusterDelNode E node st) (node_refs st) st;
         st = (if hard then reset_hard E st else st)
     in clusterDoBeforeSleep {TODO_SAVE_CONFIG, TODO_UPDATE_STATE, TODO_FSYNC_CONFIG} st)"

section \<open>Connections and start-up\<close>

text \<open>\<open>clusterAcceptHandler\<close>, on the descriptors that \<open>accept\<close> yields in one call.\<close>

definition MAX_CLUSTER_ACCEPTS_PER_CALL :: nat where "MAX_CLUSTER_ACCEPTS_PER_CALL = 1000"

definition clusterAcceptHandler :: "env \<Rightarrow> bool \<Rightarrow> int list \<Rightarrow> cst \<Rightarrow> cst" where
  "clusterAcceptHandler E loading fds st =
    (if masterhost_null E \<and> loading then st
     else fold (\<lambda>fd st. let (l, st) = createClusterLink E None st in upd_link l (\<lambda>x. x\<lparr>l_fd := fd\<rparr>) st)
       (take MAX_CLUSTER_ACCEPTS_PER_CALL fds) st)"

definition handleLinkIOError :: "lref \<Rightarrow> cst \<Rightarrow> cst" where
  "handleLinkIOError link = freeClusterLink link"

definition verify_slot :: "env \<Rightarrow> nat \<Rightarrow> bool \<times> cst \<Rightarrow> bool \<times> cst" where
  "verify_slot E j = (\<lambda>(update_config, st).
     if countKeysInSlot E j = 0 then (update_config, st)
     else if slots st ! j = Some (myself st) \<or> importing_slots_from st ! j \<noteq> None then (update_config, st)
     else (True, if slots st ! j = None then snd (clusterAddSlot E (myself st) j st)
                 else st\<lparr>importing_slots_from := (importing_slots_from st)[j := slots st ! j]\<rparr>))"

definition verifyClusterConfigWithData :: "env \<Rightarrow> cst \<Rightarrow> bool \<times> cst" where
  "verifyClusterConfigWithData E st =
    (if nodeIsSlave E st (myself st) then (True, st)
     else if keys_outside_db0 E then (False, st)
     else let (update_config, st) = fold (verify_slot E) [0..<CLUSTER_SLOTS E] (False, st)
          in (True, if update_config then clusterSaveConfigOrDie E True st else st))"

end
