(* ===== verification/Cluster_Load.thy ===== *)
theory Cluster_Load
  imports Cluster_Cron
begin

text \<open>
  The start of a node in \<^verbatim>\<open>src/examples/cluster.c\<close>: parsing the configuration file and
  initialising the state. \<open>sdssplitargs\<close> is the environment's. A result \<open>Inl Exit\<close> is the exit
  for a corrupted file; \<open>Inl Crash\<close> is a failed assertion, a panic, or an access outside an array.
\<close>

section \<open>Numbers and strings of the C library\<close>

text \<open>The conversion of a \<open>long long\<close> to an \<open>int\<close> parameter.\<close>

definition to_int32 :: "int \<Rightarrow> int" where
  "to_int32 i = (i + 2 ^ 31) mod 2 ^ 32 - 2 ^ 31"

definition is_digit :: "char \<Rightarrow> bool" where
  "is_digit c \<longleftrightarrow> 48 \<le> (of_char c :: nat) \<and> (of_char c :: nat) \<le> 57"

definition is_space :: "char \<Rightarrow> bool" where
  "is_space c \<longleftrightarrow> (of_char c :: nat) = 32 \<or> 9 \<le> (of_char c :: nat) \<and> (of_char c :: nat) \<le> 13"

definition digits_val :: "string \<Rightarrow> nat" where
  "digits_val = foldl (\<lambda>a c. a * 10 + (of_char c - 48)) 0"

definition number_prefix :: "string \<Rightarrow> bool \<times> nat" where
  "number_prefix s0 =
    (let s = dropWhile is_space s0;
         neg = (take 1 s = ''-'');
         s = (if take 1 s = ''-'' \<or> take 1 s = ''+'' then drop 1 s else s)
     in (neg, digits_val (takeWhile is_digit s)))"

definition atoi :: "string \<Rightarrow> int" where
  "atoi s = (case number_prefix s of (neg, v) \<Rightarrow> to_int32 (if neg then - int v else int v))"

definition strtoull :: "string \<Rightarrow> 64 word" where
  "strtoull s = (case number_prefix s of (neg, v) \<Rightarrow>
     if v \<ge> 2 ^ 64 then - 1 else if neg then - of_nat v else of_nat v)"

definition strchr_split :: "char \<Rightarrow> string \<Rightarrow> (string \<times> string) option" where
  "strchr_split c s = (if c \<in> set s then Some (takeWhile (\<lambda>x. x \<noteq> c) s, tl (dropWhile (\<lambda>x. x \<noteq> c) s)) else None)"

definition strrchr_split :: "char \<Rightarrow> string \<Rightarrow> (string \<times> string) option" where
  "strrchr_split c s = map_option (\<lambda>(post, pre). (rev pre, rev post)) (strchr_split c (rev s))"

fun split_on :: "char \<Rightarrow> string \<Rightarrow> string list" where
  "split_on c [] = [[]]"
| "split_on c (x # xs) = (if x = c then [] # split_on c xs
     else (case split_on c xs of y # ys \<Rightarrow> (x # y) # ys | [] \<Rightarrow> [[x]]))"

text \<open>The lines \<open>fgets\<close> delivers for a buffer of \<open>m + 1\<close> bytes.\<close>

function fgets_lines :: "nat \<Rightarrow> string \<Rightarrow> string list" where
  "fgets_lines m s = (if s = [] \<or> m = 0 then []
     else let k = min m (length (takeWhile (\<lambda>c. c \<noteq> CHR 0x0A) s) + 1)
          in take k s # fgets_lines m (drop k s))"
  by pat_completeness auto
termination by (relation "measure (\<lambda>(m, s). length s)") (auto simp: min_def)

declare fgets_lines.simps [simp del]

section \<open>One line\<close>

datatype load_error = Exit | Crash

text \<open>The loader carries \<open>server.cluster->myself\<close>, NULL at first, and the state.\<close>

type_synonym loading = "nref option \<times> cst"

fun load_vars :: "string list \<Rightarrow> cst \<Rightarrow> load_error + cst" where
  "load_vars [] st = Inr st"
| "load_vars [v] st =
     (if strcasecmp_eq v ''currentEpoch'' \<or> strcasecmp_eq v ''lastVoteEpoch'' then Inl Crash else Inr st)"
| "load_vars (v # x # vs) st = load_vars vs
     (if strcasecmp_eq v ''currentEpoch'' then st\<lparr>currentEpoch := strtoull x\<rparr>
      else if strcasecmp_eq v ''lastVoteEpoch'' then st\<lparr>lastVoteEpoch := strtoull x\<rparr> else st)"

definition node_or_create :: "env \<Rightarrow> string \<Rightarrow> cst \<Rightarrow> nref \<times> cst" where
  "node_or_create E name st = (case clusterLookupNode E st name of
      Some n \<Rightarrow> (n, st)
    | None \<Rightarrow> (let (n, st) = createClusterNode E (Some name) {} st in (n, snd (clusterAddNode n st))))"

definition load_address :: "env \<Rightarrow> nref \<Rightarrow> string \<Rightarrow> cst \<Rightarrow> load_error + cst" where
  "load_address E n a st = (case strrchr_split (CHR '':'') a of
      None \<Rightarrow> Inl Exit
    | Some (ip, rest) \<Rightarrow>
        if length ip \<ge> NET_IP_STR_LEN E then Inl Crash
        else let (port, cport) = (case strchr_split (CHR ''@'') rest of
                   Some (p, b) \<Rightarrow> (atoi p, atoi b)
                 | None \<Rightarrow> (atoi rest, atoi rest + CLUSTER_PORT_INCR E))
             in Inr (upd_node n (\<lambda>x. x\<lparr>n_ip := ip, n_port := port, n_cport := cport\<rparr>) st))"

definition load_flag :: "env \<Rightarrow> nref \<Rightarrow> string \<Rightarrow> loading \<Rightarrow> load_error + loading" where
  "load_flag E n s = (\<lambda>(me, st).
     if strcasecmp_eq s ''myself'' then
       if me = None then Inr (Some n, add_flags n {NF_MYSELF} (st\<lparr>myself := n\<rparr>)) else Inl Crash
     else if strcasecmp_eq s ''master'' then Inr (me, add_flags n {NF_MASTER} st)
     else if strcasecmp_eq s ''slave'' then Inr (me, add_flags n {NF_SLAVE} st)
     else if strcasecmp_eq s ''fail?'' then Inr (me, add_flags n {NF_PFAIL} st)
     else if strcasecmp_eq s ''fail''
     then Inr (me, upd_node n (\<lambda>x. x\<lparr>n_fail_time := mstime E\<rparr>) (add_flags n {NF_FAIL} st))
     else if strcasecmp_eq s ''handshake'' then Inr (me, add_flags n {NF_HANDSHAKE} st)
     else if strcasecmp_eq s ''noaddr'' then Inr (me, add_flags n {NF_NOADDR} st)
     else if strcasecmp_eq s ''noflags'' then Inr (me, st)
     else Inl Crash)"

fun load_all :: "('a \<Rightarrow> 's \<Rightarrow> load_error + 's) \<Rightarrow> 'a list \<Rightarrow> 's \<Rightarrow> load_error + 's" where
  "load_all f [] s = Inr s"
| "load_all f (x # xs) s = (case f x s of Inl e \<Rightarrow> Inl e | Inr s \<Rightarrow> load_all f xs s)"

definition load_master :: "env \<Rightarrow> nref \<Rightarrow> string \<Rightarrow> cst \<Rightarrow> cst" where
  "load_master E n a st =
    (if take 1 a = ''-'' then st
     else let (master, st) = node_or_create E a st;
              st = upd_node n (\<lambda>x. x\<lparr>n_slaveof := Some master\<rparr>) st
          in snd (clusterNodeAddSlave master n st))"

definition load_open_slot :: "env \<Rightarrow> string \<Rightarrow> cst \<Rightarrow> load_error + cst" where
  "load_open_slot E a st = (case strchr_split (CHR ''-'') a of
      None \<Rightarrow> Inl Crash
    | Some (pre, post) \<Rightarrow>
        if length post < 2 then Inl Crash
        else let slot = atoi (drop 1 pre);
                 (cn, st) = node_or_create E (drop 2 post) st
             in if slot < 0 \<or> slot \<ge> int (CLUSTER_SLOTS E) then Inl Crash
                else if post ! 0 = CHR ''>''
                then Inr (st\<lparr>migrating_slots_to := (migrating_slots_to st)[nat slot := Some cn]\<rparr>)
                else Inr (st\<lparr>importing_slots_from := (importing_slots_from st)[nat slot := Some cn]\<rparr>))"

definition load_slots :: "env \<Rightarrow> nref \<Rightarrow> string \<Rightarrow> cst \<Rightarrow> load_error + cst" where
  "load_slots E n a st =
    (if take 1 a = ''['' then load_open_slot E a st
     else let (start, stop) = (case strchr_split (CHR ''-'') a of
                Some (x, y) \<Rightarrow> (atoi x, atoi y) | None \<Rightarrow> (atoi a, atoi a))
          in if start \<le> stop \<and> (start < 0 \<or> stop \<ge> int (CLUSTER_SLOTS E)) then Inl Crash
             else Inr (fold (\<lambda>j st. snd (clusterAddSlot E n j st)) [nat start..<nat (stop + 1)] st))"

definition load_node :: "env \<Rightarrow> string list \<Rightarrow> loading \<Rightarrow> load_error + loading" where
  "load_node E argv = (\<lambda>(me, st).
     let (n, st) = node_or_create E (argv ! 0) st in
     case load_address E n (argv ! 1) st of
       Inl e \<Rightarrow> Inl e
     | Inr st \<Rightarrow> (case load_all (load_flag E n) (split_on (CHR '','') (argv ! 2)) (me, st) of
         Inl e \<Rightarrow> Inl e
       | Inr (me, st) \<Rightarrow>
           (let st = load_master E n (argv ! 3) st;
                st = (if atoi (argv ! 4) \<noteq> 0 then upd_node n (\<lambda>x. x\<lparr>n_ping_sent := mstime E\<rparr>) st else st);
                st = (if atoi (argv ! 5) \<noteq> 0 then upd_node n (\<lambda>x. x\<lparr>n_pong_received := mstime E\<rparr>) st else st);
                st = upd_node n (\<lambda>x. x\<lparr>n_configEpoch := strtoull (argv ! 6)\<rparr>) st
            in case load_all (load_slots E n) (drop 8 argv) st of
                 Inl e \<Rightarrow> Inl e | Inr st \<Rightarrow> Inr (me, st))))"

definition load_line :: "env \<Rightarrow> string \<Rightarrow> loading \<Rightarrow> load_error + loading" where
  "load_line E line = (\<lambda>(me, st).
     if take 1 line = [CHR 0x0A] \<or> take 1 line = [CHR 0x00] then Inr (me, st)
     else (case sdssplitargs E (takeWhile (\<lambda>c. c \<noteq> CHR 0x00) line) of
         None \<Rightarrow> Inl Exit
       | Some [] \<Rightarrow> Inl Crash
       | Some (a # as) \<Rightarrow>
           if strcasecmp_eq a ''vars''
           then (case load_vars as st of Inl e \<Rightarrow> Inl e | Inr st \<Rightarrow> Inr (me, st))
           else if length (a # as) < 8 then Inl Exit
           else load_node E (a # as) (me, st)))"

section \<open>The file and the initial state\<close>

text \<open>\<open>Inr None\<close> is \<open>C_ERR\<close>, the file is missing or empty.\<close>

definition clusterLoadConfig :: "env \<Rightarrow> cst \<Rightarrow> load_error + cst option" where
  "clusterLoadConfig E st0 = (case conf_file st0 of
      None \<Rightarrow> Inr None
    | Some f \<Rightarrow>
        if \<not> cfg_read_ok E then Inl Exit
        else if cfg_fstat_ok E \<and> f = [] then Inr None
        else (case load_all (load_line E) (fgets_lines (1024 + CLUSTER_SLOTS E * 128 - 1) f) (None, st0) of
            Inl e \<Rightarrow> Inl e
          | Inr (None, st) \<Rightarrow> Inl Exit
          | Inr (Some me, st) \<Rightarrow>
              Inr (Some (if clusterGetMaxEpoch st > currentEpoch st
                         then st\<lparr>currentEpoch := clusterGetMaxEpoch st\<rparr> else st))))"

definition cleared_state :: "env \<Rightarrow> cst \<Rightarrow> cst" where
  "cleared_state E st = clusterCloseAllSlots E (st\<lparr>currentEpoch := 0, cl_state := CLUSTER_FAIL, cl_size := 1,
     todo_before_sleep := {}, nodes := [], nodes_black_list := [], failover_auth_time := 0,
     failover_auth_count := 0, failover_auth_rank := 0, failover_auth_epoch := 0,
     cant_failover_reason := CF_NONE, lastVoteEpoch := 0, stats_sent := [], stats_received := [],
     stats_pfail_nodes := 0, slots := replicate (CLUSTER_SLOTS E) None\<rparr>)"

definition fresh_node :: "env \<Rightarrow> cst \<Rightarrow> cst" where
  "fresh_node E st0 =
    (let (n, st) = createClusterNode E None {NF_MYSELF, NF_MASTER} st0
     in clusterSaveConfigOrDie E True (snd (clusterAddNode n (st\<lparr>myself := n\<rparr>))))"

definition set_my_ports :: "env \<Rightarrow> cst \<Rightarrow> cst" where
  "set_my_ports E st = upd_node (myself st) (\<lambda>n. n\<lparr>
     n_port := (if cluster_announce_port E \<noteq> 0 then cluster_announce_port E else server_port E),
     n_cport := (if cluster_announce_bus_port E \<noteq> 0 then cluster_announce_bus_port E
                 else server_port E + CLUSTER_PORT_INCR E)\<rparr>) st"

definition clusterInit :: "env \<Rightarrow> cst \<Rightarrow> cst" where
  "clusterInit E st0 =
    (let st = cleared_state E st0 in
     if \<not> cfg_lock_ok E then st\<lparr>exited := True\<rparr>
     else (case clusterLoadConfig E st of
         Inl Exit \<Rightarrow> st\<lparr>exited := True\<rparr>
       | Inl Crash \<Rightarrow> abort st
       | Inr res \<Rightarrow>
           (let st = (case res of Some st \<Rightarrow> st | None \<Rightarrow> fresh_node E st) in
            if exited st then st
            else if server_port E > 65535 - CLUSTER_PORT_INCR E then st\<lparr>exited := True\<rparr>
            else if \<not> listen_ok E then st\<lparr>exited := True\<rparr>
            else resetManualFailover E (set_my_ports E (st\<lparr>mf_end := 0\<rparr>)))))"

end
