(* ===== verification/Cluster_Query.thy ===== *)
theory Cluster_Query
  imports Cluster_Load
begin

text \<open>
  What clients see of \<^verbatim>\<open>src/examples/cluster.c\<close>: the slot map, the node that serves a
  command, and the redirections. A reply is a value of \<open>reply\<close>; the
  protocol encoding of the server is not part of the source.
\<close>

section \<open>Replies\<close>

datatype reply = Status string | Error string | Integer int | Bulk string | MultiBulk "reply list"
  | Raw string | SyntaxErr | NotInteger

definition crlf :: string where "crlf = [CHR 0x0D, CHR 0x0A]"

fun clusterGetMessageTypeString :: "msg_type \<Rightarrow> string" where
  "clusterGetMessageTypeString PING = ''ping''"
| "clusterGetMessageTypeString PONG = ''pong''"
| "clusterGetMessageTypeString MEET = ''meet''"
| "clusterGetMessageTypeString FAIL = ''fail''"
| "clusterGetMessageTypeString PUBLISH = ''publish''"
| "clusterGetMessageTypeString FAILOVER_AUTH_REQUEST = ''auth-req''"
| "clusterGetMessageTypeString FAILOVER_AUTH_ACK = ''auth-ack''"
| "clusterGetMessageTypeString UPDATE = ''update''"
| "clusterGetMessageTypeString MFSTART = ''mfstart''"
| "clusterGetMessageTypeString (OTHER_TYPE t) = ''unknown''"

definition getSlotOrReply :: "env \<Rightarrow> string \<Rightarrow> reply + nat" where
  "getSlotOrReply E obj = (case getLongLongFromObject E obj of
      Some slot \<Rightarrow> if slot < 0 \<or> slot \<ge> int (CLUSTER_SLOTS E)
        then Inl (Error ''Invalid or out of range slot'') else Inr (nat slot)
    | None \<Rightarrow> Inl (Error ''Invalid or out of range slot''))"

definition reply_node :: "cst \<Rightarrow> env \<Rightarrow> nref \<Rightarrow> reply" where
  "reply_node st E r = MultiBulk [Bulk (n_ip (nd st r)), Integer (n_port (nd st r)),
     Bulk (take (CLUSTER_NAMELEN E) (n_name (nd st r)))]"

definition reply_range :: "env \<Rightarrow> cst \<Rightarrow> nref \<Rightarrow> nat \<times> nat \<Rightarrow> reply" where
  "reply_range E st node = (\<lambda>(a, b). MultiBulk ([Integer (int a), Integer (int b), reply_node st E node]
     @ map (reply_node st E) (filter (\<lambda>s. \<not> nodeFailed E st s) (n_slaves (nd st node)))))"

definition clusterReplyMultiBulkSlots :: "env \<Rightarrow> cst \<Rightarrow> reply" where
  "clusterReplyMultiBulkSlots E st = MultiBulk (concat (map
     (\<lambda>node. if \<not> nodeIsMaster E st node \<or> n_numslots (nd st node) = 0 then []
       else map (reply_range E st node) (slot_ranges (clusterNodeGetSlotBit st node) (CLUSTER_SLOTS E) 0 None))
     (node_refs st)))"

section \<open>Clients\<close>

datatype client_flag = CLIENT_ASKING | CLIENT_READONLY | CLIENT_MULTI | CLIENT_BLOCKED

record client =
  c_flags :: "client_flag set"
  c_btype_list :: bool
  c_bpop_keys :: "string list"
  c_mstate :: "(redisCommand \<times> string list) list"
  c_db_size :: nat

definition askingCommand :: "env \<Rightarrow> client \<Rightarrow> reply \<times> client" where
  "askingCommand E c =
    (if \<not> cluster_enabled E then (Error ''This instance has cluster support disabled'', c)
     else (Status ''OK'', c\<lparr>c_flags := c_flags c \<union> {CLIENT_ASKING}\<rparr>))"

definition readonlyCommand :: "env \<Rightarrow> client \<Rightarrow> reply \<times> client" where
  "readonlyCommand E c =
    (if \<not> cluster_enabled E then (Error ''This instance has cluster support disabled'', c)
     else (Status ''OK'', c\<lparr>c_flags := c_flags c \<union> {CLIENT_READONLY}\<rparr>))"

definition readwriteCommand :: "client \<Rightarrow> reply \<times> client" where
  "readwriteCommand c = (Status ''OK'', c\<lparr>c_flags := c_flags c - {CLIENT_READONLY}\<rparr>)"

section \<open>The node for a query\<close>

datatype redir = REDIR_NONE | REDIR_CROSS_SLOT | REDIR_UNSTABLE | REDIR_ASK | REDIR_MOVED
  | REDIR_DOWN_STATE | REDIR_DOWN_UNBOUND

text \<open>The local variables of the loop over the keys; \<open>q_n\<close> and \<open>q_first\<close> are NULL before the first key.\<close>

record query =
  q_n :: "nref option"
  q_first :: "string option"
  q_slot :: nat
  q_multiple :: bool
  q_migrating :: bool
  q_importing :: bool
  q_missing :: nat

definition query0 :: query where
  "query0 = \<lparr>q_n = None, q_first = None, q_slot = 0, q_multiple = False, q_migrating = False,
     q_importing = False, q_missing = 0\<rparr>"

definition count_missing :: "env \<Rightarrow> string \<Rightarrow> query \<Rightarrow> query" where
  "count_missing E key q = (if (q_migrating q \<or> q_importing q) \<and> \<not> lookupKeyRead E key
     then q\<lparr>q_missing := q_missing q + 1\<rparr> else q)"

definition query_key :: "env \<Rightarrow> cst \<Rightarrow> string \<Rightarrow> query \<Rightarrow> redir + query" where
  "query_key E st thiskey q =
    (let thisslot = unat (keyHashSlot E thiskey) in
     case q_first q of
       None \<Rightarrow>
         (case slots st ! thisslot of
            None \<Rightarrow> Inl REDIR_DOWN_UNBOUND
          | Some n \<Rightarrow>
              (let q = q\<lparr>q_first := Some thiskey, q_slot := thisslot, q_n := Some n\<rparr>;
                   q = (if n = myself st \<and> migrating_slots_to st ! thisslot \<noteq> None
                        then q\<lparr>q_migrating := True\<rparr>
                        else if importing_slots_from st ! thisslot \<noteq> None
                        then q\<lparr>q_importing := True\<rparr> else q)
               in Inr (count_missing E thiskey q)))
     | Some firstkey \<Rightarrow>
         if firstkey \<noteq> thiskey then
           if q_slot q \<noteq> thisslot then Inl REDIR_CROSS_SLOT
           else Inr (count_missing E thiskey (q\<lparr>q_multiple := True\<rparr>))
         else Inr (count_missing E thiskey q))"

fun query_keys :: "env \<Rightarrow> cst \<Rightarrow> string list \<Rightarrow> query \<Rightarrow> redir + query" where
  "query_keys E st [] q = Inr q"
| "query_keys E st (k # ks) q = (case query_key E st k q of Inl e \<Rightarrow> Inl e | Inr q \<Rightarrow> query_keys E st ks q)"

definition command_keys :: "env \<Rightarrow> redisCommand \<times> string list \<Rightarrow> string list" where
  "command_keys E = (\<lambda>(cmd, argv). map (\<lambda>i. argv ! i) (getKeysFromCommand E cmd argv))"

definition serve_query :: "env \<Rightarrow> client \<Rightarrow> redisCommand \<Rightarrow> cst \<Rightarrow> nref \<Rightarrow> query
    \<Rightarrow> nref option \<times> redir \<times> nat option" where
  "serve_query E c cmd st n q =
    (let me = myself st in
     if cl_state st \<noteq> CLUSTER_OK then (None, REDIR_DOWN_STATE, None)
     else if (q_migrating q \<or> q_importing q) \<and> cmd_proc cmd = migrateCommand
     then (Some me, REDIR_NONE, Some (q_slot q))
     else if q_migrating q \<and> q_missing q \<noteq> 0
     then (migrating_slots_to st ! q_slot q, REDIR_ASK, Some (q_slot q))
     else if q_importing q \<and> (CLIENT_ASKING \<in> c_flags c \<or> CMD_ASKING cmd) then
       if q_multiple q \<and> q_missing q \<noteq> 0 then (None, REDIR_UNSTABLE, Some (q_slot q))
       else (Some me, REDIR_NONE, Some (q_slot q))
     else if CLIENT_READONLY \<in> c_flags c \<and> CMD_READONLY cmd \<and> nodeIsSlave E st me
        \<and> n_slaveof (nd st me) = Some n
     then (Some me, REDIR_NONE, Some (q_slot q))
     else (Some n, if n \<noteq> me then REDIR_MOVED else REDIR_NONE, Some (q_slot q)))"

text \<open>The returned node, the error code and the hash slot where the code stores one.\<close>

definition getNodeByQuery :: "env \<Rightarrow> client \<Rightarrow> redisCommand \<Rightarrow> string list \<Rightarrow> cst
    \<Rightarrow> nref option \<times> redir \<times> nat option" where
  "getNodeByQuery E c cmd argv st =
    (if cmd_proc cmd = execCommand \<and> CLIENT_MULTI \<notin> c_flags c then (Some (myself st), REDIR_NONE, None)
     else let commands = (if cmd_proc cmd = execCommand then c_mstate c else [(cmd, argv)])
          in (case query_keys E st (concat (map (command_keys E) commands)) query0 of
                Inl e \<Rightarrow> (None, e, None)
              | Inr q \<Rightarrow> (case q_n q of
                    None \<Rightarrow> (Some (myself st), REDIR_NONE, None)
                  | Some n \<Rightarrow> serve_query E c cmd st n q)))"

text \<open>The reply of a redirection; \<open>None\<close> is the panic of the last branch or the use of a NULL node.\<close>

fun clusterRedirectClient :: "cst \<Rightarrow> nref option \<Rightarrow> nat \<Rightarrow> redir \<Rightarrow> reply option" where
  "clusterRedirectClient st n hashslot REDIR_CROSS_SLOT =
     Some (Raw (''-CROSSSLOT Keys in request don't hash to the same slot'' @ crlf))"
| "clusterRedirectClient st n hashslot REDIR_UNSTABLE =
     Some (Raw (''-TRYAGAIN Multiple keys request during rehashing of slot'' @ crlf))"
| "clusterRedirectClient st n hashslot REDIR_DOWN_STATE = Some (Raw (''-CLUSTERDOWN The cluster is down'' @ crlf))"
| "clusterRedirectClient st n hashslot REDIR_DOWN_UNBOUND = Some (Raw (''-CLUSTERDOWN Hash slot not served'' @ crlf))"
| "clusterRedirectClient st n hashslot REDIR_MOVED = map_option (\<lambda>r. Raw (''-MOVED '' @ show_nat hashslot @
     '' '' @ n_ip (nd st r) @ '':'' @ show_int (n_port (nd st r)) @ crlf)) n"
| "clusterRedirectClient st n hashslot REDIR_ASK = map_option (\<lambda>r. Raw (''-ASK '' @ show_nat hashslot @
     '' '' @ n_ip (nd st r) @ '':'' @ show_int (n_port (nd st r)) @ crlf)) n"
| "clusterRedirectClient st n hashslot REDIR_NONE = None"

text \<open>
  \<open>clusterRedirectBlockedClientIfNeeded\<close> returns 1 with a redirection, the argument of
  \<open>clusterRedirectClient\<close>, or 0.
\<close>

fun blocked_redirect :: "env \<Rightarrow> cst \<Rightarrow> string list \<Rightarrow> (nref option \<times> nat \<times> redir) option" where
  "blocked_redirect E st [] = None"
| "blocked_redirect E st (key # keys) =
    (let slot = unat (keyHashSlot E key); node = slots st ! slot in
     if node \<noteq> Some (myself st) \<and> importing_slots_from st ! slot = None then
       (case node of None \<Rightarrow> Some (None, 0, REDIR_DOWN_UNBOUND) | Some n \<Rightarrow> Some (Some n, slot, REDIR_MOVED))
     else blocked_redirect E st keys)"

definition clusterRedirectBlockedClientIfNeeded :: "env \<Rightarrow> client \<Rightarrow> cst \<Rightarrow> reply option option" where
  "clusterRedirectBlockedClientIfNeeded E c st =
    (if CLIENT_BLOCKED \<in> c_flags c \<and> c_btype_list c then
       if cl_state st = CLUSTER_FAIL then Some (clusterRedirectClient st None 0 REDIR_DOWN_STATE)
       else map_option (\<lambda>(n, slot, e). clusterRedirectClient st n slot e) (blocked_redirect E st (c_bpop_keys c))
     else None)"

end
