(* ===== verification/Cluster_Commands.thy ===== *)
theory Cluster_Commands
  imports Cluster_Query
begin

text \<open>
  The CLUSTER command of \<^verbatim>\<open>src/examples/cluster.c\<close>, one definition per subcommand, each from the
  arguments and the state to the reply and the new state. \<open>argv\<close> is the whole argument vector,
  with the command name at index 0.
\<close>

definition ok_reply :: "todo set \<Rightarrow> cst \<Rightarrow> reply \<times> cst" where
  "ok_reply F st = (Status ''OK'', clusterDoBeforeSleep F st)"

definition cmd_meet :: "env \<Rightarrow> string list \<Rightarrow> cst \<Rightarrow> reply \<times> cst" where
  "cmd_meet E argv st = (case getLongLongFromObject E (argv ! 3) of
      None \<Rightarrow> (Error (''Invalid TCP base port specified: '' @ argv ! 3), st)
    | Some port \<Rightarrow>
        (case (if length argv = 5 then getLongLongFromObject E (argv ! 4) else Some (port + CLUSTER_PORT_INCR E)) of
           None \<Rightarrow> (Error (''Invalid TCP bus port specified: '' @ argv ! 4), st)
         | Some cport \<Rightarrow>
             (let (res, st) = clusterStartHandshake E (argv ! 2) (to_int32 port) (to_int32 cport) st
              in (if res = HS_EINVAL then Error (''Invalid node address specified: '' @ argv ! 2 @ '':'' @ argv ! 3)
                  else Status ''OK'', st))))"

definition cmd_flushslots :: "env \<Rightarrow> cst \<Rightarrow> reply \<times> cst" where
  "cmd_flushslots E st =
    (if db0_size E \<noteq> 0 then (Error ''DB must be empty to perform CLUSTER FLUSHSLOTS.'', st)
     else ok_reply {TODO_UPDATE_STATE, TODO_SAVE_CONFIG} (snd (clusterDelNodeSlots E (myself st) st)))"

text \<open>The first pass over the arguments: \<open>counts\<close> is the array \<open>slots\<close> of the code.\<close>

fun check_slots :: "env \<Rightarrow> bool \<Rightarrow> string list \<Rightarrow> nat list \<Rightarrow> cst \<Rightarrow> reply + nat list" where
  "check_slots E del [] counts st = Inr counts"
| "check_slots E del (a # as) counts st = (case getSlotOrReply E a of
      Inl e \<Rightarrow> Inl e
    | Inr slot \<Rightarrow>
        if del \<and> slots st ! slot = None
        then Inl (Error (''Slot '' @ show_nat slot @ '' is already unassigned''))
        else if \<not> del \<and> slots st ! slot \<noteq> None
        then Inl (Error (''Slot '' @ show_nat slot @ '' is already busy''))
        else if counts ! slot = 1
        then Inl (Error (''Slot '' @ show_nat slot @ '' specified multiple times''))
        else check_slots E del as (counts[slot := counts ! slot + 1]) st)"

definition change_slot :: "env \<Rightarrow> bool \<Rightarrow> nat \<Rightarrow> cst \<Rightarrow> cst" where
  "change_slot E del j st0 =
    (let st = (if importing_slots_from st0 ! j \<noteq> None
               then st0\<lparr>importing_slots_from := (importing_slots_from st0)[j := None]\<rparr> else st0);
         (retval, st) = (if del then clusterDelSlot j st else clusterAddSlot E (myself st) j st)
     in serverAssert retval st)"

definition cmd_changeslots :: "env \<Rightarrow> bool \<Rightarrow> string list \<Rightarrow> cst \<Rightarrow> reply \<times> cst" where
  "cmd_changeslots E del argv st =
    (case check_slots E del (drop 2 argv) (replicate (CLUSTER_SLOTS E) 0) st of
       Inl e \<Rightarrow> (e, st)
     | Inr counts \<Rightarrow> ok_reply {TODO_UPDATE_STATE, TODO_SAVE_CONFIG}
         (fold (\<lambda>j st. if counts ! j \<noteq> 0 then change_slot E del j st else st) [0..<CLUSTER_SLOTS E] st))"

definition setslot_node :: "env \<Rightarrow> nat \<Rightarrow> nref \<Rightarrow> cst \<Rightarrow> cst" where
  "setslot_node E slot n st0 =
    (let st = (if countKeysInSlot E slot = 0 \<and> migrating_slots_to st0 ! slot \<noteq> None
               then st0\<lparr>migrating_slots_to := (migrating_slots_to st0)[slot := None]\<rparr> else st0);
         st = (if n = myself st \<and> importing_slots_from st ! slot \<noteq> None
               then (let st = snd (clusterBumpConfigEpochWithoutConsensus st)
                     in st\<lparr>importing_slots_from := (importing_slots_from st)[slot := None]\<rparr>)
               else st);
         st = snd (clusterDelSlot slot st)
     in snd (clusterAddSlot E n slot st))"

definition cmd_setslot :: "env \<Rightarrow> string list \<Rightarrow> cst \<Rightarrow> reply \<times> cst" where
  "cmd_setslot E argv st =
    (let done = ok_reply {TODO_SAVE_CONFIG, TODO_UPDATE_STATE} in
     if nodeIsSlave E st (myself st) then (Error ''Please use SETSLOT only with masters.'', st)
     else (case getSlotOrReply E (argv ! 2) of
         Inl e \<Rightarrow> (e, st)
       | Inr slot \<Rightarrow>
           if strcasecmp_eq (argv ! 3) ''migrating'' \<and> length argv = 5 then
             if slots st ! slot \<noteq> Some (myself st)
             then (Error (''I'' @ [CHR 0x27] @ ''m not the owner of hash slot '' @ show_nat slot), st)
             else (case clusterLookupNode E st (argv ! 4) of
                 None \<Rightarrow> (Error (''I don'' @ [CHR 0x27] @ ''t know about node '' @ argv ! 4), st)
               | Some n \<Rightarrow> done (st\<lparr>migrating_slots_to := (migrating_slots_to st)[slot := Some n]\<rparr>))
           else if strcasecmp_eq (argv ! 3) ''importing'' \<and> length argv = 5 then
             if slots st ! slot = Some (myself st)
             then (Error (''I'' @ [CHR 0x27] @ ''m already the owner of hash slot '' @ show_nat slot), st)
             else (case clusterLookupNode E st (argv ! 4) of
                 None \<Rightarrow> (Error (''I don'' @ [CHR 0x27] @ ''t know about node '' @ argv ! 3), st)
               | Some n \<Rightarrow> done (st\<lparr>importing_slots_from := (importing_slots_from st)[slot := Some n]\<rparr>))
           else if strcasecmp_eq (argv ! 3) ''stable'' \<and> length argv = 4 then
             done (st\<lparr>importing_slots_from := (importing_slots_from st)[slot := None],
                      migrating_slots_to := (migrating_slots_to st)[slot := None]\<rparr>)
           else if strcasecmp_eq (argv ! 3) ''node'' \<and> length argv = 5 then
             (case clusterLookupNode E st (argv ! 4) of
                None \<Rightarrow> (Error (''Unknown node '' @ argv ! 4), st)
              | Some n \<Rightarrow>
                  if slots st ! slot = Some (myself st) \<and> n \<noteq> myself st \<and> countKeysInSlot E slot \<noteq> 0
                  then (Error (''Can'' @ [CHR 0x27] @ ''t assign hashslot '' @ show_nat slot @ '' to a different node ''
                          @ ''while I still hold keys for this hash slot.''), st)
                  else done (setslot_node E slot n st))
           else (Error ''Invalid CLUSTER SETSLOT action or number of arguments'', st)))"

definition cmd_bumpepoch :: "cst \<Rightarrow> reply \<times> cst" where
  "cmd_bumpepoch st0 =
    (let (retval, st) = clusterBumpConfigEpochWithoutConsensus st0
     in (Raw (''+'' @ (if retval then ''BUMPED '' else ''STILL '') @ show_nat (unat (n_configEpoch (nd st (myself st)))) @ crlf), st))"

section \<open>INFO\<close>

definition message_types :: "msg_type list" where
  "message_types = [PING, PONG, MEET, FAIL, PUBLISH, FAILOVER_AUTH_REQUEST, FAILOVER_AUTH_ACK, UPDATE, MFSTART]"

definition info_line :: "string \<Rightarrow> string \<Rightarrow> string" where
  "info_line name v = name @ '':'' @ v @ crlf"

definition slots_of :: "env \<Rightarrow> cst \<Rightarrow> nref list" where
  "slots_of E st = List.map_filter (\<lambda>j. slots st ! j) [0..<CLUSTER_SLOTS E]"

definition info_stats :: "string \<Rightarrow> msg_type list \<Rightarrow> string" where
  "info_stats kind hist =
     concat (map (\<lambda>t. if count_list hist t = 0 then []
         else info_line (''cluster_stats_messages_'' @ clusterGetMessageTypeString t @ ''_'' @ kind)
                (show_nat (count_list hist t))) message_types)
     @ info_line (''cluster_stats_messages_'' @ kind) (show_nat (sum_list (map (count_list hist) message_types)))"

definition cmd_info :: "env \<Rightarrow> cst \<Rightarrow> reply" where
  "cmd_info E st =
    (let owners = slots_of E st; me = myself st;
         fail = filter (nodeFailed E st) owners;
         pfail = filter (\<lambda>n. \<not> nodeFailed E st n \<and> nodeTimedOut E st n) owners;
         ok = filter (\<lambda>n. \<not> nodeFailed E st n \<and> \<not> nodeTimedOut E st n) owners;
         myepoch = (case n_slaveof (nd st me) of
             Some m \<Rightarrow> if nodeIsSlave E st me then n_configEpoch (nd st m) else n_configEpoch (nd st me)
           | None \<Rightarrow> n_configEpoch (nd st me))
     in Bulk (info_line ''cluster_state'' (case cl_state st of CLUSTER_OK \<Rightarrow> ''ok'' | CLUSTER_FAIL \<Rightarrow> ''fail'')
          @ info_line ''cluster_slots_assigned'' (show_nat (length owners))
          @ info_line ''cluster_slots_ok'' (show_nat (length ok))
          @ info_line ''cluster_slots_pfail'' (show_nat (length pfail))
          @ info_line ''cluster_slots_fail'' (show_nat (length fail))
          @ info_line ''cluster_known_nodes'' (show_nat (length (nodes st)))
          @ info_line ''cluster_size'' (show_int (cl_size st))
          @ info_line ''cluster_current_epoch'' (show_nat (unat (currentEpoch st)))
          @ info_line ''cluster_my_epoch'' (show_nat (unat myepoch))
          @ info_stats ''sent'' (stats_sent st)
          @ info_stats ''received'' (stats_received st)))"

section \<open>Keys and slots\<close>

definition cmd_saveconfig :: "env \<Rightarrow> cst \<Rightarrow> reply \<times> cst" where
  "cmd_saveconfig E st = (case clusterSaveConfig E True st of
      (True, st) \<Rightarrow> (Status ''OK'', st)
    | (False, st) \<Rightarrow> (Error (''error saving the cluster node config: '' @ cfg_error E), st))"

definition cmd_countkeysinslot :: "env \<Rightarrow> string list \<Rightarrow> reply" where
  "cmd_countkeysinslot E argv = (case getLongLongFromObject E (argv ! 2) of
      None \<Rightarrow> NotInteger
    | Some slot \<Rightarrow> if slot < 0 \<or> slot \<ge> int (CLUSTER_SLOTS E) then Error ''Invalid slot''
        else Integer (int (countKeysInSlot E (nat slot))))"

definition cmd_getkeysinslot :: "env \<Rightarrow> string list \<Rightarrow> reply" where
  "cmd_getkeysinslot E argv = (case getLongLongFromObject E (argv ! 2) of
      None \<Rightarrow> NotInteger
    | Some slot \<Rightarrow> (case getLongLongFromObject E (argv ! 3) of
          None \<Rightarrow> NotInteger
        | Some maxkeys \<Rightarrow>
            if slot < 0 \<or> slot \<ge> int (CLUSTER_SLOTS E) \<or> maxkeys < 0 then Error ''Invalid slot or number of keys''
            else MultiBulk (map Bulk (getKeysInSlot E (nat slot) (nat maxkeys)))))"

section \<open>Nodes and roles\<close>

definition unknown_node :: "string \<Rightarrow> reply" where
  "unknown_node name = Error (''Unknown node '' @ name)"

definition cmd_forget :: "env \<Rightarrow> string list \<Rightarrow> cst \<Rightarrow> reply \<times> cst" where
  "cmd_forget E argv st = (case clusterLookupNode E st (argv ! 2) of
      None \<Rightarrow> (unknown_node (argv ! 2), st)
    | Some n \<Rightarrow>
        if n = myself st then (Error (''I tried hard but I can'' @ [CHR 0x27] @ ''t forget myself...''), st)
        else if nodeIsSlave E st (myself st) \<and> n_slaveof (nd st (myself st)) = Some n
        then (Error (''Can'' @ [CHR 0x27] @ ''t forget my master!''), st)
        else ok_reply {TODO_UPDATE_STATE, TODO_SAVE_CONFIG} (clusterDelNode E n (clusterBlacklistAddNode E n st)))"

definition cmd_replicate :: "env \<Rightarrow> string list \<Rightarrow> cst \<Rightarrow> reply \<times> cst" where
  "cmd_replicate E argv st = (case clusterLookupNode E st (argv ! 2) of
      None \<Rightarrow> (unknown_node (argv ! 2), st)
    | Some n \<Rightarrow>
        if n = myself st then (Error (''Can'' @ [CHR 0x27] @ ''t replicate myself''), st)
        else if nodeIsSlave E st n then (Error ''I can only replicate a master, not a slave.'', st)
        else if nodeIsMaster E st (myself st) \<and> (n_numslots (nd st (myself st)) \<noteq> 0 \<or> db0_size E \<noteq> 0)
        then (Error ''To set a master the node must be empty and without assigned slots.'', st)
        else ok_reply {TODO_UPDATE_STATE, TODO_SAVE_CONFIG} (clusterSetMaster E n st))"

definition cmd_slaves :: "env \<Rightarrow> string list \<Rightarrow> cst \<Rightarrow> reply" where
  "cmd_slaves E argv st = (case clusterLookupNode E st (argv ! 2) of
      None \<Rightarrow> unknown_node (argv ! 2)
    | Some n \<Rightarrow>
        if nodeIsSlave E st n then Error ''The specified node is not a master''
        else MultiBulk (map (\<lambda>s. Bulk (clusterGenNodeDescription E st s)) (n_slaves (nd st n))))"

definition cmd_count_failure_reports :: "env \<Rightarrow> string list \<Rightarrow> cst \<Rightarrow> reply \<times> cst" where
  "cmd_count_failure_reports E argv st = (case clusterLookupNode E st (argv ! 2) of
      None \<Rightarrow> (unknown_node (argv ! 2), st)
    | Some n \<Rightarrow> (let (count, st) = clusterNodeFailureReportsCount E n st in (Integer count, st)))"

definition start_failover :: "env \<Rightarrow> bool \<Rightarrow> bool \<Rightarrow> nref \<Rightarrow> cst \<Rightarrow> reply \<times> cst" where
  "start_failover E force takeover master st0 =
    (let st = (resetManualFailover E st0)\<lparr>mf_end := mstime E + CLUSTER_MF_TIMEOUT E\<rparr>
     in (Status ''OK'',
         if takeover then clusterFailoverReplaceYourMaster E (snd (clusterBumpConfigEpochWithoutConsensus st))
         else if force then st\<lparr>mf_can_start := True\<rparr>
         else clusterSendMFStart E master st))"

definition cmd_failover :: "env \<Rightarrow> string list \<Rightarrow> cst \<Rightarrow> reply \<times> cst" where
  "cmd_failover E argv st =
    (let takeover = (length argv = 3 \<and> strcasecmp_eq (argv ! 2) ''takeover'');
         force = (takeover \<or> length argv = 3 \<and> strcasecmp_eq (argv ! 2) ''force'')
     in if length argv = 3 \<and> \<not> force then (SyntaxErr, st)
        else if nodeIsMaster E st (myself st) then (Error ''You should send CLUSTER FAILOVER to a slave'', st)
        else (case n_slaveof (nd st (myself st)) of
            None \<Rightarrow> (Error (''I'' @ [CHR 0x27] @ ''m a slave but my master is unknown to me''), st)
          | Some m \<Rightarrow>
              if \<not> force \<and> (nodeFailed E st m \<or> n_link (nd st m) = None)
              then (Error ''Master is down or failed, please use CLUSTER FAILOVER FORCE'', st)
              else start_failover E force takeover m st))"

definition cmd_set_config_epoch :: "env \<Rightarrow> string list \<Rightarrow> cst \<Rightarrow> reply \<times> cst" where
  "cmd_set_config_epoch E argv st = (case getLongLongFromObject E (argv ! 2) of
      None \<Rightarrow> (NotInteger, st)
    | Some epoch \<Rightarrow>
        if epoch < 0 then (Error (''Invalid config epoch specified: '' @ show_int epoch), st)
        else if length (nodes st) > 1
        then (Error (''The user can assign a config epoch only when the ''
                @ ''node does not know any other node.''), st)
        else if n_configEpoch (nd st (myself st)) \<noteq> 0 then (Error ''Node config epoch is already non-zero'', st)
        else let st = set_my_epoch (word_of_int epoch) st;
                 st = (if currentEpoch st < word_of_int epoch then st\<lparr>currentEpoch := word_of_int epoch\<rparr> else st)
             in ok_reply {TODO_UPDATE_STATE, TODO_SAVE_CONFIG} st)"

definition cmd_reset :: "env \<Rightarrow> client \<Rightarrow> string list \<Rightarrow> cst \<Rightarrow> reply \<times> cst" where
  "cmd_reset E c argv st =
    (let hard = (length argv = 3 \<and> strcasecmp_eq (argv ! 2) ''hard'')
     in if length argv = 3 \<and> \<not> hard \<and> \<not> strcasecmp_eq (argv ! 2) ''soft'' then (SyntaxErr, st)
        else if nodeIsMaster E st (myself st) \<and> c_db_size c \<noteq> 0
        then (Error (''CLUSTER RESET can'' @ [CHR 0x27] @ ''t be called with master nodes containing keys''), st)
        else (Status ''OK'', clusterReset E hard st))"

section \<open>Dispatch\<close>

definition clusterCommand :: "env \<Rightarrow> client \<Rightarrow> string list \<Rightarrow> cst \<Rightarrow> reply \<times> cst" where
  "clusterCommand E c argv st =
    (let sub = (\<lambda>name. strcasecmp_eq (argv ! 1) name); argc = length argv in
     if \<not> cluster_enabled E then (Error ''This instance has cluster support disabled'', st)
     else if sub ''meet'' \<and> (argc = 4 \<or> argc = 5) then cmd_meet E argv st
     else if sub ''nodes'' \<and> argc = 2 then (Bulk (clusterGenNodesDescription E st {}), st)
     else if sub ''myid'' \<and> argc = 2 then (Bulk (take (CLUSTER_NAMELEN E) (n_name (nd st (myself st)))), st)
     else if sub ''slots'' \<and> argc = 2 then (clusterReplyMultiBulkSlots E st, st)
     else if sub ''flushslots'' \<and> argc = 2 then cmd_flushslots E st
     else if (sub ''addslots'' \<or> sub ''delslots'') \<and> argc \<ge> 3 then cmd_changeslots E (sub ''delslots'') argv st
     else if sub ''setslot'' \<and> argc \<ge> 4 then cmd_setslot E argv st
     else if sub ''bumpepoch'' \<and> argc = 2 then cmd_bumpepoch st
     else if sub ''info'' \<and> argc = 2 then (cmd_info E st, st)
     else if sub ''saveconfig'' \<and> argc = 2 then cmd_saveconfig E st
     else if sub ''keyslot'' \<and> argc = 3 then (Integer (int (unat (keyHashSlot E (argv ! 2)))), st)
     else if sub ''countkeysinslot'' \<and> argc = 3 then (cmd_countkeysinslot E argv, st)
     else if sub ''getkeysinslot'' \<and> argc = 4 then (cmd_getkeysinslot E argv, st)
     else if sub ''forget'' \<and> argc = 3 then cmd_forget E argv st
     else if sub ''replicate'' \<and> argc = 3 then cmd_replicate E argv st
     else if sub ''slaves'' \<and> argc = 3 then (cmd_slaves E argv st, st)
     else if sub ''count-failure-reports'' \<and> argc = 3 then cmd_count_failure_reports E argv st
     else if sub ''failover'' \<and> (argc = 2 \<or> argc = 3) then cmd_failover E argv st
     else if sub ''set-config-epoch'' \<and> argc = 3 then cmd_set_config_epoch E argv st
     else if sub ''reset'' \<and> (argc = 2 \<or> argc = 3) then cmd_reset E c argv st
     else (Error ''Wrong CLUSTER subcommand or number of arguments'', st))"

end
