(* ===== verification/Cluster_Invariant.thy ===== *)
theory Cluster_Invariant
  imports Cluster_Commands
begin

text \<open>
  Invariants of the cluster state, proved once for all handlers. A predicate on states that looks
  only at the core of the state and survives the primitive operations (the laws of the locale
  \<open>cluster_invariant\<close>) survives every handler of \<^verbatim>\<open>src/examples/cluster.c\<close>. The concrete
  invariants are interpretations of the locale.
\<close>

section \<open>The core of a state\<close>

definition node_core :: "clusterNode \<Rightarrow> bitmap \<times> int \<times> string \<times> (nref \<times> int) list" where
  "node_core n = (n_slots n, n_numslots n, n_name n, n_fail_reports n)"

definition core :: "cst \<Rightarrow> nref option list \<times> (string \<times> nref) list \<times> nref \<times> nref
    \<times> (nref \<Rightarrow> bitmap \<times> int \<times> string \<times> (nref \<times> int) list) \<times> (lref \<Rightarrow> nref option)" where
  "core st = (slots st, nodes st, next_ref st, myself st, (\<lambda>r. node_core (nd st r)), (\<lambda>l. l_node (lk st l)))"

lemma core_upd_node: "(\<And>n. node_core (f n) = node_core n) \<Longrightarrow> core (upd_node r f st) = core st"
  by (auto simp: core_def upd_node_def nd_def lk_def)

lemma core_flags [simp]: "core (add_flags r F st) = core st" "core (del_flags r F st) = core st"
  by (auto simp: add_flags_def del_flags_def node_core_def intro!: core_upd_node)

lemma core_upd_link: "(\<And>x. l_node (f x) = l_node x) \<Longrightarrow> core (upd_link l f st) = core st"
  by (auto simp: core_def upd_link_def nd_def lk_def)

lemma core_simps [simp]:
  "core (st\<lparr>currentEpoch := e\<rparr>) = core st" "core (st\<lparr>lastVoteEpoch := e\<rparr>) = core st"
  "core (st\<lparr>aborted := b\<rparr>) = core st" "core (st\<lparr>exited := b\<rparr>) = core st"
  "core (st\<lparr>cl_state := s\<rparr>) = core st" "core (st\<lparr>cl_size := i\<rparr>) = core st"
  "core (st\<lparr>nodes_black_list := bl\<rparr>) = core st" "core (st\<lparr>conf_file := cf\<rparr>) = core st"
  "core (st\<lparr>migrating_slots_to := ms\<rparr>) = core st" "core (st\<lparr>importing_slots_from := ms\<rparr>) = core st"
  "core (st\<lparr>failover_auth_time := i\<rparr>) = core st" "core (st\<lparr>failover_auth_count := i\<rparr>) = core st"
  "core (st\<lparr>failover_auth_sent := b\<rparr>) = core st" "core (st\<lparr>failover_auth_rank := i\<rparr>) = core st"
  "core (st\<lparr>failover_auth_epoch := e\<rparr>) = core st" "core (st\<lparr>cant_failover_reason := cr\<rparr>) = core st"
  "core (st\<lparr>mf_end := i\<rparr>) = core st" "core (st\<lparr>mf_slave := n\<rparr>) = core st"
  "core (st\<lparr>mf_master_offset := i\<rparr>) = core st" "core (st\<lparr>mf_can_start := b\<rparr>) = core st"
  "core (st\<lparr>todo_before_sleep := t\<rparr>) = core st" "core (st\<lparr>stats_received := h\<rparr>) = core st"
  "core (st\<lparr>stats_sent := h\<rparr>) = core st" "core (st\<lparr>stats_pfail_nodes := i\<rparr>) = core st"
  "core (st\<lparr>among_minority_time := i\<rparr>) = core st" "core (st\<lparr>first_call_time := i\<rparr>) = core st"
  "core (st\<lparr>lastlog_time := i\<rparr>) = core st" "core (st\<lparr>cron_iteration := c\<rparr>) = core st"
  "core (st\<lparr>prev_ip := p\<rparr>) = core st" "core (st\<lparr>rand_pos := c\<rparr>) = core st"
  "core (st\<lparr>effects := es\<rparr>) = core st" "core (st\<lparr>live_links := ls\<rparr>) = core st"
  "core (st\<lparr>live := ls\<rparr>) = core st" "core (st\<lparr>next_lref := l\<rparr>) = core st"
  by (simp_all add: core_def nd_def lk_def)

lemma core_misc [simp]:
  "core (abort st) = core st" "core (serverAssert b st) = core st" "core (emit e st) = core st"
  "core (clusterDoBeforeSleep F st) = core st" "core (set_my_epoch ep st) = core st"
  "core (clusterCloseAllSlots E st) = core st"
  by (auto simp: abort_def serverAssert_def emit_def clusterDoBeforeSleep_def set_my_epoch_def
      clusterCloseAllSlots_def node_core_def intro!: core_upd_node)

section \<open>Operations that keep the core\<close>

text \<open>
  Messages, address and role changes, elections and the evaluation of the cluster state do not
  touch the core.
\<close>

lemma walk_let: "core a = K \<Longrightarrow> (\<And>x :: cst. core x = K \<Longrightarrow> core (f x) = K) \<Longrightarrow> core (Let a f) = K"
  and walk_let_pair: "core (snd g) = K \<Longrightarrow> (\<And>r x. core x = K \<Longrightarrow> core (h r x) = K)
    \<Longrightarrow> core (Let g (\<lambda>(r, x). h r x)) = K"
  and walk_pair: "core (snd g) = K \<Longrightarrow> (\<And>r x. core x = K \<Longrightarrow> core (h r x) = K)
    \<Longrightarrow> core (case g of (r, x) \<Rightarrow> h r x) = K"
  and walk_if: "(c \<Longrightarrow> core a = K) \<Longrightarrow> (\<not> c \<Longrightarrow> core b = K) \<Longrightarrow> core (if c then a else b) = K"
  and walk_option: "(x = None \<Longrightarrow> core a = K) \<Longrightarrow> (\<And>y. x = Some y \<Longrightarrow> core (k y) = K)
    \<Longrightarrow> core (case x of None \<Rightarrow> a | Some y \<Rightarrow> k y) = K"
  by (simp_all add: split_beta split: option.split)

lemma walk_snd_let: "core a = K \<Longrightarrow> (\<And>x :: cst. core x = K \<Longrightarrow> core (snd (f x)) = K) \<Longrightarrow> core (snd (Let a f)) = K"
  and walk_snd_let_pair: "core (snd g) = K \<Longrightarrow> (\<And>r x. core x = K \<Longrightarrow> core (snd (h r x)) = K)
    \<Longrightarrow> core (snd (Let g (\<lambda>(r, x). h r x))) = K"
  and walk_snd_pair: "core (snd g) = K \<Longrightarrow> (\<And>r x. core x = K \<Longrightarrow> core (snd (h r x)) = K)
    \<Longrightarrow> core (snd (case g of (r, x) \<Rightarrow> h r x)) = K"
  and walk_snd_if: "(c \<Longrightarrow> core (snd p) = K) \<Longrightarrow> (\<not> c \<Longrightarrow> core (snd q) = K) \<Longrightarrow> core (snd (if c then p else q)) = K"
  and walk_snd_option: "(x = None \<Longrightarrow> core (snd p) = K) \<Longrightarrow> (\<And>y. x = Some y \<Longrightarrow> core (snd (k y)) = K)
    \<Longrightarrow> core (snd (case x of None \<Rightarrow> p | Some y \<Rightarrow> k y)) = K"
  by (simp_all add: split_beta split: option.split)

lemmas walk = walk_let walk_let_pair walk_pair walk_if walk_option
  walk_snd_let walk_snd_let_pair walk_snd_pair walk_snd_if walk_snd_option

text \<open>Local values that are not states are expanded.\<close>

lemmas let_value = Let_def [where 'a = int] Let_def [where 'a = nat] Let_def [where 'a = bool]
  Let_def [where 'a = "nref option"] Let_def [where 'a = string] Let_def [where 'a = clusterMsg]
  Let_def [where 'a = epoch] Let_def [where 'a = cluster_state] Let_def [where 'a = "nref list"]
  Let_def [where 'a = clusterNode] Let_def [where 'a = "node_flag set"] Let_def [where 'a = cron_acc]

lemmas keep = core_upd_node core_upd_link node_core_def

lemma core_fold: "(\<And>x st. x \<in> set xs \<Longrightarrow> core (f x st) = core st) \<Longrightarrow> core (fold f xs st) = core st"
  by (rule fold_keeps)

lemma core_freeClusterLink [simp]: "core (freeClusterLink l st) = core st"
  unfolding freeClusterLink_def by (auto simp: keep intro!: walk)

lemma core_slaves [simp]:
  "core (snd (clusterNodeRemoveSlave m n st)) = core st" "core (snd (clusterNodeAddSlave m n st)) = core st"
  unfolding clusterNodeRemoveSlave_def clusterNodeAddSlave_def by (auto simp: keep intro!: walk)

lemma core_sendMessage [simp]: "core (clusterSendMessage l msg st) = core st"
  unfolding clusterSendMessage_def by (auto simp: keep split: msg_type.split intro!: walk)

lemma core_broadcastMessage [simp]: "core (clusterBroadcastMessage msg st) = core st"
  unfolding clusterBroadcastMessage_def by (rule core_fold) (auto intro!: walk)

lemma core_random [simp]: "core (snd (dictGetRandomKey E st)) = core st"
  by (simp add: dictGetRandomKey_def)

lemma core_gossip_loop [simp]: "core (snd (gossip_loop E wanted m freshnodes gs st)) = core st"
  by (induction m arbitrary: freshnodes gs st) (simp_all add: split_beta Let_def)

lemma core_sendPing [simp]: "core (clusterSendPing E l t st) = core st"
  unfolding clusterSendPing_def by (auto simp: keep let_value intro!: walk)

lemma core_broadcastPong [simp]: "core (clusterBroadcastPong E target st) = core st"
  unfolding clusterBroadcastPong_def by (rule core_fold) (auto intro!: walk)

lemma core_sends [simp]:
  "core (clusterSendFail E nm st) = core st" "core (clusterSendUpdate E ol n st) = core st"
  "core (clusterRequestFailoverAuth E st) = core st" "core (clusterSendFailoverAuth E n st) = core st"
  "core (clusterSendMFStart E n st) = core st"
  unfolding clusterSendFail_def clusterSendUpdate_def clusterRequestFailoverAuth_def
    clusterSendFailoverAuth_def clusterSendMFStart_def by (auto intro!: walk)

lemma core_saveConfig [simp]: "core (snd (clusterSaveConfig E b st)) = core st"
  unfolding clusterSaveConfig_def by (auto simp: let_value intro!: walk)

lemma core_saveConfigOrDie [simp]: "core (clusterSaveConfigOrDie E b st) = core st"
  unfolding clusterSaveConfigOrDie_def by (auto intro!: walk)

lemma core_epochs [simp]:
  "core (snd (clusterBumpConfigEpochWithoutConsensus st)) = core st"
  "core (clusterHandleConfigEpochCollision E n st) = core st"
  unfolding clusterBumpConfigEpochWithoutConsensus_def clusterHandleConfigEpochCollision_def
  by (auto simp: let_value intro!: walk)

lemma core_blacklist [simp]:
  "core (clusterBlacklistCleanup E st) = core st" "core (clusterBlacklistAddNode E n st) = core st"
  "core (snd (clusterBlacklistExists E nm st)) = core st"
  unfolding clusterBlacklistCleanup_def clusterBlacklistAddNode_def clusterBlacklistExists_def
  by (auto intro!: walk)

lemma core_config [simp]:
  "core (clearNodeFailureIfNeeded E n st) = core st" "core (gossip_address E g n st) = core st"
  "core (snd (nodeUpdateAddressIfNeeded E n l hdr st)) = core st"
  "core (clusterSetNodeAsMaster E n st) = core st" "core (resetManualFailover E st) = core st"
  unfolding clearNodeFailureIfNeeded_def gossip_address_def nodeUpdateAddressIfNeeded_def
    clusterSetNodeAsMaster_def resetManualFailover_def
  by (auto simp: keep let_value intro!: walk)

lemma core_setMaster [simp]: "core (clusterSetMaster E n st) = core st"
  unfolding clusterSetMaster_def by (auto simp: keep let_value intro!: walk)

lemma core_failover [simp]:
  "core (clusterSendFailoverAuthIfNeeded E n hdr st) = core st" "core (snd (clusterGetSlaveRank E st)) = core st"
  "core (clusterLogCantFailover E r st) = core st"
  unfolding clusterSendFailoverAuthIfNeeded_def clusterGetSlaveRank_def clusterLogCantFailover_def
  by (auto simp: keep let_value intro!: walk)

lemma core_updateState [simp]: "core (clusterUpdateState E st) = core st"
  unfolding clusterUpdateState_def by (auto simp: let_value intro!: walk)

lemma core_election [simp]:
  "core (schedule_election E st) = core st" "core (adjust_rank E st) = core st" "core (request_votes E st) = core st"
  unfolding schedule_election_def adjust_rank_def request_votes_def
  by (auto simp: let_value intro!: walk)

lemma core_migration_step [simp]: "core (snd (snd (migration_step E m n x))) = core (snd (snd x))"
  by (cases x) (auto simp: migration_step_def Let_def keep)

lemma core_migration_fold [simp]: "core (snd (snd (fold (migration_step E m) ns x))) = core (snd (snd x))"
  by (induction ns arbitrary: x) auto

lemma core_slaveMigration [simp]: "core (clusterHandleSlaveMigration E m st) = core st"
proof -
  obtain t c st' where "fold (migration_step E m) (node_refs st) (None, myself st, st) = (t, c, st')"
    by (rule prod_cases3)
  moreover from core_migration_fold [of E m "node_refs st" "(None, myself st, st)"] this
  have "core st' = core st" by simp
  ultimately show ?thesis by (auto simp: clusterHandleSlaveMigration_def split: option.split)
qed

lemma core_manual [simp]:
  "core (manualFailoverCheckTimeout E st) = core st" "core (clusterHandleManualFailover E st) = core st"
  unfolding manualFailoverCheckTimeout_def clusterHandleManualFailover_def by (auto intro!: walk)

lemma core_packet [simp]:
  "core (update_sender E hdr n st) = core st" "core (update_my_ip E hdr l st) = core st"
  "core (process_pong E hdr l st) = core st" "core (process_fail E nm st) = core st"
  "core (process_publish E cl ml b st) = core st" "core (process_auth_ack E ep n st) = core st"
  "core (process_mfstart E n st) = core st"
  unfolding update_sender_def update_my_ip_def process_pong_def process_fail_def process_publish_def
    process_auth_ack_def process_mfstart_def
  by (auto simp: keep let_value intro!: walk)

lemma core_count_received [simp]: "core (count_received hdr st) = core st" "next_ref (count_received hdr st) = next_ref st"
  by (simp_all add: count_received_def split: msg_type.split)

lemma core_inform [simp]: "core (inform_sender E hdr n ep js st) = core st"
  by (induction js) (auto intro!: walk)

lemma core_pick [simp]: "core (snd (pick_min_pong E m best st)) = core st"
  by (induction m arbitrary: best st) (simp_all add: split_beta Let_def)

lemma core_cron [simp]:
  "core (sync_announce_ip E st) = core st" "core (ping_random E st) = core st"
  "core (drop_stale_link E n st) = core st" "core (start_replication E st) = core st"
  "core (handleLinkIOError l st) = core st"
  unfolding sync_announce_ip_def ping_random_def drop_stale_link_def start_replication_def handleLinkIOError_def
  by (auto simp: keep let_value intro!: walk)

lemma core_failure_step [simp]: "core (snd (failure_step E n x)) = core (snd x)"
  by (cases x) (auto simp: failure_step_def flag_timeout_def Let_def split: option.split)

lemma core_failure_fold [simp]: "core (snd (fold (failure_step E) ns x)) = core (snd x)"
  by (induction ns arbitrary: x) auto

lemma core_publish [simp]:
  "core (clusterSendPublish E ol ch msg st) = core st" "core (clusterPropagatePublish E ch msg st) = core st"
  unfolding clusterPropagatePublish_def clusterSendPublish_def by (auto simp: let_value intro!: walk)

lemma fold_counter: "fold (\<lambda>j (d, st). (d + 1, f j st)) js (d, st) = (d + length js, fold f js st)"
  by (induction js arbitrary: d st) auto

lemma clusterDelNodeSlots_fold:
  "clusterDelNodeSlots E n st = (CLUSTER_SLOTS E,
     fold (\<lambda>j st. if clusterNodeGetSlotBit st n j then snd (clusterDelSlot j st) else st) [0..<CLUSTER_SLOTS E] st)"
  unfolding clusterDelNodeSlots_def fold_counter by simp

section \<open>The laws of an invariant\<close>

lemma core_next_ref: "core st' = core st \<Longrightarrow> next_ref st' = next_ref st"
  by (simp add: core_def)

lemma next_ref_reports [simp]:
  "next_ref (snd (clusterNodeAddFailureReport E n s st)) = next_ref st"
  "next_ref (clusterNodeCleanupFailureReports E n st) = next_ref st"
  "next_ref (snd (clusterNodeDelFailureReport E n s st)) = next_ref st"
  by (simp_all add: clusterNodeAddFailureReport_def clusterNodeCleanupFailureReports_def
      clusterNodeDelFailureReport_def upd_node_def Let_def split: option.split)

lemma next_ref_upd [simp]:
  "next_ref (upd_node r f st) = next_ref st" "next_ref (add_flags r F st) = next_ref st"
  "next_ref (del_flags r F st) = next_ref st" "next_ref (serverAssert b st) = next_ref st"
  "next_ref (abort st) = next_ref st" "next_ref (emit e st) = next_ref st"
  by (simp_all add: upd_node_def add_flags_def del_flags_def serverAssert_def abort_def emit_def)

lemma next_ref_nodes [simp]:
  "next_ref (snd (createClusterNode E nm F st)) = Suc (next_ref st)"
  "fst (createClusterNode E nm F st) = next_ref st"
  "next_ref (snd (createClusterLink E on st)) = next_ref st"
  "next_ref (snd (clusterAddNode n st)) = next_ref st"
  "next_ref (clusterRenameNode E n newname st) = next_ref st"
  by (simp_all add: createClusterNode_def createClusterLink_def clusterAddNode_def clusterRenameNode_def
      Let_def split_beta split: option.split)

lemma next_ref_slots [simp]:
  "next_ref (snd (clusterAddSlot E n j st)) = next_ref st" "next_ref (snd (clusterDelSlot j st)) = next_ref st"
  by (simp_all add: clusterAddSlot_def clusterDelSlot_def clusterNodeSetSlotBit_def clusterNodeClearSlotBit_def
      Let_def split_beta split: option.split)

lemma next_ref_same [simp]:
  "next_ref (freeClusterLink l st) = next_ref st" "next_ref (snd (clusterNodeRemoveSlave m n st)) = next_ref st"
  by (rule core_next_ref, simp)+

lemma next_ref_fold: "(\<And>x st. next_ref (f x st) = next_ref st) \<Longrightarrow> next_ref (fold f xs st) = next_ref st"
  by (rule fold_keeps)

lemma next_ref_free [simp]: "next_ref (freeClusterNode E n st) = next_ref st"
  by (auto simp: freeClusterNode_def Let_def next_ref_fold split: option.split)

lemma next_ref_reset_hard [simp]: "next_ref (reset_hard E st) = next_ref st"
  by (auto simp: reset_hard_def Let_def set_my_epoch_def split: option.split)

definition core_ok where
  "core_ok I k c \<longleftrightarrow> (\<exists>s. core s = c \<and> I s \<and> k \<le> next_ref s)"

text \<open>
  A predicate \<open>I\<close> that depends on the core only, implies that the references in use are
  allocated, and is kept by the operations that change the core. \<open>core_ok I k\<close> adds that the
  references below \<open>k\<close> stay allocated, which carries a node looked up at the start of a handler
  to the point where it is used.
\<close>

locale cluster_invariant =
  fixes E :: env and I :: "cst \<Rightarrow> bool"
  assumes frame: "I st \<Longrightarrow> core st' = core st \<Longrightarrow> I st'"
    and my_ref: "I st \<Longrightarrow> myself st < next_ref st"
    and node_ref: "I st \<Longrightarrow> (nm, n) \<in> set (nodes st) \<Longrightarrow> n < next_ref st"
    and link_ref: "I st \<Longrightarrow> l_node (lk st l) = Some n \<Longrightarrow> n < next_ref st"
    and create_node: "I st \<Longrightarrow> I (snd (createClusterNode E onm F st))"
    and create_link: "I st \<Longrightarrow> (\<And>n. on = Some n \<Longrightarrow> n < next_ref st) \<Longrightarrow> I (snd (createClusterLink E on st))"
    and add_node: "I st \<Longrightarrow> n < next_ref st \<Longrightarrow> I (snd (clusterAddNode n st))"
    and rename_node: "I st \<Longrightarrow> n < next_ref st \<Longrightarrow> I (clusterRenameNode E n nm st)"
    and free_node: "I st \<Longrightarrow> I (freeClusterNode E n st)"
    and add_slot: "I st \<Longrightarrow> n < next_ref st \<Longrightarrow> j < CLUSTER_SLOTS E \<Longrightarrow> I (snd (clusterAddSlot E n j st))"
    and del_slot: "I st \<Longrightarrow> j < CLUSTER_SLOTS E \<Longrightarrow> I (snd (clusterDelSlot j st))"
    and add_report: "I st \<Longrightarrow> I (snd (clusterNodeAddFailureReport E n s st))"
    and del_report: "I st \<Longrightarrow> I (snd (clusterNodeDelFailureReport E n s st))"
    and cleanup_reports: "I st \<Longrightarrow> I (clusterNodeCleanupFailureReports E n st)"
    and hard_reset: "I st \<Longrightarrow> I (reset_hard E st)"
begin

lemma core_ok_iff: "core_ok I k (core st) \<longleftrightarrow> I st \<and> k \<le> next_ref st"
  unfolding core_ok_def by (metis frame core_next_ref)

lemma ok_prims:
  "core_ok I k (core st) \<Longrightarrow> core_ok I k (core (snd (createClusterNode E onm F st)))"
  "core_ok I k (core st) \<Longrightarrow> core_ok I k (core (freeClusterNode E n st))"
  "core_ok I k (core st) \<Longrightarrow> j < CLUSTER_SLOTS E \<Longrightarrow> core_ok I k (core (snd (clusterDelSlot j st)))"
  "core_ok I k (core st) \<Longrightarrow> n < k \<Longrightarrow> j < CLUSTER_SLOTS E \<Longrightarrow> core_ok I k (core (snd (clusterAddSlot E n j st)))"
  "core_ok I k (core st) \<Longrightarrow> n < k \<Longrightarrow> core_ok I k (core (snd (clusterAddNode n st)))"
  "core_ok I k (core st) \<Longrightarrow> n < k \<Longrightarrow> core_ok I k (core (clusterRenameNode E n nm st))"
  "core_ok I k (core st) \<Longrightarrow> core_ok I k (core (snd (clusterNodeAddFailureReport E n s st)))"
  "core_ok I k (core st) \<Longrightarrow> core_ok I k (core (snd (clusterNodeDelFailureReport E n s st)))"
  "core_ok I k (core st) \<Longrightarrow> core_ok I k (core (clusterNodeCleanupFailureReports E n st))"
  "core_ok I k (core st) \<Longrightarrow> core_ok I k (core (reset_hard E st))"
  "core_ok I k (core st) \<Longrightarrow> n < k \<Longrightarrow> core_ok I k (core (snd (createClusterLink E (Some n) st)))"
  "core_ok I k (core st) \<Longrightarrow> core_ok I k (core (snd (createClusterLink E None st)))"
  unfolding core_ok_iff
  by (auto intro: create_node free_node del_slot add_slot add_node rename_node add_report del_report
      cleanup_reports hard_reset create_link)

text \<open>Start a part of a handler anew, with the references allocated at that point.\<close>

lemma rebase:
  assumes "core_ok I k (core st)" and "core_ok I (next_ref st) (core st) \<Longrightarrow> core_ok I (next_ref st) (core st')"
  shows "core_ok I k (core st')"
  using assms unfolding core_ok_iff by auto

lemma refs:
  "core_ok I k (core st) \<Longrightarrow> myself st < next_ref st"
  "core_ok I k (core st) \<Longrightarrow> n \<in> set (node_refs st) \<Longrightarrow> n < next_ref st"
  "core_ok I k (core st) \<Longrightarrow> clusterLookupNode E st nm = Some n \<Longrightarrow> n < next_ref st"
  "core_ok I k (core st) \<Longrightarrow> l_node (lk st l) = Some n \<Longrightarrow> n < next_ref st"
  unfolding core_ok_iff node_refs_def clusterLookupNode_def
  by (auto intro: my_ref node_ref link_ref dest: map_of_SomeD)

lemma vc:
  "core_ok I k (core a) \<Longrightarrow> (\<And>x :: cst. core_ok I k (core x) \<Longrightarrow> core_ok I k (core (f x))) \<Longrightarrow> core_ok I k (core (Let a f))"
  "core_ok I k (core (snd g)) \<Longrightarrow> (\<And>r x. core_ok I k (core x) \<Longrightarrow> core_ok I k (core (h r x)))
    \<Longrightarrow> core_ok I k (core (Let g (\<lambda>(r, x). h r x)))"
  "core_ok I k (core (snd g)) \<Longrightarrow> (\<And>r x. core_ok I k (core x) \<Longrightarrow> core_ok I k (core (h r x)))
    \<Longrightarrow> core_ok I k (core (case g of (r, x) \<Rightarrow> h r x))"
  "(c \<Longrightarrow> core_ok I k (core a)) \<Longrightarrow> (\<not> c \<Longrightarrow> core_ok I k (core b)) \<Longrightarrow> core_ok I k (core (if c then a else b))"
  "(y = None \<Longrightarrow> core_ok I k (core a)) \<Longrightarrow> (\<And>z. y = Some z \<Longrightarrow> core_ok I k (core (m z)))
    \<Longrightarrow> core_ok I k (core (case y of None \<Rightarrow> a | Some z \<Rightarrow> m z))"
  by (simp_all add: split_beta split: option.split)

lemma vc_snd:
  "core_ok I k (core a) \<Longrightarrow> (\<And>x :: cst. core_ok I k (core x) \<Longrightarrow> core_ok I k (core (snd (f x))))
    \<Longrightarrow> core_ok I k (core (snd (Let a f)))"
  "core_ok I k (core (snd g)) \<Longrightarrow> (\<And>r x. core_ok I k (core x) \<Longrightarrow> core_ok I k (core (snd (h r x))))
    \<Longrightarrow> core_ok I k (core (snd (Let g (\<lambda>(r, x). h r x))))"
  "core_ok I k (core (snd g)) \<Longrightarrow> (\<And>r x. core_ok I k (core x) \<Longrightarrow> core_ok I k (core (snd (h r x))))
    \<Longrightarrow> core_ok I k (core (snd (case g of (r, x) \<Rightarrow> h r x)))"
  "(c \<Longrightarrow> core_ok I k (core (snd p))) \<Longrightarrow> (\<not> c \<Longrightarrow> core_ok I k (core (snd q)))
    \<Longrightarrow> core_ok I k (core (snd (if c then p else q)))"
  "(y = None \<Longrightarrow> core_ok I k (core (snd p))) \<Longrightarrow> (\<And>z. y = Some z \<Longrightarrow> core_ok I k (core (snd (m z))))
    \<Longrightarrow> core_ok I k (core (snd (case y of None \<Rightarrow> p | Some z \<Rightarrow> m z)))"
  by (simp_all add: split_beta split: option.split)

lemma ok_fold:
  assumes "core_ok I k (core st)" and "\<And>x st. x \<in> set xs \<Longrightarrow> core_ok I k (core st) \<Longrightarrow> core_ok I k (core (f x st))"
  shows "core_ok I k (core (fold f xs st))"
  using assms by (induction xs arbitrary: st) auto

section \<open>Slots and nodes\<close>

lemma ok_delNodeSlots: "core_ok I k (core st) \<Longrightarrow> core_ok I k (core (snd (clusterDelNodeSlots E n st)))"
  unfolding clusterDelNodeSlots_fold by (auto intro!: ok_fold vc ok_prims)

lemma ok_forget_slot:
  "core_ok I k (core st) \<Longrightarrow> j < CLUSTER_SLOTS E \<Longrightarrow> core_ok I k (core (forget_slot n j st))"
  unfolding forget_slot_def by (auto intro!: vc ok_prims)

lemma ok_delNode: "core_ok I k (core st) \<Longrightarrow> core_ok I k (core (clusterDelNode E n st))"
  unfolding clusterDelNode_def by (auto intro!: vc ok_prims ok_fold ok_forget_slot)

lemma ok_startHandshake: "core_ok I k (core st) \<Longrightarrow> core_ok I k (core (snd (clusterStartHandshake E ip p cp st)))"
proof -
  assume *: "core_ok I k (core st)"
  have "core_ok I (Suc (next_ref st)) (core (snd (createClusterNode E None F st)))" for F
    using * by (auto simp: core_ok_iff create_node)
  then have "core_ok I (Suc (next_ref st)) (core (snd (clusterAddNode (next_ref st)
      (upd_node (next_ref st) f (snd (createClusterNode E None F st))))))"
    if "\<And>n. node_core (f n) = node_core n" for f F
    using that by (auto simp: core_upd_node intro!: ok_prims)
  with * show ?thesis
    unfolding clusterStartHandshake_def core_ok_iff
    by (auto simp: split_beta node_core_def Let_def split: option.split intro: le_trans)
qed

end

section \<open>The handlers keep an invariant\<close>

context cluster_invariant
begin

lemma ok_reportsCount: "core_ok I k (core st) \<Longrightarrow> core_ok I k (core (snd (clusterNodeFailureReportsCount E n st)))"
  unfolding clusterNodeFailureReportsCount_def by (auto intro!: vc vc_snd ok_prims)

lemma ok_markFailing: "core_ok I k (core st) \<Longrightarrow> core_ok I k (core (markNodeAsFailingIfNeeded E n st))"
  unfolding markNodeAsFailingIfNeeded_def
  by (auto simp: keep let_value intro!: vc vc_snd ok_reportsCount)

lemma ok_gossip:
  "core_ok I k (core st) \<Longrightarrow> core_ok I k (core (gossip_reports E s g n st))"
  "core_ok I k (core st) \<Longrightarrow> core_ok I k (core (gossip_pong E g n st))"
  unfolding gossip_reports_def gossip_pong_def
  by (auto simp: keep let_value intro!: vc vc_snd ok_prims ok_markFailing ok_reportsCount)

lemma ok_gossipEntry: "core_ok I k (core st) \<Longrightarrow> core_ok I k (core (clusterProcessGossipEntry E s g st))"
  unfolding clusterProcessGossipEntry_def
  by (auto intro!: vc vc_snd ok_gossip ok_startHandshake)

lemma ok_gossipSection: "core_ok I k (core st) \<Longrightarrow> core_ok I k (core (clusterProcessGossipSection E hdr l st))"
  unfolding clusterProcessGossipSection_def by (auto simp: let_value intro!: ok_fold ok_gossipEntry)

lemma ok_update_slot:
  "core_ok I k (core (snd (snd x))) \<Longrightarrow> n < k \<Longrightarrow> j < CLUSTER_SLOTS E
    \<Longrightarrow> core_ok I k (core (snd (snd (update_slot E n ep claimed cm j x))))"
  by (cases x) (auto simp: update_slot_def Let_def intro!: ok_prims)

lemma ok_update_slots:
  "core_ok I k (core (snd (snd x))) \<Longrightarrow> n < k \<Longrightarrow> set js \<subseteq> {..<CLUSTER_SLOTS E}
    \<Longrightarrow> core_ok I k (core (snd (snd (fold (update_slot E n ep claimed cm) js x))))"
  by (induction js arbitrary: x) (simp_all add: ok_update_slot)

lemma ok_updateSlotsConfigWith:
  assumes "core_ok I k (core st)" and "n < k"
  shows "core_ok I k (core (clusterUpdateSlotsConfigWith E n ep claimed st))"
proof -
  define cm where "cm = (if nodeIsMaster E st (myself st) then Some (myself st) else n_slaveof (nd st (myself st)))"
  obtain d nm st' where f: "fold (update_slot E n ep claimed cm) [0..<CLUSTER_SLOTS E] ([], False, st) = (d, nm, st')"
    by (rule prod_cases3)
  from ok_update_slots [of k "([], False, st)" n "[0..<CLUSTER_SLOTS E]" ep claimed cm] assms
  have "core_ok I k (core st')" by (simp add: f atLeast0LessThan)
  with assms f show ?thesis
    unfolding clusterUpdateSlotsConfigWith_def cm_def by (auto simp: Let_def intro!: ok_fold)
qed

lemma ok_replaceMaster: "core_ok I k (core st) \<Longrightarrow> core_ok I k (core (clusterFailoverReplaceYourMaster E st))"
proof -
  have take: "core_ok I k (core (take_slot E m j st))" if "core_ok I k (core st)" "j < CLUSTER_SLOTS E" for k m j st
    by (rule rebase [OF that(1)]) (use that refs(1) [OF that(1)] in \<open>auto simp: take_slot_def intro!: ok_prims\<close>)
  show "core_ok I k (core st) \<Longrightarrow> core_ok I k (core (clusterFailoverReplaceYourMaster E st))"
    unfolding clusterFailoverReplaceYourMaster_def by (auto intro!: vc ok_fold take)
qed

lemma ok_slaveFailover: "core_ok I k (core st) \<Longrightarrow> core_ok I k (core (clusterHandleSlaveFailover E st))"
  unfolding clusterHandleSlaveFailover_def win_election_def
  by (auto simp: let_value intro!: vc ok_replaceMaster)

lemma ok_meet_unknown: "core_ok I k (core st) \<Longrightarrow> core_ok I k (core (meet_unknown E hdr l st))"
proof -
  assume *: "core_ok I k (core st)"
  have "core_ok I (Suc (next_ref st)) (core (snd (createClusterNode E None F st)))" for F
    using * by (auto simp: core_ok_iff create_node)
  then have "core_ok I (Suc (next_ref st)) (core (meet_unknown E hdr l st))"
    unfolding meet_unknown_def
    by (auto simp: split_beta Let_def keep intro!: ok_gossipSection ok_prims)
  with * show ?thesis by (auto simp: core_ok_iff)
qed

lemma ok_link_node: "core_ok I k (core st) \<Longrightarrow> core_ok I k (core (snd (process_link_node E hdr l s st)))"
proof (rule rebase)
  assume "core_ok I (next_ref st) (core st)"
  moreover from refs(4) [OF this] have "n < next_ref st" if "l_node (lk st l) = Some n" for n using that .
  ultimately show "core_ok I (next_ref st) (core (snd (process_link_node E hdr l s st)))"
    unfolding process_link_node_def by (auto simp: keep intro!: vc vc_snd ok_prims ok_delNode)
qed

lemma ok_role: "core_ok I k (core st) \<Longrightarrow> core_ok I k (core (process_role E hdr s st))"
  unfolding process_role_def by (auto simp: keep let_value intro!: vc ok_delNodeSlots)

lemma ok_slots: "core_ok I k (core st) \<Longrightarrow> s < k \<Longrightarrow> core_ok I k (core (process_slots E hdr s ep st))"
  unfolding process_slots_def by (auto simp: let_value intro!: vc ok_updateSlotsConfigWith)

lemma ok_config:
  assumes "core_ok I k (core st)" and "\<And>s. sender = Some s \<Longrightarrow> s < k"
  shows "core_ok I k (core (snd (process_config E hdr l sender ep st)))"
proof -
  obtain r st' where p: "process_link_node E hdr l sender st = (r, st')" by fastforce
  with ok_link_node [OF assms(1), of hdr l sender] have "core_ok I k (core st')" by simp
  with p assms(2) show ?thesis
    unfolding process_config_def
    by (auto split: option.split intro!: vc vc_snd ok_gossipSection ok_slots ok_role)
qed

lemma ok_update:
  "core_ok I k (core st) \<Longrightarrow> core_ok I k (core (process_update E ep nm claimed st))"
proof (rule rebase)
  assume "core_ok I (next_ref st) (core st)"
  moreover from refs(3) [OF this] have "n < next_ref st" if "clusterLookupNode E st nm = Some n" for n using that .
  ultimately show "core_ok I (next_ref st) (core (process_update E ep nm claimed st))"
    unfolding process_update_def by (auto simp: keep intro!: vc ok_updateSlotsConfigWith)
qed

end

context cluster_invariant
begin

lemma ok_ping_meet: "core_ok I k (core st) \<Longrightarrow> core_ok I k (core (process_ping_meet E hdr l s st))"
  unfolding process_ping_meet_def by (auto intro!: vc ok_meet_unknown)

lemma ok_message: "core_ok I k (core st) \<Longrightarrow> core_ok I k (core (process_message E hdr s ep st))"
  unfolding process_message_def
  by (simp split: msg_type.split clusterMsgData.split option.split) (auto intro!: ok_update)

lemma ok_processPacket:
  assumes "core_ok I k (core st)"
  shows "core_ok I k (core (snd (clusterProcessPacket E hdr n l st)))"
proof (rule rebase [OF assms])
  assume ok: "core_ok I (next_ref st) (core st)"
  let ?st = "count_received hdr st"
  from refs(3) [of "next_ref st" ?st] ok
  have s: "s < next_ref st" if "clusterLookupNode E ?st (m_sender hdr) = Some s" for s using that by simp
  have "core_ok I (next_ref st) (core (case clusterLookupNode E ?st (m_sender hdr) of
      Some s \<Rightarrow> if b then update_sender E hdr s ?st else ?st | None \<Rightarrow> ?st))" for b
    using ok by (auto intro!: vc)
  with ok s show "core_ok I (next_ref st) (core (snd (clusterProcessPacket E hdr n l st)))"
    unfolding clusterProcessPacket_def
    by (simp add: Let_def) (auto intro!: ok_config ok_ping_meet ok_message)
qed

lemma ok_cron: "core_ok I k (core st) \<Longrightarrow> core_ok I k (core (clusterCron E st))"
proof -
  have conn: "core_ok I k (core (connect_node E n st))" if "core_ok I k (core st)" "n < k" for k n st
    using that unfolding connect_node_def by (auto simp: keep let_value intro!: vc vc_snd ok_prims)
  have rec: "core_ok I k (core (reconnect_step E n st))" if "core_ok I k (core st)" "n < k" for k n st
    using that unfolding reconnect_step_def by (auto intro!: vc conn ok_delNode)
  have loop: "core_ok I k (core (fold (reconnect_step E) (node_refs st) st))" if "core_ok I k (core st)" for k st
    by (rule rebase [OF that]) (auto intro!: ok_fold rec refs(2))
  show "core_ok I k (core st) \<Longrightarrow> core_ok I k (core (clusterCron E st))"
    unfolding clusterCron_def by (auto intro!: vc vc_snd loop ok_slaveFailover)
qed

lemma ok_beforeSleep: "core_ok I k (core st) \<Longrightarrow> core_ok I k (core (clusterBeforeSleep E st))"
  unfolding clusterBeforeSleep_def by (auto intro!: vc ok_slaveFailover)

lemma ok_reset: "core_ok I k (core st) \<Longrightarrow> core_ok I k (core (clusterReset E hard st))"
  unfolding clusterReset_def by (auto intro!: vc ok_fold ok_prims ok_delNode)

lemma ok_accept: "core_ok I k (core st) \<Longrightarrow> core_ok I k (core (clusterAcceptHandler E loading fds st))"
  unfolding clusterAcceptHandler_def by (auto simp: keep intro!: vc ok_fold ok_prims)

lemma ok_verify: "core_ok I k (core st) \<Longrightarrow> core_ok I k (core (snd (verifyClusterConfigWithData E st)))"
proof -
  assume *: "core_ok I k (core st)"
  have step: "core_ok I k (core (snd (verify_slot E j x)))" if "core_ok I k (core (snd x))" "j < CLUSTER_SLOTS E" for j x
    by (rule rebase [OF that(1)])
      (use that(2) refs(1) [OF that(1)] in \<open>auto simp: verify_slot_def split_beta intro!: ok_prims\<close>)
  have "core_ok I k (core (snd (fold (verify_slot E) js x)))"
    if "core_ok I k (core (snd x))" "set js \<subseteq> {..<CLUSTER_SLOTS E}" for js x
    using that by (induction js arbitrary: x) (simp_all add: step)
  from this [of "(False, st)" "[0..<CLUSTER_SLOTS E]"] * show ?thesis
    unfolding verifyClusterConfigWithData_def by (auto simp: atLeast0LessThan intro!: vc vc_snd)
qed

end

context cluster_invariant
begin

lemma ok_change_slot:
  assumes "core_ok I k (core st)" and "j < CLUSTER_SLOTS E"
  shows "core_ok I k (core (change_slot E del j st))"
proof (rule rebase [OF assms(1)])
  assume "core_ok I (next_ref st) (core st)"
  then show "core_ok I (next_ref st) (core (change_slot E del j st))"
    using assms(2) refs(1) [OF assms(1)]
    by (auto simp: change_slot_def Let_def split_beta intro!: ok_prims)
qed

lemma ok_changeslots: "core_ok I k (core st) \<Longrightarrow> core_ok I k (core (snd (cmd_changeslots E del argv st)))"
  unfolding cmd_changeslots_def
  by (auto simp: ok_reply_def split: sum.split intro!: ok_fold vc ok_change_slot)

lemma ok_setslot_node:
  "core_ok I k (core st) \<Longrightarrow> n < k \<Longrightarrow> j < CLUSTER_SLOTS E \<Longrightarrow> core_ok I k (core (setslot_node E j n st))"
  unfolding setslot_node_def by (auto intro!: vc ok_prims)

lemma getSlotOrReply_range: "getSlotOrReply E a = Inr j \<Longrightarrow> j < CLUSTER_SLOTS E"
  by (auto simp: getSlotOrReply_def split: option.splits if_splits)

lemma ok_setslot: "core_ok I k (core st) \<Longrightarrow> core_ok I k (core (snd (cmd_setslot E argv st)))"
proof (rule rebase)
  assume ok: "core_ok I (next_ref st) (core st)"
  with refs(3) [OF ok] show "core_ok I (next_ref st) (core (snd (cmd_setslot E argv st)))"
    unfolding cmd_setslot_def ok_reply_def
    by (auto simp: Let_def split: sum.split option.split dest: getSlotOrReply_range intro!: ok_setslot_node)
qed

lemma cmd_saveconfig_state: "snd (cmd_saveconfig E' st) = snd (clusterSaveConfig E' True st)"
  by (cases "clusterSaveConfig E' True st") (simp add: cmd_saveconfig_def split: bool.split)

lemma ok_meet: "core_ok I k (core st) \<Longrightarrow> core_ok I k (core (snd (cmd_meet E argv st)))"
  unfolding cmd_meet_def by (auto intro!: vc vc_snd ok_startHandshake)

lemma ok_slot_commands:
  "core_ok I k (core st) \<Longrightarrow> core_ok I k (core (snd (cmd_flushslots E st)))"
  "core_ok I k (core st) \<Longrightarrow> core_ok I k (core (snd (cmd_bumpepoch st)))"
  unfolding cmd_flushslots_def cmd_bumpepoch_def ok_reply_def
  by (auto intro!: vc vc_snd ok_delNodeSlots)

lemma ok_node_commands:
  "core_ok I k (core st) \<Longrightarrow> core_ok I k (core (snd (cmd_forget E argv st)))"
  "core_ok I k (core st) \<Longrightarrow> core_ok I k (core (snd (cmd_replicate E argv st)))"
  "core_ok I k (core st) \<Longrightarrow> core_ok I k (core (snd (cmd_count_failure_reports E argv st)))"
  unfolding cmd_forget_def cmd_replicate_def cmd_count_failure_reports_def ok_reply_def
  by (auto intro!: vc vc_snd ok_delNode ok_reportsCount)

lemma ok_failover_command: "core_ok I k (core st) \<Longrightarrow> core_ok I k (core (snd (cmd_failover E argv st)))"
proof -
  have "core_ok I k (core (snd (start_failover E f t m st)))" if "core_ok I k (core st)" for f t m st
    unfolding start_failover_def using that by (auto intro!: vc vc_snd ok_replaceMaster)
  then show "core_ok I k (core st) \<Longrightarrow> core_ok I k (core (snd (cmd_failover E argv st)))"
    unfolding cmd_failover_def let_value by (intro vc_snd) (simp_all only: snd_conv)
qed

lemma ok_epoch_command: "core_ok I k (core st) \<Longrightarrow> core_ok I k (core (snd (cmd_set_config_epoch E argv st)))"
  unfolding cmd_set_config_epoch_def ok_reply_def by (auto intro!: vc vc_snd)

lemma ok_reset_command: "core_ok I k (core st) \<Longrightarrow> core_ok I k (core (snd (cmd_reset E c argv st)))"
  unfolding cmd_reset_def let_value by (intro vc_snd) (simp_all only: snd_conv ok_reset)

lemma ok_clusterCommand: "core_ok I k (core st) \<Longrightarrow> core_ok I k (core (snd (clusterCommand E c argv st)))"
  unfolding clusterCommand_def Let_def
  by (intro vc_snd(4)) (simp_all only: snd_conv ok_meet ok_slot_commands ok_node_commands ok_failover_command
    ok_epoch_command ok_reset_command ok_changeslots ok_setslot cmd_saveconfig_state core_saveConfig)

end

end
