(* ===== verification/Cluster_Reachable.thy ===== *)
theory Cluster_Reachable
  imports Cluster_Invariant
begin

text \<open>
  The runs of a cluster node: a process starts with \<open>clusterInit\<close>, from a configuration file or
  without one, and then handles events (packets, the cron job, the work before sleeping, accepted
  connections, link errors, CLUSTER commands) in any order and with any clock, until it exits. A
  property of the tables of the node that obeys the laws of the locale \<open>cluster_table\<close> holds in
  every reachable state.
\<close>

section \<open>Events and reachable states\<close>

datatype event = Packet clusterMsg nat lref | Cron | BeforeSleep | Accept bool "int list" | LinkError lref
  | Command client "string list" | VerifyConfig

fun run_event :: "env \<Rightarrow> event \<Rightarrow> cst \<Rightarrow> cst" where
  "run_event E (Packet hdr rcvlen link) st = snd (clusterProcessPacket E hdr rcvlen link st)"
| "run_event E Cron st = clusterCron E st"
| "run_event E BeforeSleep st = clusterBeforeSleep E st"
| "run_event E (Accept loading fds) st = clusterAcceptHandler E loading fds st"
| "run_event E (LinkError link) st = handleLinkIOError link st"
| "run_event E (Command c argv) st = snd (clusterCommand E c argv st)"
| "run_event E VerifyConfig st = snd (verifyClusterConfigWithData E st)"

definition running :: "cst \<Rightarrow> bool" where
  "running st \<longleftrightarrow> \<not> aborted st \<and> \<not> exited st"

text \<open>A new process: no node and no link is allocated.\<close>

definition new_process :: "cst \<Rightarrow> bool" where
  "new_process st \<longleftrightarrow> next_ref st = 0 \<and> (\<forall>l. l_node (lk st l) = None)"

text \<open>The environment may differ from event to event except for the number of slots and of name bytes.\<close>

definition env_ok :: "nat \<Rightarrow> nat \<Rightarrow> env \<Rightarrow> bool" where
  "env_ok N M E \<longleftrightarrow> CLUSTER_SLOTS E = N \<and> CLUSTER_NAMELEN E = M \<and> cluster_h_ok E"

inductive reachable :: "nat \<Rightarrow> nat \<Rightarrow> cst \<Rightarrow> bool" for N M where
  init: "env_ok N M E \<Longrightarrow> new_process st0 \<Longrightarrow> running (clusterInit E st0) \<Longrightarrow> reachable N M (clusterInit E st0)"
| event: "reachable N M st \<Longrightarrow> running st \<Longrightarrow> env_ok N M E \<Longrightarrow> reachable N M (run_event E ev st)"

section \<open>The laws of a table property\<close>

locale cluster_table =
  fixes E :: env and T :: "cst \<Rightarrow> bool"
  assumes t_frame: "T st \<Longrightarrow> core st' = core st \<Longrightarrow> T st'"
    and t_start: "new_process st \<Longrightarrow> T (cleared_state E st)"
    and t_myself: "T st \<Longrightarrow> T (st\<lparr>myself := n\<rparr>)"
    and t_node_ref: "T st \<Longrightarrow> (nm, n) \<in> set (nodes st) \<Longrightarrow> n < next_ref st"
    and t_link_ref: "T st \<Longrightarrow> l_node (lk st l) = Some n \<Longrightarrow> n < next_ref st"
    and t_create_node: "T st \<Longrightarrow> T (snd (createClusterNode E onm F st))"
    and t_create_link: "T st \<Longrightarrow> (\<And>n. on = Some n \<Longrightarrow> n < next_ref st) \<Longrightarrow> T (snd (createClusterLink E on st))"
    and t_add_node: "T st \<Longrightarrow> n < next_ref st \<Longrightarrow> T (snd (clusterAddNode n st))"
    and t_rename_node: "T st \<Longrightarrow> n < next_ref st \<Longrightarrow> T (clusterRenameNode E n nm st)"
    and t_free_node: "T st \<Longrightarrow> T (freeClusterNode E n st)"
    and t_add_slot: "T st \<Longrightarrow> n < next_ref st \<Longrightarrow> j < CLUSTER_SLOTS E \<Longrightarrow> T (snd (clusterAddSlot E n j st))"
    and t_del_slot: "T st \<Longrightarrow> j < CLUSTER_SLOTS E \<Longrightarrow> T (snd (clusterDelSlot j st))"
    and t_add_report: "T st \<Longrightarrow> T (snd (clusterNodeAddFailureReport E n s st))"
    and t_del_report: "T st \<Longrightarrow> T (snd (clusterNodeDelFailureReport E n s st))"
    and t_cleanup_reports: "T st \<Longrightarrow> T (clusterNodeCleanupFailureReports E n st)"
    and t_hard_reset: "T st \<Longrightarrow> myself st < next_ref st \<Longrightarrow> T (reset_hard E st)"

lemma myself_upd [simp]:
  "myself (upd_node r f st) = myself st" "myself (add_flags r F st) = myself st"
  "myself (del_flags r F st) = myself st" "myself (serverAssert b st) = myself st" "myself (abort st) = myself st"
  "myself (set_my_epoch ep st) = myself st"
  by (simp_all add: upd_node_def add_flags_def del_flags_def serverAssert_def abort_def set_my_epoch_def)

lemma core_myself: "core st' = core st \<Longrightarrow> myself st' = myself st"
  by (simp add: core_def)

lemma myself_same [simp]:
  "myself (freeClusterLink l st) = myself st" "myself (snd (clusterNodeRemoveSlave m n st)) = myself st"
  by (rule core_myself, simp)+

lemma myself_prims [simp]:
  "myself (snd (createClusterNode E onm F st)) = myself st"
  "myself (snd (createClusterLink E on st)) = myself st"
  "myself (snd (clusterAddNode n st)) = myself st" "myself (clusterRenameNode E n nm st) = myself st"
  "myself (snd (clusterNodeAddFailureReport E n s st)) = myself st"
  "myself (snd (clusterNodeDelFailureReport E n s st)) = myself st"
  "myself (clusterNodeCleanupFailureReports E n st) = myself st"
  by (simp_all add: createClusterNode_def createClusterLink_def clusterAddNode_def clusterRenameNode_def
      clusterNodeAddFailureReport_def clusterNodeCleanupFailureReports_def clusterNodeDelFailureReport_def
      Let_def split_beta split: option.split)

lemma myself_slots [simp]:
  "myself (snd (clusterAddSlot E n j st)) = myself st" "myself (snd (clusterDelSlot j st)) = myself st"
  by (simp_all add: clusterAddSlot_def clusterDelSlot_def clusterNodeSetSlotBit_def clusterNodeClearSlotBit_def
      Let_def split_beta split: option.split)

lemma myself_fold: "(\<And>x st. myself (f x st) = myself st) \<Longrightarrow> myself (fold f xs st) = myself st"
  by (rule fold_keeps)

lemma myself_free [simp]: "myself (freeClusterNode E n st) = myself st"
  by (auto simp: freeClusterNode_def Let_def myself_fold split: option.split)

lemma myself_reset_hard [simp]: "myself (reset_hard E st) = myself st"
  by (auto simp: reset_hard_def Let_def split: option.split)

sublocale cluster_table \<subseteq> cluster_invariant E "\<lambda>st. T st \<and> myself st < next_ref st"
  by unfold_locales
    (auto simp: core_def intro: t_frame t_node_ref t_link_ref t_create_node t_create_link t_add_node t_rename_node
      t_free_node t_add_slot t_del_slot t_add_report t_del_report t_cleanup_reports t_hard_reset less_SucI)

section \<open>Start-up establishes a table property\<close>

text \<open>What the loader keeps beside the table property: once \<open>myself\<close> is set it is allocated.\<close>

definition me_ok :: "nref option \<Rightarrow> cst \<Rightarrow> bool" where
  "me_ok me st \<longleftrightarrow> me = None \<or> me = Some (myself st) \<and> myself st < next_ref st"

lemma if_eqE: "(if c then a else b) = r \<Longrightarrow> (a = r \<Longrightarrow> P) \<Longrightarrow> (b = r \<Longrightarrow> P) \<Longrightarrow> P"
  by (cases c) auto

lemma me_ok_mono: "me_ok me st \<Longrightarrow> myself st' = myself st \<Longrightarrow> next_ref st \<le> next_ref st' \<Longrightarrow> me_ok me st'"
  by (auto simp: me_ok_def)

context cluster_table
begin

lemma load_node_or_create:
  "T st \<Longrightarrow> node_or_create E nm st = (n, st') \<Longrightarrow> T st' \<and> n < next_ref st' \<and> next_ref st \<le> next_ref st' \<and> myself st' = myself st"
proof -
  assume T: "T st" and *: "node_or_create E nm st = (n, st')"
  have "T (snd (clusterAddNode (next_ref st) (snd (createClusterNode E (Some nm) {} st))))"
    using T by (intro t_add_node t_create_node) simp_all
  with T * show ?thesis
    by (auto simp: node_or_create_def clusterLookupNode_def split_beta split: option.splits
        dest!: map_of_SomeD intro: t_node_ref)
qed

lemma keep_node: "T st \<Longrightarrow> (\<And>n. node_core (f n) = node_core n) \<Longrightarrow> T (upd_node r f st)"
  by (rule t_frame, assumption, rule core_upd_node)

lemma T_core: "core st' = core st \<Longrightarrow> T st' \<longleftrightarrow> T st"
  by (metis t_frame)

lemma T_fields [simp]:
  "T (st\<lparr>currentEpoch := e\<rparr>) \<longleftrightarrow> T st" "T (st\<lparr>lastVoteEpoch := e\<rparr>) \<longleftrightarrow> T st"
  "T (st\<lparr>migrating_slots_to := os\<rparr>) \<longleftrightarrow> T st" "T (st\<lparr>importing_slots_from := os\<rparr>) \<longleftrightarrow> T st"
  "T (add_flags r F st) \<longleftrightarrow> T st"
  by (rule T_core, simp)+

lemma load_vars_ok: "T st \<Longrightarrow> load_vars vs st = Inr st' \<Longrightarrow> T st' \<and> next_ref st' = next_ref st \<and> myself st' = myself st"
  by (induction vs st rule: load_vars.induct) (auto split: if_splits)

lemma load_address_ok:
  "T st \<Longrightarrow> load_address E n a st = Inr st' \<Longrightarrow> T st' \<and> next_ref st' = next_ref st \<and> myself st' = myself st"
  by (auto simp: load_address_def split_beta split: option.splits if_splits intro!: keep_node
      simp: node_core_def Let_def)

lemma load_flag_ok:
  assumes "T st" and "n < next_ref st" and "me_ok me st" and "load_flag E n s (me, st) = Inr (me', st')"
  shows "T st' \<and> next_ref st' = next_ref st \<and> me_ok me' st'"
proof -
  let ?fail = "upd_node n (\<lambda>x. x\<lparr>n_fail_time := mstime E\<rparr>) (add_flags n {NF_FAIL} st)"
  have fail: "T ?fail" by (rule keep_node) (use assms(1) in \<open>simp_all add: node_core_def\<close>)
  from assms(4) show ?thesis
    unfolding load_flag_def prod.case
    by (elim if_eqE) (use assms(1-3) fail in \<open>auto simp: t_myself me_ok_def\<close>)
qed

lemma load_flags_ok:
  assumes "T st" and "n < next_ref st" and "me_ok me st" and "load_all (load_flag E n) ss (me, st) = Inr (me', st')"
  shows "T st' \<and> next_ref st' = next_ref st \<and> me_ok me' st'"
  using assms
proof (induction ss arbitrary: me st)
  case (Cons s ss)
  from Cons.prems(4) obtain me1 st1 where 1: "load_flag E n s (me, st) = Inr (me1, st1)"
    and 2: "load_all (load_flag E n) ss (me1, st1) = Inr (me', st')"
    by (auto split: sum.splits)
  from load_flag_ok [OF Cons.prems(1-3) 1] Cons.prems(2) Cons.IH [OF _ _ _ 2]
  show ?case by simp
qed simp

lemma load_master_ok:
  assumes "T st"
  shows "T (load_master E n a st) \<and> next_ref st \<le> next_ref (load_master E n a st)
    \<and> myself (load_master E n a st) = myself st"
proof -
  obtain m st1 where "node_or_create E a st = (m, st1)" by fastforce
  moreover from load_node_or_create [OF assms this] have "T st1" "next_ref st \<le> next_ref st1" "myself st1 = myself st" by auto
  moreover have c: "core (snd (clusterNodeAddSlave m n (upd_node n (\<lambda>x. x\<lparr>n_slaveof := Some m\<rparr>) st1))) = core st1"
    by (simp add: core_upd_node node_core_def)
  ultimately show ?thesis using assms core_next_ref [OF c] core_myself [OF c]
    by (simp add: load_master_def T_core [OF c])
qed

lemma load_slots_ok:
  assumes "T st" and "n < next_ref st" and "load_slots E n a st = Inr st'"
  shows "T st' \<and> next_ref st \<le> next_ref st' \<and> myself st' = myself st"
proof (cases "take 1 a = ''[''")
  case True
  with assms have "load_open_slot E a st = Inr st'" by (simp add: load_slots_def)
  then show ?thesis
    by (auto dest!: load_node_or_create [OF assms(1)] simp: load_open_slot_def Let_def split: option.splits if_splits prod.splits)
next
  case False
  have fold: "T (fold (\<lambda>j st. snd (clusterAddSlot E n j st)) js st) \<and>
      next_ref (fold (\<lambda>j st. snd (clusterAddSlot E n j st)) js st) = next_ref st \<and>
      myself (fold (\<lambda>j st. snd (clusterAddSlot E n j st)) js st) = myself st"
    if "T st" "n < next_ref st" "set js \<subseteq> {..<CLUSTER_SLOTS E}" for js st
    using that by (induction js arbitrary: st) (auto simp: t_add_slot)
  obtain x y where xy: "(case strchr_split (CHR ''-'') a of
      Some (x, y) \<Rightarrow> (atoi x, atoi y) | None \<Rightarrow> (atoi a, atoi a)) = (x, y)"
    by fastforce
  with False assms(3) have "x \<le> y \<Longrightarrow> 0 \<le> x \<and> y < int (CLUSTER_SLOTS E)"
    and st': "st' = fold (\<lambda>j st. snd (clusterAddSlot E n j st)) [nat x..<nat (y + 1)] st"
    by (auto simp: load_slots_def split: if_splits)
  then have "set [nat x..<nat (y + 1)] \<subseteq> {..<CLUSTER_SLOTS E}"
    by (cases "x \<le> y") (auto simp: nat_less_iff zless_nat_eq_int_zless)
  from fold [OF assms(1,2) this] st' show ?thesis by simp
qed

end

context cluster_table
begin

lemma load_all_slots_ok:
  assumes "T st" and "n < next_ref st" and "load_all (load_slots E n) as st = Inr st'"
  shows "T st' \<and> next_ref st \<le> next_ref st' \<and> myself st' = myself st"
  using assms
proof (induction as arbitrary: st)
  case (Cons a as)
  from Cons.prems(3) obtain st1 where 1: "load_slots E n a st = Inr st1"
    and 2: "load_all (load_slots E n) as st1 = Inr st'"
    by (auto split: sum.splits)
  from load_slots_ok [OF Cons.prems(1,2) 1] Cons.prems(2) Cons.IH [OF _ _ 2] show ?case by force
qed simp

lemma load_node_ok:
  assumes "T st" and "me_ok me st" and "load_node E argv (me, st) = Inr (me', st')"
  shows "T st' \<and> me_ok me' st'"
proof -
  obtain n st1 where 1: "node_or_create E (argv ! 0) st = (n, st1)" by fastforce
  with assms(3) obtain st2 me3 st3 where 2: "load_address E n (argv ! 1) st1 = Inr st2"
    and 3: "load_all (load_flag E n) (split_on (CHR '','') (argv ! 2)) (me, st2) = Inr (me3, st3)"
    unfolding load_node_def by (auto split: sum.splits)
  define st4 where "st4 = load_master E n (argv ! 3) st3"
  define st5 where "st5 = (if atoi (argv ! 4) \<noteq> 0 then upd_node n (\<lambda>x. x\<lparr>n_ping_sent := mstime E\<rparr>) st4 else st4)"
  define st6 where "st6 = (if atoi (argv ! 5) \<noteq> 0 then upd_node n (\<lambda>x. x\<lparr>n_pong_received := mstime E\<rparr>) st5 else st5)"
  define st7 where "st7 = upd_node n (\<lambda>x. x\<lparr>n_configEpoch := strtoull (argv ! 6)\<rparr>) st6"
  from assms(3) have 8: "load_all (load_slots E n) (drop 8 argv) st7 = Inr st'" and me: "me' = me3"
    unfolding load_node_def Let_def prod.case 1 2 3 sum.case st7_def st6_def st5_def st4_def
    by (auto split: sum.splits)
  note a1 = load_node_or_create [OF assms(1) 1]
  with load_address_ok [OF _ 2] have a2: "T st2" "next_ref st2 = next_ref st1" "myself st2 = myself st" by auto
  have "me_ok me st2" by (rule me_ok_mono [OF assms(2)]) (use a1 a2 in auto)
  from load_flags_ok [OF a2(1) _ this 3] a1 a2
  have a3: "T st3" "n < next_ref st3" "me_ok me3 st3" by auto
  from load_master_ok [OF a3(1), of n "argv ! 3"] a3(2)
  have a4: "T st4" "next_ref st3 \<le> next_ref st4" "myself st4 = myself st3" by (auto simp: st4_def)
  have "core st7 = core st4" by (simp add: st7_def st6_def st5_def core_upd_node node_core_def)
  note a7 = this T_core [OF this] core_next_ref [OF this] core_myself [OF this]
  with load_all_slots_ok [OF _ _ 8] a4 a3(2)
  have "T st'" "next_ref st3 \<le> next_ref st'" "myself st' = myself st3" by auto
  with me_ok_mono [OF a3(3)] me show ?thesis by auto
qed

lemma load_line_ok:
  assumes "T st" and "me_ok me st" and "load_line E line (me, st) = Inr (me', st')"
  shows "T st' \<and> me_ok me' st'"
proof (cases "take 1 line = [CHR 0x0A] \<or> take 1 line = [CHR 0x00]")
  case True
  with assms show ?thesis by (simp add: load_line_def)
next
  case False
  with assms(3) obtain a as where split: "sdssplitargs E (takeWhile (\<lambda>c. c \<noteq> CHR 0x00) line) = Some (a # as)"
    unfolding load_line_def by (auto split: option.split_asm list.split_asm)
  show ?thesis
  proof (cases "strcasecmp_eq a ''vars''")
    case True
    with False split assms(3) have "load_vars as st = Inr st'" "me' = me"
      unfolding load_line_def by (simp_all split: sum.split_asm)
    with load_vars_ok [OF assms(1)] assms(2) show ?thesis by (auto intro: me_ok_mono)
  next
    case nv: False
    from False split nv assms(3) have "load_node E (a # as) (me, st) = Inr (me', st')"
      unfolding load_line_def by (simp split: if_split_asm)
    with load_node_ok assms(1,2) show ?thesis by blast
  qed
qed

lemma load_lines_ok:
  assumes "T st" and "me_ok me st" and "load_all (load_line E) ls (me, st) = Inr (me', st')"
  shows "T st' \<and> me_ok me' st'"
  using assms
proof (induction ls arbitrary: me st)
  case (Cons l ls)
  from Cons.prems(3) obtain me1 st1 where 1: "load_line E l (me, st) = Inr (me1, st1)"
    and 2: "load_all (load_line E) ls (me1, st1) = Inr (me', st')"
    by (auto split: sum.splits)
  from load_line_ok [OF Cons.prems(1,2) 1] Cons.IH [OF _ _ 2] show ?case by simp
qed simp

lemma loadConfig_ok:
  assumes "T st" and "clusterLoadConfig E st = Inr (Some st')"
  shows "T st' \<and> myself st' < next_ref st'"
  using assms load_lines_ok [OF assms(1), of None]
  by (fastforce simp: clusterLoadConfig_def me_ok_def split: option.splits sum.splits if_splits)

lemma fresh_node_ok: "T st \<Longrightarrow> T (fresh_node E st) \<and> myself (fresh_node E st) < next_ref (fresh_node E st)"
proof -
  let ?st1 = "(snd (createClusterNode E None {NF_MYSELF, NF_MASTER} st))\<lparr>myself := next_ref st\<rparr>"
  let ?st2 = "snd (clusterAddNode (next_ref st) ?st1)"
  assume "T st"
  then have "T ?st2" by (intro t_add_node t_myself t_create_node) simp_all
  moreover have c: "core (clusterSaveConfigOrDie E True ?st2) = core ?st2" by simp
  moreover have "fresh_node E st = clusterSaveConfigOrDie E True ?st2"
    by (simp add: fresh_node_def split_beta Let_def)
  ultimately show ?thesis using core_next_ref [OF c] core_myself [OF c] by (simp add: T_core [OF c])
qed

lemma init_ok:
  assumes "new_process st" and "running (clusterInit E st)"
  shows "T (clusterInit E st) \<and> myself (clusterInit E st) < next_ref (clusterInit E st)"
proof -
  let ?c = "cleared_state E st"
  have T: "T ?c" by (rule t_start [OF assms(1)])
  have keep: "T s \<and> myself s < next_ref s \<Longrightarrow> core t = core s \<Longrightarrow> T t \<and> myself t < next_ref t" for s t
    by (metis T_core core_myself core_next_ref)
  from assms(2) obtain res where res: "clusterLoadConfig E ?c = Inr res"
    by (auto simp: clusterInit_def Let_def running_def abort_def split: if_splits sum.splits load_error.splits)
  define s where "s = (case res of Some st \<Rightarrow> st | None \<Rightarrow> fresh_node E ?c)"
  have "T s \<and> myself s < next_ref s"
    using loadConfig_ok [OF T] fresh_node_ok [OF T] res by (auto simp: s_def split: option.split)
  moreover have "core (clusterInit E st) = core s"
    using assms(2) res unfolding s_def [symmetric]
    by (auto simp: clusterInit_def Let_def running_def set_my_ports_def core_upd_node node_core_def s_def [symmetric])
  ultimately show ?thesis by (rule keep)
qed

lemma event_ok: "T st \<Longrightarrow> myself st < next_ref st \<Longrightarrow> T (run_event E ev st) \<and> myself (run_event E ev st) < next_ref (run_event E ev st)"
proof -
  assume "T st" and "myself st < next_ref st"
  then have ok: "core_ok (\<lambda>st. T st \<and> myself st < next_ref st) 0 (core st)" by (simp add: core_ok_iff)
  have "core_ok (\<lambda>st. T st \<and> myself st < next_ref st) 0 (core (run_event E ev st))"
    by (cases ev) (use ok in \<open>simp_all add: ok_processPacket ok_cron ok_beforeSleep ok_accept ok_clusterCommand ok_verify\<close>)
  then show ?thesis by (simp add: core_ok_iff)
qed

end

text \<open>A property that obeys the laws in every environment of a run holds in all reachable states.\<close>

lemma reachable_table:
  assumes "\<And>E. env_ok N M E \<Longrightarrow> cluster_table E T" and "reachable N M st"
  shows "T st \<and> myself st < next_ref st"
  using assms(2)
proof (induction rule: reachable.induct)
  case (init E st0)
  then show ?case using cluster_table.init_ok [OF assms(1)] by blast
next
  case (event st E ev)
  then show ?case using cluster_table.event_ok [OF assms(1)] by blast
qed

end
