(* ===== verification/Cluster_Tables.thy ===== *)
theory Cluster_Tables
  imports Cluster_Reachable
begin

text \<open>
  The tables of a cluster node and their invariants: the slot table agrees with the bitmaps and
  the counters of the nodes, the node table maps every name to the node of that name, and the
  failure reports on a node come from different senders. Each is an interpretation of the locale
  \<open>cluster_table\<close> and so holds in every reachable state.
\<close>

section \<open>References\<close>

definition refs_ok :: "cst \<Rightarrow> bool" where
  "refs_ok st \<longleftrightarrow> (\<forall>p \<in> set (nodes st). snd p < next_ref st) \<and> (\<forall>l n. l_node (lk st l) = Some n \<longrightarrow> n < next_ref st)"

text \<open>The effect of the primitive operations on the parts of the core.\<close>

lemma nd_upd [simp]: "nd (upd_node r f st) n = (if n = r then f (nd st n) else nd st n)"
  by (simp add: nd_def upd_node_def)

lemma fields_upd [simp]:
  "nodes (upd_node r f st) = nodes st" "slots (upd_node r f st) = slots st" "lk (upd_node r f st) = lk st"
  by (simp_all add: upd_node_def lk_def fun_eq_iff)

lemma nd_simps [simp]:
  "nd (st\<lparr>nodes := d\<rparr>) = nd st" "nd (st\<lparr>slots := ss\<rparr>) = nd st" "nd (st\<lparr>live := ls\<rparr>) = nd st"
  "nd (st\<lparr>myself := m\<rparr>) = nd st" "nd (abort st) = nd st" "nd (serverAssert b st) = nd st"
  "lk (st\<lparr>nodes := d\<rparr>) = lk st" "lk (st\<lparr>slots := ss\<rparr>) = lk st" "lk (st\<lparr>live := ls\<rparr>) = lk st"
  "lk (st\<lparr>myself := m\<rparr>) = lk st" "lk (abort st) = lk st" "lk (serverAssert b st) = lk st"
  "nodes (abort st) = nodes st" "slots (abort st) = slots st"
  "nodes (serverAssert b st) = nodes st" "slots (serverAssert b st) = slots st"
  by (simp_all add: nd_def lk_def abort_def serverAssert_def fun_eq_iff)

lemma flags_upd [simp]:
  "nd (add_flags r F st) n = (if n = r then (nd st n)\<lparr>n_flags := n_flags (nd st n) \<union> F\<rparr> else nd st n)"
  "nd (del_flags r F st) n = (if n = r then (nd st n)\<lparr>n_flags := n_flags (nd st n) - F\<rparr> else nd st n)"
  "nodes (add_flags r F st) = nodes st" "slots (add_flags r F st) = slots st" "lk (add_flags r F st) = lk st"
  "nodes (del_flags r F st) = nodes st" "slots (del_flags r F st) = slots st" "lk (del_flags r F st) = lk st"
  by (simp_all add: add_flags_def del_flags_def)

lemma create_effect:
  "nodes (snd (createClusterNode E onm F st)) = nodes st" "slots (snd (createClusterNode E onm F st)) = slots st"
  "lk (snd (createClusterNode E onm F st)) = lk st"
  "r \<noteq> next_ref st \<Longrightarrow> nd (snd (createClusterNode E onm F st)) r = nd st r"
  "n_slots (nd (snd (createClusterNode E onm F st)) (next_ref st)) = empty_bitmap E"
  "n_numslots (nd (snd (createClusterNode E onm F st)) (next_ref st)) = 0"
  "n_fail_reports (nd (snd (createClusterNode E onm F st)) (next_ref st)) = []"
  by (simp_all add: createClusterNode_def Let_def split_beta nd_def lk_def fun_eq_iff)

lemma create_link_effect:
  "nodes (snd (createClusterLink E on st)) = nodes st" "slots (snd (createClusterLink E on st)) = slots st"
  "nd (snd (createClusterLink E on st)) = nd st"
  "l_node (lk (snd (createClusterLink E on st)) l) = (if l = next_lref st then on else l_node (lk st l))"
  by (simp_all add: createClusterLink_def Let_def nd_def lk_def fun_eq_iff)

lemma add_node_effect:
  "nodes (snd (clusterAddNode n st)) = (if map_of (nodes st) (n_name (nd st n)) = None
     then nodes st @ [(n_name (nd st n), n)] else nodes st)"
  "slots (snd (clusterAddNode n st)) = slots st" "nd (snd (clusterAddNode n st)) = nd st"
  "lk (snd (clusterAddNode n st)) = lk st"
  by (auto simp: clusterAddNode_def dictAdd_def split: option.split)

lemma reports_effect:
  "nodes (snd (clusterNodeAddFailureReport E n s st)) = nodes st"
  "slots (snd (clusterNodeAddFailureReport E n s st)) = slots st"
  "lk (snd (clusterNodeAddFailureReport E n s st)) = lk st"
  "nodes (clusterNodeCleanupFailureReports E n st) = nodes st"
  "slots (clusterNodeCleanupFailureReports E n st) = slots st"
  "lk (clusterNodeCleanupFailureReports E n st) = lk st"
  "nodes (snd (clusterNodeDelFailureReport E n s st)) = nodes st"
  "slots (snd (clusterNodeDelFailureReport E n s st)) = slots st"
  "lk (snd (clusterNodeDelFailureReport E n s st)) = lk st"
  by (simp_all add: clusterNodeAddFailureReport_def clusterNodeCleanupFailureReports_def
      clusterNodeDelFailureReport_def Let_def split: option.split)

lemma reports_nd [simp]:
  "n_name (nd (snd (clusterNodeAddFailureReport E n s st)) r) = n_name (nd st r)"
  "n_slots (nd (snd (clusterNodeAddFailureReport E n s st)) r) = n_slots (nd st r)"
  "n_numslots (nd (snd (clusterNodeAddFailureReport E n s st)) r) = n_numslots (nd st r)"
  "n_name (nd (clusterNodeCleanupFailureReports E n st) r) = n_name (nd st r)"
  "n_slots (nd (clusterNodeCleanupFailureReports E n st) r) = n_slots (nd st r)"
  "n_numslots (nd (clusterNodeCleanupFailureReports E n st) r) = n_numslots (nd st r)"
  "n_name (nd (snd (clusterNodeDelFailureReport E n s st)) r) = n_name (nd st r)"
  "n_slots (nd (snd (clusterNodeDelFailureReport E n s st)) r) = n_slots (nd st r)"
  "n_numslots (nd (snd (clusterNodeDelFailureReport E n s st)) r) = n_numslots (nd st r)"
  by (simp_all add: clusterNodeAddFailureReport_def clusterNodeCleanupFailureReports_def
      clusterNodeDelFailureReport_def Let_def split: option.split)

lemma core_nodes_cong: "core st = core st' \<Longrightarrow> core (st\<lparr>nodes := d\<rparr>) = core (st'\<lparr>nodes := d\<rparr>)"
  by (simp add: core_def)

lemma dictDelete_delete: "(case dictDelete k d of Some d' \<Rightarrow> d' | None \<Rightarrow> d) = AList.delete k d"
  by (auto simp: dictDelete_def map_of_eq_None_iff delete_id split: option.split)

lemma core_delete:
  "core (case dictDelete k (nodes st) of Some d \<Rightarrow> st\<lparr>nodes := d\<rparr> | None \<Rightarrow> abort st)
     = core (st\<lparr>nodes := AList.delete k (nodes st)\<rparr>)"
  by (auto simp: dictDelete_def map_of_eq_None_iff delete_id core_def split: option.split)

lemma core_parts: "core st = core st' \<Longrightarrow> nodes st = nodes st' \<and> n_name (nd st r) = n_name (nd st' r)"
  by (auto simp: core_def node_core_def fun_eq_iff)

lemma free_core: "core (freeClusterNode E n st) = core (st\<lparr>nodes := AList.delete (n_name (nd st n)) (nodes st)\<rparr>)"
proof -
  define a where "a = fold (\<lambda>s. upd_node s (\<lambda>x. x\<lparr>n_slaveof := None\<rparr>)) (n_slaves (nd st n)) st"
  define b where "b = (if nodeIsSlave E a n
    then (case n_slaveof (nd a n) of Some m \<Rightarrow> snd (clusterNodeRemoveSlave m n a) | None \<Rightarrow> a) else a)"
  have "core a = core st" unfolding a_def by (rule core_fold) (simp add: core_upd_node node_core_def)
  then have b: "core b = core st" unfolding b_def by (auto split: option.split)
  let ?c = "case dictDelete (n_name (nd b n)) (nodes b) of Some d \<Rightarrow> b\<lparr>nodes := d\<rparr> | None \<Rightarrow> abort b"
  have "core (freeClusterNode E n st) = core ?c"
    by (auto simp: freeClusterNode_def Let_def a_def b_def split: option.split)
  also have "\<dots> = core (b\<lparr>nodes := AList.delete (n_name (nd b n)) (nodes b)\<rparr>)" by (rule core_delete)
  also have "\<dots> = core (st\<lparr>nodes := AList.delete (n_name (nd st n)) (nodes st)\<rparr>)"
    using core_parts [OF b, of n] core_nodes_cong [OF b] by simp
  finally show ?thesis .
qed

lemma rename_core:
  "core (clusterRenameNode E n nm st) = core (snd (clusterAddNode n (upd_node n (\<lambda>x. x\<lparr>n_name := name_bytes E nm\<rparr>)
     (st\<lparr>nodes := AList.delete (n_name (nd st n)) (nodes st)\<rparr>))))"
  by (auto simp: clusterRenameNode_def Let_def dictDelete_def map_of_eq_None_iff delete_id core_def add_node_effect
      split: option.split)

lemma reset_hard_core:
  "core (reset_hard E st) = core (snd (clusterAddNode (myself st) (upd_node (myself st)
     (\<lambda>x. x\<lparr>n_name := random_name E (rand_pos st)\<rparr>)
     (st\<lparr>nodes := AList.delete (n_name (nd st (myself st))) (nodes st)\<rparr>))))"
  by (auto simp: reset_hard_def set_my_epoch_def Let_def dictDelete_def map_of_eq_None_iff delete_id core_def
      add_node_effect node_core_def nd_def lk_def upd_node_def split: option.split)

lemma cleared_effect [simp]:
  "nodes (cleared_state E st) = []" "slots (cleared_state E st) = replicate (CLUSTER_SLOTS E) None"
  "next_ref (cleared_state E st) = next_ref st" "lk (cleared_state E st) = lk st" "nd (cleared_state E st) = nd st"
  by (simp_all add: cleared_state_def clusterCloseAllSlots_def lk_def nd_def fun_eq_iff)

lemma slot_ops_effect [simp]:
  "nodes (snd (clusterAddSlot E n j st)) = nodes st" "lk (snd (clusterAddSlot E n j st)) = lk st"
  "nodes (snd (clusterDelSlot j st)) = nodes st" "lk (snd (clusterDelSlot j st)) = lk st"
  "n_name (nd (snd (clusterAddSlot E n j st)) r) = n_name (nd st r)"
  "n_name (nd (snd (clusterDelSlot j st)) r) = n_name (nd st r)"
  "n_fail_reports (nd (snd (clusterAddSlot E n j st)) r) = n_fail_reports (nd st r)"
  "n_fail_reports (nd (snd (clusterDelSlot j st)) r) = n_fail_reports (nd st r)"
  by (simp_all add: clusterAddSlot_def clusterDelSlot_def clusterNodeSetSlotBit_def clusterNodeClearSlotBit_def
      Let_def split_beta split: option.split)

lemma delete_subset: "p \<in> set (AList.delete k d) \<Longrightarrow> p \<in> set d \<and> fst p \<noteq> k"
  by (auto simp: AList.delete_eq)

text \<open>The references stay allocated.\<close>

lemma refs_core: "core st' = core st \<Longrightarrow> refs_ok st' \<longleftrightarrow> refs_ok st"
  by (auto simp: refs_ok_def core_def fun_eq_iff)

lemma refs_laws [simp]:
  "new_process st \<Longrightarrow> refs_ok (cleared_state E st)"
  "refs_ok (st\<lparr>myself := m\<rparr>) \<longleftrightarrow> refs_ok st"
  "refs_ok (snd (clusterAddSlot E n j st)) \<longleftrightarrow> refs_ok st" "refs_ok (snd (clusterDelSlot j st)) \<longleftrightarrow> refs_ok st"
  "refs_ok (snd (clusterNodeAddFailureReport E n s st)) \<longleftrightarrow> refs_ok st"
  "refs_ok (snd (clusterNodeDelFailureReport E n s st)) \<longleftrightarrow> refs_ok st"
  "refs_ok (clusterNodeCleanupFailureReports E n st) \<longleftrightarrow> refs_ok st"
  "refs_ok (upd_node r f st) \<longleftrightarrow> refs_ok st"
  by (simp_all add: refs_ok_def new_process_def reports_effect)

lemma refs_create [simp]: "refs_ok st \<Longrightarrow> refs_ok (snd (createClusterNode E onm F st))"
  by (auto simp: refs_ok_def create_effect intro: less_SucI)

lemma refs_create_link:
  "refs_ok st \<Longrightarrow> (\<And>n. on = Some n \<Longrightarrow> n < next_ref st) \<Longrightarrow> refs_ok (snd (createClusterLink E on st))"
  by (auto simp: refs_ok_def create_link_effect)

lemma refs_add [simp]: "refs_ok st \<Longrightarrow> n < next_ref st \<Longrightarrow> refs_ok (snd (clusterAddNode n st))"
  by (auto simp: refs_ok_def add_node_effect)

lemma refs_delete [simp]: "refs_ok st \<Longrightarrow> refs_ok (st\<lparr>nodes := AList.delete k (nodes st)\<rparr>)"
  by (auto simp: refs_ok_def dest: delete_subset)

lemma refs_free [simp]: "refs_ok st \<Longrightarrow> refs_ok (freeClusterNode E n st)"
  by (simp add: refs_core [OF free_core])

lemma refs_rename [simp]: "refs_ok st \<Longrightarrow> n < next_ref st \<Longrightarrow> refs_ok (clusterRenameNode E n nm st)"
  by (simp add: refs_core [OF rename_core])

lemma refs_hard [simp]: "refs_ok st \<Longrightarrow> myself st < next_ref st \<Longrightarrow> refs_ok (reset_hard E st)"
  by (simp add: refs_core [OF reset_hard_core])

lemma refs_node: "refs_ok st \<Longrightarrow> (nm, n) \<in> set (nodes st) \<Longrightarrow> n < next_ref st"
  by (auto simp: refs_ok_def)

lemma refs_link: "refs_ok st \<Longrightarrow> l_node (lk st l) = Some n \<Longrightarrow> n < next_ref st"
  by (auto simp: refs_ok_def)

section \<open>Names\<close>

definition names_ok :: "cst \<Rightarrow> bool" where
  "names_ok st \<longleftrightarrow> distinct (map fst (nodes st)) \<and> (\<forall>p \<in> set (nodes st). n_name (nd st (snd p)) = fst p)"

lemma names_core: "core st' = core st \<Longrightarrow> names_ok st' \<longleftrightarrow> names_ok st"
  by (auto simp: names_ok_def core_def node_core_def fun_eq_iff)

lemma names_add: "names_ok st \<Longrightarrow> names_ok (snd (clusterAddNode n st))"
  by (auto simp: names_ok_def add_node_effect map_of_eq_None_iff)

lemma names_delete: "names_ok st \<Longrightarrow> names_ok (st\<lparr>nodes := AList.delete k (nodes st)\<rparr>)"
  by (auto simp: names_ok_def distinct_delete dest: delete_subset)

lemma names_rename:
  assumes "names_ok st"
  shows "names_ok (snd (clusterAddNode n (upd_node n (\<lambda>x. x\<lparr>n_name := nm\<rparr>)
     (st\<lparr>nodes := AList.delete (n_name (nd st n)) (nodes st)\<rparr>))))"
  by (rule names_add) (use assms in \<open>fastforce simp: names_ok_def distinct_delete dest: delete_subset\<close>)

lemma names_laws [simp]:
  "names_ok (cleared_state E st)" "names_ok (st\<lparr>myself := m\<rparr>) \<longleftrightarrow> names_ok st"
  "names_ok (snd (createClusterLink E on st)) \<longleftrightarrow> names_ok st"
  "names_ok (snd (clusterAddSlot E n j st)) \<longleftrightarrow> names_ok st" "names_ok (snd (clusterDelSlot j st)) \<longleftrightarrow> names_ok st"
  "names_ok (snd (clusterNodeAddFailureReport E n s st)) \<longleftrightarrow> names_ok st"
  "names_ok (snd (clusterNodeDelFailureReport E n s st)) \<longleftrightarrow> names_ok st"
  "names_ok (clusterNodeCleanupFailureReports E n st) \<longleftrightarrow> names_ok st"
  by (simp_all add: names_ok_def reports_effect create_link_effect)

lemma names_create: "refs_ok st \<Longrightarrow> names_ok st \<Longrightarrow> names_ok (snd (createClusterNode E onm F st))"
  by (fastforce simp: names_ok_def refs_ok_def create_effect)

interpretation names: cluster_table E "\<lambda>st. refs_ok st \<and> names_ok st" for E
  by unfold_locales
    (auto simp: names_create names_add names_core [OF free_core] names_core [OF rename_core]
      names_core [OF reset_hard_core] names_delete names_rename
      intro: refs_node refs_link refs_create_link refs_core [THEN iffD2] names_core [THEN iffD2])

section \<open>Failure reports\<close>

definition reports_ok :: "cst \<Rightarrow> bool" where
  "reports_ok st \<longleftrightarrow> (\<forall>n < next_ref st. distinct (map fst (n_fail_reports (nd st n))))"

lemma reports_core: "core st' = core st \<Longrightarrow> reports_ok st' \<longleftrightarrow> reports_ok st"
  by (auto simp: reports_ok_def core_def node_core_def fun_eq_iff)

lemma report_again_senders: "report_again s t rs = Some rs' \<Longrightarrow> map fst rs' = map fst rs"
  by (induction s t rs arbitrary: rs' rule: report_again.induct) (auto split: if_splits)

lemma report_again_None: "report_again s t rs = None \<longleftrightarrow> s \<notin> fst ` set rs"
  by (induction s t rs rule: report_again.induct) auto

lemma drop_report_senders:
  "drop_report s rs = Some rs' \<Longrightarrow> set rs' \<subseteq> set rs \<and> (distinct (map fst rs) \<longrightarrow> distinct (map fst rs'))"
  by (induction s rs arbitrary: rs' rule: drop_report.induct) (fastforce split: if_splits)+

lemma distinct_filter_senders: "distinct (map fst rs) \<Longrightarrow> distinct (map fst (filter P rs))"
  by (rule distinct_map_filter)

lemma rename_fields:
  "n_fail_reports (nd (upd_node n (\<lambda>x. x\<lparr>n_name := nm\<rparr>) st) r) = n_fail_reports (nd st r)"
  "n_slots (nd (upd_node n (\<lambda>x. x\<lparr>n_name := nm\<rparr>) st) r) = n_slots (nd st r)"
  "n_numslots (nd (upd_node n (\<lambda>x. x\<lparr>n_name := nm\<rparr>) st) r) = n_numslots (nd st r)"
  by simp_all

lemma reports_laws [simp]:
  "new_process st \<Longrightarrow> reports_ok (cleared_state E st)" "reports_ok (st\<lparr>myself := m\<rparr>) \<longleftrightarrow> reports_ok st"
  "reports_ok (snd (createClusterLink E on st)) \<longleftrightarrow> reports_ok st"
  "reports_ok (snd (clusterAddNode n st)) \<longleftrightarrow> reports_ok st"
  "reports_ok (snd (clusterAddSlot E n j st)) \<longleftrightarrow> reports_ok st"
  "reports_ok (snd (clusterDelSlot j st)) \<longleftrightarrow> reports_ok st"
  "reports_ok (st\<lparr>nodes := d\<rparr>) \<longleftrightarrow> reports_ok st"
  "reports_ok (upd_node n (\<lambda>x. x\<lparr>n_name := nm\<rparr>) st) \<longleftrightarrow> reports_ok st"
  by (simp_all add: reports_ok_def new_process_def create_link_effect add_node_effect rename_fields del: nd_upd)

lemma reports_create: "reports_ok st \<Longrightarrow> reports_ok (snd (createClusterNode E onm F st))"
  unfolding reports_ok_def next_ref_nodes
proof (intro allI impI)
  fix n assume "\<forall>n < next_ref st. distinct (map fst (n_fail_reports (nd st n)))" "n < Suc (next_ref st)"
  then show "distinct (map fst (n_fail_reports (nd (snd (createClusterNode E onm F st)) n)))"
    by (cases "n = next_ref st") (auto simp: create_effect)
qed

lemma reports_cleanup: "reports_ok st \<Longrightarrow> reports_ok (clusterNodeCleanupFailureReports E n st)"
  by (auto simp: reports_ok_def clusterNodeCleanupFailureReports_def Let_def distinct_filter_senders)

lemma reports_add: "reports_ok st \<Longrightarrow> reports_ok (snd (clusterNodeAddFailureReport E n s st))"
  by (auto simp: reports_ok_def clusterNodeAddFailureReport_def report_again_None dest: report_again_senders
      split: option.split)

lemma reports_del: "reports_ok st \<Longrightarrow> reports_ok (snd (clusterNodeDelFailureReport E n s st))"
proof -
  assume *: "reports_ok st"
  have "reports_ok (upd_node n (\<lambda>x. x\<lparr>n_fail_reports := rs\<rparr>) st)" if "drop_report s (n_fail_reports (nd st n)) = Some rs" for rs
    using * drop_report_senders [OF that] by (auto simp: reports_ok_def)
  with * show ?thesis by (auto simp: clusterNodeDelFailureReport_def Let_def reports_cleanup split: option.split)
qed

interpretation reports: cluster_table E "\<lambda>st. refs_ok st \<and> reports_ok st" for E
  by unfold_locales
    (auto simp: reports_create reports_cleanup reports_add reports_del reports_core [OF free_core]
      reports_core [OF rename_core] reports_core [OF reset_hard_core]
      intro: refs_node refs_link refs_create_link refs_core [THEN iffD2] reports_core [THEN iffD2])

section \<open>Slots\<close>

definition owned :: "nat \<Rightarrow> cst \<Rightarrow> nref \<Rightarrow> nat set" where
  "owned N st n = {j. j < N \<and> slots st ! j = Some n}"

definition slots_ok :: "nat \<Rightarrow> cst \<Rightarrow> bool" where
  "slots_ok N st \<longleftrightarrow> length (slots st) = N \<and> (\<forall>j < N. \<forall>n. slots st ! j = Some n \<longrightarrow> n < next_ref st)
     \<and> (\<forall>n < next_ref st. length (n_slots (nd st n)) = N div 8
          \<and> (\<forall>j < N. bitmapTestBit (n_slots (nd st n)) j \<longleftrightarrow> slots st ! j = Some n)
          \<and> n_numslots (nd st n) = int (card (owned N st n)))"

lemma finite_owned [simp]: "finite (owned N st n)"
  by (simp add: owned_def)

lemma slots_core: "core st' = core st \<Longrightarrow> slots_ok N st' \<longleftrightarrow> slots_ok N st"
  by (auto simp: slots_ok_def owned_def core_def node_core_def fun_eq_iff)

lemma slots_laws [simp]:
  "new_process st \<Longrightarrow> slots_ok (CLUSTER_SLOTS E) (cleared_state E st)" "slots_ok N (st\<lparr>myself := m\<rparr>) \<longleftrightarrow> slots_ok N st"
  "slots_ok N (snd (createClusterLink E on st)) \<longleftrightarrow> slots_ok N st"
  "slots_ok N (snd (clusterAddNode n st)) \<longleftrightarrow> slots_ok N st"
  "slots_ok N (st\<lparr>nodes := d\<rparr>) \<longleftrightarrow> slots_ok N st"
  "slots_ok N (upd_node n (\<lambda>x. x\<lparr>n_name := nm\<rparr>) st) \<longleftrightarrow> slots_ok N st"
  "slots_ok N (snd (clusterNodeAddFailureReport E n s st)) \<longleftrightarrow> slots_ok N st"
  "slots_ok N (snd (clusterNodeDelFailureReport E n s st)) \<longleftrightarrow> slots_ok N st"
  "slots_ok N (clusterNodeCleanupFailureReports E n st) \<longleftrightarrow> slots_ok N st"
  by (simp_all add: slots_ok_def owned_def new_process_def create_link_effect add_node_effect reports_effect
      rename_fields del: nd_upd)

lemma slots_create:
  assumes "8 dvd CLUSTER_SLOTS E" and "slots_ok (CLUSTER_SLOTS E) st"
  shows "slots_ok (CLUSTER_SLOTS E) (snd (createClusterNode E onm F st))"
proof -
  let ?st = "snd (createClusterNode E onm F st)" and ?N = "CLUSTER_SLOTS E"
  have o: "owned ?N ?st n = owned ?N st n" for n by (simp add: owned_def create_effect)
  have fresh: "slots st ! j \<noteq> Some (next_ref st)" if "j < ?N" for j
    using assms(2) that by (auto simp: slots_ok_def)
  then have e: "owned ?N st (next_ref st) = {}" by (auto simp: owned_def)
  have "length (n_slots (nd ?st n)) = ?N div 8
      \<and> (\<forall>j < ?N. bitmapTestBit (n_slots (nd ?st n)) j \<longleftrightarrow> slots ?st ! j = Some n)
      \<and> n_numslots (nd ?st n) = int (card (owned ?N ?st n))" if "n < Suc (next_ref st)" for n
  proof (cases "n = next_ref st")
    case True
    with fresh e assms(1) show ?thesis by (simp add: create_effect o) (simp add: empty_bitmap_def)
  next
    case False
    with that assms(2) show ?thesis by (simp add: slots_ok_def create_effect o)
  qed
  with assms(2) show ?thesis unfolding slots_ok_def next_ref_nodes create_effect by (auto intro: less_SucI)
qed

text \<open>The effect of the two slot operations on the owners, the bitmaps and the counters.\<close>

lemma add_slot_effect:
  "slots (snd (clusterAddSlot E n j st)) = (if slots st ! j = None then (slots st)[j := Some n] else slots st)"
  "n_slots (nd (snd (clusterAddSlot E n j st)) r) =
     (if slots st ! j = None \<and> r = n then bitmapSetBit (n_slots (nd st r)) j else n_slots (nd st r))"
  "n_numslots (nd (snd (clusterAddSlot E n j st)) r) =
     (if slots st ! j = None \<and> r = n \<and> \<not> bitmapTestBit (n_slots (nd st r)) j
      then n_numslots (nd st r) + 1 else n_numslots (nd st r))"
  by (auto simp: clusterAddSlot_def clusterNodeSetSlotBit_def Let_def)

lemma del_slot_effect:
  "slots (snd (clusterDelSlot j st)) = (slots st)[j := None]"
  "n_slots (nd (snd (clusterDelSlot j st)) r) =
     (if slots st ! j = Some r then bitmapClearBit (n_slots (nd st r)) j else n_slots (nd st r))"
  "n_numslots (nd (snd (clusterDelSlot j st)) r) =
     (if slots st ! j = Some r \<and> bitmapTestBit (n_slots (nd st r)) j
      then n_numslots (nd st r) - 1 else n_numslots (nd st r))"
  by (auto simp: clusterDelSlot_def clusterNodeClearSlotBit_def Let_def split: option.split) (metis list_update_id)

lemma owned_add:
  assumes "slots st ! j = None" and "j < N" and "length (slots st) = N"
  shows "owned N (snd (clusterAddSlot E n j st)) r = (if r = n then insert j (owned N st r) else owned N st r)"
    and "j \<notin> owned N st r"
  using assms by (auto simp: owned_def add_slot_effect nth_list_update)

lemma owned_del:
  assumes "j < N" and "length (slots st) = N"
  shows "owned N (snd (clusterDelSlot j st)) r = owned N st r - {j}"
  using assms by (auto simp: owned_def del_slot_effect nth_list_update)

lemma slots_add:
  assumes "8 dvd N" and "slots_ok N st" and "n < next_ref st" and "j < N"
  shows "slots_ok N (snd (clusterAddSlot E n j st))"
proof (cases "slots st ! j = None")
  case True
  have len: "length (slots st) = N" using assms(2) by (simp add: slots_ok_def)
  have "j div 8 < N div 8" using assms(1,4) by (auto simp: less_mult_imp_div_less)
  then have "length (n_slots (nd st n)) = N div 8 \<and> j div 8 < length (n_slots (nd st n)) \<and> \<not> bitmapTestBit (n_slots (nd st n)) j"
    using assms(2,3,4) True by (auto simp: slots_ok_def)
  with assms(2,3,4) len True show ?thesis
    unfolding slots_ok_def next_ref_slots
    by (auto simp: add_slot_effect owned_add [OF True assms(4) len] nth_list_update)
qed (use assms(2) in \<open>simp add: clusterAddSlot_def\<close>)

lemma slots_del:
  assumes "8 dvd N" and "slots_ok N st" and "j < N"
  shows "slots_ok N (snd (clusterDelSlot j st))"
proof -
  have len: "length (slots st) = N" using assms(2) by (simp add: slots_ok_def)
  have "j div 8 < N div 8" using assms(1,3) by (auto simp: less_mult_imp_div_less)
  moreover have "card (owned N st n - {j}) = (if slots st ! j = Some n then card (owned N st n) - 1 else card (owned N st n))"
    and "slots st ! j = Some n \<Longrightarrow> card (owned N st n) > 0" for n
    using assms(3) by (auto simp: owned_def card_gt_0_iff)
  ultimately show ?thesis
    using assms(2,3) len unfolding slots_ok_def next_ref_slots
    by (auto simp: del_slot_effect owned_del [OF assms(3) len] nth_list_update of_nat_diff)
qed

interpretation slot_table: cluster_table E
  "\<lambda>st. refs_ok st \<and> (8 dvd CLUSTER_SLOTS E \<longrightarrow> slots_ok (CLUSTER_SLOTS E) st)" for E
  by unfold_locales
    (auto simp: slots_create slots_add slots_del slots_core [OF free_core] slots_core [OF rename_core]
      slots_core [OF reset_hard_core]
      intro: refs_node refs_link refs_create_link refs_core [THEN iffD2] slots_core [THEN iffD2])

section \<open>The invariants of a run\<close>

lemmas table_axioms = names.cluster_table_axioms reports.cluster_table_axioms slot_table.cluster_table_axioms

lemma reachable_names: "reachable N M st \<Longrightarrow> names_ok st"
  using reachable_table [of N M "\<lambda>st. refs_ok st \<and> names_ok st"] names.cluster_table_axioms by blast

lemma reachable_refs: "reachable N M st \<Longrightarrow> refs_ok st \<and> myself st < next_ref st"
  using reachable_table [of N M "\<lambda>st. refs_ok st \<and> names_ok st"] names.cluster_table_axioms by blast

lemma reachable_reports: "reachable N M st \<Longrightarrow> reports_ok st"
  using reachable_table [of N M "\<lambda>st. refs_ok st \<and> reports_ok st"] reports.cluster_table_axioms by blast

lemma reachable_env: "reachable N M st \<Longrightarrow> 8 dvd N"
  by (induction rule: reachable.induct) (auto simp: env_ok_def cluster_h_ok_def)

lemma reachable_slots: "reachable N M st \<Longrightarrow> slots_ok N st"
proof -
  assume r: "reachable N M st"
  have "cluster_table E (\<lambda>st. refs_ok st \<and> (8 dvd N \<longrightarrow> slots_ok N st))" if "env_ok N M E" for E
    using slot_table.cluster_table_axioms [of E] that by (simp add: env_ok_def)
  from reachable_table [OF this r] reachable_env [OF r] show ?thesis by simp
qed

end
