(* ===== verification/Cluster_Example.thy ===== *)
theory Cluster_Example
  imports Cluster_Tables
begin

text \<open>
  A small cluster on which the definitions are evaluated: eight slots, names of two bytes, a node
  that starts without a configuration file, meets a second node and receives its packets.
\<close>

definition blank_node :: clusterNode where
  "blank_node = \<lparr>n_ctime = 0, n_name = [], n_flags = {}, n_configEpoch = 0, n_slots = [], n_numslots = 0,
     n_slaves = [], n_slaveof = None, n_ping_sent = 0, n_pong_received = 0, n_fail_time = 0, n_voted_time = 0,
     n_repl_offset_time = 0, n_orphaned_time = 0, n_repl_offset = 0, n_ip = [], n_port = 0, n_cport = 0,
     n_link = None, n_fail_reports = []\<rparr>"

definition blank_link :: clusterLink where
  "blank_link = \<lparr>l_ctime = 0, l_sndbuf = [], l_node = None, l_fd = -1\<rparr>"

definition ex_st0 :: cst where
  "ex_st0 = \<lparr>nodes_mem = (\<lambda>_. blank_node), next_ref = 0, live = [], links_mem = (\<lambda>_. blank_link), next_lref = 0,
     live_links = [], aborted = False, nodes = [], myself = 0, currentEpoch = 0, lastVoteEpoch = 0,
     cl_state = CLUSTER_FAIL, cl_size = 0, nodes_black_list = [], slots = [], migrating_slots_to = [],
     importing_slots_from = [], failover_auth_time = 0, failover_auth_count = 0, failover_auth_sent = False,
     failover_auth_rank = 0, failover_auth_epoch = 0, cant_failover_reason = CF_NONE, mf_end = 0, mf_slave = None,
     mf_master_offset = 0, mf_can_start = False, todo_before_sleep = {}, stats_received = [], stats_sent = [],
     stats_pfail_nodes = 0, among_minority_time = 0, first_call_time = 0, lastlog_time = 0, cron_iteration = 0,
     prev_ip = None, rand_pos = 0, effects = [], conf_file = None, exited = False\<rparr>"

definition ex_name :: "nat \<Rightarrow> string" where
  "ex_name p = (if p = 0 then ''n0'' else if p = 1 then ''n1'' else ''n2'')"

definition ex_env :: env where
  "ex_env = \<lparr>CLUSTER_SLOTS = 8, CLUSTER_PROTO_VER = 1, CLUSTER_FAIL_REPORT_VALIDITY_MULT = 2,
     CLUSTER_FAIL_UNDO_TIME_MULT = 2, CLUSTER_MF_TIMEOUT = 5000, CLUSTER_SLAVE_MIGRATION_DELAY = 5000,
     CLUSTER_CANT_FAILOVER_RELOG_PERIOD = 300, CLUSTER_PORT_INCR = 10000, CLUSTER_NAMELEN = 2,
     CLUSTER_NODE_NULL_NAME = [CHR 0x00, CHR 0x00], NET_IP_STR_LEN = 46, hdr_len = 2256, gossip_len = 104,
     fail_len = 40, publish_len = 16, update_len = 2096, msg_len = 2352,
     h_nodeIsMaster = (\<lambda>F. NF_MASTER \<in> F), h_nodeIsSlave = (\<lambda>F. NF_SLAVE \<in> F),
     h_nodeInHandshake = (\<lambda>F. NF_HANDSHAKE \<in> F), h_nodeHasAddr = (\<lambda>F. NF_NOADDR \<notin> F),
     h_nodeTimedOut = (\<lambda>F. NF_PFAIL \<in> F), h_nodeFailed = (\<lambda>F. NF_FAIL \<in> F),
     cluster_node_timeout = 15000, cluster_migration_barrier = 1, cluster_slave_validity_factor = 10,
     cluster_require_full_coverage = True, cluster_announce_ip = None, cluster_announce_port = 0,
     cluster_announce_bus_port = 0, server_port = 7000, repl_ping_slave_period = 10, masterhost_null = True,
     repl_connected = True, master_lastinteraction = 0, repl_down_since = 0, master_repl_offset = 0,
     replicationGetSlaveOffset = 0, clientsArePaused = False, pubsub_active = True, mstime = 100000,
     server_mstime = 100000, unixtime = 100, time_now = 100, random_val = (\<lambda>p. p), random_name = ex_name,
     countKeysInSlot = (\<lambda>_. 0), keys_outside_db0 = False, norm_ip = Some, peer_ip = (\<lambda>_. ''10.0.0.2''),
     sock_name = (\<lambda>_. Some ''10.0.0.1''), connect_fd = (\<lambda>ip port. Some 7),
     crc16 = (\<lambda>s. of_nat (sum_list (map (of_char :: char \<Rightarrow> nat) s))), cluster_enabled = True, db0_size = 0,
     getLongLongFromObject = (\<lambda>s. if s \<noteq> [] \<and> list_all is_digit s then Some (int (digits_val s)) else None),
     getKeysInSlot = (\<lambda>_ _. []), getKeysFromCommand = (\<lambda>cmd argv. [1]), lookupKeyRead = (\<lambda>_. True),
     mem_after = (\<lambda>_. [CHR 0x00, CHR 0x00]), sdssplitargs = (\<lambda>s. Some (split_on (CHR '' '') (filter (\<lambda>c. c \<noteq> CHR 0x0A) s))),
     cfg_lock_ok = True, cfg_read_ok = True, cfg_open_ok = True, cfg_fstat_ok = True, cfg_written = (\<lambda>n. n),
     cfg_truncate_ok = True, cfg_error = ''error'', listen_ok = True\<rparr>"

lemma ex_env_ok: "env_ok 8 2 ex_env"
  by (simp add: env_ok_def cluster_h_ok_def ex_env_def numeral_2_eq_2)

definition ex_client :: client where
  "ex_client = \<lparr>c_flags = {}, c_btype_list = False, c_bpop_keys = [], c_mstate = [], c_db_size = 0\<rparr>"

lemma ex_new: "new_process ex_st0"
  by (simp add: new_process_def ex_st0_def lk_def blank_link_def)

section \<open>The state after the start\<close>

definition ex_node0 :: clusterNode where
  "ex_node0 = blank_node\<lparr>n_ctime := 100000, n_name := ''n0'', n_flags := {NF_MYSELF, NF_MASTER}, n_slots := [0]\<rparr>"

definition ex_file :: string where
  "ex_file = ''n0 :0@0 myself,master - 0 0 0 connected'' @ [CHR 0x0A] @ ''vars currentEpoch 0 lastVoteEpoch 0'' @ [CHR 0x0A]"

definition ex_cleared :: cst where
  "ex_cleared = ex_st0\<lparr>cl_size := 1, slots := replicate 8 None, migrating_slots_to := replicate 8 None,
     importing_slots_from := replicate 8 None\<rparr>"

definition ex_fresh :: cst where
  "ex_fresh = ex_cleared\<lparr>nodes_mem := (\<lambda>x. if x = 0 then ex_node0 else blank_node), next_ref := 1, live := [0],
     nodes := [(''n0'', 0)], rand_pos := 1\<rparr>"

definition ex_init :: cst where
  "ex_init = ex_fresh\<lparr>nodes_mem := (\<lambda>x. if x = 0 then ex_node0\<lparr>n_port := 7000, n_cport := 17000\<rparr> else blank_node),
     effects := [FsyncConfig], conf_file := Some ex_file\<rparr>"

lemmas ex_states = ex_init_def ex_fresh_def ex_cleared_def ex_st0_def ex_node0_def blank_node_def

lemma ex_env_simps:
  "CLUSTER_SLOTS ex_env = 8" "mstime ex_env = 100000" "random_name ex_env = ex_name" "cfg_lock_ok ex_env"
  "listen_ok ex_env" "cfg_open_ok ex_env" "cfg_fstat_ok ex_env" "cfg_written ex_env = (\<lambda>n. n)"
  "CLUSTER_PORT_INCR ex_env = 10000" "server_port ex_env = 7000" "cluster_announce_port ex_env = 0"
  "cluster_announce_bus_port ex_env = 0" "cfg_truncate_ok ex_env" "empty_bitmap ex_env = [0]" "cluster_enabled ex_env"
  by (simp_all add: ex_env_def empty_bitmap_def)

lemma ex_payload: "config_payload ex_env ex_fresh = ex_file"
  by code_simp

lemma ex_fresh_add:
  "snd (clusterAddNode 0 ((snd (createClusterNode ex_env None {NF_MYSELF, NF_MASTER} ex_cleared))\<lparr>myself := 0\<rparr>)) = ex_fresh"
  by (simp add: clusterAddNode_def createClusterNode_def ex_env_simps dictAdd_def nd_def ex_states ex_name_def fun_eq_iff)

lemma ex_fresh_save: "clusterSaveConfigOrDie ex_env True ex_fresh = ex_fresh\<lparr>effects := [FsyncConfig], conf_file := Some ex_file\<rparr>"
proof -
  have [simp]: "todo_before_sleep ex_fresh = {}" "conf_file ex_fresh = None" "effects ex_fresh = []"
    "ex_fresh\<lparr>todo_before_sleep := {}\<rparr> = ex_fresh"
    by (simp_all add: ex_states)
  show ?thesis
    by (simp add: clusterSaveConfigOrDie_def clusterSaveConfig_def ex_env_simps Let_def ex_payload emit_def)
qed

lemma ex_init_eq: "clusterInit ex_env ex_st0 = ex_init"
proof -
  let ?f = "ex_fresh\<lparr>effects := [FsyncConfig], conf_file := Some ex_file\<rparr>"
  have cl: "cleared_state ex_env ex_st0 = ex_cleared"
    by (simp add: cleared_state_def ex_states ex_env_simps clusterCloseAllSlots_def)
  have ld: "clusterLoadConfig ex_env ex_cleared = Inr None" by (simp add: clusterLoadConfig_def ex_states)
  have fr: "fresh_node ex_env ex_cleared = ?f"
  proof -
    have "next_ref ex_cleared = 0" by (simp add: ex_states)
    then show ?thesis by (simp add: fresh_node_def split_beta Let_def ex_fresh_save ex_fresh_add)
  qed
  have ex: "exited ?f = False" by (simp add: ex_states)
  have "clusterInit ex_env ex_st0 = resetManualFailover ex_env (set_my_ports ex_env (?f\<lparr>mf_end := 0\<rparr>))"
    by (simp only: clusterInit_def Let_def cl ld sum.case option.case fr ex if_False) (simp add: ex_env_simps)
  also have "\<dots> = ex_init"
    by (simp add: set_my_ports_def upd_node_def resetManualFailover_def ex_env_simps) (simp add: ex_states fun_eq_iff)
  finally show ?thesis .
qed

lemma ex_init_running: "running ex_init"
  by (simp add: running_def ex_states)

lemma ex_init_reachable: "reachable 8 2 ex_init"
  using reachable.init [OF ex_env_ok ex_new] ex_init_running by (simp add: ex_init_eq)

section \<open>Three slots\<close>

definition ex_argv :: "string list" where
  "ex_argv = [''cluster'', ''addslots'', ''1'', ''2'', ''6'']"

definition ex_slots :: cst where
  "ex_slots = run_event ex_env (Command ex_client ex_argv) ex_init"

lemma ex_slots_reachable: "reachable 8 2 ex_slots"
  unfolding ex_slots_def by (rule reachable.event [OF ex_init_reachable ex_init_running ex_env_ok])

lemma ex_check: "check_slots ex_env False [''1'', ''2'', ''6''] (replicate 8 0) ex_init = Inr [0, 1, 1, 0, 0, 0, 1, 0]"
proof -
  have "getSlotOrReply ex_env ''1'' = Inr 1" "getSlotOrReply ex_env ''2'' = Inr 2" "getSlotOrReply ex_env ''6'' = Inr 6"
    by code_simp+
  then show ?thesis by (simp add: ex_states numeral_eq_Suc)
qed

definition ex_added :: cst where
  "ex_added = fold (\<lambda>j st. if [0, 1, 1, 0, 0, 0, 1, 0 :: nat] ! j \<noteq> 0 then change_slot ex_env False j st else st) [0..<8] ex_init"

lemma ex_slots_eq [code]: "ex_slots = clusterDoBeforeSleep {TODO_UPDATE_STATE, TODO_SAVE_CONFIG} ex_added"
proof -
  have "clusterCommand ex_env ex_client ex_argv ex_init = cmd_changeslots ex_env False ex_argv ex_init"
    by (simp add: clusterCommand_def Let_def ex_env_simps ex_argv_def strcasecmp_eq_def lower_char_def)
  then show ?thesis
    by (simp add: ex_slots_def cmd_changeslots_def ex_argv_def ex_check ex_env_simps ok_reply_def ex_added_def
        del: check_slots.simps)
qed

lemma ex_slots_facts: "slots ex_slots = [None, Some 0, Some 0, None, None, None, Some 0, None]"
  "next_ref ex_slots = 1" "running ex_slots" "myself ex_slots = 0"
  unfolding ex_slots_eq by code_simp+

section \<open>A second node\<close>

definition ex_meet_argv :: "string list" where
  "ex_meet_argv = [''cluster'', ''meet'', ''10.0.0.2'', ''7000'']"

definition ex_meet :: cst where
  "ex_meet = run_event ex_env (Command ex_client ex_meet_argv) ex_slots"

lemma ex_meet_reachable: "reachable 8 2 ex_meet"
  unfolding ex_meet_def by (rule reachable.event [OF ex_slots_reachable ex_slots_facts(3) ex_env_ok])

lemma ex_meet_eq [code]: "ex_meet = snd (clusterStartHandshake ex_env ''10.0.0.2'' 7000 17000 ex_slots)"
proof -
  have "clusterCommand ex_env ex_client ex_meet_argv ex_slots = cmd_meet ex_env ex_meet_argv ex_slots"
    by (simp add: clusterCommand_def Let_def ex_env_simps ex_meet_argv_def strcasecmp_eq_def lower_char_def)
  moreover have "getLongLongFromObject ex_env ''7000'' = Some 7000" by code_simp
  ultimately show ?thesis
    by (simp add: ex_meet_def cmd_meet_def ex_meet_argv_def ex_env_simps split_beta Let_def) (simp add: to_int32_def)
qed

lemma ex_meet_facts: "slots ex_meet = [None, Some 0, Some 0, None, None, None, Some 0, None]"
  "next_ref ex_meet = 2" "running ex_meet" "myself ex_meet = 0" "nodes ex_meet = [(''n0'', 0), (''n1'', 1)]"
  "importing_slots_from ex_meet = replicate 8 None" "n_configEpoch (nd ex_meet 0) = 0"
  by code_simp+

section \<open>A slave of a failed master\<close>

text \<open>Node 0 is this node, a slave of node 1; node 1 is a master with the slots 1 and 2, marked as failed.\<close>

definition ex_slave :: clusterNode where
  "ex_slave = ex_node0\<lparr>n_flags := {NF_MYSELF, NF_SLAVE}, n_slaveof := Some 1\<rparr>"

definition ex_master :: clusterNode where
  "ex_master = ex_node0\<lparr>n_name := ''n1'', n_flags := {NF_MASTER, NF_FAIL}, n_slots := [6], n_numslots := 2,
     n_slaves := [0]\<rparr>"

definition ex_fo :: cst where
  "ex_fo = ex_init\<lparr>nodes_mem := (\<lambda>x. if x = 0 then ex_slave else if x = 1 then ex_master else blank_node),
     next_ref := 2, nodes := [(''n0'', 0), (''n1'', 1)],
     slots := [None, Some 1, Some 1, None, None, None, None, None]\<rparr>"

lemma ex_fo_simps [simp]:
  "nd ex_fo 0 = ex_slave" "nd ex_fo (Suc 0) = ex_master" "next_ref ex_fo = 2" "myself ex_fo = 0"
  "slots ex_fo = [None, Some 1, Some 1, None, None, None, None, None]"
  by (simp_all add: ex_fo_def nd_def ex_states)

lemma owned_filter: "owned N st n = set (filter (\<lambda>j. slots st ! j = Some n) [0..<N])"
  by (auto simp: owned_def)

lemma ex_fo_slots: "slots_ok 8 ex_fo"
proof -
  have n: "n < 2 \<longleftrightarrow> n = 0 \<or> n = Suc 0" for n :: nat by auto
  have j: "j < 8 \<longleftrightarrow> j \<in> {0, 1, 2, 3, 4, 5, 6, 7}" for j :: nat by auto
  have "owned 8 ex_fo 0 = {}" "owned 8 ex_fo (Suc 0) = {1, 2}"
    by (simp_all add: owned_filter upt_rec numeral_eq_Suc insert_commute)
  then show ?thesis
    by (auto simp: slots_ok_def n j ex_slave_def ex_master_def ex_node0_def blank_node_def bitmapTestBit_def)
qed

end
