(* ===== verification/Cluster_Slots.thy ===== *)
theory Cluster_Slots
  imports Cluster_Example
begin

text \<open>
  The slot table of a running node: it agrees with the bitmaps, the assertions on it never fail,
  CLUSTER ADDSLOTS and DELSLOTS are atomic, a claimed configuration rebinds exactly the slots the
  rules allow, and a failover moves exactly the slots of the old master.
\<close>

text \<open>
  C1. In every reachable state of a node and for every node it has allocated, the bit of a slot in
  the bitmap of the node is set exactly when the slot table names that node as the owner, and the
  number of slots kept in the node is the number of slots it owns.
\<close>

theorem slots_agree:
  assumes "reachable N M st" and "n < next_ref st"
  shows "(\<forall>j < N. clusterNodeGetSlotBit st n j \<longleftrightarrow> slots st ! j = Some n)
    \<and> n_numslots (nd st n) = int (card {j. j < N \<and> slots st ! j = Some n})"
  using reachable_slots [OF assms(1)] assms(2)
  by (simp add: slots_ok_def clusterNodeGetSlotBit_def owned_def)

theorem slots_agree_witness:
  "clusterNodeGetSlotBit ex_slots 0 6 \<and> \<not> clusterNodeGetSlotBit ex_slots 0 3 \<and> n_numslots (nd ex_slots 0) = 3"
proof -
  have "{j. j < 8 \<and> slots ex_slots ! j = Some 0} = {1, 2, 6}"
    unfolding ex_slots_facts by (auto simp: less_Suc_eq numeral_eq_Suc)
  with slots_agree [OF ex_slots_reachable, of 0] show ?thesis
    by (simp add: ex_slots_facts)
qed

section \<open>ADDSLOTS and DELSLOTS\<close>

lemma del_slot_aborted:
  assumes "slots_ok N st" and "j < N"
  shows "aborted (snd (clusterDelSlot j st)) = aborted st"
  using assms by (auto simp: clusterDelSlot_def clusterNodeClearSlotBit_def Let_def serverAssert_def upd_node_def
      slots_ok_def split: option.split)

lemma add_slot_aborted: "aborted (snd (clusterAddSlot E n j st)) = aborted st"
  by (simp add: clusterAddSlot_def clusterNodeSetSlotBit_def Let_def upd_node_def add_flags_def)

lemma slot_op_result:
  "fst (clusterDelSlot j st) \<longleftrightarrow> slots st ! j \<noteq> None" "fst (clusterAddSlot E n j st) \<longleftrightarrow> slots st ! j = None"
  by (auto simp: clusterDelSlot_def clusterAddSlot_def Let_def split_beta split: option.split)

text \<open>The slots a list of arguments names, when the command accepts it.\<close>

definition accepted :: "env \<Rightarrow> bool \<Rightarrow> string list \<Rightarrow> cst \<Rightarrow> nat list \<Rightarrow> bool" where
  "accepted E del as st ss \<longleftrightarrow> map (getSlotOrReply E) as = map Inr ss \<and> distinct ss
     \<and> (\<forall>s \<in> set ss. del \<longleftrightarrow> slots st ! s \<noteq> None)"

lemma slot_arg_range: "getSlotOrReply E a = Inr j \<Longrightarrow> j < CLUSTER_SLOTS E"
  by (auto simp: getSlotOrReply_def split: option.splits if_splits)

definition counted :: "nat \<Rightarrow> nat set \<Rightarrow> nat list" where
  "counted N D = map (\<lambda>j. if j \<in> D then 1 else 0) [0..<N]"

lemma counted_upd: "j < N \<Longrightarrow> (counted N D)[j := Suc 0] = counted N (insert j D)"
  by (rule nth_equalityI) (auto simp: counted_def nth_list_update)

lemma counted_nth: "j < N \<Longrightarrow> counted N D ! j = (if j \<in> D then 1 else 0)"
  by (simp add: counted_def)

lemma check_slots_accepts:
  assumes "accepted E del as st ss" and "set ss \<inter> D = {}"
  shows "check_slots E del as (counted (CLUSTER_SLOTS E) D) st = Inr (counted (CLUSTER_SLOTS E) (D \<union> set ss))"
  using assms
proof (induction as arbitrary: ss D)
  case Nil
  then show ?case by (simp add: accepted_def)
next
  case (Cons a as)
  then obtain s ss' where ss: "ss = s # ss'" by (cases ss) (auto simp: accepted_def)
  with Cons.prems have s: "getSlotOrReply E a = Inr s" "del \<longleftrightarrow> slots st ! s \<noteq> None" "s \<notin> D"
    and acc: "accepted E del as st ss'" "set ss' \<inter> insert s D = {}"
    by (auto simp: accepted_def)
  from slot_arg_range [OF s(1)] s Cons.IH [OF acc] show ?case
    by (auto simp: ss counted_upd counted_nth)
qed

lemma check_slots_rejects:
  assumes "check_slots E del as (counted (CLUSTER_SLOTS E) D) st = Inr c"
  shows "\<exists>ss. accepted E del as st ss \<and> set ss \<inter> D = {}"
  using assms
proof (induction as arbitrary: D)
  case Nil
  then show ?case by (auto simp: accepted_def)
next
  case (Cons a as)
  then obtain s where s: "getSlotOrReply E a = Inr s" by (auto split: sum.splits)
  note r = slot_arg_range [OF s]
  from Cons.prems s have d: "del \<longleftrightarrow> slots st ! s \<noteq> None" and n: "counted (CLUSTER_SLOTS E) D ! s \<noteq> 1"
    and c: "check_slots E del as ((counted (CLUSTER_SLOTS E) D)[s := counted (CLUSTER_SLOTS E) D ! s + 1]) st = Inr c"
    by (auto split: if_splits)
  from n r have D: "s \<notin> D" "counted (CLUSTER_SLOTS E) D ! s = 0" by (auto simp: counted_def split: if_splits)
  from c D r have "check_slots E del as (counted (CLUSTER_SLOTS E) (insert s D)) st = Inr c"
    by (simp add: counted_upd)
  from Cons.IH [OF this] obtain ss where "accepted E del as st ss" "set ss \<inter> insert s D = {}" by auto
  with s d D have "accepted E del (a # as) st (s # ss)" "set (s # ss) \<inter> D = {}" by (auto simp: accepted_def)
  then show ?case by blast
qed

lemma change_slot_effect:
  assumes "8 dvd N" and "slots_ok N st" and "myself st < next_ref st" and "j < N" and "del \<longleftrightarrow> slots st ! j \<noteq> None"
  shows "slots_ok N (change_slot E del j st)" and "aborted (change_slot E del j st) = aborted st"
    and "slots (change_slot E del j st) = (slots st)[j := (if del then None else Some (myself st))]"
    and "next_ref (change_slot E del j st) = next_ref st" and "myself (change_slot E del j st) = myself st"
proof -
  define st1 where "st1 = (if importing_slots_from st ! j \<noteq> None
    then st\<lparr>importing_slots_from := (importing_slots_from st)[j := None]\<rparr> else st)"
  have st1: "core st1 = core st" "aborted st1 = aborted st" by (simp_all add: st1_def)
  then have f: "slots st1 = slots st" "next_ref st1 = next_ref st" "myself st1 = myself st" by (simp_all add: core_def)
  from slots_core [OF st1(1)] assms(2) have ok: "slots_ok N st1" by simp
  have "change_slot E del j st = snd (if del then clusterDelSlot j st1 else clusterAddSlot E (myself st1) j st1)"
    using assms(5) slot_op_result(1) [of j st1] slot_op_result(2) [of E "myself st1" j st1] f
    unfolding change_slot_def Let_def st1_def [symmetric] by (auto simp: split_beta serverAssert_def)
  with ok f assms st1(2) slots_del [OF assms(1) ok assms(4)] slots_add [OF assms(1) ok, of "myself st1" j E]
  show "slots_ok N (change_slot E del j st)" and "aborted (change_slot E del j st) = aborted st"
    and "slots (change_slot E del j st) = (slots st)[j := (if del then None else Some (myself st))]"
    and "next_ref (change_slot E del j st) = next_ref st" and "myself (change_slot E del j st) = myself st"
    by (auto simp: del_slot_aborted add_slot_aborted del_slot_effect add_slot_effect)
qed

lemma change_slots_effect:
  fixes E :: env
  assumes "8 dvd N" and "slots_ok N st" and "myself st < next_ref st" and "set js \<subseteq> {..<N}" and "distinct js"
    and "\<And>j. j \<in> S \<Longrightarrow> j \<in> set js \<Longrightarrow> del \<longleftrightarrow> slots st ! j \<noteq> None"
  defines "st' \<equiv> fold (\<lambda>j st. if j \<in> S then change_slot E del j st else st) js st"
  shows "aborted st' = aborted st \<and> (\<forall>i < N. slots st' ! i =
    (if i \<in> S \<and> i \<in> set js then (if del then None else Some (myself st)) else slots st ! i))"
  using assms(2-6) unfolding st'_def
proof (induction js arbitrary: st)
  case (Cons j js)
  define st1 where "st1 = (if j \<in> S then change_slot E del j st else st)"
  have len: "length (slots st) = N" using Cons.prems(1) by (simp add: slots_ok_def)
  have st1: "slots_ok N st1" "aborted st1 = aborted st" "myself st1 = myself st" "next_ref st1 = next_ref st"
    "slots st1 = (if j \<in> S then (slots st)[j := (if del then None else Some (myself st))] else slots st)"
    using change_slot_effect [OF assms(1) Cons.prems(1,2), of j del E] Cons.prems(1,3,5)
    by (auto simp: st1_def)
  have "slots st1 ! i = slots st ! i" if "i \<noteq> j" for i using that by (simp add: st1(5))
  with Cons.prems(4,5) have "del \<longleftrightarrow> slots st1 ! i \<noteq> None" if "i \<in> S" "i \<in> set js" for i
    using that by (metis distinct.simps(2) list.set_intros(2))
  from Cons.IH [OF st1(1) _ _ _ this] Cons.prems(2-4) st1 len show ?case
    by (auto simp: st1_def [symmetric] nth_list_update)
qed simp

text \<open>
  C17. CLUSTER ADDSLOTS and DELSLOTS on a running node are atomic and do not crash it. The command
  answers OK exactly when every argument is a slot number in range, no slot is named twice, and
  every named slot is free (ADDSLOTS) or assigned (DELSLOTS); then exactly the named slots become
  this node's, or unassigned, and no assertion fails. Otherwise the state is unchanged.
\<close>

theorem changeslots_atomic:
  assumes "reachable N M st" and "env_ok N M E"
  shows "case cmd_changeslots E del argv st of (r, st') \<Rightarrow>
    (\<exists>ss. accepted E del (drop 2 argv) st ss \<and> r = Status ''OK'' \<and> aborted st' = aborted st
       \<and> (\<forall>j < N. slots st' ! j = (if j \<in> set ss then (if del then None else Some (myself st)) else slots st ! j)))
    \<or> (\<nexists>ss. accepted E del (drop 2 argv) st ss) \<and> r \<noteq> Status ''OK'' \<and> st' = st"
proof (cases "\<exists>ss. accepted E del (drop 2 argv) st ss")
  case True
  then obtain ss where acc: "accepted E del (drop 2 argv) st ss" by blast
  have N: "CLUSTER_SLOTS E = N" "8 dvd N" using assms(2) by (auto simp: env_ok_def cluster_h_ok_def)
  have z: "counted N {} = replicate N 0" by (simp add: counted_def map_replicate_trivial)
  let ?f = "fold (\<lambda>j st. if counted N (set ss) ! j \<noteq> 0 then change_slot E del j st else st) [0..<N] st"
  have eq: "?f = fold (\<lambda>j st. if j \<in> set ss then change_slot E del j st else st) [0..<N] st"
    by (rule fold_cong) (auto simp: counted_def fun_eq_iff)
  have "del \<longleftrightarrow> slots st ! j \<noteq> None" if "j \<in> set ss" for j using acc that by (simp add: accepted_def)
  with change_slots_effect [OF N(2) reachable_slots [OF assms(1)], of "[0..<N]" "set ss" del E] reachable_refs [OF assms(1)]
  have "aborted ?f = aborted st \<and> (\<forall>i < N. slots ?f ! i = (if i \<in> set ss then (if del then None else Some (myself st)) else slots st ! i))"
    unfolding eq by (simp add: atLeast0LessThan)
  with acc check_slots_accepts [OF acc, of "{}"] show ?thesis
    by (auto simp: cmd_changeslots_def N z ok_reply_def clusterDoBeforeSleep_def)
next
  case False
  have N: "CLUSTER_SLOTS E = N" using assms(2) by (simp add: env_ok_def)
  have z: "counted N {} = replicate N 0" by (simp add: counted_def map_replicate_trivial)
  from False check_slots_rejects [of E del "drop 2 argv" "{}" st] obtain e
    where e: "check_slots E del (drop 2 argv) (replicate N 0) st = Inl e"
    by (cases "check_slots E del (drop 2 argv) (replicate N 0) st") (auto simp: N z)
  have "check_slots E del as c st = Inl e \<Longrightarrow> e \<noteq> Status ''OK''" for as c
    by (induction as arbitrary: c) (auto simp: getSlotOrReply_def split: sum.splits option.splits if_splits)
  from this [OF e] e False show ?thesis by (simp add: cmd_changeslots_def N)
qed

theorem changeslots_atomic_witness:
  "cmd_changeslots ex_env False [''cluster'', ''addslots'', ''5'', ''6''] ex_slots
     = (fst (cmd_changeslots ex_env False [''cluster'', ''addslots'', ''5'', ''6''] ex_slots), ex_slots)
   \<and> fst (cmd_changeslots ex_env False [''cluster'', ''addslots'', ''5'', ''6''] ex_slots) \<noteq> Status ''OK''"
proof -
  have "getSlotOrReply ex_env ''5'' = Inr 5" "getSlotOrReply ex_env ''6'' = Inr 6" by code_simp+
  then have "\<not> accepted ex_env False [''5'', ''6''] ex_slots ss" for ss
    by (auto simp: accepted_def ex_slots_facts)
  with changeslots_atomic [OF ex_slots_reachable ex_env_ok, of False "[''cluster'', ''addslots'', ''5'', ''6'']"]
  show ?thesis by (auto simp: split_beta) (metis prod.collapse)
qed

section \<open>Claimed slots\<close>

lemma slot_ops_frame [simp]:
  "importing_slots_from (snd (clusterAddSlot E n j st)) = importing_slots_from st"
  "importing_slots_from (snd (clusterDelSlot j st)) = importing_slots_from st"
  "n_configEpoch (nd (snd (clusterAddSlot E n j st)) r) = n_configEpoch (nd st r)"
  "n_configEpoch (nd (snd (clusterDelSlot j st)) r) = n_configEpoch (nd st r)"
  by (simp_all add: clusterAddSlot_def clusterDelSlot_def clusterNodeSetSlotBit_def clusterNodeClearSlotBit_def
      Let_def split_beta upd_node_def add_flags_def serverAssert_def abort_def nd_def split: option.split)

lemma doBeforeSleep_frame [simp]:
  "importing_slots_from (clusterDoBeforeSleep F st) = importing_slots_from st"
  "nd (clusterDoBeforeSleep F st) = nd st" "slots (clusterDoBeforeSleep F st) = slots st"
  "next_ref (clusterDoBeforeSleep F st) = next_ref st" "aborted (clusterDoBeforeSleep F st) = aborted st"
  by (simp_all add: clusterDoBeforeSleep_def nd_def fun_eq_iff)

text \<open>When a sender that claims a slot gets it.\<close>

definition rebinds :: "nref \<Rightarrow> epoch \<Rightarrow> bitmap \<Rightarrow> cst \<Rightarrow> nat \<Rightarrow> bool" where
  "rebinds sender ep claimed st j \<longleftrightarrow> bitmapTestBit claimed j \<and> slots st ! j \<noteq> Some sender
     \<and> importing_slots_from st ! j = None
     \<and> (case slots st ! j of None \<Rightarrow> True | Some owner \<Rightarrow> n_configEpoch (nd st owner) < ep)"

text \<open>Moving a slot to a node: \<open>clusterDelSlot\<close> and \<open>clusterAddSlot\<close> one after the other.\<close>

lemma move_slot:
  fixes E :: env
  assumes "8 dvd N" and "slots_ok N st" and "n < next_ref st" and "j < N"
  defines "st' \<equiv> snd (clusterAddSlot E n j (snd (clusterDelSlot j st)))"
  shows "slots_ok N st'" and "slots st' = (slots st)[j := Some n]" and "aborted st' = aborted st"
proof -
  have len: "length (slots st) = N" using assms(2) by (simp add: slots_ok_def)
  note d = slots_del [OF assms(1,2,4)]
  from slots_add [OF assms(1) d _ assms(4)] assms(3) show "slots_ok N st'" by (simp add: st'_def)
  from len assms(4) show "slots st' = (slots st)[j := Some n]" by (simp add: st'_def add_slot_effect del_slot_effect)
  show "aborted st' = aborted st" by (simp add: st'_def add_slot_aborted del_slot_aborted [OF assms(2,4)])
qed

lemma update_slots_effect:
  assumes "8 dvd N" and "slots_ok N st" and "s < next_ref st" and "set js \<subseteq> {..<N}" and "distinct js"
    and "fold (update_slot E s ep claimed cm) js (d, nm, st) = (d', nm', st')"
  shows "slots_ok N st' \<and> aborted st' = aborted st \<and>
    (\<forall>i < N. slots st' ! i = (if i \<in> set js \<and> rebinds s ep claimed st i then Some s else slots st ! i))"
  using assms(2-6)
proof (induction js arbitrary: d nm st)
  case (Cons j js)
  obtain d1 nm1 st1 where 1: "update_slot E s ep claimed cm j (d, nm, st) = (d1, nm1, st1)" by (rule prod_cases3)
  have len: "length (slots st) = N" using Cons.prems(1) by (simp add: slots_ok_def)
  from Cons.prems(3) have j: "j < N" by simp
  note mv = move_slot [OF assms(1) Cons.prems(1,2) j, of E]
  have st1: "st1 = (if rebinds s ep claimed st j then clusterDoBeforeSleep {TODO_SAVE_CONFIG, TODO_UPDATE_STATE, TODO_FSYNC_CONFIG}
      (snd (clusterAddSlot E s j (snd (clusterDelSlot j st)))) else st)"
    using 1 by (auto simp: update_slot_def rebinds_def Let_def split: if_splits option.splits)
  have c: "core (clusterDoBeforeSleep F x) = core x" for F x by simp
  have f: "slots_ok N st1" "aborted st1 = aborted st" "next_ref st1 = next_ref st"
    "slots st1 = (if rebinds s ep claimed st j then (slots st)[j := Some s] else slots st)"
    "importing_slots_from st1 = importing_slots_from st" "n_configEpoch (nd st1 r) = n_configEpoch (nd st r)" for r
    using mv Cons.prems(1) by (auto simp: st1 slots_core [OF c])
  have r: "rebinds s ep claimed st1 i = rebinds s ep claimed st i" if "i \<noteq> j" for i
  proof -
    have "slots st1 ! i = slots st ! i" using that by (simp add: f(4))
    then show ?thesis by (simp add: rebinds_def f(5,6) split: option.split)
  qed
  from Cons.prems(5) 1 have "fold (update_slot E s ep claimed cm) js (d1, nm1, st1) = (d', nm', st')" by simp
  from Cons.IH [OF f(1) _ _ _ this] Cons.prems(2-4) f(3)
  have IH: "slots_ok N st'" "aborted st' = aborted st1"
    "\<And>i. i < N \<Longrightarrow> slots st' ! i = (if i \<in> set js \<and> rebinds s ep claimed st1 i then Some s else slots st1 ! i)"
    by auto
  have "slots st' ! i = (if i \<in> set (j # js) \<and> rebinds s ep claimed st i then Some s else slots st ! i)" if "i < N" for i
    using IH(3) [OF that] r [of i] Cons.prems(4) that len
    by (cases "i = j") (auto simp: f(4))
  with IH(1,2) f(2) show ?case by simp
qed simp

lemma core_slots: "core st' = core st \<Longrightarrow> slots st' = slots st"
  by (simp add: core_def)

text \<open>
  C3. When another node claims slots with its configuration epoch, exactly these slots move to it:
  the claimed ones that it does not own yet, that this node is not importing, and that are
  unassigned or owned by a node of an older configuration epoch. No other slot changes its owner,
  and the table stays consistent with the bitmaps.
\<close>

theorem claimed_slots_rebind:
  fixes claimed :: bitmap and ep :: epoch
  assumes "reachable N M st" and "env_ok N M E" and "sender < next_ref st" and "sender \<noteq> myself st"
  defines "st' \<equiv> clusterUpdateSlotsConfigWith E sender ep claimed st"
  shows "slots_ok N st' \<and> (\<forall>j < N. slots st' ! j = (if rebinds sender ep claimed st j then Some sender else slots st ! j))"
proof -
  have N: "CLUSTER_SLOTS E = N" "8 dvd N" using assms(2) by (auto simp: env_ok_def cluster_h_ok_def)
  define cm where "cm = (if nodeIsMaster E st (myself st) then Some (myself st) else n_slaveof (nd st (myself st)))"
  obtain d nm st1 where f: "fold (update_slot E sender ep claimed cm) [0..<N] ([], False, st) = (d, nm, st1)"
    by (rule prod_cases3)
  from update_slots_effect [OF N(2) reachable_slots [OF assms(1)] assms(3) _ _ f]
  have 1: "slots_ok N st1" "\<forall>j < N. slots st1 ! j = (if rebinds sender ep claimed st j then Some sender else slots st ! j)"
    by (auto simp: atLeast0LessThan)
  have "core (fold (\<lambda>j. emit (DelKeysInSlot j)) d x) = core x" for x by (rule core_fold) simp
  with assms(4) f have "core st' = core st1"
    unfolding st'_def clusterUpdateSlotsConfigWith_def N cm_def by (auto simp: Let_def)
  from slots_core [OF this] core_slots [OF this] 1 show ?thesis by simp
qed

theorem claimed_slots_rebind_witness:
  "slots (clusterUpdateSlotsConfigWith ex_env 1 5 [6] ex_meet) ! 1 = Some 1
   \<and> slots (clusterUpdateSlotsConfigWith ex_env 1 5 [6] ex_meet) ! 6 = Some 0"
proof -
  have r: "rebinds 1 5 [6] ex_meet 1" "\<not> rebinds 1 5 [6] ex_meet 6"
    by (simp_all add: rebinds_def ex_meet_facts bitmapTestBit_def)
  from claimed_slots_rebind [OF ex_meet_reachable ex_env_ok, of 1 5 "[6]"] r show ?thesis
    by (simp add: ex_meet_facts)
qed

end
