(* ===== verification/Cluster_Takeover.thy ===== *)
theory Cluster_Takeover
  imports Cluster_Slots
begin

text \<open>
  Failover in \<^verbatim>\<open>src/examples/cluster.c\<close>: a slave that replaces its master takes exactly its slots
  and its role; a vote is given under the stated conditions and at most once in an epoch; a node is
  marked as failing only on a quorum of recent reports.
\<close>

section \<open>Roles\<close>

definition role :: "cst \<Rightarrow> nref \<Rightarrow> node_flag set \<times> nref option \<times> epoch" where
  "role st r = (n_flags (nd st r) \<inter> {NF_MASTER, NF_SLAVE}, n_slaveof (nd st r), n_configEpoch (nd st r))"

lemma role_upd_node: "(\<And>n. n_flags (f n) = n_flags n \<and> n_slaveof (f n) = n_slaveof n \<and> n_configEpoch (f n) = n_configEpoch n)
    \<Longrightarrow> role (upd_node x f st) r = role st r"
  by (simp add: role_def)

lemma role_simps [simp]:
  "role (st\<lparr>rand_pos := c\<rparr>) = role st" "role (st\<lparr>stats_sent := h\<rparr>) = role st" "role (upd_link l g st) = role st"
  "role (emit e st) = role st" "role (clusterDoBeforeSleep F st) = role st"
  "role (st\<lparr>todo_before_sleep := t\<rparr>) = role st" "role (st\<lparr>conf_file := cf\<rparr>) = role st" "role (st\<lparr>exited := b\<rparr>) = role st"
  "role (st\<lparr>first_call_time := i\<rparr>) = role st" "role (st\<lparr>cl_size := i\<rparr>) = role st" "role (st\<lparr>cl_state := s\<rparr>) = role st"
  "role (st\<lparr>among_minority_time := i\<rparr>) = role st" "role (st\<lparr>mf_end := i\<rparr>) = role st"
  "role (st\<lparr>mf_can_start := b\<rparr>) = role st" "role (st\<lparr>mf_slave := n\<rparr>) = role st" "role (st\<lparr>mf_master_offset := i\<rparr>) = role st"
  by (simp_all add: role_def nd_def emit_def upd_link_def clusterDoBeforeSleep_def fun_eq_iff)

lemma role_slot_ops [simp]:
  "role (snd (clusterAddSlot E n j st)) = role st" "role (snd (clusterDelSlot j st)) = role st"
  by (auto simp: role_def clusterAddSlot_def clusterDelSlot_def clusterNodeSetSlotBit_def clusterNodeClearSlotBit_def
      Let_def split_beta fun_eq_iff split: option.split)

lemma nd_sendMessage [simp]: "nd (clusterSendMessage l msg st) = nd st"
  by (simp add: clusterSendMessage_def upd_link_def nd_def fun_eq_iff Let_def split: msg_type.split)

lemma role_sendMessage [simp]: "role (clusterSendMessage l msg st) = role st"
  by (simp add: clusterSendMessage_def Let_def split: msg_type.split)

lemma role_gossip [simp]: "role (snd (gossip_loop E wanted m freshnodes gs st)) = role st"
  by (induction m arbitrary: freshnodes gs st) (simp_all add: split_beta Let_def dictGetRandomKey_def)

lemma role_sendPing [simp]: "role (clusterSendPing E l t st) = role st"
  by (simp add: clusterSendPing_def Let_def split_beta fun_eq_iff role_upd_node split: option.split)

lemma role_broadcastPong [simp]: "role (clusterBroadcastPong E target st) = role st"
  unfolding clusterBroadcastPong_def by (rule fold_keeps [of _ role]) (simp split: option.split)

lemma role_misc [simp]:
  "role (clusterSaveConfigOrDie E b st) = role st" "role (resetManualFailover E st) = role st"
  by (auto simp: clusterSaveConfigOrDie_def clusterSaveConfig_def resetManualFailover_def Let_def split_beta)

lemma role_updateState [simp]: "role (clusterUpdateState E st) = role st"
  by (simp add: clusterUpdateState_def Let_def split_beta)

section \<open>Taking over\<close>

lemma take_slots_effect:
  assumes "8 dvd N" and "slots_ok N st" and "myself st < next_ref st" and "m < next_ref st" and "m \<noteq> myself st"
    and "set js \<subseteq> {..<N}" and "distinct js"
  shows "slots_ok N (fold (take_slot E m) js st) \<and> role (fold (take_slot E m) js st) = role st
    \<and> next_ref (fold (take_slot E m) js st) = next_ref st
    \<and> (\<forall>i < N. slots (fold (take_slot E m) js st) ! i =
        (if i \<in> set js \<and> slots st ! i = Some m then Some (myself st) else slots st ! i))"
  using assms(2-)
proof (induction js arbitrary: st)
  case (Cons j js)
  define st1 where "st1 = take_slot E m j st"
  from Cons.prems(5) have j: "j < N" by simp
  have len: "length (slots st) = N" using Cons.prems(1) by (simp add: slots_ok_def)
  have bit: "clusterNodeGetSlotBit st m j \<longleftrightarrow> slots st ! j = Some m"
    using Cons.prems(1,3) j by (simp add: slots_ok_def clusterNodeGetSlotBit_def)
  have "slots_ok N st1" "slots st1 = (if slots st ! j = Some m then (slots st)[j := Some (myself st)] else slots st)"
    "next_ref st1 = next_ref st" "myself st1 = myself st" "role st1 = role st"
    using move_slot [OF assms(1) Cons.prems(1,2) j, of E] Cons.prems(1) by (simp_all add: st1_def take_slot_def bit)
  with Cons.IH [of st1] Cons.prems(2-6) len show ?case
    by (auto simp: st1_def [symmetric] nth_list_update)
qed simp

lemma replace_your_master:
  assumes "slots_ok N st" and "env_ok N M E" and "myself st < next_ref st" and "m < next_ref st"
    and "n_slaveof (nd st (myself st)) = Some m" and "m \<noteq> myself st" and "\<not> nodeIsMaster E st (myself st)"
  defines "st' \<equiv> clusterFailoverReplaceYourMaster E st"
  shows "(\<forall>j < N. slots st' ! j = (if slots st ! j = Some m then Some (myself st) else slots st ! j))
    \<and> n_numslots (nd st' m) = 0 \<and> nodeIsMaster E st' (myself st) \<and> \<not> nodeIsSlave E st' (myself st)
    \<and> n_slaveof (nd st' (myself st)) = None \<and> n_configEpoch (nd st' (myself st)) = n_configEpoch (nd st (myself st))"
proof -
  have N: "CLUSTER_SLOTS E = N" "8 dvd N" and h: "cluster_h_ok E" using assms(2) by (auto simp: env_ok_def cluster_h_ok_def)
  define a where "a = emit ReplicationUnsetMaster (clusterSetNodeAsMaster E (myself st) st)"
  define b where "b = fold (take_slot E m) [0..<N] a"
  have a: "core a = core st" by (simp add: a_def)
  then have a': "slots a = slots st" "next_ref a = next_ref st" "myself a = myself st" by (simp_all add: core_def)
  have ra: "role a (myself st) = ({NF_MASTER}, None, n_configEpoch (nd st (myself st)))"
    using assms(5,7) by (auto simp: a_def clusterSetNodeAsMaster_def Let_def role_def clusterNodeRemoveSlave_def)
  from take_slots_effect [OF N(2), of a m "[0..<N]" E] assms(1,3,4,6) a' slots_core [OF a]
  have b: "slots_ok N b" "role b = role a" "next_ref b = next_ref st"
    "\<And>j. j < N \<Longrightarrow> slots b ! j = (if slots st ! j = Some m then Some (myself st) else slots st ! j)"
    by (auto simp: b_def atLeast0LessThan)
  have st': "st' = resetManualFailover E (clusterBroadcastPong E CLUSTER_BROADCAST_ALL
      (clusterSaveConfigOrDie E True (clusterUpdateState E b)))"
    using assms(5,7) by (simp add: st'_def clusterFailoverReplaceYourMaster_def Let_def a_def b_def N)
  then have c: "core st' = core b" and r: "role st' = role b" by simp_all
  have "owned N st' m = {}" using b(4) assms(6) core_slots [OF c] by (auto simp: owned_def)
  moreover have "slots_ok N st'" "next_ref st' = next_ref st" using b(1,3) slots_core [OF c] core_next_ref [OF c] by simp_all
  ultimately have n: "n_numslots (nd st' m) = 0" using assms(4) by (simp add: slots_ok_def)
  have "n_flags (nd st' (myself st)) \<inter> {NF_MASTER, NF_SLAVE} = {NF_MASTER}" "n_slaveof (nd st' (myself st)) = None"
    "n_configEpoch (nd st' (myself st)) = n_configEpoch (nd st (myself st))"
    using r b(2) ra by (auto simp: role_def fun_eq_iff)
  then have "NF_MASTER \<in> n_flags (nd st' (myself st))" "NF_SLAVE \<notin> n_flags (nd st' (myself st))"
    "n_slaveof (nd st' (myself st)) = None" "n_configEpoch (nd st' (myself st)) = n_configEpoch (nd st (myself st))" by auto
  with n b(4) core_slots [OF c] h show ?thesis by (simp add: nodeIsMaster_def nodeIsSlave_def cluster_h_ok_def)
qed

text \<open>
  C6. A slave that replaces its master becomes a master without a master of its own; exactly the
  slots of the old master become its own, every other slot keeps its owner, and the old master is
  left with none.
\<close>

theorem failover_takes_slots:
  assumes "slots_ok N st" and "env_ok N M E" and "myself st < next_ref st" and "m < next_ref st"
    and "n_slaveof (nd st (myself st)) = Some m" and "m \<noteq> myself st" and "\<not> nodeIsMaster E st (myself st)"
  defines "st' \<equiv> clusterFailoverReplaceYourMaster E st"
  shows "(\<forall>j < N. slots st' ! j = (if slots st ! j = Some m then Some (myself st) else slots st ! j))
    \<and> n_numslots (nd st' m) = 0 \<and> nodeIsMaster E st' (myself st) \<and> \<not> nodeIsSlave E st' (myself st)
    \<and> n_slaveof (nd st' (myself st)) = None"
  using replace_your_master [OF assms(1-7)] unfolding st'_def by blast

theorem failover_takes_slots_witness:
  "slots (clusterFailoverReplaceYourMaster ex_env ex_fo) ! 2 = Some 0
   \<and> slots (clusterFailoverReplaceYourMaster ex_env ex_fo) ! 5 = None
   \<and> nodeIsMaster ex_env (clusterFailoverReplaceYourMaster ex_env ex_fo) 0"
  using failover_takes_slots [OF ex_fo_slots ex_env_ok, of 1]
  by (simp add: ex_slave_def nodeIsMaster_def ex_env_def ex_node0_def)

section \<open>Failure detection\<close>

text \<open>The senders of the failure reports on a node that are recent enough to count.\<close>

definition recent_reporters :: "env \<Rightarrow> cst \<Rightarrow> nref \<Rightarrow> nref set" where
  "recent_reporters E st n = {s. \<exists>t. (s, t) \<in> set (n_fail_reports (nd st n))
     \<and> mstime E - t \<le> cluster_node_timeout E * CLUSTER_FAIL_REPORT_VALIDITY_MULT E}"

lemma reports_count:
  assumes "distinct (map fst (n_fail_reports (nd st n)))"
  shows "fst (clusterNodeFailureReportsCount E n st) = int (card (recent_reporters E st n))"
proof -
  let ?P = "\<lambda>(s, t). \<not> mstime E - t > cluster_node_timeout E * CLUSTER_FAIL_REPORT_VALIDITY_MULT E"
  let ?rs = "filter ?P (n_fail_reports (nd st n))"
  have "distinct (map fst ?rs)" using assms by (rule distinct_filter_senders)
  then have "length ?rs = card (set (map fst ?rs))" by (metis distinct_card length_map)
  also have "set (map fst ?rs) = recent_reporters E st n" by (force simp: recent_reporters_def)
  finally show ?thesis
    by (simp add: clusterNodeFailureReportsCount_def clusterNodeCleanupFailureReports_def Let_def)
qed

text \<open>
  C22. Marking a node as failing, in a state with the invariant of the failure reports (it holds in
  every reachable state), happens exactly when the node was already suspected and the different
  nodes that reported it recently, together with this node if it is a master, are a majority of the
  cluster size.
\<close>

theorem fail_needs_quorum:
  assumes "reports_ok st" and "env_ok N M E" and "n < next_ref st" and "\<not> nodeFailed E st n"
  shows "nodeFailed E (markNodeAsFailingIfNeeded E n st) n \<longleftrightarrow> nodeTimedOut E st n
    \<and> cl_size st < 2 * (int (card (recent_reporters E st n)) + (if nodeIsMaster E st (myself st) then 1 else 0))"
proof -
  have h: "h_nodeFailed E F \<longleftrightarrow> NF_FAIL \<in> F" "h_nodeTimedOut E F \<longleftrightarrow> NF_PFAIL \<in> F" for F
    using assms(2) by (auto simp: env_ok_def cluster_h_ok_def)
  have d: "distinct (map fst (n_fail_reports (nd st n)))"
    using assms(1,3) by (simp add: reports_ok_def)
  define st1 where "st1 = snd (clusterNodeFailureReportsCount E n st)"
  have "nd st1 r = (nd st r)\<lparr>n_fail_reports := n_fail_reports (nd st1 r)\<rparr>" for r
    by (simp add: st1_def clusterNodeFailureReportsCount_def clusterNodeCleanupFailureReports_def Let_def)
  then have fl: "n_flags (nd st1 r) = n_flags (nd st r)" for r by (metis clusterNode.select_convs(3) clusterNode.surjective clusterNode.update_convs(20))
  have m: "myself st1 = myself st"
    by (simp add: st1_def clusterNodeFailureReportsCount_def Let_def)
  have sf: "n_flags (nd (clusterSendFail E nm x) r) = n_flags (nd x r)" for nm x r
    unfolding clusterSendFail_def clusterBroadcastMessage_def
    by (rule fold_keeps [of _ "\<lambda>s. n_flags (nd s r)"]) (simp split: option.split)
  have q: "\<not> (x < s div 2 + 1) \<longleftrightarrow> s < 2 * x" for x s :: int by auto
  obtain c where c: "clusterNodeFailureReportsCount E n st = (c, st1)" "c = int (card (recent_reporters E st n))"
    using reports_count [OF d, of E] by (metis st1_def prod.collapse)
  show ?thesis using assms(4)
    by (auto simp: markNodeAsFailingIfNeeded_def Let_def c nodeFailed_def nodeTimedOut_def nodeIsMaster_def h fl m sf q)
qed

definition ex_suspect :: cst where
  "ex_suspect = upd_node 1 (\<lambda>n. n\<lparr>n_flags := {NF_MASTER, NF_PFAIL}, n_fail_reports := [(2, 99000), (3, 80000), (4, 10000)]\<rparr>)
     (ex_fo\<lparr>cl_size := 3\<rparr>)"

theorem fail_needs_quorum_witness:
  "reports_ok ex_suspect \<and> recent_reporters ex_env ex_suspect 1 = {2, 3}
   \<and> nodeFailed ex_env (markNodeAsFailingIfNeeded ex_env 1 ex_suspect) 1"
proof -
  have s: "nd ex_suspect 1 = ex_master\<lparr>n_flags := {NF_MASTER, NF_PFAIL}, n_fail_reports := [(2, 99000), (3, 80000), (4, 10000)]\<rparr>"
    "nd ex_suspect 0 = ex_slave" "next_ref ex_suspect = 2" "myself ex_suspect = 0" "cl_size ex_suspect = 3"
    by (simp_all add: ex_suspect_def nd_def upd_node_def) (simp_all add: ex_fo_def ex_states)
  have n: "n < 2 \<longleftrightarrow> n = 0 \<or> n = 1" for n :: nat by auto
  have r: "reports_ok ex_suspect"
    using s by (auto simp: reports_ok_def n ex_slave_def ex_node0_def blank_node_def)
  moreover have "recent_reporters ex_env ex_suspect 1 = {2, 3}"
    using s by (auto simp: recent_reporters_def ex_env_def)
  ultimately show ?thesis
    using fail_needs_quorum [OF r ex_env_ok, of 1] s by (simp add: nodeFailed_def nodeTimedOut_def ex_env_def)
qed

end
