(* ===== verification/Cluster_Epochs.thy ===== *)
theory Cluster_Epochs
  imports Cluster_Takeover
begin

text \<open>
  The epochs of a cluster node: which operations change \<open>currentEpoch\<close> and \<open>lastVoteEpoch\<close>, that
  an event raises the current epoch by more than one step only to a value it received, and that a
  node gives at most one vote in an epoch.
\<close>

section \<open>Operations that keep the epochs\<close>

text \<open>The epochs of a node with the number of the votes it has sent.\<close>

definition votes_sent :: "cst \<Rightarrow> nat" where
  "votes_sent st = count_list (stats_sent st) FAILOVER_AUTH_ACK"

definition ep :: "cst \<Rightarrow> epoch \<times> epoch \<times> nat" where
  "ep st = (currentEpoch st, lastVoteEpoch st, votes_sent st)"

lemma ep_fields [simp]:
  "ep (st\<lparr>nodes_mem := m\<rparr>) = ep st" "ep (st\<lparr>next_ref := r\<rparr>) = ep st" "ep (st\<lparr>live := rs\<rparr>) = ep st"
  "ep (st\<lparr>links_mem := lm\<rparr>) = ep st" "ep (st\<lparr>next_lref := l\<rparr>) = ep st" "ep (st\<lparr>live_links := ls\<rparr>) = ep st"
  "ep (st\<lparr>aborted := b\<rparr>) = ep st" "ep (st\<lparr>nodes := d\<rparr>) = ep st" "ep (st\<lparr>myself := r\<rparr>) = ep st"
  "ep (st\<lparr>cl_state := s\<rparr>) = ep st" "ep (st\<lparr>cl_size := i\<rparr>) = ep st" "ep (st\<lparr>nodes_black_list := bl\<rparr>) = ep st"
  "ep (st\<lparr>slots := os\<rparr>) = ep st" "ep (st\<lparr>migrating_slots_to := os\<rparr>) = ep st"
  "ep (st\<lparr>importing_slots_from := os\<rparr>) = ep st" "ep (st\<lparr>failover_auth_time := i\<rparr>) = ep st"
  "ep (st\<lparr>failover_auth_count := i\<rparr>) = ep st" "ep (st\<lparr>failover_auth_sent := b\<rparr>) = ep st"
  "ep (st\<lparr>failover_auth_rank := i\<rparr>) = ep st" "ep (st\<lparr>failover_auth_epoch := e\<rparr>) = ep st"
  "ep (st\<lparr>cant_failover_reason := cr\<rparr>) = ep st" "ep (st\<lparr>mf_end := i\<rparr>) = ep st" "ep (st\<lparr>mf_slave := on\<rparr>) = ep st"
  "ep (st\<lparr>mf_master_offset := i\<rparr>) = ep st" "ep (st\<lparr>mf_can_start := b\<rparr>) = ep st"
  "ep (st\<lparr>todo_before_sleep := t\<rparr>) = ep st" "ep (st\<lparr>stats_received := h\<rparr>) = ep st"
  "ep (st\<lparr>stats_pfail_nodes := i\<rparr>) = ep st"
  "ep (st\<lparr>among_minority_time := i\<rparr>) = ep st" "ep (st\<lparr>first_call_time := i\<rparr>) = ep st"
  "ep (st\<lparr>lastlog_time := i\<rparr>) = ep st" "ep (st\<lparr>cron_iteration := c\<rparr>) = ep st" "ep (st\<lparr>prev_ip := p\<rparr>) = ep st"
  "ep (st\<lparr>rand_pos := c\<rparr>) = ep st" "ep (st\<lparr>effects := es\<rparr>) = ep st" "ep (st\<lparr>conf_file := cf\<rparr>) = ep st"
  "ep (st\<lparr>exited := b\<rparr>) = ep st"
  by (simp_all add: ep_def votes_sent_def)

lemma ep_prims [simp]:
  "ep (upd_node r f st) = ep st" "ep (add_flags r F st) = ep st" "ep (del_flags r F st) = ep st"
  "ep (upd_link l g st) = ep st" "ep (abort st) = ep st" "ep (serverAssert b st) = ep st" "ep (emit e st) = ep st"
  "ep (clusterDoBeforeSleep T st) = ep st" "ep (set_my_epoch e' st) = ep st" "ep (clusterCloseAllSlots E st) = ep st"
  "ep (snd (dictGetRandomKey E st)) = ep st"
  by (simp_all add: upd_node_def add_flags_def del_flags_def upd_link_def abort_def serverAssert_def emit_def
      clusterDoBeforeSleep_def set_my_epoch_def clusterCloseAllSlots_def dictGetRandomKey_def)

lemma ewalk:
  "ep a = K \<Longrightarrow> (\<And>x :: cst. ep x = K \<Longrightarrow> ep (f x) = K) \<Longrightarrow> ep (Let a f) = K"
  "ep (snd g) = K \<Longrightarrow> (\<And>r x. ep x = K \<Longrightarrow> ep (h r x) = K) \<Longrightarrow> ep (Let g (\<lambda>(r, x). h r x)) = K"
  "ep (snd g) = K \<Longrightarrow> (\<And>r x. ep x = K \<Longrightarrow> ep (h r x) = K) \<Longrightarrow> ep (case g of (r, x) \<Rightarrow> h r x) = K"
  "(c \<Longrightarrow> ep a = K) \<Longrightarrow> (\<not> c \<Longrightarrow> ep b = K) \<Longrightarrow> ep (if c then a else b) = K"
  "(x = None \<Longrightarrow> ep a = K) \<Longrightarrow> (\<And>y. x = Some y \<Longrightarrow> ep (k y) = K) \<Longrightarrow> ep (case x of None \<Rightarrow> a | Some y \<Rightarrow> k y) = K"
  by (simp_all add: split_beta split: option.split)

lemma ewalk_snd:
  "ep a = K \<Longrightarrow> (\<And>x :: cst. ep x = K \<Longrightarrow> ep (snd (f x)) = K) \<Longrightarrow> ep (snd (Let a f)) = K"
  "ep (snd g) = K \<Longrightarrow> (\<And>r x. ep x = K \<Longrightarrow> ep (snd (h r x)) = K) \<Longrightarrow> ep (snd (Let g (\<lambda>(r, x). h r x))) = K"
  "ep (snd g) = K \<Longrightarrow> (\<And>r x. ep x = K \<Longrightarrow> ep (snd (h r x)) = K) \<Longrightarrow> ep (snd (case g of (r, x) \<Rightarrow> h r x)) = K"
  "(c \<Longrightarrow> ep (snd p) = K) \<Longrightarrow> (\<not> c \<Longrightarrow> ep (snd q) = K) \<Longrightarrow> ep (snd (if c then p else q)) = K"
  "(x = None \<Longrightarrow> ep (snd p) = K) \<Longrightarrow> (\<And>y. x = Some y \<Longrightarrow> ep (snd (k y)) = K)
    \<Longrightarrow> ep (snd (case x of None \<Rightarrow> p | Some y \<Rightarrow> k y)) = K"
  by (simp_all add: split_beta split: option.split)

lemmas ewalks = ewalk ewalk_snd

lemma ep_fold: "(\<And>x st. x \<in> set xs \<Longrightarrow> ep (f x st) = ep st) \<Longrightarrow> ep (fold f xs st) = ep st"
  by (rule fold_keeps)

lemma ep_fold_keeps:
  assumes "ep st = K" and "\<And>x st. x \<in> set xs \<Longrightarrow> ep (f x st) = ep st"
  shows "ep (fold f xs st) = K"
  using ep_fold [of xs f st] assms by simp

lemma ep_nodes [simp]:
  "ep (freeClusterLink l st) = ep st" "ep (snd (createClusterLink E on st)) = ep st"
  "ep (snd (createClusterNode E onm F st)) = ep st" "ep (snd (clusterAddNode n st)) = ep st"
  "ep (snd (clusterNodeAddFailureReport E n s st)) = ep st" "ep (clusterNodeCleanupFailureReports E n st) = ep st"
  "ep (snd (clusterNodeRemoveSlave m n st)) = ep st" "ep (snd (clusterNodeAddSlave m n st)) = ep st"
  unfolding freeClusterLink_def createClusterLink_def createClusterNode_def clusterAddNode_def
    clusterNodeAddFailureReport_def clusterNodeCleanupFailureReports_def clusterNodeRemoveSlave_def clusterNodeAddSlave_def
  by (auto simp: let_value split_beta Let_def intro!: ewalks)

lemma ep_more [simp]:
  "ep (snd (clusterNodeDelFailureReport E n s st)) = ep st" "ep (snd (clusterNodeFailureReportsCount E n st)) = ep st"
  "ep (clusterRenameNode E n nm st) = ep st" "ep (freeClusterNode E n st) = ep st"
  unfolding clusterNodeDelFailureReport_def clusterNodeFailureReportsCount_def clusterRenameNode_def freeClusterNode_def
  by (auto intro!: ewalks ep_fold)

lemma ep_slots [simp]:
  "ep (snd (clusterAddSlot E n j st)) = ep st" "ep (snd (clusterDelSlot j st)) = ep st"
  unfolding clusterAddSlot_def clusterDelSlot_def clusterNodeSetSlotBit_def clusterNodeClearSlotBit_def
  by (auto simp: let_value intro!: ewalks)

lemma ep_delNode [simp]:
  "ep (snd (clusterDelNodeSlots E n st)) = ep st" "ep (forget_slot n j st) = ep st"
  unfolding clusterDelNodeSlots_fold forget_slot_def by (auto intro!: ewalks ep_fold)

lemma ep_delNode' [simp]: "ep (clusterDelNode E n st) = ep st"
  unfolding clusterDelNode_def by (auto intro!: ewalks ep_fold_keeps)

lemma ep_sendMessage [simp]: "m_type msg \<noteq> FAILOVER_AUTH_ACK \<Longrightarrow> ep (clusterSendMessage l msg st) = ep st"
  by (auto simp: clusterSendMessage_def Let_def upd_link_def ep_def votes_sent_def split: msg_type.split)

lemma ep_broadcastMessage [simp]: "m_type msg \<noteq> FAILOVER_AUTH_ACK \<Longrightarrow> ep (clusterBroadcastMessage msg st) = ep st"
  unfolding clusterBroadcastMessage_def by (rule ep_fold) (auto intro!: ewalks)

lemma built_type [simp]: "m_type (clusterBuildMessageHdr E t st) = t"
  by (simp add: clusterBuildMessageHdr_def Let_def)

lemma ep_gossip_loop [simp]: "ep (snd (gossip_loop E wanted m freshnodes gs st)) = ep st"
  by (induction m arbitrary: freshnodes gs st) (simp_all add: split_beta Let_def)

lemma ep_sendPing [simp]: "t \<noteq> FAILOVER_AUTH_ACK \<Longrightarrow> ep (clusterSendPing E l t st) = ep st"
  unfolding clusterSendPing_def by (auto simp: let_value intro!: ewalks)

lemma ep_broadcastPong [simp]: "ep (clusterBroadcastPong E target st) = ep st"
  unfolding clusterBroadcastPong_def by (rule ep_fold) (auto intro!: ewalks)

lemma ep_sends [simp]:
  "ep (clusterSendFail E nm st) = ep st" "ep (clusterSendUpdate E ol n st) = ep st"
  "ep (clusterRequestFailoverAuth E st) = ep st"
  "ep (clusterSendMFStart E n st) = ep st"
  unfolding clusterSendFail_def clusterSendUpdate_def clusterRequestFailoverAuth_def
    clusterSendMFStart_def by (auto intro!: ewalks)

lemma ep_saveConfig [simp]: "ep (snd (clusterSaveConfig E b st)) = ep st"
  unfolding clusterSaveConfig_def by (auto simp: let_value intro!: ewalks)

lemma ep_saveConfigOrDie [simp]: "ep (clusterSaveConfigOrDie E b st) = ep st"
  unfolding clusterSaveConfigOrDie_def by (auto intro!: ewalks)

lemma ep_blacklist [simp]:
  "ep (clusterBlacklistAddNode E n st) = ep st" "ep (snd (clusterBlacklistExists E nm st)) = ep st"
  unfolding clusterBlacklistCleanup_def clusterBlacklistAddNode_def clusterBlacklistExists_def
  by (auto intro!: ewalks)

lemma ep_config [simp]:
  "ep (markNodeAsFailingIfNeeded E n st) = ep st" "ep (clearNodeFailureIfNeeded E n st) = ep st"
  "ep (gossip_address E g n st) = ep st" "ep (gossip_pong E g n st) = ep st"
  "ep (snd (nodeUpdateAddressIfNeeded E n l hdr st)) = ep st"
  "ep (clusterSetNodeAsMaster E n st) = ep st" "ep (resetManualFailover E st) = ep st"
  "ep (snd (clusterStartHandshake E ip p cp st)) = ep st"
  unfolding markNodeAsFailingIfNeeded_def clearNodeFailureIfNeeded_def gossip_address_def gossip_pong_def
    nodeUpdateAddressIfNeeded_def clusterSetNodeAsMaster_def resetManualFailover_def clusterStartHandshake_def
  by (auto simp: let_value intro!: ewalks)

lemma ep_gossip [simp]:
  "ep (gossip_reports E s g n st) = ep st" "ep (clusterProcessGossipSection E hdr l st) = ep st"
proof -
  show r: "ep (gossip_reports E s g n st) = ep st" for s g n st
    unfolding gossip_reports_def by (auto intro!: ewalks)
  then have "ep (clusterProcessGossipEntry E s g st) = ep st" for s g st
    unfolding clusterProcessGossipEntry_def by (auto intro!: ewalks)
  then show "ep (clusterProcessGossipSection E hdr l st) = ep st"
    unfolding clusterProcessGossipSection_def by (auto simp: let_value intro!: ep_fold)
qed

lemma ep_setMaster [simp]: "ep (clusterSetMaster E n st) = ep st"
  unfolding clusterSetMaster_def by (auto simp: let_value intro!: ewalks)

lemma ep_update_slots [simp]: "ep (snd (snd (fold (update_slot E s e claimed cm) js x))) = ep (snd (snd x))"
  by (rule fold_keeps [of _ "\<lambda>x. ep (snd (snd x))"]) (auto simp: update_slot_def Let_def)

lemma ep_updateSlotsConfigWith [simp]: "ep (clusterUpdateSlotsConfigWith E s e claimed st) = ep st"
proof -
  define cm where "cm = (if nodeIsMaster E st (myself st) then Some (myself st) else n_slaveof (nd st (myself st)))"
  obtain d nm st' where f: "fold (update_slot E s e claimed cm) [0..<CLUSTER_SLOTS E] ([], False, st) = (d, nm, st')"
    by (rule prod_cases3)
  with ep_update_slots [of E s e claimed cm "[0..<CLUSTER_SLOTS E]" "([], False, st)"] have "ep st' = ep st" by simp
  with f show ?thesis
    unfolding clusterUpdateSlotsConfigWith_def cm_def by (auto simp: Let_def ep_fold)
qed

lemma ep_updateState [simp]: "ep (clusterUpdateState E st) = ep st"
  unfolding clusterUpdateState_def by (auto simp: let_value intro!: ewalks)

lemma ep_replaceMaster [simp]: "ep (clusterFailoverReplaceYourMaster E st) = ep st"
  unfolding clusterFailoverReplaceYourMaster_def
  by (auto simp: take_slot_def intro!: ewalks ep_fold_keeps)

lemma ep_slaveRank [simp]: "ep (snd (clusterGetSlaveRank E st)) = ep st"
  unfolding clusterGetSlaveRank_def by (auto intro!: ewalks)

lemma ep_failover [simp]:
  "ep (clusterLogCantFailover E reason st) = ep st" "ep (schedule_election E st) = ep st"
  "ep (adjust_rank E st) = ep st" "ep (win_election E st) = ep st"
  unfolding clusterLogCantFailover_def schedule_election_def adjust_rank_def win_election_def
  by (auto intro!: ewalks)

lemma ep_manual [simp]:
  "ep (manualFailoverCheckTimeout E st) = ep st" "ep (clusterHandleManualFailover E st) = ep st"
  unfolding manualFailoverCheckTimeout_def clusterHandleManualFailover_def by auto

lemma ep_migration_steps: "ep (snd (snd (fold (migration_step E m) rs x))) = ep (snd (snd x))"
  by (rule fold_keeps [of _ "\<lambda>x. ep (snd (snd x))"]) (auto simp: migration_step_def Let_def)

lemma ep_slaveMigration [simp]: "ep (clusterHandleSlaveMigration E m st) = ep st"
proof -
  obtain t c st' where f: "fold (migration_step E m) (node_refs st) (None, myself st, st) = (t, c, st')"
    by (rule prod_cases3)
  with ep_migration_steps [of E m "node_refs st" "(None, myself st, st)"] have "ep st' = ep st" by simp
  with f show ?thesis
    unfolding clusterHandleSlaveMigration_def by (auto intro!: ewalks)
qed

lemma ep_packet_parts [simp]:
  "ep (count_received hdr st) = ep st" "ep (update_my_ip E hdr link st) = ep st" "ep (meet_unknown E hdr link st) = ep st"
  "ep (process_ping_meet E hdr link sender st) = ep st" "ep (process_pong E hdr link st) = ep st"
  "ep (snd (process_link_node E hdr link sender st)) = ep st" "ep (process_role E hdr s st) = ep st"
proof -
  show m: "ep (meet_unknown E hdr link st) = ep st" for st
    unfolding meet_unknown_def by (auto simp: let_value intro!: ewalks)
  show u: "ep (update_my_ip E hdr link st) = ep st" for st
    unfolding update_my_ip_def by (auto intro!: ewalks)
  show "ep (process_ping_meet E hdr link sender st) = ep st"
    unfolding process_ping_meet_def by (auto simp: m u intro!: ewalks)
  show "ep (process_pong E hdr link st) = ep st"
    unfolding process_pong_def by (auto intro!: ewalks)
  show "ep (snd (process_link_node E hdr link sender st)) = ep st"
    unfolding process_link_node_def by (auto intro!: ewalks)
  show "ep (process_role E hdr s st) = ep st"
    unfolding process_role_def by (auto simp: let_value intro!: ewalks)
  show "ep (count_received hdr st) = ep st"
    by (simp add: count_received_def split: msg_type.split)
qed

lemma ep_inform [simp]: "ep (inform_sender E hdr s e js st) = ep st"
  by (induction js) (auto split: option.split)

lemma ep_messages [simp]:
  "ep (process_fail E about st) = ep st" "ep (process_publish E cl ml bulk st) = ep st"
  "ep (process_auth_ack E e s st) = ep st" "ep (process_mfstart E s st) = ep st"
  "ep (process_update E e nm claimed st) = ep st"
  unfolding process_fail_def process_publish_def process_auth_ack_def process_mfstart_def process_update_def
  by (auto intro!: ewalks)

section \<open>Operations that raise the epoch by one\<close>

definition raised :: "epoch \<times> epoch \<times> nat \<Rightarrow> (epoch \<times> epoch \<times> nat) set" where
  "raised = (\<lambda>(c, v, n). {(c, v, n), (c + 1, v, n)})"

lemma raised_refl [simp]: "k \<in> raised k"
  by (cases k) (simp add: raised_def)

lemma raised_eq: "ep st = k \<Longrightarrow> ep st \<in> raised k"
  by simp

lemma raised_next: "ep (st\<lparr>currentEpoch := currentEpoch st + 1\<rparr>) \<in> raised (ep st)"
  by (simp add: raised_def ep_def votes_sent_def)

lemma raised_bump: "ep (snd (clusterBumpConfigEpochWithoutConsensus st)) \<in> raised (ep st)"
  using raised_next by (auto simp: clusterBumpConfigEpochWithoutConsensus_def Let_def)

lemma raised_collision: "ep (clusterHandleConfigEpochCollision E s st) \<in> raised (ep st)"
  using raised_next by (auto simp: clusterHandleConfigEpochCollision_def Let_def)

lemma raised_request_votes: "ep (request_votes E st) \<in> raised (ep st)"
  using raised_next [of st] by (simp add: request_votes_def Let_def)

lemma raised_slaveFailover: "ep (clusterHandleSlaveFailover E st) \<in> raised (ep st)"
proof -
  define s1 where "s1 = adjust_rank E (st\<lparr>todo_before_sleep := todo_before_sleep st - {TODO_HANDLE_FAILOVER}\<rparr>)"
  have "ep s1 = ep st" by (simp add: s1_def)
  with raised_request_votes [of E s1] show ?thesis
    by (auto simp: clusterHandleSlaveFailover_def Let_def s1_def)
qed

lemma raised_process_slots: "ep (process_slots E hdr s e st) \<in> raised (ep st)"
proof -
  define s1 where "s1 = (if nodeIsMaster E st s \<and> sender_dirty E hdr s st
    then clusterUpdateSlotsConfigWith E s e (m_myslots hdr) st else st)"
  define s2 where "s2 = (if sender_dirty E hdr s st then inform_sender E hdr s e [0..<CLUSTER_SLOTS E] s1 else s1)"
  have "ep s2 = ep st" by (simp add: s1_def s2_def)
  with raised_collision [of E s s2] show ?thesis
    unfolding process_slots_def Let_def s1_def [symmetric] s2_def [symmetric] by auto
qed

lemma raised_process_config: "ep (snd (process_config E hdr link sender e st)) \<in> raised (ep st)"
proof -
  obtain ret s0 where l: "process_link_node E hdr link sender st = (ret, s0)" by (cases "process_link_node E hdr link sender st")
  with ep_packet_parts(6) [of E hdr link sender st] have s0: "ep s0 = ep st" by simp
  show ?thesis
  proof (cases "ret = None \<and> sender \<noteq> None")
    case False
    have "ep (snd (process_config E hdr link sender e st)) = ep st"
      using False l s0 by (auto simp: process_config_def split: option.splits)
    then show ?thesis by simp
  next
    case True
    then obtain s where s: "ret = None" "sender = Some s" by blast
    define s1 where "s1 = (if m_type hdr = PING \<and> \<not> nodeInHandshake E s0 s then
        (let (changed, st) = nodeUpdateAddressIfNeeded E s link hdr s0
         in if changed then clusterDoBeforeSleep {TODO_SAVE_CONFIG, TODO_UPDATE_STATE} st else st) else s0)"
    define s2 where "s2 = process_role E hdr s (process_pong E hdr link s1)"
    have "ep s1 = ep s0" unfolding s1_def by (auto intro!: ewalks)
    then have s2: "ep s2 = ep st" by (simp add: s2_def s0)
    show ?thesis
      using raised_process_slots [of E hdr s e s2] unfolding s2
      by (auto simp: process_config_def s l [unfolded s] Let_def s1_def s2_def split: if_splits)
  qed
qed

section \<open>Packets\<close>

lemma ep_update_sender: "ep (update_sender E hdr s st) = (max (currentEpoch st) (m_currentEpoch hdr), lastVoteEpoch st, votes_sent st)"
proof -
  have "ep (update_sender E hdr s st) = ep (if m_currentEpoch hdr > currentEpoch st then st\<lparr>currentEpoch := m_currentEpoch hdr\<rparr> else st)"
    unfolding update_sender_def by (rule ewalk(1), rule refl) (auto intro!: ewalks)
  then show ?thesis by (auto simp: ep_def votes_sent_def max_def)
qed

text \<open>The node either leaves its epochs alone or votes: never twice in the same epoch.\<close>

definition voted :: "epoch \<times> epoch \<times> nat \<Rightarrow> (epoch \<times> epoch \<times> nat) set" where
  "voted = (\<lambda>(c, v, n). {(c, v, n)} \<union> (if v = c then {} else {(c, c, n), (c, c, Suc n)}))"

lemma votes_failoverAuth:
  "currentEpoch (clusterSendFailoverAuth E n st) = currentEpoch st"
  "votes_sent (clusterSendFailoverAuth E n st) \<in> {votes_sent st, Suc (votes_sent st)}"
  by (simp_all add: clusterSendFailoverAuth_def clusterSendMessage_def Let_def upd_link_def votes_sent_def split: option.split)

lemma voted_if_needed: "ep (clusterSendFailoverAuthIfNeeded E n hdr st) \<in> voted (ep st)"
proof (cases "ep (clusterSendFailoverAuthIfNeeded E n hdr st) = ep st")
  case True
  then show ?thesis by (simp add: voted_def split_beta)
next
  case False
  then obtain m where v: "lastVoteEpoch st \<noteq> currentEpoch st" and
    e: "clusterSendFailoverAuthIfNeeded E n hdr st = (let st = clusterSendFailoverAuth E n st;
          st = st\<lparr>lastVoteEpoch := currentEpoch st\<rparr> in upd_node m (\<lambda>n. n\<lparr>n_voted_time := mstime E\<rparr>) st)"
    unfolding clusterSendFailoverAuthIfNeeded_def by (auto split: if_splits option.splits)
  show ?thesis
    unfolding e using v votes_failoverAuth [of E n st] by (auto simp: voted_def ep_def votes_sent_def upd_node_def Let_def)
qed

lemma voted_message: "ep (process_message E hdr sender e st) \<in> voted (ep st)"
proof (cases "m_type hdr = FAILOVER_AUTH_REQUEST \<and> sender \<noteq> None")
  case True
  then obtain s where "m_type hdr = FAILOVER_AUTH_REQUEST" "sender = Some s" by blast
  then show ?thesis using voted_if_needed [of E s hdr st] by (simp add: process_message_def)
next
  case False
  then have "ep (process_message E hdr sender e st) = ep st"
    by (auto simp: process_message_def split: msg_type.split clusterMsgData.split option.split)
  then show ?thesis by (simp add: voted_def split_beta)
qed

lemma ep_packet:
  obtains c where "c = currentEpoch st \<or> c = max (currentEpoch st) (m_currentEpoch hdr)"
    "ep (snd (clusterProcessPacket E hdr rcvlen link st))
      \<in> raised (c, lastVoteEpoch st, votes_sent st) \<union> voted (c, lastVoteEpoch st, votes_sent st)"
proof -
  define s0 where "s0 = count_received hdr st"
  define sender where "sender = clusterLookupNode E s0 (m_sender hdr)"
  define known where "known = (case sender of Some s \<Rightarrow> \<not> nodeInHandshake E s0 s | None \<Rightarrow> False)"
  define s1 where "s1 = (case sender of Some s \<Rightarrow> if known then update_sender E hdr s s0 else s0 | None \<Rightarrow> s0)"
  define s2 where "s2 = (if m_type hdr = PING \<or> m_type hdr = MEET then process_ping_meet E hdr link sender s1 else s1)"
  have s0: "ep s0 = ep st" by (simp add: s0_def)
  have s2: "ep s2 = ep s1" by (simp add: s2_def)
  have "\<exists>c. (c = currentEpoch st \<or> c = max (currentEpoch st) (m_currentEpoch hdr)) \<and> ep s1 = (c, lastVoteEpoch st, votes_sent st)"
    using s0 ep_update_sender [of E hdr _ s0] by (auto simp: s1_def ep_def split: option.split)
  then obtain c where c: "c = currentEpoch st \<or> c = max (currentEpoch st) (m_currentEpoch hdr)"
    "ep s1 = (c, lastVoteEpoch st, votes_sent st)" by blast
  let ?R = "\<lambda>c. raised (c, lastVoteEpoch st, votes_sent st) \<union> voted (c, lastVoteEpoch st, votes_sent st)"
  show ?thesis
  proof (cases "packet_ok E hdr rcvlen")
    case False
    then have "ep (snd (clusterProcessPacket E hdr rcvlen link st)) = ep st"
      using s0 by (simp add: clusterProcessPacket_def s0_def)
    then show ?thesis using that [of "currentEpoch st"] by (simp add: ep_def)
  next
    case True
    have "ep (snd (clusterProcessPacket E hdr rcvlen link st)) \<in> ?R c"
      using raised_process_config [of E hdr link sender _ s2] voted_message [of E hdr sender _ s2] True
      unfolding clusterProcessPacket_def Let_def s0_def [symmetric] sender_def [symmetric] known_def [symmetric]
        s1_def [symmetric] s2_def [symmetric] s2 c(2) by auto
    then show ?thesis using that c(1) by blast
  qed
qed

section \<open>The cron job\<close>

lemma ep_connect [simp]: "ep (connect_node E n st) = ep st"
  unfolding connect_node_def by (auto simp: let_value intro!: ewalks)

lemma ep_cron_steps [simp]:
  "ep (sync_announce_ip E st) = ep st" "ep (reconnect_step E n st) = ep st" "ep (drop_stale_link E n st) = ep st"
  "ep (start_replication E st) = ep st"
  unfolding sync_announce_ip_def reconnect_step_def drop_stale_link_def start_replication_def
  by (auto intro!: ewalks)

lemma ep_pick_min_pong [simp]: "ep (snd (pick_min_pong E j best st)) = ep st"
  by (induction j arbitrary: best st) (simp_all add: split_beta Let_def)

lemma ep_ping_random [simp]: "ep (ping_random E st) = ep st"
  unfolding ping_random_def by (auto intro!: ewalks)

lemma ep_failure_steps: "ep (snd (fold (failure_step E) rs (acc, st))) = ep st"
proof -
  have "ep (snd (failure_step E n (a, s))) = ep s" for n a s
    by (auto simp: failure_step_def flag_timeout_def Let_def split: option.split)
  then show ?thesis
    using fold_keeps [of rs "\<lambda>x. ep (snd x)" "failure_step E" "(acc, st)"] by (auto simp: split_beta)
qed

lemma ep_reconnects [simp]: "ep (fold (reconnect_step E) rs st) = ep st"
  by (rule ep_fold) simp

lemma raised_cron: "ep (clusterCron E st) \<in> raised (ep st)"
proof -
  define s1 where "s1 = (let st = st\<lparr>cron_iteration := cron_iteration st + 1\<rparr>; st = sync_announce_ip E st;
    st = st\<lparr>stats_pfail_nodes := 0\<rparr>; st = fold (reconnect_step E) (node_refs st) st
    in if cron_iteration st mod 10 = 0 then ping_random E st else st)"
  obtain acc s2 where f: "fold (failure_step E) (node_refs s1)
    (\<lparr>orphaned_masters = 0, max_slaves = 0, this_slaves = 0, update_state = False\<rparr>, s1) = (acc, s2)" by fastforce
  define s3 where "s3 = manualFailoverCheckTimeout E (start_replication E s2)"
  have "ep s1 = ep st" unfolding s1_def by (auto intro!: ewalks)
  moreover have "ep s2 = ep s1" using ep_failure_steps [of E "node_refs s1" _ s1] f by (metis snd_conv)
  ultimately have s3: "ep s3 = ep st" by (simp add: s3_def)
  have h: "ep (clusterHandleSlaveFailover E (clusterHandleManualFailover E s3)) \<in> raised (ep st)"
    using raised_slaveFailover [of E "clusterHandleManualFailover E s3"] s3 by simp
  show ?thesis
    using f h s3 unfolding clusterCron_def by (auto simp: Let_def s1_def s3_def)
qed

lemma raised_beforeSleep: "ep (clusterBeforeSleep E st) \<in> raised (ep st)"
  using raised_slaveFailover [of E st] by (auto simp: clusterBeforeSleep_def Let_def)

section \<open>Connections, start-up checks and commands\<close>

lemma ep_connections [simp]:
  "ep (clusterAcceptHandler E loading fds st) = ep st" "ep (handleLinkIOError l st) = ep st"
  unfolding clusterAcceptHandler_def handleLinkIOError_def by (auto intro!: ewalks ep_fold)

lemma ep_verify [simp]: "ep (snd (verifyClusterConfigWithData E st)) = ep st"
proof -
  have "ep (snd (verify_slot E j x)) = ep (snd x)" for j x by (cases x) (simp add: verify_slot_def)
  then have "ep (snd (fold (verify_slot E) js x)) = ep (snd x)" for js x
    using fold_keeps [of js "\<lambda>x. ep (snd x)" "verify_slot E" x] by simp
  then show ?thesis by (auto simp: verifyClusterConfigWithData_def split_beta Let_def)
qed

lemma ep_reset_soft [simp]: "ep (clusterReset E False st) = ep st"
  unfolding clusterReset_def by (auto simp: let_value intro!: ewalks ep_fold_keeps)

lemma ep_ok_reply [simp]: "ep (snd (ok_reply F st)) = ep st"
  by (simp add: ok_reply_def)

lemma ep_change_slot [simp]: "ep (change_slot E del j st) = ep st"
  unfolding change_slot_def by (auto intro!: ewalks)

lemma ep_commands [simp]:
  "ep (snd (cmd_meet E argv st)) = ep st" "ep (snd (cmd_flushslots E st)) = ep st"
  "ep (snd (cmd_changeslots E del argv st)) = ep st" "ep (snd (cmd_saveconfig E st)) = ep st"
  "ep (snd (cmd_forget E argv st)) = ep st" "ep (snd (cmd_replicate E argv st)) = ep st"
  "ep (snd (cmd_count_failure_reports E argv st)) = ep st"
proof -
  show "ep (snd (cmd_saveconfig E st)) = ep st"
    using ep_saveConfig [of E True st]
    by (cases "clusterSaveConfig E True st"; cases "fst (clusterSaveConfig E True st)") (auto simp: cmd_saveconfig_def)
  show "ep (snd (cmd_changeslots E del argv st)) = ep st"
    by (auto simp: cmd_changeslots_def split: sum.split intro!: ep_fold)
qed (auto simp: cmd_meet_def cmd_flushslots_def cmd_forget_def cmd_replicate_def cmd_count_failure_reports_def
  split: option.split intro!: ewalks)

lemma raised_setslot: "ep (snd (cmd_setslot E argv st)) \<in> raised (ep st)"
proof -
  have "ep (setslot_node E slot n st) \<in> raised (ep st)" for slot n
    using raised_bump [of st] raised_bump [of "st\<lparr>migrating_slots_to := (migrating_slots_to st)[slot := None]\<rparr>"]
    by (simp add: setslot_node_def Let_def)
  then show ?thesis
    by (auto simp: cmd_setslot_def Let_def split: sum.split option.split)
qed

lemma raised_commands:
  "ep (snd (cmd_bumpepoch st)) \<in> raised (ep st)" "ep (snd (cmd_failover E argv st)) \<in> raised (ep st)"
proof -
  show "ep (snd (cmd_bumpepoch st)) \<in> raised (ep st)"
    using raised_bump [of st] by (simp add: cmd_bumpepoch_def split_beta Let_def)
  have "ep (snd (start_failover E force takeover m st)) \<in> raised (ep st)" for force takeover m
    using raised_bump [of "(resetManualFailover E st)\<lparr>mf_end := mstime E + CLUSTER_MF_TIMEOUT E\<rparr>"]
    by (simp add: start_failover_def Let_def)
  then show "ep (snd (cmd_failover E argv st)) \<in> raised (ep st)"
    by (auto simp: cmd_failover_def Let_def split: option.split)
qed

lemma ep_set_config_epoch:
  "\<exists>c \<ge> currentEpoch st. ep (snd (cmd_set_config_epoch E argv st)) = (c, lastVoteEpoch st, votes_sent st)"
  by (auto simp: cmd_set_config_epoch_def ok_reply_def ep_def votes_sent_def clusterDoBeforeSleep_def set_my_epoch_def
      upd_node_def Let_def not_less split: option.split)

section \<open>Events\<close>

text \<open>An event that keeps the vote of the node: no hard reset, and no epoch at the end of its 64-bit range.\<close>

definition hard_reset :: "event \<Rightarrow> bool" where
  "hard_reset ev = (case ev of Command c argv \<Rightarrow> length argv = 3 \<and> strcasecmp_eq (argv ! 1) ''reset''
     \<and> strcasecmp_eq (argv ! 2) ''hard'' | _ \<Rightarrow> False)"

definition epoch_safe :: "event \<Rightarrow> cst \<Rightarrow> bool" where
  "epoch_safe ev st \<longleftrightarrow> \<not> hard_reset ev \<and> currentEpoch st \<noteq> - 1
     \<and> (case ev of Packet hdr rcvlen link \<Rightarrow> m_currentEpoch hdr \<noteq> - 1 | _ \<Rightarrow> True)"

text \<open>Epochs grow, and a change of the last vote is a vote in the current epoch, the first one there.\<close>

definition advances :: "epoch \<times> epoch \<times> nat \<Rightarrow> epoch \<times> epoch \<times> nat \<Rightarrow> bool" where
  "advances = (\<lambda>(c, v, n) (c', v', n'). c \<le> c' \<and> ((v', n') = (v, n) \<or> v \<noteq> c' \<and> v' = c' \<and> (n' = n \<or> n' = Suc n)))"

lemma epoch_inc: "c \<noteq> - 1 \<Longrightarrow> c \<le> c + (1 :: epoch)"
  using inc_less_eq_self_iff_eq [of c] by (simp add: less_imp_le not_le)

lemma advances_raised: "k' \<in> raised (c, v, n) \<Longrightarrow> c0 \<le> c \<Longrightarrow> c \<noteq> - 1 \<Longrightarrow> advances (c0, v, n) k'"
  using epoch_inc [of c] by (auto simp: raised_def advances_def)

lemma advances_voted: "k' \<in> voted (c, v, n) \<Longrightarrow> c0 \<le> c \<Longrightarrow> advances (c0, v, n) k'"
  by (auto simp: voted_def advances_def split: if_splits)

lemma advances_refl: "advances k k"
  by (simp add: advances_def split_beta)

lemma packet_advances:
  assumes "currentEpoch st \<noteq> - 1" and "m_currentEpoch hdr \<noteq> - 1"
  shows "advances (ep st) (ep (snd (clusterProcessPacket E hdr rcvlen link st)))"
proof -
  obtain c where c: "c = currentEpoch st \<or> c = max (currentEpoch st) (m_currentEpoch hdr)"
    and p: "ep (snd (clusterProcessPacket E hdr rcvlen link st))
      \<in> raised (c, lastVoteEpoch st, votes_sent st) \<union> voted (c, lastVoteEpoch st, votes_sent st)"
    by (rule ep_packet)
  have "currentEpoch st \<le> c" "c \<noteq> - 1" using c assms by (auto simp: max_def split: if_splits)
  with p advances_raised advances_voted show ?thesis unfolding ep_def [of st] by blast
qed

lemma raised_advances: "ep st' \<in> raised (ep st) \<Longrightarrow> currentEpoch st \<noteq> - 1 \<Longrightarrow> advances (ep st) (ep st')"
  unfolding ep_def [of st] by (rule advances_raised) auto

lemma if_snd_cases: "(b \<Longrightarrow> advances k (ep (snd p))) \<Longrightarrow> (\<not> b \<Longrightarrow> advances k (ep (snd q)))
    \<Longrightarrow> advances k (ep (snd (if b then p else q)))"
  by simp

lemma command_advances:
  assumes "currentEpoch st \<noteq> - 1" and "\<not> hard_reset (Command c argv)"
  shows "advances (ep st) (ep (snd (clusterCommand E c argv st)))"
proof -
  obtain c' where "currentEpoch st \<le> c'" "ep (snd (cmd_set_config_epoch E argv st)) = (c', lastVoteEpoch st, votes_sent st)"
    using ep_set_config_epoch by blast
  then have se: "advances (ep st) (ep (snd (cmd_set_config_epoch E argv st)))"
    by (simp add: ep_def [of st] advances_def)
  have rs: "strcasecmp_eq (argv ! 1) ''reset'' \<Longrightarrow> advances (ep st) (ep (snd (cmd_reset E c argv st)))"
    using assms(2) by (auto simp: cmd_reset_def hard_reset_def Let_def advances_refl)
  note rc = raised_advances [OF raised_setslot assms(1)] raised_advances [OF raised_commands(1) assms(1)]
    raised_advances [OF raised_commands(2) assms(1)]
  show ?thesis
    unfolding clusterCommand_def Let_def
    by (intro if_snd_cases) (simp_all only: se rs rc advances_refl ep_commands snd_conv)
qed

lemma event_advances: "epoch_safe ev st \<Longrightarrow> advances (ep st) (ep (run_event E ev st))"
  by (cases ev) (auto simp: epoch_safe_def advances_refl packet_advances command_advances
      intro: raised_advances raised_cron raised_beforeSleep)

section \<open>One vote per epoch\<close>

fun run :: "(env \<times> event) list \<Rightarrow> cst \<Rightarrow> cst" where
  "run [] st = st"
| "run ((E, ev) # evs) st = run evs (run_event E ev st)"

fun safe_run :: "(env \<times> event) list \<Rightarrow> cst \<Rightarrow> bool" where
  "safe_run [] st \<longleftrightarrow> True"
| "safe_run ((E, ev) # evs) st \<longleftrightarrow> epoch_safe ev st \<and> safe_run evs (run_event E ev st)"

text \<open>The epoch \<open>e\<close> is over or the node has voted in it.\<close>

definition spent :: "epoch \<Rightarrow> cst \<Rightarrow> bool" where
  "spent e st \<longleftrightarrow> e < currentEpoch st \<or> currentEpoch st = e \<and> lastVoteEpoch st = e"

lemma spent_event: "spent e st \<Longrightarrow> epoch_safe ev st \<Longrightarrow> spent e (run_event E ev st)"
  using event_advances [of ev st E] by (auto simp: spent_def advances_def ep_def)

lemma spent_run: "spent e st \<Longrightarrow> safe_run evs st \<Longrightarrow> spent e (run evs st)"
  by (induction evs arbitrary: st) (auto simp: spent_event)

lemma vote_spends: "epoch_safe ev st \<Longrightarrow> votes_sent st < votes_sent (run_event E ev st)
    \<Longrightarrow> spent (currentEpoch (run_event E ev st)) (run_event E ev st)"
  using event_advances [of ev st E] by (auto simp: spent_def advances_def ep_def)

lemma spent_blocks: "spent e st \<Longrightarrow> epoch_safe ev st \<Longrightarrow> votes_sent st < votes_sent (run_event E ev st)
    \<Longrightarrow> e < currentEpoch (run_event E ev st)"
  using event_advances [of ev st E] by (auto simp: spent_def advances_def ep_def)

text \<open>
  C4. A node gives at most one vote in an epoch: if it sends a vote (a FAILOVER_AUTH_ACK) while it
  handles one event, and after any run of events sends another vote, then the epoch of the second
  vote is greater than the epoch of the first one. The run must be without CLUSTER RESET HARD, which
  clears the epochs, and no epoch may be at the end of its 64-bit range.
\<close>

theorem one_vote_per_epoch:
  assumes "epoch_safe ev1 st" and "votes_sent st < votes_sent (run_event E1 ev1 st)"
    and "safe_run evs (run_event E1 ev1 st)" and "st2 = run evs (run_event E1 ev1 st)"
    and "epoch_safe ev2 st2" and "votes_sent st2 < votes_sent (run_event E2 ev2 st2)"
  shows "currentEpoch (run_event E1 ev1 st) < currentEpoch (run_event E2 ev2 st2)"
  using vote_spends [OF assms(1,2)] spent_run [OF _ assms(3)] spent_blocks [OF _ assms(5,6)] assms(4) by blast

text \<open>
  Node 0 is this node, a master with the slot 0; node 1 is a failed master with the slots 1 and 2 and
  node 2 its slave, which asks for a vote in epoch 5 and, 100 seconds later, in epoch 6.
\<close>

definition ex_voter :: cst where
  "ex_voter = ex_init\<lparr>nodes_mem := (\<lambda>x. if x = 0 then ex_node0\<lparr>n_slots := [1], n_numslots := 1\<rparr>
       else if x = 1 then ex_master\<lparr>n_slaves := [2]\<rparr>
       else if x = 2 then ex_slave\<lparr>n_name := ''n2'', n_flags := {NF_SLAVE}, n_link := Some 0\<rparr> else blank_node),
     next_ref := 3, next_lref := 1, live_links := [0], nodes := [(''n0'', 0), (''n1'', 1), (''n2'', 2)],
     slots := [Some 0, Some 1, Some 1, None, None, None, None, None]\<rparr>"

definition ex_request :: "epoch \<Rightarrow> clusterMsg" where
  "ex_request e = \<lparr>m_totlen = 2256, m_ver = 1, m_type = FAILOVER_AUTH_REQUEST, m_count = 0, m_sender = ''n2'',
     m_myslots = [6], m_slaveof = ''n1'', m_myip = [], m_port = 7000, m_cport = 17000, m_flags = {NF_SLAVE},
     m_state = CLUSTER_FAIL, m_paused = False, m_forceack = False, m_currentEpoch = e, m_configEpoch = 0,
     m_offset = 0, m_data = NoData\<rparr>"

lemma vote_request_packet:
  assumes "m_type hdr = FAILOVER_AUTH_REQUEST" and "packet_ok E hdr rcvlen"
    and "clusterLookupNode E st (m_sender hdr) = Some s" and "\<not> nodeInHandshake E st s"
  shows "run_event E (Packet hdr rcvlen link) st
    = clusterSendFailoverAuthIfNeeded E s hdr (update_sender E hdr s (count_received hdr st))"
proof -
  have "clusterLookupNode E (count_received hdr st) nm = clusterLookupNode E st nm"
    "nodeInHandshake E (count_received hdr st) s = nodeInHandshake E st s" for nm
    by (simp_all add: count_received_def clusterLookupNode_def nodeInHandshake_def nd_def split: msg_type.split)
  with assms show ?thesis by (simp add: clusterProcessPacket_def process_message_def)
qed

definition ex_voted :: "env \<Rightarrow> epoch \<Rightarrow> cst \<Rightarrow> cst" where
  "ex_voted E e st = clusterSendFailoverAuthIfNeeded E 2 (ex_request e)
     (update_sender E (ex_request e) 2 (count_received (ex_request e) st))"

definition ex_late :: env where
  "ex_late = ex_env\<lparr>mstime := 200000\<rparr>"

lemma ex_request_ok [simp]: "m_type (ex_request e) = FAILOVER_AUTH_REQUEST" "m_sender (ex_request e) = ''n2''"
  "packet_ok ex_env (ex_request e) 2256" "packet_ok ex_late (ex_request e) 2256"
  by (simp_all add: ex_request_def ex_late_def packet_ok_def expected_len_def ex_env_def)

lemma ex_sender:
  "clusterLookupNode ex_env ex_voter ''n2'' = Some 2" "\<not> nodeInHandshake ex_env ex_voter 2"
  "clusterLookupNode ex_late (ex_voted ex_env 5 ex_voter) ''n2'' = Some 2"
  "\<not> nodeInHandshake ex_late (ex_voted ex_env 5 ex_voter) 2"
  by code_simp+

lemma ex_votes:
  "run_event ex_env (Packet (ex_request 5) 2256 0) ex_voter = ex_voted ex_env 5 ex_voter"
  "run_event ex_late (Packet (ex_request 6) 2256 0) (ex_voted ex_env 5 ex_voter) = ex_voted ex_late 6 (ex_voted ex_env 5 ex_voter)"
  unfolding ex_voted_def [of ex_env 5 ex_voter] ex_voted_def [of ex_late]
  by (rule vote_request_packet; simp add: ex_sender ex_sender [unfolded ex_voted_def])+

theorem one_vote_per_epoch_witness:
  "currentEpoch (run_event ex_env (Packet (ex_request 5) 2256 0) ex_voter)
     < currentEpoch (run_event ex_late (Packet (ex_request 6) 2256 0)
         (run_event ex_env (Packet (ex_request 5) 2256 0) ex_voter))"
proof (rule one_vote_per_epoch [where evs = "[]"])
  show "votes_sent ex_voter < votes_sent (run_event ex_env (Packet (ex_request 5) 2256 0) ex_voter)"
    unfolding ex_votes by code_simp
  show "votes_sent (run_event ex_env (Packet (ex_request 5) 2256 0) ex_voter)
    < votes_sent (run_event ex_late (Packet (ex_request 6) 2256 0) (run_event ex_env (Packet (ex_request 5) 2256 0) ex_voter))"
    unfolding ex_votes by code_simp
  show "epoch_safe (Packet (ex_request 5) 2256 0) ex_voter"
    by (simp add: epoch_safe_def hard_reset_def ex_request_def ex_voter_def ex_states)
  show "epoch_safe (Packet (ex_request 6) 2256 0) (run_event ex_env (Packet (ex_request 5) 2256 0) ex_voter)"
    unfolding ex_votes by code_simp
qed simp_all

end
