(* ===== verification/Cluster_Text.thy ===== *)
theory Cluster_Text
  imports Cluster_Takeover
begin

text \<open>
  The text form of a node: what \<open>clusterGenNodeDescription\<close> and \<open>clusterSaveConfig\<close> print,
  \<open>clusterLoadConfig\<close> reads back. Numbers, addresses, flags, slot ranges and the line of a
  whole node are round trips.
\<close>

section \<open>Numbers\<close>

lemma digit_char: "d < 10 \<Longrightarrow> is_digit (char_of (d + 48 :: nat)) \<and> (of_char (char_of (d + 48 :: nat)) :: nat) = d + 48"
  by (simp add: is_digit_def of_char_of take_bit_eq_mod)

lemma show_nat_digits: "list_all is_digit (show_nat n)"
proof (induction n rule: show_nat.induct)
  case (1 n)
  then show ?case using digit_char [of n] digit_char [of "n mod 10"]
    by (subst show_nat.simps) auto
qed

lemma show_nat_nonempty [simp]: "show_nat n \<noteq> []"
  by (subst show_nat.simps) simp

lemma digits_val_snoc: "digits_val (xs @ [c]) = digits_val xs * 10 + (of_char c - 48)"
  by (simp add: digits_val_def)

lemma digits_val_show [simp]: "digits_val (show_nat n) = n"
proof (induction n rule: show_nat.induct)
  case (1 n)
  show ?case
  proof (cases "n < 10")
    case True
    with digit_char [OF True] show ?thesis by (subst show_nat.simps) (simp add: digits_val_def)
  next
    case False
    with 1 digit_char [of "n mod 10"] show ?thesis
      by (subst show_nat.simps) (simp add: digits_val_snoc)
  qed
qed

lemma digit_facts: "is_digit c \<Longrightarrow> \<not> is_space c" "is_digit c \<Longrightarrow> c \<noteq> CHR ''-''" "is_digit c \<Longrightarrow> c \<noteq> CHR ''+''"
  "is_digit c \<Longrightarrow> c \<noteq> CHR ''['' \<and> c \<noteq> CHR '':'' \<and> c \<noteq> CHR ''@'' \<and> c \<noteq> CHR '','' \<and> c \<noteq> CHR 0x20 \<and> c \<noteq> CHR 0x0A \<and> c \<noteq> CHR 0x00"
  by (auto simp: is_digit_def is_space_def)

lemma show_nat_set: "c \<in> set (show_nat n) \<Longrightarrow> is_digit c"
  using show_nat_digits by (simp add: list_all_iff)

lemma show_nat_hd: obtains c cs where "show_nat n = c # cs" "is_digit c"
  using show_nat_nonempty [of n] show_nat_set [of "hd (show_nat n)" n] by (cases "show_nat n") auto

lemma show_nat_takeWhile [simp]: "takeWhile is_digit (show_nat n) = show_nat n"
  using show_nat_set by (simp add: takeWhile_eq_all_conv)

lemma number_prefix_show [simp]: "number_prefix (show_nat n) = (False, n)"
proof -
  obtain c cs where c: "show_nat n = c # cs" "is_digit c" by (rule show_nat_hd)
  then have "dropWhile is_space (show_nat n) = show_nat n" "take 1 (show_nat n) \<noteq> ''-''" "take 1 (show_nat n) \<noteq> ''+''"
    using digit_facts(1-3) by auto
  then show ?thesis by (simp add: number_prefix_def)
qed

lemma number_prefix_show_int: "number_prefix (show_int i) = (i < 0, nat \<bar>i\<bar>)"
proof (cases "i < 0")
  case True
  then show ?thesis by (simp add: number_prefix_def show_int_def is_space_def)
next
  case False
  then show ?thesis by (simp add: show_int_def)
qed

lemma to_int32_id: "- (2 ^ 31) \<le> i \<Longrightarrow> i < 2 ^ 31 \<Longrightarrow> to_int32 i = i"
  by (simp add: to_int32_def)

lemma atoi_show_int: "- (2 ^ 31) \<le> i \<Longrightarrow> i < 2 ^ 31 \<Longrightarrow> atoi (show_int i) = i"
  using to_int32_id [of i] by (simp add: atoi_def number_prefix_show_int)

lemma atoi_show_nat: "n < 2 ^ 31 \<Longrightarrow> atoi (show_nat n) = int n"
  using to_int32_id [of "int n"] by (simp add: atoi_def)

lemma strtoull_show: "strtoull (show_nat (unat e)) = e"
proof -
  have "unat e < 2 ^ LENGTH(64)" by (rule unsigned_less)
  then show ?thesis by (simp add: strtoull_def)
qed

section \<open>Slot ranges\<close>

definition range_slots :: "(nat \<times> nat) list \<Rightarrow> nat list" where
  "range_slots rs = concat (map (\<lambda>(a, b). [a..<Suc b]) rs)"

lemma slot_ranges_step:
  "j \<ge> n \<Longrightarrow> slot_ranges own n j start = []"
  "j < n \<Longrightarrow> \<not> own j \<Longrightarrow> slot_ranges own n j None = slot_ranges own n (Suc j) None"
  "Suc j < n \<Longrightarrow> own j \<Longrightarrow> slot_ranges own n j None = slot_ranges own n (Suc j) (Some j)"
  "Suc j = n \<Longrightarrow> own j \<Longrightarrow> slot_ranges own n j None = [(j, j)]"
  "j < n \<Longrightarrow> \<not> own j \<Longrightarrow> slot_ranges own n j (Some s) = (s, j - 1) # slot_ranges own n (Suc j) None"
  "Suc j < n \<Longrightarrow> own j \<Longrightarrow> slot_ranges own n j (Some s) = slot_ranges own n (Suc j) (Some s)"
  "Suc j = n \<Longrightarrow> own j \<Longrightarrow> slot_ranges own n j (Some s) = [(s, j)]"
  by (subst slot_ranges.simps; auto simp: slot_ranges.simps)+

lemma slot_ranges_slots:
  "range_slots (slot_ranges own n j None) = filter own [j..<n]"
  "s < j \<Longrightarrow> j < n \<Longrightarrow> range_slots (slot_ranges own n j (Some s)) = [s..<j] @ filter own [j..<n]"
proof (induction "n - j" arbitrary: j s)
  case 0
  { case 1 with 0 show ?case by (simp add: slot_ranges_step range_slots_def) }
  { case 2 with 0 show ?case by simp }
next
  case (Suc k)
  have k: "k = n - Suc j" and u: "[j..<n] = j # [Suc j..<n]" using Suc(3) by (simp_all add: upt_rec)
  { case 1
    show ?case using Suc(1,2) [OF k] Suc(3) u
      by (cases "own j"; cases "Suc j = n") (auto simp: slot_ranges_step range_slots_def) }
  { case 2
    moreover from 2 have "[s..<j - Suc 0] @ [j - Suc 0] = [s..<j]" by (cases j) auto
    ultimately show ?case using Suc(1,2) [OF k] Suc(3) u
      by (cases "own j"; cases "Suc j = n") (auto simp: slot_ranges_step range_slots_def) }
qed

lemma slot_ranges_bounds:
  "(a, b) \<in> set (slot_ranges own n j None) \<Longrightarrow> a \<le> b \<and> b < n"
  "s < j \<Longrightarrow> j < n \<Longrightarrow> (a, b) \<in> set (slot_ranges own n j (Some s)) \<Longrightarrow> a \<le> b \<and> b < n"
proof (induction "n - j" arbitrary: j s)
  case 0
  { case 1 with 0 show ?case by (simp add: slot_ranges_step) }
  { case 2 with 0 show ?case by simp }
next
  case (Suc k)
  have k: "k = n - Suc j" and sj: "Suc j = n \<or> Suc j < n" using Suc(3) by linarith+
  { case 1
    then show ?case using Suc(1) [OF k] Suc(2) [OF k, of j] Suc(2) [OF k, of s] sj
      by (cases "own j") (auto simp: slot_ranges_step) }
  { case 2
    then show ?case using Suc(1) [OF k] Suc(2) [OF k, of j] Suc(2) [OF k, of s] sj
      by (cases "own j") (auto simp: slot_ranges_step) }
qed

lemma strchr_split_hit: "c \<notin> set x \<Longrightarrow> strchr_split c (x @ c # y) = Some (x, y)"
  by (simp add: strchr_split_def takeWhile_append dropWhile_append)

lemma strchr_split_miss: "c \<notin> set x \<Longrightarrow> strchr_split c x = None"
  by (simp add: strchr_split_def)

lemma strrchr_split_hit: "c \<notin> set y \<Longrightarrow> strrchr_split c (x @ c # y) = Some (x, y)"
  using strchr_split_hit [of c "rev y" "rev x"] by (simp add: strrchr_split_def)

lemma load_slots_range:
  assumes "a \<le> b" "b < CLUSTER_SLOTS E" "CLUSTER_SLOTS E < 2 ^ 31"
  shows "load_slots E n (tl (show_range (a, b))) st = Inr (fold (\<lambda>j st. snd (clusterAddSlot E n j st)) [a..<Suc b] st)"
proof -
  have d: "c \<notin> set (show_nat m)" if "\<not> is_digit c" for c m using that show_nat_set by blast
  obtain c cs where c: "show_nat a = c # cs" "is_digit c" by (rule show_nat_hd)
  have t: "take 1 (tl (show_range (a, b))) \<noteq> ''[''"
    using c digit_facts(4) by (auto simp: show_range_def)
  have p: "(case strchr_split (CHR ''-'') (tl (show_range (a, b))) of
      Some (x, y) \<Rightarrow> (atoi x, atoi y) | None \<Rightarrow> (atoi (tl (show_range (a, b))), atoi (tl (show_range (a, b)))))
    = (int a, int b)"
    using assms d [of "CHR ''-''"]
    by (simp add: show_range_def strchr_split_hit strchr_split_miss atoi_show_nat is_digit_def)
  show ?thesis
    using assms t by (simp add: load_slots_def p nat_add_distrib del: upt_Suc)
qed

lemma load_all_ranges:
  assumes "\<And>a b. (a, b) \<in> set rs \<Longrightarrow> a \<le> b \<and> b < CLUSTER_SLOTS E" "CLUSTER_SLOTS E < 2 ^ 31"
  shows "load_all (load_slots E n) (map (\<lambda>r. tl (show_range r)) rs) st
    = Inr (fold (\<lambda>j st. snd (clusterAddSlot E n j st)) (range_slots rs) st)"
  using assms(1)
proof (induction rs arbitrary: st)
  case Nil
  then show ?case by (simp add: range_slots_def)
next
  case (Cons r rs)
  obtain a b where r: "r = (a, b)" by (cases r)
  with Cons.prems have "a \<le> b" "b < CLUSTER_SLOTS E" by auto
  moreover have "load_all (load_slots E n) (map (\<lambda>r. tl (show_range r)) rs) st'
    = Inr (fold (\<lambda>j st. snd (clusterAddSlot E n j st)) (range_slots rs) st')" for st'
    using Cons.prems by (intro Cons.IH) auto
  ultimately show ?case using assms(2)
    by (simp add: r load_slots_range range_slots_def del: upt_Suc)
qed

lemma load_slot_fields:
  assumes "CLUSTER_SLOTS E < 2 ^ 31"
  shows "load_all (load_slots E n) (map (\<lambda>r. tl (show_range r)) (slot_ranges own (CLUSTER_SLOTS E) 0 None)) st
    = Inr (fold (\<lambda>j st. snd (clusterAddSlot E n j st)) (filter own [0..<CLUSTER_SLOTS E]) st)"
  using load_all_ranges [of "slot_ranges own (CLUSTER_SLOTS E) 0 None" E n st] slot_ranges_bounds(1) assms
  by (auto simp: slot_ranges_slots(1))

section \<open>Fields and lines\<close>

fun join :: "char \<Rightarrow> string list \<Rightarrow> string" where
  "join c [] = []"
| "join c [x] = x"
| "join c (x # y # zs) = x @ c # join c (y # zs)"

lemma join_Cons: "xs \<noteq> [] \<Longrightarrow> join c (x # xs) = x @ c # join c xs"
  by (cases xs) simp_all

lemma split_on_plain: "c \<notin> set x \<Longrightarrow> split_on c x = [x]"
  by (induction x) auto

lemma split_on_app: "c \<notin> set x \<Longrightarrow> split_on c (x @ c # y) = x # split_on c y"
  by (induction x) auto

lemma split_on_join: "xs \<noteq> [] \<Longrightarrow> (\<And>x. x \<in> set xs \<Longrightarrow> c \<notin> set x) \<Longrightarrow> split_on c (join c xs) = xs"
  by (induction c xs rule: join.induct) (auto simp: split_on_plain split_on_app)

section \<open>Flags\<close>

definition printed_flags :: "node_flag set" where
  "printed_flags = set (map fst redisNodeFlagsTable)"

definition flag_name :: "node_flag \<Rightarrow> string" where
  "flag_name f = (case map_of redisNodeFlagsTable f of Some s \<Rightarrow> butlast s | None \<Rightarrow> [])"

definition flags_of :: "node_flag set \<Rightarrow> node_flag list" where
  "flags_of F = filter (\<lambda>f. f \<in> F) (map fst redisNodeFlagsTable)"

lemma set_flags_of: "set (flags_of F) = F \<inter> printed_flags"
  by (auto simp: flags_of_def printed_flags_def)

lemma flag_text: "f \<in> printed_flags \<Longrightarrow> map_of redisNodeFlagsTable f = Some (flag_name f @ '','')"
  by (auto simp: printed_flags_def flag_name_def redisNodeFlagsTable_def)

lemma flags_concat: "concat (map snd (filter (\<lambda>(f, name). f \<in> F) redisNodeFlagsTable)) = concat (map (\<lambda>f. flag_name f @ '','') (flags_of F))"
  by (simp add: flags_of_def redisNodeFlagsTable_def flag_name_def)

lemma concat_join: "fs \<noteq> [] \<Longrightarrow> butlast (concat (map (\<lambda>f. g f @ [c]) fs)) = join c (map g fs)"
  by (induction fs) (auto simp: butlast_append join_Cons)

lemma represent_flags:
  assumes "F \<inter> printed_flags \<noteq> {}"
  shows "representClusterNodeFlags ci F = ci @ join (CHR '','') (map flag_name (flags_of F))"
proof -
  have ne: "flags_of F \<noteq> []" using assms set_flags_of [of F] by auto
  then have "concat (map (\<lambda>f. flag_name f @ '','') (flags_of F)) \<noteq> []" by (cases "flags_of F") auto
  moreover have "F \<noteq> {}" using assms by auto
  ultimately show ?thesis
    using concat_join [OF ne, of flag_name "CHR '',''"]
    by (simp add: representClusterNodeFlags_def flags_concat butlast_append)
qed

lemma flag_names_plain: "f \<in> printed_flags \<Longrightarrow> CHR '','' \<notin> set (flag_name f)"
  by (auto simp: printed_flags_def flag_name_def redisNodeFlagsTable_def)

lemma split_flags:
  assumes "F \<inter> printed_flags \<noteq> {}"
  shows "split_on (CHR '','') (join (CHR '','') (map flag_name (flags_of F))) = map flag_name (flags_of F)"
  using assms set_flags_of [of F] flag_names_plain by (intro split_on_join) auto

text \<open>What loading a flag leaves of a node: all but its flags and its failure time.\<close>

definition node_data :: "cst \<Rightarrow> nref \<Rightarrow> string \<times> string \<times> int \<times> int \<times> epoch \<times> bitmap \<times> nref option list \<times> nref" where
  "node_data st n = (n_name (nd st n), n_ip (nd st n), n_port (nd st n), n_cport (nd st n), n_configEpoch (nd st n),
     n_slots (nd st n), slots st, next_ref st)"

lemma flag_name_simps:
  "flag_name NF_MYSELF = ''myself''" "flag_name NF_MASTER = ''master''" "flag_name NF_SLAVE = ''slave''"
  "flag_name NF_PFAIL = ''fail?''" "flag_name NF_FAIL = ''fail''" "flag_name NF_HANDSHAKE = ''handshake''"
  "flag_name NF_NOADDR = ''noaddr''"
  by (simp_all add: flag_name_def redisNodeFlagsTable_def)

lemma flag_names_distinct:
  "f \<in> printed_flags \<Longrightarrow> strcasecmp_eq (flag_name f) (flag_name g) \<longleftrightarrow> g \<in> printed_flags \<and> f = g"
proof -
  have "list_all (\<lambda>f. list_all (\<lambda>g. strcasecmp_eq (flag_name f) (flag_name g) = (f = g))
      (map fst redisNodeFlagsTable @ [NF_MEET, NF_MIGRATE_TO])) (map fst redisNodeFlagsTable)" by code_simp
  then show "f \<in> printed_flags \<Longrightarrow> strcasecmp_eq (flag_name f) (flag_name g) \<longleftrightarrow> g \<in> printed_flags \<and> f = g"
    by (cases g) (auto simp: list_all_iff printed_flags_def redisNodeFlagsTable_def)
qed

lemma load_flag_printed:
  assumes "f \<in> printed_flags"
  shows "load_flag E n (flag_name f) (me, st) = (if f = NF_MYSELF
      then if me = None then Inr (Some n, add_flags n {f} (st\<lparr>myself := n\<rparr>)) else Inl Crash
      else Inr (me, if f = NF_FAIL then upd_node n (\<lambda>x. x\<lparr>n_fail_time := mstime E\<rparr>) (add_flags n {f} st)
                    else add_flags n {f} st))"
proof -
  have p: "NF_MYSELF \<in> printed_flags" "NF_MASTER \<in> printed_flags" "NF_SLAVE \<in> printed_flags"
    "NF_PFAIL \<in> printed_flags" "NF_FAIL \<in> printed_flags" "NF_HANDSHAKE \<in> printed_flags"
    "NF_NOADDR \<in> printed_flags" "NF_MEET \<notin> printed_flags" "NF_MIGRATE_TO \<notin> printed_flags"
    by (simp_all add: printed_flags_def redisNodeFlagsTable_def)
  show ?thesis
    unfolding load_flag_def flag_name_simps [symmetric] using assms p
    by (cases f) (simp_all add: flag_names_distinct)
qed

lemma load_flags:
  assumes "set fs \<subseteq> printed_flags" and "distinct fs" and "NF_MYSELF \<in> set fs \<Longrightarrow> me = None"
  shows "\<exists>st'. load_all (load_flag E n) (map flag_name fs) (me, st) = Inr (if NF_MYSELF \<in> set fs then Some n else me, st')
    \<and> n_flags (nd st' n) = n_flags (nd st n) \<union> set fs \<and> node_data st' n = node_data st n"
  using assms
proof (induction fs arbitrary: me st)
  case (Cons f fs)
  define me' where "me' = (if f = NF_MYSELF then Some n else me)"
  define st1 where "st1 = (let s = add_flags n {f} (if f = NF_MYSELF then st\<lparr>myself := n\<rparr> else st)
    in if f = NF_FAIL then upd_node n (\<lambda>x. x\<lparr>n_fail_time := mstime E\<rparr>) s else s)"
  have l: "load_flag E n (flag_name f) (me, st) = Inr (me', st1)"
    using Cons.prems by (auto simp: load_flag_printed me'_def st1_def)
  have d: "n_flags (nd st1 n) = insert f (n_flags (nd st n))" "node_data st1 n = node_data st n"
    by (auto simp: st1_def node_data_def Let_def add_flags_def upd_node_def nd_def)
  have "NF_MYSELF \<in> set fs \<Longrightarrow> me' = None" using Cons.prems by (auto simp: me'_def)
  then obtain st' where "load_all (load_flag E n) (map flag_name fs) (me', st1) = Inr (if NF_MYSELF \<in> set fs then Some n else me', st')"
    "n_flags (nd st' n) = n_flags (nd st1 n) \<union> set fs" "node_data st' n = node_data st1 n"
    using Cons.IH [of me' st1] Cons.prems by auto
  with l d show ?case by (auto simp: me'_def)
qed simp

section \<open>The line of a node\<close>

definition port_ok :: "int \<Rightarrow> bool" where
  "port_ok p \<longleftrightarrow> 0 \<le> p \<and> p < 2 ^ 16"

definition address_text :: "clusterNode \<Rightarrow> string" where
  "address_text n = n_ip n @ '':'' @ show_int (n_port n) @ ''@'' @ show_int (n_cport n)"

lemma atoi_port: "port_ok p \<Longrightarrow> atoi (show_int p) = p"
  by (rule atoi_show_int) (simp_all add: port_ok_def)

lemma port_set: "port_ok p \<Longrightarrow> c \<in> set (show_int p) \<Longrightarrow> is_digit c"
  using show_nat_set by (simp add: port_ok_def show_int_def)

lemma load_address_text:
  assumes "port_ok (n_port x)" "port_ok (n_cport x)" "length (n_ip x) < NET_IP_STR_LEN E"
  shows "load_address E n (address_text x) st = Inr (upd_node n (\<lambda>y. y\<lparr>n_ip := n_ip x, n_port := n_port x, n_cport := n_cport x\<rparr>) st)"
proof -
  have d: "c \<notin> set (show_int (n_port x))" "c \<notin> set (show_int (n_cport x))" if "\<not> is_digit c" for c
    using that assms port_set by blast+
  have "strrchr_split (CHR '':'') (address_text x) = Some (n_ip x, show_int (n_port x) @ ''@'' @ show_int (n_cport x))"
    unfolding address_text_def append_Cons append_Nil
    using d [of "CHR '':''"] by (intro strrchr_split_hit) (simp add: is_digit_def)
  moreover have "strchr_split (CHR ''@'') (show_int (n_port x) @ ''@'' @ show_int (n_cport x)) = Some (show_int (n_port x), show_int (n_cport x))"
    unfolding append_Cons append_Nil
    using d [of "CHR ''@''"] by (intro strchr_split_hit) (simp add: is_digit_def)
  ultimately show ?thesis using assms by (simp add: load_address_def atoi_port)
qed

definition node_fields :: "env \<Rightarrow> cst \<Rightarrow> nref \<Rightarrow> string list" where
  "node_fields E st n = [cstr40 (n_name (nd st n)), address_text (nd st n),
     join (CHR '','') (map flag_name (flags_of (n_flags (nd st n)))),
     (case n_slaveof (nd st n) of Some m \<Rightarrow> cstr40 (n_name (nd st m)) | None \<Rightarrow> ''-''),
     show_int (n_ping_sent (nd st n)), show_int (n_pong_received (nd st n)), show_nat (unat (n_configEpoch (nd st n))),
     if n_link (nd st n) \<noteq> None \<or> NF_MYSELF \<in> n_flags (nd st n) then ''connected'' else ''disconnected'']
     @ map (\<lambda>r. tl (show_range r)) (slot_ranges (clusterNodeGetSlotBit st n) (CLUSTER_SLOTS E) 0 None)"

lemma join_ranges: "xs \<noteq> [] \<Longrightarrow> join (CHR '' '') (xs @ map (\<lambda>r. tl (show_range r)) rs) = join (CHR '' '') xs @ concat (map show_range rs)"
proof (induction xs rule: induct_list012)
  case (2 x)
  have "join (CHR '' '') (x # map (\<lambda>r. tl (show_range r)) rs) = x @ concat (map show_range rs)" for x
  proof (induction rs arbitrary: x)
    case (Cons r rs)
    have "show_range r = CHR '' '' # tl (show_range r)" by (cases r) (simp add: show_range_def)
    with Cons show ?case by simp
  qed simp
  then show ?case by simp
qed simp_all

lemma description_fields:
  assumes "n_flags (nd st n) \<inter> printed_flags \<noteq> {}"
    and "NF_MYSELF \<in> n_flags (nd st n) \<Longrightarrow> \<forall>j < CLUSTER_SLOTS E. migrating_slots_to st ! j = None \<and> importing_slots_from st ! j = None"
  shows "clusterGenNodeDescription E st n = join (CHR '' '') (node_fields E st n)"
proof -
  have "concat (map (show_open_slot st) [0..<CLUSTER_SLOTS E]) = []" if "NF_MYSELF \<in> n_flags (nd st n)"
    using assms(2) [OF that] by (auto simp: show_open_slot_def)
  then show ?thesis
    unfolding node_fields_def join_ranges [OF list.distinct(2)] clusterGenNodeDescription_def Let_def represent_flags [OF assms(1)]
    by (simp add: address_text_def split: option.split)
qed

text \<open>The fields are free of blanks, quotes and NUL, which is what \<open>sdssplitargs\<close> splits at blanks.\<close>

definition plain_char :: "char \<Rightarrow> bool" where
  "plain_char c \<longleftrightarrow> \<not> is_space c \<and> c \<noteq> CHR 0x22 \<and> c \<noteq> CHR 0x27 \<and> c \<noteq> CHR 0x00"

definition plain :: "string \<Rightarrow> bool" where
  "plain s \<longleftrightarrow> s \<noteq> [] \<and> list_all plain_char s"

definition splits_blanks :: "env \<Rightarrow> bool" where
  "splits_blanks E \<longleftrightarrow> (\<forall>fs. fs \<noteq> [] \<longrightarrow> list_all plain fs
     \<longrightarrow> sdssplitargs E (join (CHR '' '') fs @ [CHR 0x0A]) = Some fs)"

lemma plain_app: "plain (x @ y) \<longleftrightarrow> plain x \<and> y = [] \<or> x = [] \<and> plain y \<or> plain x \<and> plain y"
  by (auto simp: plain_def)

lemma plain_nat: "plain (show_nat n)"
proof -
  have "plain_char c" if "is_digit c" for c using that by (auto simp: plain_char_def is_digit_def is_space_def)
  then show ?thesis using show_nat_digits [of n] by (auto simp: plain_def list_all_iff)
qed

lemma plain_Cons: "plain_char c \<Longrightarrow> plain s \<Longrightarrow> plain (c # s)"
  by (simp add: plain_def)

lemma plain_int: "plain (show_int i)"
  unfolding show_int_def by (auto intro!: plain_nat plain_Cons) (simp add: plain_char_def is_space_def)

lemma plain_range: "plain (tl (show_range r))"
  by (cases r) (auto simp: show_range_def plain_app plain_nat intro!: plain_Cons, simp add: plain_char_def is_space_def)

lemma plain_flags: "fs \<noteq> [] \<Longrightarrow> set fs \<subseteq> printed_flags \<Longrightarrow> plain (join (CHR '','') (map flag_name fs))"
proof (induction fs)
  case (Cons f fs)
  have "list_all (\<lambda>f. plain (flag_name f)) (map fst redisNodeFlagsTable)" by code_simp
  then have "plain (flag_name f)" using Cons.prems by (auto simp: list_all_iff printed_flags_def)
  with Cons show ?case
    by (cases "fs = []") (auto simp: join_Cons plain_app plain_char_def is_space_def intro!: plain_Cons)
qed simp

lemma plain_address: "list_all plain_char (n_ip x) \<Longrightarrow> plain (address_text x)"
  using plain_int [of "n_port x"] plain_int [of "n_cport x"]
  by (simp add: address_text_def plain_def plain_char_def is_space_def)

lemma plain_fields:
  assumes "plain (cstr40 (n_name (nd st n)))" "list_all plain_char (n_ip (nd st n))"
    "n_flags (nd st n) \<inter> printed_flags \<noteq> {}" "n_slaveof (nd st n) = None"
  shows "list_all plain (node_fields E st n)"
proof -
  have "plain (join (CHR '','') (map flag_name (flags_of (n_flags (nd st n)))))"
    using assms(3) set_flags_of [of "n_flags (nd st n)"] by (intro plain_flags) auto
  moreover have "plain ''-''" "plain ''connected''" "plain ''disconnected''" by (simp_all add: plain_def plain_char_def is_space_def)
  ultimately show ?thesis
    using assms plain_address [of "nd st n"] by (simp add: node_fields_def plain_int plain_nat list_all_iff plain_range)
qed

lemma not_plain: "\<not> plain_char (CHR 0x0A)" "\<not> plain_char (CHR 0x00)" "\<not> plain_char (CHR '' '')"
  by (simp_all add: plain_char_def is_space_def)

lemma join_plain: "list_all plain fs \<Longrightarrow> c \<in> set (join b fs) \<Longrightarrow> plain_char c \<or> c = b"
  by (induction b fs rule: join.induct) (auto simp: plain_def list_all_iff)

section \<open>Loading the slots\<close>

text \<open>What loading the slots leaves of a node.\<close>

definition node_text :: "cst \<Rightarrow> nref \<Rightarrow> string \<times> string \<times> int \<times> int \<times> epoch \<times> node_flag set \<times> nref \<times> (string \<times> nref) list" where
  "node_text st n = (n_name (nd st n), n_ip (nd st n), n_port (nd st n), n_cport (nd st n), n_configEpoch (nd st n),
     n_flags (nd st n) \<inter> printed_flags, next_ref st, nodes st)"

lemma add_slot_text: "node_text (snd (clusterAddSlot E n j st)) r = node_text st r"
proof -
  have "NF_MIGRATE_TO \<notin> printed_flags" by (simp add: printed_flags_def redisNodeFlagsTable_def)
  then show ?thesis
    by (auto simp: node_text_def clusterAddSlot_def clusterNodeSetSlotBit_def Let_def upd_node_def add_flags_def nd_def)
qed

lemma add_slots:
  assumes "distinct js" "\<And>j. j \<in> set js \<Longrightarrow> j < N \<and> slots st ! j = None" "length (slots st) = N"
    "length (n_slots (nd st n)) = N div 8" "8 dvd N"
  shows "node_text (fold (\<lambda>j st. snd (clusterAddSlot E n j st)) js st) n = node_text st n
    \<and> (\<forall>i. clusterNodeGetSlotBit (fold (\<lambda>j st. snd (clusterAddSlot E n j st)) js st) n i
      \<longleftrightarrow> i \<in> set js \<or> clusterNodeGetSlotBit st n i)"
  using assms
proof (induction js arbitrary: st)
  case (Cons j js)
  let ?s = "snd (clusterAddSlot E n j st)"
  have j: "slots st ! j = None" "j div 8 < N div 8" using Cons.prems(2) [of j] assms(5) by (auto simp: less_mult_imp_div_less)
  have "slots ?s ! i = None" if "i \<in> set js" for i
  proof -
    have "i \<noteq> j" using that Cons.prems(1) by auto
    with Cons.prems(2) [of i] that j show ?thesis by (simp add: add_slot_effect)
  qed
  then have "node_text (fold (\<lambda>j st. snd (clusterAddSlot E n j st)) js ?s) n = node_text ?s n
    \<and> (\<forall>i. clusterNodeGetSlotBit (fold (\<lambda>j st. snd (clusterAddSlot E n j st)) js ?s) n i
      \<longleftrightarrow> i \<in> set js \<or> clusterNodeGetSlotBit ?s n i)"
    using Cons.prems j by (intro Cons.IH) (auto simp: add_slot_effect)
  with Cons.prems(4) j show ?case
    by (auto simp: add_slot_text add_slot_effect clusterNodeGetSlotBit_def)
qed simp

section \<open>Loading the line of a node\<close>

lemma node_or_create_new:
  assumes "clusterLookupNode E st nm = None" "length nm = CLUSTER_NAMELEN E"
  obtains st' where "node_or_create E nm st = (next_ref st, st')" "n_name (nd st' (next_ref st)) = nm"
    "n_flags (nd st' (next_ref st)) = {}" "n_slots (nd st' (next_ref st)) = empty_bitmap E"
    "slots st' = slots st" "nodes st' = nodes st @ [(nm, next_ref st)]"
proof -
  have nm: "name_bytes E nm = nm" using assms(2) by (simp add: name_bytes_def)
  have "map_of (nodes st) nm = None" using assms(1) by (simp add: clusterLookupNode_def nm)
  with that assms(1) nm show ?thesis
    by (auto simp: node_or_create_def createClusterNode_def clusterAddNode_def dictAdd_def nd_def Let_def)
qed

lemma length_empty_bitmap: "length (empty_bitmap E) = CLUSTER_SLOTS E div 8"
  by (simp add: empty_bitmap_def)

lemma load_node_line:
  fixes x :: clusterNode and E :: env and own :: "nat \<Rightarrow> bool" and conn :: string
  defines "fs \<equiv> [n_name x, address_text x, join (CHR '','') (map flag_name (flags_of (n_flags x))), ''-'',
    show_int (n_ping_sent x), show_int (n_pong_received x), show_nat (unat (n_configEpoch x)), conn]
    @ map (\<lambda>r. tl (show_range r)) (slot_ranges own (CLUSTER_SLOTS E) 0 None)"
  assumes x: "length (n_name x) = CLUSTER_NAMELEN E" "port_ok (n_port x)" "port_ok (n_cport x)"
      "length (n_ip x) < NET_IP_STR_LEN E" "n_flags x \<inter> printed_flags \<noteq> {}" "NF_MYSELF \<in> n_flags x \<Longrightarrow> me = None"
    and N: "CLUSTER_SLOTS E < 2 ^ 31" "8 dvd CLUSTER_SLOTS E"
    and st: "clusterLookupNode E st (n_name x) = None" "length (slots st) = CLUSTER_SLOTS E"
      "\<And>j. j < CLUSTER_SLOTS E \<Longrightarrow> own j \<Longrightarrow> slots st ! j = None"
  shows "\<exists>st'. load_node E fs (me, st) = Inr (if NF_MYSELF \<in> n_flags x then Some (next_ref st) else me, st')
    \<and> n_name (nd st' (next_ref st)) = n_name x \<and> n_ip (nd st' (next_ref st)) = n_ip x
    \<and> n_port (nd st' (next_ref st)) = n_port x \<and> n_cport (nd st' (next_ref st)) = n_cport x
    \<and> n_configEpoch (nd st' (next_ref st)) = n_configEpoch x
    \<and> n_flags (nd st' (next_ref st)) \<inter> printed_flags = n_flags x \<inter> printed_flags
    \<and> (\<forall>j < CLUSTER_SLOTS E. clusterNodeGetSlotBit st' (next_ref st) j \<longleftrightarrow> own j)"
proof -
  let ?r = "next_ref st"
  obtain s1 where c: "node_or_create E (n_name x) st = (?r, s1)" "n_name (nd s1 ?r) = n_name x" "n_flags (nd s1 ?r) = {}"
    "n_slots (nd s1 ?r) = empty_bitmap E" "slots s1 = slots st" "nodes s1 = nodes st @ [(n_name x, ?r)]"
    by (rule node_or_create_new [OF st(1) x(1)])
  define s2 where "s2 = upd_node ?r (\<lambda>y. y\<lparr>n_ip := n_ip x, n_port := n_port x, n_cport := n_cport x\<rparr>) s1"
  have fl: "set (flags_of (n_flags x)) \<subseteq> printed_flags" "distinct (flags_of (n_flags x))"
    by (simp add: set_flags_of) (simp add: flags_of_def redisNodeFlagsTable_def)
  have my: "NF_MYSELF \<in> printed_flags" by (simp add: printed_flags_def redisNodeFlagsTable_def)
  obtain s3 where f: "load_all (load_flag E ?r) (map flag_name (flags_of (n_flags x))) (me, s2)
      = Inr (if NF_MYSELF \<in> n_flags x then Some ?r else me, s3)"
    "n_flags (nd s3 ?r) = n_flags (nd s2 ?r) \<union> n_flags x \<inter> printed_flags" "node_data s3 ?r = node_data s2 ?r"
    using load_flags [OF fl, of me E ?r s2] x(6) my by (auto simp: set_flags_of)
  define s4 where "s4 = (let st = (if atoi (show_int (n_ping_sent x)) \<noteq> 0 then upd_node ?r (\<lambda>x. x\<lparr>n_ping_sent := mstime E\<rparr>) s3 else s3);
    st = (if atoi (show_int (n_pong_received x)) \<noteq> 0 then upd_node ?r (\<lambda>x. x\<lparr>n_pong_received := mstime E\<rparr>) st else st)
    in upd_node ?r (\<lambda>y. y\<lparr>n_configEpoch := n_configEpoch x\<rparr>) st)"
  define s5 where "s5 = fold (\<lambda>j st. snd (clusterAddSlot E ?r j st)) (filter own [0..<CLUSTER_SLOTS E]) s4"
  have l: "load_node E fs (me, st) = Inr (if NF_MYSELF \<in> n_flags x then Some ?r else me, s5)"
    using c(1) f(1) x(2-5)
    by (simp add: load_node_def fs_def load_address_text s2_def [symmetric] split_flags load_master_def strtoull_show
        load_slot_fields [OF N(1)] s4_def [symmetric, unfolded Let_def] s5_def Let_def)
  have d4: "n_name (nd s4 ?r) = n_name x" "n_ip (nd s4 ?r) = n_ip x" "n_port (nd s4 ?r) = n_port x" "n_cport (nd s4 ?r) = n_cport x"
    "n_configEpoch (nd s4 ?r) = n_configEpoch x" "n_flags (nd s4 ?r) \<inter> printed_flags = n_flags x \<inter> printed_flags"
    "n_slots (nd s4 ?r) = empty_bitmap E" "slots s4 = slots st"
    using c(2-5) f(2,3) by (auto simp: s4_def s2_def node_data_def Let_def)
  have "node_text s5 ?r = node_text s4 ?r
    \<and> (\<forall>i. clusterNodeGetSlotBit s5 ?r i \<longleftrightarrow> i \<in> set (filter own [0..<CLUSTER_SLOTS E]) \<or> clusterNodeGetSlotBit s4 ?r i)"
    unfolding s5_def using st(2,3) N(2) d4(7,8) by (intro add_slots [where N = "CLUSTER_SLOTS E"]) (auto simp: length_empty_bitmap)
  with l d4 N(2) show ?thesis
    by (intro exI [of _ s5]) (simp add: node_text_def clusterNodeGetSlotBit_def)
qed


lemma ex_splits: "splits_blanks ex_env"
proof -
  have j: "filter (\<lambda>c. c \<noteq> CHR 0x0A) (join (CHR '' '') fs) = join (CHR '' '') fs" if "list_all plain fs" for fs
    using join_plain [OF that] not_plain by (intro filter_True) force
  have s: "split_on (CHR '' '') (join (CHR '' '') fs) = fs" if "fs \<noteq> []" "list_all plain fs" for fs
    using that not_plain(3) by (intro split_on_join) (auto simp: plain_def list_all_iff)
  have "sdssplitargs ex_env x = Some (split_on (CHR '' '') (filter (\<lambda>c. c \<noteq> CHR 0x0A) x))" for x
    by (simp add: ex_env_def)
  then show ?thesis unfolding splits_blanks_def by (simp add: j s)
qed


end
