(* ===== verification/Cluster_Serve.thy ===== *)
theory Cluster_Serve
  imports Cluster_Takeover
begin

text \<open>
  What a client is told: the hash slot of a key and its hash tag, and the node that serves a query
  or the redirection in its place.
\<close>

section \<open>Hash tags\<close>

lemma find_from_drop: "i \<le> length s \<Longrightarrow> find_from c i s = i + length (takeWhile (\<lambda>x. x \<noteq> c) (drop i s))"
proof (induction c i s rule: find_from.induct)
  case (1 c i s)
  show ?case
  proof (cases "i < length s")
    case True
    then have "drop i s = s ! i # drop (Suc i) s" by (simp add: Cons_nth_drop_Suc)
    with 1 True show ?thesis by (subst find_from.simps) simp
  qed (use 1 in \<open>subst find_from.simps, simp\<close>)
qed

definition tagged :: "string \<Rightarrow> string \<Rightarrow> bool" where
  "tagged key t \<longleftrightarrow> t \<noteq> [] \<and> CHR ''}'' \<notin> set t \<and> (\<exists>a b. CHR ''{'' \<notin> set a \<and> key = a @ CHR ''{'' # t @ CHR ''}'' # b)"

lemma takeWhile_split: "c \<notin> set a \<Longrightarrow> takeWhile (\<lambda>x. x \<noteq> c) (a @ c # b) = a"
  by (induction a) auto

lemma takeWhile_break: "length (takeWhile (\<lambda>x. x \<noteq> c) s) \<noteq> length s \<Longrightarrow> \<exists>r. s = takeWhile (\<lambda>x. x \<noteq> c) s @ c # r"
  by (induction s) auto

lemma takeWhile_free: "c \<notin> set (takeWhile (\<lambda>x. x \<noteq> c) s)"
  by (induction s) auto

lemma keyHashSlot_tagged: "tagged key t \<Longrightarrow> keyHashSlot E key = crc16 E t AND 0x3FFF"
proof -
  assume "tagged key t"
  then obtain a b where t: "t \<noteq> []" "CHR ''}'' \<notin> set t" "CHR ''{'' \<notin> set a" "key = a @ CHR ''{'' # t @ CHR ''}'' # b"
    by (auto simp: tagged_def)
  have s: "find_from (CHR ''{'') 0 key = length a" using t by (simp add: find_from_drop takeWhile_split)
  have e: "find_from (CHR ''}'') (length a + 1) key = length a + 1 + length t"
    using t by (simp add: find_from_drop takeWhile_split)
  show ?thesis unfolding keyHashSlot_def Let_def s e using t by simp
qed

lemma keyHashSlot_plain: "(\<nexists>t. tagged key t) \<Longrightarrow> keyHashSlot E key = crc16 E key AND 0x3FFF"
proof -
  assume no: "\<nexists>t. tagged key t"
  define a where "a = takeWhile (\<lambda>x. x \<noteq> CHR ''{'') key"
  have s: "find_from (CHR ''{'') 0 key = length a" by (simp add: find_from_drop a_def)
  show ?thesis
  proof (cases "length a = length key")
    case True
    then show ?thesis by (simp add: keyHashSlot_def s)
  next
    case False
    obtain r where k: "key = a @ CHR ''{'' # r" unfolding a_def
      using takeWhile_break [OF False [unfolded a_def]] by (rule exE)
    have na: "CHR ''{'' \<notin> set a" unfolding a_def by (rule takeWhile_free)
    define t where "t = takeWhile (\<lambda>x. x \<noteq> CHR ''}'') r"
    have nt: "CHR ''}'' \<notin> set t" unfolding t_def by (rule takeWhile_free)
    have e: "find_from (CHR ''}'') (length a + 1) key = length a + 1 + length t"
      by (simp add: find_from_drop k t_def)
    have "t = [] \<or> length t = length r"
    proof (rule ccontr)
      assume c: "\<not> (t = [] \<or> length t = length r)"
      then have "length (takeWhile (\<lambda>x. x \<noteq> CHR ''}'') r) \<noteq> length r" by (simp add: t_def)
      then obtain b where "r = t @ CHR ''}'' # b" unfolding t_def by (rule takeWhile_break [THEN exE])
      then have "tagged key t" using c na nt k by (auto simp: tagged_def)
      with no show False by blast
    qed
    then show ?thesis unfolding keyHashSlot_def Let_def s e by (auto simp: k)
  qed
qed

lemma keyHashSlot_bound: "unat (keyHashSlot E key) < 16384"
proof -
  have "unat (w AND 0x3FFF :: 16 word) \<le> unat (0x3FFF :: 16 word)" for w
    by (simp only: word_le_nat_alt [symmetric] word_and_le1)
  then have "unat (w AND 0x3FFF :: 16 word) < 16384" for w by (rule le_less_trans) simp
  then show ?thesis by (simp add: keyHashSlot_def Let_def)
qed

text \<open>
  The hash slot of a key is the checksum of its hash tag, the nonempty text between the first
  opening brace and the next closing one, or of the whole key where it has no hash tag; it is one of
  the 16384 slots in both cases. Two keys with the same hash tag are in the same slot.
\<close>

theorem keyHashSlot_spec:
  "(\<forall>t. tagged key t \<longrightarrow> keyHashSlot E key = crc16 E t AND 0x3FFF)
    \<and> ((\<nexists>t. tagged key t) \<longrightarrow> keyHashSlot E key = crc16 E key AND 0x3FFF)
    \<and> unat (keyHashSlot E key) < 16384"
  using keyHashSlot_tagged keyHashSlot_plain keyHashSlot_bound by blast

theorem keyHashSlot_spec_witness:
  "keyHashSlot ex_env ''a{tag}b'' = keyHashSlot ex_env ''c{tag}''"
proof -
  have "tagged ''a{tag}b'' ''tag''" unfolding tagged_def
    by (simp, rule exI [of _ "''a''"], simp)
  moreover have "tagged ''c{tag}'' ''tag''" unfolding tagged_def
    by (simp, rule exI [of _ "''c''"], simp)
  ultimately show ?thesis
    using keyHashSlot_spec [of "''a{tag}b''" ex_env] keyHashSlot_spec [of "''c{tag}''" ex_env] by metis
qed

section \<open>The node for a query\<close>

definition key_slot :: "env \<Rightarrow> string \<Rightarrow> nat" where
  "key_slot E key = unat (keyHashSlot E key)"

text \<open>The keys of a query: of the command, or of all the commands of the transaction it executes.\<close>

definition all_keys :: "env \<Rightarrow> client \<Rightarrow> redisCommand \<Rightarrow> string list \<Rightarrow> string list" where
  "all_keys E c cmd argv = concat (map (command_keys E) (if cmd_proc cmd = execCommand then c_mstate c else [(cmd, argv)]))"

text \<open>The loop over the keys after the first one.\<close>

lemma query_keys_rest:
  assumes "q_first q = Some k0" "q_slot q = key_slot E k0"
  shows "query_keys E st ks q = (if \<exists>k \<in> set ks. key_slot E k \<noteq> key_slot E k0 then Inl REDIR_CROSS_SLOT
    else Inr (q\<lparr>q_multiple := q_multiple q \<or> (\<exists>k \<in> set ks. k \<noteq> k0),
      q_missing := q_missing q + (if q_migrating q \<or> q_importing q then length (filter (\<lambda>k. \<not> lookupKeyRead E k) ks) else 0)\<rparr>))"
  using assms
proof (induction ks arbitrary: q)
  case (Cons k ks)
  show ?case
  proof (cases "key_slot E k = key_slot E k0")
    case False
    then have "k0 \<noteq> k" by auto
    with False Cons.prems show ?thesis by (simp add: query_key_def key_slot_def Let_def)
  next
    case True
    define q' where "q' = count_missing E k (if k0 \<noteq> k then q\<lparr>q_multiple := True\<rparr> else q)"
    have "query_key E st k q = Inr q'"
      using True Cons.prems by (auto simp: query_key_def key_slot_def q'_def)
    moreover have "query_keys E st ks q' = (if \<exists>k \<in> set ks. key_slot E k \<noteq> key_slot E k0 then Inl REDIR_CROSS_SLOT
      else Inr (q'\<lparr>q_multiple := q_multiple q' \<or> (\<exists>k \<in> set ks. k \<noteq> k0),
        q_missing := q_missing q' + (if q_migrating q' \<or> q_importing q' then length (filter (\<lambda>k. \<not> lookupKeyRead E k) ks) else 0)\<rparr>))"
      using Cons.prems by (intro Cons.IH) (simp_all add: q'_def count_missing_def)
    ultimately show ?thesis using True by (auto simp: q'_def count_missing_def)
  qed
qed simp

definition migrating :: "cst \<Rightarrow> nat \<Rightarrow> bool" where
  "migrating st s \<longleftrightarrow> slots st ! s = Some (myself st) \<and> migrating_slots_to st ! s \<noteq> None"

definition importing :: "cst \<Rightarrow> nat \<Rightarrow> bool" where
  "importing st s \<longleftrightarrow> \<not> migrating st s \<and> importing_slots_from st ! s \<noteq> None"

lemma query_keys_all:
  "query_keys E st (k # ks) query0 = (case slots st ! key_slot E k of
      None \<Rightarrow> Inl REDIR_DOWN_UNBOUND
    | Some n \<Rightarrow> if \<exists>k' \<in> set ks. key_slot E k' \<noteq> key_slot E k then Inl REDIR_CROSS_SLOT
        else Inr \<lparr>q_n = Some n, q_first = Some k, q_slot = key_slot E k, q_multiple = (\<exists>k' \<in> set ks. k' \<noteq> k),
          q_migrating = migrating st (key_slot E k), q_importing = importing st (key_slot E k),
          q_missing = (if migrating st (key_slot E k) \<or> importing st (key_slot E k)
            then length (filter (\<lambda>k. \<not> lookupKeyRead E k) (k # ks)) else 0)\<rparr>)"
proof (cases "slots st ! key_slot E k")
  case None
  then show ?thesis by (simp add: query_key_def key_slot_def query0_def Let_def)
next
  case (Some n)
  define q where "q = count_missing E k \<lparr>q_n = Some n, q_first = Some k, q_slot = key_slot E k, q_multiple = False,
    q_migrating = migrating st (key_slot E k), q_importing = importing st (key_slot E k), q_missing = 0\<rparr>"
  have "query_key E st k query0 = Inr q"
    using Some by (auto simp: query_key_def key_slot_def query0_def Let_def q_def migrating_def importing_def)
  moreover have "q_first q = Some k" "q_slot q = key_slot E k" by (simp_all add: q_def count_missing_def)
  ultimately show ?thesis using Some query_keys_rest [of q k E st ks] by (auto simp: q_def count_missing_def)
qed

definition same_slot :: "env \<Rightarrow> string list \<Rightarrow> bool" where
  "same_slot E ks \<longleftrightarrow> (\<forall>k \<in> set ks. key_slot E k = key_slot E (hd ks))"

definition some_missing :: "env \<Rightarrow> string list \<Rightarrow> bool" where
  "some_missing E ks \<longleftrightarrow> (\<exists>k \<in> set ks. \<not> lookupKeyRead E k)"

definition different_keys :: "string list \<Rightarrow> bool" where
  "different_keys ks \<longleftrightarrow> (\<exists>k \<in> set ks. k \<noteq> hd ks)"

definition may_ask :: "client \<Rightarrow> redisCommand \<Rightarrow> bool" where
  "may_ask c cmd \<longleftrightarrow> CLIENT_ASKING \<in> c_flags c \<or> CMD_ASKING cmd"

definition slave_read :: "env \<Rightarrow> client \<Rightarrow> redisCommand \<Rightarrow> cst \<Rightarrow> nat \<Rightarrow> bool" where
  "slave_read E c cmd st s \<longleftrightarrow> CLIENT_READONLY \<in> c_flags c \<and> CMD_READONLY cmd \<and> nodeIsSlave E st (myself st)
     \<and> slots st ! s \<noteq> None \<and> slots st ! s = n_slaveof (nd st (myself st))"

lemma getNodeByQuery_keys:
  assumes "all_keys E c cmd argv = k # ks" and "cmd_proc cmd = execCommand \<Longrightarrow> CLIENT_MULTI \<in> c_flags c"
  shows "getNodeByQuery E c cmd argv st = (case query_keys E st (k # ks) query0 of
      Inl e \<Rightarrow> (None, e, None) | Inr q \<Rightarrow> serve_query E c cmd st (the (q_n q)) q)"
proof -
  have "q_n q \<noteq> None" if "query_keys E st (k # ks) query0 = Inr q" for q
    using that unfolding query_keys_all by (auto split: option.splits if_splits)
  then have "(case query_keys E st (k # ks) query0 of Inl e \<Rightarrow> (None, e, None)
      | Inr q \<Rightarrow> (case q_n q of None \<Rightarrow> (Some (myself st), REDIR_NONE, None) | Some n \<Rightarrow> serve_query E c cmd st n q))
    = (case query_keys E st (k # ks) query0 of Inl e \<Rightarrow> (None, e, None) | Inr q \<Rightarrow> serve_query E c cmd st (the (q_n q)) q)"
    by (auto split: sum.split)
  with assms show ?thesis
    unfolding getNodeByQuery_def all_keys_def Let_def by auto
qed

lemma serve_query_eq:
  assumes "slots st ! s = Some n" "q_slot q = s" "q_migrating q = migrating st s" "q_importing q = importing st s"
    and "migrating st s \<or> importing st s \<Longrightarrow> q_missing q \<noteq> 0 \<longleftrightarrow> missing"
  shows "serve_query E c cmd st n q =
     (if cl_state st \<noteq> CLUSTER_OK then (None, REDIR_DOWN_STATE, None)
      else if (migrating st s \<or> importing st s) \<and> cmd_proc cmd = migrateCommand then (Some (myself st), REDIR_NONE, Some s)
      else if migrating st s \<and> missing then (migrating_slots_to st ! s, REDIR_ASK, Some s)
      else if importing st s \<and> may_ask c cmd
      then if q_multiple q \<and> missing then (None, REDIR_UNSTABLE, Some s) else (Some (myself st), REDIR_NONE, Some s)
      else if slave_read E c cmd st s then (Some (myself st), REDIR_NONE, Some s)
      else (Some n, if n \<noteq> myself st then REDIR_MOVED else REDIR_NONE, Some s))"
proof -
  have sr: "(CLIENT_READONLY \<in> c_flags c \<and> CMD_READONLY cmd \<and> nodeIsSlave E st (myself st)
      \<and> n_slaveof (nd st (myself st)) = Some n) \<longleftrightarrow> slave_read E c cmd st s"
    using assms(1) by (auto simp: slave_read_def)
  show ?thesis
  proof (cases "migrating st s \<or> importing st s")
    case True
    with assms(5) have "q_missing q \<noteq> 0 \<longleftrightarrow> missing" by blast
    then show ?thesis unfolding serve_query_def Let_def sr may_ask_def [symmetric] assms(2-4) by (simp only:)
  next
    case False
    then show ?thesis unfolding serve_query_def Let_def sr may_ask_def [symmetric] assms(2-4) by simp
  qed
qed

text \<open>The loop and the decision after it in one expression over the keys.\<close>

lemma getNodeByQuery_eq:
  assumes "all_keys E c cmd argv \<noteq> []" and "cmd_proc cmd = execCommand \<Longrightarrow> CLIENT_MULTI \<in> c_flags c"
  defines "K \<equiv> all_keys E c cmd argv" and "s \<equiv> key_slot E (hd (all_keys E c cmd argv))"
  shows "getNodeByQuery E c cmd argv st = (case slots st ! s of None \<Rightarrow> (None, REDIR_DOWN_UNBOUND, None)
    | Some n \<Rightarrow>
      if \<not> same_slot E K then (None, REDIR_CROSS_SLOT, None)
      else if cl_state st \<noteq> CLUSTER_OK then (None, REDIR_DOWN_STATE, None)
      else if (migrating st s \<or> importing st s) \<and> cmd_proc cmd = migrateCommand then (Some (myself st), REDIR_NONE, Some s)
      else if migrating st s \<and> some_missing E K then (migrating_slots_to st ! s, REDIR_ASK, Some s)
      else if importing st s \<and> may_ask c cmd
      then if different_keys K \<and> some_missing E K then (None, REDIR_UNSTABLE, Some s) else (Some (myself st), REDIR_NONE, Some s)
      else if slave_read E c cmd st s then (Some (myself st), REDIR_NONE, Some s)
      else (Some n, if n \<noteq> myself st then REDIR_MOVED else REDIR_NONE, Some s))"
proof -
  obtain k ks where k: "all_keys E c cmd argv = k # ks" using assms(1) by (cases "all_keys E c cmd argv") auto
  have g: "getNodeByQuery E c cmd argv st = (case query_keys E st (k # ks) query0 of
      Inl e \<Rightarrow> (None, e, None) | Inr q \<Rightarrow> serve_query E c cmd st (the (q_n q)) q)"
    using getNodeByQuery_keys [OF k] assms(2) by blast
  have l: "length (filter (\<lambda>k. \<not> lookupKeyRead E k) (k # ks)) \<noteq> 0 \<longleftrightarrow> some_missing E (k # ks)"
    by (simp add: some_missing_def filter_empty_conv)
  have ss: "same_slot E (k # ks) \<longleftrightarrow> \<not> (\<exists>k' \<in> set ks. key_slot E k' \<noteq> key_slot E k)"
    "different_keys (k # ks) \<longleftrightarrow> (\<exists>k' \<in> set ks. k' \<noteq> k)"
    by (auto simp: same_slot_def different_keys_def)
  show ?thesis
  proof (cases "slots st ! key_slot E k")
    case None
    then show ?thesis
      unfolding K_def s_def g query_keys_all k list.sel by simp
  next
    case (Some n)
    show ?thesis
    proof (cases "same_slot E (k # ks)")
      case False
      then show ?thesis
        unfolding K_def s_def g query_keys_all k list.sel
        using Some ss(1) by simp
    next
      case True
      then show ?thesis
        unfolding K_def s_def g query_keys_all k list.sel
        using Some ss l by (simp add: serve_query_eq [OF Some, where missing = "some_missing E (k # ks)"] del: filter.simps)
    qed
  qed
qed


definition ex_get :: redisCommand where
  "ex_get = \<lparr>cmd_proc = otherCommand ''get'', CMD_READONLY = True, CMD_ASKING = False\<rparr>"

definition ex_up :: cst where
  "ex_up = ex_init\<lparr>slots := [None, Some 0, Some 1, None, None, None, None, None], cl_state := CLUSTER_OK\<rparr>"


end
