(* ===== verification/Cluster_Health.thy ===== *)
theory Cluster_Health
  imports Cluster_Takeover
begin

text \<open>
  The view of the cluster a node acts on: when the cluster state is up, how a collision of
  configuration epochs is resolved, and that an election with enough votes ends in a takeover.
\<close>

section \<open>The cluster state\<close>

definition covered :: "env \<Rightarrow> cst \<Rightarrow> bool" where
  "covered E st \<longleftrightarrow> (\<forall>j < CLUSTER_SLOTS E. \<exists>n. slots st ! j = Some n \<and> NF_FAIL \<notin> n_flags (nd st n))"

definition majority :: "env \<Rightarrow> cst \<Rightarrow> bool" where
  "majority E st \<longleftrightarrow> length (serving_masters E st)
     < 2 * length (filter (\<lambda>r. n_flags (nd st r) \<inter> {NF_FAIL, NF_PFAIL} = {}) (serving_masters E st))"

definition rejoin_delay :: "env \<Rightarrow> int" where
  "rejoin_delay E = max 500 (min 5000 (cluster_node_timeout E))"

definition first_call :: "env \<Rightarrow> cst \<Rightarrow> int" where
  "first_call E st = (if first_call_time st = 0 then mstime E else first_call_time st)"

lemma slot_uncovered_iff: "slot_uncovered E st \<longleftrightarrow> \<not> covered E st"
  by (force simp: slot_uncovered_def covered_def list_ex_iff has_flag_def split: option.splits)

text \<open>
  C26. After an evaluation of the cluster state it is up exactly when a majority of the masters with
  slots is reachable, every slot has an owner that has not failed (where full coverage is required),
  and the node was up before, or is a slave, or is a master that has waited long enough after its
  start and after the last time it was in a minority.
\<close>

theorem clusterUpdateState_up:
  "cl_state (clusterUpdateState E st) = CLUSTER_OK \<longleftrightarrow>
     majority E st \<and> (cluster_require_full_coverage E \<longrightarrow> covered E st)
     \<and> (cl_state st = CLUSTER_OK \<or> \<not> nodeIsMaster E st (myself st)
        \<or> mstime E - first_call E st \<ge> 2000 \<and> mstime E - among_minority_time st \<ge> rejoin_delay E)"
proof -
  define s1 where "s1 = (let st = st\<lparr>todo_before_sleep := todo_before_sleep st - {TODO_UPDATE_STATE}\<rparr>
    in if first_call_time st = 0 then st\<lparr>first_call_time := mstime E\<rparr> else st)"
  have nd: "nd s1 = nd st" "nodes s1 = nodes st" "slots s1 = slots st" "myself s1 = myself st" "cl_state s1 = cl_state st"
    "first_call_time s1 = first_call E st" "among_minority_time s1 = among_minority_time st"
    by (simp_all add: s1_def first_call_def nd_def fun_eq_iff Let_def)
  have fr: "nodeIsMaster E s1 r = nodeIsMaster E st r" "has_flag s1 r F = has_flag st r F" for r F
    by (simp_all add: nodeIsMaster_def has_flag_def nd)
  have sm: "serving_masters E s1 = serving_masters E st" by (simp add: serving_masters_def fr nd node_refs_def)
  have su: "slot_uncovered E s1 \<longleftrightarrow> \<not> covered E st" by (simp add: slot_uncovered_iff covered_def nd)
  have upd: "nodeIsMaster E (s1\<lparr>cl_size := i\<rparr>) r = nodeIsMaster E st r"
    "nodeIsMaster E (s1\<lparr>cl_size := i, among_minority_time := t\<rparr>) r = nodeIsMaster E st r" for i t r
    by (simp_all add: nodeIsMaster_def nd_def s1_def Let_def)
  have mj: "majority E st \<longleftrightarrow> \<not> int (length (filter (\<lambda>r. \<not> has_flag st r {NF_FAIL, NF_PFAIL}) (serving_masters E st)))
      < int (length (serving_masters E st)) div 2 + 1"
    unfolding majority_def has_flag_def by auto
  have d: "(if (if cluster_node_timeout E > 5000 then 5000 else cluster_node_timeout E) < 500 then 500
      else if cluster_node_timeout E > 5000 then 5000 else cluster_node_timeout E) = rejoin_delay E"
    by (simp add: rejoin_delay_def)
  show ?thesis
    unfolding clusterUpdateState_def Let_def s1_def [unfolded Let_def, symmetric]
      CLUSTER_MAX_REJOIN_DELAY_def CLUSTER_MIN_REJOIN_DELAY_def CLUSTER_WRITABLE_DELAY_def d
    by (cases "cl_state st") (auto simp: nd fr sm su upd mj)
qed

definition ex_healthy :: cst where
  "ex_healthy = upd_node 1 (\<lambda>n. n\<lparr>n_flags := {NF_MASTER}, n_numslots := 8\<rparr>) (ex_fo\<lparr>slots := replicate 8 (Some 1)\<rparr>)"

theorem clusterUpdateState_up_witness:
  "cl_state ex_healthy = CLUSTER_FAIL \<and> cl_state (clusterUpdateState ex_env ex_healthy) = CLUSTER_OK"
proof -
  have f: "cl_state ex_healthy = CLUSTER_FAIL" "majority ex_env ex_healthy" "nodeIsMaster ex_env ex_healthy (myself ex_healthy) = False"
    by code_simp+
  have "nd ex_healthy 1 = ex_master\<lparr>n_flags := {NF_MASTER}, n_numslots := 8\<rparr>" "slots ex_healthy = replicate 8 (Some 1)"
    by (simp_all add: ex_healthy_def)
  then have "covered ex_env ex_healthy" by (simp add: covered_def ex_env_simps)
  with f show ?thesis using clusterUpdateState_up [of ex_env ex_healthy] by blast
qed

section \<open>Collisions of configuration epochs\<close>

lemma memcmp_less_total: "length xs = length ys \<Longrightarrow> xs \<noteq> ys \<Longrightarrow> memcmp_less xs ys \<longleftrightarrow> \<not> memcmp_less ys xs"
proof (induction xs ys rule: list_induct2)
  case (Cons x xs y ys)
  have "x = y \<or> (of_char x :: nat) < of_char y \<or> (of_char y :: nat) < of_char x" by (metis char_of_char linorder_neqE_nat)
  with Cons show ?case by (cases "x = y") auto
qed simp

lemma save_nd [simp]: "nd (clusterSaveConfigOrDie E b st) = nd st"
  by (auto simp: clusterSaveConfigOrDie_def clusterSaveConfig_def Let_def split_beta nd_def emit_def fun_eq_iff)

lemma collision_epoch:
  assumes "nodeIsMaster E st (myself st)" "nodeIsMaster E st s" "n_configEpoch (nd st s) = n_configEpoch (nd st (myself st))"
  shows "n_configEpoch (nd (clusterHandleConfigEpochCollision E s st) (myself st))
    = (if memcmp_less (n_name (nd st (myself st))) (n_name (nd st s)) then currentEpoch st + 1
       else n_configEpoch (nd st (myself st)))"
proof -
  have "nd (st\<lparr>currentEpoch := c\<rparr>) = nd st" for c by (simp add: nd_def fun_eq_iff)
  with assms show ?thesis by (simp add: clusterHandleConfigEpochCollision_def Let_def set_my_epoch_def)
qed

text \<open>
  C36. When two masters find the same configuration epoch in each other, exactly one of them, the one
  whose name is smaller, moves to a new epoch, which is greater; the other one keeps its epoch. So the
  collision ends after one exchange. (The states of the two nodes are independent; neither epoch may
  be at the end of its range.)
\<close>

theorem epoch_collision_resolved:
  assumes A: "nodeIsMaster E stA (myself stA)" "nodeIsMaster E stA b" "n_name (nd stA (myself stA)) = nA" "n_name (nd stA b) = nB"
      "n_configEpoch (nd stA (myself stA)) = e" "n_configEpoch (nd stA b) = e" "e \<le> currentEpoch stA" "currentEpoch stA \<noteq> - 1"
    and B: "nodeIsMaster E' stB (myself stB)" "nodeIsMaster E' stB a" "n_name (nd stB (myself stB)) = nB" "n_name (nd stB a) = nA"
      "n_configEpoch (nd stB (myself stB)) = e" "n_configEpoch (nd stB a) = e" "e \<le> currentEpoch stB" "currentEpoch stB \<noteq> - 1"
    and "length nA = length nB" "nA \<noteq> nB"
  defines "eA \<equiv> n_configEpoch (nd (clusterHandleConfigEpochCollision E b stA) (myself stA))"
    and "eB \<equiv> n_configEpoch (nd (clusterHandleConfigEpochCollision E' a stB) (myself stB))"
  shows "if memcmp_less nA nB then eB = e \<and> e < eA else eA = e \<and> e < eB"
proof -
  have up: "x \<noteq> - 1 \<Longrightarrow> e \<le> x \<Longrightarrow> e < x + 1" for x :: epoch
    using inc_less_eq_self_iff_eq [of x] by (meson leI le_less_trans less_le_not_le)
  show ?thesis
    using memcmp_less_total [OF assms(17,18)] up [OF A(8,7)] up [OF B(8,7)] A B
    unfolding eA_def eB_def by (simp add: collision_epoch)
qed

definition ex_equal :: cst where
  "ex_equal = ex_fo\<lparr>nodes_mem := (\<lambda>x. if x = 0 then ex_node0 else ex_node0\<lparr>n_name := ''n1'', n_flags := {NF_MASTER}\<rparr>)\<rparr>"

theorem epoch_collision_resolved_witness:
  "n_configEpoch (nd (clusterHandleConfigEpochCollision ex_env 0 (ex_equal\<lparr>myself := 1\<rparr>)) 1) = 0
    \<and> 0 < n_configEpoch (nd (clusterHandleConfigEpochCollision ex_env 1 ex_equal) 0)"
proof -
  have n: "nodeIsMaster ex_env ex_equal r" "nodeIsMaster ex_env (ex_equal\<lparr>myself := Suc 0\<rparr>) r" "nodeIsMaster ex_env (ex_equal\<lparr>myself := 1\<rparr>) r"
    "n_configEpoch (nd ex_equal r) = 0" "n_configEpoch (nd (ex_equal\<lparr>myself := 1\<rparr>) r) = 0"
    "n_name (nd ex_equal 0) = ''n0''" "n_name (nd ex_equal 1) = ''n1''" "myself ex_equal = 0" "currentEpoch ex_equal = 0" for r
    by (simp_all add: nodeIsMaster_def ex_equal_def nd_def ex_env_def ex_node0_def blank_node_def ex_fo_def ex_states)
  have "memcmp_less ''n0'' ''n1''" by code_simp
  then show ?thesis
    using epoch_collision_resolved [of ex_env ex_equal 1 "''n0''" "''n1''" 0 ex_env "ex_equal\<lparr>myself := 1\<rparr>" 0]
    by (simp add: n n(7) [unfolded One_nat_def])
qed

section \<open>Elections\<close>

text \<open>
  C23. An election with enough votes ends in the takeover: when a slave whose master has failed, whose
  data is recent and whose request for votes is not expired has the votes of a majority, the next
  run of the failover handler makes it a master that owns exactly the slots of its old master
  besides its own, at a configuration epoch not below the epoch of the election.
\<close>

theorem election_won:
  assumes "slots_ok N st" and "env_ok N M E" and "myself st < next_ref st" and "m < next_ref st"
    and "n_slaveof (nd st (myself st)) = Some m" and "m \<noteq> myself st" and "\<not> nodeIsMaster E st (myself st)"
    and "nodeFailed E st m" and "n_numslots (nd st m) \<noteq> 0" and "\<not> data_too_old E"
    and "failover_auth_sent st" and "failover_auth_time st \<le> mstime E"
    and "mstime E - failover_auth_time st \<le> auth_timeout E"
    and "cl_size st < 2 * failover_auth_count st"
  defines "st' \<equiv> clusterHandleSlaveFailover E st"
  shows "(\<forall>j < N. slots st' ! j = (if slots st ! j = Some m then Some (myself st) else slots st ! j))
    \<and> nodeIsMaster E st' (myself st) \<and> n_slaveof (nd st' (myself st)) = None
    \<and> failover_auth_epoch st \<le> n_configEpoch (nd st' (myself st))"
proof -
  define s1 where "s1 = st\<lparr>todo_before_sleep := todo_before_sleep st - {TODO_HANDLE_FAILOVER}\<rparr>"
  define s2 where "s2 = (if n_configEpoch (nd s1 (myself s1)) < failover_auth_epoch s1
               then set_my_epoch (failover_auth_epoch s1) s1 else s1)"
  have q: "cl_size st div 2 + 1 \<le> failover_auth_count st" using assms(14) by linarith
  have t: "auth_timeout E \<ge> 2000" by (simp add: auth_timeout_def)
  have "\<not> no_failover_reason E b s1" for b
    using assms(5,7,8,9) by (simp add: no_failover_reason_def s1_def nodeIsMaster_def nodeFailed_def nd_def)
  moreover have "adjust_rank E s1 = s1" using assms(11) by (simp add: adjust_rank_def s1_def)
  ultimately have st': "st' = clusterFailoverReplaceYourMaster E s2"
    using assms(10-13) q t unfolding st'_def clusterHandleSlaveFailover_def Let_def s1_def [symmetric] win_election_def s2_def
    by (simp add: s1_def)
  have c: "slots s2 = slots st" "next_ref s2 = next_ref st" "myself s2 = myself st"
    "n_slaveof (nd s2 r) = n_slaveof (nd st r)" "n_flags (nd s2 r) = n_flags (nd st r)"
    "n_slots (nd s2 r) = n_slots (nd st r)" "n_numslots (nd s2 r) = n_numslots (nd st r)" for r
    by (simp_all add: s2_def s1_def set_my_epoch_def nd_def upd_node_def)
  have "slots_ok N s2" using assms(1) by (simp add: slots_ok_def c owned_def)
  then have "(\<forall>j < N. slots st' ! j = (if slots s2 ! j = Some m then Some (myself s2) else slots s2 ! j))
    \<and> n_numslots (nd st' m) = 0 \<and> nodeIsMaster E st' (myself s2) \<and> \<not> nodeIsSlave E st' (myself s2)
    \<and> n_slaveof (nd st' (myself s2)) = None \<and> n_configEpoch (nd st' (myself s2)) = n_configEpoch (nd s2 (myself s2))"
    unfolding st' using assms(2-7) by (intro replace_your_master) (simp_all add: c nodeIsMaster_def)
  moreover have "failover_auth_epoch st \<le> n_configEpoch (nd s2 (myself st))"
    by (auto simp: s2_def s1_def set_my_epoch_def nd_def upd_node_def)
  ultimately show ?thesis by (simp add: c)
qed

definition ex_elected :: cst where
  "ex_elected = ex_fo\<lparr>failover_auth_sent := True, failover_auth_time := 95000, failover_auth_count := 2,
     failover_auth_epoch := 7, cl_size := 3\<rparr>"

theorem election_won_witness:
  "slots (clusterHandleSlaveFailover ex_env ex_elected) ! 2 = Some 0
    \<and> nodeIsMaster ex_env (clusterHandleSlaveFailover ex_env ex_elected) 0
    \<and> 7 \<le> n_configEpoch (nd (clusterHandleSlaveFailover ex_env ex_elected) 0)"
proof -
  have d: "nd ex_elected = nd ex_fo" "slots ex_elected = slots ex_fo" "next_ref ex_elected = 2" "myself ex_elected = 0"
    by (simp_all add: ex_elected_def nd_def fun_eq_iff)
  have so: "slots_ok 8 ex_elected" using ex_fo_slots by (simp add: slots_ok_def owned_def d)
  have fl: "\<not> nodeIsMaster ex_env ex_elected 0" "nodeFailed ex_env ex_elected 1" "\<not> data_too_old ex_env"
    "n_numslots (nd ex_elected 1) \<noteq> 0" "n_slaveof (nd ex_elected 0) = Some 1"
    by (simp_all add: nodeIsMaster_def nodeFailed_def d ex_slave_def ex_master_def ex_node0_def ex_env_def data_too_old_def data_age_def)
  have t: "failover_auth_sent ex_elected" "failover_auth_time ex_elected \<le> mstime ex_env"
    "mstime ex_env - failover_auth_time ex_elected \<le> auth_timeout ex_env"
    "cl_size ex_elected < 2 * failover_auth_count ex_elected" "failover_auth_epoch ex_elected = 7"
    by (simp_all add: ex_elected_def ex_env_def auth_timeout_def)
  show ?thesis
    using election_won [OF so ex_env_ok, of 1] fl t by (simp add: d)
qed

end
