(* ===== verification/Cluster_Link.thy ===== *)
theory Cluster_Link
  imports Cluster_Example
begin

text \<open>
  The socket handlers of the cluster bus (\<open>clusterReadHandler\<close> and \<open>clusterWriteHandler\<close> of
  \<^verbatim>\<open>examples/cluster.c\<close>). The bytes that have arrived on a socket are a list of chunks; a read takes
  at most the bytes asked for from the first chunk. The layout of a packet is declared in a header
  that is not in the repository: the signature, the length field and the decoding of a packet are
  the fields of \<open>wire\<close>, and \<open>wire_ok\<close> says what the code relies on.
\<close>

section \<open>Sockets and packets\<close>

type_synonym byte = "8 word"

record wire =
  w_sig :: "byte list \<Rightarrow> string"
  w_totlen :: "byte list \<Rightarrow> nat"
  w_decode :: "byte list \<Rightarrow> clusterMsg"
  w_min_len :: nat
  w_bufsize :: nat

text \<open>What a read gives when no byte is left: nothing for now, the end of the stream, or an error.\<close>

datatype sock_end = EAGAIN | EOF | ReadError

datatype read_result = ReadBytes "byte list" | ReadEnd sock_end

fun sock_read :: "nat \<Rightarrow> sock_end \<Rightarrow> byte list list \<Rightarrow> read_result \<times> byte list list" where
  "sock_read n fin [] = (ReadEnd fin, [])"
| "sock_read n fin ([] # cs) = sock_read n fin cs"
| "sock_read n fin ((b # bs) # cs) = (ReadBytes (take n (b # bs)), drop n (b # bs) # cs)"

text \<open>The link stays with a receive buffer, or it is gone.\<close>

datatype link_status = LinkOpen "byte list" | LinkGone

section \<open>Reading\<close>

text \<open>The number of bytes to ask for, an unsigned difference, or \<open>None\<close> for a bad header.\<close>

definition read_length :: "wire \<Rightarrow> byte list \<Rightarrow> nat option" where
  "read_length W rcvbuf =
     (let rcvbuflen = length rcvbuf in
      if rcvbuflen < 8 then Some (8 - rcvbuflen)
      else if rcvbuflen = 8 \<and> (w_sig W rcvbuf \<noteq> ''RCmb'' \<or> w_totlen W rcvbuf < w_min_len W) then None
      else Some (min ((w_totlen W rcvbuf + 2 ^ 32 - rcvbuflen) mod 2 ^ 32) (w_bufsize W)))"

lemma sock_read_size:
  "sock_read n fin cs = (ReadBytes bs, cs') \<Longrightarrow> length (concat cs') + length bs = length (concat cs)"
  by (induction n fin cs rule: sock_read.induct) auto

function clusterReadHandler ::
  "wire \<Rightarrow> env \<Rightarrow> lref \<Rightarrow> sock_end \<Rightarrow> byte list list \<Rightarrow> byte list \<Rightarrow> cst \<Rightarrow> link_status \<times> cst" where
  "clusterReadHandler W E link fin cs rcvbuf st =
     (case read_length W rcvbuf of
        None \<Rightarrow> (LinkGone, handleLinkIOError link st)
      | Some readlen \<Rightarrow>
          (case sock_read readlen fin cs of
             (ReadEnd EAGAIN, cs') \<Rightarrow> (LinkOpen rcvbuf, st)
           | (ReadEnd _, cs') \<Rightarrow> (LinkGone, handleLinkIOError link st)
           | (ReadBytes [], cs') \<Rightarrow> (LinkGone, handleLinkIOError link st)
           | (ReadBytes (b # bs), cs') \<Rightarrow>
               let rcvbuf = rcvbuf @ b # bs in
               if length rcvbuf \<ge> 8 \<and> length rcvbuf = w_totlen W rcvbuf then
                 (case clusterProcessPacket E (w_decode W rcvbuf) (length rcvbuf) link st of
                    (True, st) \<Rightarrow> clusterReadHandler W E link fin cs' [] st
                  | (False, st) \<Rightarrow> (LinkGone, st))
               else clusterReadHandler W E link fin cs' rcvbuf st))"
  by pat_completeness auto
termination
  by (relation "measure (\<lambda>(W, E, link, fin, cs, rcvbuf, st). length (concat cs))")
    (auto dest: sock_read_size [OF sym])

declare clusterReadHandler.simps [simp del]

section \<open>Writing\<close>

text \<open>
  The outcome of \<open>write\<close> on the send buffer: the link is gone, or the rest of the buffer, with
  whether the write event stays registered.
\<close>

definition clusterWriteHandler :: "int \<Rightarrow> lref \<Rightarrow> byte list \<Rightarrow> cst \<Rightarrow> (byte list \<times> bool) option \<times> cst" where
  "clusterWriteHandler nwritten link sndbuf st =
     (if nwritten \<le> 0 then (None, handleLinkIOError link st)
      else let sndbuf = drop (nat nwritten) sndbuf in (Some (sndbuf, sndbuf \<noteq> []), st))"

section \<open>The packets of a stream\<close>

text \<open>
  The specification: cut the whole stream into packets by their length field. A packet of
  exactly 8 bytes is handed over before its signature and its length are looked at.
\<close>

function stream_packets :: "wire \<Rightarrow> env \<Rightarrow> lref \<Rightarrow> sock_end \<Rightarrow> byte list \<Rightarrow> cst \<Rightarrow> link_status \<times> cst" where
  "stream_packets W E link fin bs st =
     (if 8 \<le> length bs \<and> w_totlen W bs \<noteq> 8 \<and> (w_sig W bs \<noteq> ''RCmb'' \<or> w_totlen W bs < w_min_len W)
      then (LinkGone, handleLinkIOError link st)
      else if length bs < 8 \<or> length bs < w_totlen W bs \<or> w_totlen W bs = 0
      then (if fin = EAGAIN then (LinkOpen bs, st) else (LinkGone, handleLinkIOError link st))
      else (case clusterProcessPacket E (w_decode W (take (w_totlen W bs) bs)) (w_totlen W bs) link st of
          (True, st) \<Rightarrow> stream_packets W E link fin (drop (w_totlen W bs) bs) st
        | (False, st) \<Rightarrow> (LinkGone, st)))"
  by pat_completeness auto
termination
  by (relation "measure (\<lambda>(W, E, link, fin, bs, st). length bs)") auto

declare stream_packets.simps [simp del]

text \<open>The header is in the first 8 bytes, a valid length is longer, and the buffer is not empty.\<close>

definition wire_ok :: "wire \<Rightarrow> bool" where
  "wire_ok W \<longleftrightarrow> 8 < w_min_len W \<and> 0 < w_bufsize W
     \<and> (\<forall>bs. w_totlen W bs < 2 ^ 32)
     \<and> (\<forall>bs. 8 \<le> length bs \<longrightarrow> w_totlen W (take 8 bs) = w_totlen W bs \<and> w_sig W (take 8 bs) = w_sig W bs)"

text \<open>A receive buffer between two reads: part of a header, or a packet whose header was read.\<close>

definition partial_packet :: "wire \<Rightarrow> byte list \<Rightarrow> bool" where
  "partial_packet W rcvbuf \<longleftrightarrow> length rcvbuf < 8
     \<or> (length rcvbuf = 8 \<and> w_totlen W rcvbuf \<noteq> 8)
     \<or> (8 < length rcvbuf \<and> length rcvbuf < w_totlen W rcvbuf \<and> w_sig W rcvbuf = ''RCmb'' \<and> w_min_len W \<le> w_totlen W rcvbuf)"

lemma sock_read_spec:
  assumes "0 < n"
  shows "(case sock_read n fin cs of
      (ReadEnd e, cs') \<Rightarrow> e = fin \<and> concat cs = []
    | (ReadBytes bs, cs') \<Rightarrow> bs \<noteq> [] \<and> length bs \<le> n \<and> concat cs = bs @ concat cs')"
  using assms by (induction n fin cs rule: sock_read.induct) (auto simp: take_Cons' drop_Cons' split: read_result.splits)

lemma wire_prefix:
  assumes "wire_ok W" "8 \<le> length bs"
  shows "w_totlen W (bs @ cs) = w_totlen W bs" "w_sig W (bs @ cs) = w_sig W bs"
proof -
  have "take 8 (bs @ cs) = take 8 bs" using assms(2) by simp
  moreover have "\<And>xs. 8 \<le> length xs \<Longrightarrow> w_totlen W (take 8 xs) = w_totlen W xs \<and> w_sig W (take 8 xs) = w_sig W xs"
    using assms(1) unfolding wire_ok_def by blast
  ultimately show "w_totlen W (bs @ cs) = w_totlen W bs" "w_sig W (bs @ cs) = w_sig W bs"
    using assms(2) by (metis length_append trans_le_add1)+
qed

text \<open>The header of a partial packet that has one is known to be good after the check.\<close>

definition good_header :: "wire \<Rightarrow> byte list \<Rightarrow> bool" where
  "good_header W bs \<longleftrightarrow> w_sig W bs = ''RCmb'' \<and> w_min_len W \<le> w_totlen W bs"

lemma read_length_cases:
  assumes "wire_ok W" "partial_packet W rcvbuf"
  obtains (header) "length rcvbuf < 8" "read_length W rcvbuf = Some (8 - length rcvbuf)"
  | (bad) "length rcvbuf = 8" "\<not> good_header W rcvbuf" "w_totlen W rcvbuf \<noteq> 8" "read_length W rcvbuf = None"
  | (body) n where "8 \<le> length rcvbuf" "good_header W rcvbuf" "length rcvbuf < w_totlen W rcvbuf"
      "read_length W rcvbuf = Some n" "0 < n" "n \<le> w_totlen W rcvbuf - length rcvbuf"
proof -
  consider "length rcvbuf < 8" | "length rcvbuf = 8" "\<not> good_header W rcvbuf" | "8 \<le> length rcvbuf" "good_header W rcvbuf"
    using assms(2) by (fastforce simp: partial_packet_def good_header_def)
  then show ?thesis
  proof cases
    case 1
    then show ?thesis by (intro header) (simp_all add: read_length_def)
  next
    case 2
    then show ?thesis
      by (intro bad) (use assms(2) in \<open>auto simp: read_length_def good_header_def partial_packet_def\<close>)
  next
    case 3
    then have less: "length rcvbuf < w_totlen W rcvbuf"
      using assms by (auto simp: partial_packet_def good_header_def wire_ok_def)
    have "w_totlen W rcvbuf < 2 ^ 32" using assms(1) by (simp add: wire_ok_def)
    with less have "(w_totlen W rcvbuf + 2 ^ 32 - length rcvbuf) mod 2 ^ 32 = w_totlen W rcvbuf - length rcvbuf"
      by (simp add: mod_if)
    with 3 less assms(1) show ?thesis
      by (intro body [of "min (w_totlen W rcvbuf - length rcvbuf) (w_bufsize W)"])
        (auto simp: read_length_def good_header_def wire_ok_def)
  qed
qed

lemma stream_packets_wait:
  "length bs < 8 \<or> (good_header W bs \<and> length bs < w_totlen W bs) \<Longrightarrow>
    stream_packets W E link fin bs st = (if fin = EAGAIN then (LinkOpen bs, st) else (LinkGone, handleLinkIOError link st))"
  by (subst stream_packets.simps) (auto simp: good_header_def)

lemma stream_packets_packet:
  assumes "wire_ok W" "8 \<le> length bs" "length bs = w_totlen W bs" "length bs = 8 \<or> good_header W bs"
  shows "stream_packets W E link fin (bs @ cs) st =
    (case clusterProcessPacket E (w_decode W bs) (length bs) link st of
       (True, st) \<Rightarrow> stream_packets W E link fin cs st | (False, st) \<Rightarrow> (LinkGone, st))"
proof -
  note pre = wire_prefix [OF assms(1,2), of cs]
  have good: "\<not> (8 \<le> length (bs @ cs) \<and> w_totlen W (bs @ cs) \<noteq> 8
      \<and> (w_sig W (bs @ cs) \<noteq> ''RCmb'' \<or> w_totlen W (bs @ cs) < w_min_len W))"
    using pre assms(3,4) by (auto simp: good_header_def)
  have whole: "\<not> (length (bs @ cs) < 8 \<or> length (bs @ cs) < w_totlen W (bs @ cs) \<or> w_totlen W (bs @ cs) = 0)"
    using pre assms(2,3) by simp
  have cut: "w_totlen W (bs @ cs) = length bs" using pre assms(3) by simp
  have parts: "take (length bs) (bs @ cs) = bs" "drop (length bs) (bs @ cs) = cs" by simp_all
  show ?thesis
    unfolding stream_packets.simps [of W E link fin "bs @ cs" st] if_not_P [OF good] if_not_P [OF whole]
    unfolding cut parts ..
qed

lemma stream_packets_bad:
  assumes "wire_ok W" "8 \<le> length bs" "w_totlen W bs \<noteq> 8" "\<not> good_header W bs"
  shows "stream_packets W E link fin (bs @ cs) st = (LinkGone, handleLinkIOError link st)"
  using assms wire_prefix [OF assms(1,2), of cs]
  by (subst stream_packets.simps) (auto simp: good_header_def)

text \<open>What a read adds keeps the buffer partial or completes the packet.\<close>

lemma partial_packet_read:
  assumes "wire_ok W" "partial_packet W rcvbuf" "read_length W rcvbuf = Some n" "length bs \<le> n" "bs \<noteq> []"
  shows "if 8 \<le> length (rcvbuf @ bs) \<and> length (rcvbuf @ bs) = w_totlen W (rcvbuf @ bs)
    then length (rcvbuf @ bs) = 8 \<or> good_header W (rcvbuf @ bs)
    else partial_packet W (rcvbuf @ bs)"
  using assms(1,2)
proof (cases rule: read_length_cases)
  case header
  with assms(3-5) show ?thesis by (auto simp: partial_packet_def)
next
  case bad
  with assms(3) show ?thesis by simp
next
  case (body m)
  with assms(3-5) wire_prefix [OF assms(1) body(1), of bs] show ?thesis
    by (auto simp: partial_packet_def good_header_def)
qed

lemma read_handler_stream:
  assumes W: "wire_ok W"
  shows "partial_packet W rcvbuf \<Longrightarrow>
    clusterReadHandler W E link fin cs rcvbuf st = stream_packets W E link fin (rcvbuf @ concat cs) st"
proof (induction "length (concat cs)" arbitrary: cs rcvbuf st rule: less_induct)
  case less
  note step = clusterReadHandler.simps [of W E link fin cs rcvbuf st]
  show ?case
  proof (cases "read_length W rcvbuf")
    case None
    from W less.prems show ?thesis
    proof (cases rule: read_length_cases)
      case bad
      with stream_packets_bad [OF W, of rcvbuf] show ?thesis by (subst step) simp
    qed (use None in simp_all)
  next
    case (Some n)
    from W less.prems have n: "0 < n" "concat cs = [] \<Longrightarrow> length rcvbuf < 8 \<or> (good_header W rcvbuf \<and> length rcvbuf < w_totlen W rcvbuf)"
      by (cases rule: read_length_cases; use Some in simp)+
    note spec = sock_read_spec [OF n(1), where fin = fin and cs = cs]
    show ?thesis
    proof (cases "sock_read n fin cs")
      case (Pair res cs')
      show ?thesis
      proof (cases res)
        case (ReadEnd e)
        with spec Pair n(2) have "e = fin" "concat cs = []"
          "length rcvbuf < 8 \<or> (good_header W rcvbuf \<and> length rcvbuf < w_totlen W rcvbuf)" by simp_all
        note ended = this
        then have all: "rcvbuf @ concat cs = rcvbuf" by simp
        show ?thesis unfolding all stream_packets_wait [OF ended(3)]
          using Some Pair ReadEnd ended(1) by (subst step) (cases fin; simp)
      next
        case (ReadBytes bs)
        with spec Pair have bs: "bs \<noteq> []" "length bs \<le> n" "concat cs = bs @ concat cs'" by simp_all
        have IH: "partial_packet W buf \<Longrightarrow> clusterReadHandler W E link fin cs' buf st' =
            stream_packets W E link fin (buf @ concat cs') st'" for buf st'
          using less.hyps [of cs'] bs(1,3) by simp
        note next_buf = partial_packet_read [OF W less.prems Some bs(2,1)]
        have eq: "clusterReadHandler W E link fin cs rcvbuf st =
          (if 8 \<le> length (rcvbuf @ bs) \<and> length (rcvbuf @ bs) = w_totlen W (rcvbuf @ bs) then
             (case clusterProcessPacket E (w_decode W (rcvbuf @ bs)) (length (rcvbuf @ bs)) link st of
                (True, st) \<Rightarrow> clusterReadHandler W E link fin cs' [] st
              | (False, st) \<Rightarrow> (LinkGone, st))
           else clusterReadHandler W E link fin cs' (rcvbuf @ bs) st)"
          using Some Pair ReadBytes bs(1) by (subst step) (simp add: Let_def split: list.split)
        have all: "rcvbuf @ concat cs = (rcvbuf @ bs) @ concat cs'" using bs(3) by simp
        show ?thesis
        proof (cases "8 \<le> length (rcvbuf @ bs) \<and> length (rcvbuf @ bs) = w_totlen W (rcvbuf @ bs)")
          case True
          with next_buf have "length (rcvbuf @ bs) = 8 \<or> good_header W (rcvbuf @ bs)" by presburger
          from stream_packets_packet [OF W conjunct1 [OF True] conjunct2 [OF True] this]
          show ?thesis unfolding eq all if_P [OF True] using IH [of "[]"]
            by (simp add: partial_packet_def split: prod.split bool.split)
        next
          case False
          with next_buf have "partial_packet W (rcvbuf @ bs)" by presburger
          from IH [OF this] show ?thesis unfolding eq all if_not_P [OF False] .
        qed
      qed
    qed
  qed
qed

text \<open>
  C8. The bytes that come in on a link of the cluster bus are processed as one stream: however
  the network cuts them, \<open>clusterReadHandler\<close> hands the same packets to \<open>clusterProcessPacket\<close>
  in the same order as cutting the whole stream by the length fields, drops the link at the same
  bad header or end, and otherwise keeps the same unfinished packet in the buffer.
\<close>

theorem read_handler_frames:
  assumes "wire_ok W" "partial_packet W rcvbuf"
  shows "clusterReadHandler W E link fin cs rcvbuf st = stream_packets W E link fin (rcvbuf @ concat cs) st
    \<and> (\<forall>cs'. concat cs' = concat cs \<longrightarrow>
          clusterReadHandler W E link fin cs' rcvbuf st = clusterReadHandler W E link fin cs rcvbuf st)"
  using read_handler_stream [OF assms] by simp_all

text \<open>A wire format with four bytes of signature and a length of four bytes in network order.\<close>

definition ex_ping :: clusterMsg where
  "ex_ping = \<lparr>m_totlen = 12, m_ver = 1, m_type = PING, m_count = 0, m_sender = ''n1'', m_myslots = [0],
     m_slaveof = [], m_myip = [], m_port = 0, m_cport = 0, m_flags = {}, m_state = CLUSTER_OK, m_paused = False,
     m_forceack = False, m_currentEpoch = 0, m_configEpoch = 0, m_offset = 0, m_data = Gossip []\<rparr>"

definition ex_wire :: wire where
  "ex_wire = \<lparr>w_sig = (\<lambda>bs. map (\<lambda>b. char_of (unat b)) (take 4 bs)),
     w_totlen = (\<lambda>bs. foldl (\<lambda>n b. 256 * n + unat b) 0 (take 4 (drop 4 bs))),
     w_decode = (\<lambda>_. ex_ping), w_min_len = 12, w_bufsize = 16\<rparr>"

lemma foldl_bytes: "foldl (\<lambda>n b. 256 * n + unat b) k (bs :: byte list) < (k + 1) * 256 ^ length bs"
proof (induction bs arbitrary: k)
  case (Cons b bs)
  have "unat b < 256" using unsigned_less [of b, where 'a = nat] by simp
  then have "256 * k + unat b + 1 \<le> (k + 1) * 256" by simp
  then have "(256 * k + unat b + 1) * 256 ^ length bs \<le> (k + 1) * 256 * 256 ^ length bs"
    by (rule mult_le_mono1)
  moreover have "foldl (\<lambda>n b. 256 * n + unat b) k (b # bs) < (256 * k + unat b + 1) * 256 ^ length bs"
    using Cons.IH [of "256 * k + unat b"] by simp
  ultimately show ?case by (simp only: length_Cons power_Suc mult.assoc)
qed simp

lemma ex_wire_ok: "wire_ok ex_wire"
proof -
  have "foldl (\<lambda>n b. 256 * n + unat b) 0 (take 4 xs) < 2 ^ 32" for xs :: "byte list"
  proof -
    have "foldl (\<lambda>n b. 256 * n + unat b) 0 (take 4 xs) < 256 ^ length (take 4 xs)"
      using foldl_bytes [of 0 "take 4 xs"] by simp
    also have "\<dots> \<le> 256 ^ 4" by (rule power_increasing) simp_all
    finally show ?thesis by simp
  qed
  then show ?thesis by (simp add: wire_ok_def ex_wire_def drop_take min_def)
qed

definition ex_chunks :: "byte list list" where
  "ex_chunks = [[67], [109, 98, 0, 0, 0], [12, 1, 2, 3], [4, 82]]"

lemma ex_wire_simps:
  "w_totlen ex_wire [82, 67, 109, 98, 0, 0, 0, 12, 1, 2, 3, 4] = 12"
  "w_sig ex_wire [82, 67, 109, 98, 0, 0, 0, 12, 1, 2, 3, 4] = ''RCmb''"
  "w_decode ex_wire bs = ex_ping" "w_min_len ex_wire = 12"
  by (simp_all add: ex_wire_def char_of_def bit_numeral_simps bit_0)

lemma ex_ping_short: "fst (clusterProcessPacket ex_env ex_ping 12 0 ex_init)"
  by (simp add: clusterProcessPacket_def packet_ok_def ex_ping_def ex_env_def)

lemma ex_stream: "fst (stream_packets ex_wire ex_env 0 EAGAIN ([82] @ concat ex_chunks) ex_init) = LinkOpen [82]"
proof -
  let ?p = "[82, 67, 109, 98, 0, 0, 0, 12, 1, 2, 3, 4] :: byte list"
  have "stream_packets ex_wire ex_env 0 EAGAIN (?p @ [82]) ex_init =
      (case clusterProcessPacket ex_env ex_ping 12 0 ex_init of
         (True, st) \<Rightarrow> stream_packets ex_wire ex_env 0 EAGAIN [82] st | (False, st) \<Rightarrow> (LinkGone, st))"
    by (subst stream_packets_packet [OF ex_wire_ok]) (simp_all add: ex_wire_simps good_header_def numeral_eq_Suc)
  with ex_ping_short show ?thesis
    by (cases "clusterProcessPacket ex_env ex_ping 12 0 ex_init") (simp add: ex_chunks_def stream_packets_wait)
qed

theorem read_handler_frames_witness:
  "wire_ok ex_wire \<and> partial_packet ex_wire [82]
     \<and> fst (clusterReadHandler ex_wire ex_env 0 EAGAIN ex_chunks [82] ex_init) = LinkOpen [82]
     \<and> clusterReadHandler ex_wire ex_env 0 EAGAIN [concat ex_chunks] [82] ex_init =
         clusterReadHandler ex_wire ex_env 0 EAGAIN ex_chunks [82] ex_init"
proof -
  have p: "partial_packet ex_wire [82]" by (simp add: partial_packet_def)
  show ?thesis
    using read_handler_frames [OF ex_wire_ok p, of ex_env 0 EAGAIN ex_chunks ex_init] ex_stream ex_wire_ok p
    by (auto simp del: append_Cons append_Nil)
qed

end
