(* ===== verification/Parser_Versions.thy ===== *)
theory Parser_Versions
  imports Prelude "HOL-Library.Sublist"
begin

text \<open>
  The decisions of the generalised LR parser in \<^verbatim>\<open>examples/parser.c\<close>: which subtrees can be
  reused, which of two trees and which of the stack versions survive
  (\<open>parser__select_tree\<close>, \<open>parser__better_version_exists\<close>, \<open>parser__condense_stack\<close>).

  The graph-structured stack, the parse tables and the comparison of error statuses are other
  files of tree-sitter: they are the fields of \<open>stack_api\<close> and \<open>language_api\<close>. What the code
  relies on of the stack is \<open>stack_ok\<close>: the stack is seen as the list of its versions, each with
  its error status and whether it is halted.
\<close>

unbundle bit_operations_syntax

section \<open>Data\<close>

type_synonym TSSymbol = nat
type_synonym TSStateId = nat

record TSLexMode =
  lex_state :: nat
  external_lex_state :: nat

text \<open>The fields of a tree that the functions below read.\<close>

record Tree =
  tree_symbol :: TSSymbol
  tree_extra :: bool
  tree_child_count :: nat
  tree_error_cost :: nat
  tree_size_bytes :: nat
  tree_total_bytes :: "32 word"
  first_leaf_lex_mode :: TSLexMode

record TableEntry =
  is_reusable :: bool
  depends_on_lookahead :: bool

datatype TSParseActionType = Shift | Reduce | Accept | Recover

record TSParseAction =
  act_type :: TSParseActionType
  act_symbol :: TSSymbol
  act_child_count :: "32 word"

text \<open>The fields of an error status that the parser reads; other fields are the extension.\<close>

record ErrorStatus =
  es_count :: nat
  es_cost :: nat

record ('s, 'e) stack_api =
  ts_stack_version_count :: "'s \<Rightarrow> nat"
  ts_stack_is_halted :: "'s \<Rightarrow> nat \<Rightarrow> bool"
  ts_stack_error_status :: "'s \<Rightarrow> nat \<Rightarrow> 'e ErrorStatus_scheme"
  ts_stack_remove_version :: "'s \<Rightarrow> nat \<Rightarrow> 's"
  ts_stack_merge :: "'s \<Rightarrow> nat \<Rightarrow> nat \<Rightarrow> bool \<times> 's"
  ts_stack_halt :: "'s \<Rightarrow> nat \<Rightarrow> 's"
  error_status_compare :: "'e ErrorStatus_scheme \<Rightarrow> 'e ErrorStatus_scheme \<Rightarrow> int"

record language_api =
  ERROR_STATE :: TSStateId
  ts_language_next_state :: "TSStateId \<Rightarrow> TSSymbol \<Rightarrow> TSStateId"
  ts_language_actions :: "TSStateId \<Rightarrow> TSSymbol \<Rightarrow> TSParseAction list"
  lex_modes :: "TSStateId \<Rightarrow> TSLexMode"

section \<open>Reuse and choice of trees\<close>

definition ts_lex_mode_eq :: "TSLexMode \<Rightarrow> TSLexMode \<Rightarrow> bool" where
  "ts_lex_mode_eq self other \<longleftrightarrow>
     lex_state self = lex_state other \<and> external_lex_state self = external_lex_state other"

definition parser__can_reuse :: "language_api \<Rightarrow> TSStateId \<Rightarrow> Tree \<Rightarrow> TableEntry \<Rightarrow> bool" where
  "parser__can_reuse L state tree table_entry =
     (let current_lex_mode = lex_modes L state in
      if ts_lex_mode_eq (first_leaf_lex_mode tree) current_lex_mode then True
      else if external_lex_state current_lex_mode \<noteq> 0 then False
      else if tree_size_bytes tree = 0 then False
      else if \<not> is_reusable table_entry then False
      else if \<not> depends_on_lookahead table_entry then True
      else tree_child_count tree > 1 \<and> tree_error_cost tree = 0)"

text \<open>\<open>compare\<close> is \<open>ts_tree_compare\<close>; a tree that is \<open>NULL\<close> is \<open>None\<close>.\<close>

definition parser__select_tree :: "(Tree \<Rightarrow> Tree \<Rightarrow> int) \<Rightarrow> Tree option \<Rightarrow> Tree option \<Rightarrow> bool" where
  "parser__select_tree compare left right =
     (case left of None \<Rightarrow> True
      | Some l \<Rightarrow> (case right of None \<Rightarrow> False
        | Some r \<Rightarrow>
            if tree_error_cost r < tree_error_cost l then True
            else if tree_error_cost l < tree_error_cost r then False
            else compare l r = 1))"

section \<open>Condensing the stack\<close>

definition CondenseResultMadeChange :: int where
  "CondenseResultMadeChange = 1"

definition CondenseResultAllVersionsHadError :: int where
  "CondenseResultAllVersionsHadError = 2"

text \<open>
  The inner loop, for the version \<open>i\<close> whose error status was read before the loop. A removal
  that decrements \<open>j\<close> is followed by the increment of the loop, so \<open>j\<close> stays; the removal of
  version \<open>i\<close> leaves the \<open>switch\<close> only, so the loop goes on with the version before it and
  with the status that was read.
\<close>

function condense_inner ::
  "('s, 'e) stack_api \<Rightarrow> 'e ErrorStatus_scheme \<Rightarrow> 's \<Rightarrow> int \<Rightarrow> nat \<Rightarrow> nat \<Rightarrow> 's \<times> int \<times> nat" where
  "condense_inner A error_status s result i j =
     (if j < i then
        case ts_stack_merge A s j i of
          (True, s) \<Rightarrow> (s, result OR CondenseResultMadeChange, i - 1)
        | (False, s) \<Rightarrow>
            let c = error_status_compare A error_status (ts_stack_error_status A s j) in
            if c = -1 then
              condense_inner A error_status (ts_stack_remove_version A s j)
                (result OR CondenseResultMadeChange) (i - 1) j
            else if c = 1 then
              condense_inner A error_status (ts_stack_remove_version A s i)
                (result OR CondenseResultMadeChange) (i - 1) (j + 1)
            else condense_inner A error_status s result i (j + 1)
      else (s, result, i))"
  by pat_completeness auto
termination
  by (relation "measure (\<lambda>(A, es, s, r, i, j). i - j)") auto

text \<open>
  The loop over the versions. It ends only because removing a version makes the stack smaller,
  a property of the stack: \<open>None\<close> is a loop that does not end.
\<close>

partial_function (option) condense_versions ::
  "('s, 'e) stack_api \<Rightarrow> 's \<Rightarrow> int \<Rightarrow> bool \<Rightarrow> nat \<Rightarrow> ('s \<times> int \<times> bool) option" where
  "condense_versions A s result has_version_without_errors i =
     (if i < ts_stack_version_count A s then
        if ts_stack_is_halted A s i then
          condense_versions A (ts_stack_remove_version A s i)
            (result OR CondenseResultMadeChange) has_version_without_errors i
        else
          (let error_status = ts_stack_error_status A s i;
               (s', result', i') = condense_inner A error_status s result i 0 in
           condense_versions A s' result'
             (has_version_without_errors \<or> es_count error_status = 0) (i' + 1))
      else Some (s, result, has_version_without_errors))"

declare condense_inner.simps [simp del]
declare condense_versions.simps [code]

definition parser__condense_stack :: "('s, 'e) stack_api \<Rightarrow> 's \<Rightarrow> ('s \<times> int) option" where
  "parser__condense_stack A s = do {
     (s, result, has_version_without_errors) \<leftarrow> condense_versions A s 0 False 0;
     Some (s, if \<not> has_version_without_errors \<and> ts_stack_version_count A s > 0
              then result OR CondenseResultAllVersionsHadError else result) }"

section \<open>Comparing a version with the others\<close>

primrec better_version_loop ::
  "('s, 'e) stack_api \<Rightarrow> nat \<Rightarrow> 'e ErrorStatus_scheme \<Rightarrow> nat list \<Rightarrow> 's \<Rightarrow> bool \<times> 's" where
  "better_version_loop A version my_error_status [] s = (False, s)"
| "better_version_loop A version my_error_status (i # is) s =
     (if i = version \<or> ts_stack_is_halted A s i then better_version_loop A version my_error_status is s
      else
        let c = error_status_compare A my_error_status (ts_stack_error_status A s i) in
        if c = -1 then better_version_loop A version my_error_status is (ts_stack_halt A s i)
        else if c = 1 then (True, s)
        else better_version_loop A version my_error_status is s)"

definition parser__better_version_exists ::
  "('s, 'e) stack_api \<Rightarrow> Tree option \<Rightarrow> nat \<Rightarrow> 'e ErrorStatus_scheme \<Rightarrow> 's \<Rightarrow> bool \<times> 's" where
  "parser__better_version_exists A finished_tree version my_error_status s =
     (if (case finished_tree of None \<Rightarrow> False | Some t \<Rightarrow> tree_error_cost t \<le> es_cost my_error_status)
      then (True, s)
      else better_version_loop A version my_error_status [0..<ts_stack_version_count A s] s)"

text \<open>
  Choosing among several finished trees one after the other, the way \<open>parser__accept\<close> does, ends
  with one of the least error cost.
\<close>

lemma select_tree_least:
  "foldl (\<lambda>best root. if parser__select_tree compare best (Some root) then Some root else best) (Some t0) roots = Some t
    \<Longrightarrow> t \<in> insert t0 (set roots) \<and> (\<forall>r \<in> insert t0 (set roots). tree_error_cost t \<le> tree_error_cost r)"
proof (induction roots arbitrary: t0)
  case (Cons r roots)
  let ?b = "if parser__select_tree compare (Some t0) (Some r) then r else t0"
  have "tree_error_cost ?b \<le> tree_error_cost t0" "tree_error_cost ?b \<le> tree_error_cost r"
    by (auto simp: parser__select_tree_def)
  moreover have "foldl (\<lambda>best root. if parser__select_tree compare best (Some root) then Some root else best) (Some ?b) roots = Some t"
    using Cons.prems by (simp split: if_splits)
  from Cons.IH [OF this] have "t \<in> insert ?b (set roots)" "\<forall>r \<in> insert ?b (set roots). tree_error_cost t \<le> tree_error_cost r"
    by blast+
  ultimately show ?case by (auto split: if_splits)
qed simp

section \<open>The stack as a list of versions\<close>

text \<open>
  A version is its error status and whether it is halted. Removing a version moves the later
  ones down; a merge of \<open>j\<close> and \<open>i\<close> that succeeds removes \<open>i\<close> and leaves the status of \<open>j\<close>;
  swapping the operands negates the comparison of two statuses.
\<close>

type_synonym 'e head = "'e ErrorStatus_scheme \<times> bool"

definition remove_nth :: "nat \<Rightarrow> 'a list \<Rightarrow> 'a list" where
  "remove_nth i xs = take i xs @ drop (Suc i) xs"

definition stack_ok :: "('s, 'e) stack_api \<Rightarrow> ('s \<Rightarrow> 'e head list) \<Rightarrow> bool" where
  "stack_ok A heads \<longleftrightarrow>
     (\<forall>s. ts_stack_version_count A s = length (heads s)) \<and>
     (\<forall>s i. i < length (heads s) \<longrightarrow>
        ts_stack_error_status A s i = fst (heads s ! i) \<and> ts_stack_is_halted A s i = snd (heads s ! i)
        \<and> heads (ts_stack_remove_version A s i) = remove_nth i (heads s)
        \<and> heads (ts_stack_halt A s i) = (heads s)[i := (fst (heads s ! i), True)]) \<and>
     (\<forall>s j i. j < i \<longrightarrow> i < length (heads s) \<longrightarrow> heads (snd (ts_stack_merge A s j i)) =
        (if fst (ts_stack_merge A s j i) then remove_nth i (heads s) else heads s)) \<and>
     (\<forall>a b. error_status_compare A a b = - error_status_compare A b a)"

lemma stack_okD:
  assumes "stack_ok A heads"
  shows "ts_stack_version_count A s = length (heads s)"
    and "i < length (heads s) \<Longrightarrow> ts_stack_error_status A s i = fst (heads s ! i)"
    and "i < length (heads s) \<Longrightarrow> ts_stack_is_halted A s i = snd (heads s ! i)"
    and "i < length (heads s) \<Longrightarrow> heads (ts_stack_remove_version A s i) = remove_nth i (heads s)"
    and "i < length (heads s) \<Longrightarrow> heads (ts_stack_halt A s i) = (heads s)[i := (fst (heads s ! i), True)]"
    and "ts_stack_merge A s j i = (True, s') \<Longrightarrow> j < i \<Longrightarrow> i < length (heads s) \<Longrightarrow> heads s' = remove_nth i (heads s)"
    and "ts_stack_merge A s j i = (False, s') \<Longrightarrow> j < i \<Longrightarrow> i < length (heads s) \<Longrightarrow> heads s' = heads s"
proof -
  note ok = assms [unfolded stack_ok_def]
  show "ts_stack_version_count A s = length (heads s)"
    and "i < length (heads s) \<Longrightarrow> ts_stack_error_status A s i = fst (heads s ! i)"
    and "i < length (heads s) \<Longrightarrow> ts_stack_is_halted A s i = snd (heads s ! i)"
    and "i < length (heads s) \<Longrightarrow> heads (ts_stack_remove_version A s i) = remove_nth i (heads s)"
    and "i < length (heads s) \<Longrightarrow> heads (ts_stack_halt A s i) = (heads s)[i := (fst (heads s ! i), True)]"
    using ok by blast+
  have merge: "j < i \<Longrightarrow> i < length (heads s) \<Longrightarrow> heads (snd (ts_stack_merge A s j i)) =
      (if fst (ts_stack_merge A s j i) then remove_nth i (heads s) else heads s)"
    using ok by blast
  show "ts_stack_merge A s j i = (True, s') \<Longrightarrow> j < i \<Longrightarrow> i < length (heads s) \<Longrightarrow> heads s' = remove_nth i (heads s)"
    and "ts_stack_merge A s j i = (False, s') \<Longrightarrow> j < i \<Longrightarrow> i < length (heads s) \<Longrightarrow> heads s' = heads s"
    using merge by simp_all
qed

lemma compare_swap: "stack_ok A heads \<Longrightarrow> error_status_compare A a b = - error_status_compare A b a"
  unfolding stack_ok_def by blast

lemma length_remove_nth [simp]: "i < length xs \<Longrightarrow> length (remove_nth i xs) = length xs - 1"
  by (simp add: remove_nth_def)

lemma remove_nth_append [simp]:
  "i < length xs \<Longrightarrow> remove_nth i (xs @ ys) = remove_nth i xs @ ys"
  "remove_nth (length xs) (xs @ y # ys) = xs @ ys"
  by (simp_all add: remove_nth_def)

lemma remove_nth_simps [simp]:
  "remove_nth i [] = []" "remove_nth 0 (x # xs) = xs" "remove_nth (Suc i) (x # xs) = x # remove_nth i xs"
  by (simp_all add: remove_nth_def)

lemma subseq_remove_nth: "subseq (remove_nth i xs) xs"
proof (induction xs arbitrary: i)
  case (Cons x xs)
  then show ?case by (cases i) auto
qed simp

lemma remove_nth_neq [simp]: "i < length xs \<Longrightarrow> remove_nth i xs \<noteq> xs"
  by (auto dest: arg_cong [where f = length])

lemma nth_remove_nth: "k < i \<Longrightarrow> i < length xs \<Longrightarrow> remove_nth i xs ! k = xs ! k"
  by (simp add: remove_nth_def nth_append)

lemma remove_nth_snoc [simp]: "i < length xs \<Longrightarrow> remove_nth i (xs @ [x]) = remove_nth i xs @ [x]"
  by simp

lemma set_remove_nth: "set (remove_nth i xs) \<subseteq> set xs"
  by (auto simp: remove_nth_def dest: in_set_takeD in_set_dropD)

section \<open>Condensing leaves the versions that no other one beats\<close>

text \<open>No version of the list is better than another one of the list.\<close>

definition undominated :: "('s, 'e) stack_api \<Rightarrow> 'e head list \<Rightarrow> bool" where
  "undominated A vs \<longleftrightarrow> (\<forall>a \<in> set vs. \<forall>b \<in> set vs. error_status_compare A (fst a) (fst b) \<noteq> -1)"

text \<open>
  The invariant of the inner loop on the versions up to \<open>i\<close>: the last one is the one whose
  status is compared and ties with the first \<open>j\<close>, or nothing is left to be removed.
\<close>

definition inner_inv :: "('s, 'e) stack_api \<Rightarrow> 'e ErrorStatus_scheme \<Rightarrow> nat \<Rightarrow> 'e head list \<Rightarrow> bool" where
  "inner_inv A es j vs \<longleftrightarrow> undominated A vs \<or>
     (undominated A (butlast vs) \<and> fst (last vs) = es \<and>
      (\<forall>k < j. k < length vs - 1 \<longrightarrow> error_status_compare A es (fst (vs ! k)) \<notin> {-1, 1}))"

lemma undominated_mono: "undominated A vs \<Longrightarrow> set ws \<subseteq> set vs \<Longrightarrow> undominated A ws"
  unfolding undominated_def by blast

lemma undominated_Nil [simp]: "undominated A []"
  by (simp add: undominated_def)

lemma inner_inv_drop_last: "inner_inv A es j (pre @ [v]) \<Longrightarrow> undominated A pre"
  unfolding inner_inv_def by (auto intro: undominated_mono)

lemma inner_inv_remove:
  assumes "inner_inv A es j (pre @ [v])" "j < length pre"
  shows "inner_inv A es j (remove_nth j pre @ [v])"
proof (cases "undominated A (pre @ [v])")
  case True
  then have "undominated A (remove_nth j pre @ [v])"
    by (rule undominated_mono) (use set_remove_nth [of j pre] in auto)
  then show ?thesis by (simp add: inner_inv_def)
next
  case False
  with assms show ?thesis
    by (auto simp: inner_inv_def nth_append nth_remove_nth intro: undominated_mono [OF _ set_remove_nth])
qed

lemma inner_inv_exit:
  assumes ok: "stack_ok A heads" and inv: "inner_inv A es j (pre @ [v])" and "\<not> j < length pre"
  shows "undominated A (pre @ [v])"
proof (cases "undominated A (pre @ [v])")
  case False
  with inv have pre: "undominated A pre" and v: "fst v = es" by (simp_all add: inner_inv_def)
  have ties: "error_status_compare A es (fst (pre ! k)) \<notin> {-1, 1}" if "k < length pre" for k
    using False inv assms(3) that by (simp add: inner_inv_def nth_append)
  have "error_status_compare A es es \<noteq> -1" using compare_swap [OF ok, of es es] by simp
  moreover have "error_status_compare A es (fst a) \<noteq> -1 \<and> error_status_compare A (fst a) es \<noteq> -1"
    if "a \<in> set pre" for a
    using that ties compare_swap [OF ok, of "fst a" es] by (fastforce simp: in_set_conv_nth)
  ultimately show ?thesis using pre v by (auto simp: undominated_def)
qed simp

lemma or_made_change [simp]:
  "(r OR CondenseResultMadeChange) OR CondenseResultMadeChange = r OR CondenseResultMadeChange"
  by (simp add: or.assoc)

lemma condense_inner_step:
  assumes ok: "stack_ok A heads" and h: "heads s = (pre @ [v]) @ post" and i: "length pre = i" and "j < i"
  obtains (merged) t where "heads t = pre @ post"
      "condense_inner A es s r i j = (t, r OR CondenseResultMadeChange, i - 1)"
  | (better) t where "heads t = (remove_nth j pre @ [v]) @ post"
      "condense_inner A es s r i j = condense_inner A es t (r OR CondenseResultMadeChange) (i - 1) j"
  | (worse) t where "heads t = pre @ post"
      "condense_inner A es s r i j = condense_inner A es t (r OR CondenseResultMadeChange) (i - 1) (j + 1)"
  | (tied) t where "heads t = heads s" "error_status_compare A es (fst (pre ! j)) \<notin> {-1, 1}"
      "condense_inner A es s r i j = condense_inner A es t r i (j + 1)"
proof -
  note step = condense_inner.simps [of A es s r i j]
  obtain b t where m: "ts_stack_merge A s j i = (b, t)" by force
  have len: "i < length (heads s)" using h i by simp
  show ?thesis
  proof (cases b)
    case True
    with stack_okD(6) [OF ok _ \<open>j < i\<close> len] m have "heads t = pre @ post" using h i [symmetric] by simp
    with True m \<open>j < i\<close> step show ?thesis by (intro merged) simp_all
  next
    case False
    with stack_okD(7) [OF ok _ \<open>j < i\<close> len] m have t: "heads t = heads s" by simp
    then have lt: "j < length (heads t)" "i < length (heads t)" using len \<open>j < i\<close> by simp_all
    have status: "ts_stack_error_status A t j = fst (pre ! j)"
      using stack_okD(2) [OF ok lt(1)] t h i \<open>j < i\<close> by (simp add: nth_append)
    have rem: "heads (ts_stack_remove_version A t j) = (remove_nth j pre @ [v]) @ post"
      "heads (ts_stack_remove_version A t i) = pre @ post"
      using stack_okD(4) [OF ok lt(1)] stack_okD(4) [OF ok lt(2)] t h i [symmetric] \<open>j < i\<close> by simp_all
    note step = step [unfolded m status prod.case, simplified False \<open>j < i\<close> if_True bool.case Let_def]
    consider "error_status_compare A es (fst (pre ! j)) = -1" | "error_status_compare A es (fst (pre ! j)) = 1"
      | "error_status_compare A es (fst (pre ! j)) \<notin> {-1, 1}" by auto
    then show ?thesis
      using step by cases (use rem better worse tied [OF t] in auto)
  qed
qed

lemma condense_inner_spec:
  assumes ok: "stack_ok A heads"
  shows "condense_inner A es s r i j = (s', r', i') \<Longrightarrow> heads s = (pre @ [v]) @ post \<Longrightarrow> length pre = i
    \<Longrightarrow> inner_inv A es j (pre @ [v])
    \<Longrightarrow> \<exists>vs. heads s' = vs @ post \<and> length vs = Suc i' \<and> subseq vs (pre @ [v]) \<and> undominated A vs
          \<and> r' = (if vs = pre @ [v] then r else r OR CondenseResultMadeChange)"
proof (induction "i - j" arbitrary: s r i j pre v rule: less_induct)
  case less
  show ?case
  proof (cases "j < i")
    case False
    then have "s' = s" "r' = r" "i' = i" using less.prems(1) condense_inner.simps [of A es s r i j] by simp_all
    then show ?thesis using less.prems inner_inv_exit [OF ok less.prems(4)] False by auto
  next
    case True
    obtain u w where pre: "pre = u @ [w]" using True less.prems(3) by (cases pre rule: rev_cases) auto
    have m: "i - 1 - j < i - j" "i - 1 - (j + 1) < i - j" "i - (j + 1) < i - j" using True by simp_all
    from ok less.prems(2,3) True show ?thesis
    proof (cases rule: condense_inner_step [where es = es and r = r])
      case (merged t)
      with less.prems True show ?thesis by (intro exI [of _ pre]) (auto dest: inner_inv_drop_last)
    next
      case (better t)
      have sub: "subseq (remove_nth j pre @ [v]) (pre @ [v])"
        by (intro list_emb_append_mono subseq_remove_nth) simp
      from less.hyps [OF m(1), of t "r OR CondenseResultMadeChange" "remove_nth j pre" v] better less.prems True
      obtain vs where vs: "heads s' = vs @ post" "length vs = Suc i'" "subseq vs (remove_nth j pre @ [v])"
        "undominated A vs" "r' = r OR CondenseResultMadeChange"
        using inner_inv_remove [OF less.prems(4)] by (auto split: if_splits)
      then have "vs \<noteq> pre @ [v]" using list_emb_length [OF vs(3)] True less.prems(3) by auto
      with vs sub show ?thesis by (intro exI [of _ vs]) (auto intro: subseq_order.trans)
    next
      case (worse t)
      from less.hyps [OF m(2), of t "r OR CondenseResultMadeChange" u w] worse less.prems True pre
      obtain vs where vs: "heads s' = vs @ post" "length vs = Suc i'" "subseq vs pre"
        "undominated A vs" "r' = r OR CondenseResultMadeChange"
        using inner_inv_drop_last [OF less.prems(4)] by (auto simp: inner_inv_def split: if_splits)
      then have "vs \<noteq> pre @ [v]" using list_emb_length [OF vs(3)] by auto
      with vs show ?thesis by (intro exI [of _ vs]) auto
    next
      case (tied t)
      have "inner_inv A es (j + 1) (pre @ [v])"
        using less.prems(3,4) tied(2) by (auto simp: inner_inv_def nth_append less_Suc_eq)
      with tied less.hyps [OF m(3), of t r pre v] less.prems True show ?thesis by simp
    qed
  qed
qed

text \<open>A live version without errors, and a live version at all.\<close>

definition live :: "'e head list \<Rightarrow> 'e head set" where
  "live vs = {v \<in> set vs. \<not> snd v}"

lemma live_simps [simp]: "live [] = {}" "live (vs @ ws) = live vs \<union> live ws"
  "live (v # vs) = (if snd v then live vs else insert v (live vs))"
  by (auto simp: live_def)

lemma condense_halted_step:
  assumes ok: "stack_ok A heads" and h: "heads s = vs @ v # rest" and i: "length vs = i" and "snd v"
  obtains t where "heads t = vs @ rest"
    "condense_versions A s r w i = condense_versions A t (r OR CondenseResultMadeChange) w i"
proof
  have at: "i < length (heads s)" "heads s ! i = v" using h i by (auto simp: nth_append)
  show "heads (ts_stack_remove_version A s i) = vs @ rest"
    using stack_okD(4) [OF ok at(1)] h i [symmetric] by simp
  show "condense_versions A s r w i =
      condense_versions A (ts_stack_remove_version A s i) (r OR CondenseResultMadeChange) w i"
    using condense_versions.simps [of A s r w i] stack_okD(1) [OF ok, of s] stack_okD(3) [OF ok at(1)] at \<open>snd v\<close>
    by simp
qed

lemma condense_live_step:
  assumes ok: "stack_ok A heads" and h: "heads s = vs @ v # rest" and i: "length vs = i"
    and live: "\<forall>u \<in> set (vs @ [v]). \<not> snd u" and vs: "undominated A vs"
  obtains t us where "heads t = us @ rest" "us \<noteq> []" "subseq us (vs @ [v])" "undominated A us"
    "condense_versions A s r w i = condense_versions A t
       (if us = vs @ [v] then r else r OR CondenseResultMadeChange) (w \<or> es_count (fst v) = 0) (length us)"
proof -
  have at: "i < length (heads s)" "heads s ! i = v" using h i by (auto simp: nth_append)
  obtain t r1 i1 where inner: "condense_inner A (fst v) s r i 0 = (t, r1, i1)" by (metis prod_cases3)
  have "inner_inv A (fst v) 0 (vs @ [v])" using vs by (simp add: inner_inv_def)
  from condense_inner_spec [OF ok inner _ i this, of rest] h obtain us where
    us: "heads t = us @ rest" "length us = Suc i1" "subseq us (vs @ [v])" "undominated A us"
      "r1 = (if us = vs @ [v] then r else r OR CondenseResultMadeChange)"
    by auto
  moreover have "condense_versions A s r w i = condense_versions A t r1 (w \<or> es_count (fst v) = 0) (length us)"
    using condense_versions.simps [of A s r w i] stack_okD(1) [OF ok, of s] stack_okD(2,3) [OF ok at(1)] at
      inner live us(2) by (simp add: Let_def)
  ultimately show ?thesis by (intro that [of t us]) auto
qed

lemma condense_versions_spec:
  assumes ok: "stack_ok A heads"
  shows "heads s = vs @ post \<Longrightarrow> length vs = i \<Longrightarrow> \<forall>v \<in> set vs. \<not> snd v \<Longrightarrow> undominated A vs
    \<Longrightarrow> \<exists>s'. condense_versions A s r w i =
          Some (s', if heads s' = heads s then r else r OR CondenseResultMadeChange,
                w \<or> (\<exists>v \<in> live post. es_count (fst v) = 0))
        \<and> subseq (heads s') (heads s) \<and> (\<forall>v \<in> set (heads s'). \<not> snd v) \<and> undominated A (heads s')
        \<and> (heads s' = [] \<longleftrightarrow> vs = [] \<and> live post = {})"
proof (induction post arbitrary: s r w i vs)
  case Nil
  then show ?case by (subst condense_versions.simps) (simp add: stack_okD(1) [OF ok])
next
  case (Cons v rest)
  show ?case
  proof (cases "snd v")
    case True
    from condense_halted_step [OF ok Cons.prems(1,2) True] obtain t where t: "heads t = vs @ rest"
      and eq: "condense_versions A s r w i = condense_versions A t (r OR CondenseResultMadeChange) w i" by blast
    from Cons.IH [OF t Cons.prems(2-4), of "r OR CondenseResultMadeChange" w] obtain s' where
      s': "condense_versions A s r w i = Some (s', r OR CondenseResultMadeChange,
          w \<or> (\<exists>v \<in> live rest. es_count (fst v) = 0))"
        "subseq (heads s') (heads t)" "\<forall>v \<in> set (heads s'). \<not> snd v" "undominated A (heads s')"
        "heads s' = [] \<longleftrightarrow> vs = [] \<and> live rest = {}"
      unfolding eq by fastforce
    moreover have "heads s' \<noteq> heads s" using list_emb_length [OF s'(2)] t Cons.prems(1) by auto
    moreover have "subseq (heads t) (heads s)"
      unfolding t Cons.prems(1) by (intro list_emb_append_mono) auto
    ultimately show ?thesis using True by (intro exI [of _ s']) (auto intro: subseq_order.trans)
  next
    case False
    then have live: "\<forall>u \<in> set (vs @ [v]). \<not> snd u" using Cons.prems(3) by auto
    from condense_live_step [OF ok Cons.prems(1,2) live Cons.prems(4)] obtain t us where
      t: "heads t = us @ rest" "us \<noteq> []" and us: "subseq us (vs @ [v])" "undominated A us"
      and eq: "condense_versions A s r w i = condense_versions A t
        (if us = vs @ [v] then r else r OR CondenseResultMadeChange) (w \<or> es_count (fst v) = 0) (length us)"
      by blast
    have "\<forall>u \<in> set us. \<not> snd u" using list_emb_set [OF us(1)] live by auto
    from Cons.IH [OF t(1) refl this us(2)] obtain s' where
      s': "condense_versions A s r w i = Some (s',
          if heads s' = heads t then (if us = vs @ [v] then r else r OR CondenseResultMadeChange)
          else (if us = vs @ [v] then r else r OR CondenseResultMadeChange) OR CondenseResultMadeChange,
          (w \<or> es_count (fst v) = 0) \<or> (\<exists>v \<in> live rest. es_count (fst v) = 0))"
        "subseq (heads s') (heads t)" "\<forall>v \<in> set (heads s'). \<not> snd v" "undominated A (heads s')" "heads s' \<noteq> []"
      unfolding eq using t(2) by fastforce
    have sub: "subseq (heads t) (heads s)"
      using list_emb_append_mono [OF us(1), of rest rest] t(1) Cons.prems(1) by simp
    have "heads t = heads s" if "heads s' = heads s"
      using subseq_order.antisym [OF sub] s'(2) that by simp
    then have same: "heads s' = heads s \<longleftrightarrow> us = vs @ [v] \<and> heads s' = heads t"
      using t(1) Cons.prems(1) by auto
    have "(if heads s' = heads t then (if us = vs @ [v] then r else r OR CondenseResultMadeChange)
        else (if us = vs @ [v] then r else r OR CondenseResultMadeChange) OR CondenseResultMadeChange)
      = (if heads s' = heads s then r else r OR CondenseResultMadeChange)"
      unfolding same by simp
    with s' show ?thesis using sub False by (intro exI [of _ s']) (auto intro: subseq_order.trans)
  qed
qed


section \<open>A version that is better than none is lost\<close>

text \<open>
  A stack of versions that never merge; two statuses are compared by their costs, and a
  difference of ten at most is a tie.
\<close>

definition list_stack :: "(('e head) list, 'e) stack_api" where
  "list_stack = \<lparr>ts_stack_version_count = length,
     ts_stack_is_halted = (\<lambda>s i. snd (s ! i)), ts_stack_error_status = (\<lambda>s i. fst (s ! i)),
     ts_stack_remove_version = (\<lambda>s i. remove_nth i s), ts_stack_merge = (\<lambda>s j i. (False, s)),
     ts_stack_halt = (\<lambda>s i. s[i := (fst (s ! i), True)]),
     error_status_compare = (\<lambda>a b.
       if es_cost a + 10 < es_cost b then -1 else if es_cost b + 10 < es_cost a then 1 else 0)\<rparr>"

lemma list_stack_ok: "stack_ok list_stack id"
  unfolding stack_ok_def by (simp add: list_stack_def)

definition costing :: "nat \<Rightarrow> unit head" where
  "costing c = (\<lparr>es_count = c div 10, es_cost = c\<rparr>, False)"

text \<open>
  The status of the removed version is compared with the rest of the versions, and the version
  before it pays: with the costs 3, 2, 1 and 20, the last version is worse than the first two,
  and the second comparison removes the version of cost 1.
\<close>

lemma condense_drops_best:
  "parser__condense_stack list_stack (map costing [3, 2, 1, 20]) = Some (map costing [3, 2], 1)"
  by code_simp


section \<open>Comparing a version with the others\<close>

lemma better_version_loop_found:
  assumes ok: "stack_ok A heads"
  shows "set is \<subseteq> {..<length (heads s)} \<Longrightarrow> distinct is \<Longrightarrow>
    fst (better_version_loop A version my is s) \<longleftrightarrow>
      (\<exists>i \<in> set is. i \<noteq> version \<and> \<not> snd (heads s ! i) \<and> error_status_compare A my (fst (heads s ! i)) = 1)"
proof (induction "is" arbitrary: s)
  case (Cons i "is")
  then have i: "i < length (heads s)" by simp
  let ?t = "ts_stack_halt A s i"
  have t: "heads ?t = (heads s)[i := (fst (heads s ! i), True)]" by (rule stack_okD(5) [OF ok i])
  have "(\<exists>k \<in> set is. k \<noteq> version \<and> \<not> snd (heads ?t ! k) \<and> error_status_compare A my (fst (heads ?t ! k)) = 1)
    \<longleftrightarrow> (\<exists>k \<in> set is. k \<noteq> version \<and> \<not> snd (heads s ! k) \<and> error_status_compare A my (fst (heads s ! k)) = 1)"
    using Cons.prems(2) unfolding t by (intro bex_cong refl) (metis distinct.simps(2) nth_list_update_neq)
  with Cons t show ?case by (auto simp: Let_def stack_okD(2,3) [OF ok i])
qed simp

lemma better_version_loop_halts:
  assumes ok: "stack_ok A heads"
  shows "set is \<subseteq> {..<length (heads s)} \<Longrightarrow> distinct is \<Longrightarrow> better_version_loop A version my is s = (False, s')
    \<Longrightarrow> length (heads s') = length (heads s) \<and> (\<forall>i < length (heads s). heads s' ! i =
      (fst (heads s ! i), snd (heads s ! i) \<or>
        (i \<in> set is \<and> i \<noteq> version \<and> error_status_compare A my (fst (heads s ! i)) = -1)))"
proof (induction "is" arbitrary: s)
  case (Cons i "is")
  then have i: "i < length (heads s)" by simp
  have t: "heads (ts_stack_halt A s i) = (heads s)[i := (fst (heads s ! i), True)]" by (rule stack_okD(5) [OF ok i])
  consider "i = version \<or> snd (heads s ! i)" | "i \<noteq> version" "\<not> snd (heads s ! i)" by blast
  then show ?case
  proof cases
    case 1
    then have "better_version_loop A version my is s = (False, s')" using Cons.prems(3) by (simp add: stack_okD(3) [OF ok i])
    with Cons.IH [of s] Cons.prems 1 show ?thesis by auto
  next
    case 2
    let ?c = "error_status_compare A my (fst (heads s ! i))"
    have c: "?c \<noteq> 1" and loop: "better_version_loop A version my is (if ?c = -1 then ts_stack_halt A s i else s) = (False, s')"
      using Cons.prems(3) 2 by (auto simp: stack_okD(2,3) [OF ok i] Let_def split: if_splits)
    show ?thesis
    proof (cases "?c = -1")
      case True
      with Cons.IH [of "ts_stack_halt A s i"] loop Cons.prems 2 t show ?thesis
        by (auto simp: nth_list_update)
    next
      case False
      with Cons.IH [of s] loop Cons.prems 2 show ?thesis by auto
    qed
  qed
qed (auto simp: prod_eq_iff)

lemma better_version_exists_spec:
  assumes "stack_ok A heads"
    and "parser__better_version_exists A finished_tree version my s = (found, s')"
  shows "found \<longleftrightarrow> (\<exists>t. finished_tree = Some t \<and> tree_error_cost t \<le> es_cost my)
      \<or> (\<exists>i < length (heads s). i \<noteq> version \<and> \<not> snd (heads s ! i)
          \<and> error_status_compare A my (fst (heads s ! i)) = 1)" (is ?found)
    and "\<not> found \<Longrightarrow> length (heads s') = length (heads s)
      \<and> (\<forall>i < length (heads s). heads s' ! i = (fst (heads s ! i),
          snd (heads s ! i) \<or> i \<noteq> version \<and> error_status_compare A my (fst (heads s ! i)) = -1))" (is "_ \<Longrightarrow> ?halted")
proof -
  let ?finished = "case finished_tree of None \<Rightarrow> False | Some t \<Rightarrow> tree_error_cost t \<le> es_cost my"
  have fin: "?finished \<longleftrightarrow> (\<exists>t. finished_tree = Some t \<and> tree_error_cost t \<le> es_cost my)"
    by (auto split: option.splits)
  have loop: "better_version_loop A version my [0..<length (heads s)] s = (found, s')" if "\<not> ?finished"
    using assms(2) that by (simp add: parser__better_version_exists_def stack_okD(1) [OF assms(1)])
  have early: "found" if "?finished" using assms(2) that by (simp add: parser__better_version_exists_def)
  have all: "set [0..<length (heads s)] \<subseteq> {..<length (heads s)}" by auto
  show ?found
  proof (cases ?finished)
    case False
    with better_version_loop_found [OF assms(1) all distinct_upt, of version my] loop fin show ?thesis
      by (auto simp: atLeast0LessThan Bex_def)
  qed (use early fin in simp)
  show ?halted if "\<not> found"
  proof -
    have "better_version_loop A version my [0..<length (heads s)] s = (False, s')" using loop early that by auto
    from better_version_loop_halts [OF assms(1) all distinct_upt this] show ?thesis by simp
  qed
qed

end
