(* ===== verification/Parser_Repair.thy ===== *)
theory Parser_Repair
  imports Parser_Versions
begin

text \<open>
  The search for a reduction that repairs an error in \<^verbatim>\<open>examples/parser.c\<close>: the reductions that
  fit a sequence of trees (\<open>parser__reductions_after_sequence\<close>) and the callbacks that
  \<open>ts_stack_iterate\<close> of the stack calls for every place below the error
  (\<open>parser__repair_error_callback\<close>, \<open>parser__skip_preceding_trees_callback\<close>).
\<close>

section \<open>Repairing an error\<close>

record ReduceAction =
  red_symbol :: TSSymbol
  red_count :: "32 word"

text \<open>
  The state after a sequence of trees and the number of trees that changed it; \<open>limit\<close> is the
  number of trees to take (\<open>None\<close>: all).
\<close>

primrec states_after ::
  "language_api \<Rightarrow> 32 word option \<Rightarrow> Tree list \<Rightarrow> TSStateId \<times> 32 word \<Rightarrow> (TSStateId \<times> 32 word) option" where
  "states_after L limit [] sc = Some sc"
| "states_after L limit (tree # trees) sc =
     (if limit = Some (snd sc) then Some sc
      else if tree_extra tree then states_after L limit trees sc
      else let next_state = ts_language_next_state L (fst sc) (tree_symbol tree) in
        if next_state = ERROR_STATE L then None
        else if next_state \<noteq> fst sc then states_after L limit trees (next_state, snd sc + 1)
        else states_after L limit trees sc)"

text \<open>The array of actions and its count are a list; \<open>NULL\<close> with the count 0 is the empty one.\<close>

definition parser__reductions_after_sequence ::
  "language_api \<Rightarrow> TSStateId \<Rightarrow> Tree list \<Rightarrow> 32 word \<Rightarrow> Tree list \<Rightarrow> TSSymbol \<Rightarrow> TSParseAction list" where
  "parser__reductions_after_sequence L start_state trees_below tree_count_below trees_above lookahead_symbol =
     (case Option.bind (states_after L (Some tree_count_below) (rev trees_below) (start_state, 0))
             (states_after L None trees_above) of
        None \<Rightarrow> []
      | Some (state, child_count) \<Rightarrow>
          let actions = ts_language_actions L state lookahead_symbol;
              actions = (if actions \<noteq> [] \<and> act_type (last actions) \<noteq> Reduce then butlast actions else actions);
              actions = dropWhile (\<lambda>a. act_child_count a < child_count) actions in
          rev (dropWhile (\<lambda>a. act_child_count a > child_count) (rev actions)))"

record ErrorRepairSession =
  found_repair :: bool
  best_repair :: ReduceAction
  best_repair_next_state :: TSStateId
  best_repair_skip_count :: "32 word"

text \<open>The flags of the action that the callbacks return to \<open>ts_stack_iterate\<close>.\<close>

record StackIterateAction =
  StackIteratePop :: bool
  StackIterateStop :: bool

definition StackIterateNone :: StackIterateAction where
  "StackIterateNone = \<lparr>StackIteratePop = False, StackIterateStop = False\<rparr>"

text \<open>
  The loop over the repairs. \<open>kept\<close> are the repairs before the index, newest first; \<open>reductions\<close>
  is \<open>None\<close> while \<open>repair_reductions\<close> is \<open>NULL\<close> with the count -1: reading it ends abnormally.
\<close>

fun repair_loop ::
  "language_api \<Rightarrow> (32 word \<Rightarrow> TSParseAction list) \<Rightarrow> TSStateId \<Rightarrow> TSSymbol \<Rightarrow> 32 word \<Rightarrow> 32 word
    \<Rightarrow> ReduceAction list \<Rightarrow> ReduceAction list \<Rightarrow> 32 word \<Rightarrow> TSParseAction list option \<Rightarrow> StackIterateAction \<Rightarrow> ErrorRepairSession
    \<Rightarrow> (StackIterateAction \<times> ReduceAction list \<times> ErrorRepairSession) panics" where
  "repair_loop L after state lookahead_symbol tree_count count_above kept [] last_count reductions result session =
     Some (result, rev kept, session)"
| "repair_loop L after state lookahead_symbol tree_count count_above kept (repair # repairs) last_count reductions result session =
     (let needed = red_count repair - count_above in
      if needed > tree_count then Some (result, rev kept @ repair # repairs, session)
      else let skip_count = tree_count - needed in
      if found_repair session \<and> skip_count \<ge> best_repair_skip_count session
      then repair_loop L after state lookahead_symbol tree_count count_above kept repairs last_count reductions result session
      else let state_after_repair = ts_language_next_state L state (red_symbol repair) in
      if state = ERROR_STATE L \<or> state_after_repair = ERROR_STATE L
        \<or> ts_language_actions L state_after_repair lookahead_symbol = []
      then repair_loop L after state lookahead_symbol tree_count count_above (repair # kept) repairs last_count reductions result session
      else let (last_count', reductions') =
        (if needed \<noteq> last_count then (needed, Some (after needed)) else (last_count, reductions)) in
      (case reductions' of None \<Rightarrow> None
       | Some rs \<Rightarrow>
           if list_ex (\<lambda>r. act_symbol r = red_symbol repair) rs
           then repair_loop L after state lookahead_symbol tree_count count_above kept repairs last_count' reductions'
             (result\<lparr>StackIteratePop := True\<rparr>)
             \<lparr>found_repair = True, best_repair = repair, best_repair_next_state = state_after_repair,
              best_repair_skip_count = skip_count\<rparr>
           else repair_loop L after state lookahead_symbol tree_count count_above (repair # kept) repairs
             last_count' reductions' result session))"

definition parser__repair_error_callback ::
  "language_api \<Rightarrow> TSSymbol \<Rightarrow> Tree list \<Rightarrow> 32 word \<Rightarrow> ReduceAction list \<Rightarrow> ErrorRepairSession
    \<Rightarrow> TSStateId \<Rightarrow> Tree list \<Rightarrow> 32 word \<Rightarrow> (StackIterateAction \<times> ReduceAction list \<times> ErrorRepairSession) panics" where
  "parser__repair_error_callback L lookahead_symbol trees_above_error tree_count_above_error repairs session
       state trees tree_count = do {
     (result, repairs, session) \<leftarrow> repair_loop L
       (\<lambda>needed. parser__reductions_after_sequence L state trees needed trees_above_error lookahead_symbol)
       state lookahead_symbol tree_count tree_count_above_error [] repairs (-1) None StackIterateNone session;
     Some (if repairs = [] then result\<lparr>StackIterateStop := True\<rparr> else result, repairs, session) }"

definition parser__skip_preceding_trees_callback ::
  "language_api \<Rightarrow> TSSymbol \<Rightarrow> TSStateId \<Rightarrow> Tree list \<Rightarrow> nat \<Rightarrow> StackIterateAction" where
  "parser__skip_preceding_trees_callback L lookahead_symbol state trees tree_count =
     (if tree_count > 0 \<and> state \<noteq> ERROR_STATE L then
        if sum_list (map tree_total_bytes trees) = 0 then StackIterateNone
        else (case ts_language_actions L state lookahead_symbol of
            [] \<Rightarrow> StackIterateNone
          | a # _ \<Rightarrow> if act_type a = Reduce then \<lparr>StackIteratePop = True, StackIterateStop = True\<rparr> else StackIterateNone)
      else StackIterateNone)"

section \<open>What a repair takes\<close>

text \<open>
  When the actions are sorted by the number of their children, trimming the array at both ends
  leaves the reductions that take exactly the children there are.
\<close>

lemma trim_sorted:
  assumes "sorted (map f xs)"
  shows "rev (dropWhile (\<lambda>a. f a > c) (rev (dropWhile (\<lambda>a. f a < c) xs))) = filter (\<lambda>a. f a = (c :: 'a :: linorder)) xs"
  using assms
proof (induction xs)
  case (Cons x xs)
  consider "f x < c" | "c < f x" | "f x = c" by fastforce
  then show ?case
  proof cases
    case 2
    then have "\<forall>a \<in> set (x # xs). c < f a" using Cons.prems by auto
    then have "dropWhile (\<lambda>a. c < f a) (rev (x # xs)) = []" "filter (\<lambda>a. f a = c) (x # xs) = []"
      by (auto simp: dropWhile_eq_Nil_conv filter_empty_conv)
    with 2 show ?thesis by (simp only: dropWhile.simps not_less_iff_gr_or_eq if_False simp_thms rev.simps) simp
  next
    case 3
    have "dropWhile (\<lambda>a. f a < c) xs = xs" using Cons.prems 3 by (cases xs) auto
    moreover have "filter (\<lambda>a. f a = c) xs = []" if "\<forall>a \<in> set xs. c < f a"
      using that by (auto simp: filter_empty_conv)
    moreover have "rev (dropWhile (\<lambda>a. c < f a) (rev xs)) = filter (\<lambda>a. f a = c) xs"
      using Cons calculation(1) by simp
    ultimately show ?thesis using 3 by (auto simp: dropWhile_append rev_swap [symmetric])
  qed (use Cons in auto)
qed simp

lemma reductions_after_sequence_sorted:
  assumes "Option.bind (states_after L (Some n) (rev below) (start, 0)) (states_after L None trees_above) = Some (state, child_count)"
    and "ts_language_actions L state lookahead = reductions @ other"
    and "length other \<le> 1" "\<forall>a \<in> set reductions. act_type a = Reduce" "\<forall>a \<in> set other. act_type a \<noteq> Reduce"
    and "sorted (map act_child_count reductions)"
  shows "parser__reductions_after_sequence L start below n trees_above lookahead =
    filter (\<lambda>a. act_child_count a = child_count) reductions"
proof -
  have "(if reductions @ other \<noteq> [] \<and> act_type (last (reductions @ other)) \<noteq> Reduce then butlast (reductions @ other)
      else reductions @ other) = reductions"
  proof (cases other)
    case Nil
    with assms(4) show ?thesis by (cases reductions rule: rev_cases) simp_all
  next
    case (Cons a as)
    with assms(3,5) show ?thesis by simp
  qed
  then show ?thesis
    unfolding parser__reductions_after_sequence_def assms(1) option.case prod.case Let_def assms(2)
    by (simp only: trim_sorted [OF assms(6)])
qed

text \<open>
  A repair can be used at a place of the stack when enough trees are below the error, its symbol
  and then the lookahead can follow the state, and it is one of the reductions of the trees.
\<close>

definition usable_repair ::
  "language_api \<Rightarrow> (32 word \<Rightarrow> TSParseAction list) \<Rightarrow> TSStateId \<Rightarrow> TSSymbol \<Rightarrow> 32 word \<Rightarrow> 32 word \<Rightarrow> ReduceAction \<Rightarrow> bool" where
  "usable_repair L after state lookahead_symbol tree_count count_above r \<longleftrightarrow>
     red_count r - count_above \<le> tree_count \<and> state \<noteq> ERROR_STATE L
     \<and> ts_language_next_state L state (red_symbol r) \<noteq> ERROR_STATE L
     \<and> ts_language_actions L (ts_language_next_state L state (red_symbol r)) lookahead_symbol \<noteq> []
     \<and> (\<exists>a \<in> set (after (red_count r - count_above)). act_symbol a = red_symbol r)"

text \<open>A session that has taken the repair \<open>r\<close>, which skips fewer trees than the one before.\<close>

definition takes_repair ::
  "language_api \<Rightarrow> TSStateId \<Rightarrow> 32 word \<Rightarrow> 32 word \<Rightarrow> ErrorRepairSession \<Rightarrow> ReduceAction \<Rightarrow> ErrorRepairSession \<Rightarrow> bool" where
  "takes_repair L state tree_count count_above session r session' \<longleftrightarrow>
     session' = \<lparr>found_repair = True, best_repair = r,
       best_repair_next_state = ts_language_next_state L state (red_symbol r),
       best_repair_skip_count = tree_count - (red_count r - count_above)\<rparr>
     \<and> (found_repair session \<longrightarrow> best_repair_skip_count session' < best_repair_skip_count session)"

lemma takes_repair_trans:
  "takes_repair L state n k s0 r0 s1 \<Longrightarrow> takes_repair L state n k s1 r s2 \<Longrightarrow> takes_repair L state n k s0 r s2"
  unfolding takes_repair_def by auto

text \<open>
  What the loop does: the repairs left are among \<open>R\<close>, and it either reports nothing and leaves the
  session, or asks for a pop and has taken a usable repair among \<open>S\<close>.
\<close>

definition repair_outcome ::
  "language_api \<Rightarrow> (32 word \<Rightarrow> TSParseAction list) \<Rightarrow> TSStateId \<Rightarrow> TSSymbol \<Rightarrow> 32 word \<Rightarrow> 32 word
    \<Rightarrow> ReduceAction set \<Rightarrow> ReduceAction set \<Rightarrow> StackIterateAction \<Rightarrow> ErrorRepairSession
    \<Rightarrow> (StackIterateAction \<times> ReduceAction list \<times> ErrorRepairSession) panics \<Rightarrow> bool" where
  "repair_outcome L after state lookahead n k R S result session out \<longleftrightarrow>
     (\<exists>repairs' session' pop. out = Some (if pop then result\<lparr>StackIteratePop := True\<rparr> else result, repairs', session')
      \<and> set repairs' \<subseteq> R
      \<and> (if pop then \<exists>r \<in> S. usable_repair L after state lookahead n k r \<and> takes_repair L state n k session r session'
         else session' = session))"

lemma repair_outcome_unchanged:
  "set repairs \<subseteq> R \<Longrightarrow> repair_outcome L after state lookahead n k R S result session (Some (result, repairs, session))"
  unfolding repair_outcome_def by (intro exI [of _ repairs] exI [of _ session] exI [of _ False]) simp

lemma repair_outcome_mono:
  "repair_outcome L after state lookahead n k R S result session out \<Longrightarrow> R \<subseteq> R' \<Longrightarrow> S \<subseteq> S'
    \<Longrightarrow> repair_outcome L after state lookahead n k R' S' result session out"
  unfolding repair_outcome_def by (elim exE conjE, intro exI conjI, assumption) (auto split: if_splits)

lemma repair_outcome_take:
  assumes "usable_repair L after state lookahead n k r" "takes_repair L state n k session r session1" "r \<in> S"
    and "repair_outcome L after state lookahead n k R S (result\<lparr>StackIteratePop := True\<rparr>) session1 out"
  shows "repair_outcome L after state lookahead n k R S result session out"
proof -
  from assms(4) obtain repairs' session' where out: "out = Some (result\<lparr>StackIteratePop := True\<rparr>, repairs', session')"
    "set repairs' \<subseteq> R"
    "session' = session1
      \<or> (\<exists>r \<in> S. usable_repair L after state lookahead n k r \<and> takes_repair L state n k session1 r session')"
    unfolding repair_outcome_def by (auto split: if_splits)
  have "\<exists>r \<in> S. usable_repair L after state lookahead n k r \<and> takes_repair L state n k session r session'"
    using assms(1-3) out(3) takes_repair_trans [OF assms(2)] by blast
  then show ?thesis unfolding repair_outcome_def out(1) using out(2)
    by (intro exI [of _ repairs'] exI [of _ session'] exI [of _ True]) simp
qed

lemma repair_loop_spec:
  assumes "tree_count \<noteq> -1"
  shows "(reductions = None \<longrightarrow> last_count = -1) \<Longrightarrow> (\<forall>rs. reductions = Some rs \<longrightarrow> rs = after last_count) \<Longrightarrow>
    repair_outcome L after state lookahead tree_count k (set kept \<union> set repairs) (set repairs) result session
      (repair_loop L after state lookahead tree_count k kept repairs last_count reductions result session)"
proof (induction repairs arbitrary: kept last_count reductions result session)
  case Nil
  then show ?case by (simp add: repair_outcome_unchanged)
next
  case (Cons r rs)
  let ?needed = "red_count r - k" and ?next = "ts_language_next_state L state (red_symbol r)"
  let ?skip = "tree_count - ?needed"
  let ?s = "\<lparr>found_repair = True, best_repair = r, best_repair_next_state = ?next, best_repair_skip_count = ?skip\<rparr>"
  let ?R = "set kept \<union> set (r # rs)" and ?S = "set (r # rs)"
  have IH: "repair_outcome L after state lookahead tree_count k ?R ?S result' session'
      (repair_loop L after state lookahead tree_count k kept' rs last_count' reductions' result' session')"
    if "set kept' \<subseteq> insert r (set kept)" "reductions' = None \<longrightarrow> last_count' = -1"
      "\<forall>rs. reductions' = Some rs \<longrightarrow> rs = after last_count'" for kept' last_count' reductions' result' session'
    by (rule repair_outcome_mono [OF Cons.IH [OF that(2,3)]]) (use that(1) in auto)
  consider (stop) "?needed > tree_count"
    | (erase) "\<not> ?needed > tree_count" "found_repair session \<and> ?skip \<ge> best_repair_skip_count session"
    | (keep) "\<not> ?needed > tree_count" "\<not> (found_repair session \<and> ?skip \<ge> best_repair_skip_count session)"
        "state = ERROR_STATE L \<or> ?next = ERROR_STATE L \<or> ts_language_actions L ?next lookahead = []"
    | (fits) "\<not> ?needed > tree_count" "\<not> (found_repair session \<and> ?skip \<ge> best_repair_skip_count session)"
        "\<not> (state = ERROR_STATE L \<or> ?next = ERROR_STATE L \<or> ts_language_actions L ?next lookahead = [])"
    by blast
  then show ?case
  proof cases
    case stop
    then show ?thesis by (simp add: repair_outcome_unchanged)
  next
    case erase
    then show ?thesis using IH [of kept, OF _ Cons.prems] by (simp only: repair_loop.simps Let_def if_True if_False) auto
  next
    case keep
    then show ?thesis using IH [of "r # kept", OF _ Cons.prems] by (simp only: repair_loop.simps Let_def if_True if_False) auto
  next
    case fits
    then have "?needed \<noteq> -1" using assms by (metis not_less word_order.extremum word_order.extremum_unique)
    then have cached: "(if ?needed \<noteq> last_count then (?needed, Some (after ?needed)) else (last_count, reductions))
        = (?needed, Some (after ?needed))"
      using Cons.prems by (cases reductions) auto
    note step = repair_loop.simps(2) [of L after state lookahead tree_count k kept r rs last_count reductions result session,
      unfolded Let_def cached prod.case option.case]
    show ?thesis
    proof (cases "list_ex (\<lambda>a. act_symbol a = red_symbol r) (after ?needed)")
      case False
      with fits IH [of "r # kept" "Some (after ?needed)" ?needed result session] show ?thesis unfolding step by auto
    next
      case True
      have "usable_repair L after state lookahead tree_count k r" "takes_repair L state tree_count k session r ?s"
        using fits True by (auto simp: usable_repair_def takes_repair_def list_ex_iff)
      from repair_outcome_take [OF this _ IH [of kept "Some (after ?needed)" ?needed]] fits True show ?thesis
        unfolding step by auto
    qed
  qed
qed

text \<open>
  The callback does not end abnormally; it stops the iteration exactly when no repair is left to
  try, it asks for a pop exactly when it has taken a repair, and a repair is taken only if it is
  usable here and skips fewer trees than the best one so far.
\<close>

lemma repair_error_callback_spec:
  assumes "tree_count \<noteq> -1"
  obtains result repairs' session' where
    "parser__repair_error_callback L lookahead trees_above k repairs session state trees tree_count = Some (result, repairs', session')"
    "StackIterateStop result \<longleftrightarrow> repairs' = []" "set repairs' \<subseteq> set repairs"
    "StackIteratePop result \<longleftrightarrow> session' \<noteq> session"
    "session' \<noteq> session \<Longrightarrow> \<exists>r \<in> set repairs.
       usable_repair L (\<lambda>n. parser__reductions_after_sequence L state trees n trees_above lookahead) state lookahead tree_count k r
       \<and> takes_repair L state tree_count k session r session'"
proof -
  let ?after = "\<lambda>n. parser__reductions_after_sequence L state trees n trees_above lookahead"
  have "repair_outcome L ?after state lookahead tree_count k (set repairs) (set repairs) StackIterateNone session
      (repair_loop L ?after state lookahead tree_count k [] repairs (-1) None StackIterateNone session)"
    using repair_loop_spec [OF assms, of None "-1" ?after L state lookahead k "[]" repairs] by simp
  then obtain repairs' session' pop where out:
    "repair_loop L ?after state lookahead tree_count k [] repairs (-1) None StackIterateNone session =
      Some (if pop then StackIterateNone\<lparr>StackIteratePop := True\<rparr> else StackIterateNone, repairs', session')"
    "set repairs' \<subseteq> set repairs"
    "if pop then \<exists>r \<in> set repairs. usable_repair L ?after state lookahead tree_count k r
        \<and> takes_repair L state tree_count k session r session'
     else session' = session"
    unfolding repair_outcome_def by blast
  have changed: "session' \<noteq> session" if pop
    using out(3) that by (auto simp: takes_repair_def)
  show ?thesis
  proof (rule that)
    show "parser__repair_error_callback L lookahead trees_above k repairs session state trees tree_count =
        Some (\<lparr>StackIteratePop = pop, StackIterateStop = (repairs' = [])\<rparr>, repairs', session')"
      unfolding parser__repair_error_callback_def out(1) by (simp add: StackIterateNone_def)
  qed (use out changed in \<open>auto split: if_splits\<close>)
qed

end
