(* ===== verification/Rtrs_State.thy ===== *)
theory Rtrs_State
  imports Prelude
begin

text \<open>
  The life of one path of the RDMA transport client (\<^verbatim>\<open>examples/rtrs-clt.c\<close>): the state machine of
  \<open>rtrs_clt_change_state\<close> and the threads that drive it. A path is initialised by the thread that
  opens it or by the reconnect work; connection events, heartbeat errors and requests of the user
  arrive at any time. The work queue runs one instance of the reconnect work and one of the close
  work; a section of code between two accesses to the shared state is one step.
\<close>

section \<open>The state machine\<close>

datatype rtrs_clt_state =
  RTRS_CLT_CONNECTING | RTRS_CLT_CONNECTING_ERR | RTRS_CLT_RECONNECTING | RTRS_CLT_CONNECTED
| RTRS_CLT_CLOSING | RTRS_CLT_CLOSED | RTRS_CLT_DEAD

text \<open>
  Where the threads are. \<open>init\<close> is \<open>init_path\<close>, run under \<open>init_mutex\<close> by the opener or by the
  reconnect work: before the handshake has been checked, after it was checked with or without an
  error, and after an error has been recorded in the state.
\<close>

datatype init_pc = NoInit | Waiting | Checked bool | Failed

datatype worker_pc = WorkerIdle | Stopping | Initialising

datatype close_pc = CloseIdle | CloseQueued | CloseRunning

record rtrs_clt_path =
  state :: rtrs_clt_state
  reconnect_attempts :: nat
  established :: bool
  fail_cnt :: nat
  reconnect_queued :: bool
  opener :: bool
  init :: init_pc
  worker :: worker_pc
  closer :: close_pc

definition may_change :: "rtrs_clt_state \<Rightarrow> rtrs_clt_state \<Rightarrow> bool" where
  "may_change new_state old_state = (case new_state of
       RTRS_CLT_CONNECTING \<Rightarrow> old_state = RTRS_CLT_RECONNECTING
     | RTRS_CLT_RECONNECTING \<Rightarrow> old_state \<in> {RTRS_CLT_CONNECTED, RTRS_CLT_CONNECTING_ERR, RTRS_CLT_CLOSED}
     | RTRS_CLT_CONNECTED \<Rightarrow> old_state = RTRS_CLT_CONNECTING
     | RTRS_CLT_CONNECTING_ERR \<Rightarrow> old_state = RTRS_CLT_CONNECTING
     | RTRS_CLT_CLOSING \<Rightarrow>
         old_state \<in> {RTRS_CLT_CONNECTING, RTRS_CLT_CONNECTING_ERR, RTRS_CLT_RECONNECTING, RTRS_CLT_CONNECTED}
     | RTRS_CLT_CLOSED \<Rightarrow> old_state = RTRS_CLT_CLOSING
     | RTRS_CLT_DEAD \<Rightarrow> old_state = RTRS_CLT_CLOSED)"

definition rtrs_clt_change_state :: "rtrs_clt_state \<Rightarrow> rtrs_clt_path \<Rightarrow> bool \<times> rtrs_clt_path" where
  "rtrs_clt_change_state new_state p =
     (if may_change new_state (state p) then (True, p\<lparr>state := new_state\<rparr>) else (False, p))"

definition rtrs_clt_change_state_from_to ::
  "rtrs_clt_state \<Rightarrow> rtrs_clt_state \<Rightarrow> rtrs_clt_path \<Rightarrow> bool \<times> rtrs_clt_path" where
  "rtrs_clt_change_state_from_to old_state new_state p =
     (if state p = old_state then rtrs_clt_change_state new_state p else (False, p))"

definition rtrs_clt_change_state_get_old ::
  "rtrs_clt_state \<Rightarrow> rtrs_clt_path \<Rightarrow> bool \<times> rtrs_clt_state \<times> rtrs_clt_path" where
  "rtrs_clt_change_state_get_old new_state p =
     (let (changed, p') = rtrs_clt_change_state new_state p in (changed, state p, p'))"

section \<open>Events and work\<close>

definition rtrs_rdma_error_recovery :: "rtrs_clt_path \<Rightarrow> rtrs_clt_path" where
  "rtrs_rdma_error_recovery p =
     (let (changed, p) = rtrs_clt_change_state_from_to RTRS_CLT_CONNECTED RTRS_CLT_RECONNECTING p in
      if changed then p\<lparr>reconnect_queued := True\<rparr>
      else snd (rtrs_clt_change_state_from_to RTRS_CLT_CONNECTING RTRS_CLT_CONNECTING_ERR p))"

text \<open>Without the wait for the work; the caller that waits is blocked until \<open>closer\<close> is idle.\<close>

definition rtrs_clt_close_conns :: "rtrs_clt_path \<Rightarrow> rtrs_clt_path" where
  "rtrs_clt_close_conns p =
     (let (changed, _, p) = rtrs_clt_change_state_get_old RTRS_CLT_CLOSING p in
      if changed then p\<lparr>closer := CloseQueued\<rparr> else p)"

text \<open>The response to the path info request, which is well formed and processed, or not.\<close>

definition rtrs_clt_info_rsp_done :: "bool \<Rightarrow> rtrs_clt_path \<Rightarrow> rtrs_clt_path" where
  "rtrs_clt_info_rsp_done ok p =
     snd (snd (rtrs_clt_change_state_get_old (if ok then RTRS_CLT_CONNECTED else RTRS_CLT_CONNECTING_ERR) p))"

text \<open>
  \<open>init_path\<close>: an error of \<open>init_conns\<close>, of the allocation or of the send (\<open>failed\<close>), or the
  state after the wait, is the error that is checked.
\<close>

definition init_check :: "bool \<Rightarrow> rtrs_clt_path \<Rightarrow> rtrs_clt_path" where
  "init_check failed p = p\<lparr>init := Checked (failed \<or> state p \<noteq> RTRS_CLT_CONNECTED)\<rparr>"

definition init_fail :: "rtrs_clt_path \<Rightarrow> rtrs_clt_path" where
  "init_fail p = (snd (snd (rtrs_clt_change_state_get_old RTRS_CLT_CONNECTING_ERR p)))\<lparr>init := Failed\<rparr>"

definition rtrs_clt_path_up :: "rtrs_clt_path \<Rightarrow> rtrs_clt_path" where
  "rtrs_clt_path_up p = p\<lparr>established := True, reconnect_attempts := 0\<rparr>"

definition init_succeed :: "rtrs_clt_path \<Rightarrow> rtrs_clt_path" where
  "init_succeed p = (let p = (rtrs_clt_path_up p)\<lparr>init := NoInit\<rparr> in
     if opener p then p\<lparr>opener := False\<rparr> else p\<lparr>worker := WorkerIdle\<rparr>)"

text \<open>The opener closes a path that it could not initialise.\<close>

definition open_failed :: "rtrs_clt_path \<Rightarrow> rtrs_clt_path" where
  "open_failed p = rtrs_clt_close_conns (p\<lparr>init := NoInit, opener := False\<rparr>)"

definition reconnect_work_begin :: "nat \<Rightarrow> rtrs_clt_path \<Rightarrow> rtrs_clt_path" where
  "reconnect_work_begin max_reconnect_attempts p0 =
     (let p = p0\<lparr>reconnect_queued := False\<rparr> in
      if state p \<noteq> RTRS_CLT_RECONNECTING then p
      else if reconnect_attempts p \<ge> max_reconnect_attempts then rtrs_clt_close_conns p
      else p\<lparr>reconnect_attempts := reconnect_attempts p + 1, worker := Stopping\<rparr>)"

definition reconnect_work_connect :: "rtrs_clt_path \<Rightarrow> rtrs_clt_path" where
  "reconnect_work_connect p0 =
     (let (changed, _, p) = rtrs_clt_change_state_get_old RTRS_CLT_CONNECTING (p0\<lparr>established := False\<rparr>) in
      if changed then p\<lparr>init := Waiting, worker := Initialising\<rparr> else p\<lparr>worker := WorkerIdle\<rparr>)"

definition reconnect_again :: "rtrs_clt_path \<Rightarrow> rtrs_clt_path" where
  "reconnect_again p0 =
     (let (changed, _, p) = rtrs_clt_change_state_get_old RTRS_CLT_RECONNECTING
        (p0\<lparr>init := NoInit, worker := WorkerIdle\<rparr>) in
      if changed then p\<lparr>fail_cnt := fail_cnt p + 1, reconnect_queued := True\<rparr> else p)"

text \<open>\<open>cancel_delayed_work_sync\<close> takes the reconnect work off the queue and waits for a running one.\<close>

definition close_work_begin :: "rtrs_clt_path \<Rightarrow> rtrs_clt_path" where
  "close_work_begin p = p\<lparr>reconnect_queued := False, closer := CloseRunning\<rparr>"

definition close_work_finish :: "rtrs_clt_path \<Rightarrow> rtrs_clt_path" where
  "close_work_finish p =
     snd (snd (rtrs_clt_change_state_get_old RTRS_CLT_CLOSED (p\<lparr>established := False, closer := CloseIdle\<rparr>)))"

definition rtrs_clt_reconnect_from_sysfs :: "rtrs_clt_path \<Rightarrow> rtrs_clt_path" where
  "rtrs_clt_reconnect_from_sysfs p0 =
     (let (changed, _, p) = rtrs_clt_change_state_get_old RTRS_CLT_RECONNECTING p0 in
      if changed then p\<lparr>reconnect_attempts := 0, reconnect_queued := True\<rparr> else p)"

text \<open>The last statement of the loop of \<open>rtrs_clt_remove_path_from_sysfs\<close>.\<close>

definition remove_path_dead :: "rtrs_clt_path \<Rightarrow> bool \<times> rtrs_clt_path" where
  "remove_path_dead p = (let (changed, _, p) = rtrs_clt_change_state_get_old RTRS_CLT_DEAD p in (changed, p))"

text \<open>A new path, about to be initialised by its opener.\<close>

definition alloc_path :: rtrs_clt_path where
  "alloc_path = \<lparr>state = RTRS_CLT_CONNECTING, reconnect_attempts = 0, established = False, fail_cnt = 0,
     reconnect_queued = False, opener = True, init = Waiting, worker = WorkerIdle, closer = CloseIdle\<rparr>"

section \<open>Runs\<close>

text \<open>The steps of the threads and of the queued work, without new events from outside.\<close>

inductive internal_step :: "nat \<Rightarrow> rtrs_clt_path \<Rightarrow> rtrs_clt_path \<Rightarrow> bool" for m :: nat where
  check: "init p = Waiting \<Longrightarrow> internal_step m p (init_check failed p)"
| fail: "init p = Checked True \<Longrightarrow> internal_step m p (init_fail p)"
| succeed: "init p = Checked False \<Longrightarrow> internal_step m p (init_succeed p)"
| open_failed: "init p = Failed \<Longrightarrow> opener p \<Longrightarrow> internal_step m p (open_failed p)"
| again: "init p = Failed \<Longrightarrow> worker p = Initialising \<Longrightarrow> internal_step m p (reconnect_again p)"
| work_begin: "reconnect_queued p \<Longrightarrow> worker p = WorkerIdle \<Longrightarrow> internal_step m p (reconnect_work_begin m p)"
| work_connect: "worker p = Stopping \<Longrightarrow> init p = NoInit \<Longrightarrow> internal_step m p (reconnect_work_connect p)"
| close_begin: "closer p = CloseQueued \<Longrightarrow> worker p = WorkerIdle \<Longrightarrow> internal_step m p (close_work_begin p)"
| close_finish: "closer p = CloseRunning \<Longrightarrow> init p = NoInit \<Longrightarrow> internal_step m p (close_work_finish p)"

inductive path_step :: "nat \<Rightarrow> rtrs_clt_path \<Rightarrow> rtrs_clt_path \<Rightarrow> bool" for m :: nat where
  internal: "internal_step m p q \<Longrightarrow> path_step m p q"
| error: "path_step m p (rtrs_rdma_error_recovery p)"
| close: "path_step m p (rtrs_clt_close_conns p)"
| info: "path_step m p (rtrs_clt_info_rsp_done ok p)"
| sysfs_reconnect: "path_step m p (rtrs_clt_reconnect_from_sysfs p)"
| sysfs_remove: "closer p = CloseIdle \<Longrightarrow> path_step m p (snd (remove_path_dead p))"

inductive path_reachable :: "nat \<Rightarrow> rtrs_clt_path \<Rightarrow> bool" for m :: nat where
  start: "path_reachable m alloc_path"
| step: "path_reachable m p \<Longrightarrow> path_step m p q \<Longrightarrow> path_reachable m q"

section \<open>No path is forgotten\<close>

definition path_inv :: "rtrs_clt_path \<Rightarrow> bool" where
  "path_inv p \<longleftrightarrow>
     (closer p = CloseIdle \<longleftrightarrow> state p \<noteq> RTRS_CLT_CLOSING)
     \<and> (closer p = CloseRunning \<longrightarrow> worker p = WorkerIdle \<and> \<not> reconnect_queued p)
     \<and> (init p \<noteq> NoInit \<longleftrightarrow> opener p \<or> worker p = Initialising)
     \<and> \<not> (opener p \<and> worker p = Initialising)
     \<and> (state p = RTRS_CLT_CONNECTING \<longrightarrow> init p \<in> {Waiting, Checked True})
     \<and> (state p = RTRS_CLT_CONNECTING_ERR \<longrightarrow> init p \<in> {Waiting, Checked True, Failed})
     \<and> (state p = RTRS_CLT_RECONNECTING \<longrightarrow> reconnect_queued p \<or> worker p = Stopping)
     \<and> (state p \<in> {RTRS_CLT_CLOSED, RTRS_CLT_DEAD} \<longrightarrow>
          \<not> reconnect_queued p \<and> worker p = WorkerIdle \<and> init p = NoInit)"

lemmas path_defs = rtrs_rdma_error_recovery_def rtrs_clt_close_conns_def rtrs_clt_info_rsp_done_def
  init_check_def init_fail_def init_succeed_def open_failed_def reconnect_again_def
  reconnect_work_begin_def reconnect_work_connect_def close_work_begin_def close_work_finish_def
  rtrs_clt_reconnect_from_sysfs_def remove_path_dead_def rtrs_clt_path_up_def
  rtrs_clt_change_state_from_to_def rtrs_clt_change_state_get_old_def rtrs_clt_change_state_def Let_def

lemma path_inv_internal:
  assumes "internal_step m p q" and "path_inv p"
  shows "path_inv q"
  using assms
  by (cases rule: internal_step.cases; cases "state p") (auto simp: path_inv_def path_defs may_change_def)

lemma path_inv_event:
  "path_inv p \<Longrightarrow> path_inv (rtrs_rdma_error_recovery p)"
  "path_inv p \<Longrightarrow> path_inv (rtrs_clt_close_conns p)"
  "path_inv p \<Longrightarrow> path_inv (rtrs_clt_info_rsp_done ok p)"
  "path_inv p \<Longrightarrow> path_inv (rtrs_clt_reconnect_from_sysfs p)"
  "path_inv p \<Longrightarrow> closer p = CloseIdle \<Longrightarrow> path_inv (snd (remove_path_dead p))"
  by (cases "state p"; auto simp: path_inv_def path_defs may_change_def)+

lemma path_inv_step: "path_step m p q \<Longrightarrow> path_inv p \<Longrightarrow> path_inv q"
  by (erule path_step.cases) (simp_all add: path_inv_internal path_inv_event)

lemma path_inv_reachable: "path_reachable m p \<Longrightarrow> path_inv p"
proof (induction rule: path_reachable.induct)
  case start
  show ?case by (simp add: alloc_path_def path_inv_def)
qed (rule path_inv_step)

lemma attempts_internal:
  "internal_step m p q \<Longrightarrow> reconnect_attempts p \<le> m \<Longrightarrow> reconnect_attempts q \<le> m"
  by (cases rule: internal_step.cases) (auto simp: path_defs may_change_def)

lemma attempts_reachable: "path_reachable m p \<Longrightarrow> reconnect_attempts p \<le> m"
proof (induction rule: path_reachable.induct)
  case (step p q)
  from step.hyps(2) step.IH show ?case
    by (cases rule: path_step.cases) (auto simp: path_defs may_change_def attempts_internal)
qed (simp add: alloc_path_def)

text \<open>
  Work that is left: an initialisation that will succeed, the attempts that are left, and how far
  the threads are.
\<close>

definition may_succeed :: "rtrs_clt_path \<Rightarrow> bool" where
  "may_succeed p \<longleftrightarrow> init p = Checked False \<or> (init p = Waiting \<and> state p = RTRS_CLT_CONNECTED)"

definition phase :: "rtrs_clt_path \<Rightarrow> nat" where
  "phase p = (case init p of NoInit \<Rightarrow> 0 | Waiting \<Rightarrow> 3 | Checked _ \<Rightarrow> 2 | Failed \<Rightarrow> 1)
     + (case worker p of WorkerIdle \<Rightarrow> 0 | Stopping \<Rightarrow> 10 | Initialising \<Rightarrow> 5)
     + (case closer p of CloseIdle \<Rightarrow> 0 | CloseQueued \<Rightarrow> 2 | CloseRunning \<Rightarrow> 1)
     + (if opener p then 4 else 0) + (if reconnect_queued p then 3 else 0)"

definition work_left :: "nat \<Rightarrow> rtrs_clt_path \<Rightarrow> nat" where
  "work_left m p = (if may_succeed p then 30 * (m + 1) else 0) + 30 * (m - reconnect_attempts p) + phase p"

lemma work_left_decreases:
  assumes "internal_step m p q" and "path_inv p"
  shows "work_left m q < work_left m p"
  using assms
  by (cases rule: internal_step.cases; cases "state p")
    (auto simp: path_inv_def path_defs may_change_def work_left_def may_succeed_def phase_def
      split: worker_pc.splits close_pc.splits)

lemma work_left_bound: "work_left m p \<le> 30 * (2 * m + 2)"
proof -
  have "phase p \<le> 30"
    by (simp add: phase_def split: init_pc.splits worker_pc.splits close_pc.splits)
  moreover have "(if may_succeed p then 30 * (m + 1) else 0) + 30 * (m - reconnect_attempts p) \<le> 30 * (m + 1) + 30 * m"
    by (intro add_mono) simp_all
  ultimately have "work_left m p \<le> (30 * (m + 1) + 30 * m) + 30"
    unfolding work_left_def by (intro add_mono) simp_all
  then show ?thesis by simp
qed

lemma internal_run:
  "(internal_step m ^^ n) p q \<Longrightarrow> path_inv p \<Longrightarrow> path_inv q \<and> work_left m q + n \<le> work_left m p"
proof (induction n arbitrary: q)
  case (Suc n)
  from Suc.prems(1) obtain r where r: "(internal_step m ^^ n) p r" "internal_step m r q" by auto
  from Suc.IH [OF r(1) Suc.prems(2)] work_left_decreases [OF r(2)] path_inv_internal [OF r(2)] show ?case by auto
qed simp

text \<open>Nothing is queued and no thread works on the path.\<close>

definition path_idle :: "rtrs_clt_path \<Rightarrow> bool" where
  "path_idle p \<longleftrightarrow> \<not> reconnect_queued p \<and> init p = NoInit \<and> worker p = WorkerIdle \<and> closer p = CloseIdle"

lemma stuck_is_settled:
  assumes inv: "path_inv p" and stuck: "\<And>q. \<not> internal_step m p q"
  shows "state p \<in> {RTRS_CLT_CONNECTED, RTRS_CLT_CLOSED, RTRS_CLT_DEAD} \<and> path_idle p"
proof -
  have init: "init p = NoInit"
    using inv stuck internal_step.check [of p m True] internal_step.fail [of p m] internal_step.succeed [of p m]
      internal_step.open_failed [of p m] internal_step.again [of p m]
    by (cases "init p") (auto simp: path_inv_def)
  then have worker: "worker p = WorkerIdle"
    using inv stuck internal_step.work_connect [of p m] by (cases "worker p") (auto simp: path_inv_def)
  have "\<not> reconnect_queued p" using stuck worker internal_step.work_begin [of p m] by blast
  moreover have "closer p = CloseIdle"
    using stuck init worker internal_step.close_begin [of p m] internal_step.close_finish [of p m]
    by (cases "closer p") auto
  ultimately show ?thesis
    using inv init worker by (cases "state p") (auto simp: path_inv_def path_idle_def)
qed


lemma dead_idle: "path_inv p \<Longrightarrow> state p = RTRS_CLT_DEAD \<Longrightarrow> path_idle p"
  by (auto simp: path_inv_def path_idle_def)

lemma dead_step:
  assumes "path_step m p q" "path_inv p" "state p = RTRS_CLT_DEAD"
  shows "q = p"
proof -
  have idle: "\<not> internal_step m p q"
    using dead_idle [OF assms(2,3)] by (auto simp: path_idle_def path_inv_def elim!: internal_step.cases)
  from assms(1) show ?thesis
    by (cases rule: path_step.cases) (use idle assms(3) in \<open>auto simp: path_defs may_change_def\<close>)
qed


section \<open>Witnesses\<close>

definition failed_path :: rtrs_clt_path where
  "failed_path = open_failed (init_fail (init_check True alloc_path))"

definition closed_path :: rtrs_clt_path where
  "closed_path = close_work_finish (close_work_begin failed_path)"

lemmas example_path_defs = closed_path_def failed_path_def alloc_path_def path_defs may_change_def

lemma failed_path_steps:
  "internal_step m alloc_path (init_check True alloc_path)"
  "internal_step m (init_check True alloc_path) (init_fail (init_check True alloc_path))"
  "internal_step m (init_fail (init_check True alloc_path)) failed_path"
  "internal_step m failed_path (close_work_begin failed_path)"
  "internal_step m (close_work_begin failed_path) closed_path"
proof -
  show "internal_step m alloc_path (init_check True alloc_path)"
    by (rule internal_step.check) (simp add: alloc_path_def)
  show "internal_step m (init_check True alloc_path) (init_fail (init_check True alloc_path))"
    by (rule internal_step.fail) (simp add: init_check_def)
  show "internal_step m (init_fail (init_check True alloc_path)) failed_path"
    unfolding failed_path_def by (rule internal_step.open_failed) (simp_all add: example_path_defs)
  show "internal_step m failed_path (close_work_begin failed_path)"
    by (rule internal_step.close_begin) (simp_all add: example_path_defs)
  show "internal_step m (close_work_begin failed_path) closed_path"
    unfolding closed_path_def by (rule internal_step.close_finish) (simp_all add: example_path_defs)
qed

lemma closed_path_run: "(internal_step m ^^ Suc (Suc (Suc (Suc (Suc 0))))) alloc_path closed_path"
  by (rule relpowp_Suc_I, rule relpowp_Suc_I, rule relpowp_Suc_I, rule relpowp_Suc_I, rule relpowp_Suc_I,
      rule relpowp_0_I) (rule failed_path_steps)+

lemma closed_path_reachable: "path_reachable m closed_path"
proof -
  have step: "path_reachable m p \<Longrightarrow> internal_step m p q \<Longrightarrow> path_reachable m q" for p q
    by (rule path_reachable.step [OF _ path_step.internal])
  show ?thesis
    by (rule step, rule step, rule step, rule step, rule step, rule path_reachable.start) (rule failed_path_steps)+
qed



end
