(* ===== verification/Rtrs_Paths.thy ===== *)
theory Rtrs_Paths
  imports Rtrs_State
begin

text \<open>
  The paths of a session of the RDMA transport client (\<^verbatim>\<open>examples/rtrs-clt.c\<close>): the choice of the next
  path under the three multipath policies, the loop of a request over the paths, the addition and
  removal of paths and the counter of the paths that are up. Posting a request on a path
  (\<open>rtrs_clt_read_req\<close>, \<open>rtrs_clt_write_req\<close>) is the parameter \<open>post\<close>, an error or 0 for every path;
  paths are references, and a reader sees the list as it is between two changes.
\<close>

section \<open>Data\<close>

type_synonym pref = nat

datatype mp_policy = MP_POLICY_RR | MP_POLICY_MIN_INFLIGHT | MP_POLICY_MIN_LATENCY

datatype link_event = RTRS_CLT_LINK_EV_RECONNECTED | RTRS_CLT_LINK_EV_DISCONNECTED

record mp_path =
  mp_state :: rtrs_clt_state
  inflight :: int
  hb_cur_latency :: int
  max_hdr_size :: nat
  mp_established :: bool

record rtrs_clt_sess =
  paths_list :: "pref list"
  paths :: "pref \<Rightarrow> mp_path"
  paths_num :: nat
  mp_policy :: mp_policy
  pcpu_path :: "nat \<Rightarrow> pref option"
  paths_up :: nat
  link_ev :: "link_event list"

definition INT_MAX :: int where "INT_MAX = 2 ^ 31 - 1"
definition KTIME_MAX :: int where "KTIME_MAX = 2 ^ 63 - 1"
definition ECONNABORTED :: int where "ECONNABORTED = 103"
definition EMSGSIZE :: int where "EMSGSIZE = 90"

definition connected :: "rtrs_clt_sess \<Rightarrow> pref \<Rightarrow> bool" where
  "connected clt r \<longleftrightarrow> mp_state (paths clt r) = RTRS_CLT_CONNECTED"

definition rtrs_clt_is_connected :: "rtrs_clt_sess \<Rightarrow> bool" where
  "rtrs_clt_is_connected clt = foldl (\<lambda>c r. c \<or> connected clt r) False (paths_list clt)"

section \<open>The next path\<close>

definition list_first_or_null :: "'a list \<Rightarrow> 'a option" where
  "list_first_or_null xs = (case xs of [] \<Rightarrow> None | x # _ \<Rightarrow> Some x)"

text \<open>The element after \<open>p\<close>; the first one after the last one.\<close>

definition list_next_or_null_rr :: "'a list \<Rightarrow> 'a \<Rightarrow> 'a option" where
  "list_next_or_null_rr xs p = (case dropWhile (\<lambda>x. x \<noteq> p) xs of
       _ # y # _ \<Rightarrow> Some y
     | _ \<Rightarrow> list_first_or_null xs)"

definition get_next_path_rr :: "nat \<Rightarrow> rtrs_clt_sess \<Rightarrow> pref option \<times> rtrs_clt_sess" where
  "get_next_path_rr cpu clt =
     (let path = (case pcpu_path clt cpu of
            None \<Rightarrow> list_first_or_null (paths_list clt)
          | Some p \<Rightarrow> list_next_or_null_rr (paths_list clt) p) in
      (path, clt\<lparr>pcpu_path := (pcpu_path clt)(cpu := path)\<rparr>))"

text \<open>The scan of both minimum policies, over the connected paths that are not in the skip list.\<close>

definition min_path :: "(pref \<Rightarrow> int) \<Rightarrow> int \<Rightarrow> rtrs_clt_sess \<Rightarrow> pref list \<Rightarrow> pref option" where
  "min_path key limit clt skip_list =
     fst (foldl (\<lambda>(m, v) r. if \<not> connected clt r then (m, v)
          else if r \<in> set skip_list then (m, v)
          else if key r < v then (Some r, key r) else (m, v))
        (None, limit) (paths_list clt))"

definition get_next_path_min_inflight :: "rtrs_clt_sess \<Rightarrow> pref list \<Rightarrow> pref option \<times> pref list" where
  "get_next_path_min_inflight clt skip_list =
     (let m = min_path (\<lambda>r. inflight (paths clt r)) INT_MAX clt skip_list in
      (m, case m of None \<Rightarrow> skip_list | Some r \<Rightarrow> r # skip_list))"

definition get_next_path_min_latency :: "rtrs_clt_sess \<Rightarrow> pref list \<Rightarrow> pref option \<times> pref list" where
  "get_next_path_min_latency clt skip_list =
     (let m = min_path (\<lambda>r. hb_cur_latency (paths clt r)) KTIME_MAX clt skip_list in
      (m, case m of None \<Rightarrow> skip_list | Some r \<Rightarrow> r # skip_list))"

definition next_path :: "nat \<Rightarrow> rtrs_clt_sess \<Rightarrow> pref list \<Rightarrow> pref option \<times> rtrs_clt_sess \<times> pref list" where
  "next_path cpu clt skip_list = (case mp_policy clt of
       MP_POLICY_RR \<Rightarrow> let (path, clt) = get_next_path_rr cpu clt in (path, clt, skip_list)
     | MP_POLICY_MIN_INFLIGHT \<Rightarrow> let (path, skip_list) = get_next_path_min_inflight clt skip_list in (path, clt, skip_list)
     | MP_POLICY_MIN_LATENCY \<Rightarrow> let (path, skip_list) = get_next_path_min_latency clt skip_list in (path, clt, skip_list))"

section \<open>A request\<close>

text \<open>
  The loop with \<open>n = paths_num - i\<close> rounds left. The next path is taken before the counter is
  tested. The result is the error, the path on which the request was posted and the session.
\<close>

primrec request_loop ::
  "(pref \<Rightarrow> int) \<Rightarrow> nat \<Rightarrow> nat \<Rightarrow> nat \<Rightarrow> rtrs_clt_sess \<Rightarrow> pref list \<Rightarrow> int \<Rightarrow> int \<times> pref option \<times> rtrs_clt_sess" where
  "request_loop post msg_len cpu 0 clt skip_list err =
     (let (path, clt, skip_list) = next_path cpu clt skip_list in (err, None, clt))"
| "request_loop post msg_len cpu (Suc n) clt skip_list err =
     (let (path, clt, skip_list) = next_path cpu clt skip_list in
      case path of None \<Rightarrow> (err, None, clt)
      | Some r \<Rightarrow>
          if \<not> connected clt r then request_loop post msg_len cpu n clt skip_list err
          else if msg_len > max_hdr_size (paths clt r) then (- EMSGSIZE, None, clt)
          else if post r \<noteq> 0 then request_loop post msg_len cpu n clt skip_list (post r)
          else (0, Some r, clt))"

text \<open>\<open>sizes\<close> are the sizes of a read message, of a segment descriptor and of a write message.\<close>

definition rtrs_clt_request ::
  "nat \<times> nat \<times> nat \<Rightarrow> (bool \<Rightarrow> pref \<Rightarrow> int) \<Rightarrow> nat \<Rightarrow> bool \<Rightarrow> nat list \<Rightarrow> nat \<Rightarrow> rtrs_clt_sess
    \<Rightarrow> int \<times> pref option \<times> rtrs_clt_sess" where
  "rtrs_clt_request sizes post cpu is_read vec sg_cnt clt =
     (let (rd, desc, wr) = sizes;
          usr_len = sum_list vec;
          hdr_len = (if is_read then rd + sg_cnt * desc else wr) in
      request_loop (post is_read) (usr_len + hdr_len) cpu (paths_num clt) clt [] (- ECONNABORTED))"

text \<open>A request of a broken path is posted again on another one; its length was checked before.\<close>

definition rtrs_clt_failover_req :: "(pref \<Rightarrow> int) \<Rightarrow> nat \<Rightarrow> rtrs_clt_sess \<Rightarrow> int \<times> pref option \<times> rtrs_clt_sess" where
  "rtrs_clt_failover_req post cpu clt = request_loop post 0 cpu (paths_num clt) clt [] (- ECONNABORTED)"

section \<open>Paths come and go\<close>

definition rtrs_clt_add_path_to_arr :: "pref \<Rightarrow> rtrs_clt_sess \<Rightarrow> rtrs_clt_sess" where
  "rtrs_clt_add_path_to_arr r clt = clt\<lparr>paths_num := paths_num clt + 1, paths_list := paths_list clt @ [r]\<rparr>"

text \<open>
  The successor is read through the entry that has left the list: the element that followed it,
  or the first one of the new list.
\<close>

definition rtrs_clt_remove_path_from_arr :: "pref \<Rightarrow> rtrs_clt_sess \<Rightarrow> rtrs_clt_sess" where
  "rtrs_clt_remove_path_from_arr r clt =
     (let ys = remove1 r (paths_list clt);
          nxt = (case dropWhile (\<lambda>x. x \<noteq> r) (paths_list clt) of
              _ # y # _ \<Rightarrow> Some y
            | _ \<Rightarrow> list_first_or_null ys) in
      clt\<lparr>paths_list := ys, paths_num := paths_num clt - 1,
        pcpu_path := (\<lambda>cpu. if pcpu_path clt cpu = Some r then nxt else pcpu_path clt cpu)\<rparr>)"

text \<open>The counter of \<open>rtrs_clt_open\<close> starts above \<open>max_paths_num\<close>, a constant of the header.\<close>

definition path_up_event :: "nat \<Rightarrow> pref \<Rightarrow> rtrs_clt_sess \<Rightarrow> rtrs_clt_sess" where
  "path_up_event max_paths_num r clt =
     (let up = paths_up clt + 1;
          clt = clt\<lparr>paths_up := up, paths := (paths clt)(r := (paths clt r)\<lparr>mp_established := True\<rparr>)\<rparr> in
      if up > max_paths_num \<and> up = max_paths_num + paths_num clt then clt\<lparr>paths_up := paths_num clt\<rparr>
      else if up = 1 then clt\<lparr>link_ev := link_ev clt @ [RTRS_CLT_LINK_EV_RECONNECTED]\<rparr>
      else clt)"

definition rtrs_clt_path_down :: "pref \<Rightarrow> rtrs_clt_sess \<Rightarrow> rtrs_clt_sess" where
  "rtrs_clt_path_down r clt =
     (if \<not> mp_established (paths clt r) then clt
      else let clt = clt\<lparr>paths := (paths clt)(r := (paths clt r)\<lparr>mp_established := False\<rparr>), paths_up := paths_up clt - 1\<rparr> in
        if paths_up clt = 0 then clt\<lparr>link_ev := link_ev clt @ [RTRS_CLT_LINK_EV_DISCONNECTED]\<rparr> else clt)"

section \<open>The paths that a request tries\<close>

text \<open>What the operations keep of a session: the count is right and no pointer is left dangling.\<close>

definition sess_ok :: "rtrs_clt_sess \<Rightarrow> bool" where
  "sess_ok clt \<longleftrightarrow> distinct (paths_list clt) \<and> paths_num clt = length (paths_list clt)
     \<and> (\<forall>cpu p. pcpu_path clt cpu = Some p \<longrightarrow> p \<in> set (paths_list clt))"

lemma first_in_list: "list_first_or_null xs = Some y \<Longrightarrow> y \<in> set xs"
  by (auto simp: list_first_or_null_def split: list.splits)

lemma dropWhile_split:
  assumes "distinct xs" "p \<in> set xs"
  obtains us vs where "xs = us @ p # vs" "p \<notin> set us" "p \<notin> set vs" "dropWhile (\<lambda>x. x \<noteq> p) xs = p # vs"
proof -
  from assms(2) obtain us vs where xs: "xs = us @ p # vs" "p \<notin> set us" by (metis split_list_first)
  then have "dropWhile (\<lambda>x. x \<noteq> p) xs = p # vs" by (auto simp: dropWhile_append)
  with xs assms(1) show ?thesis by (intro that) auto
qed

lemma next_rr_in_list: "list_next_or_null_rr xs p = Some y \<Longrightarrow> y \<in> set xs"
  by (auto simp: list_next_or_null_rr_def first_in_list split: list.splits dest: set_dropWhileD)
    (metis list.set_intros(1,2) set_dropWhileD)

lemma add_path_ok: "sess_ok clt \<Longrightarrow> r \<notin> set (paths_list clt) \<Longrightarrow> sess_ok (rtrs_clt_add_path_to_arr r clt)"
  by (auto simp: sess_ok_def rtrs_clt_add_path_to_arr_def)

lemma remove_path_ok:
  assumes "sess_ok clt" "r \<in> set (paths_list clt)"
  shows "sess_ok (rtrs_clt_remove_path_from_arr r clt)"
proof -
  from assms obtain us vs where xs: "paths_list clt = us @ r # vs" "r \<notin> set us" "r \<notin> set vs"
    "dropWhile (\<lambda>x. x \<noteq> r) (paths_list clt) = r # vs"
    by (auto simp: sess_ok_def elim: dropWhile_split)
  then have ys: "remove1 r (paths_list clt) = us @ vs" by (simp add: remove1_append)
  have nxt: "y \<in> set us \<union> set vs"
    if "(case r # vs of _ # y # _ \<Rightarrow> Some y | _ \<Rightarrow> list_first_or_null (us @ vs)) = Some y" for y
    using that first_in_list [of "us @ vs"] by (cases vs) auto
  have old: "distinct (us @ r # vs)" "paths_num clt = length (us @ r # vs)"
    "\<forall>cpu p. pcpu_path clt cpu = Some p \<longrightarrow> p \<in> set (us @ r # vs)"
    using assms(1) xs(1) by (auto simp: sess_ok_def)
  show ?thesis
    unfolding rtrs_clt_remove_path_from_arr_def Let_def ys xs(4) sess_ok_def using old nxt by auto
qed

lemma next_path_frame:
  assumes "next_path cpu clt skip = (path, clt', skip')"
  shows "paths_list clt' = paths_list clt" "paths clt' = paths clt" "paths_num clt' = paths_num clt"
    "mp_policy clt' = mp_policy clt" "connected clt' = connected clt"
  using assms
  by (auto simp: next_path_def get_next_path_rr_def get_next_path_min_inflight_def get_next_path_min_latency_def
      Let_def connected_def fun_eq_iff split: mp_policy.splits)

lemma next_path_ok:
  assumes "next_path cpu clt skip = (path, clt', skip')" and "sess_ok clt"
  shows "sess_ok clt'"
  using assms first_in_list [of "paths_list clt"] next_rr_in_list [of "paths_list clt"]
  by (auto simp: next_path_def get_next_path_rr_def get_next_path_min_inflight_def get_next_path_min_latency_def
      sess_ok_def Let_def split: mp_policy.splits option.splits if_splits)

text \<open>The paths that at most \<open>n\<close> calls of the iterator give, until it gives none.\<close>

primrec visits :: "nat \<Rightarrow> nat \<Rightarrow> rtrs_clt_sess \<Rightarrow> pref list \<Rightarrow> pref list" where
  "visits cpu 0 clt skip_list = []"
| "visits cpu (Suc n) clt skip_list =
     (case next_path cpu clt skip_list of
        (None, _, _) \<Rightarrow> []
      | (Some r, clt, skip_list) \<Rightarrow> r # visits cpu n clt skip_list)"

text \<open>Trying the paths of a list in order.\<close>

primrec try_paths :: "(pref \<Rightarrow> bool) \<Rightarrow> (pref \<Rightarrow> int) \<Rightarrow> pref list \<Rightarrow> int \<Rightarrow> int \<times> pref option" where
  "try_paths conn post [] err = (err, None)"
| "try_paths conn post (r # rs) err =
     (if \<not> conn r then try_paths conn post rs err
      else if post r \<noteq> 0 then try_paths conn post rs (post r)
      else (0, Some r))"

lemma request_loop_visits:
  assumes "\<And>r. r \<in> set (paths_list clt) \<Longrightarrow> connected clt r \<Longrightarrow> msg_len \<le> max_hdr_size (paths clt r)"
    and "set (visits cpu n clt skip) \<subseteq> set (paths_list clt)"
  shows "\<exists>clt'. request_loop post msg_len cpu n clt skip err =
    (fst (try_paths (connected clt) post (visits cpu n clt skip) err),
     snd (try_paths (connected clt) post (visits cpu n clt skip) err), clt')"
  using assms
proof (induction n arbitrary: clt skip err)
  case 0
  then show ?case by (simp add: Let_def split: prod.split)
next
  case (Suc n)
  obtain path clt1 skip1 where nx: "next_path cpu clt skip = (path, clt1, skip1)" by (metis prod_cases3)
  note frame = next_path_frame [OF nx]
  show ?case
  proof (cases path)
    case None
    with nx show ?thesis by simp
  next
    case (Some r)
    have "r \<in> set (paths_list clt)" "set (visits cpu n clt1 skip1) \<subseteq> set (paths_list clt1)"
      using Suc.prems(2) nx Some frame by auto
    then have IH: "\<exists>clt'. request_loop post msg_len cpu n clt1 skip1 e =
        (fst (try_paths (connected clt) post (visits cpu n clt1 skip1) e),
         snd (try_paths (connected clt) post (visits cpu n clt1 skip1) e), clt')" for e
      using Suc.IH [of clt1 skip1 e] Suc.prems(1) frame by simp
    have "msg_len \<le> max_hdr_size (paths clt r)" if "connected clt r"
      using Suc.prems(1) that \<open>r \<in> set (paths_list clt)\<close> by blast
    with IH [of err] IH [of "post r"] nx Some frame show ?thesis by (auto simp: Let_def)
  qed
qed

lemma try_paths_posts:
  "try_paths conn post ws err = (e, Some r) \<Longrightarrow> e = 0 \<and> r \<in> set ws \<and> conn r \<and> post r = 0"
  by (induction ws arbitrary: err) (auto split: if_splits)

lemma try_paths_none:
  "try_paths conn post ws err = (e, None) \<Longrightarrow>
     (\<forall>r \<in> set ws. conn r \<longrightarrow> post r \<noteq> 0) \<and>
     (if \<exists>r \<in> set ws. conn r then \<exists>r \<in> set ws. conn r \<and> e = post r else e = err)"
proof (induction ws arbitrary: err)
  case (Cons r ws)
  show ?case
  proof (cases "conn r")
    case True
    with Cons.prems have "post r \<noteq> 0" "try_paths conn post ws (post r) = (e, None)" by (auto split: if_splits)
    with Cons.IH [of "post r"] True show ?thesis by (auto split: if_splits)
  next
    case False
    with Cons.prems Cons.IH [of err] show ?thesis by (auto split: if_splits)
  qed
qed simp

lemma try_paths_first:
  "try_paths conn post ws err = (e, Some r) \<Longrightarrow> sorted (map key ws) \<Longrightarrow> x \<in> set ws \<Longrightarrow> conn x \<Longrightarrow> post x = 0
    \<Longrightarrow> key r \<le> (key x :: int)"
  by (induction ws arbitrary: err) (auto split: if_splits dest: try_paths_posts)

subsection \<open>The minimum policies\<close>

text \<open>The paths that can still be chosen.\<close>

definition candidates :: "rtrs_clt_sess \<Rightarrow> pref list \<Rightarrow> pref set" where
  "candidates clt skip = {r \<in> set (paths_list clt). connected clt r} - set skip"

lemma min_path_scan:
  fixes key :: "pref \<Rightarrow> int" and clt :: rtrs_clt_sess and skip :: "pref list"
  defines "step \<equiv> \<lambda>(m, v) r. if \<not> connected clt r then (m, v) else if r \<in> set skip then (m, v)
     else if key r < v then (Some r, key r) else (m :: pref option, v)"
  shows "foldl step (m, v) xs = (m', v') \<Longrightarrow> (\<forall>r. m = Some r \<longrightarrow> key r = v) \<Longrightarrow>
    v' \<le> v \<and> (\<forall>r \<in> set xs. connected clt r \<and> r \<notin> set skip \<longrightarrow> v' \<le> key r)
    \<and> (\<forall>r. m' = Some r \<longrightarrow> key r = v' \<and> (m' = m \<or> r \<in> set xs \<and> connected clt r \<and> r \<notin> set skip))
    \<and> (m' = None \<longrightarrow> m = None \<and> v' = v)"
proof (induction xs arbitrary: m v)
  case (Cons x xs)
  obtain m1 v1 where st: "step (m, v) x = (m1, v1)" by force
  have one: "v1 \<le> v" "connected clt x \<and> x \<notin> set skip \<longrightarrow> v1 \<le> key x" "\<forall>r. m1 = Some r \<longrightarrow> key r = v1"
    "m1 = m \<and> v1 = v \<or> m1 = Some x \<and> connected clt x \<and> x \<notin> set skip"
    using st Cons.prems(2) by (auto simp: step_def split: if_splits)
  have rest: "foldl step (m1, v1) xs = (m', v')" using Cons.prems(1) st by simp
  from Cons.IH [OF rest one(3)] one show ?case by (auto intro: order_trans)
qed simp

lemma min_path_spec:
  assumes "\<And>r. r \<in> set (paths_list clt) \<Longrightarrow> connected clt r \<Longrightarrow> key r < limit"
  shows "case min_path key limit clt skip of None \<Rightarrow> candidates clt skip = {}
    | Some r \<Rightarrow> r \<in> candidates clt skip \<and> (\<forall>x \<in> candidates clt skip. key r \<le> key x)"
proof -
  obtain m v where f: "foldl (\<lambda>(m, v) r. if \<not> connected clt r then (m, v) else if r \<in> set skip then (m, v)
     else if key r < v then (Some r, key r) else (m, v)) (None, limit) (paths_list clt) = (m, v)" by force
  from min_path_scan [OF f] have "\<forall>r \<in> candidates clt skip. v \<le> key r"
    "\<forall>r. m = Some r \<longrightarrow> key r = v \<and> r \<in> candidates clt skip" "m = None \<longrightarrow> v = limit"
    by (auto simp: candidates_def)
  moreover have "\<forall>r \<in> candidates clt skip. key r < limit" using assms by (auto simp: candidates_def)
  ultimately show ?thesis unfolding min_path_def f by (fastforce split: option.split)
qed

text \<open>A policy that gives a path of the least key and puts it into the skip list.\<close>

definition picks_min :: "(pref \<Rightarrow> int) \<Rightarrow> nat \<Rightarrow> rtrs_clt_sess \<Rightarrow> bool" where
  "picks_min key cpu clt \<longleftrightarrow> (\<forall>skip. case next_path cpu clt skip of
       (None, clt', skip') \<Rightarrow> candidates clt skip = {}
     | (Some r, clt', skip') \<Rightarrow> clt' = clt \<and> skip' = r # skip \<and> r \<in> candidates clt skip
         \<and> (\<forall>x \<in> candidates clt skip. key r \<le> key x))"

lemma visits_min:
  assumes "picks_min key cpu clt"
  shows "card (candidates clt skip) \<le> n \<Longrightarrow>
    set (visits cpu n clt skip) = candidates clt skip \<and> sorted (map key (visits cpu n clt skip))"
proof (induction n arbitrary: skip)
  case 0
  then have "candidates clt skip = {}" by (simp add: candidates_def)
  then show ?case by simp
next
  case (Suc n)
  obtain path clt' skip' where nx: "next_path cpu clt skip = (path, clt', skip')" by (metis prod_cases3)
  show ?case
  proof (cases path)
    case None
    with nx assms have "candidates clt skip = {}" unfolding picks_min_def by (auto dest!: spec [of _ skip])
    with nx None show ?thesis by simp
  next
    case (Some r)
    with nx assms have r: "clt' = clt" "skip' = r # skip" "r \<in> candidates clt skip"
      "\<forall>x \<in> candidates clt skip. key r \<le> key x"
      unfolding picks_min_def by (auto dest!: spec [of _ skip])
    have c: "candidates clt (r # skip) = candidates clt skip - {r}" by (auto simp: candidates_def)
    have "card (candidates clt (r # skip)) \<le> n" using Suc.prems r(3) c by (simp add: candidates_def)
    from Suc.IH [OF this] r nx Some c show ?thesis by auto
  qed
qed

lemma picks_min_inflight:
  assumes "mp_policy clt = MP_POLICY_MIN_INFLIGHT"
    and "\<And>r. r \<in> set (paths_list clt) \<Longrightarrow> connected clt r \<Longrightarrow> inflight (paths clt r) < INT_MAX"
  shows "picks_min (\<lambda>r. inflight (paths clt r)) cpu clt"
proof -
  note spec = min_path_spec [where clt = clt and limit = INT_MAX and key = "\<lambda>r. inflight (paths clt r)", OF assms(2)]
  show ?thesis
    unfolding picks_min_def
  proof (intro allI, goal_cases)
    case (1 skip)
    then show ?case
      using spec [of skip] assms(1) by (auto simp: next_path_def get_next_path_min_inflight_def Let_def split: option.splits)
  qed
qed

lemma picks_min_latency:
  assumes "mp_policy clt = MP_POLICY_MIN_LATENCY"
    and "\<And>r. r \<in> set (paths_list clt) \<Longrightarrow> connected clt r \<Longrightarrow> hb_cur_latency (paths clt r) < KTIME_MAX"
  shows "picks_min (\<lambda>r. hb_cur_latency (paths clt r)) cpu clt"
proof -
  note spec = min_path_spec [where clt = clt and limit = KTIME_MAX and key = "\<lambda>r. hb_cur_latency (paths clt r)", OF assms(2)]
  show ?thesis
    unfolding picks_min_def
  proof (intro allI, goal_cases)
    case (1 skip)
    then show ?case
      using spec [of skip] assms(1) by (auto simp: next_path_def get_next_path_min_latency_def Let_def split: option.splits)
  qed
qed

subsection \<open>The round-robin policy\<close>

lemma next_rr_nth:
  assumes "distinct xs" "i < length xs"
  shows "list_next_or_null_rr xs (xs ! i) = Some (xs ! (Suc i mod length xs))"
proof -
  let ?P = "\<lambda>x. x \<noteq> xs ! i"
  have "?P x" if "x \<in> set (take i xs)" for x
    using that assms by (auto simp: in_set_conv_nth nth_eq_iff_index_eq)
  then have "dropWhile ?P (take i xs @ drop i xs) = dropWhile ?P (drop i xs)" by (rule dropWhile_append2)
  then have "dropWhile ?P xs = dropWhile ?P (drop i xs)" by (simp only: append_take_drop_id)
  moreover have "drop i xs = xs ! i # drop (Suc i) xs" using assms(2) by (rule Cons_nth_drop_Suc [symmetric])
  ultimately have d: "dropWhile ?P xs = xs ! i # drop (Suc i) xs" by simp
  show ?thesis
  proof (cases "Suc i < length xs")
    case True
    then have "drop (Suc i) xs = xs ! Suc i # drop (Suc (Suc i)) xs" by (simp add: Cons_nth_drop_Suc)
    with d True show ?thesis by (simp add: list_next_or_null_rr_def)
  next
    case False
    with assms(2) have "Suc i = length xs" by simp
    with d assms(2) show ?thesis
      by (cases xs) (auto simp: list_next_or_null_rr_def list_first_or_null_def)
  qed
qed

lemma next_rr_rotate:
  assumes "distinct xs" "xs \<noteq> []"
  shows "list_next_or_null_rr xs (last (rotate k xs)) = Some (hd (rotate k xs))"
proof -
  let ?n = "length xs" and ?i = "(k + (length xs - 1)) mod length xs"
  have "last (rotate k xs) = xs ! ?i"
    using assms(2) by (simp add: last_conv_nth nth_rotate)
  moreover have "hd (rotate k xs) = xs ! (k mod ?n)"
    using assms(2) by (simp add: hd_rotate_conv_nth)
  moreover have "Suc ?i mod ?n = k mod ?n"
  proof -
    have "Suc (k + (?n - 1)) = k + ?n" using assms(2) by (cases xs) simp_all
    then show ?thesis by (metis mod_Suc_eq mod_add_self2)
  qed
  ultimately show ?thesis using next_rr_nth [OF assms(1), of ?i] assms(2) by simp
qed

lemma visits_rr:
  assumes "mp_policy clt = MP_POLICY_RR" "distinct (paths_list clt)" "paths_list clt = xs"
    and "xs \<noteq> []" "pcpu_path clt cpu = Some (last (rotate k xs))"
  shows "n \<le> length xs \<Longrightarrow> visits cpu n clt skip = take n (rotate k xs)"
  using assms
proof (induction n arbitrary: clt k)
  case (Suc n)
  let ?w = "hd (rotate k xs)" and ?clt = "clt\<lparr>pcpu_path := (pcpu_path clt)(cpu := Some (hd (rotate k xs)))\<rparr>"
  have nx: "next_path cpu clt skip = (Some ?w, ?clt, skip)"
    using Suc.prems next_rr_rotate [of xs k] by (simp add: next_path_def get_next_path_rr_def Let_def)
  obtain w ws where ws: "rotate k xs = w # ws" using Suc.prems(5) by (metis list.exhaust rotate_is_Nil_conv)
  have r: "rotate (Suc k) xs = ws @ [w]" using ws by (simp add: rotate1_def)
  have "visits cpu n ?clt skip = take n (rotate (Suc k) xs)"
    by (rule Suc.IH) (use Suc.prems r ws in simp_all)
  moreover have "n \<le> length ws" using Suc.prems(1) ws by (metis Suc_le_mono length_Cons length_rotate)
  ultimately show ?case using nx ws r by simp
qed simp

lemma last_rotate_member: "x \<in> set xs \<Longrightarrow> \<exists>k. last (rotate k xs) = x"
proof -
  assume "x \<in> set xs"
  then obtain us vs where "xs = us @ x # vs" by (metis split_list)
  then have "rotate (length (us @ [x])) xs = vs @ us @ [x]" using rotate_append [of "us @ [x]" vs] by simp
  then have "last (rotate (length (us @ [x])) xs) = x" by simp
  then show ?thesis by blast
qed

lemma visits_rr_all:
  assumes "mp_policy clt = MP_POLICY_RR" "sess_ok clt"
  shows "set (visits cpu (length (paths_list clt)) clt skip) = set (paths_list clt)"
proof (cases "paths_list clt = []")
  case False
  let ?xs = "paths_list clt"
  show ?thesis
  proof (cases "pcpu_path clt cpu")
    case (Some p)
    with assms(2) have "p \<in> set ?xs" by (auto simp: sess_ok_def)
    from last_rotate_member [OF this] obtain k where k: "pcpu_path clt cpu = Some (last (rotate k ?xs))"
      using Some by auto
    have "distinct ?xs" using assms(2) by (simp add: sess_ok_def)
    from visits_rr [OF assms(1) this refl False k order.refl] show ?thesis by simp
  next
    case None
    obtain x xs where xs: "?xs = x # xs" using False by (cases ?xs) auto
    let ?clt = "clt\<lparr>pcpu_path := (pcpu_path clt)(cpu := Some x)\<rparr>"
    have nx: "next_path cpu clt skip = (Some x, ?clt, skip)"
      using None xs assms(1) by (simp add: next_path_def get_next_path_rr_def list_first_or_null_def Let_def)
    have "visits cpu (length xs) ?clt skip = take (length xs) (rotate (Suc 0) (x # xs))"
      by (rule visits_rr) (use assms xs in \<open>simp_all add: sess_ok_def rotate1_def\<close>)
    with nx xs show ?thesis by (simp add: rotate1_def)
  qed
qed simp

subsection \<open>Every policy\<close>

text \<open>What a policy minimises.\<close>

definition path_cost :: "rtrs_clt_sess \<Rightarrow> pref \<Rightarrow> int" where
  "path_cost clt r = (case mp_policy clt of MP_POLICY_RR \<Rightarrow> 0
     | MP_POLICY_MIN_INFLIGHT \<Rightarrow> inflight (paths clt r)
     | MP_POLICY_MIN_LATENCY \<Rightarrow> hb_cur_latency (paths clt r))"

definition costs_bounded :: "rtrs_clt_sess \<Rightarrow> bool" where
  "costs_bounded clt \<longleftrightarrow> (\<forall>r \<in> set (paths_list clt). inflight (paths clt r) < INT_MAX \<and> hb_cur_latency (paths clt r) < KTIME_MAX)"

lemma visits_complete:
  fixes cpu :: nat
  assumes "sess_ok clt" "costs_bounded clt"
  defines "ws \<equiv> visits cpu (paths_num clt) clt []"
  shows "{r \<in> set (paths_list clt). connected clt r} \<subseteq> set ws \<and> set ws \<subseteq> set (paths_list clt)
    \<and> sorted (map (path_cost clt) ws)"
proof -
  have n: "paths_num clt = length (paths_list clt)" using assms(1) by (simp add: sess_ok_def)
  have min: ?thesis if "picks_min (path_cost clt) cpu clt"
  proof -
    have "card (candidates clt []) \<le> card (set (paths_list clt))" by (rule card_mono) (auto simp: candidates_def)
    also have "\<dots> \<le> paths_num clt" unfolding n by (rule card_length)
    finally show ?thesis using visits_min [OF that] by (auto simp: ws_def candidates_def)
  qed
  show ?thesis
  proof (cases "mp_policy clt")
    case MP_POLICY_RR
    moreover have "path_cost clt = (\<lambda>_. 0)" using MP_POLICY_RR by (simp add: path_cost_def fun_eq_iff)
    moreover have "sorted (map (\<lambda>_. 0 :: int) ws)" by (simp add: map_replicate_const)
    ultimately show ?thesis using visits_rr_all [OF _ assms(1), of cpu "[]"] by (simp add: ws_def n)
  next
    case MP_POLICY_MIN_INFLIGHT
    then have "path_cost clt = (\<lambda>r. inflight (paths clt r))" by (simp add: path_cost_def fun_eq_iff)
    with min picks_min_inflight [OF MP_POLICY_MIN_INFLIGHT, of cpu] assms(2) show ?thesis by (simp add: costs_bounded_def)
  next
    case MP_POLICY_MIN_LATENCY
    then have "path_cost clt = (\<lambda>r. hb_cur_latency (paths clt r))" by (simp add: path_cost_def fun_eq_iff)
    with min picks_min_latency [OF MP_POLICY_MIN_LATENCY, of cpu] assms(2) show ?thesis by (simp add: costs_bounded_def)
  qed
qed

text \<open>
  C19. A request reaches a path. With every multipath policy, and for a message that the paths can
  take, \<open>rtrs_clt_request\<close> posts the request on a connected path whenever one of them accepts it,
  and under the minimum policies on one of the least cost among those; otherwise it has tried every
  connected path, and it returns the error of one of them, or ECONNABORTED if none was connected.
\<close>

theorem request_reaches_path:
  assumes "sess_ok clt" and "costs_bounded clt"
    and "\<forall>r \<in> set (paths_list clt). connected clt r \<longrightarrow>
      sum_list vec + (if is_read then rd + sg_cnt * desc else wr) \<le> max_hdr_size (paths clt r)"
    and "rtrs_clt_request (rd, desc, wr) post cpu is_read vec sg_cnt clt = (err, path, clt')"
  shows "case path of
      Some r \<Rightarrow> err = 0 \<and> r \<in> set (paths_list clt) \<and> connected clt r \<and> post is_read r = 0
        \<and> (\<forall>x \<in> set (paths_list clt). connected clt x \<and> post is_read x = 0 \<longrightarrow> path_cost clt r \<le> path_cost clt x)
    | None \<Rightarrow> (\<forall>r \<in> set (paths_list clt). connected clt r \<longrightarrow> post is_read r \<noteq> 0)
        \<and> (if \<exists>r \<in> set (paths_list clt). connected clt r
           then \<exists>r \<in> set (paths_list clt). connected clt r \<and> err = post is_read r
           else err = - ECONNABORTED)"
proof -
  let ?ws = "visits cpu (paths_num clt) clt []"
  from visits_complete [OF assms(1,2), of cpu] have ws: "{r \<in> set (paths_list clt). connected clt r} \<subseteq> set ?ws"
    "set ?ws \<subseteq> set (paths_list clt)" "sorted (map (path_cost clt) ?ws)" by blast+
  have "\<exists>c. request_loop (post is_read) (sum_list vec + (if is_read then rd + sg_cnt * desc else wr)) cpu
      (paths_num clt) clt [] (- ECONNABORTED) =
      (fst (try_paths (connected clt) (post is_read) ?ws (- ECONNABORTED)),
       snd (try_paths (connected clt) (post is_read) ?ws (- ECONNABORTED)), c)"
    by (rule request_loop_visits) (use assms(3) ws(2) in auto)
  with assms(4) have t: "try_paths (connected clt) (post is_read) ?ws (- ECONNABORTED) = (err, path)"
    by (auto simp: rtrs_clt_request_def Let_def)
  show ?thesis
  proof (cases path)
    case (Some r)
    with t have "try_paths (connected clt) (post is_read) ?ws (- ECONNABORTED) = (err, Some r)" by simp
    from try_paths_posts [OF this] try_paths_first [OF this ws(3)] ws(1,2) Some show ?thesis by auto
  next
    case None
    with t have "try_paths (connected clt) (post is_read) ?ws (- ECONNABORTED) = (err, None)" by simp
    from try_paths_none [OF this] ws(1,2) None show ?thesis by (auto split: if_splits)
  qed
qed

section \<open>Witness\<close>

text \<open>Three paths; the first is down, the second rejects the request, the third takes it.\<close>

definition three_paths :: "mp_policy \<Rightarrow> rtrs_clt_sess" where
  "three_paths policy = \<lparr>paths_list = [10, 11, 12],
     paths = (\<lambda>r. \<lparr>mp_state = (if r = 10 then RTRS_CLT_RECONNECTING else RTRS_CLT_CONNECTED), inflight = int r,
        hb_cur_latency = 5, max_hdr_size = 4096, mp_established = True\<rparr>),
     paths_num = 3, mp_policy = policy, pcpu_path = (\<lambda>_. Some 12), paths_up = 3, link_ev = []\<rparr>"

theorem request_reaches_path_witness:
  "\<exists>err clt'. rtrs_clt_request (32, 16, 8) (\<lambda>_ r. if r = 11 then -5 else 0) 0 True [100] 2 (three_paths MP_POLICY_RR)
     = (err, Some 12, clt') \<and> err = 0"
proof -
  obtain err path clt' where r: "rtrs_clt_request (32, 16, 8) (\<lambda>_ r. if r = 11 then -5 else 0) 0 True [100] 2
      (three_paths MP_POLICY_RR) = (err, path, clt')" by (metis prod_cases3)
  have path: "path = Some 12"
    using arg_cong [OF r, of "\<lambda>x. fst (snd x)"]
    by (simp add: rtrs_clt_request_def three_paths_def eval_nat_numeral next_path_def get_next_path_rr_def
        list_next_or_null_rr_def list_first_or_null_def connected_def Let_def)
  have "sess_ok (three_paths MP_POLICY_RR)" "costs_bounded (three_paths MP_POLICY_RR)"
    by (simp_all add: sess_ok_def costs_bounded_def three_paths_def INT_MAX_def KTIME_MAX_def)
  from request_reaches_path [OF this _ r] have "err = 0" unfolding path by (simp add: three_paths_def)
  with r path show ?thesis by blast
qed

end
