(* ===== verification/Rtrs_Permits.thy ===== *)
theory Rtrs_Permits
  imports Prelude
begin

text \<open>
  The permits of the RDMA transport client (\<^verbatim>\<open>examples/rtrs-clt.c\<close>): a bitmap of permits that any
  number of requests on any number of processors take and put back without a lock. The scan for a
  clear bit is not atomic, \<open>test_and_set_bit_lock\<close> and \<open>clear_bit_unlock\<close> are. In the runs below
  the steps of the requests are interleaved and a scan may see any bit, stale or not.
\<close>

section \<open>Data and sequential code\<close>

datatype rtrs_clt_con_type = RTRS_ADMIN_CON | RTRS_IO_CON

record rtrs_permit =
  mem_id :: nat
  mem_off :: "32 word"
  cpu_id :: nat
  con_type :: rtrs_clt_con_type

record permit_table =
  queue_depth :: nat
  permits_map :: "bool list"
  permits :: "rtrs_permit list"

fun ilog2 :: "nat \<Rightarrow> nat" where
  "ilog2 n = (if n < 2 then 0 else ilog2 (n div 2) + 1)"

declare ilog2.simps [simp del]

definition chunk_bits :: "nat \<Rightarrow> nat" where
  "chunk_bits depth = ilog2 (depth - 1) + 1"

text \<open>\<open>max_imm_payl_bits\<close> is the constant of the header; \<open>None\<close> is a failed allocation.\<close>

definition alloc_permits :: "nat \<Rightarrow> bool \<Rightarrow> bool \<Rightarrow> nat \<Rightarrow> permit_table option" where
  "alloc_permits max_imm_payl_bits map_allocated permits_allocated depth =
     (if \<not> map_allocated then None
      else if \<not> permits_allocated then None
      else Some \<lparr>queue_depth = depth, permits_map = replicate depth False,
        permits = map (\<lambda>i. \<lparr>mem_id = i, mem_off = push_bit (max_imm_payl_bits - chunk_bits depth) (word_of_nat i),
          cpu_id = 0, con_type = RTRS_ADMIN_CON\<rparr>) [0..<depth]\<rparr>)"

definition find_first_zero_bit :: "bool list \<Rightarrow> nat \<Rightarrow> nat" where
  "find_first_zero_bit m max_depth = length (takeWhile id (take max_depth m))"

definition test_and_set_bit_lock :: "nat \<Rightarrow> bool list \<Rightarrow> bool \<times> bool list" where
  "test_and_set_bit_lock nr m = (m ! nr, m[nr := True])"

text \<open>One round of the loop of \<open>__rtrs_get_permit\<close> after the scan has given \<open>nr\<close>.\<close>

definition take_permit :: "nat \<Rightarrow> rtrs_clt_con_type \<Rightarrow> nat \<Rightarrow> permit_table \<Rightarrow> rtrs_permit option \<times> permit_table" where
  "take_permit cpu ct nr clt =
     (let (was_set, m) = test_and_set_bit_lock nr (permits_map clt) in
      if was_set then (None, clt\<lparr>permits_map := m\<rparr>)
      else let permit = (permits clt ! nr)\<lparr>cpu_id := cpu, con_type := ct\<rparr> in
        (Some permit, clt\<lparr>permits_map := m, permits := (permits clt)[nr := permit]\<rparr>))"

partial_function (option) rtrs_get_permit ::
  "nat \<Rightarrow> rtrs_clt_con_type \<Rightarrow> permit_table \<Rightarrow> (rtrs_permit option \<times> permit_table) option" where
  "rtrs_get_permit cpu ct clt =
     (let nr = find_first_zero_bit (permits_map clt) (queue_depth clt) in
      if nr \<ge> queue_depth clt then Some (None, clt)
      else case take_permit cpu ct nr clt of
          (None, clt') \<Rightarrow> rtrs_get_permit cpu ct clt'
        | (Some permit, clt') \<Rightarrow> Some (Some permit, clt'))"

declare rtrs_get_permit.simps [code]

text \<open>The warning of a permit that is not taken is the first result.\<close>

definition rtrs_clt_put_permit :: "rtrs_permit \<Rightarrow> permit_table \<Rightarrow> bool \<times> permit_table" where
  "rtrs_clt_put_permit permit clt =
     (if \<not> permits_map clt ! mem_id permit then (True, clt)
      else (False, clt\<lparr>permits_map := (permits_map clt)[mem_id permit := False]\<rparr>))"

text \<open>The condition that \<open>free_permits\<close> waits for.\<close>

definition permits_unused :: "permit_table \<Rightarrow> bool" where
  "permits_unused clt \<longleftrightarrow> True \<notin> set (take (queue_depth clt) (permits_map clt))"

text \<open>Connection 0 is for user messages, the connections of requests start at 1.\<close>

definition rtrs_permit_to_clt_con :: "nat \<Rightarrow> rtrs_permit \<Rightarrow> nat" where
  "rtrs_permit_to_clt_con irq_con_num permit =
     (if con_type permit = RTRS_IO_CON then cpu_id permit mod (irq_con_num - 1) + 1 else 0)"

section \<open>Interleaved requests\<close>

datatype request_pc = NoPermit | Scanned nat | Holding rtrs_permit

record permit_run =
  table :: permit_table
  requests :: "nat \<Rightarrow> request_pc"

inductive permit_step :: "permit_run \<Rightarrow> permit_run \<Rightarrow> bool" where
  scan: "requests s t = NoPermit \<Longrightarrow> nr < queue_depth (table s)
    \<Longrightarrow> permit_step s (s\<lparr>requests := (requests s)(t := Scanned nr)\<rparr>)"
| lost: "requests s t = Scanned nr \<Longrightarrow> take_permit cpu ct nr (table s) = (None, clt)
    \<Longrightarrow> permit_step s (s\<lparr>table := clt, requests := (requests s)(t := NoPermit)\<rparr>)"
| won: "requests s t = Scanned nr \<Longrightarrow> take_permit cpu ct nr (table s) = (Some permit, clt)
    \<Longrightarrow> permit_step s (s\<lparr>table := clt, requests := (requests s)(t := Holding permit)\<rparr>)"
| put: "requests s t = Holding permit \<Longrightarrow> rtrs_clt_put_permit permit (table s) = (warned, clt)
    \<Longrightarrow> permit_step s (s\<lparr>table := clt, requests := (requests s)(t := NoPermit)\<rparr>)"

inductive permits_reachable :: "permit_run \<Rightarrow> bool" where
  start: "alloc_permits b True True depth = Some clt \<Longrightarrow> permits_reachable \<lparr>table = clt, requests = \<lambda>_. NoPermit\<rparr>"
| step: "permits_reachable s \<Longrightarrow> permit_step s s' \<Longrightarrow> permits_reachable s'"

section \<open>A permit has one holder\<close>

definition holds :: "permit_run \<Rightarrow> nat \<Rightarrow> nat \<Rightarrow> bool" where
  "holds s t i \<longleftrightarrow> (\<exists>permit. requests s t = Holding permit \<and> mem_id permit = i)"

definition table_ok :: "permit_table \<Rightarrow> bool" where
  "table_ok clt \<longleftrightarrow> length (permits_map clt) = queue_depth clt \<and> length (permits clt) = queue_depth clt
     \<and> (\<forall>i < queue_depth clt. mem_id (permits clt ! i) = i)"

definition permits_inv :: "permit_run \<Rightarrow> bool" where
  "permits_inv s \<longleftrightarrow> table_ok (table s)
     \<and> (\<forall>t nr. requests s t = Scanned nr \<longrightarrow> nr < queue_depth (table s))
     \<and> (\<forall>t i. holds s t i \<longrightarrow> i < queue_depth (table s))
     \<and> (\<forall>i < queue_depth (table s). permits_map (table s) ! i \<longleftrightarrow> (\<exists>t. holds s t i))
     \<and> (\<forall>t u i. holds s t i \<longrightarrow> holds s u i \<longrightarrow> t = u)"

lemma holds_set: "permits_inv s \<Longrightarrow> holds s t i \<Longrightarrow> i < queue_depth (table s) \<and> permits_map (table s) ! i"
  unfolding permits_inv_def by blast

lemma holds_one: "permits_inv s \<Longrightarrow> holds s t i \<Longrightarrow> holds s u i \<Longrightarrow> u = t"
  unfolding permits_inv_def by blast

lemma take_permit_cases:
  assumes "table_ok clt" "nr < queue_depth clt"
  obtains (taken) "permits_map clt ! nr" "take_permit cpu ct nr clt = (None, clt)"
  | (free) permit clt' where "\<not> permits_map clt ! nr" "take_permit cpu ct nr clt = (Some permit, clt')"
      "mem_id permit = nr" "table_ok clt'" "queue_depth clt' = queue_depth clt"
      "permits_map clt' = (permits_map clt)[nr := True]"
proof (cases "permits_map clt ! nr")
  case True
  then have "(permits_map clt)[nr := True] = permits_map clt" by (metis list_update_id)
  with True show ?thesis by (intro taken) (simp_all add: take_permit_def test_and_set_bit_lock_def)
next
  case False
  let ?permit = "(permits clt ! nr)\<lparr>cpu_id := cpu, con_type := ct\<rparr>"
  show ?thesis
    by (rule free [OF False, where permit = ?permit
          and clt' = "clt\<lparr>permits_map := (permits_map clt)[nr := True], permits := (permits clt)[nr := ?permit]\<rparr>"])
      (use assms False in \<open>auto simp: take_permit_def test_and_set_bit_lock_def table_ok_def nth_list_update Let_def\<close>)
qed

lemma permits_inv_step:
  assumes "permit_step s s'" and inv: "permits_inv s"
  shows "permits_inv s'"
  using assms(1)
proof (cases rule: permit_step.cases)
  case (scan t nr)
  then have "holds s' = holds s" by (auto simp: fun_eq_iff holds_def)
  then show ?thesis using inv scan by (auto simp: permits_inv_def)
next
  case (lost t nr cpu ct clt)
  then have "table_ok (table s)" "nr < queue_depth (table s)" using inv by (auto simp: permits_inv_def)
  then have "clt = table s" using lost(3) by (cases rule: take_permit_cases [where cpu = cpu and ct = ct]) auto
  moreover have "holds s' = holds s" using lost by (auto simp: fun_eq_iff holds_def)
  ultimately show ?thesis using inv lost by (auto simp: permits_inv_def)
next
  case (won t nr cpu ct permit clt)
  then have ok: "table_ok (table s)" "nr < queue_depth (table s)" using inv by (auto simp: permits_inv_def)
  then have new: "\<not> permits_map (table s) ! nr" "mem_id permit = nr" "table_ok clt"
    "queue_depth clt = queue_depth (table s)" "permits_map clt = (permits_map (table s))[nr := True]"
    using won(3) by (cases rule: take_permit_cases [where cpu = cpu and ct = ct]; auto)+
  have len: "length (permits_map (table s)) = queue_depth (table s)" using ok by (simp add: table_ok_def)
  have free: "\<not> holds s u nr" for u using holds_set [OF inv] new(1) by blast
  have holds: "holds s' u i \<longleftrightarrow> holds s u i \<or> (u = t \<and> i = nr)" for u i
    using won(1,2) new(2) by (auto simp: holds_def)
  have map: "permits_map (table s') ! i \<longleftrightarrow> permits_map (table s) ! i \<or> i = nr" if "i < queue_depth (table s)" for i
    using that won(1) new(5) len by (cases "i = nr") simp_all
  have d: "queue_depth (table s') = queue_depth (table s)" using won(1) new(4) by simp
  have "\<forall>i < queue_depth (table s'). permits_map (table s') ! i \<longleftrightarrow> (\<exists>t. holds s' t i)"
    using inv unfolding permits_inv_def d holds by (auto simp: map)
  moreover have "\<forall>t u i. holds s' t i \<longrightarrow> holds s' u i \<longrightarrow> t = u"
    using holds_one [OF inv] free by (auto simp: holds)
  moreover have "\<forall>u i. holds s' u i \<longrightarrow> i < queue_depth (table s')"
    using holds_set [OF inv] ok(2) by (auto simp: holds d)
  moreover have "table_ok (table s') \<and> (\<forall>t nr. requests s' t = Scanned nr \<longrightarrow> nr < queue_depth (table s'))"
    using inv new(3,4) won(1) by (auto simp: permits_inv_def)
  ultimately show ?thesis unfolding permits_inv_def by blast
next
  case (put t permit warned clt)
  let ?i = "mem_id permit"
  have h: "holds s t ?i" using put(2) by (simp add: holds_def)
  note set = holds_set [OF inv h]
  then have clt: "clt = table s\<lparr>permits_map := (permits_map (table s))[?i := False]\<rparr>"
    using put(3) by (simp add: rtrs_clt_put_permit_def)
  have len: "length (permits_map (table s)) = queue_depth (table s)" using inv by (simp add: permits_inv_def table_ok_def)
  have holds: "holds s' u i \<longleftrightarrow> holds s u i \<and> u \<noteq> t" for u i
    using put(1) by (auto simp: holds_def)
  have map: "permits_map (table s') ! i \<longleftrightarrow> permits_map (table s) ! i \<and> i \<noteq> ?i" if "i < queue_depth (table s)" for i
    using that put(1) clt len by (cases "i = ?i") simp_all
  have only: "holds s t i \<longleftrightarrow> i = ?i" for i using put(2) by (auto simp: holds_def)
  have d: "queue_depth (table s') = queue_depth (table s)" using put(1) clt by simp
  have "\<forall>i < queue_depth (table s'). permits_map (table s') ! i \<longleftrightarrow> (\<exists>t. holds s' t i)"
    using inv only holds_one [OF inv h] unfolding permits_inv_def d holds by (auto simp: map)
  moreover have "\<forall>t u i. holds s' t i \<longrightarrow> holds s' u i \<longrightarrow> t = u"
    using holds_one [OF inv] by (auto simp: holds)
  moreover have "\<forall>u i. holds s' u i \<longrightarrow> i < queue_depth (table s')"
    using holds_set [OF inv] by (auto simp: holds d)
  moreover have "table_ok (table s') \<and> (\<forall>t nr. requests s' t = Scanned nr \<longrightarrow> nr < queue_depth (table s'))"
    using inv put(1) clt by (auto simp: permits_inv_def table_ok_def)
  ultimately show ?thesis unfolding permits_inv_def by blast
qed

lemma permits_inv_reachable: "permits_reachable s \<Longrightarrow> permits_inv s"
proof (induction rule: permits_reachable.induct)
  case (start b depth clt)
  then show ?case by (auto simp: permits_inv_def table_ok_def holds_def alloc_permits_def)
qed (rule permits_inv_step)

text \<open>
  C18. A permit has one holder. However the scans, the atomic bit operations and the releases of
  any number of requests are interleaved, and however stale a scan is, a bit of the map is set
  exactly when one request holds the permit of that bit, no two requests hold the same permit,
  and a release never finds its bit cleared already.
\<close>

theorem permits_exclusive:
  assumes "permits_reachable s"
  shows "(\<forall>i < queue_depth (table s). permits_map (table s) ! i \<longleftrightarrow> (\<exists>!t. holds s t i))
    \<and> (\<forall>t permit. requests s t = Holding permit \<longrightarrow> \<not> fst (rtrs_clt_put_permit permit (table s)))
    \<and> (permits_unused (table s) \<longrightarrow> (\<forall>t i. \<not> holds s t i))"
proof (intro conjI allI impI)
  have inv: "permits_inv s" by (rule permits_inv_reachable [OF assms])
  show "permits_map (table s) ! i \<longleftrightarrow> (\<exists>!t. holds s t i)" if "i < queue_depth (table s)" for i
    using inv that unfolding permits_inv_def by blast
  show "\<not> fst (rtrs_clt_put_permit permit (table s))" if "requests s t = Holding permit" for t permit
    using holds_set [OF inv, of t "mem_id permit"] that by (simp add: holds_def rtrs_clt_put_permit_def)
  show "\<not> holds s t i" if "permits_unused (table s)" for t i
  proof
    assume "holds s t i"
    then have "i < queue_depth (table s)" "permits_map (table s) ! i" using holds_set [OF inv] by blast+
    moreover have "length (permits_map (table s)) = queue_depth (table s)"
      using inv by (simp add: permits_inv_def table_ok_def)
    ultimately show False using that by (auto simp: permits_unused_def in_set_conv_nth)
  qed
qed

section \<open>The sequential code\<close>

lemma find_first_zero_bit_spec:
  assumes "length m = depth"
  shows "find_first_zero_bit m depth \<le> depth"
    and "i < find_first_zero_bit m depth \<Longrightarrow> m ! i"
    and "find_first_zero_bit m depth < depth \<Longrightarrow> \<not> m ! find_first_zero_bit m depth"
proof -
  show "find_first_zero_bit m depth \<le> depth"
    using assms length_takeWhile_le [of id m] by (simp add: find_first_zero_bit_def)
  show "m ! i" if "i < find_first_zero_bit m depth"
  proof -
    from that assms have i: "i < length (takeWhile id m)" by (simp add: find_first_zero_bit_def)
    then have "m ! i \<in> set (takeWhile id m)" using takeWhile_nth [OF i] nth_mem [OF i] by simp
    then show ?thesis by (auto dest: set_takeWhileD)
  qed
  show "\<not> m ! find_first_zero_bit m depth" if "find_first_zero_bit m depth < depth"
    using that assms nth_length_takeWhile [of id m] by (simp add: find_first_zero_bit_def)
qed

lemma rtrs_get_permit_spec:
  assumes "table_ok clt"
  shows "rtrs_get_permit cpu ct clt = Some (if \<forall>i < queue_depth clt. permits_map clt ! i then (None, clt)
     else take_permit cpu ct (LEAST i. \<not> permits_map clt ! i) clt)"
proof -
  let ?b = "find_first_zero_bit (permits_map clt) (queue_depth clt)"
  have len: "length (permits_map clt) = queue_depth clt" using assms by (simp add: table_ok_def)
  note ffz = find_first_zero_bit_spec [OF len]
  show ?thesis
  proof (cases "?b < queue_depth clt")
    case True
    then have "(LEAST i. \<not> permits_map clt ! i) = ?b"
      by (intro Least_equality) (use ffz leI in blast)+
    moreover obtain permit clt' where "take_permit cpu ct ?b clt = (Some permit, clt')"
      by (rule take_permit_cases [OF assms True, of cpu ct]) (use ffz(3) [OF True] in auto)
    ultimately show ?thesis
      using True ffz(3) by (subst rtrs_get_permit.simps) (auto simp: Let_def)
  next
    case False
    with ffz(1) have "?b = queue_depth clt" by simp
    with ffz(2) show ?thesis by (subst rtrs_get_permit.simps) (auto simp: Let_def)
  qed
qed

lemma ilog2_less: "n < 2 ^ (ilog2 n + 1)"
proof (induction n rule: ilog2.induct)
  case (1 n)
  show ?case
  proof (cases "n < 2")
    case False
    with 1 have "n div 2 < 2 ^ (ilog2 (n div 2) + 1)" by simp
    then have "n < 2 * 2 ^ (ilog2 (n div 2) + 1)" by linarith
    with False show ?thesis by (simp add: ilog2.simps [of n])
  qed (simp add: ilog2.simps)
qed

text \<open>The offsets of the permits are different and fit the immediate payload.\<close>

lemma alloc_permits_offsets:
  assumes "alloc_permits b True True depth = Some clt" "chunk_bits depth \<le> b" "b \<le> 32" "i < depth"
  shows "unat (mem_off (permits clt ! i)) = i * 2 ^ (b - chunk_bits depth)"
    and "unat (mem_off (permits clt ! i)) < 2 ^ b"
proof -
  have "i < 2 ^ chunk_bits depth" using ilog2_less [of "depth - 1"] assms(4) by (simp add: chunk_bits_def)
  then have less: "i * 2 ^ (b - chunk_bits depth) < 2 ^ b"
    using assms(2) by (metis le_add_diff_inverse2 mult.commute mult_less_cancel2 power_add zero_less_numeral zero_less_power)
  moreover have "(2 :: nat) ^ b \<le> 2 ^ 32" using assms(3) by (intro power_increasing) simp_all
  ultimately have "i * 2 ^ (b - chunk_bits depth) < 2 ^ 32" by linarith
  moreover have "push_bit (b - chunk_bits depth) (word_of_nat i :: 32 word) = word_of_nat (i * 2 ^ (b - chunk_bits depth))"
    by (simp add: push_bit_eq_mult)
  ultimately have "unat (push_bit (b - chunk_bits depth) (word_of_nat i :: 32 word)) = i * 2 ^ (b - chunk_bits depth)"
    by (simp only: unat_of_nat) (simp add: take_bit_eq_mod)
  with assms(1,4) show off: "unat (mem_off (permits clt ! i)) = i * 2 ^ (b - chunk_bits depth)"
    by (auto simp: alloc_permits_def)
  with less show "unat (mem_off (permits clt ! i)) < 2 ^ b" by simp
qed

section \<open>Witness\<close>

text \<open>Two requests scan the same clear bit; the second one to test it loses.\<close>

definition two_permits :: permit_table where
  "two_permits = the (alloc_permits 20 True True 2)"

definition race :: permit_run where
  "race = \<lparr>table = snd (take_permit 0 RTRS_IO_CON 0 two_permits),
     requests = (\<lambda>_. NoPermit)(0 := Holding (the (fst (take_permit 0 RTRS_IO_CON 0 two_permits))), 1 := NoPermit)\<rparr>"

lemmas race_eval = race_def two_permits_def alloc_permits_def chunk_bits_def ilog2.simps take_permit_def
  test_and_set_bit_lock_def Let_def

lemma race_reachable: "permits_reachable race"
proof -
  let ?s0 = "\<lparr>table = two_permits, requests = \<lambda>_. NoPermit\<rparr>"
  let ?s1 = "?s0\<lparr>requests := (requests ?s0)(0 := Scanned 0)\<rparr>"
  let ?s2 = "?s1\<lparr>requests := (requests ?s1)(1 := Scanned 0)\<rparr>"
  let ?r = "take_permit 0 RTRS_IO_CON 0 two_permits"
  let ?s3 = "?s2\<lparr>table := snd ?r, requests := (requests ?s2)(0 := Holding (the (fst ?r)))\<rparr>"
  have "permits_reachable ?s0"
    by (rule permits_reachable.start [of 20 2]) (simp add: two_permits_def alloc_permits_def)
  moreover have "permit_step ?s0 ?s1" by (rule permit_step.scan) (simp_all add: race_eval)
  moreover have "permit_step ?s1 ?s2" by (rule permit_step.scan) (simp_all add: race_eval)
  moreover have "permit_step ?s2 ?s3"
    by (rule permit_step.won [where nr = 0 and cpu = 0 and ct = RTRS_IO_CON]) (simp_all add: race_eval)
  moreover have "permit_step ?s3 (?s3\<lparr>table := table ?s3, requests := (requests ?s3)(1 := NoPermit)\<rparr>)"
    by (rule permit_step.lost [where nr = 0 and cpu = 1 and ct = RTRS_IO_CON]) (simp_all add: race_eval)
  moreover have "?s3\<lparr>table := table ?s3, requests := (requests ?s3)(1 := NoPermit)\<rparr> = race"
    by (simp add: race_def fun_eq_iff)
  ultimately show ?thesis by (metis permits_reachable.step)
qed

theorem permits_exclusive_witness:
  "permits_map (table race) ! 0 \<and> (\<exists>!t. holds race t 0) \<and> \<not> (\<exists>!t. holds race t 1)"
proof -
  have "queue_depth (table race) = 2" "permits_map (table race) = [True, False]"
    by (simp_all add: race_eval numeral_2_eq_2)
  moreover have "\<forall>i < queue_depth (table race). permits_map (table race) ! i \<longleftrightarrow> (\<exists>!t. holds race t i)"
    using permits_exclusive [OF race_reachable] by blast
  ultimately have "\<And>i. i < 2 \<Longrightarrow> [True, False] ! i \<longleftrightarrow> (\<exists>!t. holds race t i)" and m: "permits_map (table race) ! 0"
    by simp_all
  from this(1) [of 0] this(1) [of 1] m show ?thesis by simp
qed

end
