(* ===== verification/Nfp_Cpp.thy ===== *)
theory Nfp_Cpp
  imports Prelude "HOL-Library.Word"
begin

unbundle bit_operations_syntax

text \<open>
  The CPP bus driver (\<^verbatim>\<open>examples/nfp_cppcore.c\<close>): areas of the device with their reference counts,
  the sorted list of resources, the cache of areas and the transfers through it. The operations of
  the device, the translation of addresses and the constants of the headers are the fields of
  \<open>nfp_ops\<close>; \<open>'d\<close> is the state of the device. Areas are reached by number; the access to an area
  that was freed sets the flag \<open>freed_access\<close>.
\<close>

section \<open>Data\<close>

type_synonym u8 = "8 word"
type_synonym u32 = "32 word"
type_synonym u64 = "64 word"
type_synonym aref = nat

record nfp_cpp_area =
  ar_kref :: nat
  ar_refcount :: int
  ar_offset :: u64
  ar_size :: nat
  res_name :: string
  res_cpp_id :: u32
  res_start :: u64
  res_end :: u64

record nfp_cpp_area_cache =
  ca_id :: u32
  ca_addr :: u64
  ca_size :: u32
  ca_area :: aref

record 'd nfp_cpp =
  cpp_areas :: "aref \<Rightarrow> nfp_cpp_area option"
  cpp_allocs :: nat
  resource_list :: "aref list"
  area_cache_list :: "nfp_cpp_area_cache list"
  cpp_dev :: 'd
  freed_access :: bool

text \<open>
  The operations of the device that may be missing are options. \<open>wakeups\<close> is the number of times a
  waiting task is woken before a signal interrupts it, \<open>meanwhile\<close> what others do to the device in
  between; \<open>kzalloc n\<close> says whether the allocation with number \<open>n\<close> succeeds.
\<close>

record 'd nfp_ops =
  op_area_init :: "(aref \<Rightarrow> u32 \<Rightarrow> u64 \<Rightarrow> nat \<Rightarrow> 'd \<Rightarrow> int \<times> 'd) option"
  op_area_cleanup :: "(aref \<Rightarrow> 'd \<Rightarrow> 'd) option"
  op_area_acquire :: "(aref \<Rightarrow> 'd \<Rightarrow> int \<times> 'd) option"
  op_area_release :: "(aref \<Rightarrow> 'd \<Rightarrow> 'd) option"
  op_area_read :: "aref \<Rightarrow> u64 \<Rightarrow> nat \<Rightarrow> 'd \<Rightarrow> int \<times> u8 list \<times> 'd"
  op_area_write :: "aref \<Rightarrow> u8 list \<Rightarrow> u64 \<Rightarrow> 'd \<Rightarrow> int \<times> 'd"
  nfp_target_cpp :: "u32 \<Rightarrow> u64 \<Rightarrow> int + u32 \<times> u64"
  kzalloc :: "nat \<Rightarrow> bool"
  wakeups :: nat
  meanwhile :: "'d \<Rightarrow> 'd"
  NFP_CPP_SAFE_AREA_SIZE :: u64
  mu_base_id :: u32

definition EIO :: int where "EIO = 5"
definition EAGAIN :: int where "EAGAIN = 11"
definition ENOMEM :: int where "ENOMEM = 12"
definition EINVAL :: int where "EINVAL = 22"
definition ERESTARTSYS :: int where "ERESTARTSYS = 512"

text \<open>The calls of the operations that may be missing.\<close>

definition dev_init :: "'d nfp_ops \<Rightarrow> aref \<Rightarrow> u32 \<Rightarrow> u64 \<Rightarrow> nat \<Rightarrow> 'd \<Rightarrow> int \<times> 'd" where
  "dev_init O' a dest address sz d = (case op_area_init O' of None \<Rightarrow> (0, d) | Some f \<Rightarrow> f a dest address sz d)"

definition dev_cleanup :: "'d nfp_ops \<Rightarrow> aref \<Rightarrow> 'd \<Rightarrow> 'd" where
  "dev_cleanup O' a d = (case op_area_cleanup O' of None \<Rightarrow> d | Some f \<Rightarrow> f a d)"

definition dev_release :: "'d nfp_ops \<Rightarrow> aref \<Rightarrow> 'd \<Rightarrow> 'd" where
  "dev_release O' a d = (case op_area_release O' of None \<Rightarrow> d | Some f \<Rightarrow> f a d)"

section \<open>Resources\<close>

definition resource_later :: "(aref \<Rightarrow> nfp_cpp_area option) \<Rightarrow> aref \<Rightarrow> aref \<Rightarrow> bool" where
  "resource_later m t r = (case (m t, m r) of
       (Some tmp, Some res) \<Rightarrow> res_cpp_id tmp > res_cpp_id res
         \<or> (res_cpp_id tmp = res_cpp_id res \<and> res_start tmp > res_start res)
     | _ \<Rightarrow> False)"

primrec resource_add :: "(aref \<Rightarrow> nfp_cpp_area option) \<Rightarrow> aref \<Rightarrow> aref list \<Rightarrow> aref list" where
  "resource_add m res [] = [res]"
| "resource_add m res (t # ts) = (if resource_later m t res then res # t # ts else t # resource_add m res ts)"

section \<open>Areas\<close>

definition release_cpp_area :: "'d nfp_ops \<Rightarrow> aref \<Rightarrow> 'd nfp_cpp \<Rightarrow> 'd nfp_cpp" where
  "release_cpp_area O' a st =
     (let st = st\<lparr>cpp_dev := dev_cleanup O' a (cpp_dev st)\<rparr> in
      st\<lparr>resource_list := remove1 a (resource_list st), cpp_areas := (cpp_areas st)(a := None)\<rparr>)"

definition nfp_cpp_area_put :: "'d nfp_ops \<Rightarrow> aref \<Rightarrow> 'd nfp_cpp \<Rightarrow> 'd nfp_cpp" where
  "nfp_cpp_area_put O' a st = (case cpp_areas st a of
       None \<Rightarrow> st\<lparr>freed_access := True\<rparr>
     | Some area \<Rightarrow>
         if ar_kref area = 1 then release_cpp_area O' a st
         else st\<lparr>cpp_areas := (cpp_areas st)(a \<mapsto> area\<lparr>ar_kref := ar_kref area - 1\<rparr>)\<rparr>)"

definition nfp_cpp_area_get :: "aref \<Rightarrow> 'd nfp_cpp \<Rightarrow> 'd nfp_cpp" where
  "nfp_cpp_area_get a st = (case cpp_areas st a of
       None \<Rightarrow> st\<lparr>freed_access := True\<rparr>
     | Some area \<Rightarrow> st\<lparr>cpp_areas := (cpp_areas st)(a \<mapsto> area\<lparr>ar_kref := ar_kref area + 1\<rparr>)\<rparr>)"

definition nfp_cpp_area_alloc_with_name ::
  "'d nfp_ops \<Rightarrow> u32 \<Rightarrow> string option \<Rightarrow> u64 \<Rightarrow> nat \<Rightarrow> 'd nfp_cpp \<Rightarrow> aref option \<times> 'd nfp_cpp" where
  "nfp_cpp_area_alloc_with_name O' dest name address sz st =
     (case nfp_target_cpp O' dest address of
        Inl err \<Rightarrow> (None, st)
      | Inr (dest, address) \<Rightarrow>
          let name = (case name of None \<Rightarrow> ''(reserved)'' | Some s \<Rightarrow> s);
              a = cpp_allocs st;
              st = st\<lparr>cpp_allocs := a + 1\<rparr> in
          if \<not> kzalloc O' a then (None, st)
          else
            let area = \<lparr>ar_kref = 1, ar_refcount = 0, ar_offset = address, ar_size = sz, res_name = name,
                  res_cpp_id = dest, res_start = address, res_end = address + word_of_nat sz - 1\<rparr>;
                (err, d) = dev_init O' a dest address sz (cpp_dev st);
                st = st\<lparr>cpp_dev := d\<rparr> in
            if err < 0 then (None, st)
            else
              let m = (cpp_areas st)(a \<mapsto> area) in
              (Some a, st\<lparr>cpp_areas := m, resource_list := resource_add m a (resource_list st)\<rparr>))"

definition nfp_cpp_area_alloc :: "'d nfp_ops \<Rightarrow> u32 \<Rightarrow> u64 \<Rightarrow> nat \<Rightarrow> 'd nfp_cpp \<Rightarrow> aref option \<times> 'd nfp_cpp" where
  "nfp_cpp_area_alloc O' dest address sz = nfp_cpp_area_alloc_with_name O' dest None address sz"

text \<open>Warnings are left out.\<close>

definition nfp_cpp_area_free :: "'d nfp_ops \<Rightarrow> aref \<Rightarrow> 'd nfp_cpp \<Rightarrow> 'd nfp_cpp" where
  "nfp_cpp_area_free O' a st = nfp_cpp_area_put O' a st"

text \<open>\<open>wait_event_interruptible\<close> with \<open>nfp_cpp_area_acquire_try\<close> as its condition.\<close>

primrec acquire_wait :: "(aref \<Rightarrow> 'd \<Rightarrow> int \<times> 'd) \<Rightarrow> ('d \<Rightarrow> 'd) \<Rightarrow> nat \<Rightarrow> aref \<Rightarrow> 'd \<Rightarrow> int \<times> 'd" where
  "acquire_wait acquire others 0 a d =
     (let (status, d) = acquire a d in if status \<noteq> - EAGAIN then (status, d) else (- ERESTARTSYS, d))"
| "acquire_wait acquire others (Suc n) a d =
     (let (status, d) = acquire a d in
      if status \<noteq> - EAGAIN then (status, d) else acquire_wait acquire others n a (others d))"

definition nfp_cpp_area_acquire :: "'d nfp_ops \<Rightarrow> aref \<Rightarrow> 'd nfp_cpp \<Rightarrow> int \<times> 'd nfp_cpp" where
  "nfp_cpp_area_acquire O' a st = (case cpp_areas st a of
       None \<Rightarrow> (0, st\<lparr>freed_access := True\<rparr>)
     | Some area \<Rightarrow>
         let st' = st\<lparr>cpp_areas := (cpp_areas st)(a \<mapsto> area\<lparr>ar_refcount := ar_refcount area + 1\<rparr>)\<rparr> in
         if ar_refcount area + 1 > 1 then (0, st')
         else (case op_area_acquire O' of
             None \<Rightarrow> (0, st')
           | Some acquire \<Rightarrow>
               let (err, d) = acquire_wait acquire (meanwhile O') (wakeups O') a (cpp_dev st) in
               if err \<noteq> 0 then (err, st\<lparr>cpp_dev := d\<rparr>)
               else (0, nfp_cpp_area_get a (st'\<lparr>cpp_dev := d\<rparr>))))"

definition nfp_cpp_area_acquire_nonblocking :: "'d nfp_ops \<Rightarrow> aref \<Rightarrow> 'd nfp_cpp \<Rightarrow> int \<times> 'd nfp_cpp" where
  "nfp_cpp_area_acquire_nonblocking O' a st = (case cpp_areas st a of
       None \<Rightarrow> (0, st\<lparr>freed_access := True\<rparr>)
     | Some area \<Rightarrow>
         let st' = st\<lparr>cpp_areas := (cpp_areas st)(a \<mapsto> area\<lparr>ar_refcount := ar_refcount area + 1\<rparr>)\<rparr> in
         if ar_refcount area + 1 = 1 then
           (case op_area_acquire O' of
              None \<Rightarrow> (0, nfp_cpp_area_get a st')
            | Some acquire \<Rightarrow>
                let (err, d) = acquire a (cpp_dev st) in
                if err < 0 then (err, st\<lparr>cpp_dev := d\<rparr>)
                else (0, nfp_cpp_area_get a (st'\<lparr>cpp_dev := d\<rparr>)))
         else (0, nfp_cpp_area_get a st'))"

definition nfp_cpp_area_release :: "'d nfp_ops \<Rightarrow> aref \<Rightarrow> 'd nfp_cpp \<Rightarrow> 'd nfp_cpp" where
  "nfp_cpp_area_release O' a st = (case cpp_areas st a of
       None \<Rightarrow> st\<lparr>freed_access := True\<rparr>
     | Some area \<Rightarrow>
         let area = area\<lparr>ar_refcount := ar_refcount area - 1\<rparr>;
             st = st\<lparr>cpp_areas := (cpp_areas st)(a \<mapsto> area)\<rparr>;
             st = (if ar_refcount area = 0 then st\<lparr>cpp_dev := dev_release O' a (cpp_dev st)\<rparr> else st) in
         nfp_cpp_area_put O' a st)"

definition nfp_cpp_area_release_free :: "'d nfp_ops \<Rightarrow> aref \<Rightarrow> 'd nfp_cpp \<Rightarrow> 'd nfp_cpp" where
  "nfp_cpp_area_release_free O' a st = nfp_cpp_area_free O' a (nfp_cpp_area_release O' a st)"

definition nfp_cpp_area_alloc_acquire ::
  "'d nfp_ops \<Rightarrow> string option \<Rightarrow> u32 \<Rightarrow> u64 \<Rightarrow> nat \<Rightarrow> 'd nfp_cpp \<Rightarrow> aref option \<times> 'd nfp_cpp" where
  "nfp_cpp_area_alloc_acquire O' name dest address sz st =
     (case nfp_cpp_area_alloc_with_name O' dest name address sz st of
        (None, st) \<Rightarrow> (None, st)
      | (Some a, st) \<Rightarrow>
          let (err, st) = nfp_cpp_area_acquire O' a st in
          if err \<noteq> 0 then (None, nfp_cpp_area_free O' a st) else (Some a, st))"

section \<open>Access to an area\<close>

definition nfp_cpp_area_read ::
  "'d nfp_ops \<Rightarrow> aref \<Rightarrow> u64 \<Rightarrow> nat \<Rightarrow> 'd nfp_cpp \<Rightarrow> int \<times> u8 list \<times> 'd nfp_cpp" where
  "nfp_cpp_area_read O' a offset len st = (case cpp_areas st a of
       None \<Rightarrow> (0, [], st\<lparr>freed_access := True\<rparr>)
     | Some area \<Rightarrow>
         let (n, bs, d) = op_area_read O' a offset len (cpp_dev st) in (n, bs, st\<lparr>cpp_dev := d\<rparr>))"

definition nfp_cpp_area_write ::
  "'d nfp_ops \<Rightarrow> aref \<Rightarrow> u64 \<Rightarrow> u8 list \<Rightarrow> 'd nfp_cpp \<Rightarrow> int \<times> 'd nfp_cpp" where
  "nfp_cpp_area_write O' a offset bs st = (case cpp_areas st a of
       None \<Rightarrow> (0, st\<lparr>freed_access := True\<rparr>)
     | Some area \<Rightarrow>
         let (n, d) = op_area_write O' a bs offset (cpp_dev st) in (n, st\<lparr>cpp_dev := d\<rparr>))"

text \<open>The bytes of a word, lowest first, and the word of some bytes.\<close>

definition put_unaligned_le :: "nat \<Rightarrow> 'a::len word \<Rightarrow> u8 list" where
  "put_unaligned_le n value = map (\<lambda>i. ucast (drop_bit (8 * i) value)) [0..<n]"

primrec get_unaligned_le :: "u8 list \<Rightarrow> 'a::len word" where
  "get_unaligned_le [] = 0"
| "get_unaligned_le (b # bs) = ucast b OR push_bit 8 (get_unaligned_le bs)"

text \<open>An error of a short access, as in all four of the word operations.\<close>

definition io_error :: "int \<Rightarrow> int" where
  "io_error n = (if n < 0 then n else - EIO)"

definition nfp_cpp_area_readl :: "'d nfp_ops \<Rightarrow> aref \<Rightarrow> u64 \<Rightarrow> 'd nfp_cpp \<Rightarrow> (int + u32) \<times> 'd nfp_cpp" where
  "nfp_cpp_area_readl O' a offset st =
     (let (n, tmp, st) = nfp_cpp_area_read O' a offset 4 st in
      if n \<noteq> 4 then (Inl (io_error n), st) else (Inr (get_unaligned_le tmp), st))"

definition nfp_cpp_area_writel :: "'d nfp_ops \<Rightarrow> aref \<Rightarrow> u64 \<Rightarrow> u32 \<Rightarrow> 'd nfp_cpp \<Rightarrow> int \<times> 'd nfp_cpp" where
  "nfp_cpp_area_writel O' a offset value st =
     (let (n, st) = nfp_cpp_area_write O' a offset (put_unaligned_le 4 value) st in
      (if n = 4 then 0 else io_error n, st))"

definition nfp_cpp_area_readq :: "'d nfp_ops \<Rightarrow> aref \<Rightarrow> u64 \<Rightarrow> 'd nfp_cpp \<Rightarrow> (int + u64) \<times> 'd nfp_cpp" where
  "nfp_cpp_area_readq O' a offset st =
     (let (n, tmp, st) = nfp_cpp_area_read O' a offset 8 st in
      if n \<noteq> 8 then (Inl (io_error n), st) else (Inr (get_unaligned_le tmp), st))"

definition nfp_cpp_area_writeq :: "'d nfp_ops \<Rightarrow> aref \<Rightarrow> u64 \<Rightarrow> u64 \<Rightarrow> 'd nfp_cpp \<Rightarrow> int \<times> 'd nfp_cpp" where
  "nfp_cpp_area_writeq O' a offset value st =
     (let (n, st) = nfp_cpp_area_write O' a offset (put_unaligned_le 8 value) st in
      (if n = 8 then 0 else io_error n, st))"

text \<open>The loop with \<open>k\<close> rounds left, from \<open>i\<close> on; a short write is not noticed.\<close>

primrec fill_loop ::
  "'d nfp_ops \<Rightarrow> aref \<Rightarrow> u64 \<Rightarrow> u8 list \<Rightarrow> nat \<Rightarrow> nat \<Rightarrow> 'd nfp_cpp \<Rightarrow> int \<times> 'd nfp_cpp" where
  "fill_loop O' a offset tmp 0 i st = (sint (word_of_nat i :: 32 word), st)"
| "fill_loop O' a offset tmp (Suc k) i st =
     (let (r, st) = nfp_cpp_area_write O' a (offset + word_of_nat i) tmp st in
      if r < 0 then (r, st) else fill_loop O' a offset tmp k (i + 4) st)"

definition nfp_cpp_area_fill ::
  "'d nfp_ops \<Rightarrow> aref \<Rightarrow> u64 \<Rightarrow> u32 \<Rightarrow> nat \<Rightarrow> 'd nfp_cpp \<Rightarrow> int \<times> 'd nfp_cpp" where
  "nfp_cpp_area_fill O' a offset value len st =
     (let tmp = put_unaligned_le 4 value in
      if unat offset mod 4 \<noteq> 0 \<or> len mod 4 \<noteq> 0 then (- EINVAL, st)
      else fill_loop O' a offset tmp (len div 4) 0 st)"

section \<open>The cache of areas\<close>

definition nfp_cpp_area_cache_add :: "'d nfp_ops \<Rightarrow> nat \<Rightarrow> 'd nfp_cpp \<Rightarrow> int \<times> 'd nfp_cpp" where
  "nfp_cpp_area_cache_add O' sz st =
     (case nfp_cpp_area_alloc O' (mu_base_id O') 0 sz st of
        (None, st) \<Rightarrow> (- ENOMEM, st)
      | (Some area, st) \<Rightarrow>
          let n = cpp_allocs st; st = st\<lparr>cpp_allocs := n + 1\<rparr> in
          if \<not> kzalloc O' n then (- ENOMEM, nfp_cpp_area_free O' area st)
          else (0, st\<lparr>area_cache_list := area_cache_list st
            @ [\<lparr>ca_id = 0, ca_addr = 0, ca_size = word_of_nat sz, ca_area = area\<rparr>]\<rparr>))"

definition round_down :: "u64 \<Rightarrow> u32 \<Rightarrow> u64" where
  "round_down x sz = x AND NOT (ucast (sz - 1))"

definition cache_hit :: "u32 \<Rightarrow> u64 \<Rightarrow> nat \<Rightarrow> nfp_cpp_area_cache \<Rightarrow> bool" where
  "cache_hit dest addr len cache \<longleftrightarrow> dest = ca_id cache \<and> addr \<ge> ca_addr cache
     \<and> addr + word_of_nat len \<le> ca_addr cache + ucast (ca_size cache)"

fun find_index :: "('a \<Rightarrow> bool) \<Rightarrow> 'a list \<Rightarrow> nat option" where
  "find_index P [] = None"
| "find_index P (x # xs) = (if P x then Some 0 else map_option Suc (find_index P xs))"

text \<open>The last entry of the list is used for an address that is not cached.\<close>

definition cache_reuse ::
  "'d nfp_ops \<Rightarrow> u32 \<Rightarrow> u64 \<Rightarrow> nat \<Rightarrow> 'd nfp_cpp \<Rightarrow> (nat \<times> u64) option \<times> 'd nfp_cpp" where
  "cache_reuse O' dest addr len st =
     (let i = length (area_cache_list st) - 1;
          cache = area_cache_list st ! i in
      if round_down (addr + word_of_nat len - 1) (ca_size cache) \<noteq> round_down addr (ca_size cache) then (None, st)
      else
        let st = (if ca_id cache \<noteq> 0 then nfp_cpp_area_release O' (ca_area cache) st else st);
            cache = cache\<lparr>ca_id := dest, ca_addr := round_down addr (ca_size cache)\<rparr>;
            st = st\<lparr>area_cache_list := (area_cache_list st)[i := cache]\<rparr>;
            (err, d) = dev_init O' (ca_area cache) dest (ca_addr cache) (unat (ca_size cache)) (cpp_dev st);
            st = st\<lparr>cpp_dev := d\<rparr> in
        if err < 0 then (None, st)
        else
          let (err, st) = nfp_cpp_area_acquire O' (ca_area cache) st in
          if err < 0 then (None, st) else (Some (i, addr - ca_addr cache), st))"

definition area_cache_get ::
  "'d nfp_ops \<Rightarrow> u32 \<Rightarrow> u64 \<Rightarrow> u64 \<Rightarrow> nat \<Rightarrow> 'd nfp_cpp \<Rightarrow> (nat \<times> u64) option \<times> 'd nfp_cpp" where
  "area_cache_get O' dest addr offset len st =
     (if len = 0 \<or> dest = 0 then (None, st)
      else case nfp_target_cpp O' dest addr of
        Inl err \<Rightarrow> (None, st)
      | Inr (dest, addr) \<Rightarrow>
          if area_cache_list st = [] then (None, st)
          else
            let addr = addr + offset in
            case find_index (cache_hit dest addr len) (area_cache_list st) of
              Some i \<Rightarrow> (Some (i, addr - ca_addr (area_cache_list st ! i)), st)
            | None \<Rightarrow> cache_reuse O' dest addr len st)"

definition area_cache_put :: "nat \<Rightarrow> 'd nfp_cpp \<Rightarrow> 'd nfp_cpp" where
  "area_cache_put i st =
     (let cs = area_cache_list st in st\<lparr>area_cache_list := cs ! i # take i cs @ drop (Suc i) cs\<rparr>)"

section \<open>Transfers\<close>

text \<open>\<open>__nfp_cpp_read\<close> and \<open>__nfp_cpp_write\<close> differ in the access \<open>io\<close> only.\<close>

definition cpp_access ::
  "'d nfp_ops \<Rightarrow> u32 \<Rightarrow> u64 \<Rightarrow> nat \<Rightarrow> (aref \<Rightarrow> u64 \<Rightarrow> 'd nfp_cpp \<Rightarrow> int \<times> u8 list \<times> 'd nfp_cpp)
    \<Rightarrow> 'd nfp_cpp \<Rightarrow> int \<times> u8 list \<times> 'd nfp_cpp" where
  "cpp_access O' destination address len io st =
     (case area_cache_get O' destination address 0 len st of
        (Some (i, offset), st) \<Rightarrow>
          let (err, bs, st) = io (ca_area (area_cache_list st ! i)) offset st in
          (err, bs, area_cache_put i st)
      | (None, st) \<Rightarrow>
          (case nfp_cpp_area_alloc O' destination address len st of
             (None, st) \<Rightarrow> (- ENOMEM, [], st)
           | (Some area, st) \<Rightarrow>
               let (err, st) = nfp_cpp_area_acquire O' area st in
               if err \<noteq> 0 then (err, [], nfp_cpp_area_free O' area st)
               else
                 let (err, bs, st) = io area 0 st in
                 (err, bs, nfp_cpp_area_release_free O' area st)))"

definition cpp_read_chunk ::
  "'d nfp_ops \<Rightarrow> u32 \<Rightarrow> u64 \<Rightarrow> nat \<Rightarrow> 'd nfp_cpp \<Rightarrow> int \<times> u8 list \<times> 'd nfp_cpp" where
  "cpp_read_chunk O' destination address len =
     cpp_access O' destination address len (\<lambda>a offset. nfp_cpp_area_read O' a offset len)"

definition cpp_write_chunk ::
  "'d nfp_ops \<Rightarrow> u32 \<Rightarrow> u64 \<Rightarrow> u8 list \<Rightarrow> 'd nfp_cpp \<Rightarrow> int \<times> 'd nfp_cpp" where
  "cpp_write_chunk O' destination address bs st =
     (let (n, _, st) = cpp_access O' destination address (length bs)
        (\<lambda>a offset st. let (n, st) = nfp_cpp_area_write O' a offset bs st in (n, [], st)) st in (n, st))"

definition ALIGN :: "u64 \<Rightarrow> u64 \<Rightarrow> u64" where
  "ALIGN x a = (x + (a - 1)) AND NOT (a - 1)"

text \<open>The length of the next chunk: up to the end of the window of the address.\<close>

definition chunk_length :: "u64 \<Rightarrow> u64 \<Rightarrow> nat \<Rightarrow> nat \<Rightarrow> nat" where
  "chunk_length safe_size address len offset =
     (let r_addr = address + word_of_nat offset in
      min (len - offset) (unat (ALIGN (r_addr + 1) safe_size - r_addr)))"

text \<open>
  The loop of \<open>nfp_cpp_read\<close> and \<open>nfp_cpp_write\<close> over chunks; the result is an \<open>int\<close>. \<open>None\<close> is a
  loop that does not end.
\<close>

partial_function (option) cpp_chunks ::
  "u64 \<Rightarrow> u64 \<Rightarrow> nat \<Rightarrow> (nat \<Rightarrow> nat \<Rightarrow> 's \<Rightarrow> int \<times> 's) \<Rightarrow> nat \<Rightarrow> 's \<Rightarrow> (int \<times> 's) option" where
  "cpp_chunks safe_size address len chunk offset s =
     (if offset < len then
        let n = chunk_length safe_size address len offset;
            (ret, s) = chunk offset n s in
        if ret < 0 then Some (ret, s)
        else if ret \<noteq> int n then Some (sint (word_of_nat (offset + n) :: 32 word), s)
        else cpp_chunks safe_size address len chunk (offset + n) s
      else Some (sint (word_of_nat len :: 32 word), s))"

declare cpp_chunks.simps [code]

definition put_bytes :: "nat \<Rightarrow> u8 list \<Rightarrow> u8 list \<Rightarrow> u8 list" where
  "put_bytes offset bs buf = take offset buf @ bs @ drop (offset + length bs) buf"

definition nfp_cpp_read ::
  "'d nfp_ops \<Rightarrow> u32 \<Rightarrow> u64 \<Rightarrow> u8 list \<Rightarrow> nat \<Rightarrow> 'd nfp_cpp \<Rightarrow> (int \<times> u8 list \<times> 'd nfp_cpp) option" where
  "nfp_cpp_read O' destination address buf len st =
     cpp_chunks (NFP_CPP_SAFE_AREA_SIZE O') address len
       (\<lambda>offset n (buf, st).
          let (ret, bs, st) = cpp_read_chunk O' destination (address + word_of_nat offset) n st in
          (ret, put_bytes offset bs buf, st)) 0 (buf, st)"

definition nfp_cpp_write ::
  "'d nfp_ops \<Rightarrow> u32 \<Rightarrow> u64 \<Rightarrow> u8 list \<Rightarrow> 'd nfp_cpp \<Rightarrow> (int \<times> 'd nfp_cpp) option" where
  "nfp_cpp_write O' destination address bs st =
     cpp_chunks (NFP_CPP_SAFE_AREA_SIZE O') address (length bs)
       (\<lambda>offset n st. cpp_write_chunk O' destination (address + word_of_nat offset) (take n (drop offset bs)) st) 0 st"

section \<open>The end of a handle\<close>

definition cache_free :: "'d nfp_ops \<Rightarrow> nfp_cpp_area_cache \<Rightarrow> 'd nfp_cpp \<Rightarrow> 'd nfp_cpp" where
  "cache_free O' cache st =
     (let st = st\<lparr>area_cache_list := remove1 cache (area_cache_list st)\<rparr>;
          st = (if ca_id cache \<noteq> 0 then nfp_cpp_area_release O' (ca_area cache) st else st) in
      nfp_cpp_area_free O' (ca_area cache) st)"

definition dangling_free :: "'d nfp_ops \<Rightarrow> aref \<Rightarrow> 'd nfp_cpp \<Rightarrow> 'd nfp_cpp" where
  "dangling_free O' a st = release_cpp_area O' a (st\<lparr>cpp_dev := dev_release O' a (cpp_dev st)\<rparr>)"

definition nfp_cpp_free :: "'d nfp_ops \<Rightarrow> 'd nfp_cpp \<Rightarrow> 'd nfp_cpp" where
  "nfp_cpp_free O' st =
     (let st = fold (cache_free O') (area_cache_list st) st in
      fold (dangling_free O') (resource_list st) st)"

section \<open>The XPB bus\<close>

text \<open>The address on the bus; \<open>arm\<close> says whether the interface is the one of the ARM island.\<close>

definition nfp_xpb_to_cpp :: "bool \<Rightarrow> u32 \<Rightarrow> u32" where
  "nfp_xpb_to_cpp arm xpb_addr =
     (let island = drop_bit 24 xpb_addr AND 0x3f in
      if island = 0 then xpb_addr
      else if island \<noteq> 1 then xpb_addr OR push_bit 30 1
      else
        let xpb_addr = xpb_addr AND NOT 0x7f000000 in
        if xpb_addr < 0x60000 then xpb_addr OR push_bit 30 1
        else if \<not> arm then xpb_addr OR push_bit 24 1 else xpb_addr)"

text \<open>\<open>nfp_cpp_readl\<close> and \<open>nfp_cpp_writel\<close> on the XPB target are in another file: \<open>readl\<close>, \<open>writel\<close>.\<close>

definition nfp_xpb_readl :: "bool \<Rightarrow> (u32 \<Rightarrow> 's \<Rightarrow> (int + u32) \<times> 's) \<Rightarrow> u32 \<Rightarrow> 's \<Rightarrow> (int + u32) \<times> 's" where
  "nfp_xpb_readl arm readl xpb_addr s = readl (nfp_xpb_to_cpp arm xpb_addr) s"

definition nfp_xpb_writel :: "bool \<Rightarrow> (u32 \<Rightarrow> u32 \<Rightarrow> 's \<Rightarrow> int \<times> 's) \<Rightarrow> u32 \<Rightarrow> u32 \<Rightarrow> 's \<Rightarrow> int \<times> 's" where
  "nfp_xpb_writel arm writel xpb_addr value s = writel (nfp_xpb_to_cpp arm xpb_addr) value s"

definition nfp_xpb_writelm ::
  "bool \<Rightarrow> (u32 \<Rightarrow> 's \<Rightarrow> (int + u32) \<times> 's) \<Rightarrow> (u32 \<Rightarrow> u32 \<Rightarrow> 's \<Rightarrow> int \<times> 's)
    \<Rightarrow> u32 \<Rightarrow> u32 \<Rightarrow> u32 \<Rightarrow> 's \<Rightarrow> int \<times> 's" where
  "nfp_xpb_writelm arm readl writel xpb_tgt msk value s =
     (case nfp_xpb_readl arm readl xpb_tgt s of
        (Inl err, s) \<Rightarrow> (err, s)
      | (Inr tmp, s) \<Rightarrow> nfp_xpb_writel arm writel xpb_tgt ((tmp AND NOT msk) OR (msk AND value)) s)"

section \<open>Resources stay sorted\<close>

definition resources_sorted :: "'d nfp_cpp \<Rightarrow> bool" where
  "resources_sorted st \<longleftrightarrow> sorted_wrt (\<lambda>t r. \<not> resource_later (cpp_areas st) t r) (resource_list st)"

lemma resource_later_trans: "resource_later m t r \<Longrightarrow> resource_later m r x \<Longrightarrow> resource_later m t x"
  by (auto simp: resource_later_def split: option.splits)

lemma resource_later_asym: "resource_later m t r \<Longrightarrow> \<not> resource_later m r t"
  by (auto simp: resource_later_def split: option.splits)

lemma set_resource_add [simp]: "set (resource_add m r xs) = insert r (set xs)"
  by (induction xs) auto

lemma length_resource_add [simp]: "length (resource_add m r xs) = Suc (length xs)"
  by (induction xs) auto

lemma distinct_resource_add [simp]: "distinct (resource_add m r xs) \<longleftrightarrow> r \<notin> set xs \<and> distinct xs"
  by (induction xs) auto

lemma resource_add_sorted:
  "sorted_wrt (\<lambda>t r. \<not> resource_later m t r) xs \<Longrightarrow>
    sorted_wrt (\<lambda>t r. \<not> resource_later m t r) (resource_add m r xs)"
  by (induction xs) (auto dest: resource_later_asym resource_later_trans)

lemma remove1_resource_add: "r \<notin> set xs \<Longrightarrow> remove1 r (resource_add m r xs) = xs"
  by (induction xs) auto

section \<open>Words and bytes\<close>

lemma put_unaligned_le_Suc:
  "put_unaligned_le (Suc n) v = ucast v # put_unaligned_le n (drop_bit 8 v)"
  by (simp add: put_unaligned_le_def upt_conv_Cons map_Suc_upt [symmetric] drop_bit_drop_bit ac_simps del: upt_Suc)

lemma get_put_unaligned_le: "get_unaligned_le (put_unaligned_le n v) = take_bit (8 * n) (v :: 'a::len word)"
proof (induction n arbitrary: v)
  case 0
  then show ?case by (simp add: put_unaligned_le_def)
next
  case (Suc n)
  show ?case
    by (rule bit_word_eqI)
      (auto simp: put_unaligned_le_Suc Suc bit_simps not_le le_diff_conv2 dest: bit_imp_le_length)
qed

lemma length_put_unaligned_le [simp]: "length (put_unaligned_le n v) = n"
  by (simp add: put_unaligned_le_def)

text \<open>The register of an XPB address, its low 24 bits, is never changed.\<close>

lemma nfp_xpb_to_cpp_register: "take_bit 24 (nfp_xpb_to_cpp arm x) = take_bit 24 x"
proof -
  have "take_bit 24 (push_bit 30 1 :: u32) = 0" "take_bit 24 (push_bit 24 1 :: u32) = 0" by simp_all
  moreover have "take_bit 24 (NOT 0x7f000000 :: u32) = mask 24" by (simp add: mask_eq_exp_minus_1)
  ultimately show ?thesis
    by (simp add: nfp_xpb_to_cpp_def Let_def take_bit_or take_bit_and) (simp add: take_bit_eq_mask and.assoc)
qed

end
