(* ===== verification/Nfp_Cache.thy ===== *)
theory Nfp_Cache
  imports Nfp_Cpp
begin

text \<open>
  Transfers over the CPP bus through the cache of areas. \<open>device_ok\<close> is the contract of the
  operations of a device that serves every request, seen through \<open>view\<close>: the window of an area,
  whether it is held, and the memory behind the windows. \<open>cpp_inv\<close> is the invariant of the driver:
  reference counts, the list of resources, and cached areas whose windows are what the cache
  entries say. On top of it: reads give the bytes of the target and writes change exactly them.
\<close>

unbundle bit_operations_syntax

section \<open>The device\<close>

record 'd view =
  v_window :: "'d \<Rightarrow> aref \<Rightarrow> u32 \<times> u64 \<times> nat"
  v_held :: "'d \<Rightarrow> aref \<Rightarrow> bool"
  v_mem :: "'d \<Rightarrow> u32 \<Rightarrow> u64 \<Rightarrow> u8"

definition mem_write :: "u64 \<Rightarrow> u8 list \<Rightarrow> (u64 \<Rightarrow> u8) \<Rightarrow> u64 \<Rightarrow> u8" where
  "mem_write addr bs m = (\<lambda>x. let k = unat (x - addr) in if k < length bs then bs ! k else m x)"

definition mem_read :: "u64 \<Rightarrow> nat \<Rightarrow> (u64 \<Rightarrow> u8) \<Rightarrow> u8 list" where
  "mem_read addr len m = map (\<lambda>i. m (addr + word_of_nat i)) [0..<len]"

text \<open>An aligned access of \<open>len\<close> bytes at \<open>addr\<close> of target \<open>t\<close> through area \<open>a\<close>, inside its window.\<close>

definition access_ok :: "'d view \<Rightarrow> 'd \<Rightarrow> aref \<Rightarrow> u32 \<Rightarrow> u64 \<Rightarrow> u64 \<Rightarrow> nat \<Rightarrow> bool" where
  "access_ok V d a t addr off len \<longleftrightarrow> v_held V d a \<and> 4 dvd unat off \<and> 4 dvd len
     \<and> (\<exists>w sz. v_window V d a = (t, w, sz) \<and> addr = w + off \<and> unat off + len \<le> sz)"

definition init_ok :: "'d nfp_ops \<Rightarrow> 'd view \<Rightarrow> bool" where
  "init_ok O' V \<longleftrightarrow> (\<forall>a t addr sz d r d'. dev_init O' a t addr sz d = (r, d') \<longrightarrow> 0 \<le> r
     \<and> v_window V d' = (v_window V d)(a := (t, addr, sz)) \<and> v_held V d' = v_held V d \<and> v_mem V d' = v_mem V d)"

definition acquire_ok :: "'d nfp_ops \<Rightarrow> 'd view \<Rightarrow> bool" where
  "acquire_ok O' V \<longleftrightarrow> (\<exists>acquire. op_area_acquire O' = Some acquire \<and>
     (\<forall>a d r d'. acquire a d = (r, d') \<longrightarrow> r = 0 \<and> v_window V d' = v_window V d
        \<and> v_held V d' = (v_held V d)(a := True) \<and> v_mem V d' = v_mem V d))"

definition release_ok :: "'d nfp_ops \<Rightarrow> 'd view \<Rightarrow> bool" where
  "release_ok O' V \<longleftrightarrow>
     (\<forall>a d. v_window V (dev_release O' a d) = v_window V d
        \<and> v_held V (dev_release O' a d) = (v_held V d)(a := False) \<and> v_mem V (dev_release O' a d) = v_mem V d)
     \<and> (\<forall>a d. v_mem V (dev_cleanup O' a d) = v_mem V d
        \<and> (\<forall>x. x \<noteq> a \<longrightarrow> v_window V (dev_cleanup O' a d) x = v_window V d x
          \<and> v_held V (dev_cleanup O' a d) x = v_held V d x))"

definition transfer_ok :: "'d nfp_ops \<Rightarrow> 'd view \<Rightarrow> bool" where
  "transfer_ok O' V \<longleftrightarrow>
     (\<forall>a t addr off len d. access_ok V d a t addr off len \<longrightarrow>
        op_area_read O' a off len d = (int len, mem_read addr len (v_mem V d t), d))
     \<and> (\<forall>a t addr off bs d r d'. access_ok V d a t addr off (length bs) \<longrightarrow> op_area_write O' a bs off d = (r, d') \<longrightarrow>
        r = int (length bs) \<and> v_window V d' = v_window V d \<and> v_held V d' = v_held V d
        \<and> v_mem V d' = (v_mem V d)(t := mem_write addr bs (v_mem V d t)))"

definition device_ok :: "'d nfp_ops \<Rightarrow> 'd view \<Rightarrow> bool" where
  "device_ok O' V \<longleftrightarrow> (\<forall>n. kzalloc O' n) \<and> init_ok O' V \<and> acquire_ok O' V \<and> release_ok O' V \<and> transfer_ok O' V"

section \<open>The invariant\<close>

definition cache_entry :: "'d view \<Rightarrow> (aref \<Rightarrow> nfp_cpp_area option) \<Rightarrow> 'd \<Rightarrow> nfp_cpp_area_cache \<Rightarrow> bool" where
  "cache_entry V m d c \<longleftrightarrow> (\<exists>area k. m (ca_area c) = Some area \<and> 2 \<le> k \<and> k < 32 \<and> ca_size c = 2 ^ k
     \<and> (if ca_id c = 0 then ar_kref area = 1 \<and> ar_refcount area = 0
        else ar_kref area = 2 \<and> ar_refcount area = 1 \<and> 2 ^ k dvd unat (ca_addr c)
          \<and> v_held V d (ca_area c) \<and> v_window V d (ca_area c) = (ca_id c, ca_addr c, 2 ^ k)))"

definition areas_inv :: "'d nfp_cpp \<Rightarrow> bool" where
  "areas_inv st \<longleftrightarrow> \<not> freed_access st \<and> distinct (resource_list st) \<and> set (resource_list st) = dom (cpp_areas st)
     \<and> resources_sorted st \<and> (\<forall>a \<in> dom (cpp_areas st). a < cpp_allocs st)"

definition cpp_inv :: "'d view \<Rightarrow> 'd nfp_cpp \<Rightarrow> bool" where
  "cpp_inv V st \<longleftrightarrow> areas_inv st \<and> distinct (map ca_area (area_cache_list st))
     \<and> (\<forall>c \<in> set (area_cache_list st). cache_entry V (cpp_areas st) (cpp_dev st) c)"

section \<open>Areas\<close>

lemma release_held:
  assumes "cpp_areas st a = Some area" "ar_kref area = 2" "ar_refcount area = 1"
  shows "nfp_cpp_area_release O' a st = st\<lparr>cpp_dev := dev_release O' a (cpp_dev st),
    cpp_areas := (cpp_areas st)(a \<mapsto> area\<lparr>ar_refcount := 0, ar_kref := 1\<rparr>)\<rparr>"
  using assms by (simp add: nfp_cpp_area_release_def nfp_cpp_area_put_def Let_def)

lemma acquire_idle:
  assumes "device_ok O' V" "cpp_areas st a = Some area" "ar_refcount area = 0"
  obtains d where "nfp_cpp_area_acquire O' a st = (0, st\<lparr>cpp_dev := d,
      cpp_areas := (cpp_areas st)(a \<mapsto> area\<lparr>ar_refcount := 1, ar_kref := ar_kref area + 1\<rparr>)\<rparr>)"
    "v_window V d = v_window V (cpp_dev st)" "v_held V d = (v_held V (cpp_dev st))(a := True)"
    "v_mem V d = v_mem V (cpp_dev st)"
proof -
  from assms(1) obtain acquire where acq: "op_area_acquire O' = Some acquire"
    and laws: "\<And>a d r d'. acquire a d = (r, d') \<Longrightarrow> r = 0 \<and> v_window V d' = v_window V d
      \<and> v_held V d' = (v_held V d)(a := True) \<and> v_mem V d' = v_mem V d"
    by (auto simp: device_ok_def acquire_ok_def)
  obtain r d where call: "acquire a (cpp_dev st) = (r, d)" by force
  from laws [OF this] have d: "r = 0" "v_window V d = v_window V (cpp_dev st)"
    "v_held V d = (v_held V (cpp_dev st))(a := True)" "v_mem V d = v_mem V (cpp_dev st)" by simp_all
  have "acquire_wait acquire (meanwhile O') n a (cpp_dev st) = (0, d)" for n
    using call d(1) by (cases n) (simp_all add: EAGAIN_def)
  with acq assms(2,3) d show ?thesis
    by (intro that [of d]) (simp_all add: nfp_cpp_area_acquire_def nfp_cpp_area_get_def)
qed

lemma release_free_held:
  assumes "cpp_areas st a = Some area" "ar_kref area = 2" "ar_refcount area = 1"
  shows "nfp_cpp_area_release_free O' a st = st\<lparr>cpp_dev := dev_cleanup O' a (dev_release O' a (cpp_dev st)),
    resource_list := remove1 a (resource_list st), cpp_areas := (cpp_areas st)(a := None)\<rparr>"
  using assms
  by (simp add: nfp_cpp_area_release_free_def release_held nfp_cpp_area_free_def nfp_cpp_area_put_def release_cpp_area_def)

lemma alloc_area:
  assumes "device_ok O' V" "nfp_target_cpp O' dest address = Inr (t, addr)"
  obtains d area where "nfp_cpp_area_alloc O' dest address sz st =
      (Some (cpp_allocs st), st\<lparr>cpp_allocs := cpp_allocs st + 1, cpp_dev := d,
        cpp_areas := (cpp_areas st)(cpp_allocs st \<mapsto> area),
        resource_list := resource_add ((cpp_areas st)(cpp_allocs st \<mapsto> area)) (cpp_allocs st) (resource_list st)\<rparr>)"
    "ar_kref area = 1" "ar_refcount area = 0"
    "v_window V d = (v_window V (cpp_dev st))(cpp_allocs st := (t, addr, sz))" "v_held V d = v_held V (cpp_dev st)"
    "v_mem V d = v_mem V (cpp_dev st)"
proof -
  obtain r d where call: "dev_init O' (cpp_allocs st) t addr sz (cpp_dev st) = (r, d)" by force
  with assms(1) have d: "0 \<le> r" "v_window V d = (v_window V (cpp_dev st))(cpp_allocs st := (t, addr, sz))"
    "v_held V d = v_held V (cpp_dev st)" "v_mem V d = v_mem V (cpp_dev st)"
    unfolding device_ok_def init_ok_def by blast+
  have "kzalloc O' (cpp_allocs st)" using assms(1) by (simp add: device_ok_def)
  with assms(2) call d show ?thesis
    by (intro that [where d = d and area = "\<lparr>ar_kref = 1, ar_refcount = 0, ar_offset = addr, ar_size = sz, res_name = ''(reserved)'',
      res_cpp_id = t, res_start = addr, res_end = addr + word_of_nat sz - 1\<rparr>"])
      (simp_all add: nfp_cpp_area_alloc_def nfp_cpp_area_alloc_with_name_def Let_def)
qed

section \<open>Rounding\<close>

lemma unat_size: "k < 32 \<Longrightarrow> unat ((2 :: u32) ^ k) = 2 ^ k"
proof -
  assume "k < 32"
  then have "(2 :: nat) ^ k < 2 ^ 32" by (rule power_strict_increasing) simp
  moreover have "(2 :: u32) ^ k = word_of_nat (2 ^ k)" by simp
  ultimately show ?thesis by (simp only: unsigned_of_nat take_bit_eq_mod) simp
qed

lemma ucast_size_mask: "k < 32 \<Longrightarrow> ucast ((2 :: u32) ^ k - 1) = (mask k :: u64)"
  by (rule bit_word_eqI) (auto simp: mask_eq_exp_minus_1 [symmetric] bit_simps)

lemma and_not_mask: "(x :: u64) AND NOT (mask k) = x - take_bit k x"
proof -
  have "(x AND NOT (mask k)) + (x AND mask k) = (x AND NOT (mask k)) OR (x AND mask k)"
    by (rule disjunctive_add) (auto simp: bit_simps)
  also have "\<dots> = x" by (auto simp: bit_simps intro!: bit_word_eqI)
  finally show ?thesis by (simp add: take_bit_eq_mask algebra_simps)
qed

lemma unat_take_bit: "unat (take_bit k (x :: u64)) = unat x mod 2 ^ k"
  by (simp add: unsigned_take_bit_eq flip: take_bit_eq_mod)

lemma unat_and_not_mask: "unat ((x :: u64) AND NOT (mask k)) = unat x - unat x mod 2 ^ k"
proof -
  have "take_bit k x \<le> x" using unat_take_bit [of k x] by (simp add: word_le_nat_alt)
  then show ?thesis by (simp add: and_not_mask unat_sub unat_take_bit)
qed

lemma unat_round_down: "k < 32 \<Longrightarrow> unat (round_down x (2 ^ k)) = unat x - unat x mod 2 ^ k"
  by (simp add: round_down_def ucast_size_mask unat_and_not_mask)

lemma unat_add_len: "unat (a :: u64) + len < 2 ^ 64 \<Longrightarrow> unat (a + word_of_nat len) = unat a + len"
  by (simp add: unat_word_ariths unsigned_of_nat take_bit_eq_mod)

lemma same_window:
  assumes "k < 32" "round_down (a + word_of_nat len - 1) (2 ^ k) = round_down a (2 ^ k)" "0 < len"
    "unat a + len < 2 ^ 64"
  shows "unat a mod 2 ^ k + len \<le> 2 ^ k"
proof -
  let ?x = "unat a" and ?y = "unat a + len - 1"
  have "1 \<le> a + word_of_nat len" using assms(3) unat_add_len [OF assms(4)] by (simp add: word_le_nat_alt)
  then have "unat (a + word_of_nat len - 1) = ?y" using unat_add_len [OF assms(4)] by (simp add: unat_sub)
  then have "?y - ?y mod 2 ^ k = ?x - ?x mod 2 ^ k"
    using arg_cong [OF assms(2), of unat] assms(1) by (simp add: unat_round_down)
  moreover have "?y mod 2 ^ k < 2 ^ k" "?y mod 2 ^ k \<le> ?y" "?x mod 2 ^ k \<le> ?x" by simp_all
  ultimately show ?thesis using assms(3) by linarith
qed

section \<open>The cache\<close>

lemma access_window:
  assumes "v_held V d a" "v_window V d a = (t, w, 2 ^ k)" "2 \<le> k" "2 ^ k dvd unat w" "w \<le> addr"
    "unat addr - unat w + len \<le> 2 ^ k" "4 dvd unat addr" "4 dvd len"
  shows "access_ok V d a t addr (addr - w) len"
proof -
  have "4 dvd unat w" using dvd_trans [OF le_imp_power_dvd [OF assms(3), of "2 :: nat"] assms(4)] by simp
  then have "4 dvd unat (addr - w)" using assms(5,7) by (simp add: unat_sub)
  with assms show ?thesis by (simp add: access_ok_def unat_sub)
qed

lemma hit_access:
  assumes "cache_entry V m d c" "cache_hit t addr len c" "t \<noteq> 0" "0 < len" "unat addr + len < 2 ^ 64"
    "4 dvd unat addr" "4 dvd len"
  shows "access_ok V d (ca_area c) t addr (addr - ca_addr c) len"
proof -
  from assms(1-3) obtain k where k: "2 \<le> k" "k < 32" "ca_size c = 2 ^ k" "2 ^ k dvd unat (ca_addr c)"
    "v_held V d (ca_area c)" "v_window V d (ca_area c) = (t, ca_addr c, 2 ^ k)"
    by (auto simp: cache_entry_def cache_hit_def)
  from assms(2) have le: "ca_addr c \<le> addr" "addr + word_of_nat len \<le> ca_addr c + ucast (ca_size c)"
    by (simp_all add: cache_hit_def)
  have "unat (ca_addr c + ucast (ca_size c)) \<le> unat (ca_addr c) + 2 ^ k"
    using unat_size [OF k(2)] k(3) mod_less_eq_dividend [of "unat (ca_addr c) + 2 ^ k mod 2 ^ 64" "2 ^ 64"]
      mod_less_eq_dividend [of "2 ^ k :: nat" "2 ^ 64"]
    by (simp add: unat_word_ariths unsigned_ucast_eq take_bit_eq_mod)
  with le(2) unat_add_len [OF assms(5)] have "unat addr + len \<le> unat (ca_addr c) + 2 ^ k"
    by (simp add: word_le_nat_alt)
  with le(1) have "unat addr - unat (ca_addr c) + len \<le> 2 ^ k" by (simp add: word_le_nat_alt)
  with access_window [OF k(5,6,1,4) le(1) _ assms(6,7)] show ?thesis by simp
qed

lemma find_index_Some: "find_index P xs = Some i \<Longrightarrow> i < length xs \<and> P (xs ! i)"
  by (induction xs arbitrary: i) (auto split: if_splits)

lemma areas_inv_upd:
  assumes "areas_inv st" "cpp_areas st a = Some area" "res_cpp_id area' = res_cpp_id area" "res_start area' = res_start area"
  shows "areas_inv (st\<lparr>area_cache_list := cs, cpp_dev := d, cpp_areas := (cpp_areas st)(a \<mapsto> area')\<rparr>)"
proof -
  have "resource_later ((cpp_areas st)(a \<mapsto> area')) = resource_later (cpp_areas st)"
    using assms(2-4) by (auto simp: resource_later_def fun_eq_iff split: option.split)
  with assms(1,2) show ?thesis by (auto simp: areas_inv_def resources_sorted_def)
qed

lemma cache_entry_frame:
  "cache_entry V m d c \<Longrightarrow> m' (ca_area c) = m (ca_area c) \<Longrightarrow> v_held V d' (ca_area c) = v_held V d (ca_area c) \<Longrightarrow>
    v_window V d' (ca_area c) = v_window V d (ca_area c) \<Longrightarrow> cache_entry V m' d' c"
  by (simp only: cache_entry_def)

text \<open>Before an entry is used again its area is idle.\<close>

lemma cache_evict:
  assumes "device_ok O' V" "cache_entry V (cpp_areas st) (cpp_dev st) c"
  obtains d area area' where
    "(if ca_id c \<noteq> 0 then nfp_cpp_area_release O' (ca_area c) st else st) =
       st\<lparr>cpp_dev := d, cpp_areas := (cpp_areas st)(ca_area c \<mapsto> area')\<rparr>"
    "cpp_areas st (ca_area c) = Some area" "res_cpp_id area' = res_cpp_id area" "res_start area' = res_start area"
    "ar_kref area' = 1" "ar_refcount area' = 0"
    "v_window V d = v_window V (cpp_dev st)" "v_mem V d = v_mem V (cpp_dev st)"
    "\<forall>x. x \<noteq> ca_area c \<longrightarrow> v_held V d x = v_held V (cpp_dev st) x"
proof (cases "ca_id c = 0")
  case True
  with assms(2) obtain area where "cpp_areas st (ca_area c) = Some area" "ar_kref area = 1" "ar_refcount area = 0"
    by (auto simp: cache_entry_def)
  with True show ?thesis by (intro that [where d = "cpp_dev st" and area = area and area' = area]) (simp_all add: map_upd_triv)
next
  case False
  with assms(2) obtain area where area: "cpp_areas st (ca_area c) = Some area" "ar_kref area = 2" "ar_refcount area = 1"
    by (auto simp: cache_entry_def)
  have "v_window V (dev_release O' (ca_area c) (cpp_dev st)) = v_window V (cpp_dev st)"
    "v_mem V (dev_release O' (ca_area c) (cpp_dev st)) = v_mem V (cpp_dev st)"
    "v_held V (dev_release O' (ca_area c) (cpp_dev st)) = (v_held V (cpp_dev st))(ca_area c := False)"
    using assms(1) by (simp_all add: device_ok_def release_ok_def)
  with False area release_held [OF area, of O'] show ?thesis
    by (intro that [where d = "dev_release O' (ca_area c) (cpp_dev st)" and area = area
      and area' = "area\<lparr>ar_refcount := 0, ar_kref := 1\<rparr>"]) simp_all
qed

lemma cache_replace:
  assumes "cpp_inv V st" "i < length (area_cache_list st)" "c = area_cache_list st ! i" "ca_area c' = ca_area c"
    "cpp_areas st (ca_area c) = Some area" "res_cpp_id area' = res_cpp_id area" "res_start area' = res_start area"
    "\<forall>x. x \<noteq> ca_area c \<longrightarrow> v_held V d x = v_held V (cpp_dev st) x \<and> v_window V d x = v_window V (cpp_dev st) x"
    "cache_entry V ((cpp_areas st)(ca_area c \<mapsto> area')) d c'"
  shows "cpp_inv V (st\<lparr>area_cache_list := (area_cache_list st)[i := c'], cpp_dev := d,
    cpp_areas := (cpp_areas st)(ca_area c \<mapsto> area')\<rparr>)"
proof -
  let ?cs = "area_cache_list st"
  have dist: "distinct (map ca_area ?cs)" and entries: "\<forall>c \<in> set ?cs. cache_entry V (cpp_areas st) (cpp_dev st) c"
    and areas: "areas_inv st" using assms(1) by (simp_all add: cpp_inv_def)
  have same: "map ca_area (?cs[i := c']) = map ca_area ?cs"
    using assms(2-4) by (simp add: map_update list_update_same_conv)
  have "cache_entry V ((cpp_areas st)(ca_area c \<mapsto> area')) d x" if x: "x \<in> set (?cs[i := c'])" for x
  proof -
    from x obtain j where j: "j < length ?cs" "x = ?cs[i := c'] ! j" by (auto simp: in_set_conv_nth)
    show ?thesis
    proof (cases "j = i")
      case True
      with j assms(9) show ?thesis by simp
    next
      case False
      with j have x: "x = ?cs ! j" by simp
      have "ca_area x \<noteq> ca_area c"
        using False j(1) x assms(2,3) nth_eq_iff_index_eq [OF dist, of i j] by auto
      moreover have "cache_entry V (cpp_areas st) (cpp_dev st) x" using entries j(1) x by simp
      ultimately show ?thesis using assms(8) by (auto intro: cache_entry_frame)
    qed
  qed
  with areas_inv_upd [OF areas assms(5-7)] dist same show ?thesis by (simp add: cpp_inv_def)
qed

text \<open>What a lookup leaves: the invariant, the memory, the areas, and an entry for the access.\<close>

definition cache_gives ::
  "'d view \<Rightarrow> u32 \<Rightarrow> u64 \<Rightarrow> nat \<Rightarrow> 'd nfp_cpp \<Rightarrow> (nat \<times> u64) option \<times> 'd nfp_cpp \<Rightarrow> bool" where
  "cache_gives V t addr len st result = (case result of (r, st') \<Rightarrow>
     cpp_inv V st' \<and> v_mem V (cpp_dev st') = v_mem V (cpp_dev st) \<and> dom (cpp_areas st') = dom (cpp_areas st)
     \<and> (case r of None \<Rightarrow> True | Some (i, off) \<Rightarrow> i < length (area_cache_list st')
          \<and> access_ok V (cpp_dev st') (ca_area (area_cache_list st' ! i)) t addr off len))"

lemma cache_reuse_gives:
  assumes dev: "device_ok O' V" and inv: "cpp_inv V st" and ne: "area_cache_list st \<noteq> []"
    and req: "t \<noteq> 0" "0 < len" "unat addr + len < 2 ^ 64" "4 dvd unat addr" "4 dvd len"
  shows "cache_gives V t addr len st (cache_reuse O' t addr len st)"
proof -
  define i c where "i = length (area_cache_list st) - 1" and "c = area_cache_list st ! i"
  from ne have i: "i < length (area_cache_list st)" by (simp add: i_def)
  with inv have entry: "cache_entry V (cpp_areas st) (cpp_dev st) c" by (simp add: cpp_inv_def c_def)
  then obtain k where k: "2 \<le> k" "k < 32" "ca_size c = 2 ^ k" by (auto simp: cache_entry_def)
  let ?base = "round_down addr (2 ^ k)" and ?a = "ca_area c"
  show ?thesis
  proof (cases "round_down (addr + word_of_nat len - 1) (2 ^ k) = ?base")
    case False
    then have "cache_reuse O' t addr len st = (None, st)"
      unfolding cache_reuse_def Let_def i_def [symmetric] c_def [symmetric] k(3) by simp
    with inv show ?thesis by (simp add: cache_gives_def)
  next
    case True
    obtain d1 area area1 where evict: "(if ca_id c \<noteq> 0 then nfp_cpp_area_release O' ?a st else st) =
        st\<lparr>cpp_dev := d1, cpp_areas := (cpp_areas st)(?a \<mapsto> area1)\<rparr>"
      and area: "cpp_areas st ?a = Some area" "res_cpp_id area1 = res_cpp_id area" "res_start area1 = res_start area"
        "ar_kref area1 = 1" "ar_refcount area1 = 0"
      and d1: "v_window V d1 = v_window V (cpp_dev st)" "v_mem V d1 = v_mem V (cpp_dev st)"
        "\<forall>x. x \<noteq> ?a \<longrightarrow> v_held V d1 x = v_held V (cpp_dev st) x"
      by (rule cache_evict [OF dev entry])
    define c' where "c' = c\<lparr>ca_id := t, ca_addr := ?base\<rparr>"
    obtain r d2 where init: "dev_init O' ?a t ?base (2 ^ k) d1 = (r, d2)" by force
    with dev have d2: "0 \<le> r" "v_window V d2 = (v_window V d1)(?a := (t, ?base, 2 ^ k))"
      "v_held V d2 = v_held V d1" "v_mem V d2 = v_mem V d1"
      unfolding device_ok_def init_ok_def by blast+
    define st2 where "st2 = st\<lparr>cpp_areas := (cpp_areas st)(?a \<mapsto> area1),
      area_cache_list := (area_cache_list st)[i := c'], cpp_dev := d2\<rparr>"
    have "cpp_areas st2 ?a = Some area1" by (simp add: st2_def)
    from acquire_idle [OF dev this area(5)] area(4) obtain d3 where
      acq: "nfp_cpp_area_acquire O' ?a st2 = (0, st2\<lparr>cpp_dev := d3,
        cpp_areas := (cpp_areas st2)(?a \<mapsto> area1\<lparr>ar_refcount := 1, ar_kref := 2\<rparr>)\<rparr>)"
      and d3: "v_window V d3 = v_window V d2" "v_held V d3 = (v_held V d2)(?a := True)" "v_mem V d3 = v_mem V d2"
      by (auto simp: st2_def numeral_2_eq_2)
    let ?st' = "st\<lparr>area_cache_list := (area_cache_list st)[i := c'], cpp_dev := d3,
      cpp_areas := (cpp_areas st)(?a \<mapsto> area1\<lparr>ar_refcount := 1, ar_kref := 2\<rparr>)\<rparr>"
    have result: "cache_reuse O' t addr len st = (Some (i, addr - ?base), ?st')"
      unfolding cache_reuse_def Let_def i_def [symmetric] c_def [symmetric] evict
      using True k acq init d2(1) by (simp add: c'_def st2_def unat_size)
    have base: "unat ?base = unat addr - unat addr mod 2 ^ k" using k(2) by (simp add: unat_round_down)
    then have aligned: "2 ^ k dvd unat ?base" by (simp add: minus_mod_eq_mult_div)
    have "cache_entry V ((cpp_areas st)(?a \<mapsto> area1\<lparr>ar_refcount := 1, ar_kref := 2\<rparr>)) d3 c'"
      unfolding cache_entry_def using k req(1) aligned d2(2) d3 by (auto simp: c'_def)
    then have "cpp_inv V ?st'"
      using area(1-3) d1 d2 d3 by (intro cache_replace [OF inv i c_def]) (simp_all add: c'_def)
    moreover have "access_ok V d3 ?a t addr (addr - ?base) len"
      using base same_window [OF k(2) True req(2,3)] d2(2) d3 k(1) aligned req(4,5)
      by (intro access_window [where k = k]) (simp_all add: word_le_nat_alt)
    ultimately show ?thesis
      using i area(1) d1(2) d2(4) d3(3) unfolding result cache_gives_def by (auto simp: c'_def)
  qed
qed

lemma cache_get_gives:
  assumes "device_ok O' V" "cpp_inv V st" "nfp_target_cpp O' dest address = Inr (t, addr)"
    "t \<noteq> 0" "0 < len" "unat addr + len < 2 ^ 64" "4 dvd unat addr" "4 dvd len"
  shows "cache_gives V t addr len st (area_cache_get O' dest address 0 len st)"
proof (cases "dest = 0 \<or> area_cache_list st = []")
  case True
  with assms(2,3) show ?thesis by (auto simp: area_cache_get_def cache_gives_def)
next
  case False
  show ?thesis
  proof (cases "find_index (cache_hit t addr len) (area_cache_list st)")
    case None
    with False assms(3,5) cache_reuse_gives [OF assms(1,2) _ assms(4-8)] show ?thesis by (simp add: area_cache_get_def)
  next
    case (Some i)
    let ?c = "area_cache_list st ! i"
    from find_index_Some [OF Some] have i: "i < length (area_cache_list st)" "cache_hit t addr len ?c" by simp_all
    with assms(2) have "cache_entry V (cpp_areas st) (cpp_dev st) ?c" by (simp add: cpp_inv_def)
    from hit_access [OF this i(2) assms(4-8)] False Some assms(2,3,5) i(1) show ?thesis
      by (simp add: area_cache_get_def cache_gives_def)
  qed
qed

section \<open>One access\<close>

text \<open>What an access at \<open>addr\<close> of target \<open>t\<close> gives and how it changes the memory.\<close>

definition io_spec ::
  "'d view \<Rightarrow> u32 \<Rightarrow> u64 \<Rightarrow> nat \<Rightarrow> ((u32 \<Rightarrow> u64 \<Rightarrow> u8) \<Rightarrow> u8 list) \<Rightarrow> ((u32 \<Rightarrow> u64 \<Rightarrow> u8) \<Rightarrow> u32 \<Rightarrow> u64 \<Rightarrow> u8)
    \<Rightarrow> (aref \<Rightarrow> u64 \<Rightarrow> 'd nfp_cpp \<Rightarrow> int \<times> u8 list \<times> 'd nfp_cpp) \<Rightarrow> bool" where
  "io_spec V t addr len out upd io \<longleftrightarrow> (\<forall>a off st. cpp_areas st a \<noteq> None \<longrightarrow> access_ok V (cpp_dev st) a t addr off len \<longrightarrow>
     (\<exists>d. io a off st = (int len, out (v_mem V (cpp_dev st)), st\<lparr>cpp_dev := d\<rparr>)
        \<and> v_window V d = v_window V (cpp_dev st) \<and> v_held V d = v_held V (cpp_dev st)
        \<and> v_mem V d = upd (v_mem V (cpp_dev st))))"

lemma io_specD:
  assumes "io_spec V t addr len out upd io" "cpp_areas st a = Some area" "access_ok V (cpp_dev st) a t addr off len"
  obtains d where "io a off st = (int len, out (v_mem V (cpp_dev st)), st\<lparr>cpp_dev := d\<rparr>)"
    "v_window V d = v_window V (cpp_dev st)" "v_held V d = v_held V (cpp_dev st)"
    "v_mem V d = upd (v_mem V (cpp_dev st))"
  using assms unfolding io_spec_def by blast

lemma cpp_inv_dev:
  assumes "cpp_inv V st" "v_window V d = v_window V (cpp_dev st)" "v_held V d = v_held V (cpp_dev st)"
  shows "cpp_inv V (st\<lparr>cpp_dev := d\<rparr>)"
  using assms by (auto simp: cpp_inv_def areas_inv_def resources_sorted_def intro: cache_entry_frame)

lemma cache_put_inv:
  assumes "cpp_inv V st" "i < length (area_cache_list st)"
  shows "cpp_inv V (area_cache_put i st)"
proof -
  let ?cs = "area_cache_list st"
  have split: "?cs = take i ?cs @ ?cs ! i # drop (Suc i) ?cs" by (rule id_take_nth_drop [OF assms(2)])
  have "distinct (map ca_area (take i ?cs @ ?cs ! i # drop (Suc i) ?cs))"
    and "\<forall>c \<in> set (take i ?cs @ ?cs ! i # drop (Suc i) ?cs). cache_entry V (cpp_areas st) (cpp_dev st) c"
    unfolding split [symmetric] using assms(1) by (simp_all add: cpp_inv_def)
  moreover have "areas_inv (area_cache_put i st) = areas_inv st"
    by (simp add: area_cache_put_def areas_inv_def resources_sorted_def Let_def)
  ultimately show ?thesis using assms(1) by (auto simp: cpp_inv_def area_cache_put_def Let_def)
qed

text \<open>An area that is allocated, acquired, used, released and freed leaves no trace in the driver.\<close>

lemma access_uncached:
  assumes dev: "device_ok O' V" and inv: "cpp_inv V st" and target: "nfp_target_cpp O' dest address = Inr (t, addr)"
    and io: "io_spec V t addr len out upd io" and len: "4 dvd len"
  obtains a st1 st2 d st3 where "nfp_cpp_area_alloc O' dest address len st = (Some a, st1)"
    "nfp_cpp_area_acquire O' a st1 = (0, st2)" "io a 0 st2 = (int len, out (v_mem V (cpp_dev st)), st2\<lparr>cpp_dev := d\<rparr>)"
    "nfp_cpp_area_release_free O' a (st2\<lparr>cpp_dev := d\<rparr>) = st3"
    "cpp_inv V st3" "v_mem V (cpp_dev st3) = upd (v_mem V (cpp_dev st))" "cpp_areas st3 = cpp_areas st"
proof -
  let ?a = "cpp_allocs st"
  obtain d1 area where alloc: "nfp_cpp_area_alloc O' dest address len st =
      (Some ?a, st\<lparr>cpp_allocs := ?a + 1, cpp_dev := d1, cpp_areas := (cpp_areas st)(?a \<mapsto> area),
        resource_list := resource_add ((cpp_areas st)(?a \<mapsto> area)) ?a (resource_list st)\<rparr>)" (is "_ = (_, ?st1)")
    and area: "ar_kref area = 1" "ar_refcount area = 0"
    and d1: "v_window V d1 = (v_window V (cpp_dev st))(?a := (t, addr, len))" "v_held V d1 = v_held V (cpp_dev st)"
      "v_mem V d1 = v_mem V (cpp_dev st)"
    by (rule alloc_area [OF dev target])
  have "cpp_areas ?st1 ?a = Some area" by simp
  from acquire_idle [OF dev this area(2)] area(1) obtain d2 where
    acq: "nfp_cpp_area_acquire O' ?a ?st1 = (0, ?st1\<lparr>cpp_dev := d2,
        cpp_areas := (cpp_areas ?st1)(?a \<mapsto> area\<lparr>ar_refcount := 1, ar_kref := 2\<rparr>)\<rparr>)" (is "_ = (_, ?st2)")
    and d2: "v_window V d2 = v_window V d1" "v_held V d2 = (v_held V d1)(?a := True)" "v_mem V d2 = v_mem V d1"
    by (auto simp: numeral_2_eq_2)
  have "access_ok V (cpp_dev ?st2) ?a t addr 0 len" using d1 d2 len by (simp add: access_ok_def)
  then obtain d3 where use: "io ?a 0 ?st2 = (int len, out (v_mem V (cpp_dev ?st2)), ?st2\<lparr>cpp_dev := d3\<rparr>)"
    and d3: "v_window V d3 = v_window V (cpp_dev ?st2)" "v_held V d3 = v_held V (cpp_dev ?st2)"
      "v_mem V d3 = upd (v_mem V (cpp_dev ?st2))"
    by (rule io_specD [OF io, where st = ?st2 and a = ?a, rotated]) simp_all
  define d4 where "d4 = dev_cleanup O' ?a (dev_release O' ?a d3)"
  have fresh: "?a \<notin> dom (cpp_areas st)" "?a \<notin> set (resource_list st)"
    using inv by (auto simp: cpp_inv_def areas_inv_def)
  have d4: "v_mem V d4 = v_mem V d3"
    "\<forall>x. x \<noteq> ?a \<longrightarrow> v_window V d4 x = v_window V (cpp_dev st) x \<and> v_held V d4 x = v_held V (cpp_dev st) x"
    using dev d1 d2 d3 by (simp_all add: d4_def device_ok_def release_ok_def)
  let ?st3 = "st\<lparr>cpp_allocs := ?a + 1, cpp_dev := d4\<rparr>"
  have free: "nfp_cpp_area_release_free O' ?a (?st2\<lparr>cpp_dev := d3\<rparr>) = ?st3"
    using fresh by (subst release_free_held [where area = "area\<lparr>ar_refcount := 1, ar_kref := 2\<rparr>"])
      (simp_all add: d4_def remove1_resource_add domIff fun_upd_idem)
  have "cpp_inv V ?st3"
  proof -
    have "cache_entry V (cpp_areas st) d4 c" if "c \<in> set (area_cache_list st)" for c
    proof -
      have entry: "cache_entry V (cpp_areas st) (cpp_dev st) c" using that inv by (simp add: cpp_inv_def)
      then have "ca_area c \<noteq> ?a" using fresh(1) by (auto simp: cache_entry_def)
      with entry d4(2) show ?thesis by (auto intro: cache_entry_frame)
    qed
    with inv show ?thesis by (auto simp: cpp_inv_def areas_inv_def resources_sorted_def intro: less_SucI)
  qed
  moreover have "io ?a 0 ?st2 = (int len, out (v_mem V (cpp_dev st)), ?st2\<lparr>cpp_dev := d3\<rparr>)"
    using use d1(3) d2(3) by simp
  moreover have "v_mem V (cpp_dev ?st3) = upd (v_mem V (cpp_dev st))" using d1(3) d2(3) d3(3) d4(1) by simp
  ultimately show ?thesis by (intro that [OF alloc acq _ free]) simp_all
qed

lemma cpp_access_spec:
  assumes dev: "device_ok O' V" and inv: "cpp_inv V st" and target: "nfp_target_cpp O' dest address = Inr (t, addr)"
    and req: "t \<noteq> 0" "0 < len" "unat addr + len < 2 ^ 64" "4 dvd unat addr" "4 dvd len"
    and io: "io_spec V t addr len out upd io"
  obtains st' where "cpp_access O' dest address len io st = (int len, out (v_mem V (cpp_dev st)), st')"
    "cpp_inv V st'" "v_mem V (cpp_dev st') = upd (v_mem V (cpp_dev st))" "dom (cpp_areas st') = dom (cpp_areas st)"
proof -
  obtain r st1 where get: "area_cache_get O' dest address 0 len st = (r, st1)" by force
  with cache_get_gives [OF dev inv target req] have st1: "cpp_inv V st1"
    "v_mem V (cpp_dev st1) = v_mem V (cpp_dev st)" "dom (cpp_areas st1) = dom (cpp_areas st)"
    and hit: "\<And>i off. r = Some (i, off) \<Longrightarrow> i < length (area_cache_list st1)
      \<and> access_ok V (cpp_dev st1) (ca_area (area_cache_list st1 ! i)) t addr off len"
    by (auto simp: cache_gives_def)
  show ?thesis
  proof (cases r)
    case None
    from access_uncached [OF dev st1(1) target io req(5)] obtain a st2 st3 d st4 where
      "nfp_cpp_area_alloc O' dest address len st1 = (Some a, st2)" "nfp_cpp_area_acquire O' a st2 = (0, st3)"
      "io a 0 st3 = (int len, out (v_mem V (cpp_dev st1)), st3\<lparr>cpp_dev := d\<rparr>)"
      "nfp_cpp_area_release_free O' a (st3\<lparr>cpp_dev := d\<rparr>) = st4"
      "cpp_inv V st4" "v_mem V (cpp_dev st4) = upd (v_mem V (cpp_dev st1))" "cpp_areas st4 = cpp_areas st1" .
    with None get st1 show ?thesis by (intro that [of st4]) (simp_all add: cpp_access_def)
  next
    case (Some res)
    then obtain i off where r: "r = Some (i, off)" by (cases res) simp
    let ?c = "area_cache_list st1 ! i"
    from hit [OF r] have i: "i < length (area_cache_list st1)"
      and ok: "access_ok V (cpp_dev st1) (ca_area ?c) t addr off len" by simp_all
    from i st1(1) obtain area where "cpp_areas st1 (ca_area ?c) = Some area"
      by (auto simp: cpp_inv_def cache_entry_def dest: nth_mem)
    from io_specD [OF io this ok] obtain d where use: "io (ca_area ?c) off st1 =
        (int len, out (v_mem V (cpp_dev st1)), st1\<lparr>cpp_dev := d\<rparr>)" "v_window V d = v_window V (cpp_dev st1)"
      "v_held V d = v_held V (cpp_dev st1)" "v_mem V d = upd (v_mem V (cpp_dev st1))" .
    have "cpp_inv V (area_cache_put i (st1\<lparr>cpp_dev := d\<rparr>))"
      using cache_put_inv [OF cpp_inv_dev [OF st1(1) use(2,3)]] i by simp
    with r get use st1 show ?thesis
      by (intro that [of "area_cache_put i (st1\<lparr>cpp_dev := d\<rparr>)"]) (simp_all add: cpp_access_def area_cache_put_def Let_def)
  qed
qed

lemma read_io:
  "device_ok O' V \<Longrightarrow> io_spec V t addr len (\<lambda>m. mem_read addr len (m t)) (\<lambda>m. m) (\<lambda>a off. nfp_cpp_area_read O' a off len)"
  unfolding io_spec_def
proof (intro allI impI)
  fix a off and st :: "'a nfp_cpp"
  assume dev: "device_ok O' V" and live: "cpp_areas st a \<noteq> None" and ok: "access_ok V (cpp_dev st) a t addr off len"
  have "op_area_read O' a off len (cpp_dev st) = (int len, mem_read addr len (v_mem V (cpp_dev st) t), cpp_dev st)"
    using dev ok unfolding device_ok_def transfer_ok_def by blast
  with live show "\<exists>d. nfp_cpp_area_read O' a off len st = (int len, mem_read addr len (v_mem V (cpp_dev st) t), st\<lparr>cpp_dev := d\<rparr>)
      \<and> v_window V d = v_window V (cpp_dev st) \<and> v_held V d = v_held V (cpp_dev st) \<and> v_mem V d = v_mem V (cpp_dev st)"
    by (intro exI [of _ "cpp_dev st"]) (auto simp: nfp_cpp_area_read_def)
qed

lemma write_io:
  assumes "device_ok O' V"
  shows "io_spec V t addr (length bs) (\<lambda>m. []) (\<lambda>m. m(t := mem_write addr bs (m t)))
    (\<lambda>a off st. let (n, st) = nfp_cpp_area_write O' a off bs st in (n, [], st))"
  unfolding io_spec_def
proof (intro allI impI)
  fix a off and st :: "'a nfp_cpp"
  assume live: "cpp_areas st a \<noteq> None" and ok: "access_ok V (cpp_dev st) a t addr off (length bs)"
  obtain r d where call: "op_area_write O' a bs off (cpp_dev st) = (r, d)" by force
  with assms ok have "r = int (length bs)" "v_window V d = v_window V (cpp_dev st)" "v_held V d = v_held V (cpp_dev st)"
    "v_mem V d = (v_mem V (cpp_dev st))(t := mem_write addr bs (v_mem V (cpp_dev st) t))"
    unfolding device_ok_def transfer_ok_def by blast+
  with live call show "\<exists>d. (let (n, st) = nfp_cpp_area_write O' a off bs st in (n, [], st)) =
      (int (length bs), [], st\<lparr>cpp_dev := d\<rparr>) \<and> v_window V d = v_window V (cpp_dev st)
      \<and> v_held V d = v_held V (cpp_dev st) \<and> v_mem V d = (v_mem V (cpp_dev st))(t := mem_write addr bs (v_mem V (cpp_dev st) t))"
    by (auto simp: nfp_cpp_area_write_def)
qed

section \<open>Chunks\<close>

lemma unat_window: "s < 64 \<Longrightarrow> unat ((2 :: u64) ^ s) = 2 ^ s"
proof -
  assume "s < 64"
  then have "(2 :: nat) ^ s < 2 ^ 64" by (rule power_strict_increasing) simp
  moreover have "(2 :: u64) ^ s = word_of_nat (2 ^ s)" by simp
  ultimately show ?thesis by (simp only: unsigned_of_nat take_bit_eq_mod) simp
qed

lemma chunk_length_eq:
  assumes "s < 64"
  shows "chunk_length (2 ^ s) address len offset =
    min (len - offset) (2 ^ s - unat (address + word_of_nat offset) mod 2 ^ s)"
proof -
  let ?r = "address + word_of_nat offset"
  have "unat (?r + 2 ^ s) mod 2 ^ s = (unat ?r + 2 ^ s) mod 2 ^ s"
    using assms mod_mod_cancel [OF le_imp_power_dvd [of s 64 "2 :: nat"]]
    by (simp only: unat_word_ariths unat_window) simp
  then have "take_bit s (?r + 2 ^ s) = take_bit s ?r"
    by (simp add: word_eq_iff_unsigned [where 'a = nat] unat_take_bit)
  moreover have "(?r + 1 + (2 ^ s - 1)) = ?r + 2 ^ s" by simp
  moreover have "(2 ^ s :: u64) - 1 = mask s" by (simp add: mask_eq_exp_minus_1)
  ultimately have align: "ALIGN (?r + 1) (2 ^ s) - ?r = 2 ^ s - take_bit s ?r"
    by (simp only: ALIGN_def and_not_mask) simp
  have "unat (take_bit s ?r) < 2 ^ s" by (simp add: unat_take_bit)
  then have "take_bit s ?r \<le> 2 ^ s" using unat_window [OF assms] by (simp add: word_le_nat_alt)
  then have "unat (2 ^ s - take_bit s ?r) = 2 ^ s - unat ?r mod 2 ^ s"
    by (simp add: unat_sub unat_window [OF assms] unat_take_bit)
  then show ?thesis by (simp add: chunk_length_def Let_def align)
qed

lemma chunk_facts:
  fixes address :: u64
  assumes "2 \<le> s" "s < 64" "4 dvd unat address" "4 dvd len" "4 dvd off" "off < len"
  defines "r \<equiv> address + word_of_nat off" and "n \<equiv> chunk_length (2 ^ s) address len off"
  shows "0 < n" "off + n \<le> len" "4 dvd n" "4 dvd unat r" "unat r mod 2 ^ s + n \<le> 2 ^ s"
proof -
  have n: "n = min (len - off) (2 ^ s - unat r mod 2 ^ s)" using chunk_length_eq [OF assms(2)] by (simp add: n_def r_def)
  have less: "unat r mod 2 ^ s < 2 ^ s" by simp
  have four: "(4 :: nat) dvd 2 ^ s" using le_imp_power_dvd [OF assms(1), of "2 :: nat"] by simp
  have "unat r = (unat address + off mod 2 ^ 64) mod 2 ^ 64"
    by (simp add: r_def unat_word_ariths unsigned_of_nat take_bit_eq_mod)
  moreover have "(4 :: nat) dvd 2 ^ 64" by (simp add: dvd_def)
  ultimately show r: "4 dvd unat r" using assms(3,5) by (simp only: dvd_mod dvd_add)
  show "0 < n" "off + n \<le> len" using n less assms(6) by auto
  have "4 dvd unat r mod 2 ^ s" using r four by (rule dvd_mod)
  then show "4 dvd n" using n four assms(4,5) by (auto simp: min_def dvd_diff_nat)
  show "unat r mod 2 ^ s + n \<le> 2 ^ s" using n less by linarith
qed

text \<open>The loop returns when every chunk is transferred, and a property of the chunks goes through it.\<close>

lemma cpp_chunks_returns:
  assumes n: "\<And>off. off < len \<Longrightarrow> P off \<Longrightarrow> 0 < chunk_length S address len off \<and> off + chunk_length S address len off \<le> len
      \<and> P (off + chunk_length S address len off)"
    and step: "\<And>off s. off < len \<Longrightarrow> P off \<Longrightarrow> I off s \<Longrightarrow>
      \<exists>s'. chunk off (chunk_length S address len off) s = (int (chunk_length S address len off), s')
        \<and> I (off + chunk_length S address len off) s'"
  shows "off \<le> len \<Longrightarrow> P off \<Longrightarrow> I off s \<Longrightarrow>
    \<exists>s'. cpp_chunks S address len chunk off s = Some (sint (word_of_nat len :: 32 word), s') \<and> I len s'"
proof (induction "len - off" arbitrary: off s rule: less_induct)
  case less
  show ?case
  proof (cases "off < len")
    case True
    let ?n = "chunk_length S address len off"
    from step [OF True less.prems(2,3)] obtain s1 where s1: "chunk off ?n s = (int ?n, s1)" "I (off + ?n) s1" by blast
    from n [OF True less.prems(2)] have "0 < ?n" "off + ?n \<le> len" "P (off + ?n)" by simp_all
    moreover from this have "len - (off + ?n) < len - off" by linarith
    ultimately obtain s2 where
      "cpp_chunks S address len chunk (off + ?n) s1 = Some (sint (word_of_nat len :: 32 word), s2)" "I len s2"
      using less.hyps [of "off + ?n" s1] s1(2) by blast
    with True s1(1) show ?thesis by (subst cpp_chunks.simps) simp
  next
    case False
    with less.prems show ?thesis by (subst cpp_chunks.simps) auto
  qed
qed

section \<open>Reads and writes of a target\<close>

text \<open>
  The addresses \<open>address ..< address + len\<close> of a destination have targets, and the translation
  is linear inside a window of the safe size, keeps the alignment and does not wrap.
\<close>

definition target_ok :: "'d nfp_ops \<Rightarrow> u32 \<Rightarrow> nat \<Rightarrow> u64 \<Rightarrow> nat \<Rightarrow> bool" where
  "target_ok O' dest s address len \<longleftrightarrow> (\<forall>off < len. \<exists>t a. nfp_target_cpp O' dest (address + word_of_nat off) = Inr (t, a)
     \<and> t \<noteq> 0 \<and> (4 dvd unat (address + word_of_nat off) \<longrightarrow> 4 dvd unat a)
     \<and> (\<forall>k. off + k < len \<longrightarrow> unat (address + word_of_nat off) mod 2 ^ s + k < 2 ^ s \<longrightarrow> unat a + k + 1 < 2 ^ 64
          \<and> nfp_target_cpp O' dest (address + word_of_nat (off + k)) = Inr (t, a + word_of_nat k)))"

definition target_byte :: "'d nfp_ops \<Rightarrow> u32 \<Rightarrow> (u32 \<Rightarrow> u64 \<Rightarrow> u8) \<Rightarrow> u64 \<Rightarrow> u8" where
  "target_byte O' dest m x = (case nfp_target_cpp O' dest x of Inl _ \<Rightarrow> 0 | Inr (t, a) \<Rightarrow> m t a)"

definition target_store :: "'d nfp_ops \<Rightarrow> u32 \<Rightarrow> u64 \<Rightarrow> u8 \<Rightarrow> (u32 \<Rightarrow> u64 \<Rightarrow> u8) \<Rightarrow> u32 \<Rightarrow> u64 \<Rightarrow> u8" where
  "target_store O' dest x b m = (case nfp_target_cpp O' dest x of Inl _ \<Rightarrow> m | Inr (t, a) \<Rightarrow> m(t := (m t)(a := b)))"

definition target_read :: "'d nfp_ops \<Rightarrow> u32 \<Rightarrow> u64 \<Rightarrow> nat \<Rightarrow> (u32 \<Rightarrow> u64 \<Rightarrow> u8) \<Rightarrow> u8 list" where
  "target_read O' dest address len m = map (\<lambda>i. target_byte O' dest m (address + word_of_nat i)) [0..<len]"

definition target_write :: "'d nfp_ops \<Rightarrow> u32 \<Rightarrow> u64 \<Rightarrow> u8 list \<Rightarrow> nat \<Rightarrow> (u32 \<Rightarrow> u64 \<Rightarrow> u8) \<Rightarrow> u32 \<Rightarrow> u64 \<Rightarrow> u8" where
  "target_write O' dest address bs len m =
     fold (\<lambda>i. target_store O' dest (address + word_of_nat i) (bs ! i)) [0..<len] m"

text \<open>The setting of a transfer.\<close>

definition transfer_setting :: "'d nfp_ops \<Rightarrow> 'd view \<Rightarrow> u32 \<Rightarrow> u64 \<Rightarrow> nat \<Rightarrow> bool" where
  "transfer_setting O' V dest address len \<longleftrightarrow> device_ok O' V \<and> 4 dvd unat address \<and> 4 dvd len \<and> len < 2 ^ 31
     \<and> (\<exists>s. 2 \<le> s \<and> s < 64 \<and> NFP_CPP_SAFE_AREA_SIZE O' = 2 ^ s \<and> target_ok O' dest s address len)"

lemma chunk_target:
  assumes "2 \<le> s" "s < 64" "4 dvd unat address" "4 dvd len" "4 dvd off" "off < len" "target_ok O' dest s address len"
  defines "n \<equiv> chunk_length (2 ^ s) address len off"
  obtains t a where "nfp_target_cpp O' dest (address + word_of_nat off) = Inr (t, a)" "t \<noteq> 0" "4 dvd unat a"
    "unat a + n < 2 ^ 64"
    "\<And>i. i < n \<Longrightarrow> nfp_target_cpp O' dest (address + word_of_nat (off + i)) = Inr (t, a + word_of_nat i)"
proof -
  note facts = chunk_facts [OF assms(1-6), folded n_def]
  from assms(6,7) obtain t a where t: "nfp_target_cpp O' dest (address + word_of_nat off) = Inr (t, a)" "t \<noteq> 0"
      "4 dvd unat (address + word_of_nat off) \<longrightarrow> 4 dvd unat a"
    and lin: "\<And>k. off + k < len \<Longrightarrow> unat (address + word_of_nat off) mod 2 ^ s + k < 2 ^ s \<Longrightarrow> unat a + k + 1 < 2 ^ 64
          \<and> nfp_target_cpp O' dest (address + word_of_nat (off + k)) = Inr (t, a + word_of_nat k)"
    unfolding target_ok_def by blast
  have "unat a + n < 2 ^ 64" using lin [of "n - 1"] facts(1,2,5) by simp
  moreover have "nfp_target_cpp O' dest (address + word_of_nat (off + i)) = Inr (t, a + word_of_nat i)" if "i < n" for i
    using lin [of i] that facts(2,5) by simp
  ultimately show ?thesis using t facts(4) by (intro that) simp_all
qed

lemma upt_shift: "[off..<off + n] = map (\<lambda>i. off + i) [0..<n]"
  by (induction n) simp_all

lemma chunk_read:
  assumes "device_ok O' V" "2 \<le> s" "s < 64" "4 dvd unat address" "4 dvd len" "4 dvd off" "off < len"
    "target_ok O' dest s address len" "cpp_inv V st"
  defines "n \<equiv> chunk_length (2 ^ s) address len off"
  obtains st' where "cpp_read_chunk O' dest (address + word_of_nat off) n st =
      (int n, map (\<lambda>i. target_byte O' dest (v_mem V (cpp_dev st)) (address + word_of_nat (off + i))) [0..<n], st')"
    "cpp_inv V st'" "v_mem V (cpp_dev st') = v_mem V (cpp_dev st)" "dom (cpp_areas st') = dom (cpp_areas st)"
proof -
  note facts = chunk_facts [OF assms(2-7), folded n_def]
  obtain t a where t: "nfp_target_cpp O' dest (address + word_of_nat off) = Inr (t, a)" "t \<noteq> 0" "4 dvd unat a"
    "unat a + n < 2 ^ 64"
    and lin: "\<And>i. i < n \<Longrightarrow> nfp_target_cpp O' dest (address + word_of_nat (off + i)) = Inr (t, a + word_of_nat i)"
    using chunk_target [OF assms(2-8), folded n_def] by blast
  have bytes: "mem_read a n (v_mem V (cpp_dev st) t) =
      map (\<lambda>i. target_byte O' dest (v_mem V (cpp_dev st)) (address + word_of_nat (off + i))) [0..<n]"
    using lin by (simp add: mem_read_def target_byte_def)
  from cpp_access_spec [OF assms(1,9) t(1,2) facts(1) t(4,3) facts(3) read_io [OF assms(1)]] bytes that
  show ?thesis unfolding cpp_read_chunk_def by metis
qed

lemma sint_len: "len < 2 ^ 31 \<Longrightarrow> sint (word_of_nat len :: 32 word) = int len"
  by (simp add: signed_of_nat signed_take_bit_int_eq_self_iff)

lemma put_bytes_take:
  "length buf = len \<Longrightarrow> off + length bs \<le> len \<Longrightarrow>
    take (off + length bs) (put_bytes off bs buf) = take off buf @ bs \<and> length (put_bytes off bs buf) = len"
  by (simp add: put_bytes_def)

lemma cpp_reads:
  assumes "transfer_setting O' V dest address len" "cpp_inv V st" "length buf = len"
  shows "\<exists>st'. nfp_cpp_read O' dest address buf len st =
      Some (int len, target_read O' dest address len (v_mem V (cpp_dev st)), st')
    \<and> cpp_inv V st' \<and> v_mem V (cpp_dev st') = v_mem V (cpp_dev st) \<and> dom (cpp_areas st') = dom (cpp_areas st)"
proof -
  from assms(1) obtain s where s: "2 \<le> s" "s < 64" "NFP_CPP_SAFE_AREA_SIZE O' = 2 ^ s" "target_ok O' dest s address len"
    and set: "device_ok O' V" "4 dvd unat address" "4 dvd len" "len < 2 ^ 31" by (auto simp: transfer_setting_def)
  let ?m = "v_mem V (cpp_dev st)"
  define I where "I off = (\<lambda>(buf', st'). length buf' = len \<and> take off buf' = target_read O' dest address off ?m
    \<and> cpp_inv V st' \<and> v_mem V (cpp_dev st') = ?m \<and> dom (cpp_areas st') = dom (cpp_areas st))" for off
  define chunk where "chunk = (\<lambda>off n (buf, st). let (ret, bs, st) = cpp_read_chunk O' dest (address + word_of_nat off) n st in
    (ret, put_bytes off bs buf, st))"
  have "\<exists>s'. cpp_chunks (2 ^ s) address len chunk 0 (buf, st) = Some (sint (word_of_nat len :: 32 word), s') \<and> I len s'"
  proof (rule cpp_chunks_returns [where P = "\<lambda>off. 4 dvd off"])
    fix off assume off: "off < len" "4 dvd off"
    let ?n = "chunk_length (2 ^ s) address len off"
    note facts = chunk_facts [OF s(1,2) set(2,3) off(2,1)]
    show "0 < ?n \<and> off + ?n \<le> len \<and> 4 dvd off + ?n" using facts off(2) by (simp add: dvd_add)
    fix x assume "I off x"
    then obtain buf1 st1 where x: "x = (buf1, st1)" and I: "length buf1 = len" "take off buf1 = target_read O' dest address off ?m"
      "cpp_inv V st1" "v_mem V (cpp_dev st1) = ?m" "dom (cpp_areas st1) = dom (cpp_areas st)" by (auto simp: I_def)
    obtain st2 where st2: "cpp_read_chunk O' dest (address + word_of_nat off) ?n st1 =
        (int ?n, map (\<lambda>i. target_byte O' dest (v_mem V (cpp_dev st1)) (address + word_of_nat (off + i))) [0..<?n], st2)"
      "cpp_inv V st2" "v_mem V (cpp_dev st2) = v_mem V (cpp_dev st1)" "dom (cpp_areas st2) = dom (cpp_areas st1)"
      by (rule chunk_read [OF set(1) s(1,2) set(2,3) off(2,1) s(4) I(3)])
    let ?bs = "map (\<lambda>i. target_byte O' dest ?m (address + word_of_nat (off + i))) [0..<?n]"
    have "take off buf1 @ ?bs = target_read O' dest address (off + ?n) ?m"
      using I(2) by (simp add: target_read_def upt_add_eq_append [of 0 off] upt_shift del: of_nat_add)
    with put_bytes_take [OF I(1), of off ?bs] facts(2) I(4,5) st2 x
    show "\<exists>s'. chunk off ?n x = (int ?n, s') \<and> I (off + ?n) s'"
      by (intro exI [of _ "(put_bytes off ?bs buf1, st2)"]) (simp add: chunk_def I_def)
  qed (use assms(2,3) in \<open>simp_all add: I_def target_read_def\<close>)
  then show ?thesis
    using s(3) sint_len [OF set(4)] by (auto simp: nfp_cpp_read_def I_def chunk_def)
qed


section \<open>Words of an area\<close>

lemma mem_read_write:
  assumes "length bs < 2 ^ 64"
  shows "mem_read addr (length bs) (mem_write addr bs m) = bs"
proof (rule nth_equalityI)
  fix i assume "i < length (mem_read addr (length bs) (mem_write addr bs m))"
  then have i: "i < length bs" by (simp add: mem_read_def)
  with assms have "unat (word_of_nat i :: u64) = i" by (simp add: unsigned_of_nat take_bit_nat_eq_self)
  with i show "mem_read addr (length bs) (mem_write addr bs m) ! i = bs ! i" by (simp add: mem_read_def mem_write_def)
qed (simp add: mem_read_def)

lemma area_write_read:
  assumes dev: "device_ok O' V" and live: "cpp_areas st a = Some area"
    and ok: "access_ok V (cpp_dev st) a t addr off (length bs)" "length bs < 2 ^ 64"
  obtains st' st'' where "nfp_cpp_area_write O' a off bs st = (int (length bs), st')"
    "nfp_cpp_area_read O' a off (length bs) st' = (int (length bs), bs, st'')"
proof -
  obtain d where w: "(let (n, st) = nfp_cpp_area_write O' a off bs st in (n, [] :: u8 list, st)) = (int (length bs), [], st\<lparr>cpp_dev := d\<rparr>)"
    and d: "v_window V d = v_window V (cpp_dev st)" "v_held V d = v_held V (cpp_dev st)"
      "v_mem V d = (v_mem V (cpp_dev st))(t := mem_write addr bs (v_mem V (cpp_dev st) t))"
    using io_specD [OF write_io [OF dev] live ok(1)] by blast
  let ?st = "st\<lparr>cpp_dev := d\<rparr>"
  have live': "cpp_areas ?st a = Some area" using live by simp
  have ok': "access_ok V (cpp_dev ?st) a t addr off (length bs)" using ok(1) d by (simp add: access_ok_def)
  from io_specD [OF read_io [OF dev] live' ok'] obtain d' where "nfp_cpp_area_read O' a off (length bs) ?st =
      (int (length bs), mem_read addr (length bs) (v_mem V (cpp_dev ?st) t), ?st\<lparr>cpp_dev := d'\<rparr>)" .
  with w d(3) mem_read_write [OF ok(2)] show ?thesis
    by (cases "nfp_cpp_area_write O' a off bs st") (auto intro: that)
qed

text \<open>A word that is written to an area is read back, for both widths.\<close>

lemma area_words_roundtrip:
  assumes "device_ok O' V" "cpp_areas st a = Some area"
  shows "access_ok V (cpp_dev st) a t addr off 4 \<Longrightarrow> \<exists>st'. nfp_cpp_area_writel O' a off value st = (0, st')
      \<and> fst (nfp_cpp_area_readl O' a off st') = Inr value"
    and "access_ok V (cpp_dev st) a t addr off 8 \<Longrightarrow> \<exists>st'. nfp_cpp_area_writeq O' a off value' st = (0, st')
      \<and> fst (nfp_cpp_area_readq O' a off st') = Inr value'"
proof -
  assume "access_ok V (cpp_dev st) a t addr off 4"
  then have "access_ok V (cpp_dev st) a t addr off (length (put_unaligned_le 4 value))" by simp
  from area_write_read [OF assms this] obtain st1 st2 where
    "nfp_cpp_area_write O' a off (put_unaligned_le 4 value) st = (4, st1)"
    "nfp_cpp_area_read O' a off 4 st1 = (4, put_unaligned_le 4 value, st2)" by auto
  moreover have "get_unaligned_le (put_unaligned_le 4 value) = value" by (simp add: get_put_unaligned_le take_bit_word_eq_self)
  ultimately show "\<exists>st'. nfp_cpp_area_writel O' a off value st = (0, st') \<and> fst (nfp_cpp_area_readl O' a off st') = Inr value"
    by (simp add: nfp_cpp_area_writel_def nfp_cpp_area_readl_def)
next
  assume "access_ok V (cpp_dev st) a t addr off 8"
  then have "access_ok V (cpp_dev st) a t addr off (length (put_unaligned_le 8 value'))" by simp
  from area_write_read [OF assms this] obtain st1 st2 where
    "nfp_cpp_area_write O' a off (put_unaligned_le 8 value') st = (8, st1)"
    "nfp_cpp_area_read O' a off 8 st1 = (8, put_unaligned_le 8 value', st2)" by auto
  moreover have "get_unaligned_le (put_unaligned_le 8 value') = value'" by (simp add: get_put_unaligned_le take_bit_word_eq_self)
  ultimately show "\<exists>st'. nfp_cpp_area_writeq O' a off value' st = (0, st') \<and> fst (nfp_cpp_area_readq O' a off st') = Inr value'"
    by (simp add: nfp_cpp_area_writeq_def nfp_cpp_area_readq_def)
qed

section \<open>Writes\<close>

lemma mem_write_snoc:
  assumes "length bs < 2 ^ 64"
  shows "mem_write a (bs @ [b]) m = (mem_write a bs m)(a + word_of_nat (length bs) := b)"
proof
  fix x
  have "x = a + word_of_nat (length bs) \<longleftrightarrow> unat (x - a) = length bs"
  proof
    assume "x = a + word_of_nat (length bs)"
    then have "unat (x - a) = unat (word_of_nat (length bs) :: u64)" by simp
    with assms show "unat (x - a) = length bs" by (simp add: unsigned_of_nat take_bit_nat_eq_self)
  next
    assume "unat (x - a) = length bs"
    then have "word_of_nat (length bs) = x - a" by (metis of_nat_unat ucast_id)
    then show "x = a + word_of_nat (length bs)" by simp
  qed
  then show "mem_write a (bs @ [b]) m x = ((mem_write a bs m)(a + word_of_nat (length bs) := b)) x"
    by (auto simp: mem_write_def Let_def nth_append)
qed

lemma mem_write_fold:
  "n \<le> length bs \<Longrightarrow> length bs < 2 ^ 64 \<Longrightarrow>
    m(t := mem_write a (take n bs) (m t)) = fold (\<lambda>i m. m(t := (m t)(a + word_of_nat i := bs ! i))) [0..<n] m"
proof (induction n)
  case 0
  then show ?case by (simp add: mem_write_def)
next
  case (Suc n)
  let ?m = "m(t := mem_write a (take n bs) (m t))"
  have "take (Suc n) bs = take n bs @ [bs ! n]" using Suc.prems by (simp add: take_Suc_conv_app_nth)
  then have "mem_write a (take (Suc n) bs) (m t) = (mem_write a (take n bs) (m t))(a + word_of_nat n := bs ! n)"
    using Suc.prems mem_write_snoc [of "take n bs" a "bs ! n" "m t"] by simp
  then have "m(t := mem_write a (take (Suc n) bs) (m t)) = ?m(t := (?m t)(a + word_of_nat n := bs ! n))" by simp
  also have "\<dots> = fold (\<lambda>i m. m(t := (m t)(a + word_of_nat i := bs ! i))) [0..<Suc n] m"
    unfolding Suc.IH [OF Suc_leD [OF Suc.prems(1)] Suc.prems(2)] by simp
  finally show ?case .
qed

lemma chunk_write:
  assumes "device_ok O' V" "2 \<le> s" "s < 64" "4 dvd unat address" "4 dvd len" "4 dvd off" "off < len"
    "target_ok O' dest s address len" "cpp_inv V st" "len = length bs"
  defines "n \<equiv> chunk_length (2 ^ s) address len off"
  assumes "v_mem V (cpp_dev st) = target_write O' dest address bs off m"
  obtains st' where "cpp_write_chunk O' dest (address + word_of_nat off) (take n (drop off bs)) st = (int n, st')"
    "cpp_inv V st'" "v_mem V (cpp_dev st') = target_write O' dest address bs (off + n) m"
    "dom (cpp_areas st') = dom (cpp_areas st)"
proof -
  note facts = chunk_facts [OF assms(2-7), folded n_def]
  let ?bs = "take n (drop off bs)"
  have len: "length ?bs = n" using facts(2) assms(10) by simp
  obtain t a where t: "nfp_target_cpp O' dest (address + word_of_nat off) = Inr (t, a)" "t \<noteq> 0" "4 dvd unat a"
    "unat a + n < 2 ^ 64"
    and lin: "\<And>i. i < n \<Longrightarrow> nfp_target_cpp O' dest (address + word_of_nat (off + i)) = Inr (t, a + word_of_nat i)"
    using chunk_target [OF assms(2-8), folded n_def] by blast
  let ?m = "v_mem V (cpp_dev st)"
  have "?m(t := mem_write a ?bs (?m t)) = fold (\<lambda>i m. m(t := (m t)(a + word_of_nat i := ?bs ! i))) [0..<n] ?m"
    using mem_write_fold [of n ?bs ?m t a] len t(4) by simp
  also have "\<dots> = fold (\<lambda>i. target_store O' dest (address + word_of_nat (off + i)) (bs ! (off + i))) [0..<n] ?m"
    using lin len assms(10) facts(2) by (intro fold_cong) (auto simp: target_store_def fun_eq_iff)
  also have "\<dots> = target_write O' dest address bs (off + n) m"
    unfolding assms(12) target_write_def
    by (simp add: upt_add_eq_append [of 0 off] upt_shift fold_map comp_def del: of_nat_add)
  finally have mem: "?m(t := mem_write a ?bs (?m t)) = target_write O' dest address bs (off + n) m" .
  obtain st' where "cpp_access O' dest (address + word_of_nat off) (length ?bs)
      (\<lambda>a off st. let (n, st) = nfp_cpp_area_write O' a off ?bs st in (n, [], st)) st = (int (length ?bs), [], st')"
    "cpp_inv V st'" "v_mem V (cpp_dev st') = ?m(t := mem_write a ?bs (?m t))" "dom (cpp_areas st') = dom (cpp_areas st)"
    using cpp_access_spec [OF assms(1,9) t(1,2) _ _ t(3) _ write_io [OF assms(1)], of ?bs] facts(1,3) t(4) len assms(7,10) by auto
  with mem len show ?thesis by (intro that [of st']) (simp_all add: cpp_write_chunk_def)
qed

lemma cpp_write_stores:
  assumes "transfer_setting O' V dest address (length bs)" "cpp_inv V st"
  obtains st' where "nfp_cpp_write O' dest address bs st = Some (int (length bs), st')" "cpp_inv V st'"
    "v_mem V (cpp_dev st') = target_write O' dest address bs (length bs) (v_mem V (cpp_dev st))"
    "dom (cpp_areas st') = dom (cpp_areas st)"
proof -
  let ?len = "length bs"
  from assms(1) obtain s where s: "2 \<le> s" "s < 64" "NFP_CPP_SAFE_AREA_SIZE O' = 2 ^ s" "target_ok O' dest s address ?len"
    and set: "device_ok O' V" "4 dvd unat address" "4 dvd ?len" "?len < 2 ^ 31" by (auto simp: transfer_setting_def)
  let ?m = "v_mem V (cpp_dev st)"
  define I where "I off st' \<longleftrightarrow> cpp_inv V st' \<and> v_mem V (cpp_dev st') = target_write O' dest address bs off ?m
    \<and> dom (cpp_areas st') = dom (cpp_areas st)" for off st'
  define chunk where "chunk = (\<lambda>off n st. cpp_write_chunk O' dest (address + word_of_nat off) (take n (drop off bs)) st)"
  have "\<exists>s'. cpp_chunks (2 ^ s) address ?len chunk 0 st = Some (sint (word_of_nat ?len :: 32 word), s') \<and> I ?len s'"
  proof (rule cpp_chunks_returns [where P = "\<lambda>off. 4 dvd off"])
    fix off assume off: "off < ?len" "4 dvd off"
    let ?n = "chunk_length (2 ^ s) address ?len off"
    show "0 < ?n \<and> off + ?n \<le> ?len \<and> 4 dvd off + ?n"
      using chunk_facts [OF s(1,2) set(2,3) off(2,1)] off(2) by (simp add: dvd_add)
    fix st1 assume "I off st1"
    then have I: "cpp_inv V st1" "v_mem V (cpp_dev st1) = target_write O' dest address bs off ?m"
      "dom (cpp_areas st1) = dom (cpp_areas st)" by (simp_all add: I_def)
    from chunk_write [OF set(1) s(1,2) set(2,3) off(2,1) s(4) I(1) refl I(2)] I(3)
    show "\<exists>st2. chunk off ?n st1 = (int ?n, st2) \<and> I (off + ?n) st2"
      unfolding I_def chunk_def by metis
  qed (use assms(2) in \<open>simp_all add: I_def target_write_def\<close>)
  then show ?thesis
    using s(3) sint_len [OF set(4)] that by (auto simp: nfp_cpp_write_def I_def chunk_def)
qed

lemma target_write_bytes:
  assumes "inj_on (\<lambda>i. nfp_target_cpp O' dest (address + word_of_nat i)) {..<len}"
    "\<And>i. i < len \<Longrightarrow> \<exists>t a. nfp_target_cpp O' dest (address + word_of_nat i) = Inr (t, a)"
  shows "n \<le> len \<Longrightarrow> i < n \<Longrightarrow> target_byte O' dest (target_write O' dest address bs n m) (address + word_of_nat i) = bs ! i"
proof (induction n)
  case (Suc n)
  obtain t a where n: "nfp_target_cpp O' dest (address + word_of_nat n) = Inr (t, a)" using assms(2) [of n] Suc.prems by auto
  let ?m = "target_write O' dest address bs n m"
  have upd: "target_write O' dest address bs (Suc n) m = ?m(t := (?m t)(a := bs ! n))"
    by (simp add: target_write_def target_store_def n)
  show ?case
  proof (cases "i = n")
    case True
    with n show ?thesis by (simp add: upd target_byte_def)
  next
    case False
    obtain t' a' where i: "nfp_target_cpp O' dest (address + word_of_nat i) = Inr (t', a')"
      using assms(2) [of i] Suc.prems by auto
    have "(t', a') \<noteq> (t, a)" using inj_onD [OF assms(1), of i n] i n False Suc.prems by auto
    with i Suc False show ?thesis by (auto simp: upd target_byte_def)
  qed
qed simp


section \<open>The life of a handle\<close>

text \<open>The counts of the area of a cache entry, without the device.\<close>

definition entry_counts :: "(aref \<Rightarrow> nfp_cpp_area option) \<Rightarrow> nfp_cpp_area_cache \<Rightarrow> bool" where
  "entry_counts m c \<longleftrightarrow> (\<exists>area. m (ca_area c) = Some area
     \<and> (if ca_id c = 0 then ar_kref area = 1 else ar_kref area = 2 \<and> ar_refcount area = 1))"

lemma areas_inv_remove:
  assumes "areas_inv st"
  shows "areas_inv (st\<lparr>area_cache_list := cs, cpp_dev := d, resource_list := remove1 a (resource_list st),
    cpp_areas := (cpp_areas st)(a := None)\<rparr>)"
proof -
  have later: "resource_later ((cpp_areas st)(a := None)) t r \<Longrightarrow> resource_later (cpp_areas st) t r" for t r
    by (auto simp: resource_later_def split: option.splits if_splits)
  have list: "remove1 a (resource_list st) = filter (\<lambda>x. x \<noteq> a) (resource_list st)"
    using assms by (simp add: areas_inv_def distinct_remove1_removeAll removeAll_filter_not_eq fun_eq_iff eq_commute)
  have "sorted_wrt (\<lambda>t r. \<not> resource_later (cpp_areas st) t r) (filter (\<lambda>x. x \<noteq> a) (resource_list st))"
    using assms by (auto simp: areas_inv_def resources_sorted_def intro: sorted_wrt_filter)
  then have "sorted_wrt (\<lambda>t r. \<not> resource_later ((cpp_areas st)(a := None)) t r) (filter (\<lambda>x. x \<noteq> a) (resource_list st))"
    by (rule sorted_wrt_mono_rel [rotated]) (use later in blast)
  with assms show ?thesis unfolding list by (auto simp: areas_inv_def resources_sorted_def)
qed

lemma cache_free_eq:
  assumes "entry_counts (cpp_areas st) c"
  obtains d where "cache_free O' c st = st\<lparr>area_cache_list := remove1 c (area_cache_list st), cpp_dev := d,
    resource_list := remove1 (ca_area c) (resource_list st), cpp_areas := (cpp_areas st)(ca_area c := None)\<rparr>"
proof (cases "ca_id c = 0")
  case True
  with assms that show ?thesis
    by (auto simp: entry_counts_def cache_free_def nfp_cpp_area_free_def nfp_cpp_area_put_def release_cpp_area_def Let_def)
next
  case False
  let ?st = "st\<lparr>area_cache_list := remove1 c (area_cache_list st)\<rparr>"
  from False assms obtain area where area: "cpp_areas ?st (ca_area c) = Some area" "ar_kref area = 2" "ar_refcount area = 1"
    by (auto simp: entry_counts_def)
  have "cache_free O' c st = nfp_cpp_area_release_free O' (ca_area c) ?st"
    using False by (simp add: cache_free_def nfp_cpp_area_release_free_def)
  with release_free_held [OF area, of O'] that show ?thesis by simp
qed

lemma free_caches:
  "areas_inv st \<Longrightarrow> distinct (map ca_area cs) \<Longrightarrow> \<forall>c \<in> set cs. entry_counts (cpp_areas st) c \<Longrightarrow>
    areas_inv (fold (cache_free O') cs st)"
proof (induction cs arbitrary: st)
  case (Cons c cs)
  from Cons.prems(3) obtain d where eq: "cache_free O' c st = st\<lparr>area_cache_list := remove1 c (area_cache_list st), cpp_dev := d,
    resource_list := remove1 (ca_area c) (resource_list st), cpp_areas := (cpp_areas st)(ca_area c := None)\<rparr>"
    by (auto elim: cache_free_eq [where O' = O'])
  have "ca_area x \<noteq> ca_area c" if "x \<in> set cs" for x
    using Cons.prems(2) imageI [OF that, of ca_area] by auto
  then have "\<forall>x \<in> set cs. entry_counts (cpp_areas (cache_free O' c st)) x"
    using Cons.prems(3) by (simp add: eq entry_counts_def)
  with Cons areas_inv_remove [OF Cons.prems(1)] show ?case by (simp add: eq)
qed simp

lemma free_dangling:
  "freed_access (fold (dangling_free O') as st) = freed_access st
    \<and> cpp_areas (fold (dangling_free O') as st) = (\<lambda>x. if x \<in> set as then None else cpp_areas st x)
    \<and> resource_list (fold (dangling_free O') as st) = fold remove1 as (resource_list st)"
  by (induction as arbitrary: st) (auto simp: dangling_free_def release_cpp_area_def Let_def fun_eq_iff)

lemma fold_remove1_self: "fold remove1 xs (xs @ ys) = ys"
  by (induction xs) simp_all

text \<open>
  C20. The end of a handle frees everything once: from every state of the invariant, with entries
  of the cache in use or not and with areas that were never freed, \<open>nfp_cpp_free\<close> leaves no area and
  an empty list of resources, and it touches no area that was freed before.
\<close>

theorem cpp_free_clean:
  assumes "cpp_inv V st"
  shows "cpp_areas (nfp_cpp_free O' st) = Map.empty \<and> resource_list (nfp_cpp_free O' st) = []
    \<and> \<not> freed_access (nfp_cpp_free O' st)"
proof -
  have "entry_counts (cpp_areas st) c" if "c \<in> set (area_cache_list st)" for c
    using assms that by (fastforce simp: cpp_inv_def cache_entry_def entry_counts_def split: if_splits)
  with assms have inv: "areas_inv (fold (cache_free O') (area_cache_list st) st)" (is "areas_inv ?st1")
    by (intro free_caches) (simp_all add: cpp_inv_def)
  with free_dangling [of O' "resource_list ?st1" ?st1] fold_remove1_self [of "resource_list ?st1" "[]"] show ?thesis
    by (auto simp: nfp_cpp_free_def areas_inv_def fun_eq_iff Let_def domIff)
qed

text \<open>An entry added to the cache keeps the invariant.\<close>

lemma cache_add_inv:
  assumes dev: "device_ok O' V" and inv: "cpp_inv V st" and k: "2 \<le> k" "k < 32"
    and target: "nfp_target_cpp O' (mu_base_id O') 0 = Inr (t, addr)"
  shows "\<exists>st'. nfp_cpp_area_cache_add O' (2 ^ k) st = (0, st') \<and> cpp_inv V st'"
proof -
  let ?a = "cpp_allocs st"
  obtain d area where alloc: "nfp_cpp_area_alloc O' (mu_base_id O') 0 (2 ^ k) st =
      (Some ?a, st\<lparr>cpp_allocs := ?a + 1, cpp_dev := d, cpp_areas := (cpp_areas st)(?a \<mapsto> area),
        resource_list := resource_add ((cpp_areas st)(?a \<mapsto> area)) ?a (resource_list st)\<rparr>)" (is "_ = (_, ?st1)")
    and area: "ar_kref area = 1" "ar_refcount area = 0"
    and d: "v_window V d = (v_window V (cpp_dev st))(?a := (t, addr, 2 ^ k))" "v_held V d = v_held V (cpp_dev st)"
    by (rule alloc_area [OF dev target])
  let ?c = "\<lparr>ca_id = 0, ca_addr = 0, ca_size = word_of_nat (2 ^ k), ca_area = ?a\<rparr>"
  let ?st = "?st1\<lparr>cpp_allocs := ?a + 2, area_cache_list := area_cache_list st @ [?c]\<rparr>"
  let ?m = "(cpp_areas st)(?a \<mapsto> area)"
  have fresh: "?a \<notin> dom (cpp_areas st)" "?a \<notin> set (resource_list st)"
    and areas: "areas_inv st" using inv by (auto simp: cpp_inv_def areas_inv_def)
  have later: "resource_later ?m t r = resource_later (cpp_areas st) t r" if "t \<in> set (resource_list st)" "r \<in> set (resource_list st)"
    for t r
  proof -
    have "t \<noteq> ?a" "r \<noteq> ?a" using that fresh(2) by auto
    then show ?thesis by (simp add: resource_later_def)
  qed
  have old: "sorted_wrt (\<lambda>t r. \<not> resource_later (cpp_areas st) t r) (resource_list st)"
    using areas by (simp add: areas_inv_def resources_sorted_def)
  have "sorted_wrt (\<lambda>t r. \<not> resource_later ?m t r) (resource_list st)"
    by (rule sorted_wrt_mono_rel [OF _ old]) (simp add: later)
  moreover have "x < ?a + 2" if "cpp_areas st x = Some y" for x y
    using areas that by (auto simp: areas_inv_def intro: less_SucI dest: bspec [of _ _ x])
  ultimately have "areas_inv ?st"
    using areas fresh resource_add_sorted [of ?m "resource_list st" ?a]
    by (auto simp: areas_inv_def resources_sorted_def)
  moreover have "cache_entry V ?m d c" if "c \<in> set (area_cache_list st)" for c
  proof -
    have entry: "cache_entry V (cpp_areas st) (cpp_dev st) c" using inv that by (simp add: cpp_inv_def)
    then have "ca_area c \<noteq> ?a" using fresh(1) by (auto simp: cache_entry_def)
    with entry d show ?thesis by (auto intro: cache_entry_frame)
  qed
  moreover have "cache_entry V ?m d ?c" using k area by (auto simp: cache_entry_def)
  moreover have "?a \<notin> ca_area ` set (area_cache_list st)"
    using inv fresh(1) by (fastforce simp: cpp_inv_def cache_entry_def)
  ultimately have "cpp_inv V ?st" using inv by (auto simp: cpp_inv_def)
  moreover have "nfp_cpp_area_cache_add O' (2 ^ k) st = (0, ?st)"
    using dev alloc by (simp add: nfp_cpp_area_cache_add_def device_ok_def)
  ultimately show ?thesis by blast
qed

section \<open>Examples\<close>

text \<open>A device with plain memory, windows of any number and a safe size of 16 bytes.\<close>

record ram =
  rm_window :: "aref \<Rightarrow> u32 \<times> u64 \<times> nat"
  rm_held :: "aref \<Rightarrow> bool"
  rm_mem :: "u32 \<Rightarrow> u64 \<Rightarrow> u8"

definition ram_ops :: "ram nfp_ops" where
  "ram_ops = \<lparr>op_area_init = Some (\<lambda>a t addr sz d. (0, d\<lparr>rm_window := (rm_window d)(a := (t, addr, sz))\<rparr>)),
     op_area_cleanup = None,
     op_area_acquire = Some (\<lambda>a d. (0, d\<lparr>rm_held := (rm_held d)(a := True)\<rparr>)),
     op_area_release = Some (\<lambda>a d. d\<lparr>rm_held := (rm_held d)(a := False)\<rparr>),
     op_area_read = (\<lambda>a off len d. case rm_window d a of (t, w, sz) \<Rightarrow> (int len, mem_read (w + off) len (rm_mem d t), d)),
     op_area_write = (\<lambda>a bs off d. case rm_window d a of (t, w, sz) \<Rightarrow>
       (int (length bs), d\<lparr>rm_mem := (rm_mem d)(t := mem_write (w + off) bs (rm_mem d t))\<rparr>)),
     nfp_target_cpp = (\<lambda>dest addr. Inr (dest, addr)), kzalloc = (\<lambda>_. True), wakeups = 0, meanwhile = (\<lambda>d. d),
     NFP_CPP_SAFE_AREA_SIZE = 2 ^ 4, mu_base_id = 7\<rparr>"

definition ram_view :: "ram view" where
  "ram_view = \<lparr>v_window = rm_window, v_held = rm_held, v_mem = rm_mem\<rparr>"

definition new_handle :: "'d \<Rightarrow> 'd nfp_cpp" where
  "new_handle d = \<lparr>cpp_areas = (\<lambda>_. None), cpp_allocs = 0, resource_list = [], area_cache_list = [], cpp_dev = d,
     freed_access = False\<rparr>"

definition ram_cached :: "ram nfp_cpp" where
  "ram_cached = snd (nfp_cpp_area_cache_add ram_ops (2 ^ 4)
     (new_handle \<lparr>rm_window = (\<lambda>_. (0, 0, 0)), rm_held = (\<lambda>_. False), rm_mem = (\<lambda>t x. ucast x)\<rparr>))"

lemma ram_device: "device_ok ram_ops ram_view"
  by (simp add: device_ok_def init_ok_def acquire_ok_def release_ok_def transfer_ok_def access_ok_def ram_ops_def
      ram_view_def dev_init_def dev_release_def dev_cleanup_def split: prod.splits)

lemma ram_cached_inv: "cpp_inv ram_view ram_cached"
proof -
  let ?st = "new_handle \<lparr>rm_window = (\<lambda>_. (0, 0, 0)), rm_held = (\<lambda>_. False), rm_mem = (\<lambda>t x. ucast x)\<rparr>"
  have "cpp_inv ram_view ?st" by (simp add: cpp_inv_def areas_inv_def resources_sorted_def new_handle_def)
  moreover have "nfp_target_cpp ram_ops (mu_base_id ram_ops) 0 = Inr (7, 0)" by (simp add: ram_ops_def)
  ultimately obtain st' where "nfp_cpp_area_cache_add ram_ops (2 ^ 4) ?st = (0, st')" "cpp_inv ram_view st'"
    using cache_add_inv [OF ram_device, of ?st 4 7 0] by auto
  then show ?thesis by (simp add: ram_cached_def)
qed

lemma ram_setting: "transfer_setting ram_ops ram_view 3 8 12"
proof -
  have "unat (8 + word_of_nat off :: u64) = 8 + off" if "off < 12" for off
    using that unat_add_len [of 8 off] by simp
  then have "target_ok ram_ops 3 4 8 12" by (simp add: target_ok_def ram_ops_def)
  with ram_device show ?thesis
    by (simp add: transfer_setting_def) (rule exI [of _ 4], simp add: ram_ops_def)
qed



theorem cpp_free_clean_witness:
  "cpp_areas ram_cached 0 \<noteq> None \<and> cpp_areas (nfp_cpp_free ram_ops ram_cached) 0 = None
     \<and> \<not> freed_access (nfp_cpp_free ram_ops ram_cached)"
  using cpp_free_clean [OF ram_cached_inv, of ram_ops]
  by (simp add: ram_cached_def nfp_cpp_area_cache_add_def nfp_cpp_area_alloc_def
      nfp_cpp_area_alloc_with_name_def ram_ops_def new_handle_def dev_init_def)

text \<open>
  A device whose first acquisition fails: \<open>area_cache_get\<close> leaves the entry marked as used, so the
  next read of another address releases an area that is not held and uses it after it was freed.
\<close>

definition flaky_ops :: "nat nfp_ops" where
  "flaky_ops = \<lparr>op_area_init = None, op_area_cleanup = None,
     op_area_acquire = Some (\<lambda>a d. (if d = 0 then - 5 else 0, d + 1)), op_area_release = None,
     op_area_read = (\<lambda>a off len d. (int len, replicate len 0, d)),
     op_area_write = (\<lambda>a bs off d. (int (length bs), d)),
     nfp_target_cpp = (\<lambda>dest addr. Inr (dest, addr)), kzalloc = (\<lambda>_. True), wakeups = 0, meanwhile = (\<lambda>d. d),
     NFP_CPP_SAFE_AREA_SIZE = 2 ^ 4, mu_base_id = 7\<rparr>"

definition flaky_read :: "u64 \<Rightarrow> nat nfp_cpp \<Rightarrow> nat nfp_cpp" where
  "flaky_read addr st = snd (snd (cpp_read_chunk flaky_ops 3 addr 4 st))"

lemma cache_error_frees_area:
  "freed_access (flaky_read 256 (flaky_read 0 (snd (nfp_cpp_area_cache_add flaky_ops 16 (new_handle 0)))))"
  by code_simp

text \<open>
  A second acquisition takes no reference, but every release drops one: two users of an area that
  release it free it under its owner.
\<close>

definition acquire_twice :: "ram nfp_cpp" where
  "acquire_twice = (let st = snd (nfp_cpp_area_alloc ram_ops 3 0 16 ram_cached);
     st = snd (nfp_cpp_area_acquire ram_ops 2 (snd (nfp_cpp_area_acquire ram_ops 2 st))) in
     nfp_cpp_area_release ram_ops 2 (nfp_cpp_area_release ram_ops 2 st))"

lemma acquire_twice_frees:
  "cpp_areas acquire_twice 2 = None \<and> freed_access (nfp_cpp_area_free ram_ops 2 acquire_twice)"
  by code_simp

end
