(* ===== verification/Nfp_Handle.thy ===== *)
theory Nfp_Handle
  imports Nfp_Cpp
begin

unbundle bit_operations_syntax

text \<open>
  The creation of a handle and the explicit transactions of \<^verbatim>\<open>examples/nfp_cppcore.c\<close>. What the
  hardware and the kernel answer are the fields of \<open>probe\<close>, with \<open>'s\<close> their state.
\<close>

section \<open>The creation of a handle\<close>

record 's probe =
  pr_alloc :: bool
  get_interface :: int
  read_serial :: "(int \<times> u8 list) option"
  pr_register :: int
  pr_init :: "('s \<Rightarrow> int \<times> 's) option"
  model_autodetect :: "'s \<Rightarrow> (int + u32) \<times> 's"
  xpb_readl :: "u32 \<Rightarrow> 's \<Rightarrow> (int + u32) \<times> 's"
  arm_reads :: "'s \<Rightarrow> 's"
  mu_locality_lsb_of :: "nat \<Rightarrow> bool \<Rightarrow> int"
  NFP_CPP_TARGET_MU :: nat

record handle =
  h_model :: u32
  h_interface :: "16 word"
  h_serial :: "u8 list"
  imb_cat_table :: "u32 list"
  mu_locality_lsb :: nat

text \<open>What the function does to the objects of the kernel, in order.\<close>

datatype kernel_act = AllocCpp | RegisterDevice | PutDevice | UnregisterDevice | FreeCpp

definition nfp_cpp_set_mu_locality_lsb :: "'s probe \<Rightarrow> handle \<Rightarrow> int \<times> handle" where
  "nfp_cpp_set_mu_locality_lsb P cpp =
     (let imbcppat = imb_cat_table cpp ! NFP_CPP_TARGET_MU P;
          mode = unat (drop_bit 13 imbcppat AND 7);
          addr40 = (imbcppat AND push_bit 12 1 \<noteq> 0);
          res = mu_locality_lsb_of P mode addr40 in
      if res < 0 then (res, cpp) else (0, cpp\<lparr>mu_locality_lsb := nat res\<rparr>))"

text \<open>The loop that reads the mapping table, with the targets still to read.\<close>

primrec read_table :: "'s probe \<Rightarrow> nat list \<Rightarrow> handle \<Rightarrow> 's \<Rightarrow> int \<times> handle \<times> 's" where
  "read_table P [] cpp s = (0, cpp, s)"
| "read_table P (tgt # tgts) cpp s =
     (case xpb_readl P (0x000a0000 + word_of_nat tgt * 4) s of
        (Inl err, s) \<Rightarrow> (err, cpp, s)
      | (Inr v, s) \<Rightarrow> read_table P tgts (cpp\<lparr>imb_cat_table := (imb_cat_table cpp)[tgt := v]\<rparr>) s)"

text \<open>The part of \<open>nfp_cpp_from_operations\<close> after the registration, with \<open>goto err_out\<close> as an error.\<close>

definition probe_device :: "'s probe \<Rightarrow> handle \<Rightarrow> 's \<Rightarrow> int \<times> handle \<times> 's" where
  "probe_device P cpp s =
     (let (err, s) = (case pr_init P of None \<Rightarrow> (0, s) | Some f \<Rightarrow> f s) in
      if err < 0 then (err, cpp, s)
      else case model_autodetect P s of
        (Inl err, s) \<Rightarrow> (err, cpp, s)
      | (Inr m, s) \<Rightarrow>
          let (err, cpp, s) = read_table P [0..<16] (cpp\<lparr>h_model := m\<rparr>) s in
          if err < 0 then (err, cpp, s)
          else
            let s = arm_reads P s;
                (err, cpp) = nfp_cpp_set_mu_locality_lsb P cpp in
            (if err < 0 then err else 0, cpp, s))"

definition nfp_cpp_from_operations :: "'s probe \<Rightarrow> 's \<Rightarrow> (int + handle) \<times> kernel_act list \<times> 's" where
  "nfp_cpp_from_operations P s =
     (if \<not> pr_alloc P then (Inl (- ENOMEM), [], s)
      else if get_interface P < 0 then (Inl (get_interface P), [AllocCpp, FreeCpp], s)
      else
        let cpp = \<lparr>h_model = 0, h_interface = word_of_int (get_interface P),
              h_serial = (case read_serial P of None \<Rightarrow> [] | Some (_, serial) \<Rightarrow> serial),
              imb_cat_table = replicate 16 0, mu_locality_lsb = 0\<rparr>;
            err = (case read_serial P of None \<Rightarrow> 0 | Some (err, _) \<Rightarrow> err) in
        if err \<noteq> 0 then (Inl err, [AllocCpp, FreeCpp], s)
        else if pr_register P < 0 then (Inl (pr_register P), [AllocCpp, RegisterDevice, PutDevice, FreeCpp], s)
        else
          let (err, cpp, s) = probe_device P cpp s in
          if err < 0 then (Inl err, [AllocCpp, RegisterDevice, UnregisterDevice, FreeCpp], s)
          else (Inr cpp, [AllocCpp, RegisterDevice], s))"

text \<open>The errors of the hardware are negative, as the code assumes.\<close>

definition probe_ok :: "'s probe \<Rightarrow> bool" where
  "probe_ok P \<longleftrightarrow> (\<forall>a s err s'. xpb_readl P a s = (Inl err, s') \<longrightarrow> err < 0)
     \<and> (\<forall>s err s'. model_autodetect P s = (Inl err, s') \<longrightarrow> err < 0)
     \<and> (\<forall>err serial. read_serial P = Some (err, serial) \<longrightarrow> err \<le> 0)"

lemma read_table_length: "read_table P tgts cpp s = (err, cpp', s') \<Longrightarrow> length (imb_cat_table cpp') = length (imb_cat_table cpp)"
  by (induction tgts arbitrary: cpp s) (auto split: prod.splits sum.splits dest: meta_spec)

text \<open>
  The creation either returns a handle with a full mapping table, a device that stays registered
  and memory that stays allocated, or a negative error after taking back everything it did.
\<close>

lemma from_operations_balanced:
  assumes "probe_ok P" "nfp_cpp_from_operations P s = (res, acts, s')"
  shows "case res of
      Inr cpp \<Rightarrow> acts = [AllocCpp, RegisterDevice] \<and> length (imb_cat_table cpp) = 16
    | Inl err \<Rightarrow> err < 0 \<and> (AllocCpp \<in> set acts \<longleftrightarrow> FreeCpp \<in> set acts)
        \<and> (RegisterDevice \<in> set acts \<longleftrightarrow> UnregisterDevice \<in> set acts \<or> PutDevice \<in> set acts)"
proof -
  have "length (imb_cat_table cpp') = length (imb_cat_table cpp)" if "probe_device P cpp s = (err, cpp', s')" for cpp cpp' s s' err
    using that by (auto simp: probe_device_def nfp_cpp_set_mu_locality_lsb_def Let_def
        split: prod.splits if_splits sum.splits option.splits dest: read_table_length)
  with assms show ?thesis
    by (fastforce simp: nfp_cpp_from_operations_def probe_ok_def Let_def ENOMEM_def split: prod.splits if_splits option.splits)
qed

section \<open>Explicit transactions\<close>

record nfp_cpp_explicit_command =
  ec_cpp_id :: u32
  ec_len :: u8
  ec_byte_mask :: u8
  ec_data_master :: u8
  ec_data_ref :: "16 word"
  ec_signal_master :: u8
  ec_signal_ref :: u8
  ec_posted :: int
  ec_siga :: u8
  ec_sigb :: u8
  ec_siga_mode :: nat
  ec_sigb_mode :: nat

definition ENODEV :: int where "ENODEV = 19"

text \<open>\<open>NFP_EXPL_OP\<close>: an operation that may be missing.\<close>

definition NFP_EXPL_OP :: "('s \<Rightarrow> int \<times> 's) option \<Rightarrow> 's \<Rightarrow> int \<times> 's" where
  "NFP_EXPL_OP func s = (case func of None \<Rightarrow> (- ENODEV, s) | Some f \<Rightarrow> f s)"

definition nfp_cpp_explicit_acquire ::
  "bool \<Rightarrow> ('s \<Rightarrow> int \<times> 's) option \<Rightarrow> 's \<Rightarrow> nfp_cpp_explicit_command option \<times> 's" where
  "nfp_cpp_explicit_acquire allocated explicit_acquire s =
     (if \<not> allocated then (None, s)
      else let (err, s) = NFP_EXPL_OP explicit_acquire s in
        if err < 0 then (None, s)
        else (Some \<lparr>ec_cpp_id = 0, ec_len = 0, ec_byte_mask = 0, ec_data_master = 0, ec_data_ref = 0, ec_signal_master = 0,
          ec_signal_ref = 0, ec_posted = 0, ec_siga = 0, ec_sigb = 0, ec_siga_mode = 0, ec_sigb_mode = 0\<rparr>, s))"

definition nfp_cpp_explicit_set_target ::
  "u32 \<Rightarrow> u8 \<Rightarrow> u8 \<Rightarrow> nfp_cpp_explicit_command \<Rightarrow> int \<times> nfp_cpp_explicit_command" where
  "nfp_cpp_explicit_set_target cpp_id len msk cmd = (0, cmd\<lparr>ec_cpp_id := cpp_id, ec_len := len, ec_byte_mask := msk\<rparr>)"

definition nfp_cpp_explicit_set_data ::
  "u8 \<Rightarrow> 16 word \<Rightarrow> nfp_cpp_explicit_command \<Rightarrow> int \<times> nfp_cpp_explicit_command" where
  "nfp_cpp_explicit_set_data data_master data_ref cmd =
     (0, cmd\<lparr>ec_data_master := data_master, ec_data_ref := data_ref\<rparr>)"

definition nfp_cpp_explicit_set_signal ::
  "u8 \<Rightarrow> u8 \<Rightarrow> nfp_cpp_explicit_command \<Rightarrow> int \<times> nfp_cpp_explicit_command" where
  "nfp_cpp_explicit_set_signal signal_master signal_ref cmd =
     (0, cmd\<lparr>ec_signal_master := signal_master, ec_signal_ref := signal_ref\<rparr>)"

definition nfp_cpp_explicit_set_posted ::
  "int \<Rightarrow> u8 \<Rightarrow> nat \<Rightarrow> u8 \<Rightarrow> nat \<Rightarrow> nfp_cpp_explicit_command \<Rightarrow> int \<times> nfp_cpp_explicit_command" where
  "nfp_cpp_explicit_set_posted posted siga siga_mode sigb sigb_mode cmd =
     (0, cmd\<lparr>ec_posted := posted, ec_siga := siga, ec_sigb := sigb, ec_siga_mode := siga_mode, ec_sigb_mode := sigb_mode\<rparr>)"

definition nfp_cpp_explicit_put :: "(u8 list \<Rightarrow> 's \<Rightarrow> int \<times> 's) option \<Rightarrow> u8 list \<Rightarrow> 's \<Rightarrow> int \<times> 's" where
  "nfp_cpp_explicit_put explicit_put buff s = NFP_EXPL_OP (map_option (\<lambda>f. f buff) explicit_put) s"

definition nfp_cpp_explicit_do ::
  "(nfp_cpp_explicit_command \<Rightarrow> u64 \<Rightarrow> 's \<Rightarrow> int \<times> 's) option \<Rightarrow> nfp_cpp_explicit_command \<Rightarrow> u64 \<Rightarrow> 's \<Rightarrow> int \<times> 's" where
  "nfp_cpp_explicit_do explicit_do cmd address s = NFP_EXPL_OP (map_option (\<lambda>f. f cmd address) explicit_do) s"

definition nfp_cpp_explicit_get :: "(nat \<Rightarrow> 's \<Rightarrow> (int \<times> u8 list) \<times> 's) option \<Rightarrow> nat \<Rightarrow> 's \<Rightarrow> (int \<times> u8 list) \<times> 's" where
  "nfp_cpp_explicit_get explicit_get len s =
     (case explicit_get of None \<Rightarrow> ((- ENODEV, []), s) | Some f \<Rightarrow> f len s)"

definition nfp_cpp_explicit_release :: "('s \<Rightarrow> 's) option \<Rightarrow> 's \<Rightarrow> 's" where
  "nfp_cpp_explicit_release explicit_release s = (case explicit_release of None \<Rightarrow> s | Some f \<Rightarrow> f s)"

end
