(* ===== verification/Uring_Cq.thy ===== *)
theory Uring_Cq
  imports Prelude "HOL-Library.Word" "HOL-Library.Multiset"
begin

unbundle bit_operations_syntax

text \<open>
  The completion ring of \<^verbatim>\<open>examples/io_uring.c\<close>: the kernel posts completions at a tail that it
  caches, the application consumes them at the head, both counters are 32 bits wide and wrap.
  Completions that do not fit go to an overflow list, or are counted when no memory is left. The
  completion lock makes the operations of the kernel atomic; the application runs between them.
\<close>

section \<open>The ring\<close>

record io_uring_cqe =
  cqe_user_data :: "64 word"
  cqe_res :: int
  cqe_flags :: "32 word"

record cq_ctx =
  cq_head :: "32 word"
  cq_tail :: "32 word"
  cached_cq_tail :: "32 word"
  cq_entries :: "32 word"
  cqes :: "io_uring_cqe list"
  cq_overflow_list :: "io_uring_cqe list"
  cq_overflow :: "32 word"
  cq_extra :: "32 word"
  check_cq_overflow :: bool
  IORING_SQ_CQ_OVERFLOW :: bool

definition io_account_cq_overflow :: "cq_ctx \<Rightarrow> cq_ctx" where
  "io_account_cq_overflow ctx = ctx\<lparr>cq_overflow := cq_overflow ctx + 1, cq_extra := cq_extra ctx - 1\<rparr>"

definition io_cqring_events :: "cq_ctx \<Rightarrow> 32 word" where
  "io_cqring_events ctx = cached_cq_tail ctx - cq_head ctx"

text \<open>The index of the entry, or \<open>None\<close> for NULL.\<close>

definition io_get_cqe :: "cq_ctx \<Rightarrow> nat option \<times> cq_ctx" where
  "io_get_cqe ctx =
     (let msk = cq_entries ctx - 1 in
      if io_cqring_events ctx = cq_entries ctx then (None, ctx)
      else let tail = cached_cq_tail ctx in
        (Some (unat (tail AND msk)), ctx\<lparr>cached_cq_tail := tail + 1\<rparr>))"

definition io_commit_cqring :: "cq_ctx \<Rightarrow> cq_ctx" where
  "io_commit_cqring ctx = ctx\<lparr>cq_tail := cached_cq_tail ctx\<rparr>"

text \<open>\<open>allocated\<close> is the success of the allocation.\<close>

definition io_cqring_event_overflow :: "bool \<Rightarrow> io_uring_cqe \<Rightarrow> cq_ctx \<Rightarrow> bool \<times> cq_ctx" where
  "io_cqring_event_overflow allocated cqe ctx =
     (if \<not> allocated then (False, io_account_cq_overflow ctx)
      else
        let ctx = (if cq_overflow_list ctx = [] then ctx\<lparr>check_cq_overflow := True, IORING_SQ_CQ_OVERFLOW := True\<rparr> else ctx) in
        (True, ctx\<lparr>cq_overflow_list := cq_overflow_list ctx @ [cqe]\<rparr>))"

definition io_fill_cqe :: "bool \<Rightarrow> io_uring_cqe \<Rightarrow> cq_ctx \<Rightarrow> bool \<times> cq_ctx" where
  "io_fill_cqe allocated cqe ctx = (case io_get_cqe ctx of
       (Some i, ctx) \<Rightarrow> (True, ctx\<lparr>cqes := (cqes ctx)[i := cqe]\<rparr>)
     | (None, ctx) \<Rightarrow> io_cqring_event_overflow allocated cqe ctx)"

definition io_fill_cqe_req :: "bool \<Rightarrow> bool \<Rightarrow> io_uring_cqe \<Rightarrow> cq_ctx \<Rightarrow> cq_ctx" where
  "io_fill_cqe_req allocated cqe_skip cqe ctx = (if \<not> cqe_skip then snd (io_fill_cqe allocated cqe ctx) else ctx)"

definition io_fill_cqe_aux :: "bool \<Rightarrow> io_uring_cqe \<Rightarrow> cq_ctx \<Rightarrow> bool \<times> cq_ctx" where
  "io_fill_cqe_aux allocated cqe ctx = io_fill_cqe allocated cqe (ctx\<lparr>cq_extra := cq_extra ctx + 1\<rparr>)"

text \<open>The loop of \<open>__io_cqring_overflow_flush\<close> over the backlog; the first result is \<open>posted\<close>.\<close>

primrec flush_loop :: "bool \<Rightarrow> io_uring_cqe list \<Rightarrow> bool \<Rightarrow> cq_ctx \<Rightarrow> bool \<times> cq_ctx" where
  "flush_loop force [] posted ctx = (posted, ctx\<lparr>cq_overflow_list := []\<rparr>)"
| "flush_loop force (ocqe # ocqes) posted ctx = (case io_get_cqe ctx of
       (None, ctx) \<Rightarrow>
         if \<not> force then (posted, ctx\<lparr>cq_overflow_list := ocqe # ocqes\<rparr>)
         else flush_loop force ocqes True (io_account_cq_overflow ctx)
     | (Some i, ctx) \<Rightarrow> flush_loop force ocqes True (ctx\<lparr>cqes := (cqes ctx)[i := ocqe]\<rparr>))"

definition io_cqring_overflow_flush :: "bool \<Rightarrow> cq_ctx \<Rightarrow> bool \<times> cq_ctx" where
  "io_cqring_overflow_flush force ctx =
     (if \<not> force \<and> io_cqring_events ctx = cq_entries ctx then (False, ctx)
      else
        let (posted, ctx) = flush_loop force (cq_overflow_list ctx) False ctx;
            all_flushed = (cq_overflow_list ctx = []);
            ctx = (if all_flushed then ctx\<lparr>check_cq_overflow := False, IORING_SQ_CQ_OVERFLOW := False\<rparr> else ctx);
            ctx = (if posted then io_commit_cqring ctx else ctx) in
        (all_flushed, ctx))"

text \<open>\<open>io_cqring_overflow_flush\<close>, the guard of the callers.\<close>

definition cqring_flush_pending :: "cq_ctx \<Rightarrow> bool \<times> cq_ctx" where
  "cqring_flush_pending ctx = (if check_cq_overflow ctx then io_cqring_overflow_flush False ctx else (True, ctx))"

definition req_need_defer :: "bool \<Rightarrow> 32 word \<Rightarrow> cq_ctx \<Rightarrow> bool" where
  "req_need_defer io_drain sq ctx = (if io_drain then sq + cq_extra ctx \<noteq> cached_cq_tail ctx else False)"

text \<open>The application reads an entry between the head and the published tail.\<close>

definition user_consume :: "cq_ctx \<Rightarrow> (io_uring_cqe \<times> cq_ctx) option" where
  "user_consume ctx =
     (if cq_head ctx = cq_tail ctx then None
      else Some (cqes ctx ! unat (cq_head ctx AND (cq_entries ctx - 1)), ctx\<lparr>cq_head := cq_head ctx + 1\<rparr>))"

section \<open>The queue behind the ring\<close>

definition slot :: "cq_ctx \<Rightarrow> nat \<Rightarrow> nat" where
  "slot ctx i = unat ((cq_head ctx + word_of_nat i) AND (cq_entries ctx - 1))"

definition ring_queue :: "cq_ctx \<Rightarrow> io_uring_cqe list" where
  "ring_queue ctx = map (\<lambda>i. cqes ctx ! slot ctx i) [0..<unat (io_cqring_events ctx)]"

definition visible :: "cq_ctx \<Rightarrow> nat" where
  "visible ctx = unat (cq_tail ctx - cq_head ctx)"

definition ring_core :: "cq_ctx \<Rightarrow> bool" where
  "ring_core ctx \<longleftrightarrow> (\<exists>k < 32. cq_entries ctx = 2 ^ k \<and> length (cqes ctx) = 2 ^ k)
     \<and> unat (io_cqring_events ctx) \<le> unat (cq_entries ctx) \<and> visible ctx \<le> unat (io_cqring_events ctx)"

definition ring_inv :: "cq_ctx \<Rightarrow> bool" where
  "ring_inv ctx \<longleftrightarrow> ring_core ctx
     \<and> (check_cq_overflow ctx \<longleftrightarrow> cq_overflow_list ctx \<noteq> [])
     \<and> (IORING_SQ_CQ_OVERFLOW ctx \<longleftrightarrow> cq_overflow_list ctx \<noteq> [])"

lemma unat_entries: "k < 32 \<Longrightarrow> unat ((2 :: 32 word) ^ k) = 2 ^ k"
proof -
  assume "k < 32"
  then have "(2 :: nat) ^ k < 2 ^ 32" by (rule power_strict_increasing) simp
  moreover have "(2 :: 32 word) ^ k = word_of_nat (2 ^ k)" by simp
  ultimately show ?thesis by (simp only: unsigned_of_nat take_bit_eq_mod) simp
qed

lemma slot_eq:
  assumes "k < 32" "cq_entries ctx = 2 ^ k"
  shows "slot ctx i = (unat (cq_head ctx) + i) mod 2 ^ k"
proof -
  have "slot ctx i = unat (take_bit k (cq_head ctx + word_of_nat i))"
    by (simp add: slot_def assms(2) take_bit_eq_mask mask_eq_exp_minus_1)
  also have "\<dots> = unat (cq_head ctx + word_of_nat i) mod 2 ^ k"
    by (simp add: unsigned_take_bit_eq flip: take_bit_eq_mod)
  also have "\<dots> = (unat (cq_head ctx) + i) mod 2 ^ k"
    using mod_mod_cancel [OF le_imp_power_dvd [of k 32 "2 :: nat"]] assms(1)
    by (simp add: unat_word_ariths unsigned_of_nat take_bit_eq_mod mod_simps)
  finally show ?thesis .
qed

lemma slots_distinct:
  assumes "k < 32" "cq_entries ctx = 2 ^ k" "i < j" "j - i < 2 ^ k"
  shows "slot ctx i \<noteq> slot ctx j"
proof
  assume "slot ctx i = slot ctx j"
  then have "(unat (cq_head ctx) + i) mod 2 ^ k = (unat (cq_head ctx) + j) mod 2 ^ k" by (simp add: slot_eq [OF assms(1,2)])
  then have "2 ^ k dvd (unat (cq_head ctx) + j) - (unat (cq_head ctx) + i)"
    using assms(3) by (intro mod_eq_dvd_iff_nat [THEN iffD1]) simp_all
  with assms(3,4) show False by (auto dest: dvd_imp_le)
qed

lemma tail_slot: "unat (cached_cq_tail ctx AND (cq_entries ctx - 1)) = slot ctx (unat (io_cqring_events ctx))"
  by (simp add: slot_def io_cqring_events_def)

lemma unat_less_Suc: "unat (x :: 32 word) < 2 ^ 31 \<Longrightarrow> unat (x + 1) = unat x + 1"
  by (simp add: unat_word_ariths)

text \<open>A free entry: what the kernel puts there comes last in the queue.\<close>

lemma get_cqe_cases:
  assumes "ring_core ctx"
  obtains (full) "io_get_cqe ctx = (None, ctx)" "length (ring_queue ctx) = unat (cq_entries ctx)"
  | (free) i ctx' where "io_get_cqe ctx = (Some i, ctx')" "length (ring_queue ctx) < unat (cq_entries ctx)"
      "ctx' = ctx\<lparr>cached_cq_tail := cached_cq_tail ctx + 1\<rparr>"
      "\<And>c. ring_queue (ctx'\<lparr>cqes := (cqes ctx')[i := c]\<rparr>) = ring_queue ctx @ [c]"
      "\<And>c. ring_core (ctx'\<lparr>cqes := (cqes ctx')[i := c]\<rparr>)"
proof (cases "io_cqring_events ctx = cq_entries ctx")
  case True
  then show ?thesis by (intro full) (simp_all add: io_get_cqe_def ring_queue_def)
next
  case False
  from assms obtain k where k: "k < 32" "cq_entries ctx = 2 ^ k" "length (cqes ctx) = 2 ^ k" by (auto simp: ring_core_def)
  define n where "n = unat (io_cqring_events ctx)"
  have "n \<noteq> unat (cq_entries ctx)" using False by (simp add: n_def word_unat_eq_iff)
  with assms have n: "n < 2 ^ k" using unat_entries [OF k(1)] k(2) by (simp add: ring_core_def n_def)
  have "(2 :: nat) ^ k \<le> 2 ^ 31" using k(1) by (intro power_increasing) simp_all
  with n have small: "unat (io_cqring_events ctx + 1) = n + 1" by (simp add: n_def unat_less_Suc)
  define i ctx' where "i = slot ctx n" and "ctx' = ctx\<lparr>cached_cq_tail := cached_cq_tail ctx + 1\<rparr>"
  have get: "io_get_cqe ctx = (Some i, ctx')"
    using False by (simp add: io_get_cqe_def Let_def tail_slot i_def n_def ctx'_def)
  have i: "i < length (cqes ctx)" using k(3) by (simp add: i_def slot_eq [OF k(1,2)])
  have other: "i \<noteq> slot ctx j" if "j < n" for j
    using slots_distinct [OF k(1,2) that] n by (simp add: i_def eq_commute)
  have events: "io_cqring_events (ctx'\<lparr>cqes := cs\<rparr>) = io_cqring_events ctx + 1" for cs
    by (simp add: io_cqring_events_def ctx'_def)
  have same: "slot (ctx'\<lparr>cqes := cs\<rparr>) = slot ctx" for cs by (simp add: slot_def ctx'_def fun_eq_iff)
  have queue: "ring_queue (ctx'\<lparr>cqes := (cqes ctx')[i := c]\<rparr>) = ring_queue ctx @ [c]" for c
  proof -
    have "cqes ctx' = cqes ctx" by (simp add: ctx'_def)
    then show ?thesis
      using other i unfolding ring_queue_def events same small n_def [symmetric] by (auto simp: nth_list_update simp flip: i_def)
  qed
  have inv: "ring_core (ctx'\<lparr>cqes := (cqes ctx')[i := c]\<rparr>)" for c
    using assms n small k unat_entries [OF k(1)] events [unfolded ctx'_def]
    by (simp add: ring_core_def n_def visible_def ctx'_def)
  show ?thesis
    using get queue inv n unat_entries [OF k(1)] k(2) by (intro free [OF get]) (simp_all add: ring_queue_def n_def ctx'_def)
qed

lemma consume_spec:
  assumes "ring_core ctx"
  shows "(case user_consume ctx of
      None \<Rightarrow> visible ctx = 0
    | Some (c, ctx') \<Rightarrow> ring_queue ctx = c # ring_queue ctx' \<and> ring_core ctx' \<and> 0 < visible ctx \<and> visible ctx' = visible ctx - 1
        \<and> ctx' = ctx\<lparr>cq_head := cq_head ctx + 1\<rparr>)"
proof (cases "cq_head ctx = cq_tail ctx")
  case True
  then show ?thesis by (simp add: user_consume_def visible_def)
next
  case False
  define ctx' where "ctx' = ctx\<lparr>cq_head := cq_head ctx + 1\<rparr>"
  have pred: "unat (x - (h + 1)) = unat (x - h) - 1" if "x \<noteq> h" for x h :: "32 word"
  proof -
    have eq: "x - (h + 1) = (x - h) - 1" by simp
    have "1 \<le> x - h" using that by (simp add: word_le_nat_alt Suc_le_eq unat_gt_0)
    then show ?thesis unfolding eq by (simp add: unat_sub)
  qed
  have vis: "0 < visible ctx" "visible ctx' = visible ctx - 1"
    using False pred [of "cq_tail ctx" "cq_head ctx"] by (auto simp: visible_def ctx'_def unat_gt_0)
  with assms have pos: "0 < unat (io_cqring_events ctx)" by (simp add: ring_core_def)
  then have ev: "unat (io_cqring_events ctx') = unat (io_cqring_events ctx) - 1"
    using pred [of "cached_cq_tail ctx" "cq_head ctx"] by (auto simp: io_cqring_events_def ctx'_def unat_gt_0)
  have slot: "slot ctx' i = slot ctx (Suc i)" for i by (simp add: slot_def ctx'_def ac_simps)
  have "ring_queue ctx = map (\<lambda>i. cqes ctx ! slot ctx i) (0 # map Suc [0..<unat (io_cqring_events ctx) - 1])"
  proof -
    have "[0..<unat (io_cqring_events ctx)] = 0 # map Suc [0..<unat (io_cqring_events ctx) - 1]"
      unfolding map_Suc_upt using pos by (subst upt_conv_Cons) simp_all
    then show ?thesis by (simp only: ring_queue_def)
  qed
  also have "\<dots> = cqes ctx ! unat (cq_head ctx AND (cq_entries ctx - 1)) # ring_queue ctx'"
    by (simp add: ring_queue_def ev slot comp_def) (simp add: slot_def ctx'_def)
  finally have "ring_queue ctx = cqes ctx ! unat (cq_head ctx AND (cq_entries ctx - 1)) # ring_queue ctx'" .
  moreover have "ring_core ctx'"
    using assms ev vis unfolding ring_core_def by (auto simp: ctx'_def)
  ultimately show ?thesis using False vis by (simp add: user_consume_def ctx'_def)
qed

lemma events_frame [simp]:
  "io_cqring_events (ctx\<lparr>cq_overflow_list := x\<rparr>) = io_cqring_events ctx" "io_cqring_events (ctx\<lparr>cq_overflow := n\<rparr>) = io_cqring_events ctx"
  "io_cqring_events (ctx\<lparr>cq_extra := n\<rparr>) = io_cqring_events ctx" "io_cqring_events (ctx\<lparr>check_cq_overflow := b\<rparr>) = io_cqring_events ctx"
  "io_cqring_events (ctx\<lparr>IORING_SQ_CQ_OVERFLOW := b\<rparr>) = io_cqring_events ctx" "io_cqring_events (ctx\<lparr>cq_tail := t\<rparr>) = io_cqring_events ctx"
  by (simp_all add: io_cqring_events_def)

lemma queue_frame [simp]:
  "ring_queue (ctx\<lparr>cq_overflow_list := x\<rparr>) = ring_queue ctx" "ring_queue (ctx\<lparr>cq_overflow := n\<rparr>) = ring_queue ctx"
  "ring_queue (ctx\<lparr>cq_extra := n\<rparr>) = ring_queue ctx" "ring_queue (ctx\<lparr>check_cq_overflow := b\<rparr>) = ring_queue ctx"
  "ring_queue (ctx\<lparr>IORING_SQ_CQ_OVERFLOW := b\<rparr>) = ring_queue ctx" "ring_queue (ctx\<lparr>cq_tail := t\<rparr>) = ring_queue ctx"
  by (simp_all add: ring_queue_def slot_def)

lemma core_frame [simp]:
  "ring_core (ctx\<lparr>cq_overflow_list := x\<rparr>) = ring_core ctx" "ring_core (ctx\<lparr>cq_overflow := n\<rparr>) = ring_core ctx"
  "ring_core (ctx\<lparr>cq_extra := n\<rparr>) = ring_core ctx" "ring_core (ctx\<lparr>check_cq_overflow := b\<rparr>) = ring_core ctx"
  "ring_core (ctx\<lparr>IORING_SQ_CQ_OVERFLOW := b\<rparr>) = ring_core ctx"
  by (simp_all add: ring_core_def visible_def)

text \<open>The kernel's view of the ring that a completion does not change.\<close>

definition same_ends :: "cq_ctx \<Rightarrow> cq_ctx \<Rightarrow> bool" where
  "same_ends ctx ctx' \<longleftrightarrow> cq_head ctx' = cq_head ctx \<and> cq_tail ctx' = cq_tail ctx \<and> cq_entries ctx' = cq_entries ctx"

lemma fill_spec:
  assumes "ring_inv ctx" "io_fill_cqe allocated c ctx = (ok, ctx')"
  shows "ring_inv ctx' \<and> same_ends ctx ctx' \<and>
    (if length (ring_queue ctx) < unat (cq_entries ctx)
     then ok \<and> ring_queue ctx' = ring_queue ctx @ [c] \<and> cq_overflow_list ctx' = cq_overflow_list ctx \<and> cq_overflow ctx' = cq_overflow ctx
     else ring_queue ctx' = ring_queue ctx \<and> ok = allocated
       \<and> (if allocated then cq_overflow_list ctx' = cq_overflow_list ctx @ [c] \<and> cq_overflow ctx' = cq_overflow ctx
          else cq_overflow_list ctx' = cq_overflow_list ctx \<and> cq_overflow ctx' = cq_overflow ctx + 1))"
proof -
  have core: "ring_core ctx" using assms(1) by (simp add: ring_inv_def)
  then show ?thesis
  proof (cases rule: get_cqe_cases)
    case full
    with assms show ?thesis
      by (auto simp: io_fill_cqe_def io_cqring_event_overflow_def io_account_cq_overflow_def ring_inv_def same_ends_def Let_def
          split: if_splits)
  next
    case (free i ctx1)
    then have "ctx' = ctx1\<lparr>cqes := (cqes ctx1)[i := c]\<rparr>" "ok" using assms(2) by (auto simp: io_fill_cqe_def)
    with free(2,4,5) assms(1) show ?thesis by (simp add: ring_inv_def same_ends_def) (simp add: free(3))
  qed
qed

lemma flush_loop_spec:
  "ring_core ctx \<Longrightarrow> flush_loop force os posted ctx = (posted', ctx') \<Longrightarrow>
    n = min (length os) (unat (cq_entries ctx) - length (ring_queue ctx)) \<Longrightarrow>
    ring_core ctx' \<and> same_ends ctx ctx' \<and> ring_queue ctx' = ring_queue ctx @ take n os
    \<and> cq_overflow_list ctx' = (if force then [] else drop n os)
    \<and> cq_overflow ctx' = (if force then cq_overflow ctx + word_of_nat (length os - n) else cq_overflow ctx)"
proof (induction os arbitrary: posted ctx n)
  case Nil
  then show ?case by (auto simp: same_ends_def)
next
  case (Cons c os)
  from Cons.prems(1) show ?case
  proof (cases rule: get_cqe_cases)
    case full
    show ?thesis
    proof (cases force)
      case False
      with Cons.prems full show ?thesis by (auto simp: same_ends_def)
    next
      case True
      let ?ctx = "io_account_cq_overflow ctx"
      have "ring_core ?ctx" "ring_queue ?ctx = ring_queue ctx" "cq_entries ?ctx = cq_entries ctx"
        using Cons.prems(1) by (simp_all add: io_account_cq_overflow_def)
      moreover have "flush_loop force os True ?ctx = (posted', ctx')" using Cons.prems(2) full True by simp
      ultimately show ?thesis
        using Cons.IH [of ?ctx True 0] Cons.prems(3) full True by (auto simp: same_ends_def io_account_cq_overflow_def)
    qed
  next
    case (free i ctx1)
    let ?ctx = "ctx1\<lparr>cqes := (cqes ctx1)[i := c]\<rparr>"
    have ctx: "cq_entries ?ctx = cq_entries ctx" "same_ends ctx ?ctx" "cq_overflow ?ctx = cq_overflow ctx"
      by (simp_all add: free(3) same_ends_def)
    have "flush_loop force os True ?ctx = (posted', ctx')" using Cons.prems(2) free(1) by simp
    from Cons.IH [OF free(5) this refl] ctx free(2,4) Cons.prems(3) show ?thesis
      by (auto simp: same_ends_def min_def Suc_le_eq take_Cons' drop_Cons')
  qed
qed

lemma commit_core: "ring_core ctx \<Longrightarrow> ring_core (io_commit_cqring ctx)"
  by (simp add: ring_core_def io_commit_cqring_def visible_def) (simp add: io_cqring_events_def)

lemma length_ring_queue: "length (ring_queue ctx) = unat (io_cqring_events ctx)"
  by (simp add: ring_queue_def)

lemma flush_spec:
  assumes "ring_inv ctx" "io_cqring_overflow_flush force ctx = (all_flushed, ctx')"
  defines "n \<equiv> min (length (cq_overflow_list ctx)) (unat (cq_entries ctx) - length (ring_queue ctx))"
  shows "ring_inv ctx' \<and> cq_head ctx' = cq_head ctx \<and> cq_entries ctx' = cq_entries ctx
    \<and> ring_queue ctx' = ring_queue ctx @ take n (cq_overflow_list ctx)
    \<and> cq_overflow_list ctx' = (if force then [] else drop n (cq_overflow_list ctx))
    \<and> cq_overflow ctx' = (if force then cq_overflow ctx + word_of_nat (length (cq_overflow_list ctx) - n) else cq_overflow ctx)"
proof (cases "\<not> force \<and> io_cqring_events ctx = cq_entries ctx")
  case True
  then have "n = 0" by (simp add: n_def length_ring_queue)
  with True assms(1,2) show ?thesis by (simp add: io_cqring_overflow_flush_def)
next
  case False
  obtain posted ctx1 where loop: "flush_loop force (cq_overflow_list ctx) False ctx = (posted, ctx1)" by force
  have flags: "check_cq_overflow ctx1 = check_cq_overflow ctx \<and> IORING_SQ_CQ_OVERFLOW ctx1 = IORING_SQ_CQ_OVERFLOW ctx"
  proof -
    have "flush_loop force os posted ctx = (posted', ctx') \<Longrightarrow> check_cq_overflow ctx' = check_cq_overflow ctx
      \<and> IORING_SQ_CQ_OVERFLOW ctx' = IORING_SQ_CQ_OVERFLOW ctx" for os posted posted' ctx ctx'
      by (induction os arbitrary: posted ctx)
        (fastforce simp: io_get_cqe_def io_account_cq_overflow_def Let_def split: if_splits)+
    with loop show ?thesis by blast
  qed
  have core: "ring_core ctx" using assms(1) by (simp add: ring_inv_def)
  note spec = flush_loop_spec [OF core loop, OF n_def [THEN meta_eq_to_obj_eq]]
  define ctx2 where "ctx2 = (if cq_overflow_list ctx1 = [] then ctx1\<lparr>check_cq_overflow := False, IORING_SQ_CQ_OVERFLOW := False\<rparr> else ctx1)"
  have ctx': "ctx' = (if posted then io_commit_cqring ctx2 else ctx2)"
    using assms(2) False loop by (auto simp: io_cqring_overflow_flush_def ctx2_def Let_def)
  have "cq_overflow_list ctx1 \<noteq> [] \<Longrightarrow> cq_overflow_list ctx \<noteq> []" using spec by (auto split: if_splits)
  then have "ring_inv ctx2" using spec assms(1) flags by (auto simp: ctx2_def ring_inv_def)
  then have "ring_inv ctx'"
    using commit_core [of ctx2] by (auto simp: ctx' ring_inv_def) (simp_all add: io_commit_cqring_def)
  with spec show ?thesis by (auto simp: ctx' ctx2_def io_commit_cqring_def same_ends_def)
qed

section \<open>Runs of the kernel and the application\<close>

record cq_run =
  ring :: cq_ctx
  filled :: "io_uring_cqe list"
  consumed :: "io_uring_cqe list"
  overflowed :: bool

definition ring_full :: "cq_ctx \<Rightarrow> bool" where
  "ring_full ctx \<longleftrightarrow> io_cqring_events ctx = cq_entries ctx"

inductive cq_step :: "cq_run \<Rightarrow> cq_run \<Rightarrow> bool" where
  fill: "io_fill_cqe allocated c (ring s) = (ok, ctx) \<Longrightarrow>
    cq_step s (s\<lparr>ring := ctx, filled := filled s @ [c], overflowed := overflowed s \<or> ring_full (ring s)\<rparr>)"
| fill_aux: "io_fill_cqe_aux allocated c (ring s) = (ok, ctx) \<Longrightarrow>
    cq_step s (s\<lparr>ring := ctx, filled := filled s @ [c], overflowed := overflowed s \<or> ring_full (ring s)\<rparr>)"
| commit: "cq_step s (s\<lparr>ring := io_commit_cqring (ring s)\<rparr>)"
| flush: "io_cqring_overflow_flush force (ring s) = (all_flushed, ctx) \<Longrightarrow> cq_step s (s\<lparr>ring := ctx\<rparr>)"
| consume: "user_consume (ring s) = Some (c, ctx) \<Longrightarrow> cq_step s (s\<lparr>ring := ctx, consumed := consumed s @ [c]\<rparr>)"

definition new_ring :: "nat \<Rightarrow> cq_ctx" where
  "new_ring k = \<lparr>cq_head = 0, cq_tail = 0, cached_cq_tail = 0, cq_entries = 2 ^ k,
     cqes = replicate (2 ^ k) \<lparr>cqe_user_data = 0, cqe_res = 0, cqe_flags = 0\<rparr>, cq_overflow_list = [], cq_overflow = 0,
     cq_extra = 0, check_cq_overflow = False, IORING_SQ_CQ_OVERFLOW = False\<rparr>"

inductive cq_reachable :: "cq_run \<Rightarrow> bool" where
  start: "k < 32 \<Longrightarrow> cq_reachable \<lparr>ring = new_ring k, filled = [], consumed = [], overflowed = False\<rparr>"
| step: "cq_reachable s \<Longrightarrow> cq_step s s' \<Longrightarrow> cq_reachable s'"

definition cq_inv :: "cq_run \<Rightarrow> bool" where
  "cq_inv s \<longleftrightarrow> ring_inv (ring s)
     \<and> (\<exists>dropped. mset (filled s) = mset (consumed s) + mset (ring_queue (ring s)) + mset (cq_overflow_list (ring s)) + mset dropped
          \<and> cq_overflow (ring s) = word_of_nat (length dropped))
     \<and> (\<not> overflowed s \<longrightarrow> filled s = consumed s @ ring_queue (ring s) \<and> cq_overflow_list (ring s) = [] \<and> cq_overflow (ring s) = 0)"

lemma not_full: "ring_core ctx \<Longrightarrow> \<not> ring_full ctx \<longleftrightarrow> length (ring_queue ctx) < unat (cq_entries ctx)"
  by (auto simp: ring_full_def length_ring_queue ring_core_def word_unat_eq_iff)

lemma cq_inv_fill:
  assumes "cq_inv s" "io_fill_cqe allocated c ctx = (ok, ctx')"
    "ctx = ring s \<or> ctx = (ring s)\<lparr>cq_extra := e\<rparr>"
  shows "cq_inv (s\<lparr>ring := ctx', filled := filled s @ [c], overflowed := overflowed s \<or> ring_full (ring s)\<rparr>)"
proof -
  have inv: "ring_inv (ring s)" using assms(1) by (simp add: cq_inv_def)
  from assms(1) obtain dropped where d: "mset (filled s) =
      mset (consumed s) + mset (ring_queue (ring s)) + mset (cq_overflow_list (ring s)) + mset dropped"
    "cq_overflow (ring s) = word_of_nat (length dropped)" by (auto simp: cq_inv_def)
  have ctx: "ring_inv ctx" "ring_queue ctx = ring_queue (ring s)" "cq_overflow_list ctx = cq_overflow_list (ring s)"
    "cq_overflow ctx = cq_overflow (ring s)" "cq_entries ctx = cq_entries (ring s)"
    using inv assms(3) by (auto simp: ring_inv_def)
  note spec = fill_spec [OF ctx(1) assms(2), unfolded ctx(2-5)]
  have full: "ring_full (ring s) \<longleftrightarrow> \<not> length (ring_queue (ring s)) < unat (cq_entries (ring s))"
    using not_full inv by (auto simp: ring_inv_def)
  show ?thesis
  proof (cases "ring_full (ring s) \<and> \<not> allocated")
    case True
    with spec full d show ?thesis unfolding cq_inv_def by (auto intro!: exI [of _ "c # dropped"])
  next
    case False
    with spec full d assms(1) show ?thesis unfolding cq_inv_def by (auto intro!: exI [of _ dropped] split: if_splits)
  qed
qed

lemma cq_inv_flush:
  assumes "cq_inv s" "io_cqring_overflow_flush force (ring s) = (all_flushed, ctx)"
  shows "cq_inv (s\<lparr>ring := ctx\<rparr>)"
proof -
  let ?ov = "cq_overflow_list (ring s)"
  define n where "n = min (length ?ov) (unat (cq_entries (ring s)) - length (ring_queue (ring s)))"
  from assms(1) obtain dropped where d: "mset (filled s) =
      mset (consumed s) + mset (ring_queue (ring s)) + mset ?ov + mset dropped"
    "cq_overflow (ring s) = word_of_nat (length dropped)" by (auto simp: cq_inv_def)
  have inv: "ring_inv (ring s)" using assms(1) by (simp add: cq_inv_def)
  note spec = flush_spec [OF inv assms(2), folded n_def]
  have "mset ?ov = mset (take n ?ov) + mset (drop n ?ov)" by (metis append_take_drop_id mset_append)
  with spec d assms(1) show ?thesis
    unfolding cq_inv_def
    by (auto intro!: exI [of _ "if force then drop n ?ov @ dropped else dropped"] simp: ac_simps)
qed

lemma cq_inv_step:
  assumes "cq_inv s" "cq_step s s'"
  shows "cq_inv s'"
  using assms(2)
proof cases
  case (fill allocated c ok ctx)
  with cq_inv_fill [OF assms(1) fill(2)] show ?thesis by simp
next
  case (fill_aux allocated c ok ctx)
  from cq_inv_fill [OF assms(1) fill_aux(2) [unfolded io_fill_cqe_aux_def] disjI2 [OF refl]] fill_aux(1)
  show ?thesis by simp
next
  case commit
  have "ring_inv (io_commit_cqring (ring s))"
    using assms(1) commit_core [of "ring s"] by (auto simp: cq_inv_def ring_inv_def) (simp_all add: io_commit_cqring_def)
  with assms(1) commit show ?thesis by (simp add: cq_inv_def) (simp add: io_commit_cqring_def)
next
  case (flush force all_flushed ctx)
  with cq_inv_flush [OF assms(1)] show ?thesis by simp
next
  case (consume c ctx)
  have inv: "ring_inv (ring s)" using assms(1) by (simp add: cq_inv_def)
  with consume consume_spec [of "ring s"] have spec: "ring_queue (ring s) = c # ring_queue ctx" "ring_core ctx"
    "ctx = (ring s)\<lparr>cq_head := cq_head (ring s) + 1\<rparr>" by (auto simp: ring_inv_def)
  have "cq_overflow_list ctx = cq_overflow_list (ring s)" "cq_overflow ctx = cq_overflow (ring s)" by (simp_all add: spec(3))
  moreover have "ring_inv ctx" using inv spec(2) by (auto simp: ring_inv_def spec(3))
  ultimately show ?thesis using assms(1) spec(1) consume by (auto simp: cq_inv_def)
qed

lemma cq_inv_reachable: "cq_reachable s \<Longrightarrow> cq_inv s"
proof (induction rule: cq_reachable.induct)
  case (start k)
  then show ?case by (auto simp: cq_inv_def ring_inv_def ring_core_def new_ring_def io_cqring_events_def visible_def ring_queue_def)
qed (rule cq_inv_step)

text \<open>
  C10. Completions are neither lost nor duplicated. In every interleaving of the kernel, which posts
  completions, publishes the tail and flushes the backlog, with the application, which consumes
  entries, and with counters that wrap at 32 bits: what was posted is, counted with
  multiplicity, what was consumed, what is in the ring, what is in the overflow list, and as many
  completions as the overflow counter says. The application sees only entries that were posted and
  that are not overwritten; the overflow flag is set exactly when there is a backlog; and as
  long as the ring never was full the order of the application is the order of the posts.
\<close>

theorem completions_conserved:
  assumes "cq_reachable s"
  shows "(\<exists>dropped. mset (filled s) = mset (consumed s) + mset (ring_queue (ring s)) + mset (cq_overflow_list (ring s)) + mset dropped
        \<and> cq_overflow (ring s) = word_of_nat (length dropped))
    \<and> visible (ring s) \<le> length (ring_queue (ring s)) \<and> length (ring_queue (ring s)) \<le> unat (cq_entries (ring s))
    \<and> (IORING_SQ_CQ_OVERFLOW (ring s) \<longleftrightarrow> cq_overflow_list (ring s) \<noteq> [])
    \<and> (\<not> overflowed s \<longrightarrow> filled s = consumed s @ ring_queue (ring s))
    \<and> (\<forall>c ctx. user_consume (ring s) = Some (c, ctx) \<longrightarrow> ring_queue (ring s) = c # ring_queue ctx)"
proof -
  have inv: "cq_inv s" by (rule cq_inv_reachable [OF assms])
  then have core: "ring_core (ring s)" by (simp add: cq_inv_def ring_inv_def)
  have "ring_queue (ring s) = c # ring_queue ctx" if "user_consume (ring s) = Some (c, ctx)" for c ctx
    using consume_spec [OF core] that by simp
  with inv core show ?thesis by (auto simp: cq_inv_def ring_inv_def ring_core_def length_ring_queue)
qed

section \<open>Witness\<close>

text \<open>A ring of one entry: two completions are posted, one waits; the first is consumed, the backlog is flushed.\<close>

definition ex_cqe :: "64 word \<Rightarrow> io_uring_cqe" where
  "ex_cqe u = \<lparr>cqe_user_data = u, cqe_res = 0, cqe_flags = 0\<rparr>"

definition cq_run0 :: cq_run where
  "cq_run0 = \<lparr>ring = new_ring 0, filled = [], consumed = [], overflowed = False\<rparr>"

definition run_fill :: "64 word \<Rightarrow> cq_run \<Rightarrow> cq_run" where
  "run_fill u s = s\<lparr>ring := snd (io_fill_cqe True (ex_cqe u) (ring s)), filled := filled s @ [ex_cqe u],
     overflowed := overflowed s \<or> ring_full (ring s)\<rparr>"

definition run_consume :: "cq_run \<Rightarrow> cq_run" where
  "run_consume s = (case user_consume (ring s) of None \<Rightarrow> s
     | Some (c, ctx) \<Rightarrow> s\<lparr>ring := ctx, consumed := consumed s @ [c]\<rparr>)"

definition run_commit :: "cq_run \<Rightarrow> cq_run" where
  "run_commit s = s\<lparr>ring := io_commit_cqring (ring s)\<rparr>"

definition ex_cq_run :: cq_run where
  "ex_cq_run = run_consume (run_commit (run_fill 8 (run_fill 7 cq_run0)))"

lemma run_reachable:
  "cq_reachable s \<Longrightarrow> cq_reachable (run_fill u s)" "cq_reachable s \<Longrightarrow> cq_reachable (run_commit s)"
  "cq_reachable s \<Longrightarrow> cq_reachable (run_consume s)"
proof -
  assume s: "cq_reachable s"
  show "cq_reachable (run_fill u s)"
    unfolding run_fill_def by (rule cq_reachable.step [OF s cq_step.fill]) (rule prod.collapse [symmetric])
  show "cq_reachable (run_commit s)" unfolding run_commit_def by (rule cq_reachable.step [OF s cq_step.commit])
  show "cq_reachable (run_consume s)"
    using s by (auto simp: run_consume_def split: option.split intro: cq_reachable.step [OF s cq_step.consume])
qed

lemma ex_cq_reachable: "cq_reachable ex_cq_run"
  unfolding ex_cq_run_def cq_run0_def by (intro run_reachable cq_reachable.start) simp

theorem completions_conserved_witness:
  "cq_overflow_list (ring ex_cq_run) = [ex_cqe 8] \<and> consumed ex_cq_run = [ex_cqe 7] \<and> IORING_SQ_CQ_OVERFLOW (ring ex_cq_run)"
proof -
  have "cq_overflow_list (ring ex_cq_run) = [ex_cqe 8]" "consumed ex_cq_run = [ex_cqe 7]" by code_simp+
  with completions_conserved [OF ex_cq_reachable] show ?thesis by simp
qed

end
