(* ===== verification/Uring_Timeouts.thy ===== *)
theory Uring_Timeouts
  imports Uring_Cq
begin

text \<open>
  Timeouts of \<^verbatim>\<open>examples/io_uring.c\<close> that complete after a number of other completions. The list of
  timeouts is sorted by the sequence number at which they complete, timeouts without a number come
  last, and all sequence numbers are 32 bits wide and compared relative to the last flush. The
  completions go to the ring of \<open>Uring_Cq\<close>.
\<close>

section \<open>Data and operations\<close>

type_synonym u32 = "32 word"

record io_timeout_req =
  to_id :: nat
  to_user_data :: "64 word"
  to_cqe_skip :: bool
  to_off :: u32
  target_seq :: u32

record io_defer_entry =
  de_req :: nat
  de_io_drain :: bool
  de_seq :: u32

text \<open>\<open>task_queued\<close> are the requests that are queued to run, \<open>defer_list\<close> those that wait.\<close>

record timeout_ctx =
  tm_cq :: cq_ctx
  cq_timeouts :: u32
  cq_last_tm_flush :: u32
  timeout_list :: "io_timeout_req list"
  off_timeout_used :: bool
  drain_active :: bool
  defer_list :: "io_defer_entry list"
  task_queued :: "nat list"

text \<open>The completion of a request.\<close>

definition timeout_cqe :: "int \<Rightarrow> io_timeout_req \<Rightarrow> io_uring_cqe" where
  "timeout_cqe status r = \<lparr>cqe_user_data = to_user_data r, cqe_res = status, cqe_flags = 0\<rparr>"

definition ENOENT :: int where "ENOENT = 2"
definition ENOMEM_err :: int where "ENOMEM_err = 12"
definition EALREADY :: int where "EALREADY = 114"
definition ECANCELED :: int where "ECANCELED = 125"

definition io_is_timeout_noseq :: "io_timeout_req \<Rightarrow> bool" where
  "io_is_timeout_noseq r \<longleftrightarrow> to_off r = 0"

text \<open>
  \<open>cancels r\<close> says that the timer of \<open>r\<close> can be cancelled: its callback is not running. A status
  other than 0 marks the request as failed, which clears the flag that skips its completion.
  \<open>allocated\<close> is the success of the allocation of an overflow entry.
\<close>

definition io_kill_timeout ::
  "(io_timeout_req \<Rightarrow> bool) \<Rightarrow> bool \<Rightarrow> io_timeout_req \<Rightarrow> int \<Rightarrow> timeout_ctx \<Rightarrow> timeout_ctx" where
  "io_kill_timeout cancels allocated r status ctx =
     (if cancels r then
        let cqe_skip = (if status \<noteq> 0 then False else to_cqe_skip r) in
        ctx\<lparr>cq_timeouts := cq_timeouts ctx + 1, timeout_list := remove1 r (timeout_list ctx),
          tm_cq := io_fill_cqe_req allocated cqe_skip (timeout_cqe status r) (tm_cq ctx)\<rparr>
      else ctx)"

primrec flush_timeouts_loop :: "(io_timeout_req \<Rightarrow> bool) \<Rightarrow> (io_timeout_req \<Rightarrow> bool) \<Rightarrow> u32 \<Rightarrow> io_timeout_req list \<Rightarrow> timeout_ctx \<Rightarrow> timeout_ctx" where
  "flush_timeouts_loop cancels allocated sq [] ctx = ctx"
| "flush_timeouts_loop cancels allocated sq (r # rs) ctx =
     (if io_is_timeout_noseq r then ctx
      else
        let events_needed = target_seq r - cq_last_tm_flush ctx;
            events_got = sq - cq_last_tm_flush ctx in
        if events_got < events_needed then ctx
        else flush_timeouts_loop cancels allocated sq rs (io_kill_timeout cancels (allocated r) r 0 ctx))"

definition io_flush_timeouts :: "(io_timeout_req \<Rightarrow> bool) \<Rightarrow> (io_timeout_req \<Rightarrow> bool) \<Rightarrow> timeout_ctx \<Rightarrow> timeout_ctx" where
  "io_flush_timeouts cancels allocated ctx =
     (let sq = cached_cq_tail (tm_cq ctx) - cq_timeouts ctx in
      (flush_timeouts_loop cancels allocated sq (timeout_list ctx) ctx)\<lparr>cq_last_tm_flush := sq\<rparr>)"

text \<open>Requests that drain the ring run when everything before them has completed.\<close>

primrec queue_deferred_loop :: "io_defer_entry list \<Rightarrow> timeout_ctx \<Rightarrow> timeout_ctx" where
  "queue_deferred_loop [] ctx = ctx"
| "queue_deferred_loop (de # des) ctx =
     (if req_need_defer (de_io_drain de) (de_seq de) (tm_cq ctx) then ctx
      else queue_deferred_loop des (ctx\<lparr>defer_list := des, task_queued := task_queued ctx @ [de_req de]\<rparr>))"

definition io_queue_deferred :: "timeout_ctx \<Rightarrow> timeout_ctx" where
  "io_queue_deferred ctx = queue_deferred_loop (defer_list ctx) ctx"

definition io_commit_cqring_flush ::
  "(io_timeout_req \<Rightarrow> bool) \<Rightarrow> (io_timeout_req \<Rightarrow> bool) \<Rightarrow> timeout_ctx \<Rightarrow> timeout_ctx" where
  "io_commit_cqring_flush cancels allocated ctx =
     (if off_timeout_used ctx \<or> drain_active ctx then
        let ctx = (if off_timeout_used ctx then io_flush_timeouts cancels allocated ctx else ctx);
            ctx = (if drain_active ctx then io_queue_deferred ctx else ctx) in
        ctx\<lparr>tm_cq := io_commit_cqring (tm_cq ctx)\<rparr>
      else ctx)"

text \<open>The part of \<open>io_timeout_prep\<close> that changes the context.\<close>

definition prep_timeout_off :: "u32 \<Rightarrow> timeout_ctx \<Rightarrow> timeout_ctx" where
  "prep_timeout_off off ctx = (if off \<noteq> 0 \<and> \<not> off_timeout_used ctx then ctx\<lparr>off_timeout_used := True\<rparr> else ctx)"

text \<open>The search from the end of the list, on the reversed list.\<close>

primrec insert_prev :: "io_timeout_req \<Rightarrow> u32 \<Rightarrow> io_timeout_req list \<Rightarrow> io_timeout_req list" where
  "insert_prev r tail [] = [r]"
| "insert_prev r tail (nxt # rest) =
     (if io_is_timeout_noseq nxt then nxt # insert_prev r tail rest
      else if to_off r \<ge> target_seq nxt - tail then r # nxt # rest
      else nxt # insert_prev r tail rest)"

definition io_timeout :: "io_timeout_req \<Rightarrow> timeout_ctx \<Rightarrow> timeout_ctx" where
  "io_timeout r ctx =
     (if io_is_timeout_noseq r then ctx\<lparr>timeout_list := timeout_list ctx @ [r]\<rparr>
      else
        let tail = cached_cq_tail (tm_cq ctx) - cq_timeouts ctx;
            r = r\<lparr>target_seq := tail + to_off r\<rparr> in
        ctx\<lparr>cq_last_tm_flush := tail, timeout_list := rev (insert_prev r tail (rev (timeout_list ctx)))\<rparr>)"

definition io_timeout_extract ::
  "(io_timeout_req \<Rightarrow> bool) \<Rightarrow> 64 word \<Rightarrow> timeout_ctx \<Rightarrow> (int + io_timeout_req) \<times> timeout_ctx" where
  "io_timeout_extract cancels user_data ctx =
     (case List.find (\<lambda>r. user_data = to_user_data r) (timeout_list ctx) of
        None \<Rightarrow> (Inl (- ENOENT), ctx)
      | Some r \<Rightarrow>
          if \<not> cancels r then (Inl (- EALREADY), ctx)
          else (Inr r, ctx\<lparr>timeout_list := remove1 r (timeout_list ctx)\<rparr>))"

text \<open>The request that is queued to fail is the second result.\<close>

definition io_timeout_cancel ::
  "(io_timeout_req \<Rightarrow> bool) \<Rightarrow> 64 word \<Rightarrow> timeout_ctx \<Rightarrow> int \<times> (io_timeout_req \<times> int) option \<times> timeout_ctx" where
  "io_timeout_cancel cancels user_data ctx = (case io_timeout_extract cancels user_data ctx of
       (Inl err, ctx) \<Rightarrow> (err, None, ctx)
     | (Inr r, ctx) \<Rightarrow> (0, Some (r, - ECANCELED), ctx))"

definition io_timeout_update ::
  "(io_timeout_req \<Rightarrow> bool) \<Rightarrow> 64 word \<Rightarrow> timeout_ctx \<Rightarrow> int \<times> timeout_ctx" where
  "io_timeout_update cancels user_data ctx = (case io_timeout_extract cancels user_data ctx of
       (Inl err, ctx) \<Rightarrow> (err, ctx)
     | (Inr r, ctx) \<Rightarrow> (0, ctx\<lparr>timeout_list := timeout_list ctx @ [r\<lparr>to_off := 0\<rparr>]\<rparr>))"

text \<open>The callback of the timer; the completion is posted by queued work later.\<close>

definition io_timeout_fn :: "io_timeout_req \<Rightarrow> timeout_ctx \<Rightarrow> timeout_ctx" where
  "io_timeout_fn r ctx = ctx\<lparr>timeout_list := remove1 r (timeout_list ctx), cq_timeouts := cq_timeouts ctx + 1\<rparr>"

text \<open>
  A request that drains. \<open>prep\<close> is the result of its preparation, \<open>alloc\<close> the success of the
  allocation; the first result is the error with which the request completes. Nothing
  else runs between the two checks here.
\<close>

definition io_drain_req :: "int \<Rightarrow> bool \<Rightarrow> io_defer_entry \<Rightarrow> timeout_ctx \<Rightarrow> int option \<times> timeout_ctx" where
  "io_drain_req prep alloc de ctx =
     (if \<not> req_need_defer (de_io_drain de) (de_seq de) (tm_cq ctx) \<and> defer_list ctx = [] then
        (None, ctx\<lparr>drain_active := False, task_queued := task_queued ctx @ [de_req de]\<rparr>)
      else if prep \<noteq> 0 then (Some prep, ctx)
      else if \<not> alloc then (Some (- ENOMEM_err), ctx)
      else (None, ctx\<lparr>defer_list := defer_list ctx @ [de]\<rparr>))"

text \<open>Any other completion.\<close>

definition post_cqe :: "bool \<Rightarrow> io_uring_cqe \<Rightarrow> timeout_ctx \<Rightarrow> timeout_ctx" where
  "post_cqe allocated cqe ctx = ctx\<lparr>tm_cq := snd (io_fill_cqe allocated cqe (tm_cq ctx))\<rparr>"

section \<open>The order of the list\<close>

definition seq_now :: "timeout_ctx \<Rightarrow> u32" where
  "seq_now ctx = cached_cq_tail (tm_cq ctx) - cq_timeouts ctx"

text \<open>
  \<open>N\<close> is the number of completions other than timeouts so far, \<open>L\<close> that number at the last flush and
  \<open>sub r\<close> at the submission of \<open>r\<close>, all unbounded; \<open>due_at\<close> is when \<open>r\<close> completes.
\<close>

definition due_at :: "(nat \<Rightarrow> nat) \<Rightarrow> io_timeout_req \<Rightarrow> nat" where
  "due_at sub r = sub (to_id r) + unat (to_off r)"

text \<open>A pending timeout: its identity, its user data and the count at which it completes.\<close>

type_synonym pending = "nat \<times> 64 word \<times> nat option"

definition due_opt :: "(nat \<Rightarrow> nat) \<Rightarrow> io_timeout_req \<Rightarrow> nat option" where
  "due_opt sub r = (if io_is_timeout_noseq r then None else Some (due_at sub r))"

definition entry :: "(nat \<Rightarrow> nat) \<Rightarrow> io_timeout_req \<Rightarrow> pending" where
  "entry sub r = (to_id r, to_user_data r, due_opt sub r)"

definition timeouts_rel :: "nat \<Rightarrow> nat \<Rightarrow> (nat \<Rightarrow> nat) \<Rightarrow> timeout_ctx \<Rightarrow> bool" where
  "timeouts_rel N L sub ctx \<longleftrightarrow> seq_now ctx = word_of_nat N \<and> cq_last_tm_flush ctx = word_of_nat L
     \<and> L \<le> N \<and> N < L + 2 ^ 32 \<and> ring_inv (tm_cq ctx) \<and> (\<forall>r \<in> set (timeout_list ctx). \<not> to_cqe_skip r) \<and> distinct (map to_id (timeout_list ctx))
     \<and> (\<exists>xs ys. timeout_list ctx = xs @ ys \<and> (\<forall>r \<in> set xs. \<not> io_is_timeout_noseq r) \<and> (\<forall>r \<in> set ys. io_is_timeout_noseq r)
          \<and> sorted (map (due_at sub) xs)
          \<and> (\<forall>r \<in> set xs. target_seq r = word_of_nat (due_at sub r) \<and> L \<le> due_at sub r \<and> due_at sub r < L + 2 ^ 32))"

lemma timeouts_relI:
  assumes "seq_now ctx = word_of_nat N" "cq_last_tm_flush ctx = word_of_nat L" "L \<le> N" "N < L + 2 ^ 32" "ring_inv (tm_cq ctx)" "\<forall>r \<in> set (timeout_list ctx). \<not> to_cqe_skip r"
    "distinct (map to_id (timeout_list ctx))" "timeout_list ctx = xs @ ys" "\<forall>r \<in> set xs. \<not> io_is_timeout_noseq r"
    "\<forall>r \<in> set ys. io_is_timeout_noseq r" "sorted (map (due_at sub) xs)"
    "\<forall>r \<in> set xs. target_seq r = word_of_nat (due_at sub r) \<and> L \<le> due_at sub r \<and> due_at sub r < L + 2 ^ 32"
  shows "timeouts_rel N L sub ctx"
  using assms unfolding timeouts_rel_def by blast

lemma word_distance:
  assumes "L \<le> n" "n < L + 2 ^ 32"
  shows "unat (word_of_nat n - word_of_nat L :: u32) = n - L"
proof -
  have eq: "(word_of_nat n - word_of_nat L :: u32) = word_of_nat (n - L)" using assms(1) by simp
  show ?thesis unfolding eq unsigned_of_nat using assms by (simp add: take_bit_nat_eq_self)
qed

text \<open>The room in the ring; a completion that finds room is queued and moves the sequence on.\<close>

definition cq_room :: "cq_ctx \<Rightarrow> nat" where
  "cq_room cq = unat (cq_entries cq) - length (ring_queue cq)"

lemma fill_room:
  assumes "ring_inv cq" "0 < cq_room cq"
  shows "ring_inv (snd (io_fill_cqe allocated c cq)) \<and> ring_queue (snd (io_fill_cqe allocated c cq)) = ring_queue cq @ [c]
    \<and> cached_cq_tail (snd (io_fill_cqe allocated c cq)) = cached_cq_tail cq + 1
    \<and> cq_room (snd (io_fill_cqe allocated c cq)) = cq_room cq - 1"
proof -
  obtain ok cq' where fill: "io_fill_cqe allocated c cq = (ok, cq')" by force
  have "io_cqring_events cq \<noteq> cq_entries cq" using assms(2) by (auto simp: cq_room_def length_ring_queue)
  then have "cached_cq_tail cq' = cached_cq_tail cq + 1"
    using fill by (auto simp: io_fill_cqe_def io_get_cqe_def Let_def)
  with fill_spec [OF assms(1) fill] assms(2) fill show ?thesis by (auto simp: cq_room_def same_ends_def)
qed

text \<open>The loop over the sequenced part kills the requests that are due, in order.\<close>

lemma flush_loop_due:
  assumes "L \<le> N" "N < L + 2 ^ 32" "\<forall>r. cancels r"
  shows "ring_inv (tm_cq ctx) \<Longrightarrow> length (filter (\<lambda>r. due_at sub r \<le> N) xs) \<le> cq_room (tm_cq ctx) \<Longrightarrow>
    cq_last_tm_flush ctx = word_of_nat L \<Longrightarrow> timeout_list ctx = xs @ ys \<Longrightarrow>
    \<forall>r \<in> set xs. \<not> to_cqe_skip r \<and> \<not> io_is_timeout_noseq r \<Longrightarrow> \<forall>r \<in> set ys. io_is_timeout_noseq r \<Longrightarrow>
    sorted (map (due_at sub) xs) \<Longrightarrow>
    \<forall>r \<in> set xs. target_seq r = word_of_nat (due_at sub r) \<and> L \<le> due_at sub r \<and> due_at sub r < L + 2 ^ 32 \<Longrightarrow>
    ctx' = flush_timeouts_loop cancels allocated (word_of_nat N) (xs @ ys) ctx \<Longrightarrow>
    timeout_list ctx' = filter (\<lambda>r. N < due_at sub r) xs @ ys
    \<and> ring_queue (tm_cq ctx') = ring_queue (tm_cq ctx) @ map (timeout_cqe 0) (filter (\<lambda>r. due_at sub r \<le> N) xs)
    \<and> seq_now ctx' = seq_now ctx \<and> ring_inv (tm_cq ctx')"
proof (induction xs arbitrary: ctx)
  case Nil
  then show ?case by (cases ys) auto
next
  case (Cons r xs)
  from Cons.prems have r: "\<not> io_is_timeout_noseq r" "target_seq r = word_of_nat (due_at sub r)" "L \<le> due_at sub r"
    "due_at sub r < L + 2 ^ 32" "\<not> to_cqe_skip r" by simp_all
  have cmp: "word_of_nat N - word_of_nat L < (target_seq r - word_of_nat L :: u32) \<longleftrightarrow> N < due_at sub r"
    using word_distance [OF assms(1,2)] word_distance [OF r(3,4)] r(2-3) assms(1)
    by (simp add: word_less_nat_alt) linarith
  show ?case
  proof (cases "N < due_at sub r")
    case True
    with Cons.prems(7) have "\<forall>x \<in> set xs. N < due_at sub x" by (auto simp: less_le_trans)
    then have "filter (\<lambda>r. N < due_at sub r) xs = xs" "filter (\<lambda>r. due_at sub r \<le> N) xs = []"
      by (auto simp: filter_empty_conv intro: filter_True)
    with True Cons.prems r cmp show ?thesis by simp
  next
    case False
    let ?ctx = "io_kill_timeout cancels (allocated r) r 0 ctx"
    have "0 < cq_room (tm_cq ctx)" using Cons.prems(2) False by simp
    from fill_room [OF Cons.prems(1) this]
    have kill: "ring_inv (tm_cq ?ctx)" "cq_room (tm_cq ?ctx) = cq_room (tm_cq ctx) - 1"
      "cq_last_tm_flush ?ctx = word_of_nat L" "timeout_list ?ctx = xs @ ys"
      "ring_queue (tm_cq ?ctx) = ring_queue (tm_cq ctx) @ [timeout_cqe 0 r]" "seq_now ?ctx = seq_now ctx"
      using Cons.prems(3,4) assms(3) r(5) by (simp_all add: io_kill_timeout_def io_fill_cqe_req_def seq_now_def)
    have room: "length (filter (\<lambda>r. due_at sub r \<le> N) xs) \<le> cq_room (tm_cq ?ctx)" using Cons.prems(2) False kill(2) by simp
    have "ctx' = flush_timeouts_loop cancels allocated (word_of_nat N) (xs @ ys) ?ctx"
      using Cons.prems(3,9) False r(1) cmp by simp
    from Cons.IH [OF kill(1) room kill(3,4) _ _ _ _ this] Cons.prems(5-8) kill(5,6) False show ?thesis by simp
  qed
qed

lemma flush_timeouts_rel:
  assumes "timeouts_rel N L sub ctx" "\<forall>r. cancels r"
  defines "due \<equiv> \<lambda>r. \<not> io_is_timeout_noseq r \<and> due_at sub r \<le> N"
  assumes room: "length (filter due (timeout_list ctx)) \<le> cq_room (tm_cq ctx)"
    and ctx'_def: "ctx' = io_flush_timeouts cancels allocated ctx"
  shows "ring_queue (tm_cq ctx') = ring_queue (tm_cq ctx) @ map (timeout_cqe 0) (filter due (timeout_list ctx))
    \<and> timeout_list ctx' = filter (\<lambda>r. \<not> due r) (timeout_list ctx)
    \<and> timeouts_rel N N sub ctx'"
proof -
  from assms(1) obtain xs ys where rel: "seq_now ctx = word_of_nat N" "cq_last_tm_flush ctx = word_of_nat L" "L \<le> N"
    "N < L + 2 ^ 32" "ring_inv (tm_cq ctx)" "distinct (map to_id (timeout_list ctx))" "\<forall>r \<in> set (timeout_list ctx). \<not> to_cqe_skip r"
    and xs: "timeout_list ctx = xs @ ys" "\<forall>r \<in> set xs. \<not> io_is_timeout_noseq r" "\<forall>r \<in> set ys. io_is_timeout_noseq r"
      "sorted (map (due_at sub) xs)"
      "\<forall>r \<in> set xs. target_seq r = word_of_nat (due_at sub r) \<and> L \<le> due_at sub r \<and> due_at sub r < L + 2 ^ 32"
    unfolding timeouts_rel_def by blast
  define ctx1 where "ctx1 = flush_timeouts_loop cancels allocated (word_of_nat N) (xs @ ys) ctx"
  have flush: "ctx' = ctx1\<lparr>cq_last_tm_flush := word_of_nat N\<rparr>"
    using rel(1) by (simp add: ctx'_def io_flush_timeouts_def Let_def ctx1_def xs(1) flip: seq_now_def)
  let ?rest = "filter (\<lambda>r. N < due_at sub r) xs"
  have split: "filter due (timeout_list ctx) = filter (\<lambda>r. due_at sub r \<le> N) xs"
    "filter (\<lambda>r. \<not> due r) (timeout_list ctx) = ?rest @ ys"
    using xs(1-3) by (auto simp: due_def filter_empty_conv not_le intro!: filter_cong [OF refl] arg_cong2 [of _ _ _ _ append])
  have skip: "\<forall>r \<in> set xs. \<not> to_cqe_skip r \<and> \<not> io_is_timeout_noseq r" using rel(7) xs(1,2) by simp
  note loop = flush_loop_due [OF rel(3,4) assms(2) rel(5) room [unfolded split] rel(2) xs(1) skip xs(3-5) ctx1_def]
  have dist: "distinct (map to_id (?rest @ ys))" using distinct_map_filter [OF rel(6), of "\<lambda>r. \<not> due r"] unfolding split(2) .
  have c: "timeout_list ctx' = ?rest @ ys" "seq_now ctx' = word_of_nat N" "ring_inv (tm_cq ctx')" "cq_last_tm_flush ctx' = word_of_nat N"
    using loop rel(1) by (simp_all add: seq_now_def flush)
  have rest: "\<forall>r \<in> set ?rest. target_seq r = word_of_nat (due_at sub r) \<and> N \<le> due_at sub r \<and> due_at sub r < N + 2 ^ 32"
    "\<forall>r \<in> set ?rest. \<not> io_is_timeout_noseq r" "sorted (map (due_at sub) ?rest)"
    "\<forall>r \<in> set (?rest @ ys). \<not> to_cqe_skip r"
    using xs(1,2,5) rel(3,7) sorted_filter [OF xs(4)] by auto
  have "timeouts_rel N N sub ctx'"
    using c dist rest xs(3) by (intro timeouts_relI [where xs = ?rest and ys = ys]) simp_all
  with loop split show ?thesis by (simp add: flush)
qed

text \<open>A timeout that is submitted when nothing is due goes to its place.\<close>

lemma insert_prev_rev:
  assumes "\<forall>r \<in> set xs. \<not> io_is_timeout_noseq r" "\<forall>r \<in> set ys. io_is_timeout_noseq r"
  shows "rev (insert_prev r tail (rev (xs @ ys))) = rev (insert_prev r tail (rev xs)) @ ys"
proof -
  have "insert_prev r tail (zs @ ws) = zs @ insert_prev r tail ws" if "\<forall>r \<in> set zs. io_is_timeout_noseq r" for zs ws
    using that by (induction zs) auto
  from this [of "rev ys" "rev xs"] assms(2) show ?thesis by simp
qed

lemma mset_insert_prev [simp]: "mset (insert_prev r tail xs) = add_mset r (mset xs)"
  by (induction xs) auto

lemma insert_prev_sorted:
  assumes "\<And>x. x \<in> set xs \<Longrightarrow> \<not> io_is_timeout_noseq x"
    "\<And>x. x \<in> set xs \<Longrightarrow> to_off r \<ge> target_seq x - tail \<longleftrightarrow> key x \<le> key r"
  shows "sorted (map key xs) \<Longrightarrow> sorted (map key (rev (insert_prev r tail (rev xs))))
    \<and> set (insert_prev r tail (rev xs)) = insert r (set xs)"
  using assms
proof (induction xs rule: rev_induct)
  case (snoc x xs)
  have sorted: "sorted (map key xs)" "\<forall>y \<in> set xs. key y \<le> key x" using snoc.prems(1) by (simp_all add: sorted_append)
  have x: "\<not> io_is_timeout_noseq x" "to_off r \<ge> target_seq x - tail \<longleftrightarrow> key x \<le> key r" using snoc.prems(2,3) by simp_all
  show ?case
  proof (cases "key x \<le> key r")
    case True
    with x sorted show ?thesis by (auto simp: sorted_append)
  next
    case False
    from snoc.IH [OF sorted(1)] snoc.prems(2,3) have IH: "sorted (map key (rev (insert_prev r tail (rev xs))))"
      "set (insert_prev r tail (rev xs)) = insert r (set xs)" by simp_all
    with False x sorted show ?thesis by (auto simp: sorted_append)
  qed
qed simp

text \<open>The insertion is stable.\<close>

lemma insert_prev_stable:
  assumes "\<And>x. x \<in> set xs \<Longrightarrow> \<not> io_is_timeout_noseq x"
    "\<And>x. x \<in> set xs \<Longrightarrow> to_off r \<ge> target_seq x - tail \<longleftrightarrow> key x \<le> key r"
  shows "sorted (map key xs) \<Longrightarrow>
    filter (\<lambda>x. key x = d) (rev (insert_prev r tail (rev xs))) = filter (\<lambda>x. key x = d) xs @ (if key r = d then [r] else [])"
  using assms
proof (induction xs rule: rev_induct)
  case (snoc x xs)
  have sorted: "sorted (map key xs)" "\<forall>y \<in> set xs. key y \<le> key x" using snoc.prems(1) by (simp_all add: sorted_append)
  have x: "\<not> io_is_timeout_noseq x" "to_off r \<ge> target_seq x - tail \<longleftrightarrow> key x \<le> key r" using snoc.prems(2,3) by simp_all
  show ?case
  proof (cases "key x \<le> key r")
    case True
    with x show ?thesis by simp
  next
    case False
    from snoc.IH [OF sorted(1)] snoc.prems(2,3)
    have "filter (\<lambda>x. key x = d) (rev (insert_prev r tail (rev xs))) = filter (\<lambda>x. key x = d) xs @ (if key r = d then [r] else [])"
      by simp
    with False x show ?thesis by auto
  qed
qed simp

lemma timeout_submit_rel:
  assumes "timeouts_rel N L sub ctx" "\<not> to_cqe_skip r" "to_id r \<notin> to_id ` set (timeout_list ctx)"
    "\<forall>x \<in> set (timeout_list ctx). io_is_timeout_noseq x \<or> N \<le> due_at sub x"
  defines "sub' \<equiv> sub(to_id r := N)"
  shows "timeouts_rel N (if io_is_timeout_noseq r then L else N) sub' (io_timeout r ctx)
    \<and> (\<forall>d. map (entry sub') (filter (\<lambda>x. due_opt sub' x = d) (timeout_list (io_timeout r ctx))) =
          map (entry sub') (filter (\<lambda>x. due_opt sub' x = d) (timeout_list ctx)) @ (if due_opt sub' r = d then [entry sub' r] else []))"
proof -
  from assms(1) obtain xs ys where rel: "seq_now ctx = word_of_nat N" "cq_last_tm_flush ctx = word_of_nat L" "L \<le> N"
    "N < L + 2 ^ 32" "ring_inv (tm_cq ctx)" "distinct (map to_id (timeout_list ctx))" "\<forall>r \<in> set (timeout_list ctx). \<not> to_cqe_skip r"
    and xs: "timeout_list ctx = xs @ ys" "\<forall>r \<in> set xs. \<not> io_is_timeout_noseq r" "\<forall>r \<in> set ys. io_is_timeout_noseq r"
      "sorted (map (due_at sub) xs)"
      "\<forall>r \<in> set xs. target_seq r = word_of_nat (due_at sub r) \<and> L \<le> due_at sub r \<and> due_at sub r < L + 2 ^ 32"
    unfolding timeouts_rel_def by blast
  have "to_id x \<noteq> to_id r" if "x \<in> set xs" for x using assms(3) xs(1) that by (metis UnI1 image_eqI set_append)
  then have same: "due_at sub' x = due_at sub x" if "x \<in> set xs" for x using that by (simp add: due_at_def sub'_def)
  have sorted: "sorted (map (due_at sub') xs)" using xs(4) same by (simp cong: map_cong)
  show ?thesis
  proof (cases "io_is_timeout_noseq r")
    case True
    then have t: "io_timeout r ctx = ctx\<lparr>timeout_list := xs @ (ys @ [r])\<rparr>" by (simp add: io_timeout_def xs(1))
    have "timeouts_rel N L sub' (io_timeout r ctx)"
      unfolding t using rel xs(1-3,5) sorted True same assms(2,3)
      by (intro timeouts_relI [where xs = xs and ys = "ys @ [r]"]) (auto simp: seq_now_def)
    with True show ?thesis by (simp add: t xs(1))
  next
    case False
    define q where "q = r\<lparr>target_seq := word_of_nat N + to_off r\<rparr>"
    have q: "to_id q = to_id r" "\<not> io_is_timeout_noseq q" "due_at sub' q = N + unat (to_off r)"
      "target_seq q = word_of_nat (N + unat (to_off r))" "to_off q = to_off r"
      using False by (simp_all add: q_def io_is_timeout_noseq_def due_at_def sub'_def)
    define zs where "zs = rev (insert_prev q (word_of_nat N) (rev xs))"
    have t: "io_timeout r ctx = ctx\<lparr>cq_last_tm_flush := word_of_nat N, timeout_list := zs @ ys\<rparr>"
      using False rel(1) insert_prev_rev [OF xs(2,3)]
      by (simp add: io_timeout_def Let_def xs(1) q_def zs_def flip: seq_now_def)
    have later: "N \<le> due_at sub x" "due_at sub x < N + 2 ^ 32" "target_seq x = word_of_nat (due_at sub x)" if "x \<in> set xs" for x
    proof -
      from that assms(4) xs(1,2) show "N \<le> due_at sub x" by auto
      from that xs(5) rel(3) show "due_at sub x < N + 2 ^ 32" "target_seq x = word_of_nat (due_at sub x)" by fastforce+
    qed
    have le: "to_off q \<ge> target_seq x - word_of_nat N \<longleftrightarrow> due_at sub' x \<le> due_at sub' q" if "x \<in> set xs" for x
    proof -
      note x = later [OF that]
      from word_distance [OF x(1,2)] x(1,3) same [OF that] q(3,5) show ?thesis by (simp add: word_le_nat_alt) linarith
    qed
    from insert_prev_sorted [OF _ le sorted] xs(2)
    have zs: "sorted (map (due_at sub') zs)" "set zs = insert q (set xs)" by (auto simp: zs_def)
    have "mset (map to_id (zs @ ys)) = mset (to_id q # map to_id (timeout_list ctx))" by (simp add: zs_def xs(1))
    from mset_eq_imp_distinct_iff [OF this] have dist: "distinct (map to_id (zs @ ys))" using rel(6) assms(3) q(1) by simp
    have "unat (to_off r) < 2 ^ 32" using unsigned_less [of "to_off r", where 'a = nat] by simp
    with q(3,4) have "target_seq q = word_of_nat (due_at sub' q) \<and> N \<le> due_at sub' q \<and> due_at sub' q < N + 2 ^ 32" by simp
    moreover have "target_seq x = word_of_nat (due_at sub' x) \<and> N \<le> due_at sub' x \<and> due_at sub' x < N + 2 ^ 32" if "x \<in> set xs" for x
      using later [OF that] same [OF that] by simp
    ultimately have "\<forall>x \<in> set zs. target_seq x = word_of_nat (due_at sub' x) \<and> N \<le> due_at sub' x \<and> due_at sub' x < N + 2 ^ 32"
      unfolding zs(2) by blast
    moreover have "\<forall>x \<in> set zs. \<not> io_is_timeout_noseq x" "\<forall>x \<in> set (zs @ ys). \<not> to_cqe_skip x"
      using zs(2) xs(1,2) q(2) assms(2) rel(7) by (auto simp: q_def)
    ultimately have "timeouts_rel N N sub' (io_timeout r ctx)"
      unfolding t using rel zs(1) xs(3) dist
      by (intro timeouts_relI [where xs = zs and ys = ys]) (simp_all add: seq_now_def)
    moreover have "map (entry sub') (filter (\<lambda>x. due_opt sub' x = d) zs) =
        map (entry sub') (filter (\<lambda>x. due_opt sub' x = d) xs) @ (if due_opt sub' r = d then [entry sub' r] else [])" for d
    proof (cases d)
      case None
      have "due_opt sub' x \<noteq> None" if "x \<in> set zs" for x using that zs(2) xs(2) q(2) by (auto simp: due_opt_def)
      with None zs(2) False show ?thesis by (auto simp: filter_empty_conv due_opt_def)
    next
      case (Some k)
      have some: "due_opt sub' x = Some k \<longleftrightarrow> due_at sub' x = k" if "x \<in> set zs" for x using that zs(2) xs(2) q(2) by (auto simp: due_opt_def)
      have "filter (\<lambda>x. due_opt sub' x = d) zs = filter (\<lambda>x. due_at sub' x = k) zs" using some Some by (intro filter_cong refl) simp
      also have "\<dots> = filter (\<lambda>x. due_at sub' x = k) xs @ (if due_at sub' q = k then [q] else [])"
        unfolding zs_def using xs(2) by (intro insert_prev_stable le sorted) simp_all
      finally have "filter (\<lambda>x. due_opt sub' x = d) zs = filter (\<lambda>x. due_at sub' x = k) xs @ (if due_at sub' q = k then [q] else [])" .
      moreover have "filter (\<lambda>x. due_opt sub' x = d) xs = filter (\<lambda>x. due_at sub' x = k) xs" using some zs(2) Some by (auto intro: filter_cong)
      moreover have "entry sub' q = entry sub' r" "due_opt sub' r = Some (due_at sub' q)"
        using False q(1-3,5) by (simp_all add: entry_def due_opt_def due_at_def q_def)
      ultimately show ?thesis using Some by auto
    qed
    moreover have "filter (\<lambda>x. due_opt sub' x = d) ys = []" if "due_opt sub' r = d" for d
      using that False xs(3) by (auto simp: filter_empty_conv due_opt_def)
    ultimately show ?thesis using False by (auto simp: t xs(1))
  qed
qed

end
