(* ===== verification/Uring_Timeout_Spec.thy ===== *)
theory Uring_Timeout_Spec
  imports Uring_Timeouts
begin

text \<open>
  What the timeouts of \<open>Uring_Timeouts\<close> promise: a specification with an unbounded counter of
  completions and the pending timeouts in the order of their submission, and the proof that the
  sorted list with its 32 bit sequence numbers implements it.
\<close>

section \<open>Specification\<close>

record timeout_spec =
  sp_events :: nat
  sp_pending :: "pending list"
  sp_out :: "io_uring_cqe list"

datatype timeout_op =
    Submit io_timeout_req
  | Complete io_uring_cqe
  | Expire nat
  | Cancel "64 word"
  | Consume

definition pending_cqe :: "int \<Rightarrow> pending \<Rightarrow> io_uring_cqe" where
  "pending_cqe status = (\<lambda>(_, u, _). \<lparr>cqe_user_data = u, cqe_res = status, cqe_flags = 0\<rparr>)"

definition ETIME :: int where "ETIME = 62"

fun spec_op :: "timeout_op \<Rightarrow> timeout_spec \<Rightarrow> timeout_spec" where
  "spec_op (Submit r) sp =
     sp\<lparr>sp_pending := sp_pending sp
       @ [(to_id r, to_user_data r, if to_off r = 0 then None else Some (sp_events sp + unat (to_off r)))]\<rparr>"
| "spec_op (Complete c) sp =
     (let n = sp_events sp + 1; now = (\<lambda>(_, _, d). d = Some n) in
      sp\<lparr>sp_events := n, sp_pending := filter (\<lambda>e. \<not> now e) (sp_pending sp),
        sp_out := sp_out sp @ c # map (pending_cqe 0) (filter now (sp_pending sp))\<rparr>)"
| "spec_op (Expire i) sp =
     sp\<lparr>sp_pending := filter (\<lambda>e. fst e \<noteq> i) (sp_pending sp),
       sp_out := sp_out sp @ map (pending_cqe (- ETIME)) (filter (\<lambda>e. fst e = i) (sp_pending sp))\<rparr>"
| "spec_op (Cancel u) sp = sp\<lparr>sp_pending := filter (\<lambda>e. fst (snd e) \<noteq> u) (sp_pending sp)\<rparr>"
| "spec_op Consume sp = sp"

section \<open>The operations of the code\<close>

record timeout_run =
  tm :: timeout_ctx
  tm_consumed :: "io_uring_cqe list"

text \<open>A completion is posted and published, then the timeouts are flushed.\<close>

definition io_complete :: "io_uring_cqe \<Rightarrow> timeout_ctx \<Rightarrow> timeout_ctx" where
  "io_complete c ctx =
     (let ctx = post_cqe True c ctx in
      io_commit_cqring_flush (\<lambda>_. True) (\<lambda>_. True) (ctx\<lparr>tm_cq := io_commit_cqring (tm_cq ctx)\<rparr>))"

fun run_op :: "timeout_op \<Rightarrow> timeout_run \<Rightarrow> timeout_run" where
  "run_op (Submit r) s = s\<lparr>tm := io_timeout r (prep_timeout_off (to_off r) (tm s))\<rparr>"
| "run_op (Complete c) s = s\<lparr>tm := io_complete c (tm s)\<rparr>"
| "run_op (Expire i) s = (case List.find (\<lambda>r. to_id r = i) (timeout_list (tm s)) of
       None \<Rightarrow> s
     | Some r \<Rightarrow> s\<lparr>tm := io_complete (timeout_cqe (- ETIME) r) (io_timeout_fn r (tm s))\<rparr>)"
| "run_op (Cancel u) s = s\<lparr>tm := snd (snd (io_timeout_cancel (\<lambda>_. True) u (tm s)))\<rparr>"
| "run_op Consume s = (case user_consume (tm_cq (tm s)) of
       None \<Rightarrow> s
     | Some (c, cq) \<Rightarrow> s\<lparr>tm := (tm s)\<lparr>tm_cq := cq\<rparr>, tm_consumed := tm_consumed s @ [c]\<rparr>)"

text \<open>What the operations need: fresh requests that ask for a completion, and room in the ring for what completes.\<close>

fun op_ok :: "timeout_op \<Rightarrow> timeout_spec \<Rightarrow> timeout_run \<Rightarrow> bool" where
  "op_ok (Submit r) sp s \<longleftrightarrow> \<not> to_cqe_skip r \<and> to_id r \<notin> fst ` set (sp_pending sp)"
| "op_ok (Complete c) sp s \<longleftrightarrow>
     length (filter (\<lambda>(_, _, d). d = Some (sp_events sp + 1)) (sp_pending sp)) < cq_room (tm_cq (tm s))"
| "op_ok (Expire i) sp s \<longleftrightarrow> 0 < cq_room (tm_cq (tm s))"
| "op_ok (Cancel u) sp s \<longleftrightarrow> length (filter (\<lambda>e. fst (snd e) = u) (sp_pending sp)) \<le> 1"
| "op_ok Consume sp s \<longleftrightarrow> True"

section \<open>The relation\<close>

text \<open>The lists agree up to a stable sort.\<close>

definition same_pending :: "(nat \<Rightarrow> nat) \<Rightarrow> io_timeout_req list \<Rightarrow> pending list \<Rightarrow> bool" where
  "same_pending sub rs es \<longleftrightarrow> (\<forall>d. map (entry sub) (filter (\<lambda>r. due_opt sub r = d) rs) = filter (\<lambda>e. snd (snd e) = d) es)"

text \<open>Before the first sequenced timeout the last flush does not matter.\<close>

definition norm_flush :: "timeout_ctx \<Rightarrow> timeout_ctx" where
  "norm_flush ctx = (if off_timeout_used ctx then ctx else ctx\<lparr>cq_last_tm_flush := seq_now ctx\<rparr>)"

definition timeout_inv :: "(nat \<Rightarrow> nat) \<Rightarrow> timeout_spec \<Rightarrow> timeout_run \<Rightarrow> bool" where
  "timeout_inv sub sp s \<longleftrightarrow> timeouts_rel (sp_events sp) (sp_events sp) sub (norm_flush (tm s))
     \<and> same_pending sub (timeout_list (tm s)) (sp_pending sp)
     \<and> (\<forall>r \<in> set (timeout_list (tm s)). \<not> io_is_timeout_noseq r \<longrightarrow> sp_events sp < due_at sub r \<and> off_timeout_used (tm s))
     \<and> sp_out sp = tm_consumed s @ ring_queue (tm_cq (tm s))"

lemma timeouts_rel_frame:
  "timeouts_rel N L sub ctx \<Longrightarrow> seq_now ctx' = word_of_nat N \<Longrightarrow> cq_last_tm_flush ctx' = cq_last_tm_flush ctx \<Longrightarrow>
    timeout_list ctx' = timeout_list ctx \<Longrightarrow> ring_inv (tm_cq ctx') \<Longrightarrow> timeouts_rel N L sub ctx'"
  unfolding timeouts_rel_def by metis

lemma norm_flush_simps [simp]:
  "timeout_list (norm_flush ctx) = timeout_list ctx" "tm_cq (norm_flush ctx) = tm_cq ctx"
  "seq_now (norm_flush ctx) = seq_now ctx" "off_timeout_used (norm_flush ctx) = off_timeout_used ctx"
  by (simp_all add: norm_flush_def seq_now_def)

lemma norm_rel: "timeouts_rel N N sub ctx \<Longrightarrow> timeouts_rel N N sub (norm_flush ctx)"
  by (rule timeouts_rel_frame) (simp_all add: timeouts_rel_def, simp add: norm_flush_def)

text \<open>What does not touch the timeouts.\<close>

lemma queue_deferred_frame:
  "timeout_list (queue_deferred_loop des ctx) = timeout_list ctx \<and> tm_cq (queue_deferred_loop des ctx) = tm_cq ctx
    \<and> cq_timeouts (queue_deferred_loop des ctx) = cq_timeouts ctx \<and> cq_last_tm_flush (queue_deferred_loop des ctx) = cq_last_tm_flush ctx
    \<and> off_timeout_used (queue_deferred_loop des ctx) = off_timeout_used ctx"
  by (induction des arbitrary: ctx) simp_all

lemma commit_frame:
  "ring_inv cq \<Longrightarrow> ring_inv (io_commit_cqring cq)" "ring_queue (io_commit_cqring cq) = ring_queue cq"
  "cached_cq_tail (io_commit_cqring cq) = cached_cq_tail cq" "cq_room (io_commit_cqring cq) = cq_room cq"
  using commit_core [of cq] by (auto simp: ring_inv_def) (simp_all add: io_commit_cqring_def cq_room_def)

lemma kill_frame:
  "off_timeout_used (io_kill_timeout cancels allocated r status ctx) = off_timeout_used ctx"
  by (simp add: io_kill_timeout_def)

lemma flush_frame: "off_timeout_used (io_flush_timeouts cancels allocated ctx) = off_timeout_used ctx"
proof -
  have "off_timeout_used (flush_timeouts_loop cancels allocated sq rs ctx) = off_timeout_used ctx" for sq rs
    by (induction rs arbitrary: ctx) (simp_all add: kill_frame Let_def)
  then show ?thesis by (simp add: io_flush_timeouts_def Let_def)
qed

text \<open>Filtering both lists by what the entries show.\<close>

lemma filter_map_entry:
  assumes "map f xs = ys"
  shows "map f (filter (\<lambda>x. P (f x)) xs) = filter P ys"
  using assms by (auto simp: filter_map comp_def)

lemma same_pending_filter:
  assumes "same_pending sub rs es"
  shows "same_pending sub (filter (\<lambda>r. P (entry sub r)) rs) (filter P es)"
  unfolding same_pending_def
proof
  fix d
  from assms have "map (entry sub) (filter (\<lambda>r. due_opt sub r = d) rs) = filter (\<lambda>e. snd (snd e) = d) es"
    by (simp add: same_pending_def)
  from filter_map_entry [OF this, of P]
  show "map (entry sub) (filter (\<lambda>r. due_opt sub r = d) (filter (\<lambda>r. P (entry sub r)) rs)) = filter (\<lambda>e. snd (snd e) = d) (filter P es)"
    by (simp add: conj_commute)
qed

lemma same_pending_mset: "same_pending sub rs es \<Longrightarrow> mset (map (entry sub) rs) = mset es"
proof (rule multiset_eqI)
  fix e
  assume same: "same_pending sub rs es"
  have cnt: "count (mset xs) e = count (mset (filter (\<lambda>x. snd (snd x) = snd (snd e)) xs)) e" for xs :: "pending list" by simp
  have "filter (\<lambda>x. snd (snd x) = snd (snd e)) (map (entry sub) rs) = map (entry sub) (filter (\<lambda>r. due_opt sub r = snd (snd e)) rs)"
    by (simp add: filter_map comp_def entry_def)
  also have "\<dots> = filter (\<lambda>x. snd (snd x) = snd (snd e)) es" using same by (simp add: same_pending_def)
  finally show "count (mset (map (entry sub) rs)) e = count (mset es) e" by (simp only: cnt [of "map _ _"] cnt [of es])
qed

lemma same_pending_set: "same_pending sub rs es \<Longrightarrow> set es = entry sub ` set rs"
  using same_pending_mset [of sub rs es] by (metis set_map set_mset_mset)

section \<open>The operations refine the specification\<close>

text \<open>The flush after a completion was published, from a state in which \<open>M\<close> completions are counted.\<close>

lemma published_flush:
  assumes "if off_timeout_used ctx then timeouts_rel M L sub ctx else timeouts_rel M M sub (norm_flush ctx)"
    "\<forall>r \<in> set (timeout_list ctx). \<not> io_is_timeout_noseq r \<longrightarrow> off_timeout_used ctx"
  defines "due \<equiv> \<lambda>r. \<not> io_is_timeout_noseq r \<and> due_at sub r \<le> M"
  assumes "length (filter due (timeout_list ctx)) \<le> cq_room (tm_cq ctx)"
    and ctx': "ctx' = io_commit_cqring_flush (\<lambda>_. True) (\<lambda>_. True) ctx"
  shows "timeouts_rel M M sub (norm_flush ctx') \<and> timeout_list ctx' = filter (\<lambda>r. \<not> due r) (timeout_list ctx)
    \<and> ring_queue (tm_cq ctx') = ring_queue (tm_cq ctx) @ map (timeout_cqe 0) (filter due (timeout_list ctx))
    \<and> off_timeout_used ctx' = off_timeout_used ctx"
proof -
  define ctx1 where "ctx1 = (if off_timeout_used ctx then io_flush_timeouts (\<lambda>_. True) (\<lambda>_. True) ctx else ctx)"
  have flushed: "timeouts_rel M M sub (norm_flush ctx1) \<and> timeout_list ctx1 = filter (\<lambda>r. \<not> due r) (timeout_list ctx)
    \<and> ring_queue (tm_cq ctx1) = ring_queue (tm_cq ctx) @ map (timeout_cqe 0) (filter due (timeout_list ctx))
    \<and> off_timeout_used ctx1 = off_timeout_used ctx"
  proof (cases "off_timeout_used ctx")
    case True
    with flush_timeouts_rel [of M L sub ctx "\<lambda>_. True", folded due_def, OF _ _ assms(4) refl] assms(1) flush_frame
    show ?thesis by (simp add: ctx1_def norm_flush_def due_def)
  next
    case False
    with assms(2) have "filter due (timeout_list ctx) = []" "filter (\<lambda>r. \<not> due r) (timeout_list ctx) = timeout_list ctx"
      by (auto simp: due_def filter_empty_conv intro: filter_True)
    with False assms(1) show ?thesis by (simp add: ctx1_def)
  qed
  define ctx2 where "ctx2 = (if drain_active ctx1 then io_queue_deferred ctx1 else ctx1)"
  have 2: "timeout_list ctx2 = timeout_list ctx1" "tm_cq ctx2 = tm_cq ctx1" "cq_timeouts ctx2 = cq_timeouts ctx1"
    "cq_last_tm_flush ctx2 = cq_last_tm_flush ctx1" "off_timeout_used ctx2 = off_timeout_used ctx1"
    by (simp_all add: ctx2_def io_queue_deferred_def queue_deferred_frame)
  have "ctx' = ctx \<and> ctx1 = ctx \<or> ctx' = ctx2\<lparr>tm_cq := io_commit_cqring (tm_cq ctx2)\<rparr>"
    by (auto simp: ctx' io_commit_cqring_flush_def ctx2_def ctx1_def Let_def)
  then show ?thesis
  proof
    assume ctx': "ctx' = ctx2\<lparr>tm_cq := io_commit_cqring (tm_cq ctx2)\<rparr>"
    have inv: "ring_inv (tm_cq ctx1)" "seq_now ctx1 = word_of_nat M" using flushed by (simp_all add: timeouts_rel_def)
    have seq: "seq_now ctx' = seq_now ctx1" by (simp add: ctx' seq_now_def 2 commit_frame)
    have "timeouts_rel M M sub (norm_flush ctx')"
      by (rule timeouts_rel_frame [OF conjunct1 [OF flushed]])
        (simp_all add: seq inv(2), simp_all add: norm_flush_def ctx' 2 commit_frame inv(1) seq [unfolded ctx'] seq_now_def)
    with flushed show ?thesis by (simp add: ctx' 2 commit_frame)
  qed (use flushed in simp)
qed

text \<open>Any part of the list is related, with any later sequence number.\<close>

lemma timeouts_rel_filter:
  assumes "timeouts_rel N L sub ctx" "seq_now ctx' = word_of_nat M" "L \<le> M" "M < L + 2 ^ 32" "ring_inv (tm_cq ctx')"
    "cq_last_tm_flush ctx' = cq_last_tm_flush ctx" "timeout_list ctx' = filter P (timeout_list ctx)"
  shows "timeouts_rel M L sub ctx'"
proof -
  from assms(1) obtain xs ys where rel: "cq_last_tm_flush ctx = word_of_nat L"
    "distinct (map to_id (timeout_list ctx))" "\<forall>r \<in> set (timeout_list ctx). \<not> to_cqe_skip r"
    and xs: "timeout_list ctx = xs @ ys" "\<forall>r \<in> set xs. \<not> io_is_timeout_noseq r" "\<forall>r \<in> set ys. io_is_timeout_noseq r"
      "sorted (map (due_at sub) xs)"
      "\<forall>r \<in> set xs. target_seq r = word_of_nat (due_at sub r) \<and> L \<le> due_at sub r \<and> due_at sub r < L + 2 ^ 32"
    unfolding timeouts_rel_def by blast
  have "distinct (map to_id (timeout_list ctx'))" using distinct_map_filter [OF rel(2), of P] assms(7) by simp
  moreover have "\<forall>r \<in> set (timeout_list ctx'). \<not> to_cqe_skip r" using rel(3) assms(7) by simp
  ultimately show ?thesis
    using assms(2-7) rel(1) xs(1-3,5) sorted_filter [OF xs(4), of P]
    by (intro timeouts_relI [where xs = "filter P xs" and ys = "filter P ys"]) simp_all
qed

text \<open>
  A completion that is posted and published when the list is a part of the related list and the
  sequence number is one less than \<open>M\<close>.
\<close>

lemma complete_rel:
  assumes "timeouts_rel N N sub (norm_flush ctx)" "timeout_list ctx1 = filter P (timeout_list ctx)" "tm_cq ctx1 = tm_cq ctx"
    "cq_last_tm_flush ctx1 = cq_last_tm_flush ctx" "off_timeout_used ctx1 = off_timeout_used ctx"
    "seq_now ctx1 + 1 = word_of_nat M" "N \<le> M" "M < N + 2 ^ 32"
    "\<forall>r \<in> set (timeout_list ctx). \<not> io_is_timeout_noseq r \<longrightarrow> off_timeout_used ctx"
  defines "due \<equiv> \<lambda>r. \<not> io_is_timeout_noseq r \<and> due_at sub r \<le> M"
  assumes room: "length (filter due (timeout_list ctx1)) < cq_room (tm_cq ctx)" and ctx': "ctx' = io_complete c ctx1"
  shows "timeouts_rel M M sub (norm_flush ctx') \<and> timeout_list ctx' = filter (\<lambda>r. \<not> due r) (timeout_list ctx1)
    \<and> ring_queue (tm_cq ctx') = ring_queue (tm_cq ctx) @ c # map (timeout_cqe 0) (filter due (timeout_list ctx1))
    \<and> off_timeout_used ctx' = off_timeout_used ctx"
proof -
  define cq where "cq = snd (io_fill_cqe True c (tm_cq ctx))"
  define ctx2 where "ctx2 = ctx1\<lparr>tm_cq := io_commit_cqring cq\<rparr>"
  have ctx'2: "ctx' = io_commit_cqring_flush (\<lambda>_. True) (\<lambda>_. True) ctx2"
    by (simp add: ctx' io_complete_def post_cqe_def ctx2_def cq_def assms(3) Let_def)
  have "ring_inv (tm_cq ctx)" using assms(1) by (simp add: timeouts_rel_def)
  from fill_room [OF this, of True c] room
  have cq: "ring_inv cq" "ring_queue cq = ring_queue (tm_cq ctx) @ [c]" "cached_cq_tail cq = cached_cq_tail (tm_cq ctx) + 1"
    "cq_room cq = cq_room (tm_cq ctx) - 1" by (auto simp: cq_def)
  have 2: "timeout_list ctx2 = timeout_list ctx1" "ring_inv (tm_cq ctx2)" "cq_last_tm_flush ctx2 = cq_last_tm_flush ctx"
    "off_timeout_used ctx2 = off_timeout_used ctx" "seq_now ctx2 = seq_now ctx1 + 1"
    "ring_queue (tm_cq ctx2) = ring_queue (tm_cq ctx) @ [c]" "cq_room (tm_cq ctx2) = cq_room (tm_cq ctx) - 1"
    using assms(3-5) cq by (simp_all add: ctx2_def commit_frame seq_now_def)
  have rel: "if off_timeout_used ctx2 then timeouts_rel M N sub ctx2 else timeouts_rel M M sub (norm_flush ctx2)"
  proof (cases "off_timeout_used ctx")
    case True
    with timeouts_rel_filter [OF assms(1), of ctx2 M P] 2 assms(2,6-8) show ?thesis by (simp add: norm_flush_def)
  next
    case False
    then have noseq: "\<forall>r \<in> set (timeout_list ctx). io_is_timeout_noseq r" using assms(9) by auto
    have dist: "distinct (map to_id (timeout_list ctx))" "\<forall>r \<in> set (timeout_list ctx). \<not> to_cqe_skip r"
      using assms(1) by (simp_all add: timeouts_rel_def)
    have "timeouts_rel M M sub (norm_flush ctx2)"
      using False noseq dist(2) distinct_map_filter [OF dist(1), of P] 2 assms(2,6)
      by (intro timeouts_relI [where xs = "[]" and ys = "timeout_list ctx2"]) (simp_all, simp_all add: norm_flush_def)
    with False 2(4) show ?thesis by simp
  qed
  have seqd: "\<forall>r \<in> set (timeout_list ctx2). \<not> io_is_timeout_noseq r \<longrightarrow> off_timeout_used ctx2"
    using assms(2,9) 2(1,4) by auto
  have "length (filter due (timeout_list ctx2)) \<le> cq_room (tm_cq ctx2)" using room 2(1,7) by simp
  from published_flush [OF rel seqd this [unfolded due_def] ctx'2, folded due_def] 2 show ?thesis by (simp add: due_def)
qed

text \<open>Completions.\<close>

lemma timeout_entry_cqe: "map (timeout_cqe st) rs = map (pending_cqe st) (map (entry sub) rs)"
  by (simp add: timeout_cqe_def pending_cqe_def entry_def)

lemma complete_refines:
  assumes "timeout_inv sub sp s" "op_ok (Complete c) sp s"
  shows "timeout_inv sub (spec_op (Complete c) sp) (run_op (Complete c) s)"
proof -
  let ?N = "sp_events sp" and ?ctx = "tm s"
  define now :: "pending \<Rightarrow> bool" where "now = (\<lambda>(_, _, d). d = Some (?N + 1))"
  from assms(1) have rel: "timeouts_rel ?N ?N sub (norm_flush ?ctx)" and same: "same_pending sub (timeout_list ?ctx) (sp_pending sp)"
    and later: "\<forall>r \<in> set (timeout_list ?ctx). \<not> io_is_timeout_noseq r \<longrightarrow> ?N < due_at sub r \<and> off_timeout_used ?ctx"
    and out: "sp_out sp = tm_consumed s @ ring_queue (tm_cq ?ctx)" by (simp_all add: timeout_inv_def)
  let ?due = "\<lambda>r. \<not> io_is_timeout_noseq r \<and> due_at sub r \<le> ?N + 1"
  have due: "?due r \<longleftrightarrow> now (entry sub r)" if "r \<in> set (timeout_list ?ctx)" for r
    using later that by (auto simp: now_def entry_def due_opt_def)
  then have split: "filter ?due (timeout_list ?ctx) = filter (\<lambda>r. now (entry sub r)) (timeout_list ?ctx)"
    "filter (\<lambda>r. \<not> ?due r) (timeout_list ?ctx) = filter (\<lambda>r. \<not> now (entry sub r)) (timeout_list ?ctx)"
    by (auto intro!: filter_cong [OF refl])
  have fired: "map (timeout_cqe 0) (filter ?due (timeout_list ?ctx)) = map (pending_cqe 0) (filter now (sp_pending sp))"
  proof -
    have "map (entry sub) (filter (\<lambda>r. now (entry sub r)) (timeout_list ?ctx)) = filter now (sp_pending sp)"
    proof -
      have "now = (\<lambda>e. snd (snd e) = Some (?N + 1))" by (auto simp: now_def)
      with same show ?thesis by (simp add: same_pending_def entry_def)
    qed
    then show ?thesis by (simp only: timeout_entry_cqe [of _ _ sub] split)
  qed
  have room: "length (filter ?due (timeout_list ?ctx)) < cq_room (tm_cq ?ctx)"
    using assms(2) arg_cong [OF fired, of length] by (simp add: now_def)
  have seq: "seq_now ?ctx + 1 = word_of_nat (?N + 1)" using rel by (simp add: timeouts_rel_def)
  have off: "\<forall>r \<in> set (timeout_list ?ctx). \<not> io_is_timeout_noseq r \<longrightarrow> off_timeout_used ?ctx" using later by blast
  have all: "timeout_list ?ctx = filter (\<lambda>_. True) (timeout_list ?ctx)" by simp
  note post = complete_rel [OF rel all refl refl refl seq _ _ off room refl, of c]
  have "same_pending sub (timeout_list (io_complete c ?ctx)) (filter (\<lambda>e. \<not> now e) (sp_pending sp))"
    using same_pending_filter [OF same, of "\<lambda>e. \<not> now e"] post split by simp
  moreover have "\<forall>r \<in> set (timeout_list (io_complete c ?ctx)). \<not> io_is_timeout_noseq r \<longrightarrow>
      ?N + 1 < due_at sub r \<and> off_timeout_used (io_complete c ?ctx)"
    using post later by auto
  moreover have "spec_op (Complete c) sp = sp\<lparr>sp_events := ?N + 1, sp_pending := filter (\<lambda>e. \<not> now e) (sp_pending sp),
      sp_out := sp_out sp @ c # map (pending_cqe 0) (filter now (sp_pending sp))\<rparr>"
    by (simp add: now_def Let_def)
  ultimately show ?thesis using post fired out unfolding timeout_inv_def by (auto simp del: spec_op.simps)
qed

text \<open>Timers that expire and timeouts that are cancelled leave both lists.\<close>

lemma find_Some_filter:
  assumes "List.find P rs = Some r" "distinct rs" "\<And>x. x \<in> set rs \<Longrightarrow> P x \<Longrightarrow> x = r"
  shows "remove1 r rs = filter (\<lambda>x. \<not> P x) rs" "filter P rs = [r]" "r \<in> set rs" "P r"
proof -
  from assms(1) show r: "r \<in> set rs" "P r" by (auto simp: find_Some_iff)
  show "remove1 r rs = filter (\<lambda>x. \<not> P x) rs"
    unfolding distinct_remove1_removeAll [OF assms(2)] removeAll_filter_not_eq using r assms(3) by (intro filter_cong refl) blast
  have "filter P rs = filter (\<lambda>x. x = r) rs" using r assms(3) by (intro filter_cong refl) blast
  also have "\<dots> = [r]" using r(1) assms(2) by (induction rs) (auto simp: filter_empty_conv)
  finally show "filter P rs = [r]" .
qed

lemma expire_refines:
  assumes "timeout_inv sub sp s" "op_ok (Expire i) sp s"
  shows "timeout_inv sub (spec_op (Expire i) sp) (run_op (Expire i) s)"
proof -
  let ?N = "sp_events sp" and ?ctx = "tm s"
  from assms(1) have rel: "timeouts_rel ?N ?N sub (norm_flush ?ctx)" and same: "same_pending sub (timeout_list ?ctx) (sp_pending sp)"
    and later: "\<forall>r \<in> set (timeout_list ?ctx). \<not> io_is_timeout_noseq r \<longrightarrow> ?N < due_at sub r \<and> off_timeout_used ?ctx"
    and out: "sp_out sp = tm_consumed s @ ring_queue (tm_cq ?ctx)" by (simp_all add: timeout_inv_def)
  show ?thesis
  proof (cases "List.find (\<lambda>r. to_id r = i) (timeout_list ?ctx)")
    case None
    then have "\<forall>e \<in> set (sp_pending sp). fst e \<noteq> i"
      unfolding same_pending_set [OF same] by (auto simp: find_None_iff entry_def)
    then have "filter (\<lambda>e. fst e \<noteq> i) (sp_pending sp) = sp_pending sp" "filter (\<lambda>e. fst e = i) (sp_pending sp) = []"
      by (auto simp: filter_empty_conv intro: filter_True)
    with None assms(1) show ?thesis by simp
  next
    case (Some r)
    have dist: "distinct (map to_id (timeout_list ?ctx))" using rel by (simp add: timeouts_rel_def)
    then have uniq: "x = r" if "x \<in> set (timeout_list ?ctx)" "to_id x = i" for x
      using Some that by (auto simp: find_Some_iff distinct_map inj_on_def)
    from dist have "distinct (timeout_list ?ctx)" by (simp add: distinct_map)
    note r = find_Some_filter [OF Some this uniq]
    let ?ctx1 = "io_timeout_fn r ?ctx"
    have list: "timeout_list ?ctx1 = filter (\<lambda>x. to_id x \<noteq> i) (timeout_list ?ctx)" using r(1) by (simp add: io_timeout_fn_def)
    have none: "filter (\<lambda>r. \<not> io_is_timeout_noseq r \<and> due_at sub r \<le> ?N) (timeout_list ?ctx1) = []"
      "filter (\<lambda>r. \<not> (\<not> io_is_timeout_noseq r \<and> due_at sub r \<le> ?N)) (timeout_list ?ctx1) = timeout_list ?ctx1"
      using later by (auto simp: list filter_empty_conv intro!: filter_cong)
    have seq: "seq_now ?ctx1 + 1 = word_of_nat ?N" using rel by (simp add: timeouts_rel_def seq_now_def io_timeout_fn_def norm_flush_def split: if_splits)
    have off: "\<forall>r \<in> set (timeout_list ?ctx). \<not> io_is_timeout_noseq r \<longrightarrow> off_timeout_used ?ctx" using later by blast
    have frame: "tm_cq ?ctx1 = tm_cq ?ctx" "cq_last_tm_flush ?ctx1 = cq_last_tm_flush ?ctx" "off_timeout_used ?ctx1 = off_timeout_used ?ctx"
      by (simp_all add: io_timeout_fn_def)
    have room: "length (filter (\<lambda>r. \<not> io_is_timeout_noseq r \<and> due_at sub r \<le> ?N) (timeout_list ?ctx1)) < cq_room (tm_cq ?ctx)"
      using assms(2) none by simp
    define ctx' where "ctx' = io_complete (timeout_cqe (- ETIME) r) ?ctx1"
    have post: "timeouts_rel ?N ?N sub (norm_flush ctx')" "timeout_list ctx' = timeout_list ?ctx1"
      "ring_queue (tm_cq ctx') = ring_queue (tm_cq ?ctx) @ [timeout_cqe (- ETIME) r]" "off_timeout_used ctx' = off_timeout_used ?ctx"
      using complete_rel [OF rel list frame seq _ _ off room ctx'_def] unfolding none by simp_all
    have "same_pending sub (timeout_list ctx') (filter (\<lambda>e. fst e \<noteq> i) (sp_pending sp))"
      using same_pending_filter [OF same, of "\<lambda>e. fst e \<noteq> i"] by (simp add: post(2) list entry_def)
    moreover have "map (pending_cqe (- ETIME)) (filter (\<lambda>e. fst e = i) (sp_pending sp)) = [timeout_cqe (- ETIME) r]"
    proof -
      have "mset (filter (\<lambda>e. fst e = i) (sp_pending sp)) = mset (filter (\<lambda>e. fst e = i) (map (entry sub) (timeout_list ?ctx)))"
        using same_pending_mset [OF same] by (simp add: mset_filter)
      also have "\<dots> = {#entry sub r#}" using r(2) by (simp add: filter_map comp_def entry_def)
      finally have "filter (\<lambda>e. fst e = i) (sp_pending sp) = [entry sub r]" by (simp del: mset_filter)
      then show ?thesis by (simp add: pending_cqe_def entry_def timeout_cqe_def)
    qed
    moreover have "\<forall>x \<in> set (timeout_list ctx'). \<not> io_is_timeout_noseq x \<longrightarrow> ?N < due_at sub x \<and> off_timeout_used ctx'"
      using later by (auto simp: post(2,4) list)
    ultimately show ?thesis using Some post(1,3) out by (simp add: timeout_inv_def flip: ctx'_def)
  qed
qed

lemma cancel_refines:
  assumes "timeout_inv sub sp s" "op_ok (Cancel u) sp s"
  shows "timeout_inv sub (spec_op (Cancel u) sp) (run_op (Cancel u) s)"
proof -
  let ?N = "sp_events sp" and ?ctx = "tm s"
  let ?P = "\<lambda>r. u = to_user_data r"
  from assms(1) have rel: "timeouts_rel ?N ?N sub (norm_flush ?ctx)" and same: "same_pending sub (timeout_list ?ctx) (sp_pending sp)"
    by (simp_all add: timeout_inv_def)
  define ctx' where "ctx' = snd (snd (io_timeout_cancel (\<lambda>_. True) u ?ctx))"
  have ctx': "ctx' = ?ctx\<lparr>timeout_list := filter (\<lambda>x. u \<noteq> to_user_data x) (timeout_list ?ctx)\<rparr>"
  proof (cases "List.find ?P (timeout_list ?ctx)")
    case None
    then have "filter (\<lambda>x. u \<noteq> to_user_data x) (timeout_list ?ctx) = timeout_list ?ctx" by (auto simp: find_None_iff intro: filter_True)
    with None show ?thesis by (simp add: ctx'_def io_timeout_cancel_def io_timeout_extract_def)
  next
    case (Some r)
    have "mset (filter (\<lambda>e. fst (snd e) = u) (map (entry sub) (timeout_list ?ctx))) = mset (filter (\<lambda>e. fst (snd e) = u) (sp_pending sp))"
      using same_pending_mset [OF same] by (simp only: mset_filter)
    from mset_eq_length [OF this] assms(2) have "length (filter ?P (timeout_list ?ctx)) \<le> 1"
      by (simp add: filter_map comp_def entry_def eq_commute)
    moreover have "r \<in> set (filter ?P (timeout_list ?ctx))" using Some by (auto simp: find_Some_iff)
    ultimately have "set (filter ?P (timeout_list ?ctx)) = {r}" by (cases "filter ?P (timeout_list ?ctx)") simp_all
    then have uniq: "x = r" if "x \<in> set (timeout_list ?ctx)" "u = to_user_data x" for x
      using that by auto
    have "distinct (timeout_list ?ctx)" using rel by (simp add: timeouts_rel_def distinct_map)
    from find_Some_filter(1) [OF Some this uniq] Some show ?thesis
      by (simp add: ctx'_def io_timeout_cancel_def io_timeout_extract_def)
  qed
  have frame: "cq_last_tm_flush (norm_flush ctx') = cq_last_tm_flush (norm_flush ?ctx)" "seq_now ctx' = seq_now ?ctx"
    by (simp_all add: ctx' norm_flush_def seq_now_def)
  have "seq_now ?ctx = word_of_nat ?N" "ring_inv (tm_cq ?ctx)" using rel by (simp_all add: timeouts_rel_def)
  then have "timeouts_rel ?N ?N sub (norm_flush ctx')"
    by (intro timeouts_rel_filter [OF rel, where P = "\<lambda>x. u \<noteq> to_user_data x"]) (simp_all add: frame, simp_all add: ctx')
  moreover have "same_pending sub (timeout_list ctx') (filter (\<lambda>e. fst (snd e) \<noteq> u) (sp_pending sp))"
    using same_pending_filter [OF same, of "\<lambda>e. fst (snd e) \<noteq> u"] by (simp add: ctx' entry_def eq_commute)
  ultimately show ?thesis using assms(1) by (simp add: timeout_inv_def flip: ctx'_def) (auto simp: ctx')
qed

text \<open>The application.\<close>

lemma consume_refines:
  assumes "timeout_inv sub sp s"
  shows "timeout_inv sub (spec_op Consume sp) (run_op Consume s)"
proof (cases "user_consume (tm_cq (tm s))")
  case None
  with assms show ?thesis by simp
next
  case (Some p)
  obtain c cq where p: "p = (c, cq)" by force
  let ?N = "sp_events sp"
  let ?ctx = "(tm s)\<lparr>tm_cq := cq\<rparr>"
  from assms have rel: "timeouts_rel ?N ?N sub (norm_flush (tm s))" by (simp add: timeout_inv_def)
  then have inv: "ring_inv (tm_cq (tm s))" "seq_now (tm s) = word_of_nat ?N" by (simp_all add: timeouts_rel_def)
  then have "ring_core (tm_cq (tm s))" by (simp add: ring_inv_def)
  from consume_spec [OF this, unfolded Some p option.case prod.case]
  have c: "ring_queue (tm_cq (tm s)) = c # ring_queue cq" "ring_core cq" "cq = (tm_cq (tm s))\<lparr>cq_head := cq_head (tm_cq (tm s)) + 1\<rparr>"
    by blast+
  have "ring_inv cq" using inv(1) c(2) by (auto simp: ring_inv_def c(3))
  moreover have frame: "seq_now ?ctx = seq_now (tm s)" "cq_last_tm_flush (norm_flush ?ctx) = cq_last_tm_flush (norm_flush (tm s))"
    by (simp_all add: seq_now_def norm_flush_def c(3))
  ultimately have "timeouts_rel ?N ?N sub (norm_flush ?ctx)"
    using inv(2) by (intro timeouts_rel_frame [OF rel]) simp_all
  with assms Some p c(1) show ?thesis by (simp add: timeout_inv_def)
qed

text \<open>Submissions.\<close>

lemma submit_refines:
  assumes "timeout_inv sub sp s" "op_ok (Submit r) sp s"
  shows "timeout_inv (sub(to_id r := sp_events sp)) (spec_op (Submit r) sp) (run_op (Submit r) s)"
proof -
  let ?N = "sp_events sp" and ?ctx = "tm s" and ?sub = "sub(to_id r := sp_events sp)"
  from assms(1) have rel: "timeouts_rel ?N ?N sub (norm_flush ?ctx)" and same: "same_pending sub (timeout_list ?ctx) (sp_pending sp)"
    and later: "\<forall>r \<in> set (timeout_list ?ctx). \<not> io_is_timeout_noseq r \<longrightarrow> ?N < due_at sub r \<and> off_timeout_used ?ctx"
    and out: "sp_out sp = tm_consumed s @ ring_queue (tm_cq ?ctx)" by (simp_all add: timeout_inv_def)
  have fresh: "to_id r \<notin> to_id ` set (timeout_list ?ctx)" "\<not> to_cqe_skip r"
    using assms(2) unfolding op_ok.simps same_pending_set [OF same] by (auto simp: entry_def image_image)
  have keep: "due_at ?sub x = due_at sub x" "due_opt ?sub x = due_opt sub x" "entry ?sub x = entry sub x"
    if "x \<in> set (timeout_list ?ctx)" for x
  proof -
    have "to_id x \<noteq> to_id r" using fresh(1) that by (metis image_eqI)
    then show "due_at ?sub x = due_at sub x" by (simp add: due_at_def)
    then show "due_opt ?sub x = due_opt sub x" by (simp add: due_opt_def)
    then show "entry ?sub x = entry sub x" by (simp add: entry_def)
  qed
  define ctx1 where "ctx1 = prep_timeout_off (to_off r) (norm_flush ?ctx)"
  have 1: "timeout_list ctx1 = timeout_list ?ctx" "tm_cq ctx1 = tm_cq ?ctx" "off_timeout_used ctx1 \<longleftrightarrow> to_off r \<noteq> 0 \<or> off_timeout_used ?ctx"
    "cq_last_tm_flush ctx1 = cq_last_tm_flush (norm_flush ?ctx)" "seq_now ctx1 = seq_now ?ctx"
    by (simp_all add: ctx1_def prep_timeout_off_def) (simp_all add: seq_now_def norm_flush_def)
  define ctx' where "ctx' = io_timeout r (prep_timeout_off (to_off r) ?ctx)"
  have ctx': "norm_flush ctx' = norm_flush (io_timeout r ctx1)" "timeout_list ctx' = timeout_list (io_timeout r ctx1)"
    "tm_cq ctx' = tm_cq ?ctx" "off_timeout_used ctx' = off_timeout_used ctx1"
    unfolding ctx1_def ctx'_def io_timeout_def prep_timeout_off_def norm_flush_def
    by (simp_all add: io_is_timeout_noseq_def Let_def seq_now_def)
  have rel1: "timeouts_rel ?N ?N sub ctx1" using rel by (intro timeouts_rel_frame [OF rel]) (simp_all add: 1 timeouts_rel_def)
  have due1: "\<forall>x \<in> set (timeout_list ctx1). io_is_timeout_noseq x \<or> ?N \<le> due_at sub x" using later by (auto simp: 1 less_imp_le)
  note submit = timeout_submit_rel [OF rel1 fresh(2) fresh(1) [folded 1(1)] due1]
  have pending: "same_pending ?sub (timeout_list ctx') (sp_pending sp @ [entry ?sub r])"
    unfolding same_pending_def
  proof
    fix d
    have "map (entry ?sub) (filter (\<lambda>x. due_opt ?sub x = d) (timeout_list ?ctx)) = map (entry sub) (filter (\<lambda>x. due_opt sub x = d) (timeout_list ?ctx))"
      using keep by (auto cong: filter_cong)
    then show "map (entry ?sub) (filter (\<lambda>x. due_opt ?sub x = d) (timeout_list ctx')) = filter (\<lambda>e. snd (snd e) = d) (sp_pending sp @ [entry ?sub r])"
      using conjunct2 [OF submit, rule_format, of d] same by (simp add: same_pending_def ctx' 1 entry_def [of _ r])
  qed
  have "?N < due_at ?sub x \<and> off_timeout_used ctx'" if "x \<in> set (timeout_list ctx')" "\<not> io_is_timeout_noseq x" for x
  proof -
    have "entry ?sub x \<in> set (sp_pending sp @ [entry ?sub r])" unfolding same_pending_set [OF pending] using that(1) by simp
    then consider y where "y \<in> set (timeout_list ?ctx)" "entry ?sub x = entry sub y" | "entry ?sub x = entry ?sub r"
      using same_pending_set [OF same] by auto
    then show ?thesis
    proof cases
      case 1
      with that(2) later ctx'(4) \<open>off_timeout_used ctx1 \<longleftrightarrow> _\<close> show ?thesis by (auto simp: entry_def due_opt_def split: if_splits)
    next
      case 2
      with that(2) have "due_at ?sub x = ?N + unat (to_off r)" "to_off r \<noteq> 0"
        by (auto simp: entry_def due_opt_def due_at_def io_is_timeout_noseq_def split: if_splits)
      with ctx'(4) 1(3) show ?thesis by (simp add: unat_gt_0)
    qed
  qed
  moreover have "timeouts_rel ?N ?N ?sub (norm_flush ctx')"
    using norm_rel [OF conjunct1 [OF submit, unfolded if_cancel]] by (simp add: ctx'(1))
  moreover have "entry ?sub r = (to_id r, to_user_data r, if to_off r = 0 then None else Some (?N + unat (to_off r)))"
    by (simp add: entry_def due_opt_def due_at_def io_is_timeout_noseq_def)
  ultimately show ?thesis using pending out by (simp add: timeout_inv_def ctx'(3) flip: ctx'_def)
qed

section \<open>Runs\<close>

fun ops_ok :: "timeout_op list \<Rightarrow> timeout_spec \<Rightarrow> timeout_run \<Rightarrow> bool" where
  "ops_ok [] sp s \<longleftrightarrow> True"
| "ops_ok (a # as) sp s \<longleftrightarrow> op_ok a sp s \<and> ops_ok as (spec_op a sp) (run_op a s)"

definition new_timeout_ctx :: "nat \<Rightarrow> timeout_ctx" where
  "new_timeout_ctx k = \<lparr>tm_cq = new_ring k, cq_timeouts = 0, cq_last_tm_flush = 0, timeout_list = [], off_timeout_used = False,
     drain_active = False, defer_list = [], task_queued = []\<rparr>"

definition timeout_run0 :: "nat \<Rightarrow> timeout_run" where
  "timeout_run0 k = \<lparr>tm = new_timeout_ctx k, tm_consumed = []\<rparr>"

definition timeout_spec0 :: timeout_spec where
  "timeout_spec0 = \<lparr>sp_events = 0, sp_pending = [], sp_out = []\<rparr>"

lemma op_refines:
  assumes "timeout_inv sub sp s" "op_ok a sp s"
  shows "\<exists>sub'. timeout_inv sub' (spec_op a sp) (run_op a s)"
proof (cases a)
  case (Submit r)
  with submit_refines [of sub sp s r] assms show ?thesis by blast
next
  case (Complete c)
  with complete_refines [of sub sp s c] assms show ?thesis by blast
next
  case (Expire i)
  with expire_refines [of sub sp s i] assms show ?thesis by blast
next
  case (Cancel u)
  with cancel_refines [of sub sp s u] assms show ?thesis by blast
next
  case Consume
  with consume_refines [of sub sp s] assms show ?thesis by blast
qed

lemma ops_refine:
  "timeout_inv sub sp s \<Longrightarrow> ops_ok as sp s \<Longrightarrow> \<exists>sub'. timeout_inv sub' (fold spec_op as sp) (fold run_op as s)"
proof (induction as arbitrary: sub sp s)
  case (Cons a as)
  with op_refines [of sub sp s a] show ?case by auto
qed auto

lemma new_ring_inv: "k < 32 \<Longrightarrow> ring_inv (new_ring k) \<and> ring_queue (new_ring k) = []"
  by (auto simp: ring_inv_def ring_core_def new_ring_def io_cqring_events_def visible_def ring_queue_def)

lemma timeout_inv_start: "k < 32 \<Longrightarrow> timeout_inv (\<lambda>_. 0) timeout_spec0 (timeout_run0 k)"
  using new_ring_inv [of k]
  by (auto simp: timeout_inv_def timeout_spec0_def timeout_run0_def new_timeout_ctx_def norm_flush_def seq_now_def same_pending_def
      new_ring_def intro!: timeouts_relI [where xs = "[]" and ys = "[]"])


section \<open>Witness and cases that the specification excludes\<close>

definition ex_timeout :: "nat \<Rightarrow> bool \<Rightarrow> u32 \<Rightarrow> io_timeout_req" where
  "ex_timeout i skip off = \<lparr>to_id = i, to_user_data = of_nat (100 + i), to_cqe_skip = skip, to_off = off, target_seq = 0\<rparr>"

text \<open>The second timeout completes with the first completion, the first with the second; the third waits.\<close>

definition ex_timeout_ops :: "timeout_op list" where
  "ex_timeout_ops = [Submit (ex_timeout 1 False 2), Submit (ex_timeout 2 False 1), Submit (ex_timeout 3 False 9), Complete (ex_cqe 7), Complete (ex_cqe 8), Consume]"

definition user_datas :: "io_uring_cqe list \<Rightarrow> nat list" where
  "user_datas cs = map (\<lambda>c. unat (cqe_user_data c)) cs"


text \<open>
  A timeout that completes without a completion event is counted but posts nothing, so the sequence
  falls behind: with two of them the unsigned distance wraps, and the timeout that waits for five
  completions completes with the second.
\<close>

lemma skipped_timeouts_fire_others_early:
  "let s = fold run_op [Submit (ex_timeout 1 True 1), Submit (ex_timeout 2 True 1), Submit (ex_timeout 3 False 5), Complete (ex_cqe 7),
       Complete (ex_cqe 8)] (timeout_run0 3)
   in user_datas (ring_queue (tm_cq (tm s))) = [7, 8, 103] \<and> timeout_list (tm s) = []"
  by code_simp

text \<open>
  A timer counts when it expires, and its completion is posted later: when two have expired and the
  first is posted, the sequence is behind the last flush and the timeout that waits for
  five completions completes at once.
\<close>

lemma expired_timers_fire_others_early:
  "let ctx = fold (\<lambda>r ctx. io_timeout r (prep_timeout_off (to_off r) ctx)) [ex_timeout 1 False 0, ex_timeout 2 False 0, ex_timeout 3 False 5]
         (new_timeout_ctx 3);
       ctx = io_timeout_fn (ex_timeout 2 False 0) (io_timeout_fn (ex_timeout 1 False 0) ctx);
       ctx = io_complete (timeout_cqe (- ETIME) (ex_timeout 1 False 0)) ctx
   in user_datas (ring_queue (tm_cq ctx)) = [101, 103] \<and> timeout_list ctx = []"
  by code_simp

end
