(* ===== verification/Uring_Submit.thy ===== *)
theory Uring_Submit
  imports Prelude "HOL-Library.Word" "HOL-Library.Multiset" "HOL-Library.Sublist"
begin

unbundle bit_operations_syntax

text \<open>
  The submission side of \<^verbatim>\<open>examples/io_uring.c\<close>: entries of the submission ring become requests,
  requests with a link flag are collected into chains, and a chain is queued as a whole or, when one of its
  requests cannot be prepared, completed as a whole.
\<close>

section \<open>Requests and flags\<close>

definition REQ_F_FIXED_FILE :: "32 word" where "REQ_F_FIXED_FILE = 2 ^ 0"
definition REQ_F_IO_DRAIN :: "32 word" where "REQ_F_IO_DRAIN = 2 ^ 1"
definition REQ_F_LINK :: "32 word" where "REQ_F_LINK = 2 ^ 2"
definition REQ_F_HARDLINK :: "32 word" where "REQ_F_HARDLINK = 2 ^ 3"
definition REQ_F_FORCE_ASYNC :: "32 word" where "REQ_F_FORCE_ASYNC = 2 ^ 4"
definition REQ_F_BUFFER_SELECT :: "32 word" where "REQ_F_BUFFER_SELECT = 2 ^ 5"
definition REQ_F_CQE_SKIP :: "32 word" where "REQ_F_CQE_SKIP = 2 ^ 6"
definition REQ_F_FAIL :: "32 word" where "REQ_F_FAIL = 2 ^ 8"
definition REQ_F_LINK_TIMEOUT :: "32 word" where "REQ_F_LINK_TIMEOUT = 2 ^ 12"
definition REQ_F_ARM_LTIMEOUT :: "32 word" where "REQ_F_ARM_LTIMEOUT = 2 ^ 20"
definition REQ_F_SKIP_LINK_CQES :: "32 word" where "REQ_F_SKIP_LINK_CQES = 2 ^ 22"

lemmas REQ_F_defs = REQ_F_FIXED_FILE_def REQ_F_IO_DRAIN_def REQ_F_LINK_def REQ_F_HARDLINK_def REQ_F_FORCE_ASYNC_def
  REQ_F_BUFFER_SELECT_def REQ_F_CQE_SKIP_def REQ_F_FAIL_def REQ_F_LINK_TIMEOUT_def REQ_F_ARM_LTIMEOUT_def REQ_F_SKIP_LINK_CQES_def

definition SQE_COMMON_FLAGS :: "32 word" where
  "SQE_COMMON_FLAGS = (REQ_F_FIXED_FILE OR REQ_F_LINK OR REQ_F_HARDLINK OR REQ_F_FORCE_ASYNC)"

definition SQE_VALID_FLAGS :: "32 word" where
  "SQE_VALID_FLAGS = (SQE_COMMON_FLAGS OR REQ_F_BUFFER_SELECT OR REQ_F_IO_DRAIN OR REQ_F_CQE_SKIP)"

text \<open>\<open>REQ_F_ARM_LTIMEOUT | REQ_F_LINK_TIMEOUT | REQ_F_FAIL\<close>.\<close>

definition IO_DISARM_MASK :: "32 word" where
  "IO_DISARM_MASK = (REQ_F_ARM_LTIMEOUT OR REQ_F_LINK_TIMEOUT OR REQ_F_FAIL)"

definition IORING_OP_LINK_TIMEOUT :: nat where "IORING_OP_LINK_TIMEOUT = 15"

text \<open>The size of the table of operations, and the operations of the table that take selected buffers.\<close>

definition IORING_OP_LAST :: nat where "IORING_OP_LAST = 41"

definition op_buffer_select :: "nat \<Rightarrow> bool" where
  "op_buffer_select opcode \<longleftrightarrow> opcode \<in> {1, 10, 22, 27}"

definition EINVAL :: int where "EINVAL = 22"
definition EACCES :: int where "EACCES = 13"
definition EAGAIN :: int where "EAGAIN = 11"
definition EOPNOTSUPP :: int where "EOPNOTSUPP = 95"
definition ECANCELED :: int where "ECANCELED = 125"

record io_req =
  rq_opcode :: nat
  rq_flags :: "32 word"
  rq_user_data :: "64 word"
  rq_result :: int

record io_sqe =
  sqe_opcode :: nat
  sqe_flags :: "8 word"
  sqe_user_data :: "64 word"

text \<open>What the code of the kernel decides: credentials, the preparation of an operation, a timer that can be cancelled.\<close>

record submit_env =
  override_creds :: "io_sqe \<Rightarrow> int"
  op_prep :: "io_sqe \<Rightarrow> int"
  op_prep_async :: "io_req \<Rightarrow> int"
  timer_cancels :: "io_req \<Rightarrow> bool"

text \<open>
  A chain is the list of its requests. The lists of chains are where a chain goes: it is issued, given
  to a worker, to the drain code or, without its first request, queued as the next request. \<open>comps\<close> are the
  completions, \<open>silent\<close> the requests that complete without one.
\<close>

record submit_ctx =
  sb_restricted :: bool
  sb_sqe_op :: "nat \<Rightarrow> bool"
  sqe_flags_required :: "32 word"
  sqe_flags_allowed :: "32 word"
  sb_drain_active :: bool
  drain_next :: bool
  drain_disabled :: bool
  link_chain :: "io_req list"
  issued :: "io_req list list"
  punted :: "io_req list list"
  drained :: "io_req list list"
  task_next :: "io_req list list"
  comps :: "(64 word \<times> int) list"
  silent :: "64 word list"

definition has :: "32 word \<Rightarrow> io_req \<Rightarrow> bool" where
  "has f r \<longleftrightarrow> rq_flags r AND f \<noteq> 0"

definition set_flags :: "32 word \<Rightarrow> io_req \<Rightarrow> io_req" where
  "set_flags f r = r\<lparr>rq_flags := rq_flags r OR f\<rparr>"

definition clear_flags :: "32 word \<Rightarrow> io_req \<Rightarrow> io_req" where
  "clear_flags f r = r\<lparr>rq_flags := rq_flags r AND NOT f\<rparr>"

definition req_set_fail :: "io_req \<Rightarrow> io_req" where
  "req_set_fail r =
     (let r = set_flags REQ_F_FAIL r in
      if has REQ_F_CQE_SKIP r then set_flags REQ_F_SKIP_LINK_CQES (clear_flags REQ_F_CQE_SKIP r) else r)"

definition req_fail_link_node :: "io_req \<Rightarrow> int \<Rightarrow> io_req" where
  "req_fail_link_node r res = (req_set_fail r)\<lparr>rq_result := res\<rparr>"

definition fill_cqe_req :: "io_req \<Rightarrow> int \<Rightarrow> submit_ctx \<Rightarrow> submit_ctx" where
  "fill_cqe_req r res ctx =
     (if \<not> has REQ_F_CQE_SKIP r then ctx\<lparr>comps := comps ctx @ [(rq_user_data r, res)]\<rparr>
      else ctx\<lparr>silent := silent ctx @ [rq_user_data r]\<rparr>)"

section \<open>Completion of a chain\<close>

primrec fail_links_loop :: "bool \<Rightarrow> io_req list \<Rightarrow> submit_ctx \<Rightarrow> submit_ctx" where
  "fail_links_loop ignore_cqes [] ctx = ctx"
| "fail_links_loop ignore_cqes (lnk # lnks) ctx =
     (let res = (if has REQ_F_FAIL lnk then rq_result lnk else - ECANCELED);
          ctx = (if \<not> ignore_cqes then fill_cqe_req (clear_flags REQ_F_CQE_SKIP lnk) res ctx
                 else ctx\<lparr>silent := silent ctx @ [rq_user_data lnk]\<rparr>) in
      fail_links_loop ignore_cqes lnks ctx)"

definition io_fail_links :: "io_req \<Rightarrow> io_req list \<Rightarrow> submit_ctx \<Rightarrow> submit_ctx" where
  "io_fail_links req lnks ctx = fail_links_loop (has REQ_F_SKIP_LINK_CQES req) lnks ctx"

text \<open>A linked timeout whose timer cannot be cancelled completes in its callback.\<close>

definition io_kill_linked_timeout :: "submit_env \<Rightarrow> io_req list \<Rightarrow> submit_ctx \<Rightarrow> bool \<times> io_req list \<times> submit_ctx" where
  "io_kill_linked_timeout E lnks ctx = (case lnks of
       [] \<Rightarrow> (False, lnks, ctx)
     | lnk # rest \<Rightarrow>
         if rq_opcode lnk = IORING_OP_LINK_TIMEOUT then
           if timer_cancels E lnk then (True, rest, fill_cqe_req lnk (- ECANCELED) ctx)
           else (False, rest, ctx\<lparr>silent := silent ctx @ [rq_user_data lnk]\<rparr>)
         else (False, lnks, ctx))"

definition io_disarm_next :: "submit_env \<Rightarrow> io_req \<Rightarrow> io_req list \<Rightarrow> submit_ctx \<Rightarrow> bool \<times> io_req list \<times> submit_ctx" where
  "io_disarm_next E req lnks ctx =
     (let (posted, req, lnks, ctx) =
        (if has REQ_F_ARM_LTIMEOUT req then
           let req = clear_flags REQ_F_ARM_LTIMEOUT req in
           (case lnks of
              lnk # rest \<Rightarrow>
                if rq_opcode lnk = IORING_OP_LINK_TIMEOUT then (True, req, rest, fill_cqe_req lnk (- ECANCELED) ctx)
                else (False, req, lnks, ctx)
            | [] \<Rightarrow> (False, req, lnks, ctx))
         else if has REQ_F_LINK_TIMEOUT req then
           let (posted, lnks, ctx) = io_kill_linked_timeout E lnks ctx in (posted, req, lnks, ctx)
         else (False, req, lnks, ctx)) in
      if has REQ_F_FAIL req \<and> \<not> has REQ_F_HARDLINK req then
        (posted \<or> lnks \<noteq> [], [], io_fail_links req lnks ctx)
      else (posted, lnks, ctx))"

text \<open>The completion of the first request of a chain, with its last reference.\<close>

definition io_req_complete_post :: "submit_env \<Rightarrow> io_req list \<Rightarrow> int \<Rightarrow> submit_ctx \<Rightarrow> submit_ctx" where
  "io_req_complete_post E chain res ctx =
     (let req = hd chain; lnks = tl chain;
          ctx = fill_cqe_req req res ctx in
      if has (REQ_F_LINK OR REQ_F_HARDLINK) req then
        let (lnks, ctx) = (if has IO_DISARM_MASK req then snd (io_disarm_next E req lnks ctx) else (lnks, ctx)) in
        if lnks \<noteq> [] then ctx\<lparr>task_next := task_next ctx @ [lnks]\<rparr> else ctx
      else ctx)"

definition io_req_complete_failed :: "submit_env \<Rightarrow> io_req list \<Rightarrow> int \<Rightarrow> submit_ctx \<Rightarrow> submit_ctx" where
  "io_req_complete_failed E chain res ctx = io_req_complete_post E (req_set_fail (hd chain) # tl chain) res ctx"

definition io_req_complete_fail_submit :: "submit_env \<Rightarrow> io_req list \<Rightarrow> submit_ctx \<Rightarrow> submit_ctx" where
  "io_req_complete_fail_submit E chain ctx =
     (let req = set_flags REQ_F_LINK (clear_flags REQ_F_HARDLINK (hd chain)) in
      io_req_complete_failed E (req # tl chain) (rq_result req) ctx)"

definition io_queue_sqe_fallback :: "submit_env \<Rightarrow> io_req list \<Rightarrow> submit_ctx \<Rightarrow> submit_ctx" where
  "io_queue_sqe_fallback E chain ctx =
     (if has REQ_F_FAIL (hd chain) then io_req_complete_fail_submit E chain ctx
      else if sb_drain_active ctx then ctx\<lparr>drained := drained ctx @ [chain]\<rparr>
      else
        let ret = op_prep_async E (hd chain) in
        if ret \<noteq> 0 then io_req_complete_failed E chain ret ctx
        else ctx\<lparr>punted := punted ctx @ [chain]\<rparr>)"

definition io_queue_sqe :: "submit_env \<Rightarrow> io_req list \<Rightarrow> submit_ctx \<Rightarrow> submit_ctx" where
  "io_queue_sqe E chain ctx =
     (if \<not> has (REQ_F_FORCE_ASYNC OR REQ_F_FAIL) (hd chain) then ctx\<lparr>issued := issued ctx @ [chain]\<rparr>
      else io_queue_sqe_fallback E chain ctx)"

section \<open>Submission of an entry\<close>

definition io_check_restriction :: "submit_ctx \<Rightarrow> io_req \<Rightarrow> 32 word \<Rightarrow> bool" where
  "io_check_restriction ctx req flags \<longleftrightarrow> sb_sqe_op ctx (rq_opcode req)
     \<and> flags AND sqe_flags_required ctx = sqe_flags_required ctx
     \<and> flags AND NOT (sqe_flags_allowed ctx OR sqe_flags_required ctx) = 0"

definition map_hd :: "('a \<Rightarrow> 'a) \<Rightarrow> 'a list \<Rightarrow> 'a list" where
  "map_hd f xs = (case xs of [] \<Rightarrow> [] | x # xs \<Rightarrow> f x # xs)"

definition map_last :: "('a \<Rightarrow> 'a) \<Rightarrow> 'a list \<Rightarrow> 'a list" where
  "map_last f xs = (if xs = [] then [] else butlast xs @ [f (last xs)])"

definition io_init_req_drain :: "submit_ctx \<Rightarrow> submit_ctx" where
  "io_init_req_drain ctx =
     (let ctx = ctx\<lparr>sb_drain_active := True\<rparr> in
      if link_chain ctx \<noteq> [] then
        ctx\<lparr>link_chain := map_hd (set_flags (REQ_F_IO_DRAIN OR REQ_F_FORCE_ASYNC)) (link_chain ctx), drain_next := True\<rparr>
      else ctx)"

text \<open>The end of \<open>io_timeout_prep\<close> for a linked timeout; other operations only prepare themselves.\<close>

definition io_req_prep :: "submit_env \<Rightarrow> io_sqe \<Rightarrow> submit_ctx \<Rightarrow> int \<times> submit_ctx" where
  "io_req_prep E sqe ctx =
     (if op_prep E sqe \<noteq> 0 then (op_prep E sqe, ctx)
      else if sqe_opcode sqe = IORING_OP_LINK_TIMEOUT then
        if link_chain ctx = [] then (- EINVAL, ctx)
        else if rq_opcode (last (link_chain ctx)) = IORING_OP_LINK_TIMEOUT then (- EINVAL, ctx)
        else (0, ctx\<lparr>link_chain := map_last (set_flags REQ_F_ARM_LTIMEOUT) (link_chain ctx)\<rparr>)
      else (0, ctx))"

text \<open>The checks of the flags: the result is an error or the context.\<close>

definition init_flags :: "io_sqe \<Rightarrow> submit_ctx \<Rightarrow> int \<times> submit_ctx" where
  "init_flags sqe ctx =
     (let flags = ucast (sqe_flags sqe) :: 32 word in
      if flags AND NOT SQE_COMMON_FLAGS \<noteq> 0 then
        if flags AND NOT SQE_VALID_FLAGS \<noteq> 0 then (- EINVAL, ctx)
        else if flags AND REQ_F_BUFFER_SELECT \<noteq> 0 \<and> \<not> op_buffer_select (sqe_opcode sqe) then (- EOPNOTSUPP, ctx)
        else
          let ctx = (if flags AND REQ_F_CQE_SKIP \<noteq> 0 then ctx\<lparr>drain_disabled := True\<rparr> else ctx) in
          if flags AND REQ_F_IO_DRAIN \<noteq> 0 then
            if drain_disabled ctx then (- EOPNOTSUPP, ctx) else (0, io_init_req_drain ctx)
          else (0, ctx)
      else (0, ctx))"

definition init_drain :: "io_sqe \<Rightarrow> io_req \<Rightarrow> submit_ctx \<Rightarrow> int \<times> io_req \<times> submit_ctx" where
  "init_drain sqe req ctx =
     (if sb_restricted ctx \<or> sb_drain_active ctx \<or> drain_next ctx then
        if sb_restricted ctx \<and> \<not> io_check_restriction ctx req (ucast (sqe_flags sqe)) then (- EACCES, req, ctx)
        else
          let req = (if sb_drain_active ctx then set_flags REQ_F_FORCE_ASYNC req else req) in
          if drain_next ctx \<and> link_chain ctx = [] then
            (0, set_flags (REQ_F_IO_DRAIN OR REQ_F_FORCE_ASYNC) req, ctx\<lparr>drain_next := False, sb_drain_active := True\<rparr>)
          else (0, req, ctx)
      else (0, req, ctx))"

definition io_init_req :: "submit_env \<Rightarrow> io_sqe \<Rightarrow> submit_ctx \<Rightarrow> int \<times> io_req \<times> submit_ctx" where
  "io_init_req E sqe ctx =
     (let req = \<lparr>rq_opcode = sqe_opcode sqe, rq_flags = ucast (sqe_flags sqe), rq_user_data = sqe_user_data sqe, rq_result = 0\<rparr> in
      if sqe_opcode sqe \<ge> IORING_OP_LAST then (- EINVAL, req\<lparr>rq_opcode := 0\<rparr>, ctx)
      else
        let (ret, ctx) = init_flags sqe ctx in
        if ret \<noteq> 0 then (ret, req, ctx)
        else
          let (ret, req, ctx) = init_drain sqe req ctx in
          if ret \<noteq> 0 then (ret, req, ctx)
          else if override_creds E sqe \<noteq> 0 then (override_creds E sqe, req, ctx)
          else let (ret, ctx) = io_req_prep E sqe ctx in (ret, req, ctx))"

definition cancel_head :: "io_req list \<Rightarrow> io_req list" where
  "cancel_head = map_hd (\<lambda>h. if has REQ_F_FAIL h then h else req_fail_link_node h (- ECANCELED))"

text \<open>The part of \<open>io_submit_sqe\<close> after the initialization.\<close>

definition submit_req :: "submit_env \<Rightarrow> io_req \<Rightarrow> submit_ctx \<Rightarrow> submit_ctx" where
  "submit_req E req ctx =
     (if link_chain ctx \<noteq> [] then
        let ret = (if has REQ_F_FAIL req then 0 else op_prep_async E req);
            (req, ctx) = (if ret \<noteq> 0 then (req_fail_link_node req ret, ctx\<lparr>link_chain := cancel_head (link_chain ctx)\<rparr>) else (req, ctx));
            chain = link_chain ctx @ [req] in
        if has (REQ_F_LINK OR REQ_F_HARDLINK) req then ctx\<lparr>link_chain := chain\<rparr>
        else io_queue_sqe E chain (ctx\<lparr>link_chain := []\<rparr>)
      else if has (REQ_F_LINK OR REQ_F_HARDLINK) req then ctx\<lparr>link_chain := [req]\<rparr>
      else io_queue_sqe E [req] ctx)"

definition io_submit_sqe :: "submit_env \<Rightarrow> io_sqe \<Rightarrow> submit_ctx \<Rightarrow> int \<times> submit_ctx" where
  "io_submit_sqe E sqe ctx =
     (let (ret, req, ctx) = io_init_req E sqe ctx in
      if ret \<noteq> 0 then
        if link_chain ctx \<noteq> [] then
          (0, submit_req E (req_fail_link_node req ret) (ctx\<lparr>link_chain := cancel_head (link_chain ctx)\<rparr>))
        else if \<not> has (REQ_F_LINK OR REQ_F_HARDLINK) req then (ret, io_req_complete_failed E [req] ret ctx)
        else (0, submit_req E (req_fail_link_node req ret) ctx)
      else (0, submit_req E req ctx))"

definition io_submit_state_end :: "submit_env \<Rightarrow> submit_ctx \<Rightarrow> submit_ctx" where
  "io_submit_state_end E ctx = (if link_chain ctx \<noteq> [] then io_queue_sqe E (link_chain ctx) ctx else ctx)"

section \<open>The submission ring\<close>

record sq_ring =
  sq_head :: "32 word"
  sq_tail :: "32 word"
  cached_sq_head :: "32 word"
  sq_entries :: "32 word"
  sq_array :: "32 word list"
  sq_sqes :: "io_sqe list"
  sq_dropped :: "32 word"
  sq_cq_extra :: "32 word"
  setup_submit_all :: bool
  cached_refs :: int
  sub :: submit_ctx

definition io_sqring_entries :: "sq_ring \<Rightarrow> 32 word" where
  "io_sqring_entries rg = sq_tail rg - cached_sq_head rg"

definition io_get_sqe :: "sq_ring \<Rightarrow> io_sqe option \<times> sq_ring" where
  "io_get_sqe rg =
     (let msk = sq_entries rg - 1;
          sq_idx = cached_sq_head rg AND msk;
          rg = rg\<lparr>cached_sq_head := cached_sq_head rg + 1\<rparr>;
          head = sq_array rg ! unat sq_idx in
      if head < sq_entries rg then (Some (sq_sqes rg ! unat head), rg)
      else (None, rg\<lparr>sq_cq_extra := sq_cq_extra rg - 1, sq_dropped := sq_dropped rg + 1\<rparr>))"

definition io_commit_sqring :: "sq_ring \<Rightarrow> sq_ring" where
  "io_commit_sqring rg = rg\<lparr>sq_head := cached_sq_head rg\<rparr>"

definition IO_TCTX_REFS_CACHE_NR :: int where "IO_TCTX_REFS_CACHE_NR = 1024"

definition io_task_refs_refill :: "sq_ring \<Rightarrow> sq_ring" where
  "io_task_refs_refill rg = (let refill = - cached_refs rg + IO_TCTX_REFS_CACHE_NR in rg\<lparr>cached_refs := cached_refs rg + refill\<rparr>)"

definition io_get_task_refs :: "nat \<Rightarrow> sq_ring \<Rightarrow> sq_ring" where
  "io_get_task_refs nr rg =
     (let rg = rg\<lparr>cached_refs := cached_refs rg - int nr\<rparr> in if cached_refs rg < 0 then io_task_refs_refill rg else rg)"

definition io_submit_state_start :: "submit_ctx \<Rightarrow> submit_ctx" where
  "io_submit_state_start ctx = ctx\<lparr>link_chain := []\<rparr>"

text \<open>
  The loop, which runs at least once; \<open>alloc i\<close> is the success of the allocation of the \<open>i\<close>-th
  request. The flush of completions at the end of a batch is left to the ring of \<open>Uring_Cq\<close>.
\<close>

primrec submit_loop :: "submit_env \<Rightarrow> (nat \<Rightarrow> bool) \<Rightarrow> nat \<Rightarrow> nat \<Rightarrow> sq_ring \<Rightarrow> int \<times> sq_ring" where
  "submit_loop E alloc 0 submitted rg = (int submitted, rg)"
| "submit_loop E alloc (Suc n) submitted rg =
     (if \<not> alloc submitted then (if submitted = 0 then - EAGAIN else int submitted, rg)
      else case io_get_sqe rg of
        (None, rg) \<Rightarrow> (int submitted, rg)
      | (Some sqe, rg) \<Rightarrow>
          let (ret, ctx) = io_submit_sqe E sqe (sub rg); rg = rg\<lparr>sub := ctx\<rparr> in
          if ret \<noteq> 0 \<and> \<not> setup_submit_all rg then (int submitted + 1, rg)
          else submit_loop E alloc n (submitted + 1) rg)"

definition io_submit_sqes :: "submit_env \<Rightarrow> (nat \<Rightarrow> bool) \<Rightarrow> nat \<Rightarrow> sq_ring \<Rightarrow> int \<times> sq_ring" where
  "io_submit_sqes E alloc nr rg =
     (let entries = io_sqring_entries rg in
      if entries = 0 then (0, rg)
      else
        let nr = min nr (min (unat (sq_entries rg)) (unat entries));
            rg = io_get_task_refs nr rg;
            rg = rg\<lparr>sub := io_submit_state_start (sub rg)\<rparr>;
            (submitted, rg) = submit_loop E alloc (max 1 nr) 0 rg;
            rg = (if submitted \<noteq> int nr then
                    let ref_used = (if submitted = - EAGAIN then 0 else submitted) in
                    rg\<lparr>cached_refs := cached_refs rg + (int nr - ref_used)\<rparr>
                  else rg);
            rg = rg\<lparr>sub := io_submit_state_end E (sub rg)\<rparr> in
        (submitted, io_commit_sqring rg))"

section \<open>Where requests go\<close>

lemma has_set: "has f (set_flags g r) \<longleftrightarrow> has f r \<or> g AND f \<noteq> 0"
  by (auto simp: has_def set_flags_def bit.conj_disj_distrib2 or_eq_0_iff)

lemma has_or: "has (f OR g) r \<longleftrightarrow> has f r \<or> has g r"
  by (auto simp: has_def bit.conj_disj_distrib or_eq_0_iff)

lemma has_clear: "has f (clear_flags f r) \<longleftrightarrow> False"
  by (simp add: has_def clear_flags_def and.assoc)

lemma has_clear_other: "f AND g = 0 \<Longrightarrow> has f (clear_flags g r) \<longleftrightarrow> has f r"
proof -
  assume "f AND g = 0"
  then have "\<not> (bit f n \<and> bit g n)" for n by (simp flip: bit_and_iff)
  then have "NOT g AND f = f" by (intro bit_word_eqI) (auto simp: bit_simps)
  then show ?thesis by (simp add: has_def clear_flags_def and.assoc)
qed

lemma has_fail_frame:
  "has REQ_F_FAIL (set_flags REQ_F_LINK r) = has REQ_F_FAIL r" "has REQ_F_FAIL (clear_flags REQ_F_HARDLINK r) = has REQ_F_FAIL r"
  "has REQ_F_FAIL (set_flags REQ_F_ARM_LTIMEOUT r) = has REQ_F_FAIL r" "has REQ_F_FAIL (clear_flags REQ_F_ARM_LTIMEOUT r) = has REQ_F_FAIL r"
  "has REQ_F_FAIL (set_flags (REQ_F_IO_DRAIN OR REQ_F_FORCE_ASYNC) r) = has REQ_F_FAIL r"
  "has REQ_F_FAIL (set_flags REQ_F_FORCE_ASYNC r) = has REQ_F_FAIL r"
  by (simp_all add: has_set has_clear_other REQ_F_defs)

lemma has_fail_set_fail: "has REQ_F_FAIL (req_set_fail r)"
  by (simp add: req_set_fail_def Let_def has_set has_clear_other REQ_F_defs)

lemma has_link_frame:
  "has f (req_set_fail r) = has f r" if "f \<in> {REQ_F_LINK, REQ_F_HARDLINK}"
  using that by (auto simp: req_set_fail_def Let_def has_set has_clear_other REQ_F_defs)

lemma user_data_frame [simp]:
  "rq_user_data (set_flags f r) = rq_user_data r" "rq_user_data (clear_flags f r) = rq_user_data r"
  "rq_user_data (req_set_fail r) = rq_user_data r" "rq_user_data (req_fail_link_node r res) = rq_user_data r"
  by (simp_all add: set_flags_def clear_flags_def req_set_fail_def req_fail_link_node_def Let_def)

definition places :: "submit_ctx \<Rightarrow> io_req list list" where
  "places ctx = issued ctx @ punted ctx @ drained ctx @ task_next ctx"

definition chain_uds :: "io_req list \<Rightarrow> 64 word multiset" where
  "chain_uds chain = mset (map rq_user_data chain)"

definition all_uds :: "submit_ctx \<Rightarrow> 64 word multiset" where
  "all_uds ctx = mset (map fst (comps ctx)) + mset (silent ctx) + chain_uds (concat (places ctx))"

lemma chain_uds_simps [simp]:
  "chain_uds [] = {#}" "chain_uds (r # rs) = add_mset (rq_user_data r) (chain_uds rs)" "chain_uds (rs @ rs') = chain_uds rs + chain_uds rs'"
  by (simp_all add: chain_uds_def)

lemma fill_cqe_req_places:
  "places (fill_cqe_req r res ctx) = places ctx \<and> link_chain (fill_cqe_req r res ctx) = link_chain ctx
    \<and> all_uds (fill_cqe_req r res ctx) = add_mset (rq_user_data r) (all_uds ctx)"
  by (simp add: fill_cqe_req_def places_def all_uds_def)

lemma silent_places:
  "places (ctx\<lparr>silent := silent ctx @ [u]\<rparr>) = places ctx \<and> link_chain (ctx\<lparr>silent := silent ctx @ [u]\<rparr>) = link_chain ctx
    \<and> all_uds (ctx\<lparr>silent := silent ctx @ [u]\<rparr>) = add_mset u (all_uds ctx)"
  by (simp add: places_def all_uds_def)

lemma fail_links_places:
  "places (fail_links_loop ig lnks ctx) = places ctx \<and> link_chain (fail_links_loop ig lnks ctx) = link_chain ctx
    \<and> all_uds (fail_links_loop ig lnks ctx) = all_uds ctx + chain_uds lnks"
proof (induction lnks arbitrary: ctx)
  case (Cons r lnks)
  show ?case using Cons.IH by (auto simp: Let_def fill_cqe_req_places silent_places)
qed simp

text \<open>What is left of the links is an end of them, and nothing is left of the links of a request that failed and has no hard link.\<close>

lemma disarm_places:
  assumes "io_disarm_next E req lnks ctx = (posted, lnks', ctx')"
  shows "places ctx' = places ctx \<and> link_chain ctx' = link_chain ctx \<and> all_uds ctx' + chain_uds lnks' = all_uds ctx + chain_uds lnks
    \<and> suffix lnks' lnks \<and> (has REQ_F_FAIL req \<and> \<not> has REQ_F_HARDLINK req \<longrightarrow> lnks' = [])"
proof -
  have hard: "has REQ_F_HARDLINK (clear_flags REQ_F_ARM_LTIMEOUT req) = has REQ_F_HARDLINK req"
    by (simp add: has_clear_other REQ_F_defs)
  from assms show ?thesis
    unfolding io_disarm_next_def io_kill_linked_timeout_def io_fail_links_def
    by (auto simp: Let_def fill_cqe_req_places silent_places fail_links_places hard has_fail_frame suffix_ConsI
        split: if_splits list.splits prod.splits)
qed

abbreviation linked :: "io_req \<Rightarrow> bool" where
  "linked r \<equiv> has (REQ_F_LINK OR REQ_F_HARDLINK) r"

lemma complete_post_places:
  assumes "lnks \<noteq> [] \<Longrightarrow> linked req" and ctx': "ctx' = io_req_complete_post E (req # lnks) res ctx"
  shows "link_chain ctx' = link_chain ctx \<and> all_uds ctx' = all_uds ctx + chain_uds (req # lnks)
    \<and> (\<forall>ch \<in> set (places ctx'). ch \<in> set (places ctx) \<or> suffix ch lnks \<and> \<not> (has REQ_F_FAIL req \<and> \<not> has REQ_F_HARDLINK req))"
proof (cases "linked req")
  case False
  with assms(1) have "lnks = []" by blast
  with False ctx' show ?thesis by (simp add: io_req_complete_post_def fill_cqe_req_places)
next
  case True
  define ctx1 where "ctx1 = fill_cqe_req req res ctx"
  define lnks2 ctx2 where "lnks2 = (if has IO_DISARM_MASK req then fst (snd (io_disarm_next E req lnks ctx1)) else lnks)"
    and "ctx2 = (if has IO_DISARM_MASK req then snd (snd (io_disarm_next E req lnks ctx1)) else ctx1)"
  have mask: "has REQ_F_FAIL req \<Longrightarrow> has IO_DISARM_MASK req" by (simp add: IO_DISARM_MASK_def has_or)
  have 1: "places ctx1 = places ctx" "link_chain ctx1 = link_chain ctx" "all_uds ctx1 = add_mset (rq_user_data req) (all_uds ctx)"
    by (simp_all add: ctx1_def fill_cqe_req_places)
  obtain posted l c where "io_disarm_next E req lnks ctx1 = (posted, l, c)" by (metis prod_cases3)
  with disarm_places [OF this] mask
  have 2: "places ctx2 = places ctx1" "link_chain ctx2 = link_chain ctx1" "all_uds ctx2 + chain_uds lnks2 = all_uds ctx1 + chain_uds lnks"
    "suffix lnks2 lnks" "has REQ_F_FAIL req \<and> \<not> has REQ_F_HARDLINK req \<longrightarrow> lnks2 = []"
    by (auto simp: ctx2_def lnks2_def)
  have ctx'2: "ctx' = (if lnks2 \<noteq> [] then ctx2\<lparr>task_next := task_next ctx2 @ [lnks2]\<rparr> else ctx2)"
    using True by (simp add: ctx' io_req_complete_post_def Let_def ctx2_def lnks2_def ctx1_def split: prod.split)
  have new: "set (places (ctx2\<lparr>task_next := task_next ctx2 @ [lnks2]\<rparr>)) = insert lnks2 (set (places ctx2))"
    "all_uds (ctx2\<lparr>task_next := task_next ctx2 @ [lnks2]\<rparr>) = all_uds ctx2 + chain_uds lnks2"
    by (auto simp: places_def all_uds_def)
  show ?thesis
  proof (cases "lnks2 = []")
    case True
    with 1 2 show ?thesis by (simp add: ctx'2)
  next
    case False
    with 1 2 show ?thesis by (auto simp: ctx'2 new)
  qed
qed

lemma queue_sqe_places:
  assumes "lnks \<noteq> [] \<Longrightarrow> linked req" and ctx': "ctx' = io_queue_sqe E (req # lnks) ctx"
  shows "link_chain ctx' = link_chain ctx \<and> all_uds ctx' = all_uds ctx + chain_uds (req # lnks)
    \<and> (\<forall>ch \<in> set (places ctx'). ch \<in> set (places ctx) \<or> suffix ch (req # lnks) \<and> \<not> has REQ_F_FAIL req)"
proof -
  have flags: "has (REQ_F_FORCE_ASYNC OR REQ_F_FAIL) req \<longleftrightarrow> has REQ_F_FORCE_ASYNC req \<or> has REQ_F_FAIL req" by (rule has_or)
  have links: "linked (req_set_fail r) = linked r" for r by (simp add: has_or has_link_frame)
  consider (issue) "\<not> has REQ_F_FORCE_ASYNC req" "\<not> has REQ_F_FAIL req" | (fail) "has REQ_F_FAIL req"
    | (drain) "has REQ_F_FORCE_ASYNC req" "\<not> has REQ_F_FAIL req" "sb_drain_active ctx"
    | (bad) "has REQ_F_FORCE_ASYNC req" "\<not> has REQ_F_FAIL req" "\<not> sb_drain_active ctx" "op_prep_async E req \<noteq> 0"
    | (punt) "has REQ_F_FORCE_ASYNC req" "\<not> has REQ_F_FAIL req" "\<not> sb_drain_active ctx" "op_prep_async E req = 0"
    by blast
  then show ?thesis
  proof cases
    case fail
    let ?req = "req_set_fail (set_flags REQ_F_LINK (clear_flags REQ_F_HARDLINK req))"
    have "linked ?req" "has REQ_F_FAIL ?req" "\<not> has REQ_F_HARDLINK ?req"
      by (simp_all add: links has_or has_set has_clear has_link_frame has_fail_set_fail) (simp_all add: REQ_F_defs)
    moreover have "ctx' = io_req_complete_post E (?req # lnks) (rq_result (set_flags REQ_F_LINK (clear_flags REQ_F_HARDLINK req))) ctx"
      using fail by (simp add: ctx' io_queue_sqe_def flags io_queue_sqe_fallback_def io_req_complete_fail_submit_def
          io_req_complete_failed_def Let_def)
    ultimately show ?thesis using complete_post_places [of lnks ?req ctx' E _ ctx] by auto
  next
    case bad
    then have "ctx' = io_req_complete_post E (req_set_fail req # lnks) (op_prep_async E req) ctx"
      by (simp add: ctx' io_queue_sqe_def flags io_queue_sqe_fallback_def io_req_complete_failed_def)
    with complete_post_places [of lnks "req_set_fail req" ctx' E "op_prep_async E req" ctx] assms(1) links bad(2) show ?thesis
      by (auto simp: suffix_ConsI)
  qed (auto simp: ctx' io_queue_sqe_def flags io_queue_sqe_fallback_def places_def all_uds_def)
qed

text \<open>The initialization changes only flags of the chain: identities and failures stay, links stay linked.\<close>

definition same_req :: "io_req \<Rightarrow> io_req \<Rightarrow> bool" where
  "same_req r r' \<longleftrightarrow> rq_user_data r' = rq_user_data r \<and> has REQ_F_FAIL r' = has REQ_F_FAIL r \<and> linked r' = linked r"

lemma same_req_flags:
  "same_req r r" "same_req r (set_flags REQ_F_FORCE_ASYNC r)" "same_req r (set_flags REQ_F_ARM_LTIMEOUT r)"
  "same_req r (set_flags (REQ_F_IO_DRAIN OR REQ_F_FORCE_ASYNC) r)"
  by (simp_all add: same_req_def has_fail_frame has_or has_set) (simp_all add: REQ_F_defs)

lemma same_req_trans: "same_req a b \<Longrightarrow> same_req b c \<Longrightarrow> same_req a c"
  by (simp add: same_req_def)

lemma same_chain_hd: "\<forall>r. same_req r (f r) \<Longrightarrow> list_all2 same_req xs (map_hd f xs)"
  by (cases xs) (simp_all add: map_hd_def list.rel_refl same_req_flags)

lemma same_chain_last: "\<forall>r. same_req r (f r) \<Longrightarrow> list_all2 same_req xs (map_last f xs)"
  by (cases xs rule: rev_cases) (simp_all add: map_last_def list_all2_append list.rel_refl same_req_flags)

definition same_but_flags :: "submit_ctx \<Rightarrow> submit_ctx \<Rightarrow> bool" where
  "same_but_flags ctx ctx' \<longleftrightarrow> places ctx' = places ctx \<and> all_uds ctx' = all_uds ctx \<and> list_all2 same_req (link_chain ctx) (link_chain ctx')"

lemma same_but_flags_trans: "same_but_flags a b \<Longrightarrow> same_but_flags b c \<Longrightarrow> same_but_flags a c"
  unfolding same_but_flags_def using list_all2_trans [of same_req same_req same_req, OF same_req_trans] by auto

lemma same_but_flagsI:
  "list_all2 same_req (link_chain ctx) L \<Longrightarrow> same_but_flags ctx (ctx\<lparr>link_chain := L\<rparr>)"
  "same_but_flags ctx ctx" "same_but_flags ctx (ctx\<lparr>drain_disabled := b\<rparr>)" "same_but_flags ctx (ctx\<lparr>sb_drain_active := b\<rparr>)"
  "same_but_flags ctx (ctx\<lparr>drain_next := b, sb_drain_active := b'\<rparr>)"
  by (simp_all add: same_but_flags_def places_def all_uds_def list.rel_refl same_req_flags)

lemma init_drain_same: "same_but_flags ctx (io_init_req_drain ctx)"
proof -
  let ?L = "map_hd (set_flags (REQ_F_IO_DRAIN OR REQ_F_FORCE_ASYNC)) (link_chain ctx)"
  have "list_all2 same_req (link_chain ctx) ?L" by (intro same_chain_hd allI same_req_flags)
  then show ?thesis
    by (simp add: io_init_req_drain_def Let_def same_but_flags_def places_def all_uds_def list.rel_refl same_req_flags)
qed

lemma init_req_same:
  assumes "io_init_req E sqe ctx = (ret, req, ctx')"
  shows "same_but_flags ctx ctx' \<and> rq_user_data req = sqe_user_data sqe \<and> \<not> has REQ_F_FAIL req"
proof -
  let ?req = "\<lparr>rq_opcode = sqe_opcode sqe, rq_flags = ucast (sqe_flags sqe), rq_user_data = sqe_user_data sqe, rq_result = 0\<rparr>"
  have nofail: "(ucast (sqe_flags sqe) :: 32 word) AND REQ_F_FAIL = 0"
    unfolding REQ_F_FAIL_def and_exp_eq_0_iff_not_bit by (auto simp: bit_unsigned_iff dest: bit_imp_le_length)
  then have req0: "\<not> has REQ_F_FAIL ?req" "\<not> has REQ_F_FAIL (?req\<lparr>rq_opcode := 0\<rparr>)" by (simp_all add: has_def)
  have flags: "same_but_flags ctx c" if "init_flags sqe ctx = (ret, c)" for ret c
    using that init_drain_same same_but_flags_trans [OF same_but_flagsI(3) init_drain_same, of ctx True]
    by (auto simp: init_flags_def Let_def same_but_flagsI split: if_splits)
  have drain: "same_but_flags c c' \<and> same_req r r'" if "init_drain sqe r c = (ret, r', c')" for ret r r' c c'
    using that by (auto simp: init_drain_def Let_def same_but_flagsI same_req_flags split: if_splits intro: same_req_trans [OF same_req_flags(2) same_req_flags(4)])
  have prep: "same_but_flags c c'" if "io_req_prep E sqe c = (ret, c')" for ret c c'
    using that by (auto simp: io_req_prep_def intro!: same_but_flagsI same_chain_last same_req_flags split: if_splits)
  from assms req0 show ?thesis
    unfolding io_init_req_def
    by (auto simp: Let_def same_but_flagsI(2) same_req_def split: if_splits prod.splits
        dest!: flags drain prep intro: same_but_flags_trans)
qed

section \<open>Every chain is executed as a whole or not at all\<close>

text \<open>\<open>uds\<close> are the entries that were submitted, in their order.\<close>

definition submit_inv :: "64 word list \<Rightarrow> submit_ctx \<Rightarrow> bool" where
  "submit_inv uds ctx \<longleftrightarrow> mset uds = all_uds ctx + chain_uds (link_chain ctx)
     \<and> (\<forall>ch \<in> set (places ctx). (\<forall>r \<in> set ch. \<not> has REQ_F_FAIL r) \<and> sublist (map rq_user_data ch) uds)
     \<and> (\<forall>r \<in> set (link_chain ctx). linked r) \<and> suffix (map rq_user_data (link_chain ctx)) uds
     \<and> ((\<exists>r \<in> set (link_chain ctx). has REQ_F_FAIL r) \<longrightarrow> has REQ_F_FAIL (hd (link_chain ctx)))"

lemma same_chain_facts:
  assumes "list_all2 same_req xs ys"
  shows "map rq_user_data ys = map rq_user_data xs" "chain_uds ys = chain_uds xs" "(\<forall>r \<in> set ys. linked r) = (\<forall>r \<in> set xs. linked r)"
    "(\<exists>r \<in> set ys. has REQ_F_FAIL r) = (\<exists>r \<in> set xs. has REQ_F_FAIL r)" "xs \<noteq> [] \<Longrightarrow> has REQ_F_FAIL (hd ys) = has REQ_F_FAIL (hd xs)"
  using assms by (induction rule: list_all2_induct) (auto simp: same_req_def)

lemma submit_inv_same:
  assumes "submit_inv uds ctx" "same_but_flags ctx ctx'"
  shows "submit_inv uds ctx'"
proof (cases "link_chain ctx = []")
  case True
  with assms show ?thesis by (auto simp: submit_inv_def same_but_flags_def)
next
  case False
  have "list_all2 same_req (link_chain ctx) (link_chain ctx')" using assms(2) by (simp add: same_but_flags_def)
  note facts = same_chain_facts [OF this]
  from assms facts(5) [OF False] show ?thesis
    unfolding submit_inv_def same_but_flags_def facts(1-4) by simp
qed

text \<open>A chain that is queued, whose first request is marked when any of them failed.\<close>

lemma queue_good:
  assumes "\<forall>ch \<in> set (places ctx). (\<forall>r \<in> set ch. \<not> has REQ_F_FAIL r) \<and> sublist (map rq_user_data ch) uds"
    "mset uds = all_uds ctx + chain_uds (req # lnks)" "lnks \<noteq> [] \<Longrightarrow> linked req"
    "\<exists>r \<in> set (req # lnks). has REQ_F_FAIL r \<Longrightarrow> has REQ_F_FAIL req" "suffix (map rq_user_data (req # lnks)) uds"
    and ctx'_def: "ctx' = io_queue_sqe E (req # lnks) ctx"
  shows "(\<forall>ch \<in> set (places ctx'). (\<forall>r \<in> set ch. \<not> has REQ_F_FAIL r) \<and> sublist (map rq_user_data ch) uds)
    \<and> mset uds = all_uds ctx' \<and> link_chain ctx' = link_chain ctx"
proof -
  from queue_sqe_places [OF assms(3) ctx'_def]
  have q: "link_chain ctx' = link_chain ctx" "all_uds ctx' = all_uds ctx + chain_uds (req # lnks)"
    "\<And>ch. ch \<in> set (places ctx') \<Longrightarrow> ch \<in> set (places ctx) \<or> suffix ch (req # lnks) \<and> \<not> has REQ_F_FAIL req" by simp_all
  have "(\<forall>r \<in> set ch. \<not> has REQ_F_FAIL r) \<and> sublist (map rq_user_data ch) uds" if "suffix ch (req # lnks)" "\<not> has REQ_F_FAIL req" for ch
  proof
    show "\<forall>r \<in> set ch. \<not> has REQ_F_FAIL r" using assms(4) that set_mono_suffix [OF that(1)] by blast
    have "suffix (map rq_user_data ch) (map rq_user_data (req # lnks))" using that(1) by (rule map_mono_suffix)
    with assms(5) show "sublist (map rq_user_data ch) uds" by (meson suffix_order.trans suffix_imp_sublist)
  qed
  with q(3) assms(1) have "\<forall>ch \<in> set (places ctx'). (\<forall>r \<in> set ch. \<not> has REQ_F_FAIL r) \<and> sublist (map rq_user_data ch) uds" by blast
  then show ?thesis using q(1,2) assms(2) by simp
qed

lemma cancel_head_facts:
  assumes "L \<noteq> []"
  shows "cancel_head L \<noteq> []" "has REQ_F_FAIL (hd (cancel_head L))" "map rq_user_data (cancel_head L) = map rq_user_data L"
    "(\<forall>r \<in> set (cancel_head L). linked r) = (\<forall>r \<in> set L. linked r)"
proof -
  obtain r rs where L: "L = r # rs" using assms by (cases L) auto
  have "has f (req_fail_link_node r res) = has f (req_set_fail r)" for f res by (simp add: has_def req_fail_link_node_def)
  then have "linked (req_fail_link_node r res) = linked r" "has REQ_F_FAIL (req_fail_link_node r res)" for res
    by (simp_all add: has_or has_link_frame has_fail_set_fail)
  then show "cancel_head L \<noteq> []" "has REQ_F_FAIL (hd (cancel_head L))" "map rq_user_data (cancel_head L) = map rq_user_data L"
    "(\<forall>r \<in> set (cancel_head L). linked r) = (\<forall>r \<in> set L. linked r)"
    by (simp_all add: L cancel_head_def map_hd_def)
qed

lemma submit_inv_cancel:
  assumes "submit_inv uds ctx" "link_chain ctx \<noteq> []"
  shows "submit_inv uds (ctx\<lparr>link_chain := cancel_head (link_chain ctx)\<rparr>)"
proof -
  note c = cancel_head_facts [OF assms(2)]
  have "places (ctx\<lparr>link_chain := L\<rparr>) = places ctx" "all_uds (ctx\<lparr>link_chain := L\<rparr>) = all_uds ctx" for L
    by (simp_all add: places_def all_uds_def)
  with assms(1) c show ?thesis by (simp add: submit_inv_def chain_uds_def)
qed

lemma sublist_snoc: "sublist xs ys \<Longrightarrow> sublist xs (ys @ zs)"
  unfolding sublist_def by (metis append.assoc)

text \<open>The step for a request whose failure is known to the first request of its chain.\<close>

lemma submit_req_inv:
  assumes "submit_inv uds ctx" "has REQ_F_FAIL req \<Longrightarrow> link_chain ctx \<noteq> [] \<Longrightarrow> has REQ_F_FAIL (hd (link_chain ctx))"
  shows "submit_inv (uds @ [rq_user_data req]) (submit_req E req ctx)"
proof -
  let ?uds = "uds @ [rq_user_data req]"
  have append: "submit_inv ?uds (if linked r then c\<lparr>link_chain := link_chain c @ [r]\<rparr> else io_queue_sqe E (link_chain c @ [r]) (c\<lparr>link_chain := []\<rparr>))"
    if inv: "submit_inv uds c" and r: "rq_user_data r = rq_user_data req" "has REQ_F_FAIL r \<Longrightarrow> link_chain c \<noteq> [] \<Longrightarrow> has REQ_F_FAIL (hd (link_chain c))"
    for c r
  proof -
    have frame: "places (c\<lparr>link_chain := L\<rparr>) = places c" "all_uds (c\<lparr>link_chain := L\<rparr>) = all_uds c" for L
      by (simp_all add: places_def all_uds_def)
    have old: "\<forall>ch \<in> set (places c). (\<forall>r \<in> set ch. \<not> has REQ_F_FAIL r) \<and> sublist (map rq_user_data ch) ?uds"
      using inv by (auto simp: submit_inv_def sublist_snoc)
    have all: "mset ?uds = all_uds c + chain_uds (link_chain c @ [r])" using inv r(1) by (simp add: submit_inv_def)
    have suf: "suffix (map rq_user_data (link_chain c @ [r])) ?uds" using inv r(1) by (simp add: submit_inv_def)
    have fail: "has REQ_F_FAIL (hd (link_chain c @ [r]))" if "\<exists>x \<in> set (link_chain c @ [r]). has REQ_F_FAIL x"
      using that inv r(2) by (cases "link_chain c = []") (auto simp: submit_inv_def)
    have links: "\<forall>x \<in> set (link_chain c). linked x" using inv by (simp add: submit_inv_def)
    show ?thesis
    proof (cases "linked r")
      case True
      with old all suf fail links show ?thesis by (simp add: submit_inv_def frame)
    next
      case False
      obtain q qs where chain: "link_chain c @ [r] = q # qs" by (metis append_is_Nil_conv neq_Nil_conv not_Cons_self2)
      have linked: "qs \<noteq> [] \<Longrightarrow> linked q" using chain links by (cases "link_chain c") auto
      have fail': "\<exists>x \<in> set (q # qs). has REQ_F_FAIL x \<Longrightarrow> has REQ_F_FAIL q" using fail unfolding chain by simp
      have "submit_inv ?uds (io_queue_sqe E (q # qs) (c\<lparr>link_chain := []\<rparr>))"
        using queue_good [OF old [folded frame(1) [of "[]"]] all [unfolded chain, folded frame(2) [of "[]"]] linked fail' suf [unfolded chain] refl, of E]
        by (simp add: submit_inv_def)
      with False show ?thesis by (simp add: chain)
    qed
  qed
  show ?thesis
  proof (cases "link_chain ctx = []")
    case True
    have same: "io_queue_sqe E [req] (ctx\<lparr>link_chain := []\<rparr>) = io_queue_sqe E [req] ctx" using True by (cases ctx) simp
    with append [OF assms(1) refl] True show ?thesis by (auto simp: submit_req_def)
  next
    case False
    define ret where "ret = (if has REQ_F_FAIL req then 0 else op_prep_async E req)"
    show ?thesis
    proof (cases "ret = 0")
      case True
      with append [OF assms(1) refl assms(2)] False show ?thesis by (simp add: submit_req_def ret_def [symmetric] Let_def)
    next
      case False': False
      let ?c = "ctx\<lparr>link_chain := cancel_head (link_chain ctx)\<rparr>"
      have "submit_inv ?uds (submit_req E req ctx)"
        using append [OF submit_inv_cancel [OF assms(1) False], of "req_fail_link_node req ret"] cancel_head_facts(2) [OF False] False False'
        by (simp add: submit_req_def ret_def [symmetric] Let_def split: if_splits)
      then show ?thesis .
    qed
  qed
qed

lemma submit_sqe_inv:
  assumes "submit_inv uds ctx"
  shows "submit_inv (uds @ [sqe_user_data sqe]) (snd (io_submit_sqe E sqe ctx))"
proof -
  obtain ret req ctx1 where init: "io_init_req E sqe ctx = (ret, req, ctx1)" by (metis prod_cases3)
  from init_req_same [OF init] have req: "rq_user_data req = sqe_user_data sqe" "\<not> has REQ_F_FAIL req"
    and inv: "submit_inv uds ctx1" using submit_inv_same [OF assms] by simp_all
  consider (ok) "ret = 0" | (link) "ret \<noteq> 0" "link_chain ctx1 \<noteq> []" | (single) "ret \<noteq> 0" "link_chain ctx1 = []" "\<not> linked req"
    | (first) "ret \<noteq> 0" "link_chain ctx1 = []" "linked req" by blast
  then show ?thesis
  proof cases
    case ok
    with submit_req_inv [OF inv, of req E] req init show ?thesis by (simp add: io_submit_sqe_def)
  next
    case link
    with submit_req_inv [OF submit_inv_cancel [OF inv], of "req_fail_link_node req ret" E] cancel_head_facts(2) req(1) init
    show ?thesis by (simp add: io_submit_sqe_def)
  next
    case single
    have "snd (io_submit_sqe E sqe ctx) = io_req_complete_post E [req_set_fail req] ret ctx1"
      using single init by (simp add: io_submit_sqe_def io_req_complete_failed_def)
    with complete_post_places [of "[]" "req_set_fail req" "snd (io_submit_sqe E sqe ctx)" E ret ctx1] inv single(2) req(1)
    have post: "link_chain (snd (io_submit_sqe E sqe ctx)) = []" "all_uds (snd (io_submit_sqe E sqe ctx)) = add_mset (sqe_user_data sqe) (all_uds ctx1)"
      "\<And>ch. ch \<in> set (places (snd (io_submit_sqe E sqe ctx))) \<Longrightarrow> ch \<in> set (places ctx1) \<or> ch = []" by auto
    have "sublist (map rq_user_data ch) (uds @ [sqe_user_data sqe]) \<and> (\<forall>r \<in> set ch. \<not> has REQ_F_FAIL r)"
      if "ch \<in> set (places (snd (io_submit_sqe E sqe ctx)))" for ch
      using post(3) [OF that] inv by (auto simp: submit_inv_def sublist_snoc)
    with post(1,2) inv single(2) show ?thesis by (simp add: submit_inv_def)
  next
    case first
    with submit_req_inv [OF inv, of "req_fail_link_node req ret" E] req(1) init show ?thesis by (simp add: io_submit_sqe_def)
  qed
qed

text \<open>The entries of the ring in their order.\<close>

definition nth_sqe :: "sq_ring \<Rightarrow> nat \<Rightarrow> io_sqe" where
  "nth_sqe rg i = sq_sqes rg ! unat (sq_array rg ! unat ((cached_sq_head rg + word_of_nat i) AND (sq_entries rg - 1)))"

definition first_uds :: "sq_ring \<Rightarrow> nat \<Rightarrow> 64 word list" where
  "first_uds rg m = map (\<lambda>i. sqe_user_data (nth_sqe rg i)) [0..<m]"

lemma first_uds_Suc:
  "first_uds rg (Suc m) = sqe_user_data (nth_sqe rg 0) # first_uds (rg\<lparr>cached_sq_head := cached_sq_head rg + 1, sub := c\<rparr>) m"
proof -
  have "nth_sqe (rg\<lparr>cached_sq_head := cached_sq_head rg + 1, sub := c\<rparr>) i = nth_sqe rg (Suc i)" for i
    by (simp add: nth_sqe_def ac_simps)
  moreover have "[0..<Suc m] = 0 # map Suc [0..<m]" by (simp add: map_Suc_upt upt_conv_Cons del: upt_Suc)
  ultimately show ?thesis by (simp only: first_uds_def) simp
qed

lemma submit_loop_inv:
  "submit_inv uds (sub rg) \<Longrightarrow> submit_loop E alloc n k rg = (res, rg') \<Longrightarrow>
    \<exists>m \<le> n. (res = int (k + m) \<or> res = - EAGAIN \<and> k = 0 \<and> m = 0) \<and> submit_inv (uds @ first_uds rg m) (sub rg')
      \<and> (cached_sq_head rg' = cached_sq_head rg + word_of_nat m \<or> m < n \<and> cached_sq_head rg' = cached_sq_head rg + word_of_nat m + 1)"
proof (induction n arbitrary: uds k rg)
  case 0
  then show ?case by (auto simp: first_uds_def)
next
  case (Suc n)
  let ?rg = "rg\<lparr>cached_sq_head := cached_sq_head rg + 1\<rparr>"
  show ?case
  proof (cases "alloc k \<and> sq_array rg ! unat (cached_sq_head rg AND (sq_entries rg - 1)) < sq_entries rg")
    case False
    with Suc.prems show ?thesis
      by (intro exI [of _ 0]) (auto simp: first_uds_def io_get_sqe_def Let_def split: if_splits)
  next
    case True
    obtain ret c where sqe: "io_submit_sqe E (nth_sqe rg 0) (sub rg) = (ret, c)" by force
    have get: "io_get_sqe rg = (Some (nth_sqe rg 0), ?rg)" using True by (simp add: io_get_sqe_def Let_def nth_sqe_def)
    let ?rg1 = "?rg\<lparr>sub := c\<rparr>"
    have inv: "submit_inv (uds @ [sqe_user_data (nth_sqe rg 0)]) (sub ?rg1)"
      using submit_sqe_inv [OF Suc.prems(1), of "nth_sqe rg 0" E] sqe by simp
    show ?thesis
    proof (cases "ret \<noteq> 0 \<and> \<not> setup_submit_all rg")
      case stop: True
      with Suc.prems(2) True get sqe have "res = int k + 1" "rg' = ?rg1" by auto
      with inv show ?thesis by (intro exI [of _ 1]) (simp add: first_uds_def)
    next
      case False
      with Suc.prems(2) True get sqe have "submit_loop E alloc n (k + 1) ?rg1 = (res, rg')" by auto
      from Suc.IH [OF inv this] obtain m where m: "m \<le> n" "res = int (k + 1 + m)"
        "submit_inv ((uds @ [sqe_user_data (nth_sqe rg 0)]) @ first_uds ?rg1 m) (sub rg')"
        "cached_sq_head rg' = cached_sq_head ?rg1 + word_of_nat m \<or> m < n \<and> cached_sq_head rg' = cached_sq_head ?rg1 + word_of_nat m + 1"
        by auto
      then show ?thesis
        using first_uds_Suc [of rg m c] by (intro exI [of _ "Suc m"]) (auto simp: ac_simps)
    qed
  qed
qed

text \<open>The end of a batch queues the chain that is still open.\<close>

lemma state_end_good:
  assumes "submit_inv uds ctx"
  shows "(\<forall>ch \<in> set (places (io_submit_state_end E ctx)). (\<forall>r \<in> set ch. \<not> has REQ_F_FAIL r) \<and> sublist (map rq_user_data ch) uds)
    \<and> mset uds = all_uds (io_submit_state_end E ctx)"
proof (cases "link_chain ctx")
  case Nil
  with assms show ?thesis by (simp add: io_submit_state_end_def submit_inv_def)
next
  case (Cons q qs)
  from assms have good: "\<forall>ch \<in> set (places ctx). (\<forall>r \<in> set ch. \<not> has REQ_F_FAIL r) \<and> sublist (map rq_user_data ch) uds"
    "mset uds = all_uds ctx + chain_uds (q # qs)" "linked q" "\<exists>r \<in> set (q # qs). has REQ_F_FAIL r \<Longrightarrow> has REQ_F_FAIL q"
    "suffix (map rq_user_data (q # qs)) uds"
    by (simp_all add: submit_inv_def Cons)
  from queue_good [OF good(1,2) _ good(4,5) refl, of E] good(3) Cons show ?thesis by (simp add: io_submit_state_end_def)
qed


text \<open>A chain whose first request is marked completes with the error of every request, and with a cancellation for those that have none.\<close>

lemma fail_links_comps:
  "comps (fail_links_loop False lnks ctx) = comps ctx @ map (\<lambda>r. (rq_user_data r, if has REQ_F_FAIL r then rq_result r else - ECANCELED)) lnks"
proof (induction lnks arbitrary: ctx)
  case (Cons r lnks)
  then show ?case by (simp add: Let_def fill_cqe_req_def has_clear)
qed simp

theorem failed_chain_completions:
  assumes "has REQ_F_FAIL req"
    "\<not> has REQ_F_CQE_SKIP req" "\<not> has REQ_F_SKIP_LINK_CQES req" "\<not> has REQ_F_ARM_LTIMEOUT req" "\<not> has REQ_F_LINK_TIMEOUT req"
  shows "comps (io_queue_sqe E (req # lnks) ctx) = comps ctx @ (rq_user_data req, rq_result req)
    # map (\<lambda>r. (rq_user_data r, if has REQ_F_FAIL r then rq_result r else - ECANCELED)) lnks"
proof -
  let ?r = "set_flags REQ_F_LINK (clear_flags REQ_F_HARDLINK req)"
  have skip: "\<not> has f ?r" if "\<not> has f req" "f \<in> {REQ_F_CQE_SKIP, REQ_F_SKIP_LINK_CQES, REQ_F_ARM_LTIMEOUT, REQ_F_LINK_TIMEOUT}" for f
    using that by (auto simp: has_set has_clear_other REQ_F_defs)
  let ?q = "set_flags REQ_F_FAIL ?r"
  have q: "req_set_fail ?r = ?q" using skip assms(2) by (simp add: req_set_fail_def Let_def has_set) (simp add: REQ_F_defs)
  have flags: "\<not> has f ?q" if "\<not> has f req" "f \<in> {REQ_F_CQE_SKIP, REQ_F_SKIP_LINK_CQES, REQ_F_ARM_LTIMEOUT, REQ_F_LINK_TIMEOUT}" for f
    using that skip [OF that] by (auto simp: has_set [of _ REQ_F_FAIL]) (auto simp: REQ_F_defs)
  have more: "linked ?q" "has IO_DISARM_MASK ?q" "has REQ_F_FAIL ?q" "\<not> has REQ_F_HARDLINK ?q"
    by (simp_all add: has_or has_set has_clear IO_DISARM_MASK_def) (simp_all add: REQ_F_defs)
  have "io_queue_sqe E (req # lnks) ctx = io_req_complete_post E (?q # lnks) (rq_result req) ctx"
    using assms(1) q by (simp add: io_queue_sqe_def has_or io_queue_sqe_fallback_def io_req_complete_fail_submit_def
        io_req_complete_failed_def Let_def) (simp add: set_flags_def clear_flags_def)
  also have "comps \<dots> = comps (fail_links_loop False lnks (fill_cqe_req ?q (rq_result req) ctx))"
    using flags assms(2-5) more by (simp add: io_req_complete_post_def io_disarm_next_def io_fail_links_def Let_def)
  finally show ?thesis using flags assms(2) by (simp add: fail_links_comps fill_cqe_req_def)
qed

section \<open>Witness\<close>

text \<open>A chain of two requests, the second with an operation that does not exist, and a request of its own.\<close>

definition ex_submit_env :: submit_env where
  "ex_submit_env = \<lparr>override_creds = (\<lambda>_. 0), op_prep = (\<lambda>_. 0), op_prep_async = (\<lambda>_. 0), timer_cancels = (\<lambda>_. True)\<rparr>"

definition ex_sqe :: "nat \<Rightarrow> 8 word \<Rightarrow> 64 word \<Rightarrow> io_sqe" where
  "ex_sqe opc flags u = \<lparr>sqe_opcode = opc, sqe_flags = flags, sqe_user_data = u\<rparr>"

definition ex_submit_ctx :: submit_ctx where
  "ex_submit_ctx = \<lparr>sb_restricted = False, sb_sqe_op = (\<lambda>_. True), sqe_flags_required = 0, sqe_flags_allowed = 0, sb_drain_active = False,
     drain_next = False, drain_disabled = False, link_chain = [], issued = [], punted = [], drained = [], task_next = [], comps = [], silent = []\<rparr>"

definition ex_sq_ring :: sq_ring where
  "ex_sq_ring = \<lparr>sq_head = 0, sq_tail = 3, cached_sq_head = 0, sq_entries = 4, sq_array = [0, 1, 2, 3],
     sq_sqes = [ex_sqe 0 4 1, ex_sqe 99 0 2, ex_sqe 0 0 3, ex_sqe 0 0 4], sq_dropped = 0, sq_cq_extra = 0, setup_submit_all = False,
     cached_refs = 0, sub = ex_submit_ctx\<rparr>"

definition ex_sq_ring' :: sq_ring where
  "ex_sq_ring' = snd (io_submit_sqes ex_submit_env (\<lambda>_. True) 8 ex_sq_ring)"


end
