(* ===== verification/Spec2Isabelle.thy ===== *)
theory Spec2Isabelle
  imports Weggli_Main Malloc_Bins Cluster_Epochs Cluster_Text Cluster_Serve Cluster_Health Cluster_Members Cluster_Link
    Parser_Repair Rtrs_Paths Rtrs_Permits Nfp_Cache Nfp_Handle
    Uring_Timeout_Spec Uring_Submit
begin

text \<open>
  A verification development for weggli-enhance, a semantic search tool for C code written in Rust
  (\<^verbatim>\<open>src/src\<close>), and for six of the C programs of its sample corpus (\<^verbatim>\<open>src/examples\<close>).

  \<^bold>\<open>The program.\<close> The tool reads rule files, compiles the patterns of every rule into trees of
  tree-sitter queries, runs them on the syntax trees of the selected source files, filters the
  matches and reports them on the terminal or as a SARIF document. The data flows through
  \<^item> \<^verbatim>\<open>main.rs\<close>, \<^verbatim>\<open>rules.rs\<close>, \<^verbatim>\<open>types.rs\<close>: arguments to files, rules and work items (theories
    \<open>Weggli_Rules\<close>, \<open>Weggli_Main\<close>);
  \<^item> \<^verbatim>\<open>lib.rs\<close>, \<^verbatim>\<open>builder.rs\<close>, \<^verbatim>\<open>capture.rs\<close>: a pattern to a \<open>QueryTree\<close> (\<open>Weggli_Capture\<close>,
    \<open>Weggli_Builder\<close>, with lemmas in \<open>Weggli_Trees\<close> and \<open>Weggli_Compile\<close>);
  \<^item> \<^verbatim>\<open>pipeline.rs\<close>: the workers that parse the files and run the queries (\<open>Weggli_Pipeline\<close>);
  \<^item> \<^verbatim>\<open>query.rs\<close>, \<^verbatim>\<open>result.rs\<close>, \<^verbatim>\<open>util.rs\<close>: the matching engine, its results and number literals
    (\<open>Weggli_Query\<close>, \<open>Weggli_Result\<close>, \<open>Weggli_Util\<close>);
  \<^item> \<^verbatim>\<open>output/sarif.rs\<close>, \<^verbatim>\<open>output/terminal.rs\<close>: the reports (\<open>Weggli_Output\<close>).
  The sample programs are \<^verbatim>\<open>examples/malloc.c\<close>, a memory allocator (\<open>Malloc\<close>, \<open>Malloc_Sizes\<close>,
  \<open>Malloc_Bins\<close>), \<^verbatim>\<open>examples/cluster.c\<close>, the cluster code of a Redis server (the theories
  \<open>Cluster_\<close>...), \<^verbatim>\<open>examples/nfp_cppcore.c\<close>, the driver of a bus (\<open>Nfp_Cpp\<close>, \<open>Nfp_Cache\<close>, \<open>Nfp_Handle\<close>), and
  parts of \<^verbatim>\<open>examples/rtrs-clt.c\<close>, the client of an RDMA transport (\<open>Rtrs_State\<close>, \<open>Rtrs_Permits\<close>,
  \<open>Rtrs_Paths\<close>), of \<^verbatim>\<open>examples/io_uring.c\<close>, the rings between an application and a kernel (\<open>Uring_Cq\<close>,
  \<open>Uring_Timeouts\<close>, \<open>Uring_Timeout_Spec\<close>, \<open>Uring_Submit\<close>), and of \<^verbatim>\<open>examples/parser.c\<close>, the parser of
  tree-sitter (\<open>Parser_Versions\<close>, \<open>Parser_Repair\<close>).

  \<^bold>\<open>Conventions.\<close> \<open>Prelude\<close> has what all parts share. Structs are records, enums datatypes; a Rust
  panic or a C crash is \<open>None\<close> of \<open>'a panics\<close> or the flag \<open>aborted\<close> of the cluster state; errors are
  values. Rust strings are their UTF-8 bytes and slices panic as in Rust. Hash maps are association
  lists in iteration order; where the order of a hash map cannot be known it is an argument. Code
  outside the repository is an argument of the definitions: tree-sitter and the regex engine are
  the records \<open>engine\<close> and \<open>host\<close>, the file system and the walker the record \<open>system\<close>, the
  operating system of the allocator \<open>sys\<close>, the headers of the server and its other files \<open>env\<close>, the
  layout of its packets \<open>wire\<close>, the operations of the bus device \<open>nfp_ops\<close> and \<open>probe\<close>.
  What a theorem needs of them is a hypothesis of the theorem, and its witness gives an instance.

  \<^bold>\<open>The search tool.\<close>
  \<^item> \<open>Weggli_Query\<close>: \<open>match_internal\<close> is the recursive engine with its cache of subquery results,
    \<open>match_ref\<close> the same engine without the cache. They agree when the cache keys identify the
    subqueries; the engine does not panic and its results are well formed; a match is dropped
    exactly when a constraint is broken. The locale \<open>memoized\<close> is the contract of the
    engine's cache, interpreted on \<open>cache_sound\<close>, and carries the first proof. The locale
    \<open>merging\<close> of \<open>Weggli_Result\<close> is the contract of \<open>merge\<close>, which refines the union of bindings.
  \<^item> \<open>Weggli_Builder\<close>: \<open>build\<close> is a recursion over the syntax tree of a pattern whose branches are
    definitions with the recursive call as an argument. A cursor is a node with its parent: after
    the replacement of an expression statement by its expression the cursor of the code stays at
    the expression, and no caller moves such a cursor on. The locale \<open>builder_relation\<close> of
    \<open>Weggli_Trees\<close> lifts a property of single builder steps to the translation; its three
    interpretations give the shape of the trees, the numbering of subqueries and the balanced query
    texts. \<open>Weggli_Compile\<close> shows that compilation returns on every tree of the grammar's shape, what
    errors it has, and that the error reported is the first one in the text.
  \<^item> \<open>Weggli_Pipeline\<close>: files dropped by the identifier prefilter have no match, the switches
    \<open>--unique\<close> and \<open>--limit\<close> keep what they say, and the cross-query filter keeps exactly the
    results that are compatible with a result of every other query. The two workers are run one
    after the other; the channel between them delivers in order.
  \<^item> \<open>Weggli_Rules\<close>, \<open>Weggli_Main\<close>, \<open>Weggli_Output\<close>: regex constraints, the choice of files, what a
    report may contain, locations, deduplication, and which document is left in the output file.

  \<^bold>\<open>The allocator.\<close> Memory is a map of 64-bit words with the bins in it, sizes are 64-bit words.
  \<open>Malloc_Sizes\<close> shows that rounding a request does not wrap and that a bin found by
  \<open>bin_index_up\<close> has chunks that are big enough; \<open>Malloc_Bins\<close> that \<open>unbin\<close> and the insertion of
  \<open>free\<close> refine operations on lists and that the search of \<open>malloc\<close> ends with the chunk it should.
  The loops are \<open>partial_function (option)\<close>, where \<open>None\<close> is a loop that does not end; the theorem
  about the search proves that it returns. One thread is modelled.

  \<^bold>\<open>The cluster node.\<close> \<open>Cluster_State\<close> has the state, with nodes and links as references;
  \<open>Cluster_Print\<close>, \<open>Cluster_Nodes\<close>, \<open>Cluster_Msg\<close>, \<open>Cluster_Config\<close>, \<open>Cluster_Failover\<close>,
  \<open>Cluster_Packet\<close>, \<open>Cluster_Cron\<close>, \<open>Cluster_Load\<close>, \<open>Cluster_Query\<close> and \<open>Cluster_Commands\<close> follow the
  sections of the file. \<open>Cluster_Reachable\<close> defines the runs: a start from a configuration file or
  without one, then packets, cron runs, commands, connections and link errors in any order.
  The locales \<open>cluster_invariant\<close> (\<open>Cluster_Invariant\<close>) and \<open>cluster_table\<close> say what an invariant
  must survive; they are interpreted for names, failure reports and the slot table in
  \<open>Cluster_Tables\<close>. On top of them: the slot table, the bitmaps and the counters agree in every
  reachable state, node names are unique; \<open>Cluster_Slots\<close> characterises ADDSLOTS and DELSLOTS and the
  claims of other nodes, \<open>Cluster_Takeover\<close> failure marks and the takeover of a slave,
  \<open>Cluster_Epochs\<close> that a node votes once in an epoch, \<open>Cluster_Health\<close> the cluster state, epoch
  collisions and won elections, \<open>Cluster_Serve\<close> the redirections, \<open>Cluster_Text\<close> the round trip of
  the configuration file, \<open>Cluster_Members\<close> membership. \<open>Cluster_Link\<close> has the socket handlers: the
  bytes of a link are processed as one stream, however the network cuts them (\<open>stream_packets\<close> is
  the specification, the chunks that arrive are the argument). \<open>Cluster_Example\<close> has the concrete states of
  the witnesses. Epochs are 64-bit, packet lengths 32-bit words.

  \<^bold>\<open>The parser.\<close> \<open>Parser_Versions\<close> has the decisions between trees and between the versions of the parse
  stack, with the stack as a parameter that is seen as a list of versions (\<open>stack_ok\<close>): condensing
  the stack returns, and what it leaves is characterised; \<open>condense_drops_best\<close> is a run that loses
  the cheapest version. \<open>Parser_Repair\<close> has the search for the reduction that repairs an error: the
  reductions that fit a sequence of trees, and that a repair is taken only when it is usable and skips
  fewer trees than the best one so far.

  \<^bold>\<open>The RDMA client.\<close> \<open>Rtrs_State\<close> is the state machine of a path (\<open>rtrs_clt_change_state\<close>) with its
  threads: the opener, the reconnect work, the close work, responses, errors and removals, each cut
  at the points where others may run; \<open>internal_step\<close> and \<open>path_step\<close> are the steps and
  \<open>path_reachable\<close> the reachable states. Every interleaving ends in a settled state within a bounded
  number of steps, and a dead path stays dead. \<open>Rtrs_Permits\<close> has the bitmap of permits with the
  atomic operations of several processors interleaved: a permit has one holder. \<open>Rtrs_Paths\<close> has the
  three multipath policies and the loop that posts a request: it reaches a path that accepts it.

  \<^bold>\<open>The bus driver.\<close> \<open>Nfp_Cpp\<close> has areas with reference counts in a store where the access to a freed area
  sets a flag, the sorted resources, the area cache and the transfers, with addresses as 64-bit
  words. \<open>Nfp_Cache\<close> states the contract of a device that serves every request (\<open>device_ok\<close>) and the
  invariant \<open>cpp_inv\<close>, and shows that reads and writes through the cache are reads and writes of the
  target's memory, that words and ranges are read back as written, and that the end of a handle frees
  every area once; \<open>cache_error_frees_area\<close> and \<open>acquire_twice_frees\<close> are runs in which the code
  uses freed memory. \<open>Nfp_Handle\<close> has the creation of a handle with its error paths and the
  explicit transactions. One thread is modelled.

  \<^bold>\<open>The rings of asynchronous I/O.\<close> \<open>Uring_Cq\<close> has the completion ring with its backlog and 32-bit
  counters that wrap; \<open>cq_step\<close> interleaves the operations of the kernel, which its lock makes atomic, with
  the application, and no completion is lost or duplicated in a reachable state. \<open>Uring_Timeouts\<close> has the
  timeouts that complete after a number of completions and the requests that wait for all others,
  \<open>Uring_Timeout_Spec\<close> their specification with an unbounded counter and the refinement; it assumes room
  in the ring, timers that can be cancelled and timeouts that ask for an event, and has runs where
  timeouts complete early without the last, or when the events of expired timers are late.
  \<open>Uring_Submit\<close> has the submission ring, the initialisation of requests with drains and restrictions,
  and the link chains as lists of requests: a chain is executed as a whole or completed with errors
  as a whole. The preparation of the single operations is the record \<open>submit_env\<close>.

  \<^bold>\<open>Bounds.\<close> No definition needs fuel; the loops of the allocator, of \<open>parser__condense_stack\<close>, of the permits
  and of the bus transfers are \<open>partial_function (option)\<close> and proved to return, a wait for the device
  has the number of wake-ups before a signal as its bound, the other recursions are over lists and trees. Line and column numbers are unbounded, as offsets into a string in memory
  are far below the limits of \<open>usize\<close> and \<open>i64\<close>.

  \<^bold>\<open>Not modelled.\<close> The colours and the source excerpt of \<open>QueryResult::display\<close>, the argument
  declarations of \<^verbatim>\<open>cli.rs\<close>, JSON serialisation and logging of the tool; DUMP, RESTORE and MIGRATE of the
  cluster node, which consist of calls into the serialisation and network code of the server; the
  drivers of the tree-sitter parser (\<open>parser__lex\<close>, \<open>parser__reduce\<close>, \<open>parser__advance\<close> and the functions
  between them), which consist of calls into the stack, the subtrees and the lexer, files that are not
  in the repository; of the RDMA client the posting of work requests, memory registration, connection
  management and sysfs, which are calls into kernel subsystems; of \<^verbatim>\<open>examples/io_uring.c\<close> the operations
  themselves, polling, cancellation, registered files and buffers, worker threads and reference counts,
  which rest on the file, memory and scheduling code of the kernel.
\<close>

end
